(* ===== verification/Prelude.thy ===== *)
theory Prelude
  imports Main "HOL-Library.Word" "HOL-Library.Signed_Division"
begin

text \<open>
  Shared vocabulary of the BUENOS development: the machine integer types of
  \<^verbatim>\<open>lib/types.h\<close>, results of kernel code that may panic, checked array accesses,
  the three loop shapes the C code uses everywhere (search, counted loop, counted loop that may
  fail), and the list and word facts the components share.

  A C \<^verbatim>\<open>int\<close> is an \<open>int\<close> and an unsigned 32-bit value is a \<open>32 word\<close>; a C array is a
  list of the array's length.  C's truncating division and remainder on signed values are
  \<open>sdiv\<close> and \<open>smod\<close>.
\<close>

unbundle bit_operations_syntax

type_synonym uint8 = "8 word"
type_synonym uint16 = "16 word"
type_synonym uint32 = "32 word"

subsection \<open>Results of kernel code\<close>

text \<open>
  A kernel function either returns or stops the machine.  \<open>Panic\<close> is \<^verbatim>\<open>KERNEL_PANIC\<close> or a
  failed \<^verbatim>\<open>KERNEL_ASSERT\<close> (both end in \<^verbatim>\<open>_kernel_panic\<close>, which shuts the machine
  down); \<open>Fault\<close> is an access outside the accessed object, which C leaves undefined;
  \<open>Deadlock\<close> is a \<^verbatim>\<open>spinlock_acquire\<close> of a lock that is already held and that nobody
  can release.
\<close>

datatype kfault = Panic string | Fault | Deadlock

type_synonym 'a kres = "kfault + 'a"

fun bindE :: "'a kres \<Rightarrow> ('a \<Rightarrow> 'b kres) \<Rightarrow> 'b kres" where
  "bindE (Inl e) f = Inl e"
| "bindE (Inr x) f = f x"

definition KERNEL_ASSERT :: "bool \<Rightarrow> 'a kres \<Rightarrow> 'a kres" where
  "KERNEL_ASSERT condition k = (if condition then k else Inl (Panic ''Assertion failed''))"

definition KERNEL_PANIC :: "string \<Rightarrow> 'a kres" where
  "KERNEL_PANIC description = Inl (Panic description)"

text \<open>Checked array read and write.\<close>

definition rd :: "'a list \<Rightarrow> int \<Rightarrow> 'a kres" where
  "rd xs i = (if 0 \<le> i \<and> nat i < length xs then Inr (xs ! nat i) else Inl Fault)"

definition wr :: "'a list \<Rightarrow> int \<Rightarrow> 'a \<Rightarrow> 'a list kres" where
  "wr xs i v = (if 0 \<le> i \<and> nat i < length xs then Inr (xs[nat i := v]) else Inl Fault)"

subsection \<open>Loops\<close>

text \<open>
  \<^verbatim>\<open>for (; i < n; i++) if (P(i)) break;\<close> returns the final value of \<open>i\<close>: the first index
  from \<open>i\<close> on that satisfies \<open>P\<close>, or \<open>n\<close>.
\<close>

function first_from :: "(nat \<Rightarrow> bool) \<Rightarrow> nat \<Rightarrow> nat \<Rightarrow> nat" where
  "first_from P i n = (if i < n then if P i then i else first_from P (Suc i) n else i)"
  by pat_completeness auto
termination
  by (relation "measure (\<lambda>(P, i, n). n - i)") auto

declare first_from.simps [simp del]

lemma first_from_stop: "\<not> i < n \<Longrightarrow> first_from P i n = i"
  and first_from_hit: "i < n \<Longrightarrow> P i \<Longrightarrow> first_from P i n = i"
  and first_from_next: "i < n \<Longrightarrow> \<not> P i \<Longrightarrow> first_from P i n = first_from P (Suc i) n"
  by (simp_all add: first_from.simps [of P i n])

lemmas first_from_eqs = first_from_stop first_from_hit first_from_next

text \<open>\<^verbatim>\<open>for (; i < n; i++) if (P(xs[i])) break;\<close>, with the array access checked.\<close>

function find_from :: "('a \<Rightarrow> bool) \<Rightarrow> 'a list \<Rightarrow> nat \<Rightarrow> nat \<Rightarrow> nat kres" where
  "find_from P xs i n =
     (if i < n then bindE (rd xs (int i)) (\<lambda>x. if P x then Inr i else find_from P xs (Suc i) n)
      else Inr i)"
  by pat_completeness auto
termination
  by (relation "measure (\<lambda>(P, xs, i, n). n - i)") auto

declare find_from.simps [simp del]

text \<open>\<^verbatim>\<open>for (; i < n; i++) s = f(i, s);\<close>\<close>

function for_range :: "nat \<Rightarrow> nat \<Rightarrow> (nat \<Rightarrow> 's \<Rightarrow> 's) \<Rightarrow> 's \<Rightarrow> 's" where
  "for_range i n f s = (if i < n then for_range (Suc i) n f (f i s) else s)"
  by pat_completeness auto
termination
  by (relation "measure (\<lambda>(i, n, f, s). n - i)") auto

declare for_range.simps [simp del]

lemma for_range_stop [simp]: "\<not> i < n \<Longrightarrow> for_range i n f s = s"
  and for_range_step: "i < n \<Longrightarrow> for_range i n f s = for_range (Suc i) n f (f i s)"
  by (simp_all add: for_range.simps [of i n f s])

text \<open>The same loop with a body that may stop the machine.\<close>

function for_rangeE :: "nat \<Rightarrow> nat \<Rightarrow> (nat \<Rightarrow> 's \<Rightarrow> 's kres) \<Rightarrow> 's \<Rightarrow> 's kres" where
  "for_rangeE i n f s = (if i < n then bindE (f i s) (for_rangeE (Suc i) n f) else Inr s)"
  by pat_completeness auto
termination
  by (relation "measure (\<lambda>(i, n, f, s). n - i)") auto

declare for_rangeE.simps [simp del]

lemma for_rangeE_stop [simp]: "\<not> i < n \<Longrightarrow> for_rangeE i n f s = Inr s"
  and for_rangeE_step:
    "i < n \<Longrightarrow> for_rangeE i n f s = bindE (f i s) (for_rangeE (Suc i) n f)"
  by (simp_all add: for_rangeE.simps [of i n f s])

subsection \<open>Facts on results\<close>

named_theorems kres_iff \<open>when a computation returns a value\<close>

lemma bindE_Inr [kres_iff]: "bindE m f = Inr y \<longleftrightarrow> (\<exists>x. m = Inr x \<and> f x = Inr y)"
  by (cases m) auto

lemma bindE_Inl: "bindE m f = Inl e \<longleftrightarrow> m = Inl e \<or> (\<exists>x. m = Inr x \<and> f x = Inl e)"
  by (cases m) auto

lemma bindE_assoc: "bindE (bindE m f) g = bindE m (\<lambda>x. bindE (f x) g)"
  by (cases m) simp_all

lemma KERNEL_ASSERT_Inr [kres_iff]: "KERNEL_ASSERT c k = Inr y \<longleftrightarrow> c \<and> k = Inr y"
  by (simp add: KERNEL_ASSERT_def)

lemma KERNEL_ASSERT_True [simp]: "c \<Longrightarrow> KERNEL_ASSERT c k = k"
  by (simp add: KERNEL_ASSERT_def)

lemma KERNEL_PANIC_Inr [kres_iff]: "KERNEL_PANIC d = Inr y \<longleftrightarrow> False"
  by (simp add: KERNEL_PANIC_def)

lemma rd_Inr [kres_iff]: "rd xs i = Inr v \<longleftrightarrow> 0 \<le> i \<and> nat i < length xs \<and> v = xs ! nat i"
  by (auto simp: rd_def)

lemma wr_Inr [kres_iff]:
  "wr xs i v = Inr ys \<longleftrightarrow> 0 \<le> i \<and> nat i < length xs \<and> ys = xs[nat i := v]"
  by (auto simp: wr_def)

lemma rd_ok [simp]: "0 \<le> i \<Longrightarrow> nat i < length xs \<Longrightarrow> rd xs i = Inr (xs ! nat i)"
  by (auto simp: rd_def)

lemma wr_ok [simp]: "0 \<le> i \<Longrightarrow> nat i < length xs \<Longrightarrow> wr xs i v = Inr (xs[nat i := v])"
  by (auto simp: wr_def)

text \<open>
  Total correctness: \<open>returns P m\<close> says that the computation \<open>m\<close> returns a value with property \<open>P\<close>.
  The rules follow the structure of a program, so that \<open>intro\<close> with them computes what has to be
  shown.
\<close>

definition returns :: "('a \<Rightarrow> bool) \<Rightarrow> 'a kres \<Rightarrow> bool" where
  "returns P m \<longleftrightarrow> (\<exists>x. m = Inr x \<and> P x)"

lemma returns_Inr [simp]: "returns P (Inr x) \<longleftrightarrow> P x"
  by (simp add: returns_def)

lemma returns_Inl [simp]: "\<not> returns P (Inl e)"
  by (simp add: returns_def)

lemma returns_bind [simp]: "returns P (bindE m k) \<longleftrightarrow> returns (\<lambda>x. returns P (k x)) m"
  by (cases m) (simp_all add: returns_def)

lemma returns_mono: "returns P m \<Longrightarrow> (\<And>x. P x \<Longrightarrow> Q x) \<Longrightarrow> returns Q m"
  by (auto simp: returns_def)

lemma returnsE: "returns P m \<Longrightarrow> (\<And>x. m = Inr x \<Longrightarrow> P x \<Longrightarrow> R) \<Longrightarrow> R"
  by (auto simp: returns_def)

text \<open>
  Partial correctness, for what holds on every path that returns, whatever the code behind a
  function pointer does: \<open>after P m\<close> says that if \<open>m\<close> returns a value, the value has property \<open>P\<close>.
\<close>

definition after :: "('a \<Rightarrow> bool) \<Rightarrow> 'a kres \<Rightarrow> bool" where
  "after P m \<longleftrightarrow> (\<forall>x. m = Inr x \<longrightarrow> P x)"

lemma after_Inr [simp]: "after P (Inr x) \<longleftrightarrow> P x"
  by (simp add: after_def)

lemma after_Inl [simp]: "after P (Inl e)"
  by (simp add: after_def)

lemma after_bind [simp]: "after P (bindE m k) \<longleftrightarrow> after (\<lambda>x. after P (k x)) m"
  by (cases m) (simp_all add: after_def)

lemma after_assert [simp]: "after P (KERNEL_ASSERT c k) \<longleftrightarrow> (c \<longrightarrow> after P k)"
  by (simp add: KERNEL_ASSERT_def)

lemma after_rd [simp]: "after P (rd xs i) \<longleftrightarrow> (0 \<le> i \<and> nat i < length xs \<longrightarrow> P (xs ! nat i))"
  by (auto simp: rd_def)

lemma after_wr [simp]: "after P (wr xs i v) \<longleftrightarrow> (0 \<le> i \<and> nat i < length xs \<longrightarrow> P (xs[nat i := v]))"
  by (auto simp: wr_def)

lemma after_mono: "after P m \<Longrightarrow> (\<And>x. m = Inr x \<Longrightarrow> P x \<Longrightarrow> Q x) \<Longrightarrow> after Q m"
  by (auto simp: after_def)

lemma afterD: "after P m \<Longrightarrow> m = Inr x \<Longrightarrow> P x"
  by (simp add: after_def)

subsection \<open>Facts on loops\<close>

lemma first_from_ge: "i \<le> first_from P i n"
proof (induction P i n rule: first_from.induct)
  case (1 P i n)
  then show ?case by (cases "i < n"; cases "P i") (auto simp: first_from_eqs)
qed

lemma first_from_le: "i \<le> n \<Longrightarrow> first_from P i n \<le> n"
proof (induction P i n rule: first_from.induct)
  case (1 P i n)
  then show ?case by (cases "i < n"; cases "P i") (auto simp: first_from_eqs)
qed

lemma first_from_holds: "first_from P i n < n \<Longrightarrow> P (first_from P i n)"
proof (induction P i n rule: first_from.induct)
  case (1 P i n)
  then show ?case by (cases "i < n"; cases "P i") (auto simp: first_from_eqs)
qed

lemma first_from_before: "i \<le> j \<Longrightarrow> j < first_from P i n \<Longrightarrow> \<not> P j"
proof (induction P i n rule: first_from.induct)
  case (1 P i n)
  show ?case
  proof (cases "i < n \<and> \<not> P i \<and> i < j")
    case True
    with 1 show ?thesis by (simp add: first_from_next)
  next
    case False
    with "1.prems" show ?thesis
      by (cases "i < n"; cases "P i") (auto simp: first_from_eqs)
  qed
qed

lemma first_from_eq_n_iff: "i \<le> n \<Longrightarrow> first_from P i n = n \<longleftrightarrow> (\<forall>j. i \<le> j \<and> j < n \<longrightarrow> \<not> P j)"
  by (metis first_from_before first_from_ge first_from_holds first_from_le le_neq_implies_less)

lemma first_from_eqI:
  assumes "i \<le> k" "k < n" "P k" "\<And>j. i \<le> j \<Longrightarrow> j < k \<Longrightarrow> \<not> P j"
  shows "first_from P i n = k"
proof -
  have "first_from P i n \<le> k"
    using assms(1,3) first_from_before leI by blast
  moreover have "\<not> first_from P i n < k"
    using assms(2,4) first_from_ge first_from_holds less_trans by metis
  ultimately show ?thesis by simp
qed

lemma find_from_eq:
  "n \<le> length xs \<Longrightarrow> find_from P xs i n = Inr (first_from (\<lambda>i. P (xs ! i)) i n)"
proof (induction P xs i n rule: find_from.induct)
  case (1 P xs i n)
  then show ?case
    by (cases "i < n"; cases "P (xs ! i)")
      (simp_all add: find_from.simps [of P xs i n] first_from_eqs)
qed

lemma find_from_hit:
  "i \<le> k \<Longrightarrow> k < n \<Longrightarrow> k < length xs \<Longrightarrow> P (xs ! k) \<Longrightarrow> \<forall>j. i \<le> j \<and> j < k \<longrightarrow> \<not> P (xs ! j) \<Longrightarrow> find_from P xs i n = Inr k"
proof (induction P xs i n rule: find_from.induct)
  case (1 P xs i n)
  then show ?case
    by (cases "i = k") (simp add: find_from.simps [of P xs k n], auto simp: find_from.simps [of P xs i n])
qed

lemma find_from_out:
  "length xs < n \<Longrightarrow> i \<le> length xs \<Longrightarrow> \<forall>j. i \<le> j \<and> j < length xs \<longrightarrow> \<not> P (xs ! j) \<Longrightarrow> find_from P xs i n = Inl Fault"
proof (induction P xs i n rule: find_from.induct)
  case (1 P xs i n)
  then show ?case
    by (cases "i = length xs") (simp add: find_from.simps [of P xs "length xs" n] rd_def, auto simp: find_from.simps [of P xs i n])
qed

lemma for_range_inv:
  assumes "I i s" and "i \<le> n"
    and "\<And>j s. i \<le> j \<Longrightarrow> j < n \<Longrightarrow> I j s \<Longrightarrow> I (Suc j) (f j s)"
  shows "I n (for_range i n f s)"
  using assms
proof (induction i n f s rule: for_range.induct)
  case (1 i n f s)
  then show ?case by (cases "i < n") (auto simp: for_range_step)
qed

lemma for_rangeE_inv:
  assumes "I i s" and "i \<le> n"
    and "\<And>j s. i \<le> j \<Longrightarrow> j < n \<Longrightarrow> I j s \<Longrightarrow> \<exists>s'. f j s = Inr s' \<and> I (Suc j) s'"
  shows "\<exists>s'. for_rangeE i n f s = Inr s' \<and> I n s'"
  using assms
proof (induction i n f s rule: for_rangeE.induct)
  case (1 i n f s)
  show ?case
  proof (cases "i < n")
    case True
    then obtain s' where s': "f i s = Inr s'" "I (Suc i) s'"
      using "1.prems" by blast
    have "\<exists>t. for_rangeE (Suc i) n f s' = Inr t \<and> I n t"
      by (rule "1.IH" [OF True s'(2)]) (use True "1.prems"(3) in auto)
    with True s'(1) show ?thesis by (simp add: for_rangeE_step)
  next
    case False
    with "1.prems" show ?thesis by simp
  qed
qed

text \<open>A relation that every step of a loop maintains, for a body that may stop the machine.\<close>

lemma for_rangeE_after:
  assumes "\<And>j s. after (R s) (f j s)" "for_rangeE i n f s = Inr t" "\<And>s. R s s" "\<And>s t u. R s t \<Longrightarrow> R t u \<Longrightarrow> R s u"
  shows "R s t"
  using assms(1,2)
proof (induction i n f s rule: for_rangeE.induct)
  case (1 i n f s)
  show ?case
  proof (cases "i < n")
    case True
    with "1.prems"(2) obtain s' where s': "f i s = Inr s'" "for_rangeE (Suc i) n f s' = Inr t"
      by (auto simp: for_rangeE_step kres_iff)
    have "R s s'" by (rule afterD [OF "1.prems"(1) s'(1)])
    moreover have "R s' t" by (rule "1.IH" [OF True "1.prems"(1) s'(2)])
    ultimately show ?thesis by (rule assms(4))
  qed (use "1.prems" assms(3) in simp)
qed

text \<open>A loop that assigns every element of an array is a map.\<close>

lemma for_range_update_all:
  "for_range 0 (length xs) (\<lambda>i ys. ys[i := g (ys ! i)]) xs = map g xs"
proof -
  have "length (for_range 0 (length xs) (\<lambda>i ys. ys[i := g (ys ! i)]) xs) = length xs \<and>
      (\<forall>j < length xs. for_range 0 (length xs) (\<lambda>i ys. ys[i := g (ys ! i)]) xs ! j =
        (if j < length xs then g (xs ! j) else xs ! j))"
    by (rule for_range_inv [where I = "\<lambda>k ys. length ys = length xs \<and>
          (\<forall>j < length xs. ys ! j = (if j < k then g (xs ! j) else xs ! j))"])
      (auto simp: nth_list_update less_Suc_eq)
  then show ?thesis by (auto intro: nth_equalityI)
qed

lemma for_rangeE_update_all:
  "for_rangeE 0 (length xs) (\<lambda>i l. bindE (rd l (int i)) (\<lambda>e. wr l (int i) (g e))) xs = Inr (map g xs)"
proof -
  have "\<exists>ys. for_rangeE 0 (length xs) (\<lambda>i l. bindE (rd l (int i)) (\<lambda>e. wr l (int i) (g e))) xs = Inr ys \<and>
      length ys = length xs \<and> (\<forall>j < length xs. ys ! j = (if j < length xs then g (xs ! j) else xs ! j))"
    by (rule for_rangeE_inv [where I = "\<lambda>k ys. length ys = length xs \<and>
          (\<forall>j < length xs. ys ! j = (if j < k then g (xs ! j) else xs ! j))"])
      (auto simp: nth_list_update less_Suc_eq)
  then show ?thesis by (auto intro!: nth_equalityI)
qed

subsection \<open>Facts on 32-bit words\<close>

lemma unat_of_nat_small: "n < 2 ^ 32 \<Longrightarrow> unat (of_nat n :: uint32) = n"
  by (simp add: unat_of_nat)

lemma sint_of_nat_small: "n < 2 ^ 31 \<Longrightarrow> sint (of_nat n :: uint32) = int n"
  by (simp add: sint_uint uint_nat unat_of_nat signed_take_bit_int_eq_self)

lemma sint_small: "unat w < 2 ^ 31 \<Longrightarrow> sint w = int (unat w)" for w :: uint32
  using sint_of_nat_small [of "unat w"] by simp

lemma word_of_int_nonneg: "0 \<le> k \<Longrightarrow> (word_of_int k :: uint32) = of_nat (nat k)"
  by simp

lemma unat_of_int_small: "0 \<le> k \<Longrightarrow> nat k < 2 ^ 32 \<Longrightarrow> unat (word_of_int k :: uint32) = nat k"
  by (simp only: word_of_int_nonneg unat_of_nat_small)

lemma unat_eq_of_nat: "unat w = n \<Longrightarrow> w = of_nat n" for w :: uint32
  by auto

end
