(* ===== verification/Machine.thy ===== *)
theory Machine
  imports Prelude
begin

text \<open>
  The processor state the kernel's C code touches through the assembler wrappers of
  \<^verbatim>\<open>kernel/_interrupt.S\<close> and the spinlocks of \<^verbatim>\<open>kernel/_spinlock.S\<close>.  The record
  \<open>machine\<close> is the root of the chain of records that holds the kernel's global variables: the
  theory of each C file extends the record with that file's static variables, and its functions
  are polymorphic in what later files add.
\<close>

record machine =
  cp0_status :: uint32
  cp0_cause :: uint32
  this_cpu :: int

definition INTERRUPT_MASK_ALL :: uint32 where "INTERRUPT_MASK_ALL = 0xff00"
definition INTERRUPT_MASK_MASTER :: uint32 where "INTERRUPT_MASK_MASTER = 0x1"
definition INTERRUPT_CAUSE_SOFTWARE_0 :: uint32 where "INTERRUPT_CAUSE_SOFTWARE_0 = push_bit 8 1"
definition INTERRUPT_CAUSE_HARDWARE_5 :: uint32 where "INTERRUPT_CAUSE_HARDWARE_5 = push_bit 15 1"

definition interrupt_disable :: "'a machine_scheme \<Rightarrow> uint32 \<times> 'a machine_scheme" where
  "interrupt_disable s = (cp0_status s, s\<lparr>cp0_status := 0xffff00fe AND cp0_status s\<rparr>)"

definition interrupt_enable :: "'a machine_scheme \<Rightarrow> uint32 \<times> 'a machine_scheme" where
  "interrupt_enable s = (cp0_status s, s\<lparr>cp0_status := 0x0000ff01 OR cp0_status s\<rparr>)"

definition interrupt_set_state :: "uint32 \<Rightarrow> 'a machine_scheme \<Rightarrow> 'a machine_scheme" where
  "interrupt_set_state a s =
     s\<lparr>cp0_status := (0x0000ff01 AND a) OR (cp0_status s AND NOT 0x0000ff01)\<rparr>"

definition interrupt_get_state :: "'a machine_scheme \<Rightarrow> uint32" where
  "interrupt_get_state s = cp0_status s"

definition interrupt_generate_sw0 :: "'a machine_scheme \<Rightarrow> 'a machine_scheme" where
  "interrupt_generate_sw0 s = s\<lparr>cp0_cause := cp0_cause s OR 0x00000100\<rparr>"

definition interrupt_clear_sw0 :: "'a machine_scheme \<Rightarrow> 'a machine_scheme" where
  "interrupt_clear_sw0 s = s\<lparr>cp0_cause := cp0_cause s AND 0xfffffeff\<rparr>"

definition interrupt_clear_EXL :: "'a machine_scheme \<Rightarrow> 'a machine_scheme" where
  "interrupt_clear_EXL s = s\<lparr>cp0_status := cp0_status s AND 0xfffffffd\<rparr>"

definition interrupt_set_EXL :: "'a machine_scheme \<Rightarrow> 'a machine_scheme" where
  "interrupt_set_EXL s = s\<lparr>cp0_status := cp0_status s OR 0x00000002\<rparr>"

text \<open>
  Interrupts reach the processor when the master bit and at least one mask bit are set; this is
  the condition \<^verbatim>\<open>sleepq_add\<close> asserts the negation of.
\<close>

definition interrupts_off :: "uint32 \<Rightarrow> bool" where
  "interrupts_off st = (st AND INTERRUPT_MASK_ALL = 0 \<or> st AND INTERRUPT_MASK_MASTER = 0)"

subsection \<open>Spinlocks\<close>

text \<open>
  A spinlock is a word, 0 when free.  \<^verbatim>\<open>spinlock_acquire\<close> spins until the word is 0 and
  then stores 1.  Critical sections are atomic in the model, so a lock found taken was taken by
  the same flow of control and the loop never ends.
\<close>

definition spinlock_acquire :: "uint32 \<Rightarrow> uint32 kres" where
  "spinlock_acquire slock = (if slock = 0 then Inr 1 else Inl Deadlock)"

definition spinlock_release :: "uint32 \<Rightarrow> uint32" where
  "spinlock_release slock = 0"

definition spinlock_reset :: "uint32 \<Rightarrow> uint32" where
  "spinlock_reset slock = 0"

lemma spinlock_acquire_free [simp]: "spinlock_acquire 0 = Inr 1"
  by (simp add: spinlock_acquire_def)

lemma spinlock_acquire_Inr [kres_iff]: "spinlock_acquire l = Inr l' \<longleftrightarrow> l = 0 \<and> l' = 1"
  by (auto simp: spinlock_acquire_def)

lemma spinlock_release_0 [simp]: "spinlock_release l = 0" "spinlock_reset l = 0"
  by (simp_all add: spinlock_release_def spinlock_reset_def)

subsection \<open>The disable and restore bracket\<close>

lemma mask_join: "(c AND x) OR ((d AND x) AND NOT c) = x" if "d = NOT c" for x c d :: uint32
  using that by (auto intro!: bit_word_eqI simp: bit_simps)

lemma interrupt_bracket_status:
  "cp0_status (interrupt_set_state a (s\<lparr>cp0_status := 0xffff00fe AND a\<rparr>)) = a"
  using mask_join [of "0xffff00fe" "0xff01" a] by (simp add: interrupt_set_state_def)

lemma interrupt_bracket [simp]:
  "interrupt_set_state (cp0_status s) (s\<lparr>cp0_status := 0xffff00fe AND cp0_status s\<rparr>) = s"
  using interrupt_bracket_status [of "cp0_status s" s] by (simp add: interrupt_set_state_def)

lemma status_bracket [simp]: "(0xff01 AND a) OR ((0xffff00fe AND a) AND - 65282) = a" for a :: uint32
  using mask_join [of "0xffff00fe" "0xff01" a] by simp

lemma interrupts_off_disable [simp]: "interrupts_off (0xffff00fe AND st)"
proof -
  have "(0xffff00fe AND st) AND 1 = st AND (0xffff00fe AND 1)"
    by (simp only: ac_simps)
  then show ?thesis by (simp add: interrupts_off_def INTERRUPT_MASK_MASTER_def)
qed

end
