(* ===== verification/Kmalloc.thy ===== *)
theory Kmalloc
  imports Machine
begin

text \<open>
  Permanent kernel memory (\<^verbatim>\<open>kernel/kmalloc.c\<close>).  The YAMS device descriptors are a list,
  the value of a device port is a function of its address, and the linker symbol
  \<^verbatim>\<open>KERNEL_ENDS_HERE\<close> is an argument.  Console messages are not modelled.
\<close>

definition PAGE_SIZE :: uint32 where "PAGE_SIZE = 4096"
definition PAGE_SIZE_MASK :: uint32 where "PAGE_SIZE_MASK = 0xfffff000"
definition YAMS_MAX_DEVICES :: nat where "YAMS_MAX_DEVICES = 128"

record io_descriptor =
  iod_type :: uint32
  io_area_base :: uint32
  io_area_len :: uint32
  iod_irq :: uint32

record kmem = machine +
  free_area_start :: uint32
  memory_end :: uint32

definition kmalloc_get_numpages :: "io_descriptor list \<Rightarrow> (uint32 \<Rightarrow> uint32) \<Rightarrow> int kres" where
  "kmalloc_get_numpages io_desc port =
     bindE (find_from (\<lambda>d. iod_type d = 0x101) io_desc 0 YAMS_MAX_DEVICES) (\<lambda>i.
     let num_pages = (if i < YAMS_MAX_DEVICES then port (io_area_base (io_desc ! i)) else 0)
     in if num_pages = 0 then KERNEL_PANIC ''No MemInfo device found.''
        else Inr (sint num_pages))"

definition kmalloc_get_reserved_pages :: "'a kmem_scheme \<Rightarrow> int" where
  "kmalloc_get_reserved_pages s =
     (let num_res_pages = sint ((free_area_start s - 0x80000000) div PAGE_SIZE)
      in if (free_area_start s - 0x80000000) mod PAGE_SIZE \<noteq> 0 then num_res_pages + 1
         else num_res_pages)"

definition kmalloc_disable :: "'a kmem_scheme \<Rightarrow> 'a kmem_scheme" where
  "kmalloc_disable s = s\<lparr>free_area_start := 0xffffffff\<rparr>"

text \<open>The word alignment both \<^verbatim>\<open>kmalloc_init\<close> and \<^verbatim>\<open>kmalloc\<close> end with.\<close>

definition word_align :: "uint32 \<Rightarrow> uint32" where
  "word_align a = (if a AND 0x03 \<noteq> 0 then (a + 4) AND 0xfffffffc else a)"

definition kmalloc_init ::
  "io_descriptor list \<Rightarrow> (uint32 \<Rightarrow> uint32) \<Rightarrow> uint32 \<Rightarrow> 'a kmem_scheme \<Rightarrow> 'a kmem_scheme kres" where
  "kmalloc_init io_desc port KERNEL_ENDS_HERE s =
     (let s = s\<lparr>memory_end := 0\<rparr> in
      bindE (kmalloc_get_numpages io_desc port) (\<lambda>numpages.
        let system_memory_size = word_of_int numpages * PAGE_SIZE;
            s = s\<lparr>memory_end := 0x80000000 + system_memory_size\<rparr>
        in Inr (s\<lparr>free_area_start := word_align KERNEL_ENDS_HERE\<rparr>)))"

definition kmalloc :: "int \<Rightarrow> 'a kmem_scheme \<Rightarrow> (uint32 \<times> 'a kmem_scheme) kres" where
  "kmalloc bytes s =
     (if free_area_start s = 0xffffffff
      then KERNEL_PANIC ''Attempting to use kmalloc after vm init''
      else if free_area_start s = 0
      then KERNEL_PANIC ''Attempting to use kmalloc before initialization''
      else if bytes < 0 then KERNEL_PANIC ''Attempting to kmalloc negative amount of bytes''
      else if free_area_start s + word_of_int bytes > memory_end s
      then KERNEL_PANIC ''Out of memory''
      else let res = free_area_start s
           in Inr (res, s\<lparr>free_area_start := word_align (free_area_start s + word_of_int bytes)\<rparr>))"

subsection \<open>Alignment\<close>

lemma and_not_mask2: "x AND 0xfffffffc = x - take_bit 2 x" for x :: uint32
proof -
  have c: "(0xfffffffc :: uint32) = NOT (mask 2)"
    by (simp add: mask_eq_exp_minus_1)
  have "(x AND NOT (mask 2)) + (x AND mask 2) = (x AND NOT (mask 2)) OR (x AND mask 2)"
    by (rule disjunctive_add) (auto simp: bit_simps)
  also have "\<dots> = x"
    by (auto intro!: bit_word_eqI simp: bit_simps)
  finally show ?thesis
    by (metis c take_bit_eq_mask add_diff_cancel_right')
qed

lemma and_3: "x AND 3 = take_bit 2 x" for x :: uint32
  by (simp add: take_bit_eq_mask mask_eq_exp_minus_1)

lemma unat_take_bit_2: "unat (take_bit 2 x) = unat x mod 4" for x :: uint32
  by (simp add: take_bit_eq_mod unat_mod_distrib)

lemma unat_minus_take_bit_2: "unat (x - take_bit 2 x) = unat x - unat x mod 4" for x :: uint32
proof -
  have "take_bit 2 x \<le> x"
    by (simp add: word_le_nat_alt unat_take_bit_2)
  then show ?thesis by (simp add: unat_sub unat_take_bit_2)
qed

lemma align4_up: "x mod 4 \<noteq> 0 \<Longrightarrow> x + 4 - (x + 4) mod 4 = (x + 3) div 4 * (4::nat)"
proof -
  assume "x mod 4 \<noteq> 0"
  then have "(x + 4) div 4 = (x + 3) div (4::nat)" by presburger
  then show ?thesis by (simp only: minus_mod_eq_div_mult)
qed

lemma align4_same: "x mod 4 = 0 \<Longrightarrow> (x + 3) div 4 * 4 = (x::nat)"
  by presburger

lemma align4_ge: "x \<le> (x + 3) div 4 * (4::nat)"
  and align4_le: "(x + 3) div 4 * 4 \<le> x + (3::nat)"
  by presburger+

lemma align4_bound: "x \<le> m \<Longrightarrow> m mod 4 = 0 \<Longrightarrow> (x + 3) div 4 * 4 \<le> (m::nat)"
  by presburger

lemma align4_carry: "x + 3 < 4 * m \<Longrightarrow> x mod 4 \<noteq> 0 \<Longrightarrow> x + 4 < 4 * (m::nat)"
  by presburger

lemma unat_word_align:
  assumes "unat a + 3 < 2 ^ 32"
  shows "unat (word_align a) = (unat a + 3) div 4 * 4"
proof (cases "unat a mod 4 = 0")
  case True
  then have "take_bit 2 a = 0" by (metis unat_take_bit_2 unat_eq_zero)
  with True show ?thesis
    by (simp add: word_align_def and_3 align4_same)
next
  case False
  then have nz: "take_bit 2 a \<noteq> 0" by (metis unat_take_bit_2 unat_0)
  have "unat a + 4 < 2 ^ 32"
    using align4_carry [of "unat a" "2 ^ 30"] assms False by simp
  then have "unat (a + 4) = unat a + 4"
    by (simp add: unat_word_ariths)
  moreover have "word_align a = (a + 4) - take_bit 2 (a + 4)"
    using nz by (simp add: word_align_def and_3 and_not_mask2)
  ultimately have "unat (word_align a) = unat a + 4 - (unat a + 4) mod 4"
    by (simp only: unat_minus_take_bit_2)
  then show ?thesis by (simp only: align4_up [OF False])
qed


subsection \<open>Allocation\<close>

text \<open>
  The state \<^verbatim>\<open>kmalloc\<close> works in: both ends word aligned, and the memory within the
  512 megabytes of the unmapped segment that starts at \<open>0x80000000\<close>.
\<close>

definition kmem_ok :: "'a kmem_scheme \<Rightarrow> bool" where
  "kmem_ok s \<longleftrightarrow> unat (free_area_start s) mod 4 = 0 \<and> unat (memory_end s) mod 4 = 0 \<and>
     0x80000000 \<le> unat (free_area_start s) \<and>
     unat (free_area_start s) \<le> unat (memory_end s) \<and> unat (memory_end s) \<le> 0xA0000000"

lemma unat_add_int:
  assumes "0 \<le> k" "unat a + nat k < 2 ^ 32"
  shows "unat (a + word_of_int k) = unat (a :: uint32) + nat k"
proof -
  have "unat (word_of_int k :: uint32) = nat k"
    using assms by (intro unat_of_int_small) simp_all
  with assms show ?thesis by (simp add: unat_word_ariths)
qed

lemma kmalloc_returns:
  assumes "kmem_ok s" "0 \<le> bytes" "bytes < 0x50000000"
  shows "kmalloc bytes s =
    (if unat (free_area_start s) + nat bytes \<le> unat (memory_end s)
     then Inr (free_area_start s,
       s\<lparr>free_area_start := word_align (free_area_start s + word_of_int bytes)\<rparr>)
     else Inl (Panic ''Out of memory''))"
proof -
  have b: "unat (free_area_start s) + nat bytes < 2 ^ 32"
    using assms by (simp add: kmem_ok_def) linarith
  have "free_area_start s \<noteq> 0xffffffff" "free_area_start s \<noteq> 0"
    using assms(1) by (auto simp: kmem_ok_def)
  moreover have "free_area_start s + word_of_int bytes > memory_end s \<longleftrightarrow>
      \<not> unat (free_area_start s) + nat bytes \<le> unat (memory_end s)"
    using unat_add_int [OF assms(2) b] by (simp add: word_less_nat_alt not_le)
  ultimately show ?thesis
    using assms(2) by (simp add: kmalloc_def KERNEL_PANIC_def)
qed

lemma kmalloc_ok:
  assumes "kmem_ok s" "0 \<le> bytes" "bytes < 0x50000000" "kmalloc bytes s = Inr (addr, s')"
  shows "addr = free_area_start s" and "kmem_ok s'"
    and "unat addr + nat bytes \<le> unat (free_area_start s')"
    and "unat (free_area_start s') \<le> unat addr + nat bytes + 3"
    and "s' = s\<lparr>free_area_start := free_area_start s'\<rparr>"
proof -
  let ?f = "unat (free_area_start s)"
  have fits: "?f + nat bytes \<le> unat (memory_end s)" and addr: "addr = free_area_start s"
    and s': "s' = s\<lparr>free_area_start := word_align (free_area_start s + word_of_int bytes)\<rparr>"
    using assms(4) by (auto simp: kmalloc_returns [OF assms(1-3)] split: if_splits)
  have "?f + nat bytes < 2 ^ 32"
    using assms(1) fits by (simp add: kmem_ok_def)
  then have sum: "unat (free_area_start s + word_of_int bytes) = ?f + nat bytes"
    by (rule unat_add_int [OF assms(2)])
  have al: "unat (free_area_start s') = (?f + nat bytes + 3) div 4 * 4"
    using fits assms(1) by (simp add: s' kmem_ok_def unat_word_align sum)
  have "(?f + nat bytes + 3) div 4 * 4 \<le> unat (memory_end s)"
    using fits assms(1) by (intro align4_bound) (simp_all add: kmem_ok_def)
  with al assms(1) align4_ge [of "?f + nat bytes"] show "kmem_ok s'"
    by (simp add: kmem_ok_def s')
  show "addr = free_area_start s" by (rule addr)
  show "unat addr + nat bytes \<le> unat (free_area_start s')"
    and "unat (free_area_start s') \<le> unat addr + nat bytes + 3"
    unfolding al addr by (rule align4_ge, rule align4_le)
  show "s' = s\<lparr>free_area_start := free_area_start s'\<rparr>"
    by (simp add: s')
qed

text \<open>A sequence of allocations, as the drivers make them at boot.\<close>

fun kmalloc_seq :: "int list \<Rightarrow> 'a kmem_scheme \<Rightarrow> ((uint32 \<times> int) list \<times> 'a kmem_scheme) kres" where
  "kmalloc_seq [] s = Inr ([], s)"
| "kmalloc_seq (n # ns) s =
     bindE (kmalloc n s) (\<lambda>(addr, s).
     bindE (kmalloc_seq ns s) (\<lambda>(as, s). Inr ((addr, n) # as, s)))"

lemma kmalloc_seq_regions:
  assumes "kmem_ok s" "\<forall>n \<in> set ns. 0 \<le> n \<and> n < 0x50000000" "kmalloc_seq ns s = Inr (as, s')"
  shows "sorted_wrt (\<lambda>(a, n) (a', n'). unat a + nat n \<le> unat a') as \<and>
    (\<forall>(a, n) \<in> set as. unat (free_area_start s) \<le> unat a \<and> unat a mod 4 = 0 \<and>
           unat a + nat n \<le> unat (memory_end s))"
  using assms
proof (induction ns arbitrary: s as)
  case Nil
  then show ?case by simp
next
  case (Cons n ns)
  obtain a t bs where a: "kmalloc n s = Inr (a, t)" and bs: "kmalloc_seq ns t = Inr (bs, s')"
    and as: "as = (a, n) # bs"
    using Cons.prems(3) by (auto simp: kres_iff)
  have n: "0 \<le> n" "n < 0x50000000" and rest: "\<forall>n \<in> set ns. 0 \<le> n \<and> n < 0x50000000"
    using Cons.prems(2) by auto
  note k = kmalloc_ok [OF Cons.prems(1) n a]
  have t: "memory_end t = memory_end s"
    using arg_cong [OF k(5), of memory_end] by simp
  note IH = Cons.IH [OF k(2) rest bs]
  have "unat (free_area_start t) \<le> unat (memory_end t)" "unat a mod 4 = 0"
    using k(2) Cons.prems(1) by (simp_all add: kmem_ok_def k(1))
  then show ?case
    using IH k(1,3) t by (fastforce simp: as)
qed


subsection \<open>Reserved pages\<close>

lemma ceil_4096: "(if (d::nat) mod 4096 \<noteq> 0 then int (d div 4096) + 1 else int (d div 4096)) =
    int ((d + 4095) div 4096)"
proof (cases "d mod 4096 = 0")
  case True
  then obtain q where "d = 4096 * q" by auto
  then show ?thesis by simp
next
  case False
  define q r where "q = d div 4096" and "r = d mod 4096"
  have d: "d = 4096 * q + r" and r: "0 < r" "r < 4096"
    using False by (simp_all add: q_def r_def)
  have "(d + 4095) div 4096 = q + (r + 4095) div 4096" by (simp add: d)
  also have "(r + 4095) div 4096 = 1" using r by (intro div_nat_eqI) auto
  finally show ?thesis using False by (simp add: q_def)
qed

lemma reserved_pages:
  assumes "0x80000000 \<le> unat (free_area_start s)"
  shows "kmalloc_get_reserved_pages s =
    int ((unat (free_area_start s) - 0x80000000 + 4095) div 4096)"
proof -
  let ?d = "free_area_start s - 0x80000000"
  have d: "unat ?d = unat (free_area_start s) - 0x80000000"
    using assms by (simp add: unat_sub word_le_nat_alt)
  have "unat (?d div PAGE_SIZE) = unat ?d div 4096" "unat (?d mod PAGE_SIZE) = unat ?d mod 4096"
    by (simp_all add: PAGE_SIZE_def unat_div_distrib unat_mod_distrib)
  moreover have "unat ?d div 4096 < 2 ^ 31"
    using unsigned_less [of ?d, where ?'a = nat] by simp
  ultimately have "sint (?d div PAGE_SIZE) = int (unat ?d div 4096)"
    and "?d mod PAGE_SIZE \<noteq> 0 \<longleftrightarrow> unat ?d mod 4096 \<noteq> 0"
    by (simp_all add: sint_small unat_gt_0 flip: unat_eq_zero)
  then show ?thesis
    using ceil_4096 [of "unat ?d"] by (simp only: kmalloc_get_reserved_pages_def Let_def d)
qed

subsection \<open>Properties\<close>


definition sample_kmem :: kmem where
  "sample_kmem = \<lparr>cp0_status = 0, cp0_cause = 0, this_cpu = 0, free_area_start = 0x80001000,
     memory_end = 0x80010000\<rparr>"


text \<open>
  The out of memory test of \<^verbatim>\<open>kmalloc\<close> wraps around: a request for which the sum of the
  free address and the size exceeds 32 bits is granted, although the memory is far too small, and
  the next allocation starts below the kernel's segment.
\<close>

theorem kmalloc_wraps:
  "kmalloc 0x7ffff000 sample_kmem =
     Inr (0x80001000, sample_kmem\<lparr>free_area_start := 0\<rparr>) \<and>
   unat (memory_end sample_kmem) < unat (free_area_start sample_kmem) + 0x7ffff000"
  by (simp add: kmalloc_def sample_kmem_def word_align_def)

end
