(* ===== verification/Bitmap.thy ===== *)
theory Bitmap
  imports Prelude
begin

text \<open>
  The bitmap operations of \<^verbatim>\<open>lib/bitmap.c\<close> on arrays of 32-bit words.
\<close>

type_synonym bitmap = "uint32 list"

definition bitmap_sizeof :: "int \<Rightarrow> int" where
  "bitmap_sizeof num_bits = ((num_bits + 31) sdiv 32) * 4"

definition bitmap_init :: "bitmap \<Rightarrow> int \<Rightarrow> bitmap kres" where
  "bitmap_init b sz =
     KERNEL_ASSERT (sz \<ge> 0)
       (for_rangeE 0 (nat ((sz + 31) sdiv 32)) (\<lambda>i b. wr b (int i) 0) b)"

definition bitmap_get :: "bitmap \<Rightarrow> int \<Rightarrow> int kres" where
  "bitmap_get b pos =
     KERNEL_ASSERT (pos \<ge> 0)
       (let i = pos sdiv 32; j = pos smod 32
        in bindE (rd b i) (\<lambda>w. Inr (uint (drop_bit (nat j) w AND 1))))"

definition bitmap_set :: "bitmap \<Rightarrow> int \<Rightarrow> int \<Rightarrow> bitmap kres" where
  "bitmap_set b pos value =
     KERNEL_ASSERT (pos \<ge> 0)
       (let i = pos sdiv 32; j = pos smod 32
        in if value = 0 then bindE (rd b i) (\<lambda>w. wr b i (w AND NOT (push_bit (nat j) 1)))
           else if value = 1 then bindE (rd b i) (\<lambda>w. wr b i (w OR push_bit (nat j) 1))
           else KERNEL_PANIC ''bit value other than 0 or 1'')"

text \<open>
  The two loops of \<^verbatim>\<open>bitmap_findnset\<close>: \<open>findnset_bits\<close> is the scan of one word, whose
  result \<open>Some (b, r)\<close> is a return from the function with value \<open>r\<close>, and
  \<open>findnset_words\<close> the loop over the words.
\<close>

function findnset_bits :: "bitmap \<Rightarrow> int \<Rightarrow> int \<Rightarrow> nat \<Rightarrow> (bitmap \<times> int) option kres" where
  "findnset_bits b l basepos j =
     (if j < 32 then
        bindE (bitmap_get b (basepos + int j)) (\<lambda>v.
          if v = 0 then
            if basepos + int j \<ge> l then Inr (Some (b, -1))
            else bindE (bitmap_set b (basepos + int j) 1)
                   (\<lambda>b'. Inr (Some (b', basepos + int j)))
          else findnset_bits b l basepos (Suc j))
      else Inr None)"
  by pat_completeness auto
termination
  by (relation "measure (\<lambda>(b, l, basepos, j). 32 - j)") auto

declare findnset_bits.simps [simp del]

function findnset_words :: "bitmap \<Rightarrow> int \<Rightarrow> nat \<Rightarrow> (bitmap \<times> int) kres" where
  "findnset_words b l i =
     (if int i < bitmap_sizeof l sdiv 4 then
        bindE (rd b (int i)) (\<lambda>w.
          if w \<noteq> 0xffffffff then
            bindE (findnset_bits b l (int i * 32) 0) (\<lambda>r.
              case r of Some res \<Rightarrow> Inr res | None \<Rightarrow> findnset_words b l (Suc i))
          else findnset_words b l (Suc i))
      else Inr (b, -1))"
  by pat_completeness auto
termination
  by (relation "measure (\<lambda>(b, l, i). nat (bitmap_sizeof l sdiv 4 - int i))") auto

declare findnset_words.simps [simp del]

definition bitmap_findnset :: "bitmap \<Rightarrow> int \<Rightarrow> (bitmap \<times> int) kres" where
  "bitmap_findnset b l = KERNEL_ASSERT (l \<ge> 0) (findnset_words b l 0)"


subsection \<open>Bits of a bitmap\<close>

text \<open>
  What the functions are about: bit \<open>p\<close> of the bitmap is bit \<open>p mod 32\<close> of word
  \<open>p div 32\<close>, and \<open>bm_upd\<close> changes one bit.
\<close>

definition bm_bit :: "bitmap \<Rightarrow> nat \<Rightarrow> bool" where
  "bm_bit b p = bit (b ! (p div 32)) (p mod 32)"

definition bm_upd :: "bitmap \<Rightarrow> nat \<Rightarrow> bool \<Rightarrow> bitmap" where
  "bm_upd b p v =
     b[p div 32 := if v then b ! (p div 32) OR push_bit (p mod 32) 1
                   else b ! (p div 32) AND NOT (push_bit (p mod 32) 1)]"

lemma sdiv_32 [simp]: "int p sdiv 32 = int (p div 32)"
  by (simp add: signed_divide_int_def sgn_if zdiv_int)

lemma smod_32 [simp]: "int p smod 32 = int (p mod 32)"
  by (cases "p = 0") (simp_all add: signed_modulo_int_def zmod_int)

lemma div32_less: "p < 32 * n \<Longrightarrow> p div 32 < (n::nat)"
  by (simp add: less_mult_imp_div_less mult.commute)

lemma length_bm_upd [simp]: "length (bm_upd b p v) = length b"
  by (simp add: bm_upd_def)

lemma bm_bit_upd:
  assumes "p < 32 * length b"
  shows "bm_bit (bm_upd b p v) q = (if q = p then v else bm_bit b q)"
proof (cases "q div 32 = p div 32")
  case True
  then have eq: "q mod 32 = p mod 32 \<longleftrightarrow> q = p"
    by (metis mult_div_mod_eq)
  have "q mod 32 < LENGTH(32)" "p mod 32 < LENGTH(32)"
    by simp_all
  then show ?thesis
    using True eq div32_less [OF assms]
    by (auto simp: bm_bit_def bm_upd_def bit_simps)
next
  case False
  then show ?thesis by (auto simp: bm_bit_def bm_upd_def)
qed

lemma bm_eqI:
  assumes "length b = length c" and "\<And>p. p < 32 * length b \<Longrightarrow> bm_bit b p = bm_bit c p"
  shows "b = c"
proof (rule nth_equalityI [OF assms(1)])
  fix i assume i: "i < length b"
  show "b ! i = c ! i"
  proof (rule bit_word_eqI)
    fix n assume "n < LENGTH(32)"
    then have "n < 32" by simp
    then have "(32 * i + n) div 32 = i" "(32 * i + n) mod 32 = n" "32 * i + n < 32 * length b"
      using i by auto
    with assms(2) [of "32 * i + n"] show "bit (b ! i) n = bit (c ! i) n"
      by (simp add: bm_bit_def)
  qed
qed

lemma bm_upd_undo:
  "p < 32 * length b \<Longrightarrow> bm_bit b p = v \<Longrightarrow> bm_upd (bm_upd b p w) p v = b"
  by (rule bm_eqI) (auto simp: bm_bit_upd)

lemma bitmap_get_eq:
  assumes "p < 32 * length b"
  shows "bitmap_get b (int p) = Inr (of_bool (bm_bit b p))"
proof -
  have "drop_bit (p mod 32) (b ! (p div 32)) AND 1 = (of_bool (bm_bit b p) :: uint32)"
    by (simp add: bm_bit_def and_one_eq bit_iff_odd_drop_bit odd_iff_mod_2_eq_one)
  then show ?thesis
    using div32_less [OF assms] by (simp add: bitmap_get_def)
qed

lemma bitmap_set_eq:
  assumes "p < 32 * length b"
  shows "bitmap_set b (int p) (of_bool v) = Inr (bm_upd b p v)"
  using div32_less [OF assms] by (simp add: bitmap_set_def bm_upd_def)

lemma bitmap_set_0: "p < 32 * length b \<Longrightarrow> bitmap_set b (int p) 0 = Inr (bm_upd b p False)"
  and bitmap_set_1: "p < 32 * length b \<Longrightarrow> bitmap_set b (int p) 1 = Inr (bm_upd b p True)"
  using bitmap_set_eq [of p b False] bitmap_set_eq [of p b True] by simp_all

lemma bitmap_words: "0 \<le> l \<Longrightarrow> bitmap_sizeof l sdiv 4 = (l + 31) div 32"
  by (simp add: bitmap_sizeof_def signed_divide_int_def sgn_if)

lemma bitmap_init_ok:
  assumes "0 \<le> l" and "l \<le> 32 * int (length b)"
  shows "\<exists>b'. bitmap_init b l = Inr b' \<and> length b' = length b \<and> (\<forall>p < nat l. \<not> bm_bit b' p)"
proof -
  let ?n = "nat ((l + 31) sdiv 32)"
  have n: "?n \<le> length b" and cover: "nat l \<le> 32 * ?n"
    using assms by (auto simp: signed_divide_int_def sgn_if)
  have "\<exists>b'. for_rangeE 0 ?n (\<lambda>i b. wr b (int i) 0) b = Inr b' \<and>
      (length b' = length b \<and> (\<forall>i < ?n. b' ! i = 0))"
    by (rule for_rangeE_inv [where I = "\<lambda>k c. length c = length b \<and> (\<forall>i < k. c ! i = 0)"])
      (use n in \<open>auto simp: nth_list_update less_Suc_eq\<close>)
  moreover have "p div 32 < ?n" if "p < nat l" for p
    using that cover by (meson div32_less order_less_le_trans)
  ultimately show ?thesis
    using assms(1) by (fastforce simp: bitmap_init_def bm_bit_def)
qed

subsection \<open>\<^verbatim>\<open>bitmap_findnset\<close> finds the first clear bit\<close>

definition unset_below :: "(nat \<Rightarrow> bool) \<Rightarrow> nat \<Rightarrow> nat set" where
  "unset_below h n = {p. p < n \<and> \<not> h p}"

lemma finite_unset_below [simp]: "finite (unset_below h n)"
  by (simp add: unset_below_def)

lemma unset_below_eqI:
  assumes "p < n" "\<not> h p" "\<And>q. q < p \<Longrightarrow> h q"
  shows "Min (unset_below h n) = p" and "unset_below h n \<noteq> {}"
proof -
  show "Min (unset_below h n) = p"
    using assms by (intro Min_eqI) (auto simp: unset_below_def intro: leI)
  show "unset_below h n \<noteq> {}"
    using assms by (auto simp: unset_below_def)
qed

text \<open>What a scan that starts at bit \<open>p\<close> has to return.\<close>

definition findnset_res :: "bitmap \<Rightarrow> nat \<Rightarrow> bitmap \<times> int" where
  "findnset_res b l =
     (if unset_below (bm_bit b) l = {} then (b, -1)
      else (bm_upd b (Min (unset_below (bm_bit b) l)) True,
            int (Min (unset_below (bm_bit b) l))))"

lemma findnset_res_at:
  "p < l \<Longrightarrow> \<not> bm_bit b p \<Longrightarrow> (\<And>q. q < p \<Longrightarrow> bm_bit b q) \<Longrightarrow>
   findnset_res b l = (bm_upd b p True, int p)"
  by (simp add: findnset_res_def unset_below_eqI)

lemma findnset_res_none: "(\<And>q. q < l \<Longrightarrow> bm_bit b q) \<Longrightarrow> findnset_res b l = (b, -1)"
  by (auto simp: findnset_res_def unset_below_def)

lemma findnset_bits_eq:
  assumes "j \<le> 32" and "i < length b" and "\<And>q. q < i * 32 + j \<Longrightarrow> bm_bit b q"
  shows "findnset_bits b (int l) (int i * 32) j =
    Inr (if \<exists>k. j \<le> k \<and> k < 32 \<and> \<not> bm_bit b (i * 32 + k) then Some (findnset_res b l) else None)"
  using assms
proof (induction "32 - j" arbitrary: j)
  case 0
  then show ?case by (simp add: findnset_bits.simps)
next
  case (Suc d)
  let ?p = "i * 32 + j"
  have j: "j < 32" and p: "?p < 32 * length b"
    using Suc.hyps(2) Suc.prems(2) by auto
  have pos: "int i * 32 + int j = int ?p" by simp
  show ?case
  proof (cases "bm_bit b ?p")
    case True
    have "bm_bit b q" if "q < i * 32 + Suc j" for q
      using that True Suc.prems(3) [of q] by (cases "q = ?p") auto
    then have IH: "findnset_bits b (int l) (int i * 32) (Suc j) =
        Inr (if \<exists>k. Suc j \<le> k \<and> k < 32 \<and> \<not> bm_bit b (i * 32 + k)
             then Some (findnset_res b l) else None)"
      using Suc.hyps(2) j Suc.prems(2) by (intro Suc.hyps(1)) auto
    have "(\<exists>k. Suc j \<le> k \<and> k < 32 \<and> \<not> bm_bit b (i * 32 + k)) \<longleftrightarrow>
        (\<exists>k. j \<le> k \<and> k < 32 \<and> \<not> bm_bit b (i * 32 + k))"
      using True by (metis Suc_le_eq le_eq_less_or_eq)
    with True IH j show ?thesis
      by (subst findnset_bits.simps) (simp only: pos bitmap_get_eq [OF p], simp)
  next
    case False
    then have ex: "\<exists>k. j \<le> k \<and> k < 32 \<and> \<not> bm_bit b (i * 32 + k)"
      using j by blast
    have "findnset_bits b (int l) (int i * 32) j =
        (if int ?p \<ge> int l then Inr (Some (b, -1)) else Inr (Some (bm_upd b ?p True, int ?p)))"
      using False j
      by (subst findnset_bits.simps)
        (simp only: pos bitmap_get_eq [OF p] bitmap_set_1 [OF p], simp)
    also have "\<dots> = Inr (Some (findnset_res b l))"
      using False Suc.prems(3) findnset_res_at [of ?p l b]
      by (cases "l \<le> ?p") (simp_all add: findnset_res_none)
    finally show ?thesis using ex by simp
  qed
qed

lemma bm_bit_full_word: "b ! i = 0xffffffff \<Longrightarrow> k < 32 \<Longrightarrow> bm_bit b (i * 32 + k)"
proof -
  assume w: "b ! i = 0xffffffff" and k: "k < 32"
  have "(0xffffffff :: uint32) = - 1" by simp
  with w k show ?thesis by (simp add: bm_bit_def div_mult_self3 mod_mult_self3)
qed

lemma findnset_words_eq:
  assumes "i \<le> n" and "int n = (int l + 31) div 32" and "n \<le> length b"
    and "\<And>q. q < i * 32 \<Longrightarrow> bm_bit b q"
  shows "findnset_words b (int l) i = Inr (findnset_res b l)"
  using assms
proof (induction "n - i" arbitrary: i)
  case 0
  then have "\<And>q. q < l \<Longrightarrow> bm_bit b q" by auto
  with 0 show ?case
    by (simp add: findnset_words.simps bitmap_words findnset_res_none)
next
  case (Suc d)
  then have i: "i < n" "i < length b" by auto
  have nxt: "findnset_words b (int l) (Suc i) = Inr (findnset_res b l)"
    if "\<And>k. k < 32 \<Longrightarrow> bm_bit b (i * 32 + k)"
  proof (rule Suc.hyps(1))
    show "bm_bit b q" if "q < Suc i * 32" for q
      using that \<open>\<And>k. k < 32 \<Longrightarrow> bm_bit b (i * 32 + k)\<close> [of "q - i * 32"] Suc.prems(4) [of q]
      by (cases "q < i * 32") auto
  qed (use Suc.hyps(2) Suc.prems i in auto)
  have guard: "int i < bitmap_sizeof (int l) sdiv 4"
    using i Suc.prems(2) by (simp add: bitmap_words)
  have bits: "findnset_bits b (int l) (int i * 32) 0 =
      Inr (if \<exists>k < 32. \<not> bm_bit b (i * 32 + k) then Some (findnset_res b l) else None)"
    using findnset_bits_eq [of 0 i b l] i Suc.prems(4) by simp
  show ?case
  proof (cases "b ! i = 0xffffffff")
    case True
    then have "findnset_words b (int l) (Suc i) = Inr (findnset_res b l)"
      by (intro nxt bm_bit_full_word)
    with True guard i show ?thesis by (simp add: findnset_words.simps [of b "int l" i])
  next
    case False
    then show ?thesis
      using guard i bits nxt by (auto simp: findnset_words.simps [of b "int l" i])
  qed
qed

lemma bitmap_findnset_eq:
  "l \<le> 32 * length b \<Longrightarrow> bitmap_findnset b (int l) = Inr (findnset_res b l)"
  using findnset_words_eq [of 0 "nat ((int l + 31) div 32)" l b]
  by (auto simp: bitmap_findnset_def)


subsection \<open>The interface the allocators use\<close>

text \<open>
  The page pool and the trivial filesystem allocate numbered slots (pages, disk blocks) from a
  bitmap.  The locale states what they rely on; the lemmas count free slots, which is what both
  clients report.
\<close>

locale slot_map =
  fixes holds :: "'b \<Rightarrow> nat \<Rightarrow> bool"
    and cap :: "'b \<Rightarrow> nat"
    and mark :: "'b \<Rightarrow> nat \<Rightarrow> bool \<Rightarrow> 'b"
    and get :: "'b \<Rightarrow> int \<Rightarrow> int kres"
    and put :: "'b \<Rightarrow> int \<Rightarrow> int \<Rightarrow> 'b kres"
    and findnset :: "'b \<Rightarrow> int \<Rightarrow> ('b \<times> int) kres"
  assumes holds_mark: "p < cap b \<Longrightarrow> holds (mark b p v) q = (if q = p then v else holds b q)"
    and cap_mark: "cap (mark b p v) = cap b"
    and get_holds: "p < cap b \<Longrightarrow> get b (int p) = Inr (of_bool (holds b p))"
    and put_mark: "p < cap b \<Longrightarrow> put b (int p) (of_bool v) = Inr (mark b p v)"
    and findnset_none: "l \<le> cap b \<Longrightarrow> unset_below (holds b) l = {} \<Longrightarrow>
      findnset b (int l) = Inr (b, -1)"
    and findnset_min: "l \<le> cap b \<Longrightarrow> unset_below (holds b) l \<noteq> {} \<Longrightarrow>
      findnset b (int l) = Inr (mark b (Min (unset_below (holds b) l)) True,
                                int (Min (unset_below (holds b) l)))"
begin

lemma findnset_cases:
  assumes "l \<le> cap b"
  obtains (none) "findnset b (int l) = Inr (b, -1)" "\<And>q. q < l \<Longrightarrow> holds b q"
  | (slot) p where "p < l" "findnset b (int l) = Inr (mark b p True, int p)"
      "\<not> holds b p" "\<And>q. q < p \<Longrightarrow> holds b q"
proof (cases "unset_below (holds b) l = {}")
  case True
  with assms show ?thesis
    by (intro none findnset_none) (auto simp: unset_below_def)
next
  case False
  define p where "p = Min (unset_below (holds b) l)"
  have p: "p < l" "\<not> holds b p"
    using Min_in [OF finite_unset_below False] by (simp_all add: p_def unset_below_def)
  have "holds b q" if "q < p" for q
  proof (rule ccontr)
    assume "\<not> holds b q"
    with that p(1) have "q \<in> unset_below (holds b) l"
      by (simp add: unset_below_def)
    then have "p \<le> q" unfolding p_def by (rule Min_le [OF finite_unset_below])
    with that show False by simp
  qed
  moreover have "findnset b (int l) = Inr (mark b p True, int p)"
    using assms False by (simp add: findnset_min p_def)
  ultimately show ?thesis using p by (intro slot)
qed

lemma free_mark_True:
  assumes "l \<le> cap b" "p < l" "\<not> holds b p"
  shows "Suc (card (unset_below (holds (mark b p True)) l)) = card (unset_below (holds b) l)"
proof -
  have "unset_below (holds (mark b p True)) l = unset_below (holds b) l - {p}"
    using assms by (auto simp: unset_below_def holds_mark)
  moreover have "p \<in> unset_below (holds b) l"
    using assms by (simp add: unset_below_def)
  ultimately show ?thesis by (metis card_Suc_Diff1 finite_unset_below)
qed

lemma free_mark_False:
  assumes "l \<le> cap b" "p < l" "holds b p"
  shows "card (unset_below (holds (mark b p False)) l) = Suc (card (unset_below (holds b) l))"
proof -
  have "unset_below (holds (mark b p False)) l = insert p (unset_below (holds b) l)"
    using assms by (auto simp: unset_below_def holds_mark)
  moreover have "p \<notin> unset_below (holds b) l"
    using assms by (simp add: unset_below_def)
  ultimately show ?thesis by simp
qed

lemma put_False: "p < cap b \<Longrightarrow> put b (int p) 0 = Inr (mark b p False)"
  and put_True: "p < cap b \<Longrightarrow> put b (int p) 1 = Inr (mark b p True)"
  using put_mark [of p b False] put_mark [of p b True] by simp_all

end

interpretation bm: slot_map bm_bit "\<lambda>b. 32 * length b" bm_upd bitmap_get bitmap_set bitmap_findnset
  by unfold_locales
    (simp_all add: bm_bit_upd bitmap_get_eq bitmap_set_eq bitmap_findnset_eq findnset_res_def)

subsection \<open>Properties\<close>

text \<open>
  \<^verbatim>\<open>bitmap_findnset\<close> on a bitmap of \<open>n\<close> bits returns the number of the first clear bit
  and sets that bit and no other; when all \<open>n\<close> bits are set it returns -1 and leaves the bitmap as
  it was.
\<close>

theorem bitmap_findnset_first_clear:
  assumes "n \<le> 32 * length b"
  shows "(\<exists>p. p < n \<and> \<not> bm_bit b p \<and> (\<forall>q < p. bm_bit b q) \<and>
      (\<exists>b'. bitmap_findnset b (int n) = Inr (b', int p) \<and> length b' = length b \<and>
        (\<forall>q. bm_bit b' q \<longleftrightarrow> bm_bit b q \<or> q = p))) \<or>
    (\<forall>p < n. bm_bit b p) \<and> bitmap_findnset b (int n) = Inr (b, -1)"
  using assms
proof (cases rule: bm.findnset_cases [case_names none slot, consumes 1])
  case none
  then show ?thesis by blast
next
  case (slot p)
  then have "p < 32 * length b" using assms by simp
  then have "bm_bit (bm_upd b p True) q \<longleftrightarrow> bm_bit b q \<or> q = p" for q
    by (simp add: bm_bit_upd)
  moreover have "length (bm_upd b p True) = length b" by (simp add: bm_upd_def)
  ultimately show ?thesis using slot by blast
qed

theorem bitmap_findnset_first_clear_witness:
  "\<exists>p b'. bitmap_findnset [0xffffffff, 5] (int 40) = Inr (b', int p) \<and> p < 40 \<and>
     \<not> bm_bit [0xffffffff, 5] p \<and> (\<forall>q < p. bm_bit [0xffffffff, 5] q)"
proof -
  have "\<not> bm_bit [0xffffffff, 5] 33" by (simp add: bm_bit_def)
  then have "\<not> (\<forall>p < 40. bm_bit [0xffffffff, 5] p)" 
    by (intro notI) (drule spec [of _ 33], simp)
  then show ?thesis
    using bitmap_findnset_first_clear [of 40 "[0xffffffff, 5]"] by auto
qed

text \<open>
  Writing a bit and reading it back gives the value written, and every other bit still reads
  as before.
\<close>

theorem bitmap_set_then_get:
  assumes "p < 32 * length b" "q < 32 * length b" "v = 0 \<or> v = 1"
  shows "\<exists>b'. bitmap_set b (int p) v = Inr b' \<and>
    bitmap_get b' (int q) = (if q = p then Inr v else bitmap_get b (int q))"
proof -
  let ?b = "bm_upd b p (v = 1)"
  have "bitmap_set b (int p) v = Inr ?b"
    using assms bitmap_set_0 [of p b] bitmap_set_1 [of p b] by auto
  moreover have "length ?b = length b" by (simp add: bm_upd_def)
  then have "bitmap_get ?b (int q) = (if q = p then Inr v else bitmap_get b (int q))"
    using assms by (auto simp: bitmap_get_eq bm_bit_upd)
  ultimately show ?thesis by blast
qed

theorem bitmap_set_then_get_witness:
  "\<exists>b'. bitmap_set [0, 7] (int 35) 1 = Inr b' \<and> bitmap_get b' (int 35) = Inr 1"
  using bitmap_set_then_get [of 35 "[0, 7]" 35 1] by simp

end
