(* ===== verification/Pagepool.thy ===== *)
theory Pagepool
  imports Kmalloc Bitmap
begin

text \<open>
  Reservation of physical pages (\<^verbatim>\<open>vm/pagepool.c\<close>): the page bitmap, its counter of free
  pages and the boundary of the statically reserved pages.  The interface the users of the pool
  rely on is the locale \<open>page_source\<close>.
\<close>

record pool = kmem +
  pagepool_free_pages :: bitmap
  pagepool_num_pages :: int
  pagepool_num_free_pages :: int
  pagepool_static_end :: int
  pagepool_slock :: uint32

text \<open>
  \<open>heap\<close> is what the memory \<^verbatim>\<open>kmalloc\<close> returns happens to contain (as words).
\<close>

definition pagepool_init ::
  "io_descriptor list \<Rightarrow> (uint32 \<Rightarrow> uint32) \<Rightarrow> (nat \<Rightarrow> uint32) \<Rightarrow> 'a pool_scheme \<Rightarrow> 'a pool_scheme kres"
where
  "pagepool_init io_desc port heap s =
     bindE (kmalloc_get_numpages io_desc port) (\<lambda>n.
     let s = s\<lparr>pagepool_num_pages := n\<rparr> in
     bindE (kmalloc (bitmap_sizeof n) s) (\<lambda>(addr, s).
     bindE (bitmap_init (map heap [0..<nat (bitmap_sizeof n) div 4]) n) (\<lambda>b.
     let num_res_pages = kmalloc_get_reserved_pages s;
         s = s\<lparr>pagepool_num_free_pages := n - num_res_pages, pagepool_static_end := num_res_pages\<rparr>
     in bindE (for_rangeE 0 (nat num_res_pages) (\<lambda>i b. bitmap_set b (int i) 1) b) (\<lambda>b.
        Inr (s\<lparr>pagepool_free_pages := b,
               pagepool_slock := spinlock_reset (pagepool_slock s)\<rparr>)))))"

definition pagepool_get_phys_page :: "'a pool_scheme \<Rightarrow> (uint32 \<times> 'a pool_scheme) kres" where
  "pagepool_get_phys_page s =
     (let (intr_status, s) = interrupt_disable s in
      bindE (spinlock_acquire (pagepool_slock s)) (\<lambda>l.
      let s = s\<lparr>pagepool_slock := l\<rparr> in
      bindE (if pagepool_num_free_pages s > 0 then
               bindE (bitmap_findnset (pagepool_free_pages s) (pagepool_num_pages s)) (\<lambda>(b, i).
                 let s = s\<lparr>pagepool_free_pages := b,
                           pagepool_num_free_pages := pagepool_num_free_pages s - 1\<rparr>
                 in KERNEL_ASSERT (i \<ge> 0 \<and> pagepool_num_free_pages s \<ge> 0) (Inr (i, s)))
             else Inr (0, s)) (\<lambda>(i, s).
      let s = s\<lparr>pagepool_slock := spinlock_release (pagepool_slock s)\<rparr>;
          s = interrupt_set_state intr_status s
      in Inr (word_of_int (i * 4096), s))))"

definition pagepool_free_phys_page :: "uint32 \<Rightarrow> 'a pool_scheme \<Rightarrow> 'a pool_scheme kres" where
  "pagepool_free_phys_page phys_addr s =
     (let i = sint (phys_addr div PAGE_SIZE) in
      KERNEL_ASSERT (i \<ge> pagepool_static_end s)
     (let (intr_status, s) = interrupt_disable s in
      bindE (spinlock_acquire (pagepool_slock s)) (\<lambda>l.
      let s = s\<lparr>pagepool_slock := l\<rparr> in
      bindE (bitmap_get (pagepool_free_pages s) i) (\<lambda>v.
      KERNEL_ASSERT (v = 1)
     (bindE (bitmap_set (pagepool_free_pages s) i 0) (\<lambda>b.
      let s = s\<lparr>pagepool_free_pages := b,
                pagepool_num_free_pages := pagepool_num_free_pages s + 1\<rparr>;
          s = s\<lparr>pagepool_slock := spinlock_release (pagepool_slock s)\<rparr>;
          s = interrupt_set_state intr_status s
      in Inr s))))))"

subsection \<open>The pool invariant\<close>

text \<open>
  The counter is the number of clear bits, every statically reserved page is marked, page 0 is
  statically reserved (the code returns address 0 for ``no page''), page numbers fit a 32-bit
  address, and the lock is free between operations.
\<close>

definition page_used :: "'a pool_scheme \<Rightarrow> nat \<Rightarrow> bool" where
  "page_used s p = bm_bit (pagepool_free_pages s) p"

definition pool_ok :: "'a pool_scheme \<Rightarrow> bool" where
  "pool_ok s \<longleftrightarrow>
     0 < pagepool_static_end s \<and> pagepool_static_end s \<le> pagepool_num_pages s \<and>
     pagepool_num_pages s \<le> 2 ^ 20 \<and>
     nat (pagepool_num_pages s) \<le> 32 * length (pagepool_free_pages s) \<and>
     pagepool_num_free_pages s =
       int (card (unset_below (page_used s) (nat (pagepool_num_pages s)))) \<and>
     (\<forall>p < nat (pagepool_static_end s). page_used s p) \<and>
     pagepool_slock s = 0"

definition page_addr :: "nat \<Rightarrow> uint32" where
  "page_addr p = of_nat (p * 4096)"

lemma unat_page_addr: "p < 2 ^ 20 \<Longrightarrow> unat (page_addr p) = p * 4096"
  unfolding page_addr_def by (rule unat_of_nat_small) simp

lemma page_addr_index: "p < 2 ^ 20 \<Longrightarrow> sint (page_addr p div PAGE_SIZE) = int p"
proof -
  assume p: "p < 2 ^ 20"
  then have "unat (page_addr p div PAGE_SIZE) = p"
    by (simp add: unat_div_distrib unat_page_addr PAGE_SIZE_def)
  then show ?thesis
    using p by (simp add: sint_small)
qed

lemma page_addr_nonzero: "0 < p \<Longrightarrow> p < 2 ^ 20 \<Longrightarrow> page_addr p \<noteq> 0"
  using unat_page_addr [of p] by auto

lemma bracket_update:
  "interrupt_set_state (cp0_status s) (s\<lparr>cp0_status := 0xffff00fe AND cp0_status s,
     pagepool_free_pages := b, pagepool_num_free_pages := n, pagepool_slock := l\<rparr>) =
   s\<lparr>pagepool_free_pages := b, pagepool_num_free_pages := n, pagepool_slock := l\<rparr>"
  using interrupt_bracket_status [of "cp0_status s" s] by (simp add: interrupt_set_state_def)

lemma pagepool_get_none:
  assumes "pool_ok s" "pagepool_num_free_pages s = 0"
  shows "pagepool_get_phys_page s = Inr (0, s)"
  using assms interrupt_bracket_status [of "cp0_status s" s]
  by (simp add: pagepool_get_phys_page_def interrupt_disable_def pool_ok_def
      interrupt_set_state_def)

lemma pagepool_get_some:
  assumes ok: "pool_ok s" and free: "pagepool_num_free_pages s > 0"
  obtains p where "pagepool_get_phys_page s =
      Inr (page_addr p, s\<lparr>pagepool_free_pages := bm_upd (pagepool_free_pages s) p True,
                         pagepool_num_free_pages := pagepool_num_free_pages s - 1\<rparr>)"
    and "p < nat (pagepool_num_pages s)" and "\<not> page_used s p" and "\<And>q. q < p \<Longrightarrow> page_used s q"
proof -
  let ?n = "nat (pagepool_num_pages s)"
  have n: "pagepool_num_pages s = int ?n" and l: "pagepool_slock s = 0"
    and cap: "?n \<le> 32 * length (pagepool_free_pages s)"
    using ok by (auto simp: pool_ok_def)
  from cap show ?thesis
  proof (cases rule: bm.findnset_cases [case_names none slot, consumes 1])
    case none
    then have "unset_below (page_used s) ?n = {}"
      by (auto simp: unset_below_def page_used_def)
    with ok free show ?thesis by (simp add: pool_ok_def)
  next
    case (slot p)
    have find: "bitmap_findnset (pagepool_free_pages s) (pagepool_num_pages s) =
        Inr (bm_upd (pagepool_free_pages s) p True, int p)"
      using slot(2) n by simp
    have "pagepool_get_phys_page s =
      Inr (page_addr p, s\<lparr>pagepool_free_pages := bm_upd (pagepool_free_pages s) p True,
                         pagepool_num_free_pages := pagepool_num_free_pages s - 1\<rparr>)"
      using free l
      by (simp add: pagepool_get_phys_page_def interrupt_disable_def find page_addr_def bracket_update)
    then show ?thesis
      using slot(1,3,4) by (intro that) (simp_all add: page_used_def)
  qed
qed


lemma pool_ok_get:
  assumes ok: "pool_ok s" and p: "p < nat (pagepool_num_pages s)" "\<not> page_used s p"
  shows "pool_ok (s\<lparr>pagepool_free_pages := bm_upd (pagepool_free_pages s) p True,
                    pagepool_num_free_pages := pagepool_num_free_pages s - 1\<rparr>)"
proof -
  have cap: "nat (pagepool_num_pages s) \<le> 32 * length (pagepool_free_pages s)"
    using ok by (simp add: pool_ok_def)
  note count = bm.free_mark_True [OF cap p(1) p(2) [unfolded page_used_def]]
  have "page_used s q \<Longrightarrow> bm_bit (bm_upd (pagepool_free_pages s) p True) q" for q
    using p cap by (simp add: bm_bit_upd page_used_def)
  then show ?thesis
    using ok count by (auto simp: pool_ok_def page_used_def [abs_def])
qed

lemma pagepool_free_eq:
  assumes ok: "pool_ok s" and p: "nat (pagepool_static_end s) \<le> p" "p < nat (pagepool_num_pages s)"
  shows "pagepool_free_phys_page (page_addr p) s =
    (if page_used s p
     then Inr (s\<lparr>pagepool_free_pages := bm_upd (pagepool_free_pages s) p False,
                pagepool_num_free_pages := pagepool_num_free_pages s + 1\<rparr>)
     else Inl (Panic ''Assertion failed''))"
proof -
  have i: "sint (page_addr p div PAGE_SIZE) = int p"
    using ok p by (intro page_addr_index) (auto simp: pool_ok_def)
  have cap: "p < 32 * length (pagepool_free_pages s)" and l: "pagepool_slock s = 0"
    and st: "pagepool_static_end s \<le> int p"
    using ok p by (auto simp: pool_ok_def)
  show ?thesis
    by (simp add: pagepool_free_phys_page_def interrupt_disable_def i st l KERNEL_ASSERT_def
        bitmap_get_eq [OF cap] bitmap_set_0 [OF cap] page_used_def bracket_update)
qed

lemma pool_ok_free:
  assumes ok: "pool_ok s" and p: "nat (pagepool_static_end s) \<le> p"
    "p < nat (pagepool_num_pages s)" "page_used s p"
  shows "pool_ok (s\<lparr>pagepool_free_pages := bm_upd (pagepool_free_pages s) p False,
                    pagepool_num_free_pages := pagepool_num_free_pages s + 1\<rparr>)"
proof -
  have cap: "nat (pagepool_num_pages s) \<le> 32 * length (pagepool_free_pages s)"
    using ok by (simp add: pool_ok_def)
  note count = bm.free_mark_False [OF cap p(2) p(3) [unfolded page_used_def]]
  have "q < nat (pagepool_static_end s) \<Longrightarrow> page_used s q \<Longrightarrow>
      bm_bit (bm_upd (pagepool_free_pages s) p False) q" for q
    using p(1,2) cap by (simp add: bm_bit_upd page_used_def)
  then show ?thesis
    using ok count by (auto simp: pool_ok_def page_used_def [abs_def])
qed

text \<open>The pages handed out by the pool.\<close>

definition pool_dynamic :: "'a pool_scheme \<Rightarrow> nat set" where
  "pool_dynamic s =
     {p. nat (pagepool_static_end s) \<le> p \<and> p < nat (pagepool_num_pages s) \<and> page_used s p}"

subsection \<open>The interface of the pool\<close>

text \<open>
  Page tables, filesystem buffers and network frames live in pages of the pool.  What their
  owners rely on: a page they get was not in use and is theirs until they free it.
\<close>

locale page_source =
  fixes invar :: "'s \<Rightarrow> bool"
    and used :: "'s \<Rightarrow> nat set"
    and get :: "'s \<Rightarrow> (uint32 \<times> 's) kres"
    and free :: "uint32 \<Rightarrow> 's \<Rightarrow> 's kres"
  assumes get_page: "invar s \<Longrightarrow> \<exists>s'. (get s = Inr (0, s) \<and> s' = s) \<or>
      (\<exists>p. 0 < p \<and> p < 2 ^ 20 \<and> get s = Inr (page_addr p, s') \<and> p \<notin> used s \<and>
        used s' = insert p (used s) \<and> invar s')"
    and free_page: "invar s \<Longrightarrow> p \<in> used s \<Longrightarrow>
      \<exists>s'. free (page_addr p) s = Inr s' \<and> used s' = used s - {p} \<and> invar s'"
    and used_bound: "invar s \<Longrightarrow> p \<in> used s \<Longrightarrow> 0 < p \<and> p < 2 ^ 20"
begin

lemma get_returns: "invar s \<Longrightarrow> \<exists>a s'. get s = Inr (a, s') \<and> invar s'"
  using get_page by blast

lemma get_nonzero:
  assumes "invar s" "get s = Inr (a, s')" "a \<noteq> 0"
  obtains p where "a = page_addr p" "0 < p" "p < 2 ^ 20" "p \<notin> used s"
    "used s' = insert p (used s)" "invar s'"
  using get_page [OF assms(1)] assms(2,3) by auto

lemma get_zero: "invar s \<Longrightarrow> get s = Inr (0, s') \<Longrightarrow> s' = s"
  using get_page [of s] page_addr_nonzero by fastforce

lemma get_then_free:
  assumes "invar s" "get s = Inr (a, s')" "a \<noteq> 0"
  shows "\<exists>s''. free a s' = Inr s'' \<and> used s'' = used s \<and> invar s''"
proof -
  obtain p where p: "a = page_addr p" "p \<notin> used s" "used s' = insert p (used s)" "invar s'"
    by (rule get_nonzero [OF assms])
  with free_page [of s' p] show ?thesis by auto
qed

end

interpretation pp: page_source pool_ok pool_dynamic pagepool_get_phys_page pagepool_free_phys_page
proof unfold_locales
  fix s :: "'a pool_scheme" assume ok: "pool_ok s"
  show "\<exists>s'. (pagepool_get_phys_page s = Inr (0, s) \<and> s' = s) \<or>
      (\<exists>p. 0 < p \<and> p < 2 ^ 20 \<and> pagepool_get_phys_page s = Inr (page_addr p, s') \<and>
        p \<notin> pool_dynamic s \<and> pool_dynamic s' = insert p (pool_dynamic s) \<and> pool_ok s')"
  proof (cases "pagepool_num_free_pages s > 0")
    case True
    with ok obtain p where get: "pagepool_get_phys_page s =
        Inr (page_addr p, s\<lparr>pagepool_free_pages := bm_upd (pagepool_free_pages s) p True,
                         pagepool_num_free_pages := pagepool_num_free_pages s - 1\<rparr>)"
        (is "_ = Inr (_, ?t)")
      and p: "p < nat (pagepool_num_pages s)" "\<not> page_used s p"
      by (rule pagepool_get_some)
    have st: "nat (pagepool_static_end s) \<le> p"
      using ok p by (meson leI pool_ok_def)
    have "p < 32 * length (pagepool_free_pages s)"
      using ok p by (simp add: pool_ok_def)
    then have "p \<notin> pool_dynamic s" "pool_dynamic ?t = insert p (pool_dynamic s)"
      using p st by (auto simp: pool_dynamic_def page_used_def bm_bit_upd)
    moreover have "0 < p" "p < 2 ^ 20"
      using ok p st by (auto simp: pool_ok_def)
    ultimately show ?thesis
      using get pool_ok_get [OF ok p] by blast
  next
    case False
    with ok have "pagepool_num_free_pages s = 0" by (simp add: pool_ok_def)
    with pagepool_get_none [OF ok] show ?thesis by blast
  qed
next
  fix s :: "'a pool_scheme" and p assume ok: "pool_ok s" and "p \<in> pool_dynamic s"
  then have p: "nat (pagepool_static_end s) \<le> p" "p < nat (pagepool_num_pages s)" "page_used s p"
    by (auto simp: pool_dynamic_def)
  then have cap: "p < 32 * length (pagepool_free_pages s)"
    using ok by (simp add: pool_ok_def)
  show "\<exists>s'. pagepool_free_phys_page (page_addr p) s = Inr s' \<and>
      pool_dynamic s' = pool_dynamic s - {p} \<and> pool_ok s'"
    using pagepool_free_eq [OF ok p(1,2)] p pool_ok_free [OF ok p] cap
    by (auto simp: pool_dynamic_def page_used_def bm_bit_upd split: if_splits)
  show "0 < p \<and> p < 2 ^ 20"
    using ok p by (auto simp: pool_ok_def)
qed


subsection \<open>Initialization\<close>

lemma mark_prefix:
  assumes "k \<le> 32 * length b"
  shows "\<exists>b'. for_rangeE 0 k (\<lambda>i b. bitmap_set b (int i) 1) b = Inr b' \<and>
    length b' = length b \<and> (\<forall>q. bm_bit b' q = (q < k \<or> bm_bit b q))"
  by (rule for_rangeE_inv [where I = "\<lambda>j c. length c = length b \<and>
        (\<forall>q. bm_bit c q = (q < j \<or> bm_bit b q))"])
    (use assms in \<open>auto simp: bitmap_set_1 bm_bit_upd less_Suc_eq\<close>)

lemma pagepool_init_ok:
  assumes mem: "kmem_ok s" "unat (memory_end s) = 0x80000000 + nat n * 4096"
    and pages: "kmalloc_get_numpages io_desc port = Inr n"
    and kernel: "0x80000000 < unat (free_area_start s)"
    and fits: "unat (free_area_start s) + nat (bitmap_sizeof n) \<le> unat (memory_end s)"
  shows "\<exists>s'. pagepool_init io_desc port heap s = Inr s' \<and> pool_ok s' \<and>
    pagepool_num_pages s' = n \<and> pool_dynamic s' = {}"
proof -
  have n: "0 < n" "n \<le> 2 ^ 17"
    using mem kernel by (auto simp: kmem_ok_def)
  have sz: "bitmap_sizeof n = (n + 31) div 32 * 4"
    using n by (simp add: bitmap_sizeof_def signed_divide_int_def sgn_if)
  define s0 where "s0 = s\<lparr>pagepool_num_pages := n\<rparr>"
  have ok0: "kmem_ok s0" using mem(1) by (simp add: kmem_ok_def s0_def)
  have szb: "0 \<le> bitmap_sizeof n" "bitmap_sizeof n < 0x50000000" using n by (auto simp: sz)
  have "\<exists>addr s1. kmalloc (bitmap_sizeof n) s0 = Inr (addr, s1)"
    using fits unfolding kmalloc_returns [OF ok0 szb] by (simp add: s0_def)
  then obtain addr s1 where k: "kmalloc (bitmap_sizeof n) s0 = Inr (addr, s1)" by blast
  note k' = kmalloc_ok [OF ok0 szb k]
  define f where "f = unat (free_area_start s1) - 0x80000000"
  have f: "unat (free_area_start s1) = 0x80000000 + f" "0 < f" "f \<le> nat n * 4096"
  proof -
    have "memory_end s1 = memory_end s"
      using arg_cong [OF k'(5), of memory_end] by (simp add: s0_def)
    then have "unat (free_area_start s1) \<le> 0x80000000 + nat n * 4096"
      using k'(2) mem(2) by (simp add: kmem_ok_def)
    moreover have "0x80000000 < unat (free_area_start s1)"
      using kernel k'(1,3) by (simp add: s0_def)
    ultimately show "unat (free_area_start s1) = 0x80000000 + f" "0 < f" "f \<le> nat n * 4096"
      by (auto simp: f_def)
  qed
  define r where "r = (f + 4095) div 4096"
  have r: "0 < r" "r \<le> nat n"
    using f(2,3) by (auto simp: r_def less_eq_div_iff_mult_less_eq Suc_le_eq)
  have res: "kmalloc_get_reserved_pages s1 = int r"
    using f(1) by (simp add: reserved_pages r_def)
  have s1: "pagepool_num_pages s1 = n"
    using arg_cong [OF k'(5), of pagepool_num_pages] by (simp add: s0_def)
  let ?b0 = "map heap [0..<nat (bitmap_sizeof n) div 4]"
  have "nat (bitmap_sizeof n) div 4 = nat ((n + 31) div 32)"
    using n by (simp add: sz nat_mult_distrib)
  then have len: "nat n \<le> 32 * length ?b0" using n by simp
  have "n \<le> 32 * int (length ?b0)" using len n by linarith
  then obtain b1 where b1: "bitmap_init ?b0 n = Inr b1" "length b1 = length ?b0"
      "\<And>p. p < nat n \<Longrightarrow> \<not> bm_bit b1 p"
    using bitmap_init_ok [of n ?b0] n(1) by (meson less_imp_le)
  have "r \<le> 32 * length b1" using len b1(2) r(2) by simp
  then obtain b2 where b2: "for_rangeE 0 r (\<lambda>i b. bitmap_set b (int i) 1) b1 = Inr b2"
      "length b2 = length b1" "\<And>q. bm_bit b2 q = (q < r \<or> bm_bit b1 q)"
    using mark_prefix by meson
  define s2 where "s2 = s1\<lparr>pagepool_num_free_pages := n - int r, pagepool_static_end := int r,
      pagepool_free_pages := b2, pagepool_slock := 0\<rparr>"
  have "pagepool_init io_desc port heap s = Inr s2"
    by (simp add: pagepool_init_def pages k res b1(1) b2(1) s2_def Let_def flip: s0_def)
  moreover have free: "unset_below (page_used s2) (nat n) = {r..<nat n}"
    using b1(3) by (auto simp: unset_below_def page_used_def s2_def b2(3))
  then have "pool_ok s2"
    using n r len b1(2) b2(2,3) s1
    by (auto simp: pool_ok_def s2_def page_used_def free)
  moreover have "pagepool_num_pages s2 = n" "pool_dynamic s2 = {}"
    using s1 b1(3) by (auto simp: s2_def pool_dynamic_def page_used_def b2(3))
  ultimately show ?thesis by blast
qed

subsection \<open>Properties\<close>

text \<open>
  C9: \<^verbatim>\<open>pagepool_get_phys_page\<close> always returns.  With a free page it returns the address of
  one that was not in use, marks exactly that page and keeps the pool invariant; without one it
  returns 0 and changes nothing.
\<close>

theorem pagepool_get_fresh:
  assumes "pool_ok s"
  shows "(pagepool_num_free_pages s = 0 \<and> pagepool_get_phys_page s = Inr (0, s)) \<or>
    (\<exists>p s'. pagepool_get_phys_page s = Inr (page_addr p, s') \<and> page_addr p \<noteq> 0 \<and>
       p \<notin> pool_dynamic s \<and> pool_dynamic s' = insert p (pool_dynamic s) \<and> pool_ok s')"
proof (cases "pagepool_num_free_pages s = 0")
  case True
  then show ?thesis using pagepool_get_none [OF assms] by simp
next
  case False
  then have free: "pagepool_num_free_pages s > 0" using assms unfolding pool_ok_def by linarith
  show ?thesis
  proof (rule pagepool_get_some [OF assms free])
    fix p
    let ?s = "s\<lparr>pagepool_free_pages := bm_upd (pagepool_free_pages s) p True,
      pagepool_num_free_pages := pagepool_num_free_pages s - 1\<rparr>"
    assume get: "pagepool_get_phys_page s = Inr (page_addr p, ?s)"
      and p: "p < nat (pagepool_num_pages s)" "\<not> page_used s p"
    have "0 < p" "p < 2 ^ 20" using assms p unfolding pool_ok_def by (cases p; force)+
    then have nz: "page_addr p \<noteq> 0" by (rule page_addr_nonzero)
    show ?thesis by (rule pp.get_nonzero [OF assms get nz]) (use get nz in metis)
  qed
qed

definition sample_pool :: pool where
  "sample_pool = \<lparr>cp0_status = 0xff01, cp0_cause = 0, this_cpu = 0, free_area_start = 0x80001f00,
     memory_end = 0x80004000, pagepool_free_pages = [3], pagepool_num_pages = 4,
     pagepool_num_free_pages = 2, pagepool_static_end = 2, pagepool_slock = 0\<rparr>"

lemma sample_pool_ok: "pool_ok sample_pool" "pool_dynamic sample_pool = {}"
proof -
  have used: "page_used sample_pool p \<longleftrightarrow> p < 2" if "p < 4" for p
  proof -
    have "p = 0 \<or> p = 1 \<or> p = 2 \<or> p = 3" using that by arith
    then show ?thesis by (auto simp: page_used_def bm_bit_def sample_pool_def)
  qed
  then have "unset_below (page_used sample_pool) 4 = {2, 3}"
    unfolding unset_below_def by force
  with used show "pool_ok sample_pool"
    by (simp add: pool_ok_def sample_pool_def)
  show "pool_dynamic sample_pool = {}"
    using used by (auto simp: pool_dynamic_def sample_pool_def)
qed

theorem pagepool_get_fresh_witness:
  "\<exists>p s'. pagepool_get_phys_page sample_pool = Inr (page_addr p, s') \<and> pool_dynamic s' = {p} \<and> pool_ok s'"
  using pagepool_get_fresh [OF sample_pool_ok(1)] sample_pool_ok(2) by (auto simp: sample_pool_def)

text \<open>
  A page returned by \<^verbatim>\<open>pagepool_get_phys_page\<close> can be freed, and that gives back the set
  of pages in use there was before.
\<close>

theorem pagepool_get_then_free:
  assumes "pool_ok s" "pagepool_get_phys_page s = Inr (a, s')" "a \<noteq> 0"
  shows "\<exists>s''. pagepool_free_phys_page a s' = Inr s'' \<and> pool_dynamic s'' = pool_dynamic s \<and> pool_ok s''"
  by (rule pp.get_then_free [OF assms])

theorem pagepool_get_then_free_witness:
  "\<exists>s' s''. pagepool_get_phys_page sample_pool = Inr (0x2000, s') \<and>
     pagepool_free_phys_page 0x2000 s' = Inr s'' \<and> pool_dynamic s'' = {}"
proof -
  have "pagepool_get_phys_page sample_pool = Inr (0x2000, sample_pool\<lparr>pagepool_free_pages := [7],
      pagepool_num_free_pages := 1\<rparr>)"
    by code_simp
  then show ?thesis
    using pagepool_get_then_free [OF sample_pool_ok(1), of "0x2000"] sample_pool_ok(2) by auto
qed

text \<open>
  Freeing a page that is not in use, or a statically reserved one, stops the kernel.
\<close>

theorem pagepool_bad_free_panics:
  assumes "pool_ok s" "p < nat (pagepool_num_pages s)" "p \<notin> pool_dynamic s"
  shows "pagepool_free_phys_page (page_addr p) s = Inl (Panic ''Assertion failed'')"
proof (cases "nat (pagepool_static_end s) \<le> p")
  case True
  then show ?thesis
    using assms pagepool_free_eq [OF assms(1) True assms(2)] by (simp add: pool_dynamic_def)
next
  case False
  then have "\<not> pagepool_static_end s \<le> int p" by simp
  moreover have "p < 2 ^ 20" using assms(1,2) by (auto simp: pool_ok_def)
  ultimately show ?thesis by (simp add: pagepool_free_phys_page_def page_addr_index KERNEL_ASSERT_def Let_def)
qed

theorem pagepool_bad_free_panics_witness:
  "pagepool_free_phys_page (page_addr 3) sample_pool = Inl (Panic ''Assertion failed'')"
  by (rule pagepool_bad_free_panics [OF sample_pool_ok(1)])
    (simp_all add: sample_pool_ok(2), simp add: sample_pool_def)

text \<open>
  \<^verbatim>\<open>pagepool_init\<close>, called with a working \<^verbatim>\<open>kmalloc\<close> and room for its bitmap,
  establishes the pool invariant with every page below the end of the kernel's memory reserved and
  none handed out.
\<close>

theorem pagepool_init_establishes:
  assumes "kmem_ok s" "unat (memory_end s) = 0x80000000 + nat n * 4096"
    and "kmalloc_get_numpages io_desc port = Inr n"
    and "0x80000000 < unat (free_area_start s)"
    and "unat (free_area_start s) + nat (bitmap_sizeof n) \<le> unat (memory_end s)"
  shows "\<exists>s'. pagepool_init io_desc port heap s = Inr s' \<and> pool_ok s' \<and>
    pagepool_num_pages s' = n \<and> pool_dynamic s' = {}"
  by (rule pagepool_init_ok [OF assms])

definition sample_descriptors :: "io_descriptor list" where
  "sample_descriptors = \<lparr>iod_type = 0x101, io_area_base = 0xb0001000, io_area_len = 8, iod_irq = 0\<rparr> #
     replicate 127 \<lparr>iod_type = 0, io_area_base = 0, io_area_len = 0, iod_irq = 0\<rparr>"

theorem pagepool_init_establishes_witness:
  "\<exists>s'. pagepool_init sample_descriptors (\<lambda>a. 4) (\<lambda>i. 0) sample_pool = Inr s' \<and> pool_ok s' \<and>
     pagepool_num_pages s' = 4"
proof -
  have "kmem_ok sample_pool" "unat (memory_end sample_pool) = 0x80000000 + nat 4 * 4096"
    "0x80000000 < unat (free_area_start sample_pool)"
    "unat (free_area_start sample_pool) + nat (bitmap_sizeof 4) \<le> unat (memory_end sample_pool)"
    by (simp_all add: kmem_ok_def sample_pool_def bitmap_sizeof_def signed_divide_int_def)
  moreover have "kmalloc_get_numpages sample_descriptors (\<lambda>a. 4) = Inr 4"
    by (simp add: kmalloc_get_numpages_def sample_descriptors_def find_from.simps [of _ _ 0]
        YAMS_MAX_DEVICES_def)
  ultimately show ?thesis
    using pagepool_init_establishes [of sample_pool 4 sample_descriptors "\<lambda>a. 4" "\<lambda>i. 0"] by auto
qed

end
