(* ===== verification/Vm.thy ===== *)
theory Vm
  imports Pagepool
begin

text \<open>
  Page tables and the TLB (\<^verbatim>\<open>vm/vm.c\<close>, \<^verbatim>\<open>vm/tlb.c\<close>, \<^verbatim>\<open>vm/pagetable.h\<close>,
  \<^verbatim>\<open>vm/tlb.h\<close> and the wrappers of \<^verbatim>\<open>vm/_tlb.S\<close>).  Bit fields keep their widths;
  the padding fields of \<^verbatim>\<open>tlb_entry_t\<close> are left out.  Page tables live in pages of the
  page pool: \<open>pagetable_at\<close> is the memory they are in, indexed by kernel address.
\<close>

record tlb_entry =
  VPN2 :: "19 word"
  tlb_ASID :: "8 word"
  PFN0 :: "20 word"
  C0 :: "3 word"
  D0 :: "1 word"
  V0 :: "1 word"
  G0 :: "1 word"
  PFN1 :: "20 word"
  C1 :: "3 word"
  D1 :: "1 word"
  V1 :: "1 word"
  G1 :: "1 word"

definition PAGETABLE_ENTRIES :: nat where "PAGETABLE_ENTRIES = 340"

record pagetable =
  pt_ASID :: uint32
  valid_count :: uint32
  pt_entries :: "tlb_entry list"

record vmem = pool +
  pagetable_at :: "uint32 \<Rightarrow> pagetable"
  tlb :: "tlb_entry list"
  cp0_asid :: "8 word"

definition ADDR_PHYS_TO_KERNEL :: "uint32 \<Rightarrow> uint32" where
  "ADDR_PHYS_TO_KERNEL addr = addr OR 0x80000000"

definition ADDR_KERNEL_TO_PHYS :: "uint32 \<Rightarrow> uint32" where
  "ADDR_KERNEL_TO_PHYS addr = addr AND 0x7fffffff"

definition ADDR_IS_ON_EVEN_PAGE :: "uint32 \<Rightarrow> bool" where
  "ADDR_IS_ON_EVEN_PAGE addr = (addr AND 0x00001000 = 0)"

definition vm_init ::
  "io_descriptor list \<Rightarrow> (uint32 \<Rightarrow> uint32) \<Rightarrow> (nat \<Rightarrow> uint32) \<Rightarrow> 'a pool_scheme \<Rightarrow> 'a pool_scheme kres"
where
  "vm_init io_desc port heap s = bindE (pagepool_init io_desc port heap s) (\<lambda>s. Inr (kmalloc_disable s))"

definition vm_create_pagetable :: "uint32 \<Rightarrow> 'a vmem_scheme \<Rightarrow> (uint32 \<times> 'a vmem_scheme) kres" where
  "vm_create_pagetable asid s =
     bindE (pagepool_get_phys_page s) (\<lambda>(addr, s).
       if addr = 0 then Inr (0, s)
       else let table = ADDR_PHYS_TO_KERNEL addr
            in Inr (table, s\<lparr>pagetable_at := (pagetable_at s)(table :=
                 (pagetable_at s table)\<lparr>pt_ASID := asid, valid_count := 0\<rparr>)\<rparr>))"

definition vm_destroy_pagetable :: "uint32 \<Rightarrow> 'a vmem_scheme \<Rightarrow> 'a vmem_scheme kres" where
  "vm_destroy_pagetable table s = pagepool_free_phys_page (ADDR_KERNEL_TO_PHYS table) s"

definition map_even :: "uint32 \<Rightarrow> int \<Rightarrow> tlb_entry \<Rightarrow> tlb_entry" where
  "map_even physaddr dirty e =
     e\<lparr>PFN0 := ucast (drop_bit 12 physaddr), V0 := 1, G0 := 0, D0 := word_of_int dirty\<rparr>"

definition map_odd :: "uint32 \<Rightarrow> int \<Rightarrow> tlb_entry \<Rightarrow> tlb_entry" where
  "map_odd physaddr dirty e =
     e\<lparr>PFN1 := ucast (drop_bit 12 physaddr), V1 := 1, G1 := 0, D1 := word_of_int dirty\<rparr>"

definition vm_map :: "pagetable \<Rightarrow> uint32 \<Rightarrow> uint32 \<Rightarrow> int \<Rightarrow> pagetable kres" where
  "vm_map pt physaddr vaddr dirty =
     KERNEL_ASSERT (dirty = 0 \<or> dirty = 1)
    (bindE (find_from (\<lambda>e. ucast (VPN2 e) = drop_bit 13 vaddr) (pt_entries pt) 0
             (unat (valid_count pt))) (\<lambda>i.
     if i < unat (valid_count pt) then
       bindE (rd (pt_entries pt) (int i)) (\<lambda>e.
       if ADDR_IS_ON_EVEN_PAGE vaddr then
         if V0 e = 1 then KERNEL_PANIC ''Tried to re-map same virtual page''
         else Inr (pt\<lparr>pt_entries := (pt_entries pt)[i := map_even physaddr dirty e]\<rparr>)
       else
         if V1 e = 1 then KERNEL_PANIC ''Tried to re-map same virtual page''
         else Inr (pt\<lparr>pt_entries := (pt_entries pt)[i := map_odd physaddr dirty e]\<rparr>))
     else if unat (valid_count pt) \<ge> PAGETABLE_ENTRIES then
       KERNEL_PANIC ''Thread run out of pagetable mapping entries.''
     else
       bindE (rd (pt_entries pt) (int (unat (valid_count pt)))) (\<lambda>e.
       let e = e\<lparr>VPN2 := ucast (drop_bit 13 vaddr), tlb_ASID := ucast (pt_ASID pt)\<rparr>;
           e = (if ADDR_IS_ON_EVEN_PAGE vaddr then (map_even physaddr dirty e)\<lparr>V1 := 0\<rparr>
                else (map_odd physaddr dirty e)\<lparr>V0 := 0\<rparr>)
       in Inr (pt\<lparr>pt_entries := (pt_entries pt)[unat (valid_count pt) := e],
                  valid_count := valid_count pt + 1\<rparr>))))"

definition vm_unmap :: "pagetable \<Rightarrow> uint32 \<Rightarrow> pagetable" where
  "vm_unmap pt vaddr = pt"

definition vm_set_dirty :: "pagetable \<Rightarrow> uint32 \<Rightarrow> int \<Rightarrow> pagetable kres" where
  "vm_set_dirty pt vaddr dirty =
     KERNEL_ASSERT (dirty = 0 \<or> dirty = 1)
    (bindE (find_from (\<lambda>e. ucast (VPN2 e) = drop_bit 13 vaddr) (pt_entries pt) 0
             (unat (valid_count pt))) (\<lambda>i.
     if i < unat (valid_count pt) then
       bindE (rd (pt_entries pt) (int i)) (\<lambda>e.
       if ADDR_IS_ON_EVEN_PAGE vaddr then
         if V0 e = 0 then KERNEL_PANIC ''Tried to set dirty bit of an unmapped entry''
         else Inr (pt\<lparr>pt_entries := (pt_entries pt)[i := e\<lparr>D0 := word_of_int dirty\<rparr>]\<rparr>)
       else
         if V1 e = 0 then KERNEL_PANIC ''Tried to set dirty bit of an unmapped entry''
         else Inr (pt\<lparr>pt_entries := (pt_entries pt)[i := e\<lparr>D1 := word_of_int dirty\<rparr>]\<rparr>))
     else KERNEL_PANIC ''Tried to set dirty bit of an unmapped entry''))"

subsection \<open>The TLB\<close>

definition tlb_get_maxindex :: "'a vmem_scheme \<Rightarrow> nat" where
  "tlb_get_maxindex s = length (tlb s) - 1"

fun tlb_write_loop :: "tlb_entry list \<Rightarrow> nat \<Rightarrow> nat \<Rightarrow> tlb_entry list \<Rightarrow> tlb_entry list" where
  "tlb_write_loop es index 0 t = t"
| "tlb_write_loop [] index (Suc num) t = t"
| "tlb_write_loop (e # es) index (Suc num) t =
     (if index < length t then tlb_write_loop es (Suc index) num (t[index := e]) else t)"

definition tlb_set_asid :: "uint32 \<Rightarrow> 'a vmem_scheme \<Rightarrow> 'a vmem_scheme" where
  "tlb_set_asid asid s = s\<lparr>cp0_asid := ucast asid\<rparr>"

definition tlb_fill :: "uint32 \<Rightarrow> 'a vmem_scheme \<Rightarrow> 'a vmem_scheme kres" where
  "tlb_fill table s =
     (if table = 0 then Inr s
      else let pt = pagetable_at s table in
        KERNEL_ASSERT (unat (valid_count pt) \<le> tlb_get_maxindex s + 1)
       (let s = s\<lparr>tlb := tlb_write_loop (pt_entries pt) 0 (unat (valid_count pt)) (tlb s)\<rparr>
        in Inr (tlb_set_asid (pt_ASID pt) s)))"

text \<open>The handlers of TLB exceptions stop the machine.\<close>

definition tlb_modified_exception :: "unit kres" where
  "tlb_modified_exception = KERNEL_PANIC ''Unhandled TLB modified exception''"

definition tlb_load_exception :: "unit kres" where
  "tlb_load_exception = KERNEL_PANIC ''Unhandled TLB load exception''"

definition tlb_store_exception :: "unit kres" where
  "tlb_store_exception = KERNEL_PANIC ''Unhandled TLB store exception''"


subsection \<open>What a page table maps\<close>

text \<open>
  A page table stands for a partial function from virtual addresses to a frame number and a
  write permission: the entry of the address's page pair, and of it the half bit 12 selects.
\<close>

definition vpn2_of :: "uint32 \<Rightarrow> 19 word" where
  "vpn2_of vaddr = ucast (drop_bit 13 vaddr)"

definition entry_translate :: "tlb_entry \<Rightarrow> uint32 \<Rightarrow> (20 word \<times> bool) option" where
  "entry_translate e vaddr =
     (if ADDR_IS_ON_EVEN_PAGE vaddr then if V0 e = 1 then Some (PFN0 e, D0 e = 1) else None
      else if V1 e = 1 then Some (PFN1 e, D1 e = 1) else None)"

definition entry_map :: "tlb_entry list \<Rightarrow> 19 word \<rightharpoonup> tlb_entry" where
  "entry_map es = map_of (map (\<lambda>e. (VPN2 e, e)) es)"

definition valid_entries :: "pagetable \<Rightarrow> tlb_entry list" where
  "valid_entries pt = take (unat (valid_count pt)) (pt_entries pt)"

definition pt_lookup :: "pagetable \<Rightarrow> uint32 \<Rightarrow> (20 word \<times> bool) option" where
  "pt_lookup pt vaddr =
     (case entry_map (valid_entries pt) (vpn2_of vaddr) of
        None \<Rightarrow> None | Some e \<Rightarrow> entry_translate e vaddr)"

definition pt_ok :: "pagetable \<Rightarrow> bool" where
  "pt_ok pt \<longleftrightarrow> length (pt_entries pt) = PAGETABLE_ENTRIES \<and>
     unat (valid_count pt) \<le> PAGETABLE_ENTRIES \<and> distinct (map VPN2 (valid_entries pt)) \<and>
     (\<forall>e \<in> set (valid_entries pt). tlb_ASID e = ucast (pt_ASID pt))"

text \<open>Room for one more mapping of this page: an entry of its pair, or an unused entry.\<close>

definition pt_room :: "pagetable \<Rightarrow> uint32 \<Rightarrow> bool" where
  "pt_room pt vaddr \<longleftrightarrow> vpn2_of vaddr \<in> VPN2 ` set (valid_entries pt) \<or>
     unat (valid_count pt) < PAGETABLE_ENTRIES"

definition same_page :: "uint32 \<Rightarrow> uint32 \<Rightarrow> bool" where
  "same_page a b \<longleftrightarrow> drop_bit 12 a = drop_bit 12 b"

lemma ucast_vpn2: "ucast v = drop_bit 13 vaddr \<longleftrightarrow> v = vpn2_of vaddr" for v :: "19 word"
proof
  assume "ucast v = drop_bit 13 vaddr"
  then have "ucast (ucast v :: uint32) = vpn2_of vaddr" by (simp only: vpn2_of_def)
  moreover have "ucast (ucast v :: uint32) = v"
    by (auto simp: bit_eq_iff bit_simps dest: bit_imp_le_length)
  ultimately show "v = vpn2_of vaddr" by simp
next
  assume "v = vpn2_of vaddr"
  then show "ucast v = drop_bit 13 vaddr"
    by (intro bit_eqI) (auto simp: vpn2_of_def bit_simps dest: bit_imp_le_length)
qed

lemma even_page_bit: "ADDR_IS_ON_EVEN_PAGE a \<longleftrightarrow> \<not> bit a 12"
  using and_exp_eq_0_iff_not_bit [of a 12] by (simp add: ADDR_IS_ON_EVEN_PAGE_def)

lemma same_page_iff:
  "same_page a b \<longleftrightarrow> vpn2_of a = vpn2_of b \<and> ADDR_IS_ON_EVEN_PAGE a = ADDR_IS_ON_EVEN_PAGE b"
proof
  assume "same_page a b"
  then have "bit a (12 + n) = bit b (12 + n)" for n
    by (simp only: same_page_def bit_drop_bit_eq [of 12, symmetric, unfolded comp_def, THEN fun_cong])
  from this [of 0] this [of "Suc n" for n]
  show "vpn2_of a = vpn2_of b \<and> ADDR_IS_ON_EVEN_PAGE a = ADDR_IS_ON_EVEN_PAGE b"
    by (auto simp: even_page_bit vpn2_of_def bit_eq_iff bit_simps add.commute)
next
  assume asm: "vpn2_of a = vpn2_of b \<and> ADDR_IS_ON_EVEN_PAGE a = ADDR_IS_ON_EVEN_PAGE b"
  then have "drop_bit 13 a = drop_bit 13 b"
    by (metis ucast_vpn2)
  then have "bit a (13 + n) = bit b (13 + n)" for n
    by (metis bit_drop_bit_eq comp_apply)
  then have "bit a (12 + n) = bit b (12 + n)" for n
    using asm by (cases n) (auto simp: even_page_bit)
  then show "same_page a b"
    by (auto simp: same_page_def bit_eq_iff bit_simps add.commute)
qed

lemma entry_map_simps [simp]:
  "entry_map [] = Map.empty"
  "entry_map (e # es) = (entry_map es)(VPN2 e \<mapsto> e)"
  by (simp_all add: entry_map_def)

lemma entry_map_None: "entry_map es k = None \<longleftrightarrow> k \<notin> VPN2 ` set es"
  by (induction es) auto

lemma entry_map_update:
  "i < length es \<Longrightarrow> VPN2 e = VPN2 (es ! i) \<Longrightarrow> distinct (map VPN2 es) \<Longrightarrow>
   entry_map (es[i := e]) = (entry_map es)(VPN2 e \<mapsto> e)"
proof (induction es arbitrary: i)
  case (Cons x es)
  then show ?case
    by (cases i) (auto simp: fun_eq_iff, metis image_eqI nth_mem)
qed simp

lemma entry_map_snoc:
  "VPN2 e \<notin> VPN2 ` set es \<Longrightarrow> entry_map (es @ [e]) = (entry_map es)(VPN2 e \<mapsto> e)"
  by (induction es) (auto simp: fun_upd_twist)

lemma entry_map_nth:
  "distinct (map VPN2 es) \<Longrightarrow> i < length es \<Longrightarrow> entry_map es (VPN2 (es ! i)) = Some (es ! i)"
  by (simp add: entry_map_def comp_def)

text \<open>Where the search of \<^verbatim>\<open>vm_map\<close> and \<^verbatim>\<open>vm_set_dirty\<close> stops.\<close>

lemma pt_search:
  assumes "pt_ok pt"
  obtains (hit) i where "i < unat (valid_count pt)" "VPN2 (pt_entries pt ! i) = vpn2_of vaddr"
    "find_from (\<lambda>e. ucast (VPN2 e) = drop_bit 13 vaddr) (pt_entries pt) 0 (unat (valid_count pt)) =
       Inr i"
  | (miss) "vpn2_of vaddr \<notin> VPN2 ` set (valid_entries pt)"
    "find_from (\<lambda>e. ucast (VPN2 e) = drop_bit 13 vaddr) (pt_entries pt) 0 (unat (valid_count pt)) =
       Inr (unat (valid_count pt))"
proof -
  let ?P = "\<lambda>i. VPN2 (pt_entries pt ! i) = vpn2_of vaddr"
  let ?n = "unat (valid_count pt)"
  have n: "?n \<le> length (pt_entries pt)" using assms by (simp add: pt_ok_def)
  then have eq: "find_from (\<lambda>e. ucast (VPN2 e) = drop_bit 13 vaddr) (pt_entries pt) 0 ?n =
      Inr (first_from ?P 0 ?n)"
    by (simp add: find_from_eq ucast_vpn2)
  show ?thesis
  proof (cases "first_from ?P 0 ?n < ?n")
    case True
    with first_from_holds [OF True] eq show ?thesis by (intro hit) simp_all
  next
    case False
    then have "first_from ?P 0 ?n = ?n"
      using first_from_le [of 0 ?n ?P] by simp
    moreover from this have "\<forall>j < ?n. \<not> ?P j"
      using first_from_eq_n_iff [of 0 ?n ?P] by simp
    then have "vpn2_of vaddr \<notin> VPN2 ` set (valid_entries pt)"
      using n by (auto simp: valid_entries_def in_set_conv_nth image_iff) metis
    ultimately show ?thesis using eq by (intro miss) simp_all
  qed
qed

subsection \<open>Mapping pages\<close>

lemma drop_bit_13_fits: "ucast (vpn2_of vaddr) = drop_bit 13 vaddr"
  using ucast_vpn2 by blast

lemma vpn2_of_cast: "ucast (drop_bit 13 vaddr) = vpn2_of vaddr"
  by (simp add: vpn2_of_def)

lemma word1_cases: "v = 0 \<or> v = 1" for v :: "1 word"
  by (metis bit_word_eqI less_one less_Suc0 bit_0 bit_1_iff len_of_numeral_defs(2)
      even_take_bit_eq bit_0_eq bot_apply bot_bool_def)

text \<open>Updating one entry of the table and adding one, as updates of the function it stands for.\<close>

lemma pt_entry_set:
  assumes "pt_ok pt" "i < unat (valid_count pt)"
    "VPN2 e = VPN2 (pt_entries pt ! i)" "tlb_ASID e = tlb_ASID (pt_entries pt ! i)"
  shows "pt_ok (pt\<lparr>pt_entries := (pt_entries pt)[i := e]\<rparr>)"
    and "entry_map (valid_entries (pt\<lparr>pt_entries := (pt_entries pt)[i := e]\<rparr>)) =
      (entry_map (valid_entries pt))(VPN2 e \<mapsto> e)"
    and "entry_map (valid_entries pt) (VPN2 e) = Some (pt_entries pt ! i)"
proof -
  let ?es = "valid_entries pt"
  have len: "unat (valid_count pt) \<le> length (pt_entries pt)" "i < length ?es"
    "?es ! i = pt_entries pt ! i" and d: "distinct (map VPN2 ?es)"
    using assms(1,2) by (auto simp: pt_ok_def valid_entries_def)
  have upd: "valid_entries (pt\<lparr>pt_entries := (pt_entries pt)[i := e]\<rparr>) = ?es[i := e]"
    by (simp add: valid_entries_def take_update_swap)
  have "map VPN2 (?es[i := e]) = map VPN2 ?es"
    using len assms(3) by (metis list_update_id map_update nth_map)
  moreover have "tlb_ASID e = ucast (pt_ASID pt)"
    using assms(1,4) len nth_mem unfolding pt_ok_def by metis
  ultimately show "pt_ok (pt\<lparr>pt_entries := (pt_entries pt)[i := e]\<rparr>)"
    using assms(1) d unfolding pt_ok_def upd
    by (auto dest: set_update_subset_insert [THEN subsetD])
  show "entry_map (valid_entries (pt\<lparr>pt_entries := (pt_entries pt)[i := e]\<rparr>)) =
      (entry_map ?es)(VPN2 e \<mapsto> e)"
    using entry_map_update [of i ?es e] len assms(3) d by (simp add: upd)
  show "entry_map ?es (VPN2 e) = Some (pt_entries pt ! i)"
    using entry_map_nth [of ?es i] d len assms(3) by simp
qed

lemma pt_entry_add:
  assumes "pt_ok pt" "unat (valid_count pt) < PAGETABLE_ENTRIES"
    "VPN2 e \<notin> VPN2 ` set (valid_entries pt)" "tlb_ASID e = ucast (pt_ASID pt)"
  defines "pt' \<equiv> pt\<lparr>pt_entries := (pt_entries pt)[unat (valid_count pt) := e],
    valid_count := valid_count pt + 1\<rparr>"
  shows "pt_ok pt'" and "entry_map (valid_entries pt') = (entry_map (valid_entries pt))(VPN2 e \<mapsto> e)"
proof -
  have n: "unat (valid_count pt + 1) = Suc (unat (valid_count pt))"
    using assms(2) by (simp add: PAGETABLE_ENTRIES_def unat_plus_simple [THEN iffD1] no_olen_add_nat
        unat_word_ariths(1))
  have upd: "valid_entries pt' = valid_entries pt @ [e]"
    using assms(1,2) unfolding pt_ok_def pt'_def
    by (simp add: valid_entries_def n take_Suc_conv_app_nth)
  show "pt_ok pt'"
    using assms(1-4) n unfolding pt_ok_def upd by (auto simp: pt'_def)
  show "entry_map (valid_entries pt') = (entry_map (valid_entries pt))(VPN2 e \<mapsto> e)"
    by (simp add: upd entry_map_snoc assms(3))
qed

lemma pt_lookup_upd:
  assumes "entry_map (valid_entries pt') = (entry_map (valid_entries pt))(vpn2_of vaddr \<mapsto> e)"
    and "\<And>a. vpn2_of a = vpn2_of vaddr \<Longrightarrow> ADDR_IS_ON_EVEN_PAGE a = ADDR_IS_ON_EVEN_PAGE vaddr \<Longrightarrow>
      entry_translate e a = r"
    and "\<And>a. vpn2_of a = vpn2_of vaddr \<Longrightarrow> ADDR_IS_ON_EVEN_PAGE a \<noteq> ADDR_IS_ON_EVEN_PAGE vaddr \<Longrightarrow>
      entry_translate e a = pt_lookup pt a"
  shows "pt_lookup pt' a = (if same_page a vaddr then r else pt_lookup pt a)"
proof (cases "vpn2_of a = vpn2_of vaddr")
  case True
  then show ?thesis using assms by (auto simp: pt_lookup_def same_page_iff)
next
  case False
  then show ?thesis using assms(1) by (simp add: pt_lookup_def same_page_iff)
qed

lemma word1_of_int: "dirty = 0 \<or> dirty = 1 \<Longrightarrow> (word_of_int dirty :: 1 word) = 1 \<longleftrightarrow> dirty = 1"
  by auto

lemma vm_map_fresh:
  assumes "pt_ok pt" "dirty = 0 \<or> dirty = 1" "pt_lookup pt vaddr = None" "pt_room pt vaddr"
  shows "\<exists>pt'. vm_map pt physaddr vaddr dirty = Inr pt' \<and> pt_ok pt' \<and> pt_ASID pt' = pt_ASID pt \<and>
    (\<forall>a. pt_lookup pt' a =
      (if same_page a vaddr then Some (ucast (drop_bit 12 physaddr), dirty = 1) else pt_lookup pt a))"
  using assms(1)
proof (cases rule: pt_search [of pt vaddr])
  case (hit i)
  let ?e = "pt_entries pt ! i"
  let ?f = "if ADDR_IS_ON_EVEN_PAGE vaddr then map_even physaddr dirty ?e
    else map_odd physaddr dirty ?e"
  let ?pt = "pt\<lparr>pt_entries := (pt_entries pt)[i := ?f]\<rparr>"
  have f: "VPN2 ?f = VPN2 ?e" "tlb_ASID ?f = tlb_ASID ?e"
    by (simp_all add: map_even_def map_odd_def)
  note set = pt_entry_set [OF assms(1) hit(1) f]
  have e: "entry_map (valid_entries pt) (vpn2_of vaddr) = Some ?e"
    using set(3) f hit(2) by simp
  then have "vm_map pt physaddr vaddr dirty = Inr ?pt"
    using hit assms by (auto simp: vm_map_def pt_lookup_def entry_translate_def pt_ok_def split: if_splits)
  moreover have "pt_lookup ?pt a =
      (if same_page a vaddr then Some (ucast (drop_bit 12 physaddr), dirty = 1) else pt_lookup pt a)"
    for a
    by (rule pt_lookup_upd [where e = ?f])
      (use set(2) f hit(2) assms(2) e in \<open>auto simp: entry_translate_def map_even_def map_odd_def
         word1_of_int pt_lookup_def\<close>)
  ultimately show ?thesis using set(1) by auto
next
  case miss
  let ?n = "unat (valid_count pt)"
  let ?e = "(pt_entries pt ! ?n)\<lparr>VPN2 := vpn2_of vaddr, tlb_ASID := ucast (pt_ASID pt)\<rparr>"
  let ?f = "if ADDR_IS_ON_EVEN_PAGE vaddr then (map_even physaddr dirty ?e)\<lparr>V1 := 0\<rparr>
    else (map_odd physaddr dirty ?e)\<lparr>V0 := 0\<rparr>"
  let ?pt = "pt\<lparr>pt_entries := (pt_entries pt)[?n := ?f], valid_count := valid_count pt + 1\<rparr>"
  have f: "VPN2 ?f = vpn2_of vaddr" "tlb_ASID ?f = ucast (pt_ASID pt)"
    by (simp_all add: map_even_def map_odd_def)
  have room: "?n < PAGETABLE_ENTRIES" using miss assms(4) by (simp add: pt_room_def)
  note add = pt_entry_add [OF assms(1) room _ f(2), unfolded f(1), OF miss(1)]
  have "vm_map pt physaddr vaddr dirty = Inr ?pt"
    using miss room assms(1,2) by (auto simp: vm_map_def pt_ok_def vpn2_of_cast Let_def)
  moreover have "pt_lookup ?pt a =
      (if same_page a vaddr then Some (ucast (drop_bit 12 physaddr), dirty = 1) else pt_lookup pt a)"
    for a
    by (rule pt_lookup_upd [where e = ?f])
      (use add(2) miss(1) assms(2) in \<open>auto simp: entry_translate_def map_even_def map_odd_def
         word1_of_int pt_lookup_def entry_map_None [THEN iffD2]\<close>)
  ultimately show ?thesis using add(1) by auto
qed

lemma vm_map_mapped:
  assumes "pt_ok pt" "dirty = 0 \<or> dirty = 1" "pt_lookup pt vaddr \<noteq> None"
  shows "vm_map pt physaddr vaddr dirty = Inl (Panic ''Tried to re-map same virtual page'')"
  using assms(1)
proof (cases rule: pt_search [of pt vaddr])
  case (hit i)
  have "entry_map (valid_entries pt) (vpn2_of vaddr) = Some (pt_entries pt ! i)"
    using pt_entry_set(3) [OF assms(1) hit(1), of "pt_entries pt ! i"] hit(2) by simp
  then show ?thesis
    using hit assms
    by (auto simp: vm_map_def KERNEL_PANIC_def pt_lookup_def entry_translate_def pt_ok_def split: if_splits)
next
  case miss
  then show ?thesis using assms(3) by (simp add: pt_lookup_def entry_map_None [THEN iffD2])
qed

lemma vm_map_full:
  assumes "pt_ok pt" "dirty = 0 \<or> dirty = 1" "\<not> pt_room pt vaddr"
  shows "vm_map pt physaddr vaddr dirty =
    Inl (Panic ''Thread run out of pagetable mapping entries.'')"
  using assms(1)
proof (cases rule: pt_search [of pt vaddr])
  case (hit i)
  then have "pt_entries pt ! i \<in> set (valid_entries pt)"
    using assms(1) by (auto simp: valid_entries_def pt_ok_def in_set_conv_nth)
  then have "pt_room pt vaddr" using hit(2) by (force simp: pt_room_def)
  then show ?thesis using assms(3) by contradiction
next
  case miss
  then show ?thesis using assms by (auto simp: vm_map_def KERNEL_PANIC_def pt_room_def)
qed

lemma vm_set_dirty_mapped:
  assumes "pt_ok pt" "dirty = 0 \<or> dirty = 1" "pt_lookup pt vaddr = Some (pfn, d)"
  shows "\<exists>pt'. vm_set_dirty pt vaddr dirty = Inr pt' \<and> pt_ok pt' \<and>
    (\<forall>a. pt_lookup pt' a = (if same_page a vaddr then Some (pfn, dirty = 1) else pt_lookup pt a))"
  using assms(1)
proof (cases rule: pt_search [of pt vaddr])
  case (hit i)
  let ?e = "pt_entries pt ! i"
  let ?f = "if ADDR_IS_ON_EVEN_PAGE vaddr then ?e\<lparr>D0 := word_of_int dirty\<rparr>
    else ?e\<lparr>D1 := word_of_int dirty\<rparr>"
  let ?pt = "pt\<lparr>pt_entries := (pt_entries pt)[i := ?f]\<rparr>"
  have f: "VPN2 ?f = VPN2 ?e" "tlb_ASID ?f = tlb_ASID ?e" by simp_all
  note set = pt_entry_set [OF assms(1) hit(1) f]
  have e: "entry_map (valid_entries pt) (vpn2_of vaddr) = Some ?e"
    using set(3) f hit(2) by simp
  have "vm_set_dirty pt vaddr dirty = Inr ?pt"
    using hit assms e by (auto simp: vm_set_dirty_def pt_lookup_def entry_translate_def pt_ok_def
        split: if_splits)
  moreover have "pt_lookup ?pt a =
      (if same_page a vaddr then Some (pfn, dirty = 1) else pt_lookup pt a)" for a
    by (rule pt_lookup_upd [where e = ?f])
      (use set(2) f hit(2) assms(2,3) e in \<open>auto simp: entry_translate_def word1_of_int pt_lookup_def
         split: if_splits\<close>)
  ultimately show ?thesis using set(1) by auto
next
  case miss
  then show ?thesis using assms(3) by (simp add: pt_lookup_def entry_map_None [THEN iffD2])
qed

lemma vm_set_dirty_unmapped:
  assumes "pt_ok pt" "dirty = 0 \<or> dirty = 1" "pt_lookup pt vaddr = None"
  shows "vm_set_dirty pt vaddr dirty =
    Inl (Panic ''Tried to set dirty bit of an unmapped entry'')"
  using assms(1)
proof (cases rule: pt_search [of pt vaddr])
  case (hit i)
  have "entry_map (valid_entries pt) (vpn2_of vaddr) = Some (pt_entries pt ! i)"
    using pt_entry_set(3) [OF assms(1) hit(1), of "pt_entries pt ! i"] hit(2) by simp
  then show ?thesis
    using hit assms word1_cases
    by (auto simp: vm_set_dirty_def KERNEL_PANIC_def pt_lookup_def entry_translate_def pt_ok_def
        split: if_splits)
next
  case miss
  then show ?thesis using assms by (auto simp: vm_set_dirty_def KERNEL_PANIC_def)
qed

subsection \<open>Loading the TLB\<close>

lemma tlb_write_loop_eq:
  "n \<le> length es \<Longrightarrow> index + n \<le> length t \<Longrightarrow>
   tlb_write_loop es index n t = take index t @ take n es @ drop (index + n) t"
proof (induction es index n t rule: tlb_write_loop.induct)
  case (3 e es index num t)
  then show ?case
    by (simp add: take_Suc_conv_app_nth drop_update_swap)
qed simp_all

text \<open>
  A page table of at most as many entries as the TLB has is loaded whole, below the
  entries that were there; a longer one stops the kernel.
\<close>

lemma tlb_fill_loads:
  assumes "table \<noteq> 0" "pt = pagetable_at s table" "pt_ok pt"
    "unat (valid_count pt) \<le> length (tlb s)" "tlb s \<noteq> []"
  shows "tlb_fill table s = Inr (s\<lparr>tlb := valid_entries pt @ drop (unat (valid_count pt)) (tlb s),
    cp0_asid := ucast (pt_ASID pt)\<rparr>)"
  using assms by (simp add: tlb_fill_def tlb_get_maxindex_def tlb_set_asid_def valid_entries_def
      tlb_write_loop_eq pt_ok_def Let_def KERNEL_ASSERT_def)

lemma tlb_fill_too_long:
  assumes "table \<noteq> 0" "length (tlb s) < unat (valid_count (pagetable_at s table))" "tlb s \<noteq> []"
  shows "tlb_fill table s = Inl (Panic ''Assertion failed'')"
  using assms by (simp add: tlb_fill_def tlb_get_maxindex_def KERNEL_ASSERT_def)

text \<open>A new page table is empty and in a page the pool did not have in use.\<close>

lemma page_addr_kernel:
  "p < 2 ^ 19 \<Longrightarrow> ADDR_KERNEL_TO_PHYS (ADDR_PHYS_TO_KERNEL (page_addr p)) = page_addr p"
proof -
  assume p: "p < 2 ^ 19"
  then have "unat (page_addr p) < 2 ^ 31" by (simp add: unat_page_addr)
  then have "page_addr p = take_bit 31 (page_addr p)"
    by (simp add: word_unat_eq_iff unsigned_take_bit_eq take_bit_nat_eq_self)
  moreover have "ADDR_KERNEL_TO_PHYS (ADDR_PHYS_TO_KERNEL (page_addr p)) =
      take_bit 31 (page_addr p OR 0x80000000)"
    by (simp add: ADDR_KERNEL_TO_PHYS_def ADDR_PHYS_TO_KERNEL_def take_bit_eq_mask mask_eq_exp_minus_1)
  moreover have "take_bit 31 (0x80000000 :: uint32) = 0"
    by (simp add: take_bit_eq_mask mask_eq_exp_minus_1)
  ultimately show ?thesis by (metis take_bit_or or.right_neutral)
qed

lemma vm_create_cases:
  assumes "pool_ok s"
  obtains "pagepool_num_free_pages s = 0" "vm_create_pagetable asid s = Inr (0, s)"
  | p where "p < nat (pagepool_num_pages s)" "\<not> page_used s p"
    "vm_create_pagetable asid s = Inr (ADDR_PHYS_TO_KERNEL (page_addr p),
      s\<lparr>pagepool_free_pages := bm_upd (pagepool_free_pages s) p True,
        pagepool_num_free_pages := pagepool_num_free_pages s - 1,
        pagetable_at := (pagetable_at s)(ADDR_PHYS_TO_KERNEL (page_addr p) :=
          (pagetable_at s (ADDR_PHYS_TO_KERNEL (page_addr p)))\<lparr>pt_ASID := asid, valid_count := 0\<rparr>)\<rparr>)"
proof (cases "pagepool_num_free_pages s > 0")
  case True
  with assms show ?thesis
  proof (rule pagepool_get_some)
    fix p assume p: "p < nat (pagepool_num_pages s)" "\<not> page_used s p" and
      get: "pagepool_get_phys_page s =
        Inr (page_addr p, s\<lparr>pagepool_free_pages := bm_upd (pagepool_free_pages s) p True,
                           pagepool_num_free_pages := pagepool_num_free_pages s - 1\<rparr>)"
    have "0 < p" using assms p(2) gr0I by (force simp: pool_ok_def)
    moreover have "p < 2 ^ 20" using assms p(1) by (auto simp: pool_ok_def)
    ultimately have "page_addr p \<noteq> 0" by (rule page_addr_nonzero)
    with p get that(2) show ?thesis by (simp add: vm_create_pagetable_def Let_def)
  qed
next
  case False
  with assms have "pagepool_num_free_pages s = 0" by (simp add: pool_ok_def)
  with assms that(1) show ?thesis by (simp add: vm_create_pagetable_def pagepool_get_none)
qed

lemma vm_create_pagetable_empty:
  assumes "pool_ok s" "vm_create_pagetable asid s = Inr (table, s')" "table \<noteq> 0"
    "length (pt_entries (pagetable_at s table)) = PAGETABLE_ENTRIES"
  shows "pt_ok (pagetable_at s' table) \<and> (\<forall>a. pt_lookup (pagetable_at s' table) a = None) \<and>
    pt_ASID (pagetable_at s' table) = asid"
  by (rule vm_create_cases [OF assms(1), of asid])
    (use assms in \<open>auto simp: pt_ok_def valid_entries_def pt_lookup_def\<close>)

subsection \<open>Properties\<close>

text \<open>
  C7: \<^verbatim>\<open>vm_map\<close> of a page that is not mapped, while the table has room, is the update of the
  address translation at that page: every address of the page now translates to the given frame
  with the given write permission, and the translation of every other address is unchanged.
\<close>

theorem vm_map_refines:
  assumes "pt_ok pt" "dirty = 0 \<or> dirty = 1" "pt_lookup pt vaddr = None" "pt_room pt vaddr"
  shows "\<exists>pt'. vm_map pt physaddr vaddr dirty = Inr pt' \<and> pt_ok pt' \<and> pt_ASID pt' = pt_ASID pt \<and>
    (\<forall>a. pt_lookup pt' a =
      (if same_page a vaddr then Some (ucast (drop_bit 12 physaddr), dirty = 1) else pt_lookup pt a))"
  by (rule vm_map_fresh [OF assms])

definition blank_entry :: tlb_entry where
  "blank_entry = \<lparr>VPN2 = 0, tlb_ASID = 0, PFN0 = 0, C0 = 0, D0 = 0, V0 = 0, G0 = 0, PFN1 = 0, C1 = 0,
     D1 = 0, V1 = 0, G1 = 0\<rparr>"

definition sample_table :: pagetable where
  "sample_table = \<lparr>pt_ASID = 3, valid_count = 1, pt_entries =
     blank_entry\<lparr>VPN2 := 2, tlb_ASID := 3, PFN0 := 7, V0 := 1, D0 := 1\<rparr> # replicate 339 blank_entry\<rparr>"

lemma sample_table_ok:
  "pt_ok sample_table" "pt_lookup sample_table 0x5000 = None" "pt_room sample_table 0x5000"
  "pt_lookup sample_table 0x4000 = Some (7, True)"
  by (simp_all add: pt_ok_def sample_table_def valid_entries_def PAGETABLE_ENTRIES_def pt_room_def
      pt_lookup_def vpn2_of_def entry_translate_def ADDR_IS_ON_EVEN_PAGE_def blank_entry_def)

theorem vm_map_refines_witness:
  "\<exists>pt'. vm_map sample_table 0x9000 0x5000 1 = Inr pt' \<and> pt_lookup pt' 0x5000 = Some (9, True) \<and>
     pt_lookup pt' 0x4000 = Some (7, True)"
proof -
  have "same_page 0x5000 0x5000" "\<not> same_page 0x4000 0x5000" by (simp_all add: same_page_def)
  then show ?thesis
    using vm_map_refines [OF sample_table_ok(1) _ sample_table_ok(2,3), of 1 "0x9000"] sample_table_ok(4)
    by auto
qed

text \<open>
  \<^verbatim>\<open>vm_map\<close> stops the kernel when the page is mapped already, and when the table has
  neither an entry of the page's pair nor an unused entry.
\<close>

theorem vm_map_errors:
  assumes "pt_ok pt" "dirty = 0 \<or> dirty = 1"
  shows "(pt_lookup pt vaddr \<noteq> None \<longrightarrow>
      vm_map pt physaddr vaddr dirty = Inl (Panic ''Tried to re-map same virtual page'')) \<and>
    (\<not> pt_room pt vaddr \<longrightarrow>
      vm_map pt physaddr vaddr dirty = Inl (Panic ''Thread run out of pagetable mapping entries.''))"
  using vm_map_mapped [OF assms] vm_map_full [OF assms] by blast

theorem vm_map_errors_witness:
  "vm_map sample_table 0x9000 0x4000 1 = Inl (Panic ''Tried to re-map same virtual page'')"
  using vm_map_errors [OF sample_table_ok(1), of 1 "0x4000" "0x9000"] sample_table_ok(4) by simp

text \<open>
  \<^verbatim>\<open>vm_set_dirty\<close> changes the write permission of the given page and no other
  translation; for an unmapped page it stops the kernel.
\<close>

theorem vm_set_dirty_refines:
  assumes "pt_ok pt" "dirty = 0 \<or> dirty = 1"
  shows "case pt_lookup pt vaddr of
      None \<Rightarrow> vm_set_dirty pt vaddr dirty = Inl (Panic ''Tried to set dirty bit of an unmapped entry'')
    | Some (pfn, d) \<Rightarrow> \<exists>pt'. vm_set_dirty pt vaddr dirty = Inr pt' \<and> pt_ok pt' \<and>
        (\<forall>a. pt_lookup pt' a = (if same_page a vaddr then Some (pfn, dirty = 1) else pt_lookup pt a))"
proof (cases "pt_lookup pt vaddr")
  case None
  then show ?thesis using vm_set_dirty_unmapped [OF assms None] by simp
next
  case (Some x)
  obtain pfn d where x: "x = (pfn, d)" by (cases x)
  then show ?thesis using vm_set_dirty_mapped [OF assms, of vaddr pfn d] Some by simp
qed

theorem vm_set_dirty_refines_witness:
  "\<exists>pt'. vm_set_dirty sample_table 0x4000 0 = Inr pt' \<and> pt_lookup pt' 0x4000 = Some (7, False)"
  using vm_set_dirty_refines [OF sample_table_ok(1), of 0 "0x4000"] sample_table_ok(4)
  by (auto simp: same_page_def)

text \<open>
  C8: Loading the TLB for a page table writes the table's valid entries, in order, from the first
  TLB entry on, keeps the TLB entries after them and sets the address space number; a table with
  more entries than the TLB has stops the kernel.
\<close>

theorem tlb_fill_contents:
  assumes "table \<noteq> 0" "pt_ok (pagetable_at s table)" "tlb s \<noteq> []"
  shows "tlb_fill table s =
    (let pt = pagetable_at s table
     in if unat (valid_count pt) \<le> length (tlb s)
        then Inr (s\<lparr>tlb := valid_entries pt @ drop (unat (valid_count pt)) (tlb s),
          cp0_asid := ucast (pt_ASID pt)\<rparr>)
        else Inl (Panic ''Assertion failed''))"
  using tlb_fill_loads [OF assms(1) refl assms(2)] tlb_fill_too_long [OF assms(1), of s] assms(3)
  by (simp add: Let_def not_le)

definition sample_vmem :: vmem where
  "sample_vmem = pool.extend sample_pool
     \<lparr>pagetable_at = (\<lambda>a. sample_table), tlb = replicate 16 blank_entry, cp0_asid = 0\<rparr>"

theorem tlb_fill_contents_witness:
  "\<exists>s'. tlb_fill 0x80002000 sample_vmem = Inr s' \<and> hd (tlb s') = hd (pt_entries sample_table)"
  using tlb_fill_contents [of "0x80002000" sample_vmem] sample_table_ok(1)
  by (simp add: sample_vmem_def pool.defs vmem.defs Let_def valid_entries_def sample_table_def)

text \<open>
  A new page table translates nothing and carries the given address space number, and
  destroying it gives its page back to the pool.
\<close>

theorem vm_create_then_destroy:
  assumes "pool_ok s" "pagepool_num_pages s \<le> 2 ^ 19" "0 < pagepool_num_free_pages s"
    and "\<forall>t. length (pt_entries (pagetable_at s t)) = PAGETABLE_ENTRIES"
  shows "\<exists>table s' s''. vm_create_pagetable asid s = Inr (table, s') \<and> table \<noteq> 0 \<and>
    pt_ok (pagetable_at s' table) \<and> pt_ASID (pagetable_at s' table) = asid \<and>
    (\<forall>a. pt_lookup (pagetable_at s' table) a = None) \<and>
    vm_destroy_pagetable table s' = Inr s'' \<and> pool_ok s'' \<and> pool_dynamic s'' = pool_dynamic s"
proof (rule vm_create_cases [OF assms(1), of asid])
  fix p
  let ?t = "ADDR_PHYS_TO_KERNEL (page_addr p)"
  let ?g = "s\<lparr>pagepool_free_pages := bm_upd (pagepool_free_pages s) p True,
    pagepool_num_free_pages := pagepool_num_free_pages s - 1\<rparr>"
  let ?s = "?g\<lparr>pagetable_at := (pagetable_at s)(?t := (pagetable_at s ?t)\<lparr>pt_ASID := asid, valid_count := 0\<rparr>)\<rparr>"
  assume p: "p < nat (pagepool_num_pages s)" "\<not> page_used s p"
    and new: "vm_create_pagetable asid s = Inr (?t, ?s)"
  have small: "p < 2 ^ 19" using assms(2) p(1) by simp
  have nz: "?t \<noteq> 0" unfolding ADDR_PHYS_TO_KERNEL_def by (simp add: or_eq_0_iff)
  have static: "nat (pagepool_static_end s) \<le> p"
    using assms(1) p(2) unfolding pool_ok_def by (meson not_le)
  have g: "pool_ok ?g" by (rule pool_ok_get [OF assms(1) p])
  then have s': "pool_ok ?s" by (simp add: pool_ok_def page_used_def [abs_def])
  have cap: "p < 32 * length (pagepool_free_pages s)" using assms(1) p(1) by (simp add: pool_ok_def)
  have used: "page_used ?s p" using cap by (simp add: page_used_def bm_bit_upd)
  let ?f = "?s\<lparr>pagepool_free_pages := bm_upd (pagepool_free_pages ?s) p False,
     pagepool_num_free_pages := pagepool_num_free_pages ?s + 1\<rparr>"
  have free: "vm_destroy_pagetable ?t ?s = Inr ?f"
    using pagepool_free_eq [OF s', of p] static p(1) used page_addr_kernel [OF small]
    by (simp add: vm_destroy_pagetable_def)
  have "pool_ok ?f" by (rule pool_ok_free [OF s']) (use static p(1) used in simp_all)
  moreover have "pool_dynamic ?f = pool_dynamic s"
    using bm_upd_undo [OF cap, of False True] p(2) by (simp add: pool_dynamic_def page_used_def)
  moreover have "pt_ok (pagetable_at ?s ?t) \<and> (\<forall>a. pt_lookup (pagetable_at ?s ?t) a = None) \<and>
      pt_ASID (pagetable_at ?s ?t) = asid"
    using assms(4) by (intro vm_create_pagetable_empty [OF assms(1) new nz]) blast
  ultimately show ?thesis using new nz free by blast
qed (use assms(3) in simp)

theorem vm_create_then_destroy_witness:
  "\<exists>table s'. vm_create_pagetable 5 sample_vmem = Inr (table, s') \<and> table \<noteq> 0 \<and>
     (\<forall>a. pt_lookup (pagetable_at s' table) a = None)"
proof -
  have "pool_ok sample_vmem" using sample_pool_ok(1)
    by (simp add: pool_ok_def page_used_def [abs_def] sample_vmem_def sample_pool_def pool.defs)
  then show ?thesis
    using vm_create_then_destroy [of sample_vmem 5]
    by (auto simp: sample_vmem_def sample_pool_def pool.defs vmem.defs sample_table_def PAGETABLE_ENTRIES_def)
qed

end
