(* ===== verification/Thread.thy ===== *)
theory Thread
  imports Vm
begin

text \<open>
  Kernel threads and the scheduler (\<^verbatim>\<open>kernel/thread.c\<close>, \<^verbatim>\<open>kernel/scheduler.c\<close>,
  \<^verbatim>\<open>kernel/thread.h\<close>, \<^verbatim>\<open>kernel/cswitch.h\<close>, \<^verbatim>\<open>drivers/timer.c\<close>,
  \<^verbatim>\<open>lib/rand.S\<close>).  The ready list is threaded through the \<^verbatim>\<open>next\<close> fields of
  the thread table; the lemmas relate it to a HOL list.  Contexts are kept in a store indexed by
  address, and the addresses the linker assigns are the record \<open>symbols\<close>.
\<close>

datatype thread_state = THREAD_FREE | THREAD_RUNNING | THREAD_READY | THREAD_SLEEPING
  | THREAD_NONREADY | THREAD_DYING

definition IDLE_THREAD_TID :: int where "IDLE_THREAD_TID = 0"
definition CONFIG_MAX_THREADS :: nat where "CONFIG_MAX_THREADS = 32"
definition CONFIG_MAX_CPUS :: nat where "CONFIG_MAX_CPUS = 4"
definition CONFIG_THREAD_STACKSIZE :: uint32 where "CONFIG_THREAD_STACKSIZE = 4096"
definition CONFIG_SCHEDULER_TIMESLICE :: uint32 where "CONFIG_SCHEDULER_TIMESLICE = 750"
definition USERLAND_ENABLE_BIT :: uint32 where "USERLAND_ENABLE_BIT = 0x10"

definition MIPS_REGISTER_V0 :: nat where "MIPS_REGISTER_V0 = 1"
definition MIPS_REGISTER_A0 :: nat where "MIPS_REGISTER_A0 = 3"
definition MIPS_REGISTER_A1 :: nat where "MIPS_REGISTER_A1 = 4"
definition MIPS_REGISTER_A2 :: nat where "MIPS_REGISTER_A2 = 5"
definition MIPS_REGISTER_A3 :: nat where "MIPS_REGISTER_A3 = 6"
definition MIPS_REGISTER_SP :: nat where "MIPS_REGISTER_SP = 26"
definition MIPS_REGISTER_RA :: nat where "MIPS_REGISTER_RA = 28"

record context_t =
  cpu_regs :: "uint32 list"
  reg_hi :: uint32
  reg_lo :: uint32
  reg_pc :: uint32
  ctx_status :: uint32
  prev_context :: uint32

definition sizeof_context :: uint32 where "sizeof_context = 136"

definition zero_context :: context_t where
  "zero_context = \<lparr>cpu_regs = replicate 29 0, reg_hi = 0, reg_lo = 0, reg_pc = 0, ctx_status = 0,
     prev_context = 0\<rparr>"

record thread_table_t =
  th_context :: uint32
  th_user_context :: uint32
  th_state :: thread_state
  th_sleeps_on :: uint32
  th_pagetable :: uint32
  th_process_id :: int
  th_next :: int

record symbols =
  sym_thread_stack_areas :: uint32
  sym_idle_thread_wait_loop :: uint32
  sym_thread_finish :: uint32

record sched = vmem +
  thread_table_slock :: uint32
  thread_table :: "thread_table_t list"
  next_tid :: int
  context_at :: "uint32 \<Rightarrow> context_t"
  scheduler_current_thread :: "int list"
  ready_head :: int
  ready_tail :: int
  rand5_seed :: uint32
  cp0_count :: uint32
  cp0_compare :: uint32

text \<open>Checked access to a row of the thread table.\<close>

definition tt_get :: "int \<Rightarrow> 'a sched_scheme \<Rightarrow> thread_table_t kres" where
  "tt_get t s = rd (thread_table s) t"

definition tt_upd ::
  "int \<Rightarrow> (thread_table_t \<Rightarrow> thread_table_t) \<Rightarrow> 'a sched_scheme \<Rightarrow> 'a sched_scheme kres"
where
  "tt_upd t f s = bindE (rd (thread_table s) t) (\<lambda>e.
     bindE (wr (thread_table s) t (f e)) (\<lambda>tt. Inr (s\<lparr>thread_table := tt\<rparr>)))"

definition context_upd ::
  "uint32 \<Rightarrow> (context_t \<Rightarrow> context_t) \<Rightarrow> 'a sched_scheme \<Rightarrow> 'a sched_scheme"
where
  "context_upd p f s = s\<lparr>context_at := (context_at s)(p := f (context_at s p))\<rparr>"

definition set_reg :: "nat \<Rightarrow> uint32 \<Rightarrow> context_t \<Rightarrow> context_t" where
  "set_reg r v c = c\<lparr>cpu_regs := (cpu_regs c)[r := v]\<rparr>"

subsection \<open>Timer and random numbers\<close>

definition set_rand_seed :: "uint32 \<Rightarrow> 'a sched_scheme \<Rightarrow> 'a sched_scheme" where
  "set_rand_seed seed s = s\<lparr>rand5_seed := seed\<rparr>"

text \<open>
  The generator steps the seed and returns the high word of the 64-bit product of the new seed
  and the range.
\<close>

definition get_rand :: "uint32 \<Rightarrow> 'a sched_scheme \<Rightarrow> uint32 \<times> 'a sched_scheme" where
  "get_rand rnd_range s =
     (let x = rand5_seed s * 314159557 + 23550511
      in (word_of_int ((uint x * uint rnd_range) div 2 ^ 32), s\<lparr>rand5_seed := x\<rparr>))"

definition timer_set_ticks :: "uint32 \<Rightarrow> 'a sched_scheme \<Rightarrow> 'a sched_scheme" where
  "timer_set_ticks ticks s =
     (let (intr_status, s) = interrupt_disable s;
          s = s\<lparr>cp0_compare := cp0_count s + ticks\<rparr>
      in interrupt_set_state intr_status s)"

subsection \<open>The scheduler\<close>

definition scheduler_init :: "'a sched_scheme \<Rightarrow> 'a sched_scheme kres" where
  "scheduler_init s = for_rangeE 0 CONFIG_MAX_CPUS (\<lambda>i s.
     bindE (wr (scheduler_current_thread s) (int i) 0) (\<lambda>c.
     Inr (s\<lparr>scheduler_current_thread := c\<rparr>))) s"

definition scheduler_add_to_ready_list :: "int \<Rightarrow> 'a sched_scheme \<Rightarrow> 'a sched_scheme kres" where
  "scheduler_add_to_ready_list t s =
     KERNEL_ASSERT (t \<noteq> IDLE_THREAD_TID)
    (KERNEL_ASSERT (t \<ge> 0 \<and> t < int CONFIG_MAX_THREADS)
    (if ready_tail s < 0 then
       tt_upd t (\<lambda>e. e\<lparr>th_next := -1\<rparr>) (s\<lparr>ready_head := t, ready_tail := t\<rparr>)
     else
       bindE (tt_upd (ready_tail s) (\<lambda>e. e\<lparr>th_next := t\<rparr>) s) (\<lambda>s.
       bindE (tt_upd t (\<lambda>e. e\<lparr>th_next := -1\<rparr>) s) (\<lambda>s.
       Inr (s\<lparr>ready_tail := t\<rparr>)))))"

definition scheduler_remove_first_ready :: "'a sched_scheme \<Rightarrow> (int \<times> 'a sched_scheme) kres" where
  "scheduler_remove_first_ready s =
     (let t = ready_head s in
      KERNEL_ASSERT (t \<noteq> IDLE_THREAD_TID)
     (if t \<ge> 0 then
        bindE (tt_get t s) (\<lambda>e.
        KERNEL_ASSERT (th_state e = THREAD_READY)
       (let s = (if ready_tail s = t then s\<lparr>ready_tail := -1\<rparr> else s) in
        bindE (tt_get (ready_head s) s) (\<lambda>e.
        Inr (t, s\<lparr>ready_head := th_next e\<rparr>))))
      else Inr (IDLE_THREAD_TID, s)))"

definition scheduler_add_ready :: "int \<Rightarrow> 'a sched_scheme \<Rightarrow> 'a sched_scheme kres" where
  "scheduler_add_ready t s =
     (let (intr_status, s) = interrupt_disable s in
      bindE (spinlock_acquire (thread_table_slock s)) (\<lambda>l.
      bindE (scheduler_add_to_ready_list t (s\<lparr>thread_table_slock := l\<rparr>)) (\<lambda>s.
      bindE (tt_upd t (\<lambda>e. e\<lparr>th_state := THREAD_READY\<rparr>) s) (\<lambda>s.
      let s = s\<lparr>thread_table_slock := spinlock_release (thread_table_slock s)\<rparr>
      in Inr (interrupt_set_state intr_status s)))))"

text \<open>The first half of \<^verbatim>\<open>scheduler_schedule\<close>: what becomes of the thread that loses the processor.\<close>

definition park_current :: "int \<Rightarrow> 'a sched_scheme \<Rightarrow> 'a sched_scheme kres" where
  "park_current current s =
     bindE (tt_get current s) (\<lambda>e.
     if th_state e = THREAD_DYING then
       tt_upd current (\<lambda>e. e\<lparr>th_state := THREAD_FREE\<rparr>) s
     else if th_sleeps_on e \<noteq> 0 then
       tt_upd current (\<lambda>e. e\<lparr>th_state := THREAD_SLEEPING\<rparr>) s
     else
       bindE (if current \<noteq> IDLE_THREAD_TID then scheduler_add_to_ready_list current s else Inr s)
         (tt_upd current (\<lambda>e. e\<lparr>th_state := THREAD_READY\<rparr>)))"

definition scheduler_schedule :: "'a sched_scheme \<Rightarrow> 'a sched_scheme kres" where
  "scheduler_schedule s =
     (let cpu = this_cpu s in
      bindE (spinlock_acquire (thread_table_slock s)) (\<lambda>l.
      let s = s\<lparr>thread_table_slock := l\<rparr> in
      bindE (rd (scheduler_current_thread s) cpu) (\<lambda>current.
      bindE (park_current current s) (\<lambda>s.
      bindE (scheduler_remove_first_ready s) (\<lambda>(t, s).
      bindE (tt_upd t (\<lambda>e. e\<lparr>th_state := THREAD_RUNNING\<rparr>) s) (\<lambda>s.
      let s = s\<lparr>thread_table_slock := spinlock_release (thread_table_slock s)\<rparr> in
      bindE (wr (scheduler_current_thread s) cpu t) (\<lambda>c.
      let s = s\<lparr>scheduler_current_thread := c\<rparr>;
          (r, s) = get_rand CONFIG_SCHEDULER_TIMESLICE s
      in Inr (timer_set_ticks (r + CONFIG_SCHEDULER_TIMESLICE div 2) s))))))))"

subsection \<open>Threads\<close>

definition stack_context :: "symbols \<Rightarrow> int \<Rightarrow> uint32" where
  "stack_context img t = sym_thread_stack_areas img + CONFIG_THREAD_STACKSIZE * word_of_int t +
     CONFIG_THREAD_STACKSIZE - sizeof_context"

definition thread_table_init :: "symbols \<Rightarrow> 'a sched_scheme \<Rightarrow> 'a sched_scheme kres" where
  "thread_table_init img s =
     (let s = s\<lparr>thread_table_slock := spinlock_reset (thread_table_slock s)\<rparr> in
      bindE (for_rangeE 0 CONFIG_MAX_THREADS (\<lambda>i.
        tt_upd (int i) (\<lambda>e. e\<lparr>th_context := stack_context img (int i), th_user_context := 0,
          th_state := THREAD_FREE, th_sleeps_on := 0, th_pagetable := 0, th_process_id := -1,
          th_next := -1\<rparr>)) s) (\<lambda>s.
      bindE (tt_get IDLE_THREAD_TID s) (\<lambda>idle.
      let s = context_upd (th_context idle) (\<lambda>c.
            (set_reg MIPS_REGISTER_SP
              (sym_thread_stack_areas img + CONFIG_THREAD_STACKSIZE - 4 - sizeof_context) c)
            \<lparr>reg_pc := sym_idle_thread_wait_loop img,
             ctx_status := INTERRUPT_MASK_ALL OR INTERRUPT_MASK_MASTER\<rparr>) s
      in bindE (tt_upd IDLE_THREAD_TID (\<lambda>e. e\<lparr>th_state := THREAD_READY\<rparr>) s) (\<lambda>s.
         Inr (context_upd (th_context idle) (\<lambda>c. c\<lparr>prev_context := th_context idle\<rparr>) s)))))"

definition free_thread_slot :: "'a sched_scheme \<Rightarrow> nat \<Rightarrow> bool" where
  "free_thread_slot s i =
     (let t = (i + nat (next_tid s)) mod CONFIG_MAX_THREADS
      in int t \<noteq> IDLE_THREAD_TID \<and> th_state (thread_table s ! t) = THREAD_FREE)"

text \<open>
  \<^verbatim>\<open>thread_create\<close> in its two parts: the locked one that takes a row, and the
  initialisation of the row and of the thread's context.
\<close>

definition thread_create_claim :: "'a sched_scheme \<Rightarrow> (int \<times> 'a sched_scheme) kres" where
  "thread_create_claim s =
     (let (intr_status, s) = interrupt_disable s in
      bindE (spinlock_acquire (thread_table_slock s)) (\<lambda>l.
      let s = s\<lparr>thread_table_slock := l\<rparr>;
          i = first_from (free_thread_slot s) 0 CONFIG_MAX_THREADS;
          tid = (if i < CONFIG_MAX_THREADS
                 then int ((i + nat (next_tid s)) mod CONFIG_MAX_THREADS) else -1)
      in if tid < 0 then
           let s = s\<lparr>thread_table_slock := spinlock_release (thread_table_slock s)\<rparr>
           in Inr (tid, interrupt_set_state intr_status s)
         else
           let s = s\<lparr>next_tid := (tid + 1) smod int CONFIG_MAX_THREADS\<rparr> in
           bindE (tt_upd tid (\<lambda>e. e\<lparr>th_state := THREAD_NONREADY\<rparr>) s) (\<lambda>s.
           let s = s\<lparr>thread_table_slock := spinlock_release (thread_table_slock s)\<rparr>
           in Inr (tid, interrupt_set_state intr_status s))))"

definition thread_create_setup ::
  "symbols \<Rightarrow> int \<Rightarrow> uint32 \<Rightarrow> uint32 \<Rightarrow> 'a sched_scheme \<Rightarrow> 'a sched_scheme kres"
where
  "thread_create_setup img tid func arg s =
     (let ctx = stack_context img tid in
      bindE (tt_upd tid (\<lambda>e. e\<lparr>th_context := ctx\<rparr>) s) (\<lambda>s.
      let s = context_upd ctx (\<lambda>c. zero_context) s in
      bindE (tt_upd tid (\<lambda>e. e\<lparr>th_user_context := 0, th_pagetable := 0, th_sleeps_on := 0,
        th_process_id := -1, th_next := -1\<rparr>) s) (\<lambda>s.
      let s = context_upd ctx (\<lambda>c. c\<lparr>prev_context := ctx\<rparr>) s;
          s = context_upd ctx (set_reg MIPS_REGISTER_SP
                (sym_thread_stack_areas img + CONFIG_THREAD_STACKSIZE * word_of_int tid +
                 CONFIG_THREAD_STACKSIZE - 4 - sizeof_context)) s;
          s = context_upd ctx (\<lambda>c. c\<lparr>reg_pc := func\<rparr>) s;
          s = context_upd ctx (set_reg MIPS_REGISTER_RA (sym_thread_finish img)) s;
          s = context_upd ctx (set_reg MIPS_REGISTER_A0 arg) s;
          s = context_upd ctx (\<lambda>c.
                set_reg MIPS_REGISTER_SP (cpu_regs c ! MIPS_REGISTER_SP - 4) c) s;
          s = context_upd ctx (\<lambda>c.
                c\<lparr>ctx_status := INTERRUPT_MASK_ALL OR INTERRUPT_MASK_MASTER\<rparr>) s
      in Inr s)))"

definition thread_create ::
  "symbols \<Rightarrow> uint32 \<Rightarrow> uint32 \<Rightarrow> 'a sched_scheme \<Rightarrow> (int \<times> 'a sched_scheme) kres"
where
  "thread_create img func arg s =
     bindE (thread_create_claim s) (\<lambda>(tid, s).
     if tid < 0 then Inr (tid, s)
     else bindE (thread_create_setup img tid func arg s) (\<lambda>s. Inr (tid, s)))"

definition thread_run :: "int \<Rightarrow> 'a sched_scheme \<Rightarrow> 'a sched_scheme kres" where
  "thread_run t s = scheduler_add_ready t s"

definition thread_get_current_thread :: "'a sched_scheme \<Rightarrow> (int \<times> 'a sched_scheme) kres" where
  "thread_get_current_thread s =
     (let (intr_status, s) = interrupt_disable s in
      bindE (rd (scheduler_current_thread s) (this_cpu s)) (\<lambda>t.
      Inr (t, interrupt_set_state intr_status s)))"

definition thread_get_current_thread_entry ::
  "'a sched_scheme \<Rightarrow> (thread_table_t \<times> 'a sched_scheme) kres"
where
  "thread_get_current_thread_entry s =
     (let (intr_status, s) = interrupt_disable s in
      bindE (rd (scheduler_current_thread s) (this_cpu s)) (\<lambda>t.
      let s = interrupt_set_state intr_status s
      in bindE (tt_get t s) (\<lambda>e. Inr (e, s))))"

text \<open>
  The software interrupt that \<^verbatim>\<open>thread_switch\<close> and \<^verbatim>\<open>thread_finish\<close> raise with
  interrupts enabled is taken at once.  What \<^verbatim>\<open>interrupt_handle\<close> does for it is
  \<open>sw0_interrupt\<close> (theory \<open>Interrupt\<close> proves that): it clears the interrupt, calls the scheduler
  and loads the TLB.  When the handler returns, the processor runs the thread the scheduler
  chose.  The calling thread goes on, with \<open>thread_resume\<close>, when it is chosen again.
\<close>

definition sw0_interrupt :: "'a sched_scheme \<Rightarrow> 'a sched_scheme kres" where
  "sw0_interrupt s =
     bindE (scheduler_schedule (interrupt_clear_sw0 s)) (\<lambda>s.
     bindE (thread_get_current_thread_entry s) (\<lambda>(e, s).
     tlb_fill (th_pagetable e) s))"

definition thread_switch :: "'a sched_scheme \<Rightarrow> (uint32 \<times> 'a sched_scheme) kres" where
  "thread_switch s =
     (let (intr_status, s) = interrupt_enable s
      in bindE (sw0_interrupt (interrupt_generate_sw0 s)) (\<lambda>s. Inr (intr_status, s)))"

definition thread_resume :: "uint32 \<Rightarrow> 'a sched_scheme \<Rightarrow> 'a sched_scheme" where
  "thread_resume intr_status s = interrupt_set_state intr_status s"

definition thread_goto_userland :: "uint32 \<Rightarrow> 'a sched_scheme \<Rightarrow> 'a sched_scheme" where
  "thread_goto_userland usercontext s =
     context_upd usercontext (\<lambda>c. c\<lparr>ctx_status :=
       ((ctx_status c OR USERLAND_ENABLE_BIT) OR INTERRUPT_MASK_ALL) OR INTERRUPT_MASK_MASTER\<rparr>) s"

definition thread_finish :: "'a sched_scheme \<Rightarrow> 'a sched_scheme kres" where
  "thread_finish s =
     bindE (thread_get_current_thread s) (\<lambda>(my_tid, s).
     let (_, s) = interrupt_disable s in
     bindE (tt_get my_tid s) (\<lambda>e.
     KERNEL_ASSERT (th_pagetable e = 0)
    (bindE (spinlock_acquire (thread_table_slock s)) (\<lambda>l.
     bindE (tt_upd my_tid (\<lambda>e. e\<lparr>th_state := THREAD_DYING\<rparr>) (s\<lparr>thread_table_slock := l\<rparr>)) (\<lambda>s.
     let s = s\<lparr>thread_table_slock := spinlock_release (thread_table_slock s)\<rparr>;
         (_, s) = interrupt_enable s
     in sw0_interrupt (interrupt_generate_sw0 s))))))"

subsection \<open>Linked lists in the thread table\<close>

text \<open>
  \<open>lseg nx i xs j\<close>: following \<open>nx\<close> from \<open>i\<close> visits the threads \<open>xs\<close> and then reaches \<open>j\<close>.  A list
  ends at a negative thread number.
\<close>

fun lseg :: "(int \<Rightarrow> int) \<Rightarrow> int \<Rightarrow> int list \<Rightarrow> int \<Rightarrow> bool" where
  "lseg nx i [] j \<longleftrightarrow> i = j"
| "lseg nx i (x # xs) j \<longleftrightarrow> i = x \<and> 0 < x \<and> lseg nx (nx x) xs j"

definition linked :: "(int \<Rightarrow> int) \<Rightarrow> int \<Rightarrow> int list \<Rightarrow> bool" where
  "linked nx i xs \<longleftrightarrow> (\<exists>j < 0. lseg nx i xs j)"

lemma lseg_append: "lseg nx i (xs @ ys) k \<longleftrightarrow> (\<exists>j. lseg nx i xs j \<and> lseg nx j ys k)"
  by (induction xs arbitrary: i) auto

lemma lseg_cong: "(\<And>x. x \<in> set xs \<Longrightarrow> nx x = nx' x) \<Longrightarrow> lseg nx i xs j \<longleftrightarrow> lseg nx' i xs j"
  by (induction xs arbitrary: i) auto

lemma linked_cong: "(\<And>x. x \<in> set xs \<Longrightarrow> nx x = nx' x) \<Longrightarrow> linked nx i xs \<longleftrightarrow> linked nx' i xs"
  unfolding linked_def using lseg_cong [of xs nx nx' i] by blast

lemma linked_simps [simp]:
  "linked nx i [] \<longleftrightarrow> i < 0"
  "linked nx i (x # xs) \<longleftrightarrow> i = x \<and> 0 < x \<and> linked nx (nx x) xs"
  by (auto simp: linked_def)

lemma linked_pos: "linked nx i xs \<Longrightarrow> x \<in> set xs \<Longrightarrow> 0 < x"
  by (induction xs arbitrary: i) auto

lemma linked_append:
  "linked nx i (xs @ ys) \<longleftrightarrow> (\<exists>j. lseg nx i xs j \<and> linked nx j ys)"
  by (auto simp: linked_def lseg_append)

text \<open>Appending a thread after the last one and unlinking one in the middle.\<close>

lemma lseg_last: "xs \<noteq> [] \<Longrightarrow> lseg nx i xs j \<Longrightarrow> nx (last xs) = j"
  by (induction xs arbitrary: i) (auto split: if_splits)

lemma lseg_relink:
  "xs \<noteq> [] \<Longrightarrow> distinct xs \<Longrightarrow> lseg nx i xs j \<Longrightarrow> nx' (last xs) = k \<Longrightarrow>
   (\<And>x. x \<in> set xs \<Longrightarrow> x \<noteq> last xs \<Longrightarrow> nx' x = nx x) \<Longrightarrow> lseg nx' i xs k"
proof (induction xs arbitrary: i)
  case (Cons x xs)
  show ?case
  proof (cases "xs = []")
    case False
    then have "x \<noteq> last xs" using Cons.prems(2) last_in_set by force
    then have "nx' x = nx x" using Cons.prems(5) [of x] False by simp
    moreover have "lseg nx' (nx x) xs k"
      using Cons False by simp
    ultimately show ?thesis using Cons.prems(3) by simp
  qed (use Cons.prems in simp)
qed simp

lemma linked_snoc:
  assumes "linked nx i xs" "xs \<noteq> []" "distinct xs" "0 < t" "nx' (last xs) = t" "nx' t < 0"
    "\<And>x. x \<in> set xs \<Longrightarrow> x \<noteq> last xs \<Longrightarrow> nx' x = nx x"
  shows "linked nx' i (xs @ [t])"
  using assms lseg_relink [of xs nx i _ nx' t] by (auto simp: linked_def lseg_append)

definition next_of :: "thread_table_t list \<Rightarrow> int \<Rightarrow> int" where
  "next_of tt t = th_next (tt ! nat t)"

lemma nat_eq_pos: "0 < x \<Longrightarrow> 0 < y \<Longrightarrow> nat x = nat y \<longleftrightarrow> x = y"
  by auto

lemma linked_update:
  "linked (next_of tt) i xs \<Longrightarrow> 0 < t \<Longrightarrow> t \<notin> set xs \<Longrightarrow> linked (next_of (tt[nat t := e])) i xs"
proof (rule linked_cong [THEN iffD1, rotated], assumption)
  fix x assume "linked (next_of tt) i xs" "0 < t" "t \<notin> set xs" "x \<in> set xs"
  then have "nat t \<noteq> nat x" by (metis linked_pos nat_eq_pos)
  then show "next_of tt x = next_of (tt[nat t := e]) x" by (simp add: next_of_def)
qed

lemma linked_update_next:
  assumes "linked (next_of tt) i xs" "nat t < length tt" "th_next e = th_next (tt ! nat t)"
  shows "linked (next_of (tt[nat t := e])) i xs"
  using assms by (auto simp: next_of_def nth_list_update
      intro!: linked_cong [THEN iffD1, of xs "next_of tt", OF _ assms(1)])

subsection \<open>The ready list\<close>

definition ready_rep :: "thread_table_t list \<Rightarrow> int \<Rightarrow> int \<Rightarrow> int list \<Rightarrow> bool" where
  "ready_rep tt hd_tid tl_tid rs \<longleftrightarrow> linked (next_of tt) hd_tid rs \<and> distinct rs \<and>
     (\<forall>t \<in> set rs. t < int CONFIG_MAX_THREADS) \<and> (if rs = [] then tl_tid < 0 else tl_tid = last rs)"

lemma ready_rep_range: "ready_rep tt h l rs \<Longrightarrow> t \<in> set rs \<Longrightarrow> 0 < t \<and> t < int CONFIG_MAX_THREADS"
  by (auto simp: ready_rep_def dest: linked_pos)

lemma tt_upd_ok:
  "0 \<le> t \<Longrightarrow> nat t < length (thread_table s) \<Longrightarrow>
   tt_upd t f s = Inr (s\<lparr>thread_table := (thread_table s)[nat t := f (thread_table s ! nat t)]\<rparr>)"
  by (simp add: tt_upd_def)

lemma tt_get_ok:
  "0 \<le> t \<Longrightarrow> nat t < length (thread_table s) \<Longrightarrow> tt_get t s = Inr (thread_table s ! nat t)"
  by (simp add: tt_get_def)

text \<open>What \<^verbatim>\<open>scheduler_add_to_ready_list\<close> leaves alone: all but the \<^verbatim>\<open>next\<close> fields.\<close>

definition same_but_next :: "thread_table_t list \<Rightarrow> thread_table_t list \<Rightarrow> int set \<Rightarrow> bool" where
  "same_but_next tt tt' T \<longleftrightarrow> length tt' = length tt \<and>
     (\<forall>i. \<exists>n. tt' ! i = (tt ! i)\<lparr>th_next := n\<rparr>) \<and>
     (\<forall>i. int i \<notin> T \<longrightarrow> tt' ! i = tt ! i)"

lemma same_but_next_refl: "same_but_next tt tt T"
proof -
  have "tt ! i = (tt ! i)\<lparr>th_next := th_next (tt ! i)\<rparr>" for i by simp
  then show ?thesis unfolding same_but_next_def by blast
qed

lemma same_but_next_update:
  assumes "same_but_next tt tt' T" "0 \<le> t" "t \<in> T"
  shows "same_but_next tt (tt'[nat t := (tt' ! nat t)\<lparr>th_next := n\<rparr>]) T"
  unfolding same_but_next_def
proof (intro conjI allI impI)
  show "length (tt'[nat t := (tt' ! nat t)\<lparr>th_next := n\<rparr>]) = length tt"
    using assms(1) by (simp add: same_but_next_def)
  fix i
  obtain m where m: "tt' ! i = (tt ! i)\<lparr>th_next := m\<rparr>"
    using assms(1) unfolding same_but_next_def by blast
  show "\<exists>n'. tt'[nat t := (tt' ! nat t)\<lparr>th_next := n\<rparr>] ! i = (tt ! i)\<lparr>th_next := n'\<rparr>"
  proof (cases "i = nat t \<and> i < length tt'")
    case True
    then show ?thesis using m by (intro exI [of _ n]) simp
  next
    case False
    then show ?thesis using m by (intro exI [of _ m]) (cases "i = nat t"; simp add: list_update_beyond)
  qed
  assume "int i \<notin> T"
  then have "i \<noteq> nat t" using assms(2,3) by auto
  then show "tt'[nat t := (tt' ! nat t)\<lparr>th_next := n\<rparr>] ! i = tt ! i"
    using assms(1) \<open>int i \<notin> T\<close> by (simp add: same_but_next_def)
qed

lemma ready_rep_add:
  assumes "ready_rep (thread_table s) (ready_head s) (ready_tail s) rs"
    "length (thread_table s) = CONFIG_MAX_THREADS" "0 < t" "t < int CONFIG_MAX_THREADS" "t \<notin> set rs"
  obtains tt h where "scheduler_add_to_ready_list t s =
      Inr (s\<lparr>thread_table := tt, ready_head := h, ready_tail := t\<rparr>)"
    "ready_rep tt h t (rs @ [t])" "same_but_next (thread_table s) tt (insert t (set rs))"
proof (cases "rs = []")
  case True
  let ?tt = "(thread_table s)[nat t := (thread_table s ! nat t)\<lparr>th_next := -1\<rparr>]"
  have "scheduler_add_to_ready_list t s =
      Inr (s\<lparr>thread_table := ?tt, ready_head := t, ready_tail := t\<rparr>)"
    using True assms by (simp add: scheduler_add_to_ready_list_def IDLE_THREAD_TID_def ready_rep_def tt_upd_ok)
  moreover have "ready_rep ?tt t t (rs @ [t])"
    using True assms by (simp add: ready_rep_def next_of_def)
  moreover have "same_but_next (thread_table s) ?tt (insert t (set rs))"
    using assms(3) by (simp add: same_but_next_update same_but_next_refl)
  ultimately show ?thesis by (rule that)
next
  case False
  let ?l = "last rs" and ?tt = "thread_table s"
  let ?tt1 = "?tt[nat ?l := (?tt ! nat ?l)\<lparr>th_next := t\<rparr>]"
  let ?tt2 = "?tt1[nat t := (?tt ! nat t)\<lparr>th_next := -1\<rparr>]"
  have l: "0 < ?l" "?l < int CONFIG_MAX_THREADS" "ready_tail s = ?l" "?l \<noteq> t"
    using assms(1,3,5) False ready_rep_range [OF assms(1), of ?l] last_in_set [OF False]
    by (auto simp: ready_rep_def)
  then have neq: "nat ?l \<noteq> nat t" "nat ?l < CONFIG_MAX_THREADS" using assms(3) by auto
  have "scheduler_add_to_ready_list t s =
      Inr (s\<lparr>thread_table := ?tt2, ready_head := ready_head s, ready_tail := t\<rparr>)"
    using l neq assms by (simp add: scheduler_add_to_ready_list_def IDLE_THREAD_TID_def tt_upd_ok)
  moreover have "linked (next_of ?tt2) (ready_head s) (rs @ [t])"
    by (rule linked_snoc [where nx = "next_of ?tt"])
      (use assms l neq False ready_rep_range [OF assms(1)] in
        \<open>auto simp: ready_rep_def next_of_def nth_list_update nat_eq_pos\<close>)
  then have "ready_rep ?tt2 (ready_head s) t (rs @ [t])"
    using assms by (auto simp: ready_rep_def)
  moreover have "same_but_next ?tt ?tt2 (insert t (set rs))"
    using same_but_next_update [OF same_but_next_update [OF same_but_next_refl], of ?l _ t ?tt t "-1"]
      assms(3) l neq last_in_set [OF False] by simp
  ultimately show ?thesis by (rule that)
qed

lemma ready_rep_remove:
  assumes "ready_rep (thread_table s) (ready_head s) (ready_tail s) (t # rs)"
    "length (thread_table s) = CONFIG_MAX_THREADS" "th_state (thread_table s ! nat t) = THREAD_READY"
  obtains h l where
    "scheduler_remove_first_ready s = Inr (t, s\<lparr>ready_head := h, ready_tail := l\<rparr>)"
    "ready_rep (thread_table s) h l rs"
proof -
  let ?l = "if rs = [] then -1 else ready_tail s"
  let ?h = "next_of (thread_table s) t"
  have t: "0 < t" "t < int CONFIG_MAX_THREADS" "ready_head s = t"
    using assms(1) by (auto simp: ready_rep_def)
  moreover have "ready_tail s = t \<longleftrightarrow> rs = []"
    using assms(1) by (auto simp: ready_rep_def split: if_splits) (metis last_in_set)
  ultimately have "scheduler_remove_first_ready s = Inr (t, s\<lparr>ready_head := ?h, ready_tail := ?l\<rparr>)"
    using assms(2,3) by (simp add: scheduler_remove_first_ready_def IDLE_THREAD_TID_def tt_get_ok
        Let_def next_of_def)
  moreover have "ready_rep (thread_table s) ?h ?l rs"
    using assms(1) by (auto simp: ready_rep_def)
  ultimately show ?thesis by (rule that)
qed

lemma ready_rep_remove_empty:
  "ready_rep (thread_table s) (ready_head s) (ready_tail s) [] \<Longrightarrow>
   scheduler_remove_first_ready s = Inr (IDLE_THREAD_TID, s)"
  by (simp add: ready_rep_def scheduler_remove_first_ready_def IDLE_THREAD_TID_def Let_def)

lemma ready_rep_update:
  assumes "ready_rep tt h l rs" "nat t < length tt" "th_next e = th_next (tt ! nat t)"
  shows "ready_rep (tt[nat t := e]) h l rs"
  using assms linked_update_next [of tt h rs t e] by (simp add: ready_rep_def)

end
