(* ===== verification/Scheduler.thy ===== *)
theory Scheduler
  imports Thread
begin

text \<open>
  The scheduler invariant, that every operation of \<^verbatim>\<open>kernel/thread.c\<close> and
  \<^verbatim>\<open>kernel/scheduler.c\<close> keeps it, and what the round robin guarantees.
\<close>

definition th :: "'a sched_scheme \<Rightarrow> int \<Rightarrow> thread_table_t" where
  "th s t = thread_table s ! nat t"

definition current_of :: "'a sched_scheme \<Rightarrow> int \<Rightarrow> int" where
  "current_of s c = scheduler_current_thread s ! nat c"

definition is_tid :: "int \<Rightarrow> bool" where
  "is_tid t \<longleftrightarrow> 0 \<le> t \<and> t < int CONFIG_MAX_THREADS"

definition is_cpu :: "int \<Rightarrow> bool" where
  "is_cpu c \<longleftrightarrow> 0 \<le> c \<and> c < int CONFIG_MAX_CPUS"

text \<open>
  The list \<open>rs\<close> is what the ready list links together: the threads in state
  \<^verbatim>\<open>THREAD_READY\<close> other than the idle thread, each once.  A thread other than the idle
  thread is running or dying exactly when some processor has it as its current thread, and no two
  processors have the same one.  Only a running or sleeping thread can be waiting for a resource,
  and every sleeping thread is.
\<close>

definition sched_shape :: "'a sched_scheme \<Rightarrow> bool" where
  "sched_shape s \<longleftrightarrow> length (thread_table s) = CONFIG_MAX_THREADS \<and>
     length (scheduler_current_thread s) = CONFIG_MAX_CPUS \<and> is_cpu (this_cpu s) \<and>
     thread_table_slock s = 0 \<and> 0 \<le> next_tid s \<and> next_tid s < int CONFIG_MAX_THREADS"

definition states_ok :: "'a sched_scheme \<Rightarrow> bool" where
  "states_ok s \<longleftrightarrow> (\<forall>t. is_tid t \<longrightarrow>
     (th_sleeps_on (th s t) \<noteq> 0 \<longrightarrow> th_state (th s t) \<in> {THREAD_RUNNING, THREAD_SLEEPING} \<and> t \<noteq> 0) \<and>
     (th_state (th s t) = THREAD_SLEEPING \<longrightarrow> th_sleeps_on (th s t) \<noteq> 0) \<and>
     (t = 0 \<longrightarrow> th_state (th s t) \<in> {THREAD_READY, THREAD_RUNNING}))"

definition currents_ok :: "'a sched_scheme \<Rightarrow> bool" where
  "currents_ok s \<longleftrightarrow>
     (\<forall>c. is_cpu c \<longrightarrow> is_tid (current_of s c)) \<and>
     (\<forall>t. is_tid t \<and> t \<noteq> 0 \<longrightarrow>
        (th_state (th s t) \<in> {THREAD_RUNNING, THREAD_DYING} \<longleftrightarrow> (\<exists>c. is_cpu c \<and> current_of s c = t))) \<and>
     (\<forall>c d. is_cpu c \<and> is_cpu d \<and> c \<noteq> d \<and> current_of s c \<noteq> 0 \<longrightarrow> current_of s c \<noteq> current_of s d)"

definition ready_ok :: "'a sched_scheme \<Rightarrow> int list \<Rightarrow> bool" where
  "ready_ok s rs \<longleftrightarrow> ready_rep (thread_table s) (ready_head s) (ready_tail s) rs \<and>
     (\<forall>t. is_tid t \<and> t \<noteq> 0 \<longrightarrow> (t \<in> set rs \<longleftrightarrow> th_state (th s t) = THREAD_READY))"

definition sched_ok :: "'a sched_scheme \<Rightarrow> int list \<Rightarrow> bool" where
  "sched_ok s rs \<longleftrightarrow> sched_shape s \<and> states_ok s \<and> currents_ok s \<and> ready_ok s rs"

subsection \<open>Round robin\<close>

text \<open>
  What one call of the scheduler does to the list: the current thread goes to the end unless it
  is the idle thread, is dying or is about to sleep; the first thread of the list runs next, and
  the idle thread when the list is empty.
\<close>

definition requeue :: "'a sched_scheme \<Rightarrow> int list \<Rightarrow> int list" where
  "requeue s rs =
     (let t = current_of s (this_cpu s)
      in if t = 0 \<or> th_state (th s t) = THREAD_DYING \<or> th_sleeps_on (th s t) \<noteq> 0 then rs
         else rs @ [t])"

definition pick :: "int list \<Rightarrow> int" where
  "pick rs = (case rs of [] \<Rightarrow> 0 | t # _ \<Rightarrow> t)"

definition parked_state :: "thread_table_t \<Rightarrow> thread_state" where
  "parked_state e = (if th_state e = THREAD_DYING then THREAD_FREE
     else if th_sleeps_on e \<noteq> 0 then THREAD_SLEEPING else THREAD_READY)"

lemma th_update: "sched_shape s \<Longrightarrow> is_tid t \<Longrightarrow> is_tid u \<Longrightarrow>
    th (s\<lparr>thread_table := (thread_table s)[nat t := e]\<rparr>) u = (if u = t then e else th s u)"
  by (auto simp: th_def sched_shape_def is_tid_def nth_list_update)

lemma same_but_next_fields:
  "same_but_next tt tt' T \<Longrightarrow> th_state (tt' ! i) = th_state (tt ! i)"
  "same_but_next tt tt' T \<Longrightarrow> th_sleeps_on (tt' ! i) = th_sleeps_on (tt ! i)"
  "same_but_next tt tt' T \<Longrightarrow> th_pagetable (tt' ! i) = th_pagetable (tt ! i)"
  "same_but_next tt tt' T \<Longrightarrow> th_process_id (tt' ! i) = th_process_id (tt ! i)"
  "same_but_next tt tt' T \<Longrightarrow> length tt' = length tt"
  "same_but_next tt tt' T \<Longrightarrow> int i \<notin> T \<Longrightarrow> tt' ! i = tt ! i"
  unfolding same_but_next_def
  by (drule conjunct2, drule conjunct1, drule spec [of _ i], erule exE, simp)+ simp_all

text \<open>
  \<open>thread_step s tt T f\<close>: the table \<open>tt\<close> is that of \<open>s\<close> with the states \<open>f\<close>, and with \<^verbatim>\<open>next\<close>
  fields that may differ for the threads in \<open>T\<close>.
\<close>

definition thread_step ::
  "'a sched_scheme \<Rightarrow> thread_table_t list \<Rightarrow> int set \<Rightarrow> (int \<Rightarrow> thread_state) \<Rightarrow> bool"
where
  "thread_step s tt T f \<longleftrightarrow> length tt = length (thread_table s) \<and>
     (\<forall>t. is_tid t \<longrightarrow> th_state (tt ! nat t) = f t \<and>
        th_sleeps_on (tt ! nat t) = th_sleeps_on (th s t) \<and>
        th_pagetable (tt ! nat t) = th_pagetable (th s t) \<and>
        th_process_id (tt ! nat t) = th_process_id (th s t) \<and>
        (t \<notin> T \<longrightarrow> th_next (tt ! nat t) = th_next (th s t)))"

lemma thread_step_state:
  "sched_shape s \<Longrightarrow> is_tid t \<Longrightarrow>
   thread_step s ((thread_table s)[nat t := (th s t)\<lparr>th_state := v\<rparr>]) T
     ((\<lambda>u. th_state (th s u))(t := v))"
  by (auto simp: thread_step_def th_def sched_shape_def is_tid_def nth_list_update)

lemma thread_step_update:
  assumes "thread_step s tt T f" "is_tid t" "length tt = CONFIG_MAX_THREADS"
  shows "thread_step s (tt[nat t := (tt ! nat t)\<lparr>th_state := v\<rparr>]) T (f(t := v))"
  unfolding thread_step_def
proof (intro conjI allI impI)
  fix u assume u: "is_tid u"
  have row: "tt[nat t := (tt ! nat t)\<lparr>th_state := v\<rparr>] ! nat u =
      (if u = t then (tt ! nat u)\<lparr>th_state := v\<rparr> else tt ! nat u)"
    using u assms(2,3) by (auto simp: is_tid_def nth_list_update)
  show "th_state (tt[nat t := (tt ! nat t)\<lparr>th_state := v\<rparr>] ! nat u) = (f(t := v)) u"
    "th_sleeps_on (tt[nat t := (tt ! nat t)\<lparr>th_state := v\<rparr>] ! nat u) = th_sleeps_on (th s u)"
    "th_pagetable (tt[nat t := (tt ! nat t)\<lparr>th_state := v\<rparr>] ! nat u) = th_pagetable (th s u)"
    "th_process_id (tt[nat t := (tt ! nat t)\<lparr>th_state := v\<rparr>] ! nat u) = th_process_id (th s u)"
    "u \<notin> T \<Longrightarrow> th_next (tt[nat t := (tt ! nat t)\<lparr>th_state := v\<rparr>] ! nat u) = th_next (th s u)"
    unfolding row using u assms(1,2) by (auto simp: thread_step_def)
qed (use assms(1) in \<open>simp add: thread_step_def\<close>)

lemma thread_step_same_but_next:
  assumes "same_but_next (thread_table s) tt T" "is_tid t" "nat t < length tt"
  shows "thread_step s (tt[nat t := (tt ! nat t)\<lparr>th_state := v\<rparr>]) T
    ((\<lambda>u. th_state (th s u))(t := v))"
proof -
  note same = same_but_next_fields [OF assms(1)]
  have "th_state (tt[nat t := (tt ! nat t)\<lparr>th_state := v\<rparr>] ! nat u) =
      ((\<lambda>u. th_state (th s u))(t := v)) u" if "is_tid u" for u
    using that assms(2,3) same(1) [of "nat u"]
    by (auto simp: th_def nth_list_update is_tid_def)
  moreover have "th_next (tt[nat t := (tt ! nat t)\<lparr>th_state := v\<rparr>] ! nat u) = th_next (th s u)"
    if "is_tid u" "u \<notin> T" for u
    using that assms(2,3) same(6) [of "nat u"] by (auto simp: th_def nth_list_update is_tid_def)
  ultimately show ?thesis
    unfolding thread_step_def using same assms(3) by (simp add: th_def nth_list_update)
qed

lemma sched_okD:
  assumes "sched_ok s rs"
  shows "sched_shape s" "states_ok s" "currents_ok s" "ready_ok s rs"
    "ready_rep (thread_table s) (ready_head s) (ready_tail s) rs"
    "is_cpu (this_cpu s)" "is_tid (current_of s (this_cpu s))" "thread_table_slock s = 0"
    "length (thread_table s) = CONFIG_MAX_THREADS"
    "length (scheduler_current_thread s) = CONFIG_MAX_CPUS"
  using assms unfolding sched_ok_def sched_shape_def ready_ok_def currents_ok_def by blast+

lemma current_thread_ok:
  "is_cpu (this_cpu s) \<Longrightarrow> length (scheduler_current_thread s) = CONFIG_MAX_CPUS \<Longrightarrow>
   thread_get_current_thread s = Inr (current_of s (this_cpu s), s)"
  by (simp add: thread_get_current_thread_def interrupt_disable_def current_of_def is_cpu_def nat_less_iff)

lemma tid_index: "is_tid t \<Longrightarrow> length tt = CONFIG_MAX_THREADS \<Longrightarrow> 0 \<le> t \<and> nat t < length tt"
  by (auto simp: is_tid_def)

lemma current_not_ready:
  "sched_ok s rs \<Longrightarrow> current_of s (this_cpu s) \<noteq> 0 \<Longrightarrow> current_of s (this_cpu s) \<notin> set rs"
proof
  let ?t = "current_of s (this_cpu s)"
  assume ok: "sched_ok s rs" and t: "?t \<noteq> 0" "?t \<in> set rs"
  note D = sched_okD [OF ok]
  have "th_state (th s ?t) = THREAD_READY"
    using D(4,7) t unfolding ready_ok_def by blast
  moreover have "th_state (th s ?t) \<in> {THREAD_RUNNING, THREAD_DYING}"
    using D(3,6,7) t unfolding currents_ok_def by blast
  ultimately show False by simp
qed

lemma park_current_ok:
  assumes "sched_ok s rs" "t = current_of s (this_cpu s)"
  obtains tt h l where
    "park_current t (s\<lparr>thread_table_slock := 1\<rparr>) =
       Inr (s\<lparr>thread_table_slock := 1, thread_table := tt, ready_head := h, ready_tail := l\<rparr>)"
    "ready_rep tt h l (requeue s rs)"
    "thread_step s tt (set (requeue s rs)) ((\<lambda>u. th_state (th s u))(t := parked_state (th s t)))"
proof -
  let ?s1 = "s\<lparr>thread_table_slock := 1\<rparr>"
  let ?e = "thread_table s ! nat t"
  have shape: "sched_shape s" and t: "is_tid t" "0 \<le> t" "nat t < length (thread_table s)"
    and rep: "ready_rep (thread_table s) (ready_head s) (ready_tail s) rs"
    using sched_okD [OF assms(1)] assms(2) tid_index [of t "thread_table s"] by simp_all
  let ?new = "?e\<lparr>th_state := parked_state ?e\<rparr>"
  let ?direct = "(thread_table s)[nat t := ?new]"
  show ?thesis
  proof (cases "t = 0 \<or> th_state ?e = THREAD_DYING \<or> th_sleeps_on ?e \<noteq> 0")
    case True
    show ?thesis
    proof (rule that)
      show "park_current t ?s1 = Inr (s\<lparr>thread_table_slock := 1, thread_table := ?direct,
          ready_head := ready_head s, ready_tail := ready_tail s\<rparr>)"
        using True t by (auto simp: park_current_def tt_get_ok tt_upd_ok parked_state_def
            IDLE_THREAD_TID_def)
      show "ready_rep ?direct (ready_head s) (ready_tail s) (requeue s rs)"
        using True t(3) rep assms(2) by (simp add: requeue_def th_def ready_rep_update Let_def)
    qed (use thread_step_state [OF shape t(1)] in \<open>simp add: th_def\<close>)
  next
    case False
    have notin: "t \<notin> set rs"
      using current_not_ready [OF assms(1)] assms(2) False by simp
    obtain tt h where add: "scheduler_add_to_ready_list t ?s1 =
        Inr (?s1\<lparr>thread_table := tt, ready_head := h, ready_tail := t\<rparr>)"
      "ready_rep tt h t (rs @ [t])" "same_but_next (thread_table s) tt (insert t (set rs))"
      by (rule ready_rep_add [of ?s1 rs t])
        (use rep t False notin sched_okD(9) [OF assms(1)] in \<open>simp_all add: is_tid_def\<close>)
    note same = same_but_next_fields [OF add(3)]
    have rq: "requeue s rs = rs @ [t]" using False assms(2) by (simp add: requeue_def th_def Let_def)
    show ?thesis
    proof (rule that)
      show "park_current t ?s1 = Inr (s\<lparr>thread_table_slock := 1,
          thread_table := tt[nat t := (tt ! nat t)\<lparr>th_state := THREAD_READY\<rparr>],
          ready_head := h, ready_tail := t\<rparr>)"
        using False t add(1) same(5)
        by (simp add: park_current_def tt_get_ok tt_upd_ok IDLE_THREAD_TID_def)
      show "ready_rep (tt[nat t := (tt ! nat t)\<lparr>th_state := THREAD_READY\<rparr>]) h t (requeue s rs)"
        using add(2) t(3) same(5) rq by (simp add: ready_rep_update)
    qed (use thread_step_same_but_next [OF add(3) t(1), of THREAD_READY] same(5) t(3) False rq in
        \<open>simp add: th_def parked_state_def\<close>)
  qed
qed

lemma requeue_ready:
  assumes "sched_ok s rs" "u \<in> set (requeue s rs)"
  shows "is_tid u" "u \<noteq> 0"
    "((\<lambda>u. th_state (th s u))(current_of s (this_cpu s) :=
       parked_state (th s (current_of s (this_cpu s))))) u = THREAD_READY"
proof -
  let ?t = "current_of s (this_cpu s)"
  note D = sched_okD [OF assms(1)]
  consider "u \<in> set rs" | "u = ?t" "?t \<noteq> 0" "th_state (th s ?t) \<noteq> THREAD_DYING"
      "th_sleeps_on (th s ?t) = 0"
    using assms(2) by (auto simp: requeue_def Let_def split: if_splits)
  then have "is_tid u \<and> u \<noteq> 0 \<and> ((\<lambda>u. th_state (th s u))(?t := parked_state (th s ?t))) u = THREAD_READY"
  proof cases
    case 1
    then have u: "is_tid u" "u \<noteq> 0" using ready_rep_range [OF D(5) 1] by (auto simp: is_tid_def)
    moreover have "u \<noteq> ?t" using 1 u(2) current_not_ready [OF assms(1)] by metis
    moreover have "th_state (th s u) = THREAD_READY" using D(4) 1 u unfolding ready_ok_def by blast
    ultimately show ?thesis by simp
  next
    case 2
    then show ?thesis using D(7) by (simp add: parked_state_def)
  qed
  then show "is_tid u" "u \<noteq> 0"
    "((\<lambda>u. th_state (th s u))(?t := parked_state (th s ?t))) u = THREAD_READY" by blast+
qed

lemma scheduler_schedule_eq:
  assumes "sched_ok s rs" "t = current_of s (this_cpu s)" "t' = pick (requeue s rs)"
  obtains tt h l r k where
    "scheduler_schedule s = Inr (s\<lparr>thread_table := tt, ready_head := h, ready_tail := l,
       scheduler_current_thread := (scheduler_current_thread s)[nat (this_cpu s) := t'],
       rand5_seed := r, cp0_compare := k\<rparr>)"
    "ready_rep tt h l (tl (requeue s rs))"
    "thread_step s tt (set (requeue s rs))
       ((\<lambda>u. th_state (th s u))(t := parked_state (th s t), t' := THREAD_RUNNING))"
proof -
  note D = sched_okD [OF assms(1)]
  obtain tt h l where park: "park_current t (s\<lparr>thread_table_slock := 1\<rparr>) =
       Inr (s\<lparr>thread_table_slock := 1, thread_table := tt, ready_head := h, ready_tail := l\<rparr>)"
    and rep: "ready_rep tt h l (requeue s rs)"
    and step: "thread_step s tt (set (requeue s rs)) ((\<lambda>u. th_state (th s u))(t := parked_state (th s t)))"
    by (rule park_current_ok [OF assms(1,2)])
  let ?s2 = "s\<lparr>thread_table_slock := 1, thread_table := tt, ready_head := h, ready_tail := l\<rparr>"
  have len: "length tt = CONFIG_MAX_THREADS" using step D(9) by (simp add: thread_step_def)
  have t': "is_tid t'" using assms(3) requeue_ready(1) [OF assms(1)]
    by (auto simp: pick_def is_tid_def CONFIG_MAX_THREADS_def split: list.splits)
  obtain h' l' where rem: "scheduler_remove_first_ready ?s2 =
      Inr (t', ?s2\<lparr>ready_head := h', ready_tail := l'\<rparr>)" "ready_rep tt h' l' (tl (requeue s rs))"
  proof (cases "requeue s rs")
    case Nil
    then show ?thesis using rep assms(3) that [of l h] ready_rep_remove_empty [of ?s2]
      by (simp add: pick_def IDLE_THREAD_TID_def)
  next
    case (Cons u us)
    then have "th_state (tt ! nat u) = THREAD_READY"
      using requeue_ready [OF assms(1), of u] step assms(2) by (simp add: thread_step_def)
    with rep Cons len obtain h' l' where "scheduler_remove_first_ready ?s2 =
        Inr (u, ?s2\<lparr>ready_head := h', ready_tail := l'\<rparr>)" "ready_rep tt h' l' us"
      by (auto intro: ready_rep_remove [of ?s2 u us])
    with Cons assms(3) show ?thesis by (intro that) (simp_all add: pick_def)
  qed
  let ?tt = "tt[nat t' := (tt ! nat t')\<lparr>th_state := THREAD_RUNNING\<rparr>]"
  have rdc: "rd (scheduler_current_thread s) (this_cpu s) = Inr t"
    "nat (this_cpu s) < length (scheduler_current_thread s)" "0 \<le> this_cpu s"
    using D(6,10) assms(2) by (auto simp: is_cpu_def current_of_def)
  have "scheduler_schedule s = Inr (s\<lparr>thread_table := ?tt, ready_head := h', ready_tail := l',
       scheduler_current_thread := (scheduler_current_thread s)[nat (this_cpu s) := t'],
       rand5_seed := rand5_seed s * 314159557 + 23550511,
       cp0_compare := cp0_count s + (fst (get_rand CONFIG_SCHEDULER_TIMESLICE s) +
         CONFIG_SCHEDULER_TIMESLICE div 2)\<rparr>)"
    using rdc park rem(1) tid_index [OF t' len] D(8) interrupt_bracket_status [of "cp0_status s" s]
    by (simp add: scheduler_schedule_def tt_upd_ok Let_def get_rand_def timer_set_ticks_def
        interrupt_disable_def interrupt_set_state_def)
  moreover have "ready_rep ?tt h' l' (tl (requeue s rs))"
    using rem(2) tid_index [OF t' len] by (simp add: ready_rep_update)
  moreover have "thread_step s ?tt (set (requeue s rs))
      ((\<lambda>u. th_state (th s u))(t := parked_state (th s t), t' := THREAD_RUNNING))"
    using step len t' by (intro thread_step_update) simp_all
  ultimately show ?thesis by (rule that)
qed

text \<open>The threads of the list before the first one is taken off.\<close>

lemma requeue_iff:
  assumes "sched_ok s rs" "is_tid u" "u \<noteq> 0" "t = current_of s (this_cpu s)"
  shows "u \<in> set (requeue s rs) \<longleftrightarrow>
    ((\<lambda>u. th_state (th s u))(t := parked_state (th s t))) u = THREAD_READY"
proof
  assume "u \<in> set (requeue s rs)"
  then show "((\<lambda>u. th_state (th s u))(t := parked_state (th s t))) u = THREAD_READY"
    using requeue_ready(3) [OF assms(1)] assms(4) by blast
next
  assume *: "((\<lambda>u. th_state (th s u))(t := parked_state (th s t))) u = THREAD_READY"
  show "u \<in> set (requeue s rs)"
  proof (cases "u = t")
    case True
    then show ?thesis using * assms(3,4)
      by (auto simp: requeue_def parked_state_def split: if_splits)
  next
    case False
    then have "u \<in> set rs"
      using * assms(1-3) sched_okD(4) [OF assms(1)] unfolding ready_ok_def by simp
    then show ?thesis by (simp add: requeue_def Let_def)
  qed
qed

lemma schedule_states_ok:
  assumes "sched_ok s rs" "t = current_of s (this_cpu s)" "is_tid t'"
    "thread_step s (thread_table s') T
       ((\<lambda>u. th_state (th s u))(t := parked_state (th s t), t' := THREAD_RUNNING))"
    "th_sleeps_on (th s t') = 0"
  shows "states_ok s'"
  unfolding states_ok_def
proof (intro allI impI)
  fix u assume u: "is_tid u"
  have old: "(th_sleeps_on (th s u) \<noteq> 0 \<longrightarrow> th_state (th s u) \<in> {THREAD_RUNNING, THREAD_SLEEPING} \<and> u \<noteq> 0) \<and>
     (th_state (th s u) = THREAD_SLEEPING \<longrightarrow> th_sleeps_on (th s u) \<noteq> 0) \<and>
     (u = 0 \<longrightarrow> th_state (th s u) \<in> {THREAD_READY, THREAD_RUNNING})"
    using sched_okD(2) [OF assms(1)] u unfolding states_ok_def by blast
  have new: "th_state (th s' u) =
      ((\<lambda>u. th_state (th s u))(t := parked_state (th s t), t' := THREAD_RUNNING)) u"
    "th_sleeps_on (th s' u) = th_sleeps_on (th s u)"
    using assms(4) u by (simp_all add: thread_step_def th_def)
  show "(th_sleeps_on (th s' u) \<noteq> 0 \<longrightarrow> th_state (th s' u) \<in> {THREAD_RUNNING, THREAD_SLEEPING} \<and> u \<noteq> 0) \<and>
     (th_state (th s' u) = THREAD_SLEEPING \<longrightarrow> th_sleeps_on (th s' u) \<noteq> 0) \<and>
     (u = 0 \<longrightarrow> th_state (th s' u) \<in> {THREAD_READY, THREAD_RUNNING})"
    using old assms(5) unfolding new by (auto simp: parked_state_def)
qed

lemma schedule_currents_ok:
  assumes ok: "sched_ok s rs" and t: "t = current_of s (this_cpu s)"
    and t': "t' = pick (requeue s rs)" "is_tid t'"
    and step: "thread_step s (thread_table s') T
       ((\<lambda>u. th_state (th s u))(t := parked_state (th s t), t' := THREAD_RUNNING))"
    and cur: "\<And>c. is_cpu c \<Longrightarrow> current_of s' c = (if c = this_cpu s then t' else current_of s c)"
  shows "currents_ok s'"
proof -
  note D = sched_okD [OF ok]
  have uniq: "c = d" if "is_cpu c" "is_cpu d" "current_of s c = current_of s d" "current_of s c \<noteq> 0"
    for c d using D(3) that unfolding currents_ok_def by blast
  have run: "th_state (th s u) \<in> {THREAD_RUNNING, THREAD_DYING} \<longleftrightarrow> (\<exists>c. is_cpu c \<and> current_of s c = u)"
    if "is_tid u" "u \<noteq> 0" for u using D(3) that unfolding currents_ok_def by blast
  have tid: "is_tid (current_of s c)" if "is_cpu c" for c
    using D(3) that unfolding currents_ok_def by blast
  have fresh: "current_of s d \<noteq> t'" if "is_cpu d" "d \<noteq> this_cpu s" "t' \<noteq> 0" for d
  proof
    assume d: "current_of s d = t'"
    have "t' \<in> set (requeue s rs)" using t'(1) that(3) by (auto simp: pick_def split: list.splits)
    then have "t' = t \<or> th_state (th s t') = THREAD_READY"
      using requeue_ready(3) [OF ok] t by (metis fun_upd_other)
    then show False
      using uniq [of d "this_cpu s"] run [OF t'(2) that(3)] that d t D(6) by auto
  qed
  have state: "th_state (th s' u) =
      ((\<lambda>u. th_state (th s u))(t := parked_state (th s t), t' := THREAD_RUNNING)) u" if "is_tid u" for u
    using step that by (simp add: thread_step_def th_def)
  have "th_state (th s' u) \<in> {THREAD_RUNNING, THREAD_DYING} \<longleftrightarrow> (\<exists>c. is_cpu c \<and> current_of s' c = u)"
    if u: "is_tid u" "u \<noteq> 0" for u
  proof (cases "u = t \<or> u = t'")
    case True
    then show ?thesis
      using state [OF u(1)] cur D(6) uniq [of _ "this_cpu s"] u(2) t
      by (auto simp: parked_state_def)
  next
    case False
    then show ?thesis using state [OF u(1)] run [OF u] cur t D(6) by (auto; metis)
  qed
  moreover have "c = d" if "is_cpu c" "is_cpu d" "current_of s' c = current_of s' d" "current_of s' c \<noteq> 0"
    for c d using that cur fresh uniq by (metis (full_types))
  moreover have "is_tid (current_of s' c)" if "is_cpu c" for c
    using that cur tid t'(2) by simp
  ultimately show ?thesis unfolding currents_ok_def by blast
qed

lemma schedule_ready_ok:
  assumes ok: "sched_ok s rs" and t: "t = current_of s (this_cpu s)"
    and t': "t' = pick (requeue s rs)"
    and step: "thread_step s (thread_table s') T
       ((\<lambda>u. th_state (th s u))(t := parked_state (th s t), t' := THREAD_RUNNING))"
    and rep: "ready_rep (thread_table s') (ready_head s') (ready_tail s') (tl (requeue s rs))"
    and dist: "distinct (requeue s rs)"
  shows "ready_ok s' (tl (requeue s rs))"
  unfolding ready_ok_def
proof (intro conjI rep allI impI)
  fix u assume u: "is_tid u \<and> u \<noteq> 0"
  have state: "th_state (th s' u) =
      ((\<lambda>u. th_state (th s u))(t := parked_state (th s t), t' := THREAD_RUNNING)) u"
    using step u by (simp add: thread_step_def th_def)
  have "u \<in> set (requeue s rs) \<longleftrightarrow>
      ((\<lambda>u. th_state (th s u))(t := parked_state (th s t))) u = THREAD_READY"
    using requeue_iff [OF ok _ _ t, of u] u by blast
  moreover have "u \<in> set (tl (requeue s rs)) \<longleftrightarrow> u \<in> set (requeue s rs) \<and> u \<noteq> t'"
    using dist t' u by (cases "requeue s rs") (auto simp: pick_def)
  ultimately show "u \<in> set (tl (requeue s rs)) \<longleftrightarrow> th_state (th s' u) = THREAD_READY"
    using state by simp
qed

lemma requeue_distinct: "sched_ok s rs \<Longrightarrow> distinct (requeue s rs)"
  using current_not_ready [of s rs] sched_okD(5) [of s rs]
  by (auto simp: requeue_def ready_rep_def Let_def)

lemma pick_tid:
  assumes "sched_ok s rs"
  shows "is_tid (pick (requeue s rs))" "th_sleeps_on (th s (pick (requeue s rs))) = 0"
proof -
  note D = sched_okD [OF assms]
  show tid: "is_tid (pick (requeue s rs))"
    using requeue_ready(1) [OF assms]
    by (auto simp: pick_def is_tid_def CONFIG_MAX_THREADS_def split: list.splits)
  show "th_sleeps_on (th s (pick (requeue s rs))) = 0"
  proof (cases "requeue s rs")
    case Nil
    then show ?thesis using D(2) tid unfolding states_ok_def pick_def by auto
  next
    case (Cons u us)
    then have "is_tid u" and st: "((\<lambda>u. th_state (th s u))(current_of s (this_cpu s) :=
        parked_state (th s (current_of s (this_cpu s))))) u = THREAD_READY"
      using requeue_ready [OF assms, of u] by auto
    then have "th_sleeps_on (th s u) = 0"
      using D(2) unfolding states_ok_def
      by (cases "u = current_of s (this_cpu s)") (auto simp: parked_state_def split: if_splits)
    with Cons show ?thesis by (simp add: pick_def)
  qed
qed

text \<open>
  One call of the scheduler: the invariant holds again, with the list rotated, the thread that
  was first in it running, and nothing else of the kernel's state changed.
\<close>

abbreviation sched_result ::
  "'a sched_scheme \<Rightarrow> int \<Rightarrow> thread_table_t list \<Rightarrow> int \<Rightarrow> int \<Rightarrow> uint32 \<Rightarrow> uint32 \<Rightarrow> 'a sched_scheme"
where
  "sched_result s t' tt h l r k \<equiv> s\<lparr>thread_table := tt, ready_head := h, ready_tail := l,
     scheduler_current_thread := (scheduler_current_thread s)[nat (this_cpu s) := t'],
     rand5_seed := r, cp0_compare := k\<rparr>"

lemma scheduler_schedule_ok:
  assumes ok: "sched_ok s rs" and t: "t = current_of s (this_cpu s)" and t': "t' = pick (requeue s rs)"
  obtains tt h l r k where
    "scheduler_schedule s = Inr (sched_result s t' tt h l r k)"
    "sched_ok (sched_result s t' tt h l r k) (tl (requeue s rs))"
    "current_of (sched_result s t' tt h l r k) (this_cpu s) = t'"
    "thread_step s tt (set (requeue s rs))
       ((\<lambda>u. th_state (th s u))(t := parked_state (th s t), t' := THREAD_RUNNING))"
proof (rule scheduler_schedule_eq [OF ok t t'])
  fix tt h l r k
  let ?s = "sched_result s t' tt h l r k"
  assume eq: "scheduler_schedule s = Inr ?s" and rep: "ready_rep tt h l (tl (requeue s rs))"
    and step: "thread_step s tt (set (requeue s rs))
       ((\<lambda>u. th_state (th s u))(t := parked_state (th s t), t' := THREAD_RUNNING))"
  note D = sched_okD [OF ok] and p = pick_tid [OF ok, folded t']
  have cur: "current_of ?s c = (if c = this_cpu s then t' else current_of s c)" if "is_cpu c" for c
    using that D(6,10) by (auto simp: current_of_def is_cpu_def nth_list_update)
  have "states_ok ?s"
    by (rule schedule_states_ok [OF ok t p(1) _ p(2)]) (use step in simp)
  moreover have "currents_ok ?s"
    by (rule schedule_currents_ok [OF ok t t' p(1) _ cur]) (use step in simp_all)
  moreover have "ready_ok ?s (tl (requeue s rs))"
    by (rule schedule_ready_ok [OF ok t t' _ _ requeue_distinct [OF ok]]) (use step rep in simp_all)
  moreover have "sched_shape ?s"
    using D(1) step by (simp add: sched_shape_def thread_step_def)
  ultimately have "sched_ok ?s (tl (requeue s rs))" by (simp add: sched_ok_def)
  with eq step cur [OF D(6)] show ?thesis by (intro that) simp_all
qed

subsection \<open>Every ready thread gets the processor\<close>

text \<open>\<open>schedule_on cs s\<close>: the scheduler runs on the processors \<open>cs\<close>, one after the other.\<close>

fun schedule_on :: "int list \<Rightarrow> 'a sched_scheme \<Rightarrow> 'a sched_scheme kres" where
  "schedule_on [] s = Inr s"
| "schedule_on (c # cs) s = bindE (scheduler_schedule (s\<lparr>this_cpu := c\<rparr>)) (schedule_on cs)"

lemma sched_ok_cpu: "sched_ok s rs \<Longrightarrow> is_cpu c \<Longrightarrow> sched_ok (s\<lparr>this_cpu := c\<rparr>) rs"
proof -
  assume "sched_ok s rs" "is_cpu c"
  moreover have "th (s\<lparr>this_cpu := c\<rparr>) = th s" "current_of (s\<lparr>this_cpu := c\<rparr>) = current_of s"
    by (simp_all add: fun_eq_iff th_def current_of_def)
  moreover from this have "states_ok (s\<lparr>this_cpu := c\<rparr>) = states_ok s"
    "currents_ok (s\<lparr>this_cpu := c\<rparr>) = currents_ok s"
    unfolding states_ok_def currents_ok_def by (simp_all only:)
  moreover have "ready_ok (s\<lparr>this_cpu := c\<rparr>) rs = ready_ok s rs"
    by (simp add: ready_ok_def th_def)
  ultimately show ?thesis by (simp add: sched_ok_def sched_shape_def)
qed

lemma requeue_nth: "k < length rs \<Longrightarrow> requeue s rs ! k = rs ! k \<and> k < length (requeue s rs)"
  by (simp add: requeue_def nth_append Let_def)

lemma schedule_on_ready:
  "sched_ok s rs \<Longrightarrow> \<forall>c \<in> set cs. is_cpu c \<Longrightarrow> length cs = Suc k \<Longrightarrow> k < length rs \<Longrightarrow>
   \<exists>s' rs'. schedule_on cs s = Inr s' \<and> sched_ok s' rs' \<and> current_of s' (last cs) = rs ! k"
proof (induction k arbitrary: cs s rs)
  case 0
  then obtain c where cs: "cs = [c]" by (cases cs) auto
  have ok: "sched_ok (s\<lparr>this_cpu := c\<rparr>) rs" using 0 cs by (simp add: sched_ok_cpu)
  show ?case
    by (rule scheduler_schedule_ok [OF ok refl refl])
      (use requeue_nth [of 0 rs "s\<lparr>this_cpu := c\<rparr>"] 0 cs in \<open>auto simp: pick_def neq_Nil_conv split: list.splits\<close>)
next
  case (Suc k)
  then obtain c cs' where cs: "cs = c # cs'" by (cases cs) auto
  then have "cs' \<noteq> []" using Suc.prems(3) by auto
  note cs = cs this
  let ?s = "s\<lparr>this_cpu := c\<rparr>"
  have ok: "sched_ok ?s rs" using Suc.prems cs by (simp add: sched_ok_cpu)
  have "tl (requeue ?s rs) ! k = rs ! Suc k" "k < length (tl (requeue ?s rs))"
    using requeue_nth [of "Suc k" rs ?s] Suc.prems(4) by (auto simp: nth_tl)
  then show ?case
    by - (rule scheduler_schedule_ok [OF ok refl refl],
        use Suc.IH [of _ "tl (requeue ?s rs)" cs'] Suc.prems cs in auto)
qed

subsection \<open>Changes to one thread\<close>

text \<open>
  The invariant depends on the thread table, the ready list's ends, the current threads and the
  table's lock only.
\<close>

lemma sched_ok_cong:
  assumes "thread_table s' = thread_table s" "ready_head s' = ready_head s"
    "ready_tail s' = ready_tail s" "scheduler_current_thread s' = scheduler_current_thread s"
    "this_cpu s' = this_cpu s" "thread_table_slock s' = thread_table_slock s"
    "0 \<le> next_tid s'" "next_tid s' < int CONFIG_MAX_THREADS"
  shows "sched_ok s rs \<Longrightarrow> sched_ok s' rs"
  using assms by (simp add: sched_ok_def sched_shape_def states_ok_def currents_ok_def
      ready_ok_def th_def current_of_def)

text \<open>A thread off the ready list changes its row, without starting or ceasing to run.\<close>

lemma sched_ok_row:
  assumes ok: "sched_ok s rs" and t: "is_tid t" "t \<noteq> 0"
    and st: "th_state (th s t) \<noteq> THREAD_READY" "th_state e \<noteq> THREAD_READY"
    "th_state e \<in> {THREAD_RUNNING, THREAD_DYING} \<longleftrightarrow> th_state (th s t) \<in> {THREAD_RUNNING, THREAD_DYING}"
    and sl: "th_sleeps_on e \<noteq> 0 \<Longrightarrow> th_state e \<in> {THREAD_RUNNING, THREAD_SLEEPING}"
    "th_state e = THREAD_SLEEPING \<Longrightarrow> th_sleeps_on e \<noteq> 0"
  shows "sched_ok (s\<lparr>thread_table := (thread_table s)[nat t := e]\<rparr>) rs" (is "sched_ok ?s rs")
proof -
  note D = sched_okD [OF ok]
  have row: "th ?s u = (if u = t then e else th s u)" if "is_tid u" for u
    using th_update [OF D(1) t(1) that] .
  have "sched_shape ?s" using D(1) by (simp add: sched_shape_def)
  moreover have "states_ok ?s"
    unfolding states_ok_def using D(2) row t sl by (simp add: states_ok_def)
  moreover have "currents_ok ?s"
    unfolding currents_ok_def
  proof (intro conjI allI impI)
    have cur: "current_of ?s = current_of s" by (simp add: current_of_def fun_eq_iff)
    fix u assume u: "is_tid u \<and> u \<noteq> 0"
    then show "th_state (th ?s u) \<in> {THREAD_RUNNING, THREAD_DYING} \<longleftrightarrow>
        (\<exists>c. is_cpu c \<and> current_of ?s c = u)"
      using D(3) row [of u] st(3) unfolding currents_ok_def cur by auto
  qed (use D(3) in \<open>simp_all add: currents_ok_def current_of_def\<close>)
  moreover have notin: "t \<notin> set rs" using D(4) t st(1) unfolding ready_ok_def by blast
  then have "ready_rep ((thread_table s)[nat t := e]) (ready_head s) (ready_tail s) rs"
    using D(5) t linked_update by (simp add: ready_rep_def is_tid_def)
  then have "ready_ok ?s rs"
    unfolding ready_ok_def using D(4) row t st notin by (simp add: ready_ok_def)
  ultimately show ?thesis by (simp add: sched_ok_def)
qed

lemma slock_idem: "thread_table_slock s = 0 \<Longrightarrow> s\<lparr>thread_table_slock := 0\<rparr> = s"
  by (cases s) simp

text \<open>A thread that does not run joins the ready list.\<close>

lemma sched_ok_join:
  assumes ok: "sched_ok s rs" and t: "is_tid t" "t \<noteq> 0"
    and st: "th_state (th s t) \<in> {THREAD_NONREADY, THREAD_SLEEPING}"
    and len: "length tt = CONFIG_MAX_THREADS" and rep: "ready_rep tt h l (rs @ [t])"
    and row: "\<And>u. is_tid u \<Longrightarrow> th_state (tt ! nat u) = (if u = t then THREAD_READY else th_state (th s u))"
      "\<And>u. is_tid u \<Longrightarrow> th_sleeps_on (tt ! nat u) = (if u = t then 0 else th_sleeps_on (th s u))"
  shows "sched_ok (s\<lparr>thread_table := tt, ready_head := h, ready_tail := l\<rparr>) (rs @ [t])" (is "sched_ok ?s _")
proof -
  note D = sched_okD [OF ok]
  have r: "th_state (th ?s u) = (if u = t then THREAD_READY else th_state (th s u))"
    "th_sleeps_on (th ?s u) = (if u = t then 0 else th_sleeps_on (th s u))" if "is_tid u" for u
    using row that by (simp_all add: th_def)
  have "sched_shape ?s" using D(1) len by (simp add: sched_shape_def)
  moreover have "states_ok ?s"
    unfolding states_ok_def using D(2) r t by (simp add: states_ok_def)
  moreover have "currents_ok ?s"
    unfolding currents_ok_def
  proof (intro conjI allI impI)
    have cur: "current_of ?s = current_of s" by (simp add: current_of_def fun_eq_iff)
    fix u assume u: "is_tid u \<and> u \<noteq> 0"
    then show "th_state (th ?s u) \<in> {THREAD_RUNNING, THREAD_DYING} \<longleftrightarrow>
        (\<exists>c. is_cpu c \<and> current_of ?s c = u)"
      using D(3) row(1) [of u] st unfolding currents_ok_def cur by (auto simp: th_def)
  qed (use D(3) in \<open>simp_all add: currents_ok_def current_of_def\<close>)
  moreover have "ready_ok ?s (rs @ [t])"
    unfolding ready_ok_def using rep D(4) row t by (simp add: ready_ok_def th_def)
  ultimately show ?thesis by (simp add: sched_ok_def)
qed

lemma thread_run_ok:
  assumes ok: "sched_ok s rs" and t: "is_tid t" "t \<noteq> 0" "th_state (th s t) = THREAD_NONREADY"
  obtains tt h where
    "thread_run t s = Inr (s\<lparr>thread_table := tt, ready_head := h, ready_tail := t\<rparr>)"
    "sched_ok (s\<lparr>thread_table := tt, ready_head := h, ready_tail := t\<rparr>) (rs @ [t])"
    "thread_step s tt (insert t (set rs)) ((\<lambda>u. th_state (th s u))(t := THREAD_READY))"
proof -
  note D = sched_okD [OF ok]
  let ?d = "s\<lparr>cp0_status := 0xffff00fe AND cp0_status s, thread_table_slock := 1\<rparr>"
  have notin: "t \<notin> set rs" using D(4) t unfolding ready_ok_def by auto
  obtain tt h where add: "scheduler_add_to_ready_list t ?d =
      Inr (?d\<lparr>thread_table := tt, ready_head := h, ready_tail := t\<rparr>)"
    "ready_rep tt h t (rs @ [t])" "same_but_next (thread_table s) tt (insert t (set rs))"
    by (rule ready_rep_add [of ?d rs t]) (use D(5,9) t notin in \<open>simp_all add: is_tid_def\<close>)
  have len: "length tt = CONFIG_MAX_THREADS" using same_but_next_fields(5) [OF add(3)] D(9) by simp
  let ?tt = "tt[nat t := (tt ! nat t)\<lparr>th_state := THREAD_READY\<rparr>]"
  let ?s = "s\<lparr>thread_table := ?tt, ready_head := h, ready_tail := t\<rparr>"
  have step: "thread_step s ?tt (insert t (set rs)) ((\<lambda>u. th_state (th s u))(t := THREAD_READY))"
    using thread_step_same_but_next [OF add(3) t(1)] tid_index [OF t(1) len] by simp
  have eq: "thread_run t s = Inr ?s"
    using add(1) D(8) tid_index [OF t(1) len]
    by (simp add: thread_run_def scheduler_add_ready_def interrupt_disable_def tt_upd_ok
        interrupt_set_state_def slock_idem)
  have "th_sleeps_on (th s t) = 0" using D(2) t unfolding states_ok_def by auto
  then have "sched_ok ?s (rs @ [t])"
    by (intro sched_ok_join [OF ok t(1,2)])
      (use t(3) len add(2) step tid_index [OF t(1) len] in \<open>auto simp: ready_rep_update thread_step_def\<close>)
  then show ?thesis using eq step by (intro that) simp_all
qed

subsection \<open>Creating threads\<close>

text \<open>The row and the initial context of a new thread.\<close>

definition new_thread :: "uint32 \<Rightarrow> thread_table_t" where
  "new_thread ctx = \<lparr>th_context = ctx, th_user_context = 0, th_state = THREAD_NONREADY,
     th_sleeps_on = 0, th_pagetable = 0, th_process_id = -1, th_next = -1\<rparr>"

definition new_context :: "symbols \<Rightarrow> uint32 \<Rightarrow> uint32 \<Rightarrow> uint32 \<Rightarrow> context_t" where
  "new_context img ctx func arg =
     \<lparr>cpu_regs = ((replicate 29 0)[MIPS_REGISTER_SP := ctx - 8, MIPS_REGISTER_RA := sym_thread_finish img,
        MIPS_REGISTER_A0 := arg]),
      reg_hi = 0, reg_lo = 0, reg_pc = func,
      ctx_status = INTERRUPT_MASK_ALL OR INTERRUPT_MASK_MASTER, prev_context = ctx\<rparr>"

lemma create_search:
  assumes "sched_shape s" "sched_shape s \<Longrightarrow> i = first_from (free_thread_slot s) 0 CONFIG_MAX_THREADS"
  shows "if i < CONFIG_MAX_THREADS then
      let t = int ((i + nat (next_tid s)) mod CONFIG_MAX_THREADS)
      in is_tid t \<and> t \<noteq> 0 \<and> th_state (th s t) = THREAD_FREE
    else \<forall>t. is_tid t \<and> t \<noteq> 0 \<longrightarrow> th_state (th s t) \<noteq> THREAD_FREE"
proof (cases "i < CONFIG_MAX_THREADS")
  case True
  then have "free_thread_slot s i"
    using assms first_from_holds [of "free_thread_slot s" 0] by simp
  then show ?thesis using True
    by (simp add: free_thread_slot_def Let_def IDLE_THREAD_TID_def th_def is_tid_def
        CONFIG_MAX_THREADS_def)
next
  case False
  then have none: "\<not> free_thread_slot s j" if "j < CONFIG_MAX_THREADS" for j
    using assms first_from_before [of 0 j "free_thread_slot s" CONFIG_MAX_THREADS] that by simp
  have "th_state (th s t) \<noteq> THREAD_FREE" if t: "is_tid t" "t \<noteq> 0" for t
  proof -
    let ?n = "nat (next_tid s)"
    let ?j = "(nat t + CONFIG_MAX_THREADS - ?n) mod CONFIG_MAX_THREADS"
    have n: "?n < CONFIG_MAX_THREADS" using assms(1) by (auto simp: sched_shape_def)
    have "(?j + ?n) mod CONFIG_MAX_THREADS = (nat t + CONFIG_MAX_THREADS - ?n + ?n) mod CONFIG_MAX_THREADS"
      by (simp add: mod_add_left_eq)
    also have "\<dots> = nat t" using n t by (simp add: is_tid_def nat_less_iff)
    finally have "(?j + ?n) mod CONFIG_MAX_THREADS = nat t" .
    moreover have "?j < CONFIG_MAX_THREADS" by (simp add: CONFIG_MAX_THREADS_def)
    ultimately show ?thesis
      using none [of ?j] t by (auto simp: free_thread_slot_def Let_def IDLE_THREAD_TID_def th_def is_tid_def)
  qed
  then show ?thesis using False by simp
qed

lemma thread_create_claim_eq:
  assumes ok: "sched_ok s rs" and i: "i = first_from (free_thread_slot s) 0 CONFIG_MAX_THREADS"
    and t: "t = int ((i + nat (next_tid s)) mod CONFIG_MAX_THREADS)"
  shows "thread_create_claim s = (if i < CONFIG_MAX_THREADS then
      Inr (t, s\<lparr>next_tid := (t + 1) smod int CONFIG_MAX_THREADS,
        thread_table := (thread_table s)[nat t := (th s t)\<lparr>th_state := THREAD_NONREADY\<rparr>]\<rparr>)
    else Inr (-1, s))"
proof -
  note D = sched_okD [OF ok]
  have fr: "free_thread_slot (s\<lparr>cp0_status := v, thread_table_slock := l\<rparr>) = free_thread_slot s" for v l
    by (simp add: free_thread_slot_def fun_eq_iff)
  have "nat t < length (thread_table s)" "0 \<le> t" using D(9) t by (simp_all add: CONFIG_MAX_THREADS_def)
  then show ?thesis
    using D(8) by (simp add: thread_create_claim_def interrupt_disable_def Let_def fr i [symmetric]
        t [symmetric] interrupt_set_state_def slock_idem tt_upd_ok th_def del: int_ops)
qed

lemma thread_create_setup_eq:
  assumes "is_tid t" "length (thread_table s) = CONFIG_MAX_THREADS"
    "th_state (th s t) = THREAD_NONREADY" "ctx = stack_context img t"
  shows "thread_create_setup img t func arg s =
    Inr (s\<lparr>thread_table := (thread_table s)[nat t := new_thread ctx],
      context_at := (context_at s)(ctx := new_context img ctx func arg)\<rparr>)"
proof -
  have sp: "sym_thread_stack_areas img + CONFIG_THREAD_STACKSIZE * word_of_int t +
      CONFIG_THREAD_STACKSIZE - 4 - sizeof_context - 4 = stack_context img t - 8"
    by (simp add: stack_context_def)
  have "thread_table s ! nat t = \<lparr>th_context = th_context (th s t), th_user_context = th_user_context (th s t),
      th_state = THREAD_NONREADY, th_sleeps_on = th_sleeps_on (th s t),
      th_pagetable = th_pagetable (th s t), th_process_id = th_process_id (th s t),
      th_next = th_next (th s t)\<rparr>"
    using assms(3) by (simp add: th_def)
  then show ?thesis
    using tid_index [OF assms(1,2)] assms(4) sp
    by (simp add: thread_create_setup_def Let_def tt_upd_ok context_upd_def set_reg_def
        zero_context_def new_thread_def new_context_def MIPS_REGISTER_SP_def MIPS_REGISTER_A0_def
        MIPS_REGISTER_RA_def list_update_swap [of 26] list_update_swap [of 28 3])
qed

lemma thread_create_cases:
  assumes ok: "sched_ok s rs"
  obtains (full) "thread_create img func arg s = Inr (-1, s)"
    "\<And>t. is_tid t \<Longrightarrow> t \<noteq> 0 \<Longrightarrow> th_state (th s t) \<noteq> THREAD_FREE"
  | (slot) t s' where "thread_create img func arg s = Inr (t, s')"
    "is_tid t" "t \<noteq> 0" "th_state (th s t) = THREAD_FREE"
    "s' = s\<lparr>next_tid := (t + 1) smod int CONFIG_MAX_THREADS,
      thread_table := (thread_table s)[nat t := new_thread (stack_context img t)],
      context_at := (context_at s)(stack_context img t :=
        new_context img (stack_context img t) func arg)\<rparr>"
    "sched_ok s' rs"
proof -
  note D = sched_okD [OF ok]
  define i where "i = first_from (free_thread_slot s) 0 CONFIG_MAX_THREADS"
  define t where "t = int ((i + nat (next_tid s)) mod CONFIG_MAX_THREADS)"
  note search = create_search [OF D(1), of i, OF i_def, folded t_def]
  note claim = thread_create_claim_eq [OF ok i_def t_def]
  show ?thesis
  proof (cases "i < CONFIG_MAX_THREADS")
    case False
    then show ?thesis using full search claim by (simp add: thread_create_def)
  next
    case True
    have t: "is_tid t" "t \<noteq> 0" "th_state (th s t) = THREAD_FREE"
      using search True by (simp_all add: Let_def t_def [symmetric])
    let ?s1 = "s\<lparr>next_tid := (t + 1) smod int CONFIG_MAX_THREADS,
        thread_table := (thread_table s)[nat t := (th s t)\<lparr>th_state := THREAD_NONREADY\<rparr>]\<rparr>"
    let ?tt = "(thread_table s)[nat t := new_thread (stack_context img t)]"
    let ?s = "s\<lparr>next_tid := (t + 1) smod int CONFIG_MAX_THREADS,
        thread_table := ?tt, context_at := (context_at s)(stack_context img t :=
          new_context img (stack_context img t) func arg)\<rparr>"
    have init: "thread_create_setup img t func arg ?s1 = Inr ?s"
      using thread_create_setup_eq [OF t(1), of ?s1 _ img func arg] tid_index [OF t(1) D(9)] D(9)
      by (simp add: th_def)
    have "sched_ok (s\<lparr>thread_table := ?tt\<rparr>) rs"
      by (rule sched_ok_row [OF ok t(1,2)]) (simp_all add: t(3) new_thread_def)
    moreover have "0 \<le> (t + 1) smod int CONFIG_MAX_THREADS"
      "(t + 1) smod int CONFIG_MAX_THREADS < int CONFIG_MAX_THREADS"
      using t(1) by (simp_all add: signed_modulo_int_def is_tid_def CONFIG_MAX_THREADS_def)
    ultimately have "sched_ok ?s rs" by (elim sched_ok_cong [rotated 8]) simp_all
    moreover have "thread_create img func arg s = Inr (t, ?s)"
      using claim True t(1) init by (simp add: thread_create_def is_tid_def)
    ultimately show ?thesis using t by (intro slot) simp_all
  qed
qed

end
