(* ===== verification/Sleepq.thy ===== *)
theory Sleepq
  imports Scheduler
begin

text \<open>
  The sleep queue (\<^verbatim>\<open>kernel/sleepq.c\<close>): a hash table of lists of threads, threaded like
  the ready list through the \<^verbatim>\<open>next\<close> fields of the thread table.
\<close>

record sleepq = sched +
  sleepq_slock :: uint32
  sleepq_hashtable :: "int list"

definition SLEEPQ_HASHTABLE_SIZE :: nat where "SLEEPQ_HASHTABLE_SIZE = 127"

definition SLEEPQ_HASH :: "uint32 \<Rightarrow> nat" where
  "SLEEPQ_HASH res = unat res mod SLEEPQ_HASHTABLE_SIZE"

definition sleepq_init :: "'a sleepq_scheme \<Rightarrow> 'a sleepq_scheme kres" where
  "sleepq_init s =
     bindE (for_rangeE 0 SLEEPQ_HASHTABLE_SIZE (\<lambda>i ht. wr ht (int i) (-1)) (sleepq_hashtable s)) (\<lambda>ht.
     Inr (s\<lparr>sleepq_hashtable := ht, sleepq_slock := spinlock_reset (sleepq_slock s)\<rparr>))"

text \<open>
  The loops that follow a list take a bound on the number of steps.  A list that visits more
  threads than there are never ends, and a loop that uses up the bound is the loop of the C code
  that does not return; with the bound \<^verbatim>\<open>CONFIG_MAX_THREADS\<close> a list without a cycle is
  always followed to its end.
\<close>

fun chain_end :: "nat \<Rightarrow> int \<Rightarrow> 'a sleepq_scheme \<Rightarrow> int kres" where
  "chain_end 0 prev s = Inl Deadlock"
| "chain_end (Suc n) prev s =
     bindE (tt_get prev s) (\<lambda>e. if th_next e > 0 then chain_end n (th_next e) s else Inr prev)"

definition sleepq_add :: "uint32 \<Rightarrow> 'a sleepq_scheme \<Rightarrow> 'a sleepq_scheme kres" where
  "sleepq_add res s =
     (let intr_state = interrupt_get_state s in
      KERNEL_ASSERT (intr_state AND INTERRUPT_MASK_ALL = 0 \<or> intr_state AND INTERRUPT_MASK_MASTER = 0)
     (let hash = SLEEPQ_HASH res in
      bindE (thread_get_current_thread s) (\<lambda>(my_tid, s).
      bindE (tt_upd my_tid (\<lambda>e. e\<lparr>th_next := -1, th_sleeps_on := res\<rparr>) s) (\<lambda>s.
      KERNEL_ASSERT (my_tid \<noteq> IDLE_THREAD_TID)
     (bindE (spinlock_acquire (sleepq_slock s)) (\<lambda>l.
      let s = s\<lparr>sleepq_slock := l\<rparr> in
      bindE (rd (sleepq_hashtable s) (int hash)) (\<lambda>head.
      bindE (if head \<le> 0 then
               bindE (wr (sleepq_hashtable s) (int hash) my_tid) (\<lambda>ht. Inr (s\<lparr>sleepq_hashtable := ht\<rparr>))
             else
               bindE (chain_end CONFIG_MAX_THREADS head s) (\<lambda>prev.
               tt_upd prev (\<lambda>e. e\<lparr>th_next := my_tid\<rparr>) s)) (\<lambda>s.
      Inr (s\<lparr>sleepq_slock := spinlock_release (sleepq_slock s)\<rparr>)))))))))"

fun find_waiter :: "nat \<Rightarrow> uint32 \<Rightarrow> int \<Rightarrow> int \<Rightarrow> 'a sleepq_scheme \<Rightarrow> (int \<times> int) kres" where
  "find_waiter n res prev first s =
     (if first > 0 then
        case n of 0 \<Rightarrow> Inl Deadlock
        | Suc m \<Rightarrow> bindE (tt_get first s) (\<lambda>e.
            if th_sleeps_on e \<noteq> res then find_waiter m res first (th_next e) s
            else Inr (prev, first))
      else Inr (prev, first))"

declare find_waiter.simps [simp del]

text \<open>
  The part \<^verbatim>\<open>sleepq_wake\<close> and \<^verbatim>\<open>sleepq_wake_all\<close> share: unlink the thread, and put
  it on the ready list if it has already been switched out.
\<close>

definition unlink_waiter :: "nat \<Rightarrow> int \<Rightarrow> int \<Rightarrow> 'a sleepq_scheme \<Rightarrow> (int \<times> 'a sleepq_scheme) kres" where
  "unlink_waiter hash prev wake s =
     bindE (tt_get wake s) (\<lambda>e.
     bindE (if prev \<le> 0 then
              bindE (wr (sleepq_hashtable s) (int hash) (th_next e)) (\<lambda>ht. Inr (s\<lparr>sleepq_hashtable := ht\<rparr>))
            else tt_upd prev (\<lambda>p. p\<lparr>th_next := th_next e\<rparr>) s) (\<lambda>s.
     Inr (th_next e, s)))"

definition make_ready :: "int \<Rightarrow> 'a sleepq_scheme \<Rightarrow> 'a sleepq_scheme kres" where
  "make_ready wake s =
     bindE (spinlock_acquire (thread_table_slock s)) (\<lambda>l.
     bindE (tt_upd wake (\<lambda>e. e\<lparr>th_sleeps_on := 0, th_next := -1\<rparr>) (s\<lparr>thread_table_slock := l\<rparr>)) (\<lambda>s.
     bindE (tt_get wake s) (\<lambda>e.
     bindE (if th_state e = THREAD_SLEEPING then
              bindE (tt_upd wake (\<lambda>e. e\<lparr>th_state := THREAD_READY\<rparr>) s) (scheduler_add_to_ready_list wake)
            else Inr s) (\<lambda>s.
     Inr (s\<lparr>thread_table_slock := spinlock_release (thread_table_slock s)\<rparr>)))))"

definition sleepq_wake :: "uint32 \<Rightarrow> 'a sleepq_scheme \<Rightarrow> 'a sleepq_scheme kres" where
  "sleepq_wake res s =
     (let hash = SLEEPQ_HASH res;
          (intr_state, s) = interrupt_disable s in
      bindE (spinlock_acquire (sleepq_slock s)) (\<lambda>l.
      let s = s\<lparr>sleepq_slock := l\<rparr> in
      bindE (rd (sleepq_hashtable s) (int hash)) (\<lambda>head.
      bindE (find_waiter CONFIG_MAX_THREADS res (-1) head s) (\<lambda>(prev, first).
      bindE (if first > 0 then
               bindE (unlink_waiter hash prev first s) (\<lambda>(_, s). make_ready first s)
             else Inr s) (\<lambda>s.
      let s = s\<lparr>sleepq_slock := spinlock_release (sleepq_slock s)\<rparr>
      in Inr (interrupt_set_state intr_state s))))))"

fun wake_all_loop :: "nat \<Rightarrow> nat \<Rightarrow> uint32 \<Rightarrow> int \<Rightarrow> int \<Rightarrow> 'a sleepq_scheme \<Rightarrow> 'a sleepq_scheme kres" where
  "wake_all_loop n hash res prev first s =
     (if first > 0 then
        case n of 0 \<Rightarrow> Inl Deadlock
        | Suc m \<Rightarrow>
            bindE (find_waiter CONFIG_MAX_THREADS res prev first s) (\<lambda>(prev, first).
            if first > 0 then
              bindE (unlink_waiter hash prev first s) (\<lambda>(nxt, s).
              bindE (make_ready first s) (wake_all_loop m hash res prev nxt))
            else Inr s)
      else Inr s)"

declare wake_all_loop.simps [simp del]

definition sleepq_wake_all :: "uint32 \<Rightarrow> 'a sleepq_scheme \<Rightarrow> 'a sleepq_scheme kres" where
  "sleepq_wake_all res s =
     (let hash = SLEEPQ_HASH res;
          (intr_state, s) = interrupt_disable s in
      bindE (spinlock_acquire (sleepq_slock s)) (\<lambda>l.
      let s = s\<lparr>sleepq_slock := l\<rparr> in
      bindE (rd (sleepq_hashtable s) (int hash)) (\<lambda>head.
      bindE (wake_all_loop CONFIG_MAX_THREADS hash res (-1) head s) (\<lambda>s.
      let s = s\<lparr>sleepq_slock := spinlock_release (sleepq_slock s)\<rparr>
      in Inr (interrupt_set_state intr_state s)))))"

subsection \<open>The sleep queue invariant\<close>

text \<open>
  \<open>qs h\<close> is the list that row \<open>h\<close> of the hash table links together: the threads that wait for a
  resource of that hash.
\<close>

definition waits_in :: "thread_table_t \<Rightarrow> nat \<Rightarrow> bool" where
  "waits_in e h \<longleftrightarrow> th_sleeps_on e \<noteq> 0 \<and> SLEEPQ_HASH (th_sleeps_on e) = h"

definition queue_rep :: "thread_table_t list \<Rightarrow> int \<Rightarrow> nat \<Rightarrow> int list \<Rightarrow> bool" where
  "queue_rep tt head h q \<longleftrightarrow> linked (next_of tt) head q \<and> distinct q \<and>
     (\<forall>t \<in> set q. is_tid t) \<and> (\<forall>t. is_tid t \<longrightarrow> (t \<in> set q \<longleftrightarrow> waits_in (tt ! nat t) h))"

definition sleepq_ok :: "'a sleepq_scheme \<Rightarrow> int list \<Rightarrow> (nat \<Rightarrow> int list) \<Rightarrow> bool" where
  "sleepq_ok s rs qs \<longleftrightarrow> sched_ok s rs \<and>
     length (sleepq_hashtable s) = SLEEPQ_HASHTABLE_SIZE \<and>
     (\<forall>h < SLEEPQ_HASHTABLE_SIZE. queue_rep (thread_table s) (sleepq_hashtable s ! h) h (qs h))"

definition waiters :: "'a sleepq_scheme \<Rightarrow> (nat \<Rightarrow> int list) \<Rightarrow> uint32 \<Rightarrow> int list" where
  "waiters s qs res = filter (\<lambda>t. th_sleeps_on (th s t) = res) (qs (SLEEPQ_HASH res))"

lemma sleepq_okD:
  assumes "sleepq_ok s rs qs"
  shows "sched_ok s rs" "sched_shape s" "length (sleepq_hashtable s) = SLEEPQ_HASHTABLE_SIZE"
    "h < SLEEPQ_HASHTABLE_SIZE \<Longrightarrow> queue_rep (thread_table s) (sleepq_hashtable s ! h) h (qs h)"
    "queue_rep (thread_table s) (sleepq_hashtable s ! SLEEPQ_HASH res) (SLEEPQ_HASH res) (qs (SLEEPQ_HASH res))"
  using assms by (simp_all add: sleepq_ok_def SLEEPQ_HASH_def SLEEPQ_HASHTABLE_SIZE_def sched_ok_def)

lemma sleepq_idem: "sleepq_slock s = 0 \<Longrightarrow> s\<lparr>sleepq_slock := 0\<rparr> = s"
  by (cases s) simp

lemma hash_bound: "SLEEPQ_HASH res < SLEEPQ_HASHTABLE_SIZE"
  by (simp add: SLEEPQ_HASH_def SLEEPQ_HASHTABLE_SIZE_def)

lemma queue_rep_short: "queue_rep tt i h q \<Longrightarrow> length q \<le> CONFIG_MAX_THREADS"
proof -
  assume q: "queue_rep tt i h q"
  have "set q \<subseteq> {0..<int CONFIG_MAX_THREADS}" using q by (auto simp: queue_rep_def is_tid_def)
  then have "card (set q) \<le> card {0..<int CONFIG_MAX_THREADS}" by (intro card_mono) simp_all
  then show ?thesis using q by (simp add: queue_rep_def distinct_card)
qed

lemma queue_rep_frame:
  assumes "queue_rep tt i h q"
    "\<And>t. is_tid t \<Longrightarrow> t \<in> set q \<Longrightarrow> th_next (tt' ! nat t) = th_next (tt ! nat t)"
    "\<And>t. is_tid t \<Longrightarrow> waits_in (tt' ! nat t) h = waits_in (tt ! nat t) h"
  shows "queue_rep tt' i h q"
proof -
  have "linked (next_of tt') i q"
    by (rule linked_cong [THEN iffD1, of q "next_of tt"])
      (use assms in \<open>auto simp: queue_rep_def next_of_def\<close>)
  then show ?thesis using assms by (auto simp: queue_rep_def)
qed

text \<open>The loops over a list.\<close>

lemma chain_end_eq:
  "lseg (next_of (thread_table s)) i q j \<Longrightarrow> j < 0 \<Longrightarrow> q \<noteq> [] \<Longrightarrow> length q \<le> n \<Longrightarrow>
   \<forall>t \<in> set q. is_tid t \<Longrightarrow> length (thread_table s) = CONFIG_MAX_THREADS \<Longrightarrow>
   chain_end n i s = Inr (last q)"
proof (induction q arbitrary: i n)
  case (Cons x q)
  then obtain m where n: "n = Suc m" by (cases n) auto
  have x: "i = x" "tt_get x s = Inr (thread_table s ! nat x)"
    using Cons.prems tid_index [of x "thread_table s"] by (auto intro: tt_get_ok)
  have nx: "th_next (thread_table s ! nat x) = next_of (thread_table s) x" by (simp add: next_of_def)
  show ?case
  proof (cases q)
    case Nil
    with Cons.prems x n nx show ?thesis by simp
  next
    case (Cons y ys)
    with Cons.prems x n nx Cons.IH [of "next_of (thread_table s) x" m] show ?thesis by simp
  qed
qed simp

lemma find_waiter_eq:
  "linked (next_of (thread_table s)) i q \<Longrightarrow> length q \<le> n \<Longrightarrow>
   \<forall>t \<in> set q. is_tid t \<Longrightarrow> length (thread_table s) = CONFIG_MAX_THREADS \<Longrightarrow>
   (\<forall>t \<in> set q. th_sleeps_on (th s t) \<noteq> res) \<and>
     (\<exists>p j. j < 0 \<and> find_waiter n res prev i s = Inr (p, j)) \<or>
   (\<exists>xs w ys. q = xs @ w # ys \<and> (\<forall>t \<in> set xs. th_sleeps_on (th s t) \<noteq> res) \<and>
      th_sleeps_on (th s w) = res \<and>
      find_waiter n res prev i s = Inr (if xs = [] then prev else last xs, w))"
proof (induction q arbitrary: i n prev)
  case Nil
  then show ?case by (simp add: find_waiter.simps [of n])
next
  case (Cons x q)
  then obtain m where n: "n = Suc m" by (cases n) auto
  have x: "i = x" "0 < x" "tt_get x s = Inr (th s x)"
    using Cons.prems tid_index [of x "thread_table s"] by (auto simp: th_def intro: tt_get_ok)
  show ?case
  proof (cases "th_sleeps_on (th s x) = res")
    case True
    then have "find_waiter n res prev i s = Inr (prev, x)"
      using x n by (simp add: find_waiter.simps [of "Suc m"])
    then show ?thesis using True by (intro disjI2 exI [of _ "[]"]) auto
  next
    case False
    have step: "find_waiter n res prev i s = find_waiter m res x (next_of (thread_table s) x) s"
      using False x n by (simp add: find_waiter.simps [of "Suc m"] next_of_def th_def)
    have "linked (next_of (thread_table s)) (next_of (thread_table s) x) q" "length q \<le> m"
      "\<forall>t \<in> set q. is_tid t" using Cons.prems n by auto
    from Cons.IH [OF this Cons.prems(4), of x] show ?thesis
    proof (elim disjE exE conjE)
      fix xs w ys
      assume "q = xs @ w # ys" "\<forall>t \<in> set xs. th_sleeps_on (th s t) \<noteq> res" "th_sleeps_on (th s w) = res"
        "find_waiter m res x (next_of (thread_table s) x) s = Inr (if xs = [] then x else last xs, w)"
      then show ?thesis using False step by (intro disjI2 exI [of _ "x # xs"]) auto
    qed (use False step in auto)
  qed
qed

subsection \<open>Going to sleep\<close>

text \<open>Rows of threads off the ready list may change their links.\<close>

lemma sched_ok_link:
  assumes "sched_ok s rs" "is_tid t" "t \<noteq> 0" "th_state (th s t) \<noteq> THREAD_READY"
    "th_state e = th_state (th s t)" "th_sleeps_on e = th_sleeps_on (th s t)"
  shows "sched_ok (s\<lparr>thread_table := (thread_table s)[nat t := e]\<rparr>) rs"
proof (rule sched_ok_row [OF assms(1-4)])
  show "th_sleeps_on e \<noteq> 0 \<Longrightarrow> th_state e \<in> {THREAD_RUNNING, THREAD_SLEEPING}"
    "th_state e = THREAD_SLEEPING \<Longrightarrow> th_sleeps_on e \<noteq> 0"
    using sched_okD(2) [OF assms(1)] assms(2,5,6) unfolding states_ok_def by metis+
qed (use assms(4,5) in simp_all)

lemma waiting_not_ready:
  assumes "sched_ok s rs" "is_tid t" "th_sleeps_on (th s t) \<noteq> 0"
  shows "th_state (th s t) \<noteq> THREAD_READY" "t \<notin> set rs" "t \<noteq> 0" "0 < t"
proof -
  show st: "th_state (th s t) \<noteq> THREAD_READY" "t \<noteq> 0"
    using sched_okD(2) [OF assms(1)] assms(2,3) unfolding states_ok_def by force+
  show "t \<notin> set rs" using sched_okD(4) [OF assms(1)] st assms(2) unfolding ready_ok_def by blast
  show "0 < t" using st(2) assms(2) by (simp add: is_tid_def)
qed

lemma queue_rep_snoc:
  assumes q: "queue_rep tt i h q" "\<not> waits_in (tt ! nat t) h" "is_tid t" "0 < t"
    and tt': "\<And>u. is_tid u \<Longrightarrow> u \<noteq> t \<Longrightarrow> q = [] \<or> u \<noteq> last q \<Longrightarrow> th_next (tt' ! nat u) = th_next (tt ! nat u)"
      "\<And>u. is_tid u \<Longrightarrow> u \<noteq> t \<Longrightarrow> waits_in (tt' ! nat u) h = waits_in (tt ! nat u) h"
      "q \<noteq> [] \<Longrightarrow> th_next (tt' ! nat (last q)) = t" "th_next (tt' ! nat t) = -1" "waits_in (tt' ! nat t) h"
    and i': "i' = (if q = [] then t else i)"
  shows "queue_rep tt' i' h (q @ [t])"
proof -
  have tq: "t \<notin> set q" using q by (auto simp: queue_rep_def)
  have "linked (next_of tt') i' (q @ [t])"
  proof (cases "q = []")
    case True
    then show ?thesis using q(4) tt'(4) i' by (simp add: next_of_def)
  next
    case False
    then show ?thesis
      using q(1,4) tt' i' tq
      by (intro linked_snoc [where nx = "next_of tt"]) (auto simp: queue_rep_def next_of_def)
  qed
  then show ?thesis using q tt'(2,5) tq by (auto simp: queue_rep_def)
qed

text \<open>The effect of \<^verbatim>\<open>sleepq_add\<close> on the thread table.\<close>

definition add_rows :: "int \<Rightarrow> uint32 \<Rightarrow> int list \<Rightarrow> thread_table_t list \<Rightarrow> thread_table_t list" where
  "add_rows t res q tt =
     (let tt = tt[nat t := (tt ! nat t)\<lparr>th_next := -1, th_sleeps_on := res\<rparr>]
      in if q = [] then tt else tt[nat (last q) := (tt ! nat (last q))\<lparr>th_next := t\<rparr>])"

lemma add_rows_nth:
  assumes "is_tid t" "is_tid u" "length tt = CONFIG_MAX_THREADS" "q \<noteq> [] \<Longrightarrow> is_tid (last q) \<and> last q \<noteq> t"
  shows "add_rows t res q tt ! nat u =
    (if u = t then (tt ! nat u)\<lparr>th_next := -1, th_sleeps_on := res\<rparr>
     else if q \<noteq> [] \<and> u = last q then (tt ! nat u)\<lparr>th_next := t\<rparr> else tt ! nat u)"
proof -
  have ix: "nat t < length tt" "nat u < length tt" "nat u = nat t \<longleftrightarrow> u = t"
    using assms by (auto simp: is_tid_def)
  have lx: "nat (last q) < length tt" "nat (last q) \<noteq> nat t" "nat u = nat (last q) \<longleftrightarrow> u = last q"
    if "q \<noteq> []" using assms that by (auto simp: is_tid_def)
  show ?thesis
  proof (cases "q = []")
    case True
    then show ?thesis using ix by (auto simp: add_rows_def nth_list_update)
  next
    case False
    have "last q \<noteq> t" using assms(4) [OF False] by blast
    with False show ?thesis using ix lx [OF False]
      by (cases "u = t"; cases "u = last q") (simp_all add: add_rows_def Let_def)
  qed
qed

lemma add_rows_sched_ok:
  assumes ok: "sched_ok s rs" and t: "is_tid t" "t \<noteq> 0" "th_state (th s t) = THREAD_RUNNING"
    and last: "q \<noteq> [] \<Longrightarrow> is_tid (last q) \<and> last q \<noteq> t \<and> th_sleeps_on (th s (last q)) \<noteq> 0"
  shows "sched_ok (s\<lparr>thread_table := add_rows t res q (thread_table s)\<rparr>) rs"
proof -
  let ?e = "(th s t)\<lparr>th_next := -1, th_sleeps_on := res\<rparr>"
  let ?s = "s\<lparr>thread_table := (thread_table s)[nat t := ?e]\<rparr>"
  have s1: "sched_ok ?s rs"
    by (rule sched_ok_row [OF ok t(1,2)]) (use t(3) in simp_all)
  show ?thesis
  proof (cases "q = []")
    case True
    then show ?thesis using s1 by (simp add: add_rows_def th_def)
  next
    case False
    note l = last [OF False]
    have row: "th ?s (last q) = th s (last q)"
      using th_update [OF sched_okD(1) [OF ok] t(1), of "last q" ?e] l by simp
    have "sched_ok (?s\<lparr>thread_table := (thread_table ?s)[nat (last q) := (th ?s (last q))\<lparr>th_next := t\<rparr>]\<rparr>) rs"
      by (rule sched_ok_link [OF s1])
        (use l waiting_not_ready [OF ok, of "last q"] in \<open>simp_all add: row\<close>)
    then show ?thesis using False by (simp add: add_rows_def th_def Let_def)
  qed
qed

lemma sleepq_add_code:
  assumes ok: "sleepq_ok s rs qs" and off: "interrupts_off (cp0_status s)"
    and t: "t = current_of s (this_cpu s)" "t \<noteq> 0" "th_sleeps_on (th s t) = 0"
    and h: "h = SLEEPQ_HASH res" and slk: "sleepq_slock s = 0"
  shows "sleepq_add res s = Inr (s\<lparr>thread_table := add_rows t res (qs h) (thread_table s),
    sleepq_hashtable := if qs h = [] then (sleepq_hashtable s)[h := t] else sleepq_hashtable s\<rparr>)"
proof -
  note Q = sleepq_okD [OF ok] and D = sched_okD [OF sleepq_okD(1) [OF ok]]
  have tid: "is_tid t" and ix: "0 \<le> t" "nat t < length (thread_table s)" "0 < t"
    using D(7,9) t tid_index [of t "thread_table s"] by auto
  have hx: "h < length (sleepq_hashtable s)" using Q(3) hash_bound h by simp
  have cur: "thread_get_current_thread s = Inr (t, s)"
    using current_thread_ok [OF D(6,10)] t(1) by simp
  note q = Q(5) [of res, folded h]
  show ?thesis
  proof (cases "qs h = []")
    case True
    then have "sleepq_hashtable s ! h < 0" using q by (simp add: queue_rep_def)
    with True off cur ix t(2) hx slk h [symmetric] show ?thesis
      by (simp add: sleepq_add_def interrupt_get_state_def interrupts_off_def tt_upd_ok
          IDLE_THREAD_TID_def add_rows_def sleepq_idem)
  next
    case False
    let ?tt = "(thread_table s)[nat t := (thread_table s ! nat t)\<lparr>th_next := -1, th_sleeps_on := res\<rparr>]"
    let ?s1 = "s\<lparr>thread_table := ?tt, sleepq_slock := 1\<rparr>"
    have "t \<notin> set (qs h)" using q t(3) tid by (auto simp: queue_rep_def waits_in_def th_def)
    then have lnk: "linked (next_of ?tt) (sleepq_hashtable s ! h) (qs h)"
      using q ix(3) linked_update by (simp add: queue_rep_def)
    then have "chain_end CONFIG_MAX_THREADS (sleepq_hashtable s ! h) ?s1 = Inr (last (qs h))"
      using q False D(9) queue_rep_short [OF q] chain_end_eq [of ?s1 "sleepq_hashtable s ! h" "qs h"]
      by (auto simp: queue_rep_def linked_def)
    moreover have "is_tid (last (qs h))"
      using q last_in_set [OF False] unfolding queue_rep_def by blast
    then have "0 \<le> last (qs h)" "nat (last (qs h)) < length (thread_table s)"
      using tid_index D(9) by blast+
    moreover have "0 < sleepq_hashtable s ! h" using lnk False by (cases "qs h") auto
    moreover have "add_rows t res (qs h) (thread_table s) =
        ?tt[nat (last (qs h)) := (?tt ! nat (last (qs h)))\<lparr>th_next := t\<rparr>]"
      using False by (simp add: add_rows_def Let_def)
    ultimately show ?thesis
      using False off cur ix t(2) hx slk h [symmetric]
      by (simp add: sleepq_add_def interrupt_get_state_def interrupts_off_def tt_upd_ok
          IDLE_THREAD_TID_def sleepq_idem Let_def)
  qed
qed

lemma sleepq_add_ok:
  assumes ok: "sleepq_ok s rs qs"
    and t: "t = current_of s (this_cpu s)" "t \<noteq> 0" "th_state (th s t) = THREAD_RUNNING"
    "th_sleeps_on (th s t) = 0"
    and h: "h = SLEEPQ_HASH res" and res: "res \<noteq> 0"
  defines "tt \<equiv> add_rows t res (qs h) (thread_table s)"
  shows "sleepq_ok (s\<lparr>thread_table := tt, sleepq_hashtable := if qs h = [] then (sleepq_hashtable s)[h := t]
      else sleepq_hashtable s\<rparr>) rs (qs(h := qs h @ [t]))" (is "sleepq_ok ?s _ _")
proof -
  note Q = sleepq_okD [OF ok] and D = sched_okD [OF sleepq_okD(1) [OF ok]]
  have tid: "is_tid t" "0 < t" using D(7) t by (auto simp: is_tid_def)
  have hx: "h < SLEEPQ_HASHTABLE_SIZE" using hash_bound h by simp
  have mem: "is_tid u \<and> u \<noteq> t \<and> waits_in (th s u) k \<and> th_sleeps_on (th s u) \<noteq> 0"
    if "k < SLEEPQ_HASHTABLE_SIZE" "u \<in> set (qs k)" for u k
    using Q(4) [OF that(1)] that(2) t(4) by (auto simp: queue_rep_def waits_in_def th_def)
  have last: "is_tid (last (qs h)) \<and> last (qs h) \<noteq> t \<and> th_sleeps_on (th s (last (qs h))) \<noteq> 0"
    if "qs h \<noteq> []" using mem [OF hx last_in_set [OF that]] by blast
  have row: "tt ! nat u = (if u = t then (th s u)\<lparr>th_next := -1, th_sleeps_on := res\<rparr>
     else if qs h \<noteq> [] \<and> u = last (qs h) then (th s u)\<lparr>th_next := t\<rparr> else th s u)" if "is_tid u" for u
    unfolding tt_def th_def using add_rows_nth [OF tid(1) that D(9), of "qs h" res] last by blast
  have "sched_ok (s\<lparr>thread_table := tt\<rparr>) rs"
    unfolding tt_def by (rule add_rows_sched_ok [OF Q(1) tid(1) t(2,3) last])
  then have "sched_ok ?s rs" by (rule sched_ok_cong [rotated 8]) (use D(1) in \<open>simp_all add: sched_shape_def\<close>)
  moreover have "queue_rep tt (if qs h = [] then t else sleepq_hashtable s ! h) h (qs h @ [t])"
  proof (rule queue_rep_snoc [OF Q(5) [of res, folded h] _ tid])
    show "\<not> waits_in (thread_table s ! nat t) h" using t(4) by (simp add: waits_in_def th_def)
  qed (use row tid last res h in \<open>auto simp: waits_in_def th_def\<close>)
  moreover have "queue_rep tt (sleepq_hashtable s ! k) k (qs k)" if k: "k < SLEEPQ_HASHTABLE_SIZE" "k \<noteq> h" for k
  proof (rule queue_rep_frame [OF Q(4) [OF k(1)]])
    fix u assume u: "is_tid u"
    show "waits_in (tt ! nat u) k = waits_in (thread_table s ! nat u) k"
      using row [OF u] k h t(4) by (auto simp: waits_in_def th_def)
    assume "u \<in> set (qs k)"
    then have "waits_in (th s u) k" "u \<noteq> t" using mem [OF k(1)] by blast+
    moreover have "qs h \<noteq> [] \<Longrightarrow> waits_in (th s (last (qs h))) h" using mem [OF hx] by simp
    ultimately have "\<not> (qs h \<noteq> [] \<and> u = last (qs h))" using k(2) by (auto simp: waits_in_def)
    with row [OF u] \<open>u \<noteq> t\<close> show "th_next (tt ! nat u) = th_next (thread_table s ! nat u)"
      by (simp add: th_def)
  qed
  ultimately show ?thesis
    using Q(3) hx by (cases "qs h = []") (simp_all add: sleepq_ok_def nth_list_update)
qed

subsection \<open>Waking up\<close>

text \<open>
  A woken thread joins the ready list when the scheduler has already taken the processor from
  it.  A thread that is still running between \<^verbatim>\<open>sleepq_add\<close> and \<^verbatim>\<open>thread_switch\<close>
  just stops waiting.
\<close>

definition ready_after :: "thread_state \<Rightarrow> int \<Rightarrow> int list \<Rightarrow> int list" where
  "ready_after st w rs = (if st = THREAD_SLEEPING then rs @ [w] else rs)"

definition woken_state :: "thread_state \<Rightarrow> thread_state" where
  "woken_state st = (if st = THREAD_SLEEPING then THREAD_READY else st)"

definition woken_rows :: "'a sched_scheme \<Rightarrow> thread_table_t list \<Rightarrow> int \<Rightarrow> int list \<Rightarrow> bool" where
  "woken_rows s tt w rs \<longleftrightarrow> length tt = CONFIG_MAX_THREADS \<and> (\<forall>u. is_tid u \<longrightarrow>
     th_state (tt ! nat u) = (if u = w then woken_state (th_state (th s u)) else th_state (th s u)) \<and>
     th_sleeps_on (tt ! nat u) = (if u = w then 0 else th_sleeps_on (th s u)) \<and>
     th_pagetable (tt ! nat u) = th_pagetable (th s u) \<and>
     (u \<noteq> w \<and> u \<notin> set rs \<longrightarrow> th_next (tt ! nat u) = th_next (th s u)))"

lemma make_ready_running:
  assumes ok: "sched_ok s rs" and w: "is_tid w" "w \<noteq> 0" "th_state (th s w) = THREAD_RUNNING"
  defines "tt \<equiv> (thread_table s)[nat w := (th s w)\<lparr>th_sleeps_on := 0, th_next := -1\<rparr>]"
  shows "make_ready w s = Inr (s\<lparr>thread_table := tt\<rparr>)" "sched_ok (s\<lparr>thread_table := tt\<rparr>) rs"
    "woken_rows s tt w rs"
proof -
  note D = sched_okD [OF ok] and ix = tid_index [OF w(1) sched_okD(9) [OF ok]]
  show "make_ready w s = Inr (s\<lparr>thread_table := tt\<rparr>)"
    using D(8) ix w(3) by (simp add: make_ready_def tt_upd_ok tt_get_ok tt_def th_def slock_idem)
  show "sched_ok (s\<lparr>thread_table := tt\<rparr>) rs"
    unfolding tt_def by (rule sched_ok_row [OF ok w(1,2)]) (use w(3) in simp_all)
  have "tt ! nat u = (if u = w then (th s w)\<lparr>th_sleeps_on := 0, th_next := -1\<rparr> else th s u)"
    if "is_tid u" for u
    using th_update [OF D(1) w(1) that] unfolding tt_def th_def by simp
  then show "woken_rows s tt w rs"
    using w D(9) by (simp add: woken_rows_def woken_state_def tt_def)
qed

lemma make_ready_sleeping:
  assumes ok: "sched_ok s rs" and w: "is_tid w" "w \<noteq> 0" "th_state (th s w) = THREAD_SLEEPING"
  obtains tt h where
    "make_ready w s = Inr (s\<lparr>thread_table := tt, ready_head := h, ready_tail := w\<rparr>)"
    "sched_ok (s\<lparr>thread_table := tt, ready_head := h, ready_tail := w\<rparr>) (rs @ [w])"
    "woken_rows s tt w rs"
proof -
  note D = sched_okD [OF ok] and ix = tid_index [OF w(1) sched_okD(9) [OF ok]]
  let ?e = "(th s w)\<lparr>th_sleeps_on := 0, th_next := -1, th_state := THREAD_READY\<rparr>"
  let ?tt = "(thread_table s)[nat w := ?e]"
  let ?s1 = "s\<lparr>thread_table_slock := 1, thread_table := ?tt\<rparr>"
  have notin: "w \<notin> set rs" using D(4) w unfolding ready_ok_def by auto
  have pos: "0 < w" "w < int CONFIG_MAX_THREADS" using w by (simp_all add: is_tid_def)
  have "ready_rep ?tt (ready_head s) (ready_tail s) rs"
    using D(5) notin pos(1) linked_update by (simp add: ready_rep_def)
  then obtain tt h where add: "scheduler_add_to_ready_list w ?s1 =
      Inr (?s1\<lparr>thread_table := tt, ready_head := h, ready_tail := w\<rparr>)"
    "ready_rep tt h w (rs @ [w])" "same_but_next ?tt tt (insert w (set rs))"
    by (rule_tac ready_rep_add [of ?s1 rs w]) (use D(9) pos notin in simp_all)
  have eq: "make_ready w s = Inr (s\<lparr>thread_table := tt, ready_head := h, ready_tail := w\<rparr>)"
    using D(8) ix w(3) add(1) by (simp add: make_ready_def tt_upd_ok tt_get_ok th_def slock_idem)
  note same = same_but_next_fields [OF add(3)]
  have row1: "?tt ! nat u = (if u = w then ?e else th s u)" if "is_tid u" for u
    using th_update [OF D(1) w(1) that, of ?e] unfolding th_def by simp
  have len: "length tt = CONFIG_MAX_THREADS" using same(5) D(9) by simp
  have rows: "woken_rows s tt w rs"
    unfolding woken_rows_def
  proof (intro conjI allI impI len)
    fix u assume u: "is_tid u"
    show "th_state (tt ! nat u) = (if u = w then woken_state (th_state (th s u)) else th_state (th s u))"
      "th_sleeps_on (tt ! nat u) = (if u = w then 0 else th_sleeps_on (th s u))"
      "th_pagetable (tt ! nat u) = th_pagetable (th s u)"
      unfolding same(1,2,3) row1 [OF u] using w(3) by (simp_all add: woken_state_def)
    assume "u \<noteq> w \<and> u \<notin> set rs"
    then show "th_next (tt ! nat u) = th_next (th s u)"
      using same(6) [of "nat u"] row1 [OF u] u by (simp add: is_tid_def)
  qed
  have "sched_ok (s\<lparr>thread_table := tt, ready_head := h, ready_tail := w\<rparr>) (rs @ [w])"
    by (rule sched_ok_join [OF ok w(1,2) _ len add(2)])
      (use w(3) rows in \<open>simp_all add: woken_rows_def woken_state_def\<close>)
  with eq rows show ?thesis by (intro that)
qed

lemma make_ready_ok:
  assumes ok: "sched_ok s rs" and w: "is_tid w" "th_sleeps_on (th s w) \<noteq> 0"
  obtains tt h l where
    "make_ready w s = Inr (s\<lparr>thread_table := tt, ready_head := h, ready_tail := l\<rparr>)"
    "sched_ok (s\<lparr>thread_table := tt, ready_head := h, ready_tail := l\<rparr>) (ready_after (th_state (th s w)) w rs)"
    "woken_rows s tt w rs"
proof -
  have w0: "w \<noteq> 0" using waiting_not_ready [OF ok w] by simp
  consider "th_state (th s w) = THREAD_RUNNING" | "th_state (th s w) = THREAD_SLEEPING"
    using sched_okD(2) [OF ok] w unfolding states_ok_def by blast
  then show ?thesis
  proof cases
    case 1
    show ?thesis
      by (rule that [where h = "ready_head s" and l = "ready_tail s" and
            tt = "(thread_table s)[nat w := (th s w)\<lparr>th_sleeps_on := 0, th_next := -1\<rparr>]"])
        (use make_ready_running [OF ok w(1) w0 1] 1 in \<open>simp_all add: ready_after_def\<close>)
  next
    case 2
    then show ?thesis
      using make_ready_sleeping [OF ok w(1) w0 2] that by (simp add: ready_after_def) metis
  qed
qed

text \<open>Taking a thread out of the middle of a list.\<close>

lemma linked_unlink:
  assumes "linked nx i (xs @ w # ys)" "distinct (xs @ w # ys)"
    "\<And>x. x \<in> set (xs @ ys) \<Longrightarrow> xs = [] \<or> x \<noteq> last xs \<Longrightarrow> nx' x = nx x"
    "xs \<noteq> [] \<Longrightarrow> nx' (last xs) = nx w" "i' = (if xs = [] then nx w else i)"
  shows "linked nx' i' (xs @ ys)"
proof -
  obtain j where j: "lseg nx i xs w" "linked nx (nx w) ys" using assms(1) by (auto simp: linked_append)
  have "last xs \<notin> set ys" if "xs \<noteq> []" using assms(2) last_in_set [OF that] by auto
  then have "nx x = nx' x" if "x \<in> set ys" for x using assms(3) [of x] that by fastforce
  then have ys: "linked nx' (nx w) ys"
    using j(2) linked_cong [of ys nx nx'] by blast
  show ?thesis
  proof (cases "xs = []")
    case True
    then show ?thesis using ys assms(5) by simp
  next
    case False
    have "lseg nx' i xs (nx w)"
      by (rule lseg_relink [of xs nx i w nx' "nx w", OF False _ j(1) assms(4) [OF False]]) (use assms(2,3) in simp_all)
    with ys False assms(5) show ?thesis by (auto simp: linked_append)
  qed
qed

definition unlink_rows :: "int list \<Rightarrow> int \<Rightarrow> thread_table_t list \<Rightarrow> thread_table_t list" where
  "unlink_rows xs w tt = (if xs = [] then tt
     else tt[nat (last xs) := (tt ! nat (last xs))\<lparr>th_next := next_of tt w\<rparr>])"

definition unlink_head :: "int list \<Rightarrow> int \<Rightarrow> 'a sleepq_scheme \<Rightarrow> nat \<Rightarrow> int list" where
  "unlink_head xs w s h = (if xs = [] then (sleepq_hashtable s)[h := next_of (thread_table s) w]
     else sleepq_hashtable s)"

lemma unlink_waiter_eq:
  assumes "is_tid w" "xs \<noteq> [] \<Longrightarrow> is_tid (last xs) \<and> 0 < last xs"
    "length (thread_table s) = CONFIG_MAX_THREADS" "h < length (sleepq_hashtable s)"
  shows "unlink_waiter h (if xs = [] then -1 else last xs) w s =
    Inr (next_of (thread_table s) w, s\<lparr>thread_table := unlink_rows xs w (thread_table s),
      sleepq_hashtable := unlink_head xs w s h\<rparr>)"
proof (cases "xs = []")
  case True
  then show ?thesis using assms tid_index [OF assms(1,3)]
    by (simp add: unlink_waiter_def tt_get_ok unlink_rows_def unlink_head_def next_of_def)
next
  case False
  then show ?thesis using assms tid_index [OF assms(1,3)] tid_index [OF _ assms(3), of "last xs"]
    by (simp add: unlink_waiter_def tt_get_ok tt_upd_ok unlink_rows_def unlink_head_def next_of_def)
qed

lemma unlink_rows_nth:
  assumes "is_tid u" "xs \<noteq> [] \<Longrightarrow> is_tid (last xs)" "length tt = CONFIG_MAX_THREADS"
  shows "unlink_rows xs w tt ! nat u =
    (if xs \<noteq> [] \<and> u = last xs then (tt ! nat u)\<lparr>th_next := next_of tt w\<rparr> else tt ! nat u)"
  using assms tid_index [OF assms(1,3)] by (auto simp: unlink_rows_def nth_list_update is_tid_def)

lemma unlink_links:
  assumes ok: "sleepq_ok s rs qs" and q: "qs h = xs @ w # ys" and h: "h < SLEEPQ_HASHTABLE_SIZE"
    and k: "k < SLEEPQ_HASHTABLE_SIZE"
  shows "linked (next_of (unlink_rows xs w (thread_table s))) (unlink_head xs w s h ! k)
    ((qs(h := xs @ ys)) k)"
proof -
  note Q = sleepq_okD [OF ok] and D = sched_okD [OF sleepq_okD(1) [OF ok]]
  have lst: "is_tid (last xs) \<and> waits_in (th s (last xs)) h" if "xs \<noteq> []"
  proof -
    have "last xs \<in> set (qs h)" using last_in_set [OF that] q by simp
    then show ?thesis using Q(4) [OF h] unfolding queue_rep_def th_def by blast
  qed
  have nx: "next_of (unlink_rows xs w (thread_table s)) u =
      (if xs \<noteq> [] \<and> u = last xs then next_of (thread_table s) w else next_of (thread_table s) u)"
    if "is_tid u" for u
    using unlink_rows_nth [OF that _ D(9), of xs w] lst by (simp add: next_of_def)
  show ?thesis
  proof (cases "k = h")
    case True
    have "linked (next_of (unlink_rows xs w (thread_table s))) (unlink_head xs w s h ! h) (xs @ ys)"
      by (rule linked_unlink [where nx = "next_of (thread_table s)" and w = w and i = "sleepq_hashtable s ! h"])
        (use Q(3) Q(4) [OF h] nx lst h q in \<open>auto simp: queue_rep_def unlink_head_def\<close>)
    with True show ?thesis by simp
  next
    case False
    have "next_of (thread_table s) u = next_of (unlink_rows xs w (thread_table s)) u" if "u \<in> set (qs k)" for u
    proof -
      have "is_tid u" "waits_in (th s u) k" using Q(4) [OF k] that by (auto simp: queue_rep_def th_def)
      then have "\<not> (xs \<noteq> [] \<and> u = last xs)" using lst False by (auto simp: waits_in_def)
      with nx [OF \<open>is_tid u\<close>] show ?thesis by simp
    qed
    moreover have "unlink_head xs w s h ! k = sleepq_hashtable s ! k" using False by (simp add: unlink_head_def)
    ultimately show ?thesis
      using Q(4) [OF k] False linked_cong [of "qs k" "next_of (thread_table s)"] by (simp add: queue_rep_def)
  qed
qed

lemma unlink_sched_ok:
  assumes "sched_ok s rs" "xs \<noteq> [] \<Longrightarrow> is_tid (last xs) \<and> th_sleeps_on (th s (last xs)) \<noteq> 0"
  shows "sched_ok (s\<lparr>thread_table := unlink_rows xs w (thread_table s)\<rparr>) rs"
proof (cases "xs = []")
  case True
  then show ?thesis using assms(1) by (simp add: unlink_rows_def)
next
  case False
  note l = assms(2) [OF False]
  have "sched_ok (s\<lparr>thread_table := (thread_table s)[nat (last xs) :=
      (th s (last xs))\<lparr>th_next := next_of (thread_table s) w\<rparr>]\<rparr>) rs"
    by (rule sched_ok_link [OF assms(1)]) (use l waiting_not_ready [OF assms(1)] in simp_all)
  then show ?thesis using False by (simp add: unlink_rows_def th_def)
qed

lemma waiters_split:
  assumes "qs (SLEEPQ_HASH res) = xs @ w # ys" "\<forall>t \<in> set xs. th_sleeps_on (th s t) \<noteq> res"
    "th_sleeps_on (th s w) = res"
  shows "waiters s qs res = w # filter (\<lambda>t. th_sleeps_on (th s t) = res) ys"
  using assms by (simp add: waiters_def filter_empty_conv [THEN iffD2])

lemma queue_rep_wake:
  assumes ok: "sleepq_ok s rs qs" and q: "qs h = xs @ w # ys" and h: "h < SLEEPQ_HASHTABLE_SIZE"
    and k: "k < SLEEPQ_HASHTABLE_SIZE" and lnk: "linked (next_of tt1) i ((qs(h := xs @ ys)) k)"
    and sl: "\<And>u. is_tid u \<Longrightarrow> th_sleeps_on (tt ! nat u) = (if u = w then 0 else th_sleeps_on (th s u))"
    and nx: "\<And>u. is_tid u \<Longrightarrow> u \<noteq> w \<Longrightarrow> u \<notin> set rs \<Longrightarrow> th_next (tt ! nat u) = th_next (tt1 ! nat u)"
  shows "queue_rep tt i k ((qs(h := xs @ ys)) k)"
proof -
  let ?q = "(qs(h := xs @ ys)) k"
  note Q = sleepq_okD [OF ok]
  have mem: "u \<in> set (qs j) \<longleftrightarrow> waits_in (th s u) j" if "j < SLEEPQ_HASHTABLE_SIZE" "is_tid u" for u j
    using Q(4) [OF that(1)] that(2) unfolding queue_rep_def th_def by blast
  have tid: "is_tid u" if "u \<in> set (qs j)" "j < SLEEPQ_HASHTABLE_SIZE" for u j
    using Q(4) [OF that(2)] that(1) unfolding queue_rep_def by blast
  have dist: "distinct (qs j)" if "j < SLEEPQ_HASHTABLE_SIZE" for j
    using Q(4) [OF that] unfolding queue_rep_def by blast
  have w: "is_tid w" "waits_in (th s w) h" using tid [of w h] mem [OF h, of w] q h by simp_all
  have set_q: "u \<in> set ?q \<longleftrightarrow> u \<in> set (qs k) \<and> u \<noteq> w" for u
    using q dist [OF h] mem [OF k w(1)] w(2) by (cases "k = h") (auto simp: waits_in_def)
  have "linked (next_of tt) i ?q"
  proof (rule linked_cong [THEN iffD1, OF _ lnk])
    fix u assume "u \<in> set ?q"
    then have u: "is_tid u" "u \<noteq> w" "waits_in (th s u) k" using set_q [of u] tid k mem by blast+
    then have "u \<notin> set rs" using waiting_not_ready(2) [OF Q(1)] by (simp add: waits_in_def)
    then show "next_of tt1 u = next_of tt u" using nx u by (simp add: next_of_def)
  qed
  moreover have "distinct ?q" using dist [OF k] dist [OF h] q by simp
  moreover have "u \<in> set ?q \<longleftrightarrow> waits_in (tt ! nat u) k" if "is_tid u" for u
    using set_q [of u] mem [OF k that] sl [OF that] by (auto simp: waits_in_def)
  ultimately show ?thesis unfolding queue_rep_def using set_q tid k by blast
qed

text \<open>
  The part of \<^verbatim>\<open>sleepq_wake\<close> and of each turn of \<^verbatim>\<open>sleepq_wake_all\<close> between
  finding a waiter and the next one: \<open>s\<close> has the lock of the sleep queue.
\<close>

lemma wake_one_ok:
  assumes ok: "sleepq_ok s rs qs" and q: "qs h = xs @ w # ys" and h: "h < SLEEPQ_HASHTABLE_SIZE"
  obtains tt hd' tl' ht where
    "bindE (unlink_waiter h (if xs = [] then -1 else last xs) w s) (\<lambda>(_, s). make_ready w s) =
       Inr (s\<lparr>sleepq_hashtable := ht, thread_table := tt, ready_head := hd', ready_tail := tl'\<rparr>)"
    "sleepq_ok (s\<lparr>sleepq_hashtable := ht, thread_table := tt, ready_head := hd', ready_tail := tl'\<rparr>)
       (ready_after (th_state (th s w)) w rs) (qs(h := xs @ ys))"
    "\<And>u. is_tid u \<Longrightarrow>
       th_state (tt ! nat u) = (if u = w then woken_state (th_state (th s u)) else th_state (th s u)) \<and>
       th_sleeps_on (tt ! nat u) = (if u = w then 0 else th_sleeps_on (th s u))"
proof -
  note Q = sleepq_okD [OF ok] and D = sched_okD [OF sleepq_okD(1) [OF ok]]
  have mem: "is_tid u \<and> waits_in (th s u) h \<and> th_sleeps_on (th s u) \<noteq> 0 \<and> 0 < u" if "u \<in> set (qs h)" for u
    using Q(4) [OF h] that linked_pos unfolding queue_rep_def waits_in_def th_def by blast
  have lst: "is_tid (last xs) \<and> 0 < last xs \<and> th_sleeps_on (th s (last xs)) \<noteq> 0" if "xs \<noteq> []"
    using mem [of "last xs"] last_in_set [OF that] q by simp
  have w: "is_tid w" "th_sleeps_on (th s w) \<noteq> 0" using mem [of w] q by simp_all
  let ?tt1 = "unlink_rows xs w (thread_table s)" and ?ht = "unlink_head xs w s h"
  let ?s1 = "s\<lparr>thread_table := ?tt1, sleepq_hashtable := ?ht\<rparr>"
  have row1: "?tt1 ! nat u = (if xs \<noteq> [] \<and> u = last xs
      then (th s u)\<lparr>th_next := next_of (thread_table s) w\<rparr> else th s u)" if "is_tid u" for u
    unfolding th_def using unlink_rows_nth [OF that _ D(9), of xs w] lst by blast
  then have fld: "th_state (th ?s1 u) = th_state (th s u)" "th_sleeps_on (th ?s1 u) = th_sleeps_on (th s u)"
    if "is_tid u" for u using that by (simp_all add: th_def)
  have "sched_ok (s\<lparr>thread_table := ?tt1\<rparr>) rs" using lst by (intro unlink_sched_ok [OF Q(1)]) blast
  then have s1: "sched_ok ?s1 rs"
    by (rule sched_ok_cong [rotated 8]) (use D(1) in \<open>simp_all add: sched_shape_def\<close>)
  obtain tt hd' tl' where mk: "make_ready w ?s1 = Inr (?s1\<lparr>thread_table := tt, ready_head := hd', ready_tail := tl'\<rparr>)"
    "sched_ok (?s1\<lparr>thread_table := tt, ready_head := hd', ready_tail := tl'\<rparr>)
       (ready_after (th_state (th ?s1 w)) w rs)" "woken_rows ?s1 tt w rs"
    by (rule make_ready_ok [OF s1 w(1)]) (use w fld in simp_all)
  have row: "th_state (tt ! nat u) = (if u = w then woken_state (th_state (th s u)) else th_state (th s u))"
    "th_sleeps_on (tt ! nat u) = (if u = w then 0 else th_sleeps_on (th s u))"
    "u \<noteq> w \<Longrightarrow> u \<notin> set rs \<Longrightarrow> th_next (tt ! nat u) = th_next (?tt1 ! nat u)" if "is_tid u" for u
  proof -
    note r = mk(3) [unfolded woken_rows_def, THEN conjunct2, rule_format, OF that, unfolded fld [OF that]]
    have "th ?s1 u = ?tt1 ! nat u" by (simp add: th_def)
    with r show "th_state (tt ! nat u) = (if u = w then woken_state (th_state (th s u)) else th_state (th s u))"
      "th_sleeps_on (tt ! nat u) = (if u = w then 0 else th_sleeps_on (th s u))"
      "u \<noteq> w \<Longrightarrow> u \<notin> set rs \<Longrightarrow> th_next (tt ! nat u) = th_next (?tt1 ! nat u)" by metis+
  qed
  have "queue_rep tt (?ht ! k) k ((qs(h := xs @ ys)) k)" if k: "k < SLEEPQ_HASHTABLE_SIZE" for k
    by (rule queue_rep_wake [OF ok q h k unlink_links [OF ok q h k] row(2,3)])
  moreover have eq: "bindE (unlink_waiter h (if xs = [] then -1 else last xs) w s) (\<lambda>(_, s). make_ready w s) =
       Inr (s\<lparr>sleepq_hashtable := ?ht, thread_table := tt, ready_head := hd', ready_tail := tl'\<rparr>)"
    using unlink_waiter_eq [OF w(1) _ D(9), of xs h] lst h Q(3) mk(1) by simp
  moreover have "length ?ht = SLEEPQ_HASHTABLE_SIZE" using Q(3) by (simp add: unlink_head_def)
  moreover have "sched_ok (s\<lparr>sleepq_hashtable := ?ht, thread_table := tt, ready_head := hd', ready_tail := tl'\<rparr>)
      (ready_after (th_state (th s w)) w rs)"
    using mk(2) fld(1) [OF w(1)] by simp
  ultimately show ?thesis
    using row by (intro that [OF eq]) (simp_all add: sleepq_ok_def)
qed

lemma sleepq_ok_frame:
  assumes "sleepq_ok s rs qs" "thread_table s' = thread_table s" "ready_head s' = ready_head s"
    "ready_tail s' = ready_tail s" "scheduler_current_thread s' = scheduler_current_thread s"
    "this_cpu s' = this_cpu s" "thread_table_slock s' = thread_table_slock s" "next_tid s' = next_tid s"
    "sleepq_hashtable s' = sleepq_hashtable s"
  shows "sleepq_ok s' rs qs"
proof -
  have "sched_ok s' rs"
    by (rule sched_ok_cong [rotated 8, OF sleepq_okD(1) [OF assms(1)]])
      (use assms sched_okD(1) [OF sleepq_okD(1) [OF assms(1)]] in \<open>simp_all add: sched_shape_def\<close>)
  then show ?thesis using assms by (simp add: sleepq_ok_def)
qed

text \<open>
  \<^verbatim>\<open>sleepq_wake\<close> does nothing without a waiter; otherwise it takes the first one out of the
  queue, and nothing else changes.
\<close>

lemma sleepq_wake_none:
  assumes ok: "sleepq_ok s rs qs" and no: "waiters s qs res = []" and slk: "sleepq_slock s = 0"
  shows "sleepq_wake res s = Inr s"
proof -
  let ?h = "SLEEPQ_HASH res"
  let ?s = "s\<lparr>cp0_status := 0xffff00fe AND cp0_status s, sleepq_slock := 1\<rparr>"
  note Q = sleepq_okD [OF ok] and D = sched_okD [OF sleepq_okD(1) [OF ok]]
  have "\<forall>t \<in> set (qs ?h). th_sleeps_on (th ?s t) \<noteq> res"
    using no by (simp add: waiters_def filter_empty_conv th_def)
  moreover have "linked (next_of (thread_table ?s)) (sleepq_hashtable s ! ?h) (qs ?h)"
    "length (qs ?h) \<le> CONFIG_MAX_THREADS" "\<forall>t \<in> set (qs ?h). is_tid t"
    using Q(5) [of res] queue_rep_short [OF Q(5), of res] unfolding queue_rep_def by simp_all
  ultimately obtain p j where "j < 0"
    "find_waiter CONFIG_MAX_THREADS res (-1) (sleepq_hashtable s ! ?h) ?s = Inr (p, j)"
    using find_waiter_eq [of ?s "sleepq_hashtable s ! ?h" "qs ?h" CONFIG_MAX_THREADS res "-1"] D(9)
    by fastforce
  then show ?thesis
    using slk Q(3) hash_bound [of res]
    by (simp add: sleepq_wake_def interrupt_disable_def interrupt_set_state_def sleepq_idem)
qed

abbreviation wake_result ::
  "'a sleepq_scheme \<Rightarrow> thread_table_t list \<Rightarrow> int list \<Rightarrow> int \<Rightarrow> int \<Rightarrow> 'a sleepq_scheme"
where
  "wake_result s tt ht h l \<equiv>
     s\<lparr>sleepq_hashtable := ht, thread_table := tt, ready_head := h, ready_tail := l\<rparr>"

lemma waiters_unlink:
  assumes ok: "sleepq_ok s rs qs" and q: "qs (SLEEPQ_HASH res) = xs @ w # ys"
    and w: "\<forall>t \<in> set xs. th_sleeps_on (th s t) \<noteq> res" "th_sleeps_on (th s w) = res"
    and sl: "\<And>u. is_tid u \<Longrightarrow> th_sleeps_on (th s' u) = (if u = w then 0 else th_sleeps_on (th s u))"
  shows "waiters s' (qs(SLEEPQ_HASH res := xs @ ys)) r =
    (if r = res then tl (waiters s qs r) else waiters s qs r)"
proof -
  let ?h = "SLEEPQ_HASH res" and ?k = "SLEEPQ_HASH r"
  note Q = sleepq_okD [OF ok]
  have mem: "is_tid u \<and> waits_in (th s u) ?k" if "u \<in> set (qs ?k)" for u
    using Q(5) [of r] that unfolding queue_rep_def th_def by blast
  have wh: "waits_in (th s w) ?h" "w \<notin> set (xs @ ys)"
    using Q(5) [of res] unfolding queue_rep_def q th_def by auto
  have same: "th_sleeps_on (th s' u) = th_sleeps_on (th s u)"
    if "u \<in> set ((qs(?h := xs @ ys)) ?k)" for u
  proof -
    have "u \<in> set (qs ?k) \<and> u \<noteq> w"
      using that q wh mem [of u] by (cases "?k = ?h") (auto simp: waits_in_def)
    then show ?thesis using sl mem by auto
  qed
  then have "waiters s' (qs(?h := xs @ ys)) r =
      filter (\<lambda>u. th_sleeps_on (th s u) = r) ((qs(?h := xs @ ys)) ?k)"
    unfolding waiters_def by (intro filter_cong) simp_all
  then show ?thesis
    using q w by (auto simp: waiters_def filter_empty_conv [THEN iffD2])
qed

lemma sleepq_wake_first:
  assumes ok: "sleepq_ok s rs qs" and ws: "waiters s qs res = w # ws" and slk: "sleepq_slock s = 0"
  obtains tt ht h l qs' where "sleepq_wake res s = Inr (wake_result s tt ht h l)"
    "sleepq_ok (wake_result s tt ht h l) (ready_after (th_state (th s w)) w rs) qs'"
    "\<And>r. waiters (wake_result s tt ht h l) qs' r = (if r = res then ws else waiters s qs r)"
    "\<And>u. is_tid u \<Longrightarrow>
       th_state (tt ! nat u) = (if u = w then woken_state (th_state (th s u)) else th_state (th s u)) \<and>
       th_sleeps_on (tt ! nat u) = (if u = w then 0 else th_sleeps_on (th s u))"
proof -
  let ?h = "SLEEPQ_HASH res"
  let ?s = "s\<lparr>cp0_status := 0xffff00fe AND cp0_status s, sleepq_slock := 1\<rparr>"
  note Q = sleepq_okD [OF ok] and D = sched_okD [OF sleepq_okD(1) [OF ok]]
  have th: "th ?s = th s" by (simp add: th_def fun_eq_iff)
  have "\<not> (\<forall>t \<in> set (qs ?h). th_sleeps_on (th s t) \<noteq> res)"
    using ws by (auto simp: waiters_def filter_eq_Cons_iff)
  moreover have "linked (next_of (thread_table ?s)) (sleepq_hashtable s ! ?h) (qs ?h)"
    "length (qs ?h) \<le> CONFIG_MAX_THREADS" "\<forall>t \<in> set (qs ?h). is_tid t"
    using Q(5) [of res] queue_rep_short [OF Q(5), of res] unfolding queue_rep_def by simp_all
  ultimately obtain xs v ys where q: "qs ?h = xs @ v # ys"
    and v: "\<forall>t \<in> set xs. th_sleeps_on (th s t) \<noteq> res" "th_sleeps_on (th s v) = res"
    and find: "find_waiter CONFIG_MAX_THREADS res (-1) (sleepq_hashtable s ! ?h) ?s =
      Inr (if xs = [] then -1 else last xs, v)"
    using find_waiter_eq [of ?s "sleepq_hashtable s ! ?h" "qs ?h" CONFIG_MAX_THREADS res "-1"] D(9)
    unfolding th by auto
  have wv: "w = v" using waiters_split [of qs res xs v ys s, OF q v] ws by simp
  have pos: "0 < w" using Q(5) [of res] q linked_pos wv unfolding queue_rep_def by fastforce
  have s1: "sleepq_ok ?s rs qs" by (rule sleepq_ok_frame [OF ok]) simp_all
  show ?thesis
  proof (rule wake_one_ok [OF s1 q hash_bound])
    fix tt hd' tl' ht
    assume step: "bindE (unlink_waiter ?h (if xs = [] then - 1 else last xs) v ?s) (\<lambda>(_, s). make_ready v s) =
        Inr (?s\<lparr>sleepq_hashtable := ht, thread_table := tt, ready_head := hd', ready_tail := tl'\<rparr>)"
      and ok': "sleepq_ok (?s\<lparr>sleepq_hashtable := ht, thread_table := tt, ready_head := hd', ready_tail := tl'\<rparr>)
        (ready_after (th_state (th ?s v)) v rs) (qs(?h := xs @ ys))"
      and row: "\<And>u. is_tid u \<Longrightarrow>
       th_state (tt ! nat u) = (if u = v then woken_state (th_state (th ?s u)) else th_state (th ?s u)) \<and>
       th_sleeps_on (tt ! nat u) = (if u = v then 0 else th_sleeps_on (th ?s u))"
    let ?r = "wake_result s tt ht hd' tl'"
    have "sleepq_wake res s = Inr ?r"
      using slk Q(3) hash_bound [of res] find step pos wv
      by (simp add: sleepq_wake_def interrupt_disable_def interrupt_set_state_def sleepq_idem)
    moreover have "sleepq_ok ?r (ready_after (th_state (th s w)) w rs) (qs(?h := xs @ ys))"
      using ok' unfolding th wv by (rule sleepq_ok_frame) simp_all
    moreover have "waiters ?r (qs(?h := xs @ ys)) r = (if r = res then ws else waiters s qs r)" for r
      using waiters_unlink [OF ok q v, of ?r r] row ws unfolding th by (simp add: th_def)
    ultimately show ?thesis using row unfolding th wv [symmetric] by (intro that)
  qed
qed

lemma waiters_add:
  assumes ok: "sleepq_ok s rs qs" and t: "th_sleeps_on (th s t) = 0" "is_tid t"
    and sl: "\<And>u. is_tid u \<Longrightarrow> th_sleeps_on (th s' u) = (if u = t then res else th_sleeps_on (th s u))"
  shows "waiters s' (qs(SLEEPQ_HASH res := qs (SLEEPQ_HASH res) @ [t])) r =
    (if r = res then waiters s qs r @ [t] else waiters s qs r)"
proof -
  note Q = sleepq_okD [OF ok]
  have same: "th_sleeps_on (th s' u) = th_sleeps_on (th s u)" if "u \<in> set (qs (SLEEPQ_HASH r))" for u
  proof -
    have "is_tid u" "waits_in (th s u) (SLEEPQ_HASH r)"
      using Q(5) [of r] that unfolding queue_rep_def th_def by blast+
    then show ?thesis using sl t by (auto simp: waits_in_def)
  qed
  then have "filter (\<lambda>u. th_sleeps_on (th s' u) = r) (qs (SLEEPQ_HASH r)) = waiters s qs r"
    unfolding waiters_def by (intro filter_cong) simp_all
  then show ?thesis using sl [OF t(2)] by (auto simp: waiters_def)
qed

lemma add_rows_fields:
  assumes ok: "sleepq_ok s rs qs" and t: "is_tid t" "th_sleeps_on (th s t) = 0" "is_tid u"
  shows "th_sleeps_on (add_rows t res (qs (SLEEPQ_HASH res)) (thread_table s) ! nat u) =
      (if u = t then res else th_sleeps_on (th s u))"
    "th_state (add_rows t res (qs (SLEEPQ_HASH res)) (thread_table s) ! nat u) = th_state (th s u)"
proof -
  let ?q = "qs (SLEEPQ_HASH res)"
  note Q = sleepq_okD [OF ok] and D = sched_okD [OF sleepq_okD(1) [OF ok]]
  have lst: "is_tid (last ?q) \<and> last ?q \<noteq> t" if "?q \<noteq> []"
  proof -
    have "is_tid (last ?q)" "waits_in (th s (last ?q)) (SLEEPQ_HASH res)"
      using Q(5) [of res] last_in_set [OF that] unfolding queue_rep_def th_def by blast+
    then show ?thesis using t(2) by (auto simp: waits_in_def)
  qed
  have row: "add_rows t res ?q (thread_table s) ! nat u =
    (if u = t then (thread_table s ! nat u)\<lparr>th_next := -1, th_sleeps_on := res\<rparr>
     else if ?q \<noteq> [] \<and> u = last ?q then (thread_table s ! nat u)\<lparr>th_next := t\<rparr>
     else thread_table s ! nat u)"
    by (rule add_rows_nth [OF t(1,3) D(9) lst])
  show "th_sleeps_on (add_rows t res ?q (thread_table s) ! nat u) =
      (if u = t then res else th_sleeps_on (th s u))"
    "th_state (add_rows t res ?q (thread_table s) ! nat u) = th_state (th s u)"
    unfolding row by (simp_all add: th_def)
qed

end
