(* ===== verification/Semaphore.thy ===== *)
theory Semaphore
  imports Sleepq
begin

text \<open>
  Kernel semaphores (\<^verbatim>\<open>kernel/semaphore.c\<close>).  \<open>sem_base\<close> is the address of
  \<^verbatim>\<open>semaphore_table\<close>; the address of a semaphore is the resource its waiters sleep on.
\<close>

record semaphore_t =
  sem_slock :: uint32
  sem_value :: int
  sem_creator :: int

record sems = sleepq +
  semaphore_table :: "semaphore_t list"
  semaphore_table_slock :: uint32
  semaphore_next :: int

definition CONFIG_MAX_SEMAPHORES :: nat where "CONFIG_MAX_SEMAPHORES = 128"

definition sem_addr :: "uint32 \<Rightarrow> int \<Rightarrow> uint32" where
  "sem_addr sem_base i = sem_base + 12 * word_of_int i"

definition sem_upd :: "int \<Rightarrow> (semaphore_t \<Rightarrow> semaphore_t) \<Rightarrow> 'a sems_scheme \<Rightarrow> 'a sems_scheme kres" where
  "sem_upd i f s = bindE (rd (semaphore_table s) i) (\<lambda>e.
     bindE (wr (semaphore_table s) i (f e)) (\<lambda>st. Inr (s\<lparr>semaphore_table := st\<rparr>)))"

definition semaphore_init :: "'a sems_scheme \<Rightarrow> 'a sems_scheme kres" where
  "semaphore_init s =
     for_rangeE 0 CONFIG_MAX_SEMAPHORES (\<lambda>i. sem_upd (int i) (\<lambda>e. e\<lparr>sem_creator := -1\<rparr>))
       (s\<lparr>semaphore_table_slock := spinlock_reset (semaphore_table_slock s)\<rparr>)"

text \<open>
  The search of \<^verbatim>\<open>semaphore_create\<close> for an unused row, from \<^verbatim>\<open>next\<close> on, advancing
  \<^verbatim>\<open>next\<close> with each row it looks at.  It returns the number of turns left, 0 when there
  was no unused row, and the row of the last turn.
\<close>

fun sem_search :: "nat \<Rightarrow> int \<Rightarrow> 'a sems_scheme \<Rightarrow> (nat \<times> int \<times> 'a sems_scheme) kres" where
  "sem_search 0 sem_id s = Inr (0, sem_id, s)"
| "sem_search (Suc n) sem_id s =
     (let sem_id = semaphore_next s;
          s = s\<lparr>semaphore_next := (semaphore_next s + 1) smod int CONFIG_MAX_SEMAPHORES\<rparr> in
      bindE (rd (semaphore_table s) sem_id) (\<lambda>e.
      if sem_creator e = -1 then
        bindE (thread_get_current_thread s) (\<lambda>(t, s).
        bindE (sem_upd sem_id (\<lambda>e. e\<lparr>sem_creator := t\<rparr>) s) (\<lambda>s. Inr (Suc n, sem_id, s)))
      else sem_search n sem_id s))"

text \<open>The result is the row, or \<open>None\<close> for \<^verbatim>\<open>NULL\<close>.\<close>

definition semaphore_create :: "int \<Rightarrow> 'a sems_scheme \<Rightarrow> (int option \<times> 'a sems_scheme) kres" where
  "semaphore_create v s =
     KERNEL_ASSERT (v \<ge> 0)
    (let (intr_status, s) = interrupt_disable s in
     bindE (spinlock_acquire (semaphore_table_slock s)) (\<lambda>l.
     let s = s\<lparr>semaphore_table_slock := l\<rparr> in
     bindE (sem_search CONFIG_MAX_SEMAPHORES 0 s) (\<lambda>(left, sem_id, s).
     let s = s\<lparr>semaphore_table_slock := spinlock_release (semaphore_table_slock s)\<rparr>;
         s = interrupt_set_state intr_status s
     in if left = 0 then Inr (None, s)
        else bindE (sem_upd sem_id (\<lambda>e. e\<lparr>sem_value := v, sem_slock := spinlock_reset (sem_slock e)\<rparr>) s)
               (\<lambda>s. Inr (Some sem_id, s)))))"

definition semaphore_destroy :: "int \<Rightarrow> 'a sems_scheme \<Rightarrow> 'a sems_scheme kres" where
  "semaphore_destroy i s = sem_upd i (\<lambda>e. e\<lparr>sem_creator := -1\<rparr>) s"

text \<open>
  \<^verbatim>\<open>semaphore_P\<close> up to the point where the semaphore's lock is released; the flag says
  whether the thread has to give up the processor.
\<close>

definition semaphore_P_section ::
  "uint32 \<Rightarrow> int \<Rightarrow> 'a sems_scheme \<Rightarrow> (bool \<times> uint32 \<times> 'a sems_scheme) kres"
where
  "semaphore_P_section sem_base i s =
     (let (intr_status, s) = interrupt_disable s in
      bindE (rd (semaphore_table s) i) (\<lambda>e.
      bindE (spinlock_acquire (sem_slock e)) (\<lambda>l.
      bindE (sem_upd i (\<lambda>e. e\<lparr>sem_slock := l\<rparr>) s) (\<lambda>s.
      bindE (sem_upd i (\<lambda>e. e\<lparr>sem_value := sem_value e - 1\<rparr>) s) (\<lambda>s.
      bindE (rd (semaphore_table s) i) (\<lambda>e.
      if sem_value e < 0 then
        bindE (sleepq_add (sem_addr sem_base i) s) (\<lambda>s.
        bindE (sem_upd i (\<lambda>e. e\<lparr>sem_slock := spinlock_release (sem_slock e)\<rparr>) s) (\<lambda>s.
        Inr (True, intr_status, s)))
      else
        bindE (sem_upd i (\<lambda>e. e\<lparr>sem_slock := spinlock_release (sem_slock e)\<rparr>) s) (\<lambda>s.
        Inr (False, intr_status, s))))))))"

text \<open>
  The whole of \<^verbatim>\<open>semaphore_P\<close>.  When the thread has to wait, the state returned is the
  one in which the processor runs another thread, with the two saved statuses that the thread
  restores, innermost first, when it runs again.
\<close>

datatype 's run = Returned 's | Switched "uint32 list" 's

definition semaphore_P :: "uint32 \<Rightarrow> int \<Rightarrow> 'a sems_scheme \<Rightarrow> 'a sems_scheme run kres" where
  "semaphore_P sem_base i s =
     bindE (semaphore_P_section sem_base i s) (\<lambda>(wait, intr_status, s).
     if wait then bindE (thread_switch s) (\<lambda>(st, s). Inr (Switched [st, intr_status] s))
     else Inr (Returned (interrupt_set_state intr_status s)))"

definition semaphore_V :: "uint32 \<Rightarrow> int \<Rightarrow> 'a sems_scheme \<Rightarrow> 'a sems_scheme kres" where
  "semaphore_V sem_base i s =
     (let (intr_status, s) = interrupt_disable s in
      bindE (rd (semaphore_table s) i) (\<lambda>e.
      bindE (spinlock_acquire (sem_slock e)) (\<lambda>l.
      bindE (sem_upd i (\<lambda>e. e\<lparr>sem_slock := l\<rparr>) s) (\<lambda>s.
      bindE (sem_upd i (\<lambda>e. e\<lparr>sem_value := sem_value e + 1\<rparr>) s) (\<lambda>s.
      bindE (rd (semaphore_table s) i) (\<lambda>e.
      bindE (if sem_value e \<le> 0 then sleepq_wake (sem_addr sem_base i) s else Inr s) (\<lambda>s.
      bindE (sem_upd i (\<lambda>e. e\<lparr>sem_slock := spinlock_release (sem_slock e)\<rparr>) s) (\<lambda>s.
      Inr (interrupt_set_state intr_status s)))))))))"

subsection \<open>The semaphore invariant\<close>

text \<open>
  Between operations the locks are free, and the value of a semaphore in use says how many
  threads wait for it: none when it is not negative, \<open>- value\<close> when it is.  Nobody waits for a
  row that is not in use.
\<close>

definition sem_row :: "'a sems_scheme \<Rightarrow> int \<Rightarrow> semaphore_t" where
  "sem_row s i = semaphore_table s ! nat i"

definition is_sem :: "int \<Rightarrow> bool" where
  "is_sem i \<longleftrightarrow> 0 \<le> i \<and> i < int CONFIG_MAX_SEMAPHORES"

definition sems_ok :: "uint32 \<Rightarrow> 'a sems_scheme \<Rightarrow> int list \<Rightarrow> (nat \<Rightarrow> int list) \<Rightarrow> bool" where
  "sems_ok sem_base s rs qs \<longleftrightarrow> sleepq_ok s rs qs \<and> sleepq_slock s = 0 \<and>
     length (semaphore_table s) = CONFIG_MAX_SEMAPHORES \<and>
     semaphore_table_slock s = 0 \<and> is_sem (semaphore_next s) \<and>
     (\<forall>i. is_sem i \<longrightarrow> (if sem_creator (sem_row s i) = -1 then waiters s qs (sem_addr sem_base i) = []
        else sem_slock (sem_row s i) = 0 \<and>
          int (length (waiters s qs (sem_addr sem_base i))) = max 0 (- sem_value (sem_row s i))))"

text \<open>The table is in the kernel's data segment: no wrap-around, and not at address 0.\<close>

definition good_base :: "uint32 \<Rightarrow> bool" where
  "good_base sem_base \<longleftrightarrow> 0 < unat sem_base \<and> unat sem_base + 12 * CONFIG_MAX_SEMAPHORES \<le> 2 ^ 32"

lemma unat_sem_addr:
  "good_base b \<Longrightarrow> is_sem i \<Longrightarrow> unat (sem_addr b i) = unat b + 12 * nat i"
proof -
  assume b: "good_base b" and i: "is_sem i"
  have "sem_addr b i = of_nat (unat b + 12 * nat i)"
    using i by (simp add: sem_addr_def is_sem_def)
  then show ?thesis
    using b i unat_of_nat_small [of "unat b + 12 * nat i"]
    by (auto simp: good_base_def is_sem_def CONFIG_MAX_SEMAPHORES_def)
qed

lemma sem_addr_inj:
  assumes "good_base b" "is_sem i" "is_sem j"
  shows "sem_addr b i = sem_addr b j \<longleftrightarrow> i = j" "sem_addr b i \<noteq> 0"
proof -
  show "sem_addr b i = sem_addr b j \<longleftrightarrow> i = j"
    using unat_sem_addr [OF assms(1,2)] unat_sem_addr [OF assms(1,3)] assms(2,3)
    by (auto simp: is_sem_def)
  show "sem_addr b i \<noteq> 0"
    using unat_sem_addr [OF assms(1,2)] assms(1) by (auto simp: good_base_def)
qed

lemma sem_upd_ok:
  "is_sem i \<Longrightarrow> length (semaphore_table s) = CONFIG_MAX_SEMAPHORES \<Longrightarrow>
   sem_upd i f s = Inr (s\<lparr>semaphore_table := (semaphore_table s)[nat i := f (sem_row s i)]\<rparr>)"
  by (simp add: sem_upd_def is_sem_def sem_row_def nat_less_iff)

lemma sem_row_simps [simp]:
  "sem_row (s\<lparr>semaphore_table := T\<rparr>) i = T ! nat i" "sem_row (s\<lparr>cp0_status := st\<rparr>) i = sem_row s i"
  "sem_row (s\<lparr>thread_table := tt\<rparr>) i = sem_row s i" "sem_row (s\<lparr>sleepq_hashtable := ht\<rparr>) i = sem_row s i"
  "sem_row (s\<lparr>ready_head := h\<rparr>) i = sem_row s i" "sem_row (s\<lparr>ready_tail := h\<rparr>) i = sem_row s i"
  "sem_row (s\<lparr>semaphore_table_slock := l\<rparr>) i = sem_row s i"
  by (simp_all add: sem_row_def)

lemma sem_rd: "is_sem i \<Longrightarrow> length T = CONFIG_MAX_SEMAPHORES \<Longrightarrow> rd T i = Inr (T ! nat i)"
  by (simp add: is_sem_def nat_less_iff)

lemma sem_index: "is_sem i \<Longrightarrow> 0 \<le> i \<and> nat i < CONFIG_MAX_SEMAPHORES"
  by (simp add: is_sem_def nat_less_iff)

lemma sems_okD:
  assumes "sems_ok b s rs qs"
  shows "sleepq_ok s rs qs" "sleepq_slock s = 0" "length (semaphore_table s) = CONFIG_MAX_SEMAPHORES"
    "is_sem i \<Longrightarrow> sem_creator (sem_row s i) \<noteq> -1 \<Longrightarrow> sem_slock (sem_row s i) = 0"
    "is_sem i \<Longrightarrow> sem_creator (sem_row s i) \<noteq> -1 \<Longrightarrow>
      int (length (waiters s qs (sem_addr b i))) = max 0 (- sem_value (sem_row s i))"
    "is_sem i \<Longrightarrow> sem_creator (sem_row s i) = -1 \<Longrightarrow> waiters s qs (sem_addr b i) = []"
    "semaphore_table_slock s = 0" "is_sem (semaphore_next s)"
  using assms by (simp_all add: sems_ok_def)

text \<open>One semaphore changes its value and its waiters accordingly.\<close>

lemma sems_ok_step:
  assumes ok: "sems_ok b s rs qs" and b: "good_base b" and i: "is_sem i"
    and sl: "sleepq_ok s' rs' qs'" "sleepq_slock s' = 0"
    and tab: "semaphore_table s' = (semaphore_table s)[nat i := e]" "sem_slock e = 0"
    and w: "\<And>r. waiters s' qs' r = (if r = sem_addr b i then ws else waiters s qs r)"
    and v: "sem_creator e \<noteq> -1" "int (length ws) = max 0 (- sem_value e)"
    and g: "semaphore_table_slock s' = 0" "is_sem (semaphore_next s')"
  shows "sems_ok b s' rs' qs'"
proof -
  note S = sems_okD [OF ok]
  have row: "sem_row s' j = (if j = i then e else sem_row s j)" if "is_sem j" for j
    using tab(1) S(3) sem_index [OF i] sem_index [OF that] by (auto simp: sem_row_def nth_list_update)
  show ?thesis
    unfolding sems_ok_def
  proof (intro conjI sl g allI impI)
    show "length (semaphore_table s') = CONFIG_MAX_SEMAPHORES" using tab(1) S(3) by simp
    fix j assume j: "is_sem j"
    show "if sem_creator (sem_row s' j) = -1 then waiters s' qs' (sem_addr b j) = []
        else sem_slock (sem_row s' j) = 0 \<and>
          int (length (waiters s' qs' (sem_addr b j))) = max 0 (- sem_value (sem_row s' j))"
      using row [OF j] w [of "sem_addr b j"] v tab(2) S(4-6) [OF j] sem_addr_inj(1) [OF b i j]
      by (cases "j = i") auto
  qed
qed

text \<open>The first half of \<^verbatim>\<open>semaphore_P\<close>, for a thread that need not and one that must wait.\<close>

lemma P_section_pass:
  assumes ok: "sems_ok b s rs qs" and i: "is_sem i" "sem_creator (sem_row s i) \<noteq> -1"
    and v: "0 < sem_value (sem_row s i)"
  shows "semaphore_P_section b i s = Inr (False, cp0_status s,
    s\<lparr>cp0_status := 0xffff00fe AND cp0_status s, semaphore_table := (semaphore_table s)[nat i :=
      (sem_row s i)\<lparr>sem_value := sem_value (sem_row s i) - 1, sem_slock := 0\<rparr>]\<rparr>)"
proof -
  note S = sems_okD [OF ok] and ix = sem_index [OF i(1)]
  have e: "semaphore_table s ! nat i = sem_row s i" by (simp add: sem_row_def)
  show ?thesis
    using v S(3) S(4) [OF i] ix i(1) e
    by (simp add: semaphore_P_section_def interrupt_disable_def sem_upd_ok sem_rd)
qed

lemma P_section_wait:
  assumes ok: "sems_ok b s rs qs" and b: "good_base b"
    and i: "is_sem i" "sem_creator (sem_row s i) \<noteq> -1" and v: "sem_value (sem_row s i) \<le> 0"
    and t: "t = current_of s (this_cpu s)" "t \<noteq> 0" "th_state (th s t) = THREAD_RUNNING"
    "th_sleeps_on (th s t) = 0"
  obtains s' qs' where "semaphore_P_section b i s = Inr (True, cp0_status s, s')"
    "sems_ok b s' rs qs'"
    "\<And>r. waiters s' qs' r = (if r = sem_addr b i then waiters s qs r @ [t] else waiters s qs r)"
    "\<And>u. is_tid u \<Longrightarrow> th_state (th s' u) = th_state (th s u) \<and>
       th_sleeps_on (th s' u) = (if u = t then sem_addr b i else th_sleeps_on (th s u))"
    "current_of s' = current_of s" "this_cpu s' = this_cpu s"
proof -
  note S = sems_okD [OF ok] and ix = sem_index [OF i(1)]
  let ?r = "sem_addr b i" and ?v = "sem_value (sem_row s i) - 1"
  let ?T = "(semaphore_table s)[nat i := (sem_row s i)\<lparr>sem_slock := 1, sem_value := ?v\<rparr>]"
  let ?s1 = "s\<lparr>cp0_status := 0xffff00fe AND cp0_status s, semaphore_table := ?T\<rparr>"
  define tt where "tt = add_rows t ?r (qs (SLEEPQ_HASH ?r)) (thread_table s)"
  define ht where "ht = (if qs (SLEEPQ_HASH ?r) = [] then (sleepq_hashtable s)[SLEEPQ_HASH ?r := t]
    else sleepq_hashtable s)"
  let ?qs = "qs(SLEEPQ_HASH ?r := qs (SLEEPQ_HASH ?r) @ [t])"
  let ?s2 = "?s1\<lparr>thread_table := tt, sleepq_hashtable := ht\<rparr>"
  let ?e = "(sem_row s i)\<lparr>sem_slock := 1, sem_value := ?v, sem_slock := 0\<rparr>"
  let ?s3 = "?s2\<lparr>semaphore_table := ?T[nat i := ?e]\<rparr>"
  have e: "semaphore_table s ! nat i = sem_row s i" by (simp add: sem_row_def)
  have th1: "th ?s1 = th s" "current_of ?s1 = current_of s" by (simp_all add: th_def current_of_def fun_eq_iff)
  have s1: "sleepq_ok ?s1 rs qs" by (rule sleepq_ok_frame [OF S(1)]) simp_all
  have tid: "is_tid t" using sched_okD(7) [OF sleepq_okD(1) [OF S(1)]] t(1) by simp
  have "sleepq_add ?r ?s1 = Inr ?s2"
    using sleepq_add_code [OF s1 _ _ t(2) _ refl, of ?r] t S(2) unfolding th1
    by (simp add: tt_def ht_def)
  then have eq: "semaphore_P_section b i s = Inr (True, cp0_status s, ?s3)"
    using v S(3) S(4) [OF i] ix i(1) e
    by (simp add: semaphore_P_section_def interrupt_disable_def sem_upd_ok sem_rd)
  have "sleepq_ok ?s2 rs ?qs"
    using sleepq_add_ok [OF s1 _ t(2) _ _ refl sem_addr_inj(2) [OF b i(1) i(1)]] t(1,3,4) unfolding th1
    by (cases "qs (SLEEPQ_HASH ?r) = []") (simp_all add: tt_def ht_def)
  then have s3: "sleepq_ok ?s3 rs ?qs" by (rule sleepq_ok_frame) simp_all
  have fld: "th_sleeps_on (th ?s3 u) = (if u = t then ?r else th_sleeps_on (th s u))"
    "th_state (th ?s3 u) = th_state (th s u)" if "is_tid u" for u
    using add_rows_fields [OF S(1) tid t(4) that, of ?r] by (simp_all add: th_def tt_def)
  have w: "waiters ?s3 ?qs r = (if r = ?r then waiters s qs ?r @ [t] else waiters s qs r)" for r
    using waiters_add [OF S(1) t(4) tid, of ?s3 ?r r] fld(1) by simp
  have "sems_ok b ?s3 rs ?qs"
    by (rule sems_ok_step [OF ok b i(1) s3 _ _ _ w, where e = ?e])
      (use S(2) S(5) [OF i] S(7,8) i(2) v in simp_all)
  then show ?thesis
    using eq w fld by (intro that [of ?s3 ?qs]) (simp_all add: current_of_def fun_eq_iff)
qed

text \<open>\<^verbatim>\<open>semaphore_V\<close>, without and with a waiting thread.\<close>

lemma semaphore_V_free:
  assumes ok: "sems_ok b s rs qs" and b: "good_base b"
    and i: "is_sem i" "sem_creator (sem_row s i) \<noteq> -1" and v: "0 \<le> sem_value (sem_row s i)"
  defines "s' \<equiv> s\<lparr>semaphore_table := (semaphore_table s)[nat i :=
    (sem_row s i)\<lparr>sem_value := sem_value (sem_row s i) + 1, sem_slock := 0\<rparr>]\<rparr>"
  shows "semaphore_V b i s = Inr s'" "sems_ok b s' rs qs"
proof -
  note S = sems_okD [OF ok] and ix = sem_index [OF i(1)]
  have e: "semaphore_table s ! nat i = sem_row s i" by (simp add: sem_row_def)
  show "semaphore_V b i s = Inr s'"
    using v S(3) S(4) [OF i] ix i(1) e
    by (simp add: semaphore_V_def interrupt_disable_def sem_upd_ok sem_rd s'_def interrupt_set_state_def)
  have w: "waiters s' qs r = (if r = sem_addr b i then [] else waiters s qs r)" for r
    using S(5) [OF i] v by (simp add: waiters_def th_def s'_def)
  have "sleepq_ok s' rs qs" by (rule sleepq_ok_frame [OF S(1)]) (simp_all add: s'_def)
  then show "sems_ok b s' rs qs"
    by (rule sems_ok_step [OF ok b i(1) _ _ _ _ w, where
          e = "(sem_row s i)\<lparr>sem_value := sem_value (sem_row s i) + 1, sem_slock := 0\<rparr>"])
      (use S(2) S(7,8) i(2) v in \<open>simp_all add: s'_def\<close>)
qed

lemma semaphore_V_wakes:
  assumes ok: "sems_ok b s rs qs" and b: "good_base b"
    and i: "is_sem i" "sem_creator (sem_row s i) \<noteq> -1" and v: "sem_value (sem_row s i) < 0"
  obtains s' qs' w ws where "waiters s qs (sem_addr b i) = w # ws" "semaphore_V b i s = Inr s'"
    "sems_ok b s' (ready_after (th_state (th s w)) w rs) qs'"
    "\<And>r. waiters s' qs' r = (if r = sem_addr b i then ws else waiters s qs r)"
    "\<And>u. is_tid u \<Longrightarrow>
       th_state (th s' u) = (if u = w then woken_state (th_state (th s u)) else th_state (th s u)) \<and>
       th_sleeps_on (th s' u) = (if u = w then 0 else th_sleeps_on (th s u))"
    "sem_value (sem_row s' i) = sem_value (sem_row s i) + 1"
    "current_of s' = current_of s" "this_cpu s' = this_cpu s" "cp0_status s' = cp0_status s"
    "\<And>j. is_sem j \<Longrightarrow> sem_creator (sem_row s' j) = sem_creator (sem_row s j)"
proof -
  note S = sems_okD [OF ok] and ix = sem_index [OF i(1)]
  let ?r = "sem_addr b i" and ?v = "sem_value (sem_row s i) + 1"
  let ?T = "(semaphore_table s)[nat i := (sem_row s i)\<lparr>sem_slock := 1, sem_value := ?v\<rparr>]"
  let ?s1 = "s\<lparr>cp0_status := 0xffff00fe AND cp0_status s, semaphore_table := ?T\<rparr>"
  let ?e = "(sem_row s i)\<lparr>sem_slock := 1, sem_value := ?v, sem_slock := 0\<rparr>"
  have e: "semaphore_table s ! nat i = sem_row s i" by (simp add: sem_row_def)
  have th1: "th ?s1 = th s" by (simp add: th_def fun_eq_iff)
  have wt1: "waiters ?s1 = waiters s" by (simp add: waiters_def th_def fun_eq_iff)
  have s1: "sleepq_ok ?s1 rs qs" by (rule sleepq_ok_frame [OF S(1)]) simp_all
  obtain w ws where ws: "waiters s qs ?r = w # ws"
    using S(5) [OF i] v by (cases "waiters s qs ?r") auto
  show ?thesis
  proof (rule sleepq_wake_first [OF s1, of ?r w ws])
    show "waiters ?s1 qs ?r = w # ws" "sleepq_slock ?s1 = 0" using ws S(2) wt1 by simp_all
    fix tt ht h l qs'
    let ?w = "wake_result ?s1 tt ht h l"
    let ?s3 = "?w\<lparr>semaphore_table := ?T[nat i := ?e], cp0_status := cp0_status s\<rparr>"
    assume wake: "sleepq_wake ?r ?s1 = Inr ?w"
      and ok': "sleepq_ok ?w (ready_after (th_state (th ?s1 w)) w rs) qs'"
      and wt: "\<And>r. waiters ?w qs' r = (if r = ?r then ws else waiters ?s1 qs r)"
      and row: "\<And>u. is_tid u \<Longrightarrow>
       th_state (tt ! nat u) = (if u = w then woken_state (th_state (th ?s1 u)) else th_state (th ?s1 u)) \<and>
       th_sleeps_on (tt ! nat u) = (if u = w then 0 else th_sleeps_on (th ?s1 u))"
    have V: "semaphore_V b i s = Inr ?s3"
      using v S(3) S(4) [OF i] ix i(1) e wake
      by (simp add: semaphore_V_def interrupt_disable_def sem_upd_ok sem_rd interrupt_set_state_def)
    have s3: "sleepq_ok ?s3 (ready_after (th_state (th s w)) w rs) qs'"
      using ok' unfolding th1 by (rule sleepq_ok_frame) simp_all
    have w3: "waiters ?s3 qs' r = (if r = ?r then ws else waiters s qs r)" for r
      using wt [of r] wt1 by (simp add: waiters_def th_def)
    have "sems_ok b ?s3 (ready_after (th_state (th s w)) w rs) qs'"
      by (rule sems_ok_step [OF ok b i(1) s3 _ _ _ w3, where e = ?e]) (use S(2) S(5) [OF i] S(7,8) i(2) ws v in simp_all)
    moreover have "sem_creator (sem_row ?s3 j) = sem_creator (sem_row s j)" if "is_sem j" for j
      using ix sem_index [OF that] S(3) by (auto simp: sem_row_def nth_list_update)
    ultimately show ?thesis
      using ws V w3 row ix S(3) unfolding th1
      by (intro that [of w ws ?s3 qs']) (simp_all add: th_def current_of_def fun_eq_iff)
  qed
qed

subsection \<open>The other operations keep the invariant\<close>

lemma sleepq_ok_others:
  assumes ok: "sleepq_ok s rs qs" and sch: "sched_ok s' rs'"
    and ht: "sleepq_hashtable s' = sleepq_hashtable s"
    and row: "\<And>u. is_tid u \<Longrightarrow> th_sleeps_on (th s' u) = th_sleeps_on (th s u)"
      "\<And>u. is_tid u \<Longrightarrow> th_sleeps_on (th s u) \<noteq> 0 \<Longrightarrow> th_next (th s' u) = th_next (th s u)"
  shows "sleepq_ok s' rs' qs" "waiters s' qs = waiters s qs"
proof -
  note Q = sleepq_okD [OF ok]
  have mem: "is_tid u \<and> th_sleeps_on (th s u) \<noteq> 0" if "u \<in> set (qs h)" "h < SLEEPQ_HASHTABLE_SIZE" for u h
    using Q(4) [OF that(2)] that(1) unfolding queue_rep_def waits_in_def th_def by blast
  have "queue_rep (thread_table s') (sleepq_hashtable s ! h) h (qs h)" if h: "h < SLEEPQ_HASHTABLE_SIZE" for h
    by (rule queue_rep_frame [OF Q(4) [OF h]])
      (use row mem h in \<open>auto simp: th_def waits_in_def\<close>)
  then show "sleepq_ok s' rs' qs" using sch ht Q(3) by (simp add: sleepq_ok_def)
  show "waiters s' qs = waiters s qs"
  proof
    fix r show "waiters s' qs r = waiters s qs r"
      unfolding waiters_def by (intro filter_cong) (use row(1) mem hash_bound in auto)
  qed
qed

lemma sems_ok_others:
  assumes ok: "sems_ok b s rs qs" and sl: "sleepq_ok s' rs' qs" and w: "waiters s' qs = waiters s qs"
    and eq: "semaphore_table s' = semaphore_table s" "sleepq_slock s' = 0"
    "semaphore_table_slock s' = 0" "semaphore_next s' = semaphore_next s"
  shows "sems_ok b s' rs' qs"
proof -
  have "sem_row s' = sem_row s" using eq(1) by (simp add: sem_row_def fun_eq_iff)
  then show ?thesis using ok sl w eq by (simp add: sems_ok_def)
qed

lemma schedule_sems_ok:
  assumes ok: "sems_ok b s rs qs"
  shows "\<exists>s'. scheduler_schedule s = Inr s' \<and> sems_ok b s' (tl (requeue s rs)) qs"
proof -
  note S = sems_okD [OF ok] and Q = sleepq_okD [OF sems_okD(1) [OF ok]]
  have waiting: "u \<notin> set (requeue s rs)" if "is_tid u" "th_sleeps_on (th s u) \<noteq> 0" for u
    using waiting_not_ready(2) [OF Q(1) that] that(2) by (auto simp: requeue_def Let_def)
  show ?thesis
  proof (rule scheduler_schedule_ok [OF Q(1) refl refl])
    fix tt h l r k
    let ?s' = "sched_result s (pick (requeue s rs)) tt h l r k"
    assume eq: "scheduler_schedule s = Inr ?s'" and sch: "sched_ok ?s' (tl (requeue s rs))"
      and step: "thread_step s tt (set (requeue s rs)) ((\<lambda>u. th_state (th s u))
         (current_of s (this_cpu s) := parked_state (th s (current_of s (this_cpu s))),
          pick (requeue s rs) := THREAD_RUNNING))"
    have row: "th_sleeps_on (th ?s' u) = th_sleeps_on (th s u)"
      "th_sleeps_on (th s u) \<noteq> 0 \<Longrightarrow> th_next (th ?s' u) = th_next (th s u)" if "is_tid u" for u
      using step that waiting [OF that] by (simp_all add: thread_step_def th_def)
    note others = sleepq_ok_others [OF S(1) sch _ row]
    have "sems_ok b ?s' (tl (requeue s rs)) qs"
      by (rule sems_ok_others [OF ok others]) (use S(2,7) in simp_all)
    with eq show ?thesis by blast
  qed
qed

lemma thread_run_sems_ok:
  assumes ok: "sems_ok b s rs qs" and t: "is_tid t" "t \<noteq> 0" "th_state (th s t) = THREAD_NONREADY"
  shows "\<exists>s'. thread_run t s = Inr s' \<and> sems_ok b s' (rs @ [t]) qs"
proof -
  note S = sems_okD [OF ok] and Q = sleepq_okD [OF sems_okD(1) [OF ok]]
  have waiting: "u \<notin> insert t (set rs)" if "is_tid u" "th_sleeps_on (th s u) \<noteq> 0" for u
    using waiting_not_ready(2) [OF Q(1) that] that t(3) sched_okD(2) [OF Q(1)]
    unfolding states_ok_def by force
  show ?thesis
  proof (rule thread_run_ok [OF Q(1) t])
    fix tt h
    let ?s' = "s\<lparr>thread_table := tt, ready_head := h, ready_tail := t\<rparr>"
    assume eq: "thread_run t s = Inr ?s'" and sch: "sched_ok ?s' (rs @ [t])"
      and step: "thread_step s tt (insert t (set rs)) ((\<lambda>u. th_state (th s u))(t := THREAD_READY))"
    have row: "th_sleeps_on (th ?s' u) = th_sleeps_on (th s u)"
      "th_sleeps_on (th s u) \<noteq> 0 \<Longrightarrow> th_next (th ?s' u) = th_next (th s u)" if "is_tid u" for u
      using step that waiting [OF that] by (simp_all add: thread_step_def th_def)
    note others = sleepq_ok_others [OF S(1) sch _ row]
    have "sems_ok b ?s' (rs @ [t]) qs"
      by (rule sems_ok_others [OF ok others]) (use S(2,7) in simp_all)
    with eq show ?thesis by blast
  qed
qed

lemma thread_create_sems_ok:
  assumes ok: "sems_ok b s rs qs"
  shows "\<exists>t s'. thread_create img func arg s = Inr (t, s') \<and> sems_ok b s' rs qs"
proof -
  note S = sems_okD [OF ok] and Q = sleepq_okD [OF sems_okD(1) [OF ok]]
  from Q(1) show ?thesis
  proof (cases rule: thread_create_cases [of s rs img func arg])
    case full
    with ok show ?thesis by blast
  next
    case (slot t s')
    have z: "th_sleeps_on (th s t) = 0"
      using slot(2,4) sched_okD(2) [OF Q(1)] unfolding states_ok_def by force
    have r: "th s' u = (if u = t then new_thread (stack_context img t) else th s u)" if "is_tid u" for u
      using th_update [OF Q(2) slot(2) that] slot(5) by (simp add: th_def)
    have row: "th_sleeps_on (th s' u) = th_sleeps_on (th s u)"
      "th_sleeps_on (th s u) \<noteq> 0 \<Longrightarrow> th_next (th s' u) = th_next (th s u)" if "is_tid u" for u
      using r [OF that] z by (auto simp: new_thread_def)
    note others = sleepq_ok_others [OF S(1) slot(6) _ row]
    have "sems_ok b s' rs qs"
      by (rule sems_ok_others [OF ok others]) (use S(2,7) slot(5) in simp_all)
    with slot(1) show ?thesis by blast
  qed
qed

subsection \<open>Creating semaphores\<close>

lemma sem_search_cases:
  assumes "length (semaphore_table s) = CONFIG_MAX_SEMAPHORES" "is_sem (semaphore_next s)"
    "thread_get_current_thread s = Inr (t, s)" "\<And>k. thread_get_current_thread (s\<lparr>semaphore_next := k\<rparr>) =
      Inr (t, s\<lparr>semaphore_next := k\<rparr>)"
  shows "(\<exists>j k i. j < n \<and> is_sem i \<and> is_sem k \<and> sem_creator (sem_row s i) = -1 \<and>
      sem_search n i0 s = Inr (n - j, i, s\<lparr>semaphore_next := k, semaphore_table := (semaphore_table s)[nat i :=
        (sem_row s i)\<lparr>sem_creator := t\<rparr>]\<rparr>)) \<or>
    (\<forall>j < n. sem_creator (sem_row s ((semaphore_next s + int j) mod int CONFIG_MAX_SEMAPHORES)) \<noteq> -1) \<and>
      (\<exists>i k. is_sem k \<and> sem_search n i0 s = Inr (0, i, s\<lparr>semaphore_next := k\<rparr>))"
  using assms
proof (induction n arbitrary: i0 s)
  case 0
  then show ?case by (auto intro!: exI [of _ "semaphore_next s"])
next
  case (Suc n)
  let ?i = "semaphore_next s" and ?k = "(semaphore_next s + 1) smod int CONFIG_MAX_SEMAPHORES"
  let ?s = "s\<lparr>semaphore_next := ?k\<rparr>"
  have k: "?k = (semaphore_next s + 1) mod int CONFIG_MAX_SEMAPHORES" "is_sem ?k"
    using Suc.prems(2) by (simp_all add: signed_modulo_int_def is_sem_def CONFIG_MAX_SEMAPHORES_def)
  have rdi: "rd (semaphore_table s) ?i = Inr (sem_row s ?i)"
    using sem_rd [OF Suc.prems(2,1)] by (simp add: sem_row_def)
  have row: "sem_row ?s = sem_row s" by (simp add: sem_row_def fun_eq_iff)
  show ?case
  proof (cases "sem_creator (sem_row s ?i) = -1")
    case True
    then have "sem_search (Suc n) i0 s = Inr (Suc n - 0, ?i, s\<lparr>semaphore_next := ?k,
        semaphore_table := (semaphore_table s)[nat ?i := (sem_row s ?i)\<lparr>sem_creator := t\<rparr>]\<rparr>)"
      using Suc.prems rdi row by (simp add: sem_upd_ok Let_def)
    then show ?thesis using True Suc.prems(2) k(2) 
      by (intro disjI1 exI [of _ "0 :: nat"] exI [of _ ?k] exI [of _ ?i]) simp
  next
    case False
    have step: "sem_search (Suc n) i0 s = sem_search n ?i ?s" using False rdi by (simp add: Let_def)
    have shift: "(semaphore_next ?s + int j) mod int CONFIG_MAX_SEMAPHORES =
        (semaphore_next s + int (Suc j)) mod int CONFIG_MAX_SEMAPHORES" for j
      unfolding k(1) by (simp add: mod_add_left_eq add.assoc k(1))
    have first: "(semaphore_next s + int 0) mod int CONFIG_MAX_SEMAPHORES = ?i"
      using Suc.prems(2) by (simp add: is_sem_def)
    have "(\<exists>j k' i. j < n \<and> is_sem i \<and> is_sem k' \<and> sem_creator (sem_row s i) = -1 \<and>
        sem_search n ?i ?s = Inr (n - j, i, ?s\<lparr>semaphore_next := k',
          semaphore_table := (semaphore_table ?s)[nat i := (sem_row s i)\<lparr>sem_creator := t\<rparr>]\<rparr>)) \<or>
      (\<forall>j < n. sem_creator (sem_row s ((semaphore_next s + int (Suc j)) mod int CONFIG_MAX_SEMAPHORES)) \<noteq> -1) \<and>
        (\<exists>i k. is_sem k \<and> sem_search n ?i ?s = Inr (0, i, ?s\<lparr>semaphore_next := k\<rparr>))"
      using Suc.IH [of ?s ?i, unfolded row shift] Suc.prems k(2) by simp
    then show ?thesis
    proof
      assume "\<exists>j k' i. j < n \<and> is_sem i \<and> is_sem k' \<and> sem_creator (sem_row s i) = -1 \<and>
        sem_search n ?i ?s = Inr (n - j, i, ?s\<lparr>semaphore_next := k',
          semaphore_table := (semaphore_table ?s)[nat i := (sem_row s i)\<lparr>sem_creator := t\<rparr>]\<rparr>)"
      then obtain j k' i where "j < n" "is_sem i" "is_sem k'" "sem_creator (sem_row s i) = -1"
        "sem_search n ?i ?s = Inr (n - j, i, ?s\<lparr>semaphore_next := k',
          semaphore_table := (semaphore_table ?s)[nat i := (sem_row s i)\<lparr>sem_creator := t\<rparr>]\<rparr>)" by blast
      then show ?thesis
        unfolding step by (intro disjI1 exI [of _ "Suc j"] exI [of _ k'] exI [of _ i]) simp
    next
      assume *: "(\<forall>j < n. sem_creator (sem_row s ((semaphore_next s + int (Suc j)) mod int CONFIG_MAX_SEMAPHORES)) \<noteq> -1) \<and>
        (\<exists>i k. is_sem k \<and> sem_search n ?i ?s = Inr (0, i, ?s\<lparr>semaphore_next := k\<rparr>))"
      have "sem_creator (sem_row s ((semaphore_next s + int j) mod int CONFIG_MAX_SEMAPHORES)) \<noteq> -1"
        if "j < Suc n" for j
        using * first False that by (cases j) auto
      with * show ?thesis unfolding step by auto
    qed
  qed
qed

lemma waiters_sem_frame:
  "waiters (s\<lparr>semaphore_next := k\<rparr>) = waiters s" "waiters (s\<lparr>semaphore_table := T\<rparr>) = waiters s"
  "waiters (s\<lparr>semaphore_table_slock := l\<rparr>) = waiters s" "waiters (s\<lparr>cp0_status := st\<rparr>) = waiters s"
  by (simp_all add: waiters_def th_def fun_eq_iff)

text \<open>
  \<^verbatim>\<open>semaphore_create\<close> returns a row that was not in use, with the given value, or fails,
  and then every row is in use.
\<close>

lemma semaphore_create_cases:
  assumes ok: "sems_ok b s rs qs" and b: "good_base b" and v: "0 \<le> v"
    and cur: "current_of s (this_cpu s) \<noteq> -1"
  obtains (full) s' where "semaphore_create v s = Inr (None, s')" "sems_ok b s' rs qs"
    "\<And>i. is_sem i \<Longrightarrow> sem_creator (sem_row s i) \<noteq> -1" "sem_row s' = sem_row s"
  | (row) s' i where "semaphore_create v s = Inr (Some i, s')" "sems_ok b s' rs qs"
    "is_sem i" "sem_creator (sem_row s i) = -1"
    "sem_row s' i = \<lparr>sem_slock = 0, sem_value = v, sem_creator = current_of s (this_cpu s)\<rparr>"
    "\<And>j. is_sem j \<Longrightarrow> j \<noteq> i \<Longrightarrow> sem_row s' j = sem_row s j"
proof -
  note S = sems_okD [OF ok] and D = sched_okD [OF sleepq_okD(1) [OF sems_okD(1) [OF ok]]]
  let ?s1 = "s\<lparr>cp0_status := 0xffff00fe AND cp0_status s, semaphore_table_slock := 1\<rparr>"
  have row1: "sem_row ?s1 = sem_row s" by (simp add: sem_row_def fun_eq_iff)
  have cur1: "thread_get_current_thread (?s1\<lparr>semaphore_next := k\<rparr>) =
      Inr (current_of s (this_cpu s), ?s1\<lparr>semaphore_next := k\<rparr>)"
    "thread_get_current_thread ?s1 = Inr (current_of s (this_cpu s), ?s1)" for k
    using D(6,10) current_thread_ok [of "?s1\<lparr>semaphore_next := k\<rparr>"] current_thread_ok [of ?s1]
    by (simp_all add: current_of_def)
  have split: "semaphore_create v s = bindE (sem_search CONFIG_MAX_SEMAPHORES 0 ?s1) (\<lambda>(left, i, s').
      let s' = interrupt_set_state (cp0_status s) (s'\<lparr>semaphore_table_slock := 0\<rparr>)
      in if left = 0 then Inr (None, s')
         else bindE (sem_upd i (\<lambda>e. e\<lparr>sem_value := v, sem_slock := spinlock_reset (sem_slock e)\<rparr>) s')
                (\<lambda>s. Inr (Some i, s)))"
    using v S(7) by (simp add: semaphore_create_def interrupt_disable_def)
  have "(\<exists>j k i. j < CONFIG_MAX_SEMAPHORES \<and> is_sem i \<and> is_sem k \<and> sem_creator (sem_row s i) = -1 \<and>
      sem_search CONFIG_MAX_SEMAPHORES 0 ?s1 = Inr (CONFIG_MAX_SEMAPHORES - j, i,
        ?s1\<lparr>semaphore_next := k, semaphore_table := (semaphore_table s)[nat i :=
        (sem_row s i)\<lparr>sem_creator := current_of s (this_cpu s)\<rparr>]\<rparr>)) \<or>
    (\<forall>j < CONFIG_MAX_SEMAPHORES. sem_creator (sem_row s ((semaphore_next s + int j) mod int CONFIG_MAX_SEMAPHORES)) \<noteq> -1) \<and>
      (\<exists>i k. is_sem k \<and> sem_search CONFIG_MAX_SEMAPHORES 0 ?s1 = Inr (0, i, ?s1\<lparr>semaphore_next := k\<rparr>))"
    using sem_search_cases [of ?s1, OF _ _ cur1(2) cur1(1), of CONFIG_MAX_SEMAPHORES 0] S(3,8)
    unfolding row1 by simp
  then show ?thesis
  proof (elim disjE exE conjE)
    fix j k i assume i: "j < CONFIG_MAX_SEMAPHORES" "is_sem i" "is_sem k" "sem_creator (sem_row s i) = -1"
      "sem_search CONFIG_MAX_SEMAPHORES 0 ?s1 = Inr (CONFIG_MAX_SEMAPHORES - j, i,
        ?s1\<lparr>semaphore_next := k, semaphore_table := (semaphore_table s)[nat i :=
        (sem_row s i)\<lparr>sem_creator := current_of s (this_cpu s)\<rparr>]\<rparr>)"
    let ?e = "(sem_row s i)\<lparr>sem_creator := current_of s (this_cpu s), sem_value := v, sem_slock := 0\<rparr>"
    let ?s' = "s\<lparr>semaphore_next := k, semaphore_table_slock := 0,
      semaphore_table := (semaphore_table s)[nat i := ?e]\<rparr>"
    have eq: "semaphore_create v s = Inr (Some i, ?s')"
      unfolding split using i sem_index [OF i(2)] S(3)
      by (simp add: interrupt_set_state_def sem_upd_ok)
    have w: "waiters ?s' qs r = (if r = sem_addr b i then [] else waiters s qs r)" for r
      using S(6) [OF i(2,4)] by (simp add: waiters_sem_frame)
    have sl: "sleepq_ok ?s' rs qs" by (rule sleepq_ok_frame [OF S(1)]) simp_all
    have ok': "sems_ok b ?s' rs qs"
      by (rule sems_ok_step [OF ok b i(2) sl _ _ _ w, where e = ?e]) (use S(2) v cur i(3) in simp_all)
    have r: "sem_row ?s' i = \<lparr>sem_slock = 0, sem_value = v, sem_creator = current_of s (this_cpu s)\<rparr>"
      using S(3) sem_index [OF i(2)] by (simp add: sem_row_def)
    have "sem_row ?s' j = sem_row s j" if "is_sem j" "j \<noteq> i" for j
      using that i(2) by (simp add: sem_row_def is_sem_def nat_eq_iff)
    then show ?thesis by (rule row [OF eq ok' i(2,4) r])
  next
    fix i k assume all: "\<forall>j < CONFIG_MAX_SEMAPHORES.
        sem_creator (sem_row s ((semaphore_next s + int j) mod int CONFIG_MAX_SEMAPHORES)) \<noteq> -1"
      and k: "is_sem k" and none: "sem_search CONFIG_MAX_SEMAPHORES 0 ?s1 = Inr (0, i, ?s1\<lparr>semaphore_next := k\<rparr>)"
    let ?s' = "s\<lparr>semaphore_next := k, semaphore_table_slock := 0\<rparr>"
    have eq: "semaphore_create v s = Inr (None, ?s')"
      unfolding split using none by (simp add: interrupt_set_state_def)
    have used: "sem_creator (sem_row s m) \<noteq> -1" if "is_sem m" for m
    proof -
      let ?j = "nat ((m - semaphore_next s) mod int CONFIG_MAX_SEMAPHORES)"
      have "int ?j = (m - semaphore_next s) mod int CONFIG_MAX_SEMAPHORES"
        by (simp add: CONFIG_MAX_SEMAPHORES_def)
      then have "(semaphore_next s + int ?j) mod int CONFIG_MAX_SEMAPHORES = m"
        using that by (simp add: mod_add_right_eq is_sem_def)
      moreover have "?j < CONFIG_MAX_SEMAPHORES" by (simp add: CONFIG_MAX_SEMAPHORES_def nat_less_iff)
      ultimately show ?thesis using all by metis
    qed
    have r: "sem_row ?s' = sem_row s" by (simp add: sem_row_def fun_eq_iff)
    have "sleepq_ok ?s' rs qs" by (rule sleepq_ok_frame [OF S(1)]) simp_all
    then have ok': "sems_ok b ?s' rs qs"
      using ok k r by (simp add: sems_ok_def waiters_sem_frame)
    show ?thesis by (rule full [OF eq ok' used r])
  qed
qed

definition free_sems :: "'a sems_scheme \<Rightarrow> int set" where
  "free_sems s = {i. is_sem i \<and> sem_creator (sem_row s i) = -1}"

lemma finite_free_sems: "finite (free_sems s)"
proof -
  have "free_sems s \<subseteq> {0..<int CONFIG_MAX_SEMAPHORES}" by (auto simp: free_sems_def is_sem_def)
  then show ?thesis by (rule finite_subset) simp
qed

lemma semaphore_create_free:
  assumes "sems_ok b s rs qs" "good_base b" "0 \<le> v" "Suc n \<le> card (free_sems s)"
  obtains i s' where "semaphore_create v s = Inr (Some i, s')" "sems_ok b s' rs qs" "n \<le> card (free_sems s')" "i \<in> free_sems s"
    "sem_row s' i = \<lparr>sem_slock = 0, sem_value = v, sem_creator = current_of s (this_cpu s)\<rparr>"
proof -
  have cur: "current_of s (this_cpu s) \<noteq> -1"
    using sched_okD(7) [OF sleepq_okD(1) [OF sems_okD(1) [OF assms(1)]]] by (simp add: is_tid_def)
  from assms(1-3) cur show ?thesis
  proof (cases rule: semaphore_create_cases)
    case (full s')
    then have "free_sems s = {}" by (auto simp: free_sems_def)
    with assms(4) show ?thesis by simp
  next
    case (row s' i)
    then have "free_sems s - {i} \<subseteq> free_sems s'" by (auto simp: free_sems_def)
    then have "card (free_sems s - {i}) \<le> card (free_sems s')" by (rule card_mono [OF finite_free_sems])
    moreover have "i \<in> free_sems s" using row by (simp add: free_sems_def)
    ultimately have "card (free_sems s) - 1 \<le> card (free_sems s')" by (simp add: card_Diff_singleton)
    with assms(4) row show ?thesis by (intro that) (auto simp: free_sems_def)
  qed
qed

subsection \<open>Interleavings\<close>

text \<open>
  The steps of a kernel whose threads create and start threads and use semaphores.  Each step is
  a section of the code that runs under its spinlocks with interrupts disabled; the processors
  take their steps in any order, and a processor may run the scheduler at any time, also between
  the two halves of \<^verbatim>\<open>semaphore_P\<close>.
\<close>

definition can_run :: "'a sched_scheme \<Rightarrow> bool" where
  "can_run s \<longleftrightarrow> (let t = current_of s (this_cpu s)
     in t \<noteq> 0 \<and> th_state (th s t) = THREAD_RUNNING \<and> th_sleeps_on (th s t) = 0)"

inductive kstep :: "symbols \<Rightarrow> uint32 \<Rightarrow> 'a sems_scheme \<Rightarrow> 'a sems_scheme \<Rightarrow> bool"
  for img :: symbols and b :: uint32
where
  cpu: "is_cpu c \<Longrightarrow> kstep img b s (s\<lparr>this_cpu := c\<rparr>)"
| status: "kstep img b s (s\<lparr>cp0_status := st\<rparr>)"
| schedule: "scheduler_schedule s = Inr s' \<Longrightarrow> kstep img b s s'"
| create: "thread_create img func arg s = Inr (t, s') \<Longrightarrow> kstep img b s s'"
| run: "is_tid t \<Longrightarrow> t \<noteq> 0 \<Longrightarrow> th_state (th s t) = THREAD_NONREADY \<Longrightarrow> thread_run t s = Inr s' \<Longrightarrow>
    kstep img b s s'"
| new_sem: "can_run s \<Longrightarrow> 0 \<le> v \<Longrightarrow> semaphore_create v s = Inr (r, s') \<Longrightarrow> kstep img b s s'"
| P: "can_run s \<Longrightarrow> is_sem i \<Longrightarrow> sem_creator (sem_row s i) \<noteq> -1 \<Longrightarrow>
    semaphore_P_section b i s = Inr (w, st, s') \<Longrightarrow> kstep img b s s'"
| V: "is_sem i \<Longrightarrow> sem_creator (sem_row s i) \<noteq> -1 \<Longrightarrow> semaphore_V b i s = Inr s' \<Longrightarrow> kstep img b s s'"

inductive_cases kstepE: "kstep img b s s'"

lemma P_section_keeps:
  assumes ok: "sems_ok b s rs qs" and b: "good_base b" and run: "can_run s"
    and i: "is_sem i" "sem_creator (sem_row s i) \<noteq> -1"
  shows "\<exists>w st s' rs' qs'. semaphore_P_section b i s = Inr (w, st, s') \<and> sems_ok b s' rs' qs'"
proof (cases "0 < sem_value (sem_row s i)")
  case True
  note S = sems_okD [OF ok] and eq = P_section_pass [OF ok i True]
  let ?e = "(sem_row s i)\<lparr>sem_value := sem_value (sem_row s i) - 1, sem_slock := 0\<rparr>"
  let ?s = "s\<lparr>cp0_status := 0xffff00fe AND cp0_status s, semaphore_table := (semaphore_table s)[nat i := ?e]\<rparr>"
  have sl: "sleepq_ok ?s rs qs" by (rule sleepq_ok_frame [OF S(1)]) simp_all
  have w: "waiters ?s qs r = (if r = sem_addr b i then [] else waiters s qs r)" for r
    using S(5) [OF i] True by (simp add: waiters_def th_def)
  have "sems_ok b ?s rs qs"
    by (rule sems_ok_step [OF ok b i(1) sl _ _ _ w, where e = ?e]) (use S(2,7,8) i(2) True in simp_all)
  with eq show ?thesis by blast
next
  case False
  show ?thesis
    by (rule P_section_wait [OF ok b i _ refl])
      (use False run in \<open>auto simp: can_run_def Let_def\<close>)
qed

lemma semaphore_V_keeps:
  assumes ok: "sems_ok b s rs qs" and b: "good_base b"
    and i: "is_sem i" "sem_creator (sem_row s i) \<noteq> -1"
  shows "\<exists>s' rs' qs'. semaphore_V b i s = Inr s' \<and> sems_ok b s' rs' qs' \<and>
    (\<forall>j. is_sem j \<longrightarrow> sem_creator (sem_row s' j) = sem_creator (sem_row s j))"
proof (cases "0 \<le> sem_value (sem_row s i)")
  case True
  have "is_sem j \<Longrightarrow> sem_creator ((semaphore_table s)[nat i := (sem_row s i)\<lparr>sem_value := v, sem_slock := l\<rparr>] ! nat j) = sem_creator (sem_row s j)" for j v l
    using sem_index [of j] sem_index [OF i(1)] sems_okD(3) [OF ok] by (auto simp: sem_row_def nth_list_update)
  with semaphore_V_free [OF ok b i True] show ?thesis by (auto intro!: exI)
next
  case False
  show ?thesis by (rule semaphore_V_wakes [OF ok b i]) (use False in auto)
qed

lemma kstep_keeps:
  assumes "kstep img b s s'" "good_base b" "sems_ok b s rs qs"
  shows "\<exists>rs' qs'. sems_ok b s' rs' qs'"
  using assms(1)
proof (cases rule: kstep.cases)
  case (cpu c)
  have "sched_ok s' rs" using cpu assms(3) by (simp add: sched_ok_cpu sems_ok_def sleepq_ok_def)
  then have "sleepq_ok s' rs qs" "waiters s' qs = waiters s qs"
    using sleepq_ok_others [OF sems_okD(1) [OF assms(3)], of s' rs] cpu by (simp_all add: th_def)
  then have "sems_ok b s' rs qs"
    by (rule sems_ok_others [OF assms(3)]) (use cpu sems_okD [OF assms(3)] in simp_all)
  then show ?thesis by blast
next
  case (status st)
  have "sleepq_ok s' rs qs" by (rule sleepq_ok_frame [OF sems_okD(1) [OF assms(3)]]) (simp_all add: status)
  then have "sems_ok b s' rs qs"
    by (rule sems_ok_others [OF assms(3)])
      (use status sems_okD [OF assms(3)] in \<open>simp_all add: waiters_sem_frame\<close>)
  then show ?thesis by blast
next
  case schedule
  then show ?thesis using schedule_sems_ok [OF assms(3)] by auto
next
  case (create func arg t)
  then show ?thesis using thread_create_sems_ok [OF assms(3), of img func arg] by auto
next
  case (run t)
  then show ?thesis using thread_run_sems_ok [OF assms(3)] by fastforce
next
  case (new_sem v r)
  then have "current_of s (this_cpu s) \<noteq> -1"
    using sched_okD(7) [OF sleepq_okD(1) [OF sems_okD(1) [OF assms(3)]]] by (simp add: is_tid_def)
  with assms(3,2) new_sem(2) show ?thesis
    by (cases rule: semaphore_create_cases) (use new_sem(3) in auto)
next
  case (P i w st)
  then show ?thesis using P_section_keeps [OF assms(3,2)] by fastforce
next
  case (V i)
  then show ?thesis using semaphore_V_keeps [OF assms(3,2)] by fastforce
qed

lemma ksteps_keep:
  assumes "(kstep img b)\<^sup>*\<^sup>* s s'" "good_base b" "sems_ok b s rs qs"
  shows "\<exists>rs' qs'. sems_ok b s' rs' qs'"
  using assms by (induction rule: rtranclp_induct) (auto dest: kstep_keeps)

subsection \<open>The life of a semaphore\<close>

definition live :: "'a sems_scheme \<Rightarrow> int \<Rightarrow> bool" where
  "live k i \<longleftrightarrow> is_sem i \<and> sem_creator (sem_row k i) \<noteq> -1"

lemma semaphore_V_live:
  assumes "sems_ok b s rs qs" "good_base b" "live s i"
  obtains s' rs' qs' where "semaphore_V b i s = Inr s'" "sems_ok b s' rs' qs'" "live s' = live s"
proof -
  from assms(3) have i: "is_sem i" "sem_creator (sem_row s i) \<noteq> -1" by (simp_all add: live_def)
  from semaphore_V_keeps [OF assms(1,2) i] obtain s' rs' qs' where V: "semaphore_V b i s = Inr s'" "sems_ok b s' rs' qs'"
    "\<forall>j. is_sem j \<longrightarrow> sem_creator (sem_row s' j) = sem_creator (sem_row s j)" by blast
  then have "live s' = live s" by (auto simp: live_def fun_eq_iff)
  with V(1,2) show ?thesis by (rule that)
qed

text \<open>
  A semaphore that signals one event: created with the value 0, raised, taken by the waiting thread and
  destroyed.
\<close>

lemma semaphore_destroy_ok:
  assumes ok: "sems_ok b s rs qs" and i: "live s i" "0 \<le> sem_value (sem_row s i)"
  obtains s' where "semaphore_destroy i s = Inr s'" "sems_ok b s' rs qs" "i \<in> free_sems s'"
    "\<And>j. is_sem j \<Longrightarrow> j \<noteq> i \<Longrightarrow> sem_row s' j = sem_row s j"
proof -
  note S = sems_okD [OF ok]
  have ii: "is_sem i" "sem_creator (sem_row s i) \<noteq> -1" using i(1) by (simp_all add: live_def)
  note ix = sem_index [OF ii(1)]
  let ?s = "s\<lparr>semaphore_table := (semaphore_table s)[nat i := (sem_row s i)\<lparr>sem_creator := -1\<rparr>]\<rparr>"
  have run: "semaphore_destroy i s = Inr ?s" using ii(1) S(3) by (simp add: semaphore_destroy_def sem_upd_ok)
  have row: "sem_row ?s j = (if j = i then (sem_row s i)\<lparr>sem_creator := -1\<rparr> else sem_row s j)" if "is_sem j" for j
    using ix sem_index [OF that] S(3) by (auto simp: sem_row_def nth_list_update)
  have "sleepq_ok ?s rs qs" by (rule sleepq_ok_frame [OF S(1)]) simp_all
  moreover have "waiters s qs (sem_addr b i) = []" using S(5) [OF ii] i(2) by simp
  ultimately have "sems_ok b ?s rs qs"
    using ok row by (auto simp: sems_ok_def waiters_sem_frame)
  moreover have "i \<in> free_sems ?s" using ii(1) row [OF ii(1)] by (simp add: free_sems_def)
  ultimately show ?thesis using row by (intro that [OF run]) simp_all
qed

lemma semaphore_cycle:
  assumes ok: "sems_ok b s rs qs" "good_base b" and i: "live s i" "sem_value (sem_row s i) = 0"
    and V: "semaphore_V b i s = Inr s1"
  obtains s2 s3 where "semaphore_P b i s1 = Inr (Returned s2)" "semaphore_destroy i s2 = Inr s3" "sems_ok b s3 rs qs" "i \<in> free_sems s3"
proof -
  note S = sems_okD [OF ok(1)]
  have ii: "is_sem i" "sem_creator (sem_row s i) \<noteq> -1" using i(1) by (simp_all add: live_def)
  note ix = sem_index [OF ii(1)]
  have v: "semaphore_V b i s = Inr (s\<lparr>semaphore_table := (semaphore_table s)[nat i := (sem_row s i)\<lparr>sem_value := 1, sem_slock := 0\<rparr>]\<rparr>)"
    "sems_ok b (s\<lparr>semaphore_table := (semaphore_table s)[nat i := (sem_row s i)\<lparr>sem_value := 1, sem_slock := 0\<rparr>]\<rparr>) rs qs"
    using semaphore_V_free [OF ok ii] i(2) by simp_all
  let ?s1 = "s\<lparr>semaphore_table := (semaphore_table s)[nat i := (sem_row s i)\<lparr>sem_value := 1, sem_slock := 0\<rparr>]\<rparr>"
  have s1: "s1 = ?s1" using V v(1) by simp
  have row1: "sem_row s1 i = (sem_row s i)\<lparr>sem_value := 1, sem_slock := 0\<rparr>" using ix S(3) by (simp add: s1)
  let ?s2 = "s1\<lparr>semaphore_table := (semaphore_table s1)[nat i := (sem_row s1 i)\<lparr>sem_value := 0, sem_slock := 0\<rparr>]\<rparr>"
  have P: "semaphore_P b i s1 = Inr (Returned ?s2)"
    using P_section_pass [OF v(2) [folded s1] ii(1)] row1 ii(2) by (simp add: semaphore_P_def interrupt_set_state_def)
  have len: "length (semaphore_table s1) = CONFIG_MAX_SEMAPHORES" using S(3) by (simp add: s1)
  have sl: "sleepq_ok ?s2 rs qs" by (rule sleepq_ok_frame [OF sems_okD(1) [OF v(2) [folded s1]]]) simp_all
  have w: "waiters ?s2 qs r = (if r = sem_addr b i then [] else waiters s1 qs r)" for r
    using sems_okD(5) [OF v(2) [folded s1] ii(1)] row1 ii(2) by (simp add: waiters_sem_frame)
  have ok2: "sems_ok b ?s2 rs qs"
    by (rule sems_ok_step [OF v(2) [folded s1] ok(2) ii(1) sl _ _ _ w, where e = "(sem_row s1 i)\<lparr>sem_value := 0, sem_slock := 0\<rparr>"]) (use sems_okD [OF v(2) [folded s1]] row1 ii(2) in simp_all)
  have "live ?s2 i" "sem_value (sem_row ?s2 i) = 0" using ii row1 ix len by (simp_all add: live_def)
  from semaphore_destroy_ok [OF ok2 this(1)] this(2) obtain s3 where "semaphore_destroy i ?s2 = Inr s3" "sems_ok b s3 rs qs" "i \<in> free_sems s3"
    by auto
  with P show ?thesis by (rule that)
qed

subsection \<open>The initial state\<close>

text \<open>
  The part of \<^verbatim>\<open>init\<close> (\<^verbatim>\<open>init/main.c\<close>) that sets up threads, sleep queues,
  semaphores and scheduler; the initialisations in between touch none of these tables.
\<close>

definition init_tables :: "symbols \<Rightarrow> 'a sems_scheme \<Rightarrow> 'a sems_scheme kres" where
  "init_tables img s =
     bindE (thread_table_init img s) (\<lambda>s.
     bindE (sleepq_init s) (\<lambda>s.
     bindE (semaphore_init s) (\<lambda>s.
     scheduler_init s)))"

text \<open>
  Before: the arrays have their sizes and the static variables their initial values; the rest is
  arbitrary.
\<close>

definition boot_state :: "'a sems_scheme \<Rightarrow> bool" where
  "boot_state s \<longleftrightarrow> length (thread_table s) = CONFIG_MAX_THREADS \<and>
     length (scheduler_current_thread s) = CONFIG_MAX_CPUS \<and>
     length (sleepq_hashtable s) = SLEEPQ_HASHTABLE_SIZE \<and>
     length (semaphore_table s) = CONFIG_MAX_SEMAPHORES \<and>
     ready_head s = -1 \<and> ready_tail s = -1 \<and> next_tid s = 0 \<and> semaphore_next s = 0 \<and>
     this_cpu s = 0"

lemma loop_rows:
  assumes "\<And>j s'. j < length (get s) \<Longrightarrow> length (get s') = length (get s) \<Longrightarrow> set_rows s' (get s') = s' \<Longrightarrow>
      f j s' = Inr (set_rows s' ((get s')[j := g j (get s' ! j)]))"
    and get_set: "\<And>s' xs. get (set_rows s' xs) = xs"
    and set_set: "\<And>s' xs ys. set_rows (set_rows s' xs) ys = set_rows s' ys"
    and set_get: "set_rows s (get s) = s"
  shows "for_rangeE 0 (length (get s)) f s =
    Inr (set_rows s (map (\<lambda>j. g j (get s ! j)) [0..<length (get s)]))"
proof -
  let ?n = "length (get s)"
  let ?I = "\<lambda>k s'. \<exists>xs. s' = set_rows s xs \<and> length xs = ?n \<and>
    (\<forall>j < ?n. xs ! j = (if j < k then g j (get s ! j) else get s ! j))"
  have "\<exists>s'. for_rangeE 0 ?n f s = Inr s' \<and> ?I ?n s'"
  proof (rule for_rangeE_inv [where I = ?I])
    show "?I 0 s" using set_get by (intro exI [of _ "get s"]) simp
    fix j s' assume j: "j < ?n" and "?I j s'"
    then obtain xs where xs: "s' = set_rows s xs" "length xs = ?n"
      "\<forall>i < ?n. xs ! i = (if i < j then g i (get s ! i) else get s ! i)" by blast
    have "f j s' = Inr (set_rows s (xs[j := g j (xs ! j)]))"
      using assms(1) [OF j, of s'] xs j by (simp add: get_set set_set)
    moreover have "?I (Suc j) (set_rows s (xs[j := g j (xs ! j)]))"
      using xs j by (intro exI [of _ "xs[j := g j (xs ! j)]"]) (auto simp: nth_list_update less_Suc_eq)
    ultimately show "\<exists>s''. f j s' = Inr s'' \<and> ?I (Suc j) s''" by blast
  qed simp
  then obtain xs where xs: "for_rangeE 0 ?n f s = Inr (set_rows s xs)" "length xs = ?n"
    "\<forall>j < ?n. xs ! j = g j (get s ! j)" by auto
  then have "xs = map (\<lambda>j. g j (get s ! j)) [0..<?n]" by (intro nth_equalityI) simp_all
  with xs(1) show ?thesis by simp
qed

definition initial_row :: "symbols \<Rightarrow> int \<Rightarrow> thread_table_t" where
  "initial_row img t = \<lparr>th_context = stack_context img t, th_user_context = 0,
     th_state = (if t = 0 then THREAD_READY else THREAD_FREE), th_sleeps_on = 0, th_pagetable = 0,
     th_process_id = -1, th_next = -1\<rparr>"

lemma thread_table_init_eq:
  assumes "length (thread_table s) = CONFIG_MAX_THREADS"
  shows "\<exists>c. thread_table_init img s = Inr (s\<lparr>thread_table_slock := 0,
    thread_table := map (\<lambda>i. initial_row img (int i)) [0..<CONFIG_MAX_THREADS], context_at := c\<rparr>)"
proof -
  let ?f = "\<lambda>i e. e\<lparr>th_context := stack_context img (int i), th_user_context := 0,
          th_state := THREAD_FREE, th_sleeps_on := 0, th_pagetable := 0, th_process_id := -1,
          th_next := -1\<rparr>"
  let ?s = "s\<lparr>thread_table_slock := 0\<rparr>"
  let ?tt = "map (\<lambda>j. ?f j (thread_table s ! j)) [0..<CONFIG_MAX_THREADS]"
  have loop: "for_rangeE 0 (length (thread_table ?s)) (\<lambda>i. tt_upd (int i) (?f i)) ?s =
      Inr (?s\<lparr>thread_table := map (\<lambda>j. ?f j (thread_table ?s ! j)) [0..<length (thread_table ?s)]\<rparr>)"
    by (rule loop_rows [where get = thread_table and set_rows = "\<lambda>s tt. s\<lparr>thread_table := tt\<rparr>"])
      (simp_all add: tt_upd_ok)
  have rows: "?tt[0 := (?tt ! 0)\<lparr>th_state := THREAD_READY\<rparr>] =
      map (\<lambda>i. initial_row img (int i)) [0..<CONFIG_MAX_THREADS]"
    by (intro nth_equalityI) (auto simp: nth_list_update initial_row_def CONFIG_MAX_THREADS_def)
  define tt where "tt = ?tt"
  have tt: "0 < length tt" "tt[0 := (tt ! 0)\<lparr>th_state := THREAD_READY\<rparr>] =
      map (\<lambda>i. initial_row img (int i)) [0..<CONFIG_MAX_THREADS]"
    using rows by (simp_all add: tt_def CONFIG_MAX_THREADS_def)
  have "for_rangeE 0 CONFIG_MAX_THREADS (\<lambda>i. tt_upd (int i) (?f i)) ?s = Inr (?s\<lparr>thread_table := tt\<rparr>)"
    using loop assms by (simp add: tt_def)
  then show ?thesis
    using tt by (simp add: thread_table_init_def tt_get_ok tt_upd_ok context_upd_def Let_def
        IDLE_THREAD_TID_def del: upt_Suc) (rule exI, rule refl)
qed

lemma sleepq_init_eq:
  "length (sleepq_hashtable s) = SLEEPQ_HASHTABLE_SIZE \<Longrightarrow> sleepq_init s =
   Inr (s\<lparr>sleepq_hashtable := map (\<lambda>j. -1) [0..<SLEEPQ_HASHTABLE_SIZE], sleepq_slock := 0\<rparr>)"
  using loop_rows [where get = "\<lambda>xs. xs" and set_rows = "\<lambda>s xs. xs" and s = "sleepq_hashtable s"
      and f = "\<lambda>i ht. wr ht (int i) (-1)" and g = "\<lambda>j x. -1"]
  by (simp add: sleepq_init_def)

lemma scheduler_init_eq:
  "length (scheduler_current_thread s) = CONFIG_MAX_CPUS \<Longrightarrow> scheduler_init s =
   Inr (s\<lparr>scheduler_current_thread := map (\<lambda>j. 0) [0..<CONFIG_MAX_CPUS]\<rparr>)"
  using loop_rows [where get = scheduler_current_thread and g = "\<lambda>j x. 0" and s = s
      and set_rows = "\<lambda>s c. s\<lparr>scheduler_current_thread := c\<rparr>"
      and f = "\<lambda>i s. bindE (wr (scheduler_current_thread s) (int i) 0) (\<lambda>c.
        Inr (s\<lparr>scheduler_current_thread := c\<rparr>))"]
  by (simp add: scheduler_init_def)

lemma semaphore_init_eq:
  assumes "length (semaphore_table s) = CONFIG_MAX_SEMAPHORES"
  shows "semaphore_init s = Inr (s\<lparr>semaphore_table_slock := 0, semaphore_table :=
    map (\<lambda>j. (semaphore_table s ! j)\<lparr>sem_creator := -1\<rparr>) [0..<CONFIG_MAX_SEMAPHORES]\<rparr>)"
proof -
  let ?s = "s\<lparr>semaphore_table_slock := 0\<rparr>"
  have "for_rangeE 0 (length (semaphore_table ?s)) (\<lambda>i. sem_upd (int i) (\<lambda>e. e\<lparr>sem_creator := -1\<rparr>)) ?s =
    Inr (?s\<lparr>semaphore_table := map (\<lambda>j. (semaphore_table ?s ! j)\<lparr>sem_creator := -1\<rparr>)
      [0..<length (semaphore_table ?s)]\<rparr>)"
    by (rule loop_rows [where get = semaphore_table and set_rows = "\<lambda>s t. s\<lparr>semaphore_table := t\<rparr>"
        and g = "\<lambda>j e. e\<lparr>sem_creator := -1\<rparr>"]) (simp_all add: sem_upd_def)
  then show ?thesis using assms by (simp add: semaphore_init_def)
qed

lemma initial_sched_ok:
  assumes tt: "thread_table s = map (\<lambda>i. initial_row img (int i)) [0..<CONFIG_MAX_THREADS]"
    and cur: "scheduler_current_thread s = map (\<lambda>j. 0) [0..<CONFIG_MAX_CPUS]"
    and st: "ready_head s = -1" "ready_tail s = -1" "next_tid s = 0" "this_cpu s = 0" "thread_table_slock s = 0"
  shows "sched_ok s []"
proof -
  have row: "th s t = initial_row img t" if "is_tid t" for t
    using that tt by (simp add: th_def is_tid_def nat_less_iff)
  have c: "current_of s c = 0" if "is_cpu c" for c
    using that cur by (simp add: current_of_def is_cpu_def nat_less_iff)
  have "sched_shape s" using assms by (simp add: sched_shape_def is_cpu_def CONFIG_MAX_CPUS_def CONFIG_MAX_THREADS_def)
  moreover have "states_ok s" unfolding states_ok_def using row by (simp add: initial_row_def)
  moreover have "currents_ok s" unfolding currents_ok_def
    using row c by (auto simp: initial_row_def is_tid_def CONFIG_MAX_THREADS_def)
  moreover have "ready_ok s []" unfolding ready_ok_def ready_rep_def
    using row st by (simp add: initial_row_def)
  ultimately show ?thesis by (simp add: sched_ok_def)
qed

lemma init_tables_ok:
  assumes "boot_state s"
  shows "\<exists>s'. init_tables img s = Inr s' \<and> sems_ok b s' [] (\<lambda>h. [])"
proof -
  have L: "length (thread_table s) = CONFIG_MAX_THREADS"
    "length (scheduler_current_thread s) = CONFIG_MAX_CPUS"
    "length (sleepq_hashtable s) = SLEEPQ_HASHTABLE_SIZE"
    "length (semaphore_table s) = CONFIG_MAX_SEMAPHORES"
    using assms by (simp_all add: boot_state_def)
  obtain c where tti: "thread_table_init img s = Inr (s\<lparr>thread_table_slock := 0,
      thread_table := map (\<lambda>i. initial_row img (int i)) [0..<CONFIG_MAX_THREADS], context_at := c\<rparr>)"
    using thread_table_init_eq [OF L(1)] by blast
  then obtain s' where s': "init_tables img s = Inr s'"
    "thread_table s' = map (\<lambda>i. initial_row img (int i)) [0..<CONFIG_MAX_THREADS]"
    "scheduler_current_thread s' = map (\<lambda>j. 0) [0..<CONFIG_MAX_CPUS]"
    "ready_head s' = ready_head s" "ready_tail s' = ready_tail s" "next_tid s' = next_tid s"
    "this_cpu s' = this_cpu s" "thread_table_slock s' = 0" "sleepq_slock s' = 0"
    "sleepq_hashtable s' = map (\<lambda>j. -1) [0..<SLEEPQ_HASHTABLE_SIZE]"
    "semaphore_table_slock s' = 0" "semaphore_next s' = semaphore_next s"
    "semaphore_table s' = map (\<lambda>j. (semaphore_table s ! j)\<lparr>sem_creator := -1\<rparr>) [0..<CONFIG_MAX_SEMAPHORES]"
    using L by (simp add: init_tables_def sleepq_init_eq semaphore_init_eq scheduler_init_eq)
  have sch: "sched_ok s' []"
    by (rule initial_sched_ok [OF s'(2,3)]) (use s' assms in \<open>simp_all add: boot_state_def\<close>)
  have row: "th s' t = initial_row img t" if "is_tid t" for t
    using that s'(2) by (simp add: th_def is_tid_def nat_less_iff)
  have "queue_rep (thread_table s') (sleepq_hashtable s' ! h) h []" if "h < SLEEPQ_HASHTABLE_SIZE" for h
    using that s'(10) row by (simp add: queue_rep_def waits_in_def th_def initial_row_def)
  then have "sleepq_ok s' [] (\<lambda>h. [])" using sch s'(10) by (simp add: sleepq_ok_def)
  moreover have "sem_creator (sem_row s' i) = -1" if "is_sem i" for i
    using that s'(13) by (simp add: sem_row_def is_sem_def nat_less_iff)
  ultimately have "sems_ok b s' [] (\<lambda>h. [])"
    unfolding sems_ok_def using s' assms
    by (simp add: waiters_def boot_state_def is_sem_def CONFIG_MAX_SEMAPHORES_def)
  with s'(1) show ?thesis by blast
qed

subsection \<open>A sample kernel\<close>

text \<open>
  A state the properties below are applied to: thread 1 runs on processor 0, thread 2 is ready,
  thread 3 sleeps on semaphore 0, whose value is -1; semaphore 1 has the value 1.
\<close>

definition sample_base :: uint32 where "sample_base = 0x80010000"

definition sample_row :: "int \<Rightarrow> thread_table_t" where
  "sample_row t = \<lparr>th_context = 0, th_user_context = 0,
     th_state = (if t = 0 \<or> t = 2 then THREAD_READY else if t = 1 then THREAD_RUNNING
       else if t = 3 then THREAD_SLEEPING else THREAD_FREE),
     th_sleeps_on = (if t = 3 then sample_base else 0), th_pagetable = 0, th_process_id = -1, th_next = -1\<rparr>"

definition sample_sem :: "nat \<Rightarrow> semaphore_t" where
  "sample_sem i = \<lparr>sem_slock = 0, sem_value = (if i = 0 then -1 else if i = 1 then 1 else 0),
     sem_creator = (if i < 2 then 1 else -1)\<rparr>"

definition sample_img :: symbols where
  "sample_img = \<lparr>sym_thread_stack_areas = 0x80020000, sym_idle_thread_wait_loop = 0x80003000,
     sym_thread_finish = 0x80004000\<rparr>"

definition sample_kernel :: sems where
  "sample_kernel = \<lparr>cp0_status = 0xff01, cp0_cause = 0, this_cpu = 0,
     free_area_start = 0xffffffff, memory_end = 0x80004000,
     pagepool_free_pages = [3], pagepool_num_pages = 4, pagepool_num_free_pages = 2,
     pagepool_static_end = 2, pagepool_slock = 0,
     pagetable_at = (\<lambda>a. sample_table), tlb = replicate 16 blank_entry, cp0_asid = 0,
     thread_table_slock = 0, thread_table = map (\<lambda>i. sample_row (int i)) [0..<CONFIG_MAX_THREADS],
     next_tid = 4, context_at = (\<lambda>a. zero_context), scheduler_current_thread = [1, 0, 0, 0],
     ready_head = 2, ready_tail = 2, rand5_seed = 0, cp0_count = 0, cp0_compare = 0,
     sleepq_slock = 0,
     sleepq_hashtable = (replicate SLEEPQ_HASHTABLE_SIZE (-1))[SLEEPQ_HASH sample_base := 3],
     semaphore_table = map sample_sem [0..<CONFIG_MAX_SEMAPHORES], semaphore_table_slock = 0,
     semaphore_next = 2\<rparr>"

definition sample_queues :: "nat \<Rightarrow> int list" where
  "sample_queues = (\<lambda>h. [])(SLEEPQ_HASH sample_base := [3])"

lemma sample_kernel_fields [simp]:
  "thread_table sample_kernel = map (\<lambda>i. sample_row (int i)) [0..<CONFIG_MAX_THREADS]"
  "thread_table_slock sample_kernel = 0" "next_tid sample_kernel = 4"
  "scheduler_current_thread sample_kernel = [1, 0, 0, 0]"
  "ready_head sample_kernel = 2" "ready_tail sample_kernel = 2" "this_cpu sample_kernel = 0"
  "sleepq_slock sample_kernel = 0"
  "sleepq_hashtable sample_kernel = (replicate SLEEPQ_HASHTABLE_SIZE (-1))[SLEEPQ_HASH sample_base := 3]"
  "semaphore_table sample_kernel = map sample_sem [0..<CONFIG_MAX_SEMAPHORES]"
  "semaphore_table_slock sample_kernel = 0" "semaphore_next sample_kernel = 2"
  by (simp_all add: sample_kernel_def)

lemma sample_kernel_row: "is_tid t \<Longrightarrow> th sample_kernel t = sample_row t"
  by (simp add: th_def is_tid_def nat_less_iff)

lemma sample_kernel_cpu:
  assumes "is_cpu c"
  shows "current_of sample_kernel c = (if c = 0 then 1 else 0)"
proof -
  have "c = 0 \<or> c = 1 \<or> c = 2 \<or> c = 3" using assms by (auto simp: is_cpu_def CONFIG_MAX_CPUS_def)
  then show ?thesis by (auto simp: current_of_def)
qed

lemma sample_kernel_sched_ok: "sched_ok sample_kernel [2]"
proof -
  have "sched_shape sample_kernel"
    by (simp add: sched_shape_def is_cpu_def CONFIG_MAX_CPUS_def CONFIG_MAX_THREADS_def)
  moreover have "states_ok sample_kernel"
    unfolding states_ok_def by (simp add: sample_kernel_row sample_row_def sample_base_def)
  moreover have "currents_ok sample_kernel"
    unfolding currents_ok_def
    using sample_kernel_row sample_kernel_cpu
    by (auto simp: sample_row_def is_tid_def is_cpu_def CONFIG_MAX_CPUS_def CONFIG_MAX_THREADS_def)
  moreover have "ready_ok sample_kernel [2]"
    unfolding ready_ok_def ready_rep_def
    by (simp add: sample_kernel_row sample_row_def next_of_def CONFIG_MAX_THREADS_def)
  ultimately show ?thesis by (simp add: sched_ok_def)
qed

lemma sample_good_base: "good_base sample_base" "sem_addr sample_base 0 = sample_base"
  by (simp_all add: good_base_def sample_base_def CONFIG_MAX_SEMAPHORES_def sem_addr_def)

lemma sample_kernel_waiters:
  "waiters sample_kernel sample_queues r = (if r = sample_base then [3] else [])"
  by (auto simp: waiters_def sample_queues_def sample_kernel_row is_tid_def CONFIG_MAX_THREADS_def
      sample_row_def)

lemma sample_kernel_sem: "is_sem i \<Longrightarrow> sem_row sample_kernel i = sample_sem (nat i)"
  by (simp add: sem_row_def is_sem_def nat_less_iff)

lemma sample_live: "live sample_kernel 1"
  by (simp add: live_def sample_kernel_sem sample_sem_def is_sem_def CONFIG_MAX_SEMAPHORES_def)

lemma sample_kernel_ok: "sems_ok sample_base sample_kernel [2] sample_queues"
proof -
  have "queue_rep (thread_table sample_kernel) (sleepq_hashtable sample_kernel ! h) h (sample_queues h)"
    if "h < SLEEPQ_HASHTABLE_SIZE" for h
  proof -
    have rows: "thread_table sample_kernel ! nat t = sample_row t" if "is_tid t" for t
      using sample_kernel_row [OF that] by (simp only: th_def)
    have "waits_in (sample_row t) h \<longleftrightarrow> t = 3 \<and> h = SLEEPQ_HASH sample_base" for t
      by (auto simp: waits_in_def sample_row_def sample_base_def)
    moreover have t3: "is_tid 3" by (simp add: is_tid_def CONFIG_MAX_THREADS_def)
    moreover have "next_of (thread_table sample_kernel) 3 = -1"
      unfolding next_of_def rows [OF t3] by (simp add: sample_row_def)
    ultimately show ?thesis
      using that rows by (cases "h = SLEEPQ_HASH sample_base")
        (simp_all add: queue_rep_def sample_queues_def del: sample_kernel_fields(1))
  qed
  then have "sleepq_ok sample_kernel [2] sample_queues"
    using sample_kernel_sched_ok by (simp add: sleepq_ok_def)
  moreover have "sem_addr sample_base i = sample_base \<longleftrightarrow> i = 0" if "is_sem i" for i
    using sem_addr_inj(1) [OF sample_good_base(1) that, of 0] sample_good_base(2)
    by (simp add: is_sem_def CONFIG_MAX_SEMAPHORES_def)
  ultimately show ?thesis
    unfolding sems_ok_def
    by (auto simp: sample_kernel_sem sample_kernel_waiters sample_sem_def is_sem_def
        CONFIG_MAX_SEMAPHORES_def)
qed

subsection \<open>Properties\<close>

text \<open>
  C4: One call of the scheduler is one turn of a round robin: the thread that was first in the
  ready list runs next (the idle thread if the list is empty), the previous thread goes to the end
  of the list unless it is the idle thread, dying or waiting, the row of a dying thread is freed,
  and the other processors keep their threads.
\<close>

theorem scheduler_round_robin:
  assumes "sched_ok s rs"
  shows "\<exists>s'. scheduler_schedule s = Inr s' \<and> sched_ok s' (tl (requeue s rs)) \<and>
    current_of s' (this_cpu s) = pick (requeue s rs) \<and>
    (\<forall>c. is_cpu c \<and> c \<noteq> this_cpu s \<longrightarrow> current_of s' c = current_of s c) \<and>
    (\<forall>t. is_tid t \<longrightarrow> th_state (th s' t) =
      (if t = pick (requeue s rs) then THREAD_RUNNING
       else if t = current_of s (this_cpu s) then parked_state (th s t) else th_state (th s t)))"
proof (rule scheduler_schedule_ok [OF assms refl refl])
  fix tt h l r k
  let ?s' = "sched_result s (pick (requeue s rs)) tt h l r k"
  assume a: "scheduler_schedule s = Inr ?s'" "sched_ok ?s' (tl (requeue s rs))"
    "current_of ?s' (this_cpu s) = pick (requeue s rs)"
    "thread_step s tt (set (requeue s rs)) ((\<lambda>u. th_state (th s u))
       (current_of s (this_cpu s) := parked_state (th s (current_of s (this_cpu s))),
        pick (requeue s rs) := THREAD_RUNNING))"
  have "current_of ?s' c = current_of s c" if "is_cpu c" "c \<noteq> this_cpu s" for c
    using that sched_okD(6) [OF assms] by (auto simp: current_of_def is_cpu_def nth_list_update_neq)
  moreover have "th_state (th ?s' t) =
      (if t = pick (requeue s rs) then THREAD_RUNNING
       else if t = current_of s (this_cpu s) then parked_state (th s t) else th_state (th s t))"
    if "is_tid t" for t
    using a(4) that by (simp add: thread_step_def th_def)
  ultimately show ?thesis using a(1-3) by blast
qed

theorem scheduler_round_robin_witness:
  "\<exists>s'. scheduler_schedule sample_kernel = Inr s' \<and> current_of s' 0 = 2 \<and> sched_ok s' [1]"
proof -
  have "is_tid 1" by (simp add: is_tid_def CONFIG_MAX_THREADS_def)
  then have "requeue sample_kernel [2] = [2, 1]"
    using sample_kernel_cpu [of 0] by (simp add: requeue_def sample_kernel_row sample_row_def is_cpu_def
        CONFIG_MAX_CPUS_def)
  then show ?thesis
    using scheduler_round_robin [OF sample_kernel_sched_ok] by (auto simp: pick_def)
qed

text \<open>
  C5: No ready thread starves: the thread at position \<open>k\<close> of the ready list is the current thread
  of the processor that makes the \<open>k + 1\<close>st scheduling decision from now, whatever processors
  make the decisions.
\<close>

theorem ready_thread_runs:
  assumes "sched_ok s rs" "\<forall>c \<in> set cs. is_cpu c" "length cs = Suc k" "k < length rs"
  shows "\<exists>s' rs'. schedule_on cs s = Inr s' \<and> sched_ok s' rs' \<and> current_of s' (last cs) = rs ! k"
  by (rule schedule_on_ready [OF assms])

theorem ready_thread_runs_witness:
  "\<exists>s'. schedule_on [3] sample_kernel = Inr s' \<and> current_of s' 3 = 2"
  using ready_thread_runs [OF sample_kernel_sched_ok, of "[3]" 0]
  by (auto simp: is_cpu_def CONFIG_MAX_CPUS_def)

text \<open>
  \<^verbatim>\<open>thread_create\<close> takes a free row, sets it up as a thread that is not ready yet and whose
  context starts the given function with the given argument and returns to
  \<^verbatim>\<open>thread_finish\<close>; when no row but the idle thread's is free it returns -1 and changes
  nothing.
\<close>

theorem thread_create_spec:
  assumes "sched_ok s rs"
  shows "(\<exists>t s'. thread_create img func arg s = Inr (t, s') \<and> sched_ok s' rs \<and> is_tid t \<and> t \<noteq> 0 \<and>
      th_state (th s t) = THREAD_FREE \<and> th s' t = new_thread (stack_context img t) \<and>
      (\<forall>u. is_tid u \<and> u \<noteq> t \<longrightarrow> th s' u = th s u) \<and>
      reg_pc (context_at s' (th_context (th s' t))) = func \<and>
      cpu_regs (context_at s' (th_context (th s' t))) ! MIPS_REGISTER_A0 = arg \<and>
      cpu_regs (context_at s' (th_context (th s' t))) ! MIPS_REGISTER_RA = sym_thread_finish img) \<or>
    (thread_create img func arg s = Inr (-1, s) \<and>
      (\<forall>t. is_tid t \<and> t \<noteq> 0 \<longrightarrow> th_state (th s t) \<noteq> THREAD_FREE))"
  using assms
proof (cases rule: thread_create_cases [of s rs img func arg])
  case full
  then show ?thesis by blast
next
  case (slot t s')
  have r: "th s' u = (if u = t then new_thread (stack_context img t) else th s u)" if "is_tid u" for u
    using th_update [OF sched_okD(1) [OF assms] slot(2) that] slot(5) by (simp add: th_def)
  then have new: "th s' t = new_thread (stack_context img t)" using slot(2) by simp
  have c: "context_at s' (th_context (new_thread (stack_context img t))) =
      new_context img (stack_context img t) func arg"
    using slot(5) by (simp add: new_thread_def)
  show ?thesis
    using slot(1-4,6) r new c
    by (intro disjI1 exI [of _ t] exI [of _ s'])
      (simp add: new_context_def MIPS_REGISTER_A0_def MIPS_REGISTER_RA_def MIPS_REGISTER_SP_def)
qed

theorem thread_create_spec_witness:
  "\<exists>t s'. thread_create sample_img 0x80005000 42 sample_kernel = Inr (t, s') \<and> is_tid t \<and> t \<noteq> 0 \<and>
     reg_pc (context_at s' (th_context (th s' t))) = 0x80005000"
proof -
  have "is_tid 4" "th_state (th sample_kernel 4) = THREAD_FREE"
    by (simp_all add: sample_kernel_row is_tid_def CONFIG_MAX_THREADS_def sample_row_def)
  then show ?thesis
    using thread_create_spec [OF sample_kernel_sched_ok, of sample_img "0x80005000" 42] by fastforce
qed


lemma sample_can_run: "can_run sample_kernel"
  using sample_kernel_cpu [of 0]
  by (simp add: can_run_def is_cpu_def CONFIG_MAX_CPUS_def sample_kernel_row is_tid_def
      CONFIG_MAX_THREADS_def sample_row_def)

lemma sample_sem_0: "is_sem 0" "sem_row sample_kernel 0 = sample_sem 0"
  by (simp_all add: sample_kernel_sem is_sem_def CONFIG_MAX_SEMAPHORES_def)








text \<open>
  \<^verbatim>\<open>semaphore_create\<close> returns a row that was not in use, initialised with the given value
  and recording the calling thread, or it fails, and then all semaphores are in use.
\<close>

theorem semaphore_create_spec:
  assumes "sems_ok b s rs qs" "good_base b" "0 \<le> v"
  shows "\<exists>s'. sems_ok b s' rs qs \<and>
    (semaphore_create v s = Inr (None, s') \<and> (\<forall>i. is_sem i \<longrightarrow> sem_creator (sem_row s i) \<noteq> -1) \<or>
     (\<exists>i. semaphore_create v s = Inr (Some i, s') \<and> is_sem i \<and> sem_creator (sem_row s i) = -1 \<and>
        sem_row s' i = \<lparr>sem_slock = 0, sem_value = v, sem_creator = current_of s (this_cpu s)\<rparr>))"
proof -
  have "current_of s (this_cpu s) \<noteq> -1"
    using sched_okD(7) [OF sleepq_okD(1) [OF sems_okD(1) [OF assms(1)]]] by (simp add: is_tid_def)
  with assms show ?thesis
    by (cases rule: semaphore_create_cases) blast+
qed

theorem semaphore_create_spec_witness:
  "\<exists>s' i. semaphore_create 7 sample_kernel = Inr (Some i, s') \<and> sem_value (sem_row s' i) = 7"
proof -
  have "is_sem 5" "sem_creator (sem_row sample_kernel 5) = -1"
    by (simp_all add: sample_kernel_sem is_sem_def CONFIG_MAX_SEMAPHORES_def sample_sem_def)
  then show ?thesis
    using semaphore_create_spec [OF sample_kernel_ok sample_good_base(1), of 7] by auto
qed

end
