(* ===== verification/Interrupt.thy ===== *)
theory Interrupt
  imports Semaphore
begin

text \<open>
  Interrupt handling, \<^verbatim>\<open>kernel/interrupt.c\<close>: the stacks and vectors the processors use, the table
  of handlers the drivers register, and the dispatch of an interrupt.

  A handler is a function pointer.  The parameter \<open>call\<close> is the effect of calling the function at an
  address with a device, and \<open>vector\<close> are the instructions of \<^verbatim>\<open>_cswitch_vector_code\<close>.
\<close>

definition CONFIG_MAX_DEVICES :: nat where "CONFIG_MAX_DEVICES = 128"
definition INTERRUPT_VECTOR_LENGTH :: nat where "INTERRUPT_VECTOR_LENGTH = 8"

record interrupt_entry_t =
  ie_device :: uint32
  ie_irq :: uint32
  ie_handler :: uint32

record intr = sems +
  interrupt_stacks :: "uint32 list"
  interrupt_handlers :: "interrupt_entry_t list"
  iv_area1 :: "uint32 list"
  iv_area2 :: "uint32 list"
  iv_area3 :: "uint32 list"

subsection \<open>Operations\<close>

definition alloc_stack :: "nat \<Rightarrow> 'a intr_scheme \<Rightarrow> 'a intr_scheme kres" where
  "alloc_stack i s =
     bindE (kmalloc (uint PAGE_SIZE) s) (\<lambda>(ret, s).
     if ret = 0 then KERNEL_PANIC ''Unable to allocate interrupt stacks''
     else bindE (wr (interrupt_stacks s) (int i) (ret + PAGE_SIZE - 4)) (\<lambda>st. Inr (s\<lparr>interrupt_stacks := st\<rparr>)))"

definition copy_vector :: "uint32 list \<Rightarrow> nat \<Rightarrow> 'a intr_scheme \<Rightarrow> 'a intr_scheme kres" where
  "copy_vector vector i s =
     bindE (rd vector (int i)) (\<lambda>w.
     bindE (wr (iv_area1 s) (int i) w) (\<lambda>a1.
     bindE (wr (iv_area2 s) (int i) w) (\<lambda>a2.
     bindE (wr (iv_area3 s) (int i) w) (\<lambda>a3.
     Inr (s\<lparr>iv_area1 := a1, iv_area2 := a2, iv_area3 := a3\<rparr>)))))"

definition clear_handler :: "nat \<Rightarrow> 'a intr_scheme \<Rightarrow> 'a intr_scheme kres" where
  "clear_handler i s =
     bindE (wr (interrupt_handlers s) (int i) \<lparr>ie_device = 0, ie_irq = 0, ie_handler = 0\<rparr>) (\<lambda>h.
     Inr (s\<lparr>interrupt_handlers := h\<rparr>))"

definition interrupt_init :: "uint32 list \<Rightarrow> int \<Rightarrow> 'a intr_scheme \<Rightarrow> 'a intr_scheme kres" where
  "interrupt_init vector num_cpus s =
     (if num_cpus < 1 \<or> num_cpus > int CONFIG_MAX_CPUS then KERNEL_PANIC ''Too few or many CPUs found''
      else
        bindE (for_rangeE 0 (nat num_cpus) alloc_stack s) (\<lambda>s.
        bindE (for_rangeE 0 INTERRUPT_VECTOR_LENGTH (copy_vector vector) s)
          (for_rangeE 0 CONFIG_MAX_DEVICES clear_handler)))"

text \<open>
  The loop that looks for a free row reads the row before it compares the index with the size of
  the table.
\<close>

definition interrupt_register :: "uint32 \<Rightarrow> uint32 \<Rightarrow> uint32 \<Rightarrow> 'a intr_scheme \<Rightarrow> 'a intr_scheme kres" where
  "interrupt_register irq handler device s =
     (if irq AND NOT INTERRUPT_MASK_ALL \<noteq> 0 then KERNEL_PANIC ''interrupt_register''
      else
        bindE (find_from (\<lambda>e. ie_device e = 0) (interrupt_handlers s) 0 (CONFIG_MAX_DEVICES + 1)) (\<lambda>i.
        if i \<ge> CONFIG_MAX_DEVICES then KERNEL_PANIC ''Interrupt handler table is full''
        else bindE (wr (interrupt_handlers s) (int i) \<lparr>ie_device = device, ie_irq = irq, ie_handler = handler\<rparr>) (\<lambda>h.
             Inr (s\<lparr>interrupt_handlers := h\<rparr>))))"

function call_handlers ::
  "(uint32 \<Rightarrow> uint32 \<Rightarrow> 'a intr_scheme \<Rightarrow> 'a intr_scheme kres) \<Rightarrow> uint32 \<Rightarrow> nat \<Rightarrow> 'a intr_scheme \<Rightarrow> 'a intr_scheme kres"
where
  "call_handlers call cause i s =
     (if i < CONFIG_MAX_DEVICES then
        bindE (rd (interrupt_handlers s) (int i)) (\<lambda>e.
        if ie_device e = 0 then Inr s
        else bindE (if cause AND ie_irq e \<noteq> 0 then call (ie_handler e) (ie_device e) s else Inr s)
               (call_handlers call cause (Suc i)))
      else Inr s)"
  by pat_completeness auto
termination
  by (relation "measure (\<lambda>(call, cause, i, s). CONFIG_MAX_DEVICES - i)") auto

declare call_handlers.simps [simp del]

text \<open>The part of \<^verbatim>\<open>interrupt_handle\<close> that gives the processor to the next thread.\<close>

definition reschedule :: "'a sched_scheme \<Rightarrow> 'a sched_scheme kres" where
  "reschedule s =
     bindE (scheduler_schedule s) (\<lambda>s.
     bindE (thread_get_current_thread_entry s) (\<lambda>(e, s).
     tlb_fill (th_pagetable e) s))"

definition interrupt_handle ::
  "(uint32 \<Rightarrow> uint32 \<Rightarrow> 'a intr_scheme \<Rightarrow> 'a intr_scheme kres) \<Rightarrow> uint32 \<Rightarrow> 'a intr_scheme \<Rightarrow> 'a intr_scheme kres"
where
  "interrupt_handle call cause s =
     (let s = (if cause AND INTERRUPT_CAUSE_SOFTWARE_0 \<noteq> 0 then interrupt_clear_sw0 s else s);
          cpu = this_cpu s
      in if cause AND 0x0000007c \<noteq> 0 then KERNEL_PANIC ''Exception in interrupt_handle''
         else
           bindE (call_handlers call cause 0 s) (\<lambda>s.
           bindE (if cause AND (INTERRUPT_CAUSE_SOFTWARE_0 OR INTERRUPT_CAUSE_HARDWARE_5) \<noteq> 0 then Inr True
                  else bindE (rd (scheduler_current_thread s) cpu) (\<lambda>t. Inr (t = IDLE_THREAD_TID))) (\<lambda>sched.
           if sched then reschedule s else Inr s)))"

subsection \<open>The table of handlers\<close>

text \<open>\<open>registered s regs\<close>: the rows in use are \<open>regs\<close>, in the order of their registration.\<close>

definition registered :: "'a intr_scheme \<Rightarrow> interrupt_entry_t list \<Rightarrow> bool" where
  "registered s regs \<longleftrightarrow> length (interrupt_handlers s) = CONFIG_MAX_DEVICES \<and> length regs \<le> CONFIG_MAX_DEVICES \<and>
     take (length regs) (interrupt_handlers s) = regs \<and> (\<forall>e \<in> set regs. ie_device e \<noteq> 0) \<and>
     (\<forall>i. length regs \<le> i \<and> i < CONFIG_MAX_DEVICES \<longrightarrow> ie_device (interrupt_handlers s ! i) = 0)"

lemma registeredD:
  assumes "registered s regs"
  shows "length (interrupt_handlers s) = CONFIG_MAX_DEVICES" "length regs \<le> CONFIG_MAX_DEVICES"
    "i < length regs \<Longrightarrow> interrupt_handlers s ! i = regs ! i \<and> ie_device (regs ! i) \<noteq> 0"
    "length regs \<le> i \<Longrightarrow> i < CONFIG_MAX_DEVICES \<Longrightarrow> ie_device (interrupt_handlers s ! i) = 0"
proof -
  show "length (interrupt_handlers s) = CONFIG_MAX_DEVICES" "length regs \<le> CONFIG_MAX_DEVICES"
    and "length regs \<le> i \<Longrightarrow> i < CONFIG_MAX_DEVICES \<Longrightarrow> ie_device (interrupt_handlers s ! i) = 0"
    using assms by (simp_all add: registered_def)
  have t: "take (length regs) (interrupt_handlers s) = regs" using assms by (simp add: registered_def)
  show "interrupt_handlers s ! i = regs ! i \<and> ie_device (regs ! i) \<noteq> 0" if "i < length regs"
    using that assms nth_take [OF that, of "interrupt_handlers s"] nth_mem [OF that] by (auto simp add: t registered_def)
qed

text \<open>The calls an interrupt makes: the handlers that asked for one of its causes, in order.\<close>

fun call_each ::
  "(uint32 \<Rightarrow> uint32 \<Rightarrow> 'a intr_scheme \<Rightarrow> 'a intr_scheme kres) \<Rightarrow> interrupt_entry_t list \<Rightarrow> 'a intr_scheme \<Rightarrow> 'a intr_scheme kres"
where
  "call_each call [] s = Inr s"
| "call_each call (e # es) s = bindE (call (ie_handler e) (ie_device e) s) (call_each call es)"

definition concerned :: "uint32 \<Rightarrow> interrupt_entry_t list \<Rightarrow> interrupt_entry_t list" where
  "concerned cause regs = filter (\<lambda>e. cause AND ie_irq e \<noteq> 0) regs"

lemma registered_handlers: "interrupt_handlers s' = interrupt_handlers s \<Longrightarrow> registered s' regs = registered s regs"
  by (simp add: registered_def)

lemma call_handlers_from:
  assumes "registered s regs" "i \<le> length regs"
    and "\<And>e s s'. e \<in> set (concerned cause regs) \<Longrightarrow> call (ie_handler e) (ie_device e) s = Inr s' \<Longrightarrow>
       interrupt_handlers s' = interrupt_handlers s"
  shows "call_handlers call cause i s = call_each call (concerned cause (drop i regs)) s"
  using assms
proof (induction call cause i s rule: call_handlers.induct)
  case (1 call cause i s)
  note R = registeredD [OF "1.prems"(1)]
  show ?case
  proof (cases "i = length regs")
    case True
    then show ?thesis using R(1,4) by (cases "i < CONFIG_MAX_DEVICES") (simp_all add: call_handlers.simps concerned_def)
  next
    case False
    then have i: "i < length regs" "i < CONFIG_MAX_DEVICES" using "1.prems"(2) R(2) by simp_all
    let ?e = "regs ! i"
    have e: "interrupt_handlers s ! i = ?e" "ie_device ?e \<noteq> 0" using R(3) [OF i(1)] by simp_all
    have IH: "call_handlers call cause (Suc i) s' = call_each call (concerned cause (drop (Suc i) regs)) s'"
      if "(if cause AND ie_irq ?e \<noteq> 0 then call (ie_handler ?e) (ie_device ?e) s else Inr s) = Inr s'" for s'
    proof -
      have h: "interrupt_handlers s' = interrupt_handlers s" using that i(1) "1.prems"(3) [of ?e s s'] by (simp add: concerned_def split: if_splits)
      show ?thesis
        by (rule "1.IH" [OF i(2) e(2)]) (use i "1.prems" in \<open>simp_all add: registered_handlers [OF h]\<close>)
    qed
    note step = call_handlers.simps [of call cause i s]
    show ?thesis
      unfolding Cons_nth_drop_Suc [OF i(1), symmetric]
    proof (cases "cause AND ie_irq ?e \<noteq> 0")
      case True
      then show "call_handlers call cause i s = call_each call (concerned cause (?e # drop (Suc i) regs)) s"
        using IH i e R(1) by (cases "call (ie_handler ?e) (ie_device ?e) s") (simp_all add: step concerned_def)
    next
      case False
      then show "call_handlers call cause i s = call_each call (concerned cause (?e # drop (Suc i) regs)) s"
        using IH [of s] i e R(1) by (simp add: step concerned_def)
    qed
  qed
qed


subsection \<open>Initialisation\<close>

text \<open>One page per processor from \<open>f\<close> on.\<close>

definition stacks_upto :: "nat \<Rightarrow> nat \<Rightarrow> 'a intr_scheme \<Rightarrow> bool" where
  "stacks_upto f i s \<longleftrightarrow> kmem_ok s \<and> unat (free_area_start s) = f + 4096 * i \<and> length (interrupt_stacks s) = CONFIG_MAX_CPUS \<and>
     (\<forall>j < i. unat (interrupt_stacks s ! j) = f + 4096 * j + 4092)"

lemma aligned_within_3: "x mod 4 = 0 \<Longrightarrow> y mod 4 = 0 \<Longrightarrow> x \<le> y \<Longrightarrow> y \<le> x + 3 \<Longrightarrow> y = x" for x y :: nat
  by presburger

lemma alloc_stack_next:
  assumes "stacks_upto f i s" "f + 4096 * Suc i \<le> unat (memory_end s)" "i < CONFIG_MAX_CPUS"
  shows "\<exists>a st. alloc_stack i s = Inr (s\<lparr>free_area_start := a, interrupt_stacks := st\<rparr>) \<and>
    stacks_upto f (Suc i) (s\<lparr>free_area_start := a, interrupt_stacks := st\<rparr>)"
proof -
  have ok: "kmem_ok s" and at: "unat (free_area_start s) = f + 4096 * i" and len: "length (interrupt_stacks s) = CONFIG_MAX_CPUS"
    using assms(1) by (simp_all add: stacks_upto_def)
  have km: "kmalloc (uint PAGE_SIZE) s = Inr (free_area_start s, s\<lparr>free_area_start := word_align (free_area_start s + word_of_int (uint PAGE_SIZE))\<rparr>)"
    using kmalloc_returns [OF ok, of "uint PAGE_SIZE"] assms(2) at by (simp add: PAGE_SIZE_def)
  let ?a = "word_align (free_area_start s + word_of_int (uint PAGE_SIZE))" and ?top = "free_area_start s + PAGE_SIZE - 4"
  have r: "kmem_ok (s\<lparr>free_area_start := ?a\<rparr>)" "f + 4096 * i + 4096 \<le> unat ?a" "unat ?a \<le> f + 4096 * i + 4096 + 3"
    using kmalloc_ok(2-4) [OF ok _ _ km] at by (simp_all add: PAGE_SIZE_def)
  have "unat (free_area_start s) mod 4 = 0" "unat ?a mod 4 = 0" "0x80000000 \<le> unat (free_area_start s)" "unat (memory_end s) \<le> 0xA0000000"
    using ok r(1) by (simp_all add: kmem_ok_def)
  note m = this
  have "(f + 4096 * i + 4096) mod 4 = 0" using m(1) mod_mult_self2 [of "f + 4096 * i" 4 1024] unfolding at by simp
  with m(2) have a: "unat ?a = f + 4096 * Suc i" using aligned_within_3 [of "f + 4096 * i + 4096" "unat ?a"] r(2,3) by simp
  have "unat (free_area_start s + PAGE_SIZE) = f + 4096 * i + 4096"
    using unat_add_int [of 4096 "free_area_start s"] at assms(2) \<open>unat (memory_end s) \<le> 0xA0000000\<close> by (simp add: PAGE_SIZE_def)
  moreover have "(4 :: uint32) \<le> free_area_start s + PAGE_SIZE" using \<open>unat (free_area_start s + PAGE_SIZE) = f + 4096 * i + 4096\<close> by (simp add: word_le_nat_alt)
  ultimately have top: "unat ?top = f + 4096 * i + 4092" by (simp add: unat_sub)
  have "free_area_start s \<noteq> 0" using \<open>0x80000000 \<le> unat (free_area_start s)\<close> by auto
  then have run: "alloc_stack i s = Inr (s\<lparr>free_area_start := ?a, interrupt_stacks := (interrupt_stacks s)[i := ?top]\<rparr>)"
    using km len assms(3) by (simp add: alloc_stack_def)
  have "stacks_upto f (Suc i) (s\<lparr>free_area_start := ?a, interrupt_stacks := (interrupt_stacks s)[i := ?top]\<rparr>)"
    using assms(1,3) r(1) a top len by (auto simp: stacks_upto_def kmem_ok_def less_Suc_eq nth_list_update)
  with run show ?thesis by blast
qed

lemma alloc_stacks:
  assumes "stacks_upto f 0 s" "f + 4096 * n \<le> unat (memory_end s)" "n \<le> CONFIG_MAX_CPUS"
  shows "\<exists>a st. for_rangeE 0 n alloc_stack s = Inr (s\<lparr>free_area_start := a, interrupt_stacks := st\<rparr>) \<and>
    stacks_upto f n (s\<lparr>free_area_start := a, interrupt_stacks := st\<rparr>)"
proof -
  let ?I = "\<lambda>i t. stacks_upto f i t \<and> (\<exists>a st. t = s\<lparr>free_area_start := a, interrupt_stacks := st\<rparr>)"
  have "\<exists>t. for_rangeE 0 n alloc_stack s = Inr t \<and> ?I n t"
  proof (rule for_rangeE_inv)
    show "?I 0 s" using assms(1) by (auto intro!: exI [of _ "free_area_start s"] exI [of _ "interrupt_stacks s"])
    fix i t assume i: "i < n" and t: "?I i t"
    then have "f + 4096 * Suc i \<le> unat (memory_end t)" using assms(2) by auto
    from alloc_stack_next [OF _ this] t i assms(3) show "\<exists>t'. alloc_stack i t = Inr t' \<and> ?I (Suc i) t'" by fastforce
  qed simp
  then show ?thesis by blast
qed

lemma copy_vectors:
  assumes "length vector = INTERRUPT_VECTOR_LENGTH" "length (iv_area1 s) = INTERRUPT_VECTOR_LENGTH"
    "length (iv_area2 s) = INTERRUPT_VECTOR_LENGTH" "length (iv_area3 s) = INTERRUPT_VECTOR_LENGTH"
  shows "for_rangeE 0 INTERRUPT_VECTOR_LENGTH (copy_vector vector) s = Inr (s\<lparr>iv_area1 := vector, iv_area2 := vector, iv_area3 := vector\<rparr>)"
proof -
  let ?n = INTERRUPT_VECTOR_LENGTH
  let ?c = "\<lambda>i a. take i vector @ drop i a"
  have upd: "(?c i a)[i := vector ! i] = ?c (Suc i) a" if "i < ?n" "length a = ?n" for i and a :: "uint32 list"
    using that assms(1) by (simp add: list_update_append take_Suc_conv_app_nth upd_conv_take_nth_drop flip: Cons_nth_drop_Suc)
  have "\<exists>t. for_rangeE 0 ?n (copy_vector vector) s = Inr t \<and>
      t = s\<lparr>iv_area1 := ?c ?n (iv_area1 s), iv_area2 := ?c ?n (iv_area2 s), iv_area3 := ?c ?n (iv_area3 s)\<rparr>"
    by (rule for_rangeE_inv [where I = "\<lambda>i t. t = s\<lparr>iv_area1 := ?c i (iv_area1 s), iv_area2 := ?c i (iv_area2 s), iv_area3 := ?c i (iv_area3 s)\<rparr>"])
      (use assms upd in \<open>simp_all add: copy_vector_def\<close>)
  with assms show ?thesis by simp
qed

lemma clear_handlers:
  assumes "length (interrupt_handlers s) = CONFIG_MAX_DEVICES"
  shows "for_rangeE 0 CONFIG_MAX_DEVICES clear_handler s =
    Inr (s\<lparr>interrupt_handlers := replicate CONFIG_MAX_DEVICES \<lparr>ie_device = 0, ie_irq = 0, ie_handler = 0\<rparr>\<rparr>)"
proof -
  let ?e = "\<lparr>ie_device = 0, ie_irq = 0, ie_handler = 0\<rparr>" and ?n = CONFIG_MAX_DEVICES
  let ?c = "\<lambda>i. replicate i ?e @ drop i (interrupt_handlers s)"
  have upd: "(?c i)[i := ?e] = ?c (Suc i)" if "i < ?n" for i
    using that assms by (simp add: list_update_append replicate_append_same upd_conv_take_nth_drop flip: Cons_nth_drop_Suc)
  have "\<exists>t. for_rangeE 0 ?n clear_handler s = Inr t \<and> t = s\<lparr>interrupt_handlers := ?c ?n\<rparr>"
    by (rule for_rangeE_inv [where I = "\<lambda>i t. t = s\<lparr>interrupt_handlers := ?c i\<rparr>"])
      (use assms upd in \<open>simp_all add: clear_handler_def\<close>)
  with assms show ?thesis by simp
qed

subsection \<open>Properties\<close>

text \<open>
  with memory for the stacks \<^verbatim>\<open>interrupt_init\<close> gives every processor the last word of a page
  of its own as the top of its interrupt stack, copies the vector code to the three vectors and
  leaves no handler registered; with no or too many processors it stops the kernel.
\<close>

theorem interrupt_init_establishes:
  assumes "kmem_ok s" "f = unat (free_area_start s)" "f + 4096 * n \<le> unat (memory_end s)"
    "length (interrupt_stacks s) = CONFIG_MAX_CPUS" "length (interrupt_handlers s) = CONFIG_MAX_DEVICES"
    "length vector = INTERRUPT_VECTOR_LENGTH" "length (iv_area1 s) = INTERRUPT_VECTOR_LENGTH"
    "length (iv_area2 s) = INTERRUPT_VECTOR_LENGTH" "length (iv_area3 s) = INTERRUPT_VECTOR_LENGTH"
  shows "if n < 1 \<or> n > CONFIG_MAX_CPUS then interrupt_init vector (int n) s = Inl (Panic ''Too few or many CPUs found'')
    else \<exists>s'. interrupt_init vector (int n) s = Inr s' \<and> registered s' [] \<and> kmem_ok s' \<and> unat (free_area_start s') = f + 4096 * n \<and>
      (\<forall>i < n. unat (interrupt_stacks s' ! i) = f + 4096 * i + 4092) \<and>
      iv_area1 s' = vector \<and> iv_area2 s' = vector \<and> iv_area3 s' = vector"
proof (cases "n < 1 \<or> n > CONFIG_MAX_CPUS")
  case True
  then show ?thesis by (auto simp: interrupt_init_def KERNEL_PANIC_def)
next
  case False
  have "stacks_upto f 0 s" using assms(1,2,4) by (simp add: stacks_upto_def)
  then obtain a st where s1: "for_rangeE 0 n alloc_stack s = Inr (s\<lparr>free_area_start := a, interrupt_stacks := st\<rparr>)"
    "stacks_upto f n (s\<lparr>free_area_start := a, interrupt_stacks := st\<rparr>)" using alloc_stacks [of f s n] assms(3) False by auto
  let ?s1 = "s\<lparr>free_area_start := a, interrupt_stacks := st\<rparr>"
  let ?s2 = "?s1\<lparr>iv_area1 := vector, iv_area2 := vector, iv_area3 := vector\<rparr>"
  let ?s3 = "?s2\<lparr>interrupt_handlers := replicate CONFIG_MAX_DEVICES \<lparr>ie_device = 0, ie_irq = 0, ie_handler = 0\<rparr>\<rparr>"
  have "for_rangeE 0 INTERRUPT_VECTOR_LENGTH (copy_vector vector) ?s1 = Inr ?s2" by (rule copy_vectors) (use assms in simp_all)
  moreover have "for_rangeE 0 CONFIG_MAX_DEVICES clear_handler ?s2 = Inr ?s3" by (rule clear_handlers) (use assms in simp)
  ultimately have "interrupt_init vector (int n) s = Inr ?s3" using False s1(1) by (simp add: interrupt_init_def)
  moreover have "registered ?s3 []" by (simp add: registered_def)
  ultimately show ?thesis using False s1(2) by (intro if_not_P [THEN iffD2] exI [of _ ?s3]) (auto simp: stacks_upto_def kmem_ok_def)
qed

text \<open>
  C24: \<^verbatim>\<open>interrupt_handle\<close> calls exactly the registered handlers whose mask has a cause of the
  interrupt, each once and in the order of registration; then it gives the processor to the next
  thread if the timer or a thread asked for it or the processor was idle, and otherwise lets the
  interrupted thread go on.  It needs only that no handler changes the table.
\<close>

theorem interrupt_handle_dispatches:
  assumes "registered s regs" "cause AND 0x7c = 0" "is_cpu (this_cpu s)"
    "\<And>f d s s'. call f d s = Inr s' \<Longrightarrow> interrupt_handlers s' = interrupt_handlers s \<and>
       length (scheduler_current_thread s') = length (scheduler_current_thread s)"
    "length (scheduler_current_thread s) = CONFIG_MAX_CPUS"
  shows "interrupt_handle call cause s =
    bindE (call_each call (concerned cause regs)
             (if cause AND INTERRUPT_CAUSE_SOFTWARE_0 \<noteq> 0 then interrupt_clear_sw0 s else s)) (\<lambda>s'.
      if cause AND (INTERRUPT_CAUSE_SOFTWARE_0 OR INTERRUPT_CAUSE_HARDWARE_5) \<noteq> 0 \<or> current_of s' (this_cpu s) = IDLE_THREAD_TID
      then reschedule s' else Inr s')"
proof -
  let ?s = "if cause AND INTERRUPT_CAUSE_SOFTWARE_0 \<noteq> 0 then interrupt_clear_sw0 s else s"
  have s: "interrupt_handlers ?s = interrupt_handlers s" "scheduler_current_thread ?s = scheduler_current_thread s" "this_cpu ?s = this_cpu s"
    by (simp_all add: interrupt_clear_sw0_def)
  have calls: "call_handlers call cause 0 ?s = call_each call (concerned cause regs) ?s"
    using call_handlers_from [of ?s regs 0 cause call] registered_handlers [OF s(1), of regs] assms(1,4) by simp
  have len: "call_each call es t = Inr t' \<Longrightarrow> length (scheduler_current_thread t') = length (scheduler_current_thread t)" for es t t'
    by (induction es arbitrary: t) (auto simp: kres_iff dest: assms(4))
  show ?thesis
  proof (cases "call_each call (concerned cause regs) ?s")
    case (Inl e)
    then show ?thesis using assms(2) calls by (simp add: interrupt_handle_def Let_def)
  next
    case (Inr s')
    then have "length (scheduler_current_thread s') = CONFIG_MAX_CPUS" using len [OF Inr] s(2) assms(5) by simp
    then have "rd (scheduler_current_thread s') (this_cpu s) = Inr (current_of s' (this_cpu s))"
      using assms(3) by (simp add: rd_def is_cpu_def current_of_def nat_less_iff)
    with Inr calls s(3) assms(2) show ?thesis by (simp add: interrupt_handle_def Let_def)
  qed
qed


text \<open>
  \<^verbatim>\<open>interrupt_register\<close> appends a handler to those registered before.  A mask with bits that are
  no interrupts stops the kernel.  With a full table it reads beyond the table before it can stop
  the kernel.
\<close>

theorem interrupt_register_appends:
  assumes "registered s regs" "device \<noteq> 0"
  shows "(irq AND NOT INTERRUPT_MASK_ALL = 0 \<and> length regs < CONFIG_MAX_DEVICES \<longrightarrow>
      (\<exists>s'. interrupt_register irq handler device s = Inr s' \<and>
        registered s' (regs @ [\<lparr>ie_device = device, ie_irq = irq, ie_handler = handler\<rparr>]))) \<and>
    (irq AND NOT INTERRUPT_MASK_ALL \<noteq> 0 \<longrightarrow> interrupt_register irq handler device s = Inl (Panic ''interrupt_register'')) \<and>
    (irq AND NOT INTERRUPT_MASK_ALL = 0 \<and> length regs = CONFIG_MAX_DEVICES \<longrightarrow> interrupt_register irq handler device s = Inl Fault)"
proof (intro conjI impI)
  note R = registeredD [OF assms(1)]
  let ?e = "\<lparr>ie_device = device, ie_irq = irq, ie_handler = handler\<rparr>" and ?n = "length regs"
  show "interrupt_register irq handler device s = Inl (Panic ''interrupt_register'')" if "irq AND NOT INTERRUPT_MASK_ALL \<noteq> 0"
    using that by (simp add: interrupt_register_def KERNEL_PANIC_def)
  show "interrupt_register irq handler device s = Inl Fault" if "irq AND NOT INTERRUPT_MASK_ALL = 0 \<and> ?n = CONFIG_MAX_DEVICES"
  proof -
    have "find_from (\<lambda>e. ie_device e = 0) (interrupt_handlers s) 0 (CONFIG_MAX_DEVICES + 1) = Inl Fault"
      by (rule find_from_out) (use that R(1,3) in auto)
    with that show ?thesis by (simp add: interrupt_register_def)
  qed
  assume a: "irq AND NOT INTERRUPT_MASK_ALL = 0 \<and> ?n < CONFIG_MAX_DEVICES"
  then have "find_from (\<lambda>e. ie_device e = 0) (interrupt_handlers s) 0 (CONFIG_MAX_DEVICES + 1) = Inr ?n"
    using R by (intro find_from_hit) auto
  with a R(1) have "interrupt_register irq handler device s = Inr (s\<lparr>interrupt_handlers := (interrupt_handlers s)[?n := ?e]\<rparr>)"
    by (simp add: interrupt_register_def)
  moreover have "registered (s\<lparr>interrupt_handlers := (interrupt_handlers s)[?n := ?e]\<rparr>) (regs @ [?e])"
    using assms a R(1) by (auto simp: registered_def take_Suc_conv_app_nth)
  ultimately show "\<exists>s'. interrupt_register irq handler device s = Inr s' \<and> registered s' (regs @ [?e])" by blast
qed

subsection \<open>Sample state\<close>

text \<open>The state of theory \<open>Semaphore\<close> with one handler, for the hardware interrupt 2.\<close>

definition sample_handler :: interrupt_entry_t where
  "sample_handler = \<lparr>ie_device = 0x80002000, ie_irq = 0x1000, ie_handler = 0x80006000\<rparr>"

definition sample_intr :: intr where
  "sample_intr = sems.extend sample_kernel (intr.fields (replicate CONFIG_MAX_CPUS 0)
     (sample_handler # replicate 127 \<lparr>ie_device = 0, ie_irq = 0, ie_handler = 0\<rparr>) (replicate 8 0) (replicate 8 0) (replicate 8 0))"

lemma sample_intr_fields [simp]:
  "interrupt_stacks sample_intr = replicate CONFIG_MAX_CPUS 0"
  "interrupt_handlers sample_intr = sample_handler # replicate 127 \<lparr>ie_device = 0, ie_irq = 0, ie_handler = 0\<rparr>"
  "iv_area1 sample_intr = replicate 8 0" "iv_area2 sample_intr = replicate 8 0" "iv_area3 sample_intr = replicate 8 0"
  "this_cpu sample_intr = 0" "scheduler_current_thread sample_intr = [1, 0, 0, 0]"
  by (simp_all add: sample_intr_def sems.defs intr.defs sample_kernel_def)

lemma sample_registered: "registered sample_intr [sample_handler]"
  by (auto simp: registered_def CONFIG_MAX_DEVICES_def sample_handler_def nth_Cons')

text \<open>Applications of the properties; the handler of the sample sets a bit of the cause register.\<close>

theorem interrupt_handle_dispatches_witness:
  "interrupt_handle (\<lambda>f d s. Inr (s\<lparr>cp0_cause := f\<rparr>)) 0x1400 sample_intr = Inr (sample_intr\<lparr>cp0_cause := 0x80006000\<rparr>)"
proof -
  have "current_of (sample_intr\<lparr>cp0_cause := 0x80006000\<rparr>) 0 = 1" by (simp add: current_of_def)
  then show ?thesis
    using interrupt_handle_dispatches [OF sample_registered, of "0x1400" "\<lambda>f d s. Inr (s\<lparr>cp0_cause := f\<rparr>)"]
    by (simp add: is_cpu_def CONFIG_MAX_CPUS_def concerned_def sample_handler_def INTERRUPT_CAUSE_SOFTWARE_0_def INTERRUPT_CAUSE_HARDWARE_5_def IDLE_THREAD_TID_def)
qed


theorem interrupt_register_appends_witness:
  "\<exists>s'. interrupt_register 0x4000 0x80007000 0x80003000 sample_intr = Inr s' \<and>
     registered s' [sample_handler, \<lparr>ie_device = 0x80003000, ie_irq = 0x4000, ie_handler = 0x80007000\<rparr>]"
  using interrupt_register_appends [OF sample_registered, of "0x80003000" "0x4000" "0x80007000"]
  by (simp add: CONFIG_MAX_DEVICES_def INTERRUPT_MASK_ALL_def)

theorem interrupt_init_establishes_witness:
  "\<exists>s'. interrupt_init (replicate 8 7) 2 (sample_intr\<lparr>free_area_start := 0x80001000, memory_end := 0x80010000\<rparr>) = Inr s' \<and>
     registered s' [] \<and> unat (interrupt_stacks s' ! 1) = 0x80002ffc"
proof -
  let ?s = "sample_intr\<lparr>free_area_start := 0x80001000, memory_end := 0x80010000\<rparr>"
  have ok: "kmem_ok ?s" by (simp add: kmem_ok_def)
  have len: "length (replicate 8 (7 :: uint32)) = INTERRUPT_VECTOR_LENGTH" "length (interrupt_handlers ?s) = CONFIG_MAX_DEVICES"
    "length (iv_area1 ?s) = INTERRUPT_VECTOR_LENGTH" "length (iv_area2 ?s) = INTERRUPT_VECTOR_LENGTH" "length (iv_area3 ?s) = INTERRUPT_VECTOR_LENGTH"
    by (simp_all add: INTERRUPT_VECTOR_LENGTH_def CONFIG_MAX_DEVICES_def)
  have "unat (free_area_start ?s) + 4096 * 2 \<le> unat (memory_end ?s)" by simp
  from interrupt_init_establishes [OF ok refl this _ len(2,1,3-5)]
  obtain s' where "interrupt_init (replicate 8 7) (int 2) ?s = Inr s'" "registered s' []" "\<forall>i < 2. unat (interrupt_stacks s' ! i) = 0x80001000 + 4096 * i + 4092"
    by (auto simp: CONFIG_MAX_CPUS_def)
  then show ?thesis by (intro exI [of _ s']) simp
qed

end
