(* ===== verification/Libc.thy ===== *)
theory Libc
  imports Prelude
begin

text \<open>
  The string and memory routines of \<^verbatim>\<open>lib/libc.c\<close>.  A C string that is only read is the list
  of its characters before the terminating null, and reading at the end gives the null; a buffer
  that is written is the list of its bytes.  \<^verbatim>\<open>memcopy\<close> and \<^verbatim>\<open>memoryset\<close> work on
  the byte-addressed memory, since \<^verbatim>\<open>memcopy\<close> looks at the alignment of its arguments.
\<close>

definition NUL :: char where "NUL = CHR 0x00"

text \<open>The value of a \<^verbatim>\<open>char\<close> in arithmetic; the type is signed.\<close>

definition char_val :: "char \<Rightarrow> int" where
  "char_val c = (if of_char c < (128 :: int) then of_char c else of_char c - 256)"

definition c_string :: "string \<Rightarrow> bool" where
  "c_string s \<longleftrightarrow> NUL \<notin> set s"

definition cstring :: "char list \<Rightarrow> string" where
  "cstring buf = takeWhile (\<lambda>c. c \<noteq> NUL) buf"

definition char_at :: "string \<Rightarrow> nat \<Rightarrow> char" where
  "char_at s i = (if i < length s then s ! i else NUL)"

function stringcmp_from :: "nat \<Rightarrow> string \<Rightarrow> string \<Rightarrow> int" where
  "stringcmp_from i str1 str2 =
     (if char_at str1 i = NUL \<and> char_at str2 i = NUL then 0
      else if char_at str1 i = NUL \<or> char_at str2 i = NUL \<or> char_at str1 i \<noteq> char_at str2 i
      then char_val (char_at str1 i) - char_val (char_at str2 i)
      else stringcmp_from (Suc i) str1 str2)"
  by pat_completeness auto
termination
  by (relation "measure (\<lambda>(i, str1, str2). length str1 - i)") (auto simp: char_at_def split: if_splits)

declare stringcmp_from.simps [simp del]

definition stringcmp :: "string \<Rightarrow> string \<Rightarrow> int" where
  "stringcmp str1 str2 = stringcmp_from 0 str1 str2"

text \<open>
  The loop of \<^verbatim>\<open>stringcopy\<close>.  Once the null has been copied, the inner loop of the C code
  writes nulls to the same byte of the target until \<^verbatim>\<open>i\<close> reaches \<^verbatim>\<open>buflen\<close>.
\<close>

function stringcopy_from :: "nat \<Rightarrow> char list \<Rightarrow> string \<Rightarrow> int \<Rightarrow> char list kres" where
  "stringcopy_from i target source buflen =
     (if int i < buflen - 1 then
        bindE (wr target (int i) (char_at source i)) (\<lambda>target.
        if char_at source i = NUL then
          (if int i + 1 < buflen then wr target (int i) NUL else Inr target)
        else stringcopy_from (Suc i) target source buflen)
      else wr target (int i) NUL)"
  by pat_completeness auto
termination
  by (relation "measure (\<lambda>(i, target, source, buflen). nat (buflen - int i))") auto

declare stringcopy_from.simps [simp del]

definition stringcopy :: "char list \<Rightarrow> string \<Rightarrow> int \<Rightarrow> char list kres" where
  "stringcopy target source buflen = stringcopy_from 0 target source buflen"

type_synonym memory = "uint32 \<Rightarrow> char"

definition copy_byte :: "uint32 \<Rightarrow> uint32 \<Rightarrow> memory \<Rightarrow> memory" where
  "copy_byte t s mem = mem(t := mem s)"

definition copy_word :: "uint32 \<Rightarrow> uint32 \<Rightarrow> memory \<Rightarrow> memory" where
  "copy_word t s mem = mem(t := mem s, t + 1 := mem (s + 1), t + 2 := mem (s + 2), t + 3 := mem (s + 3))"

definition memcopy :: "int \<Rightarrow> uint32 \<Rightarrow> uint32 \<Rightarrow> memory \<Rightarrow> memory" where
  "memcopy buflen target source mem =
     (if target mod 4 \<noteq> 0 \<or> source mod 4 \<noteq> 0 then
        for_range 0 (nat buflen) (\<lambda>i. copy_byte (target + of_nat i) (source + of_nat i)) mem
      else
        let n = nat (buflen sdiv 4);
            mem = for_range 0 n (\<lambda>i. copy_word (target + 4 * of_nat i) (source + 4 * of_nat i)) mem;
            tgt = target + 4 * of_nat n;
            src = source + 4 * of_nat n
        in for_range 0 (nat (buflen smod 4)) (\<lambda>i. copy_byte (tgt + of_nat i) (src + of_nat i)) mem)"

definition memoryset :: "uint32 \<Rightarrow> char \<Rightarrow> int \<Rightarrow> memory \<Rightarrow> memory" where
  "memoryset target v sz mem = for_range 0 (nat sz) (\<lambda>i mem. mem(target + of_nat i := v)) mem"

text \<open>\<^verbatim>\<open>atoi\<close> computes in 32-bit integers, which wrap around.\<close>

definition is_space :: "char \<Rightarrow> bool" where
  "is_space c \<longleftrightarrow> c = CHR '' '' \<or> c = CHR 0x09 \<or> c = CHR 0x0d \<or> c = CHR 0x0a"

definition is_digit :: "char \<Rightarrow> bool" where
  "is_digit c \<longleftrightarrow> char_val (CHR ''0'') \<le> char_val c \<and> char_val c \<le> char_val (CHR ''9'')"

definition wrap32 :: "int \<Rightarrow> int" where
  "wrap32 k = sint (word_of_int k :: uint32)"

fun skip_space :: "string \<Rightarrow> string" where
  "skip_space [] = []"
| "skip_space (c # s) = (if c \<noteq> NUL \<and> is_space c then skip_space s else c # s)"

fun read_digits :: "int \<Rightarrow> int \<Rightarrow> string \<Rightarrow> int" where
  "read_digits sign v [] = v"
| "read_digits sign v (c # s) =
     (if is_digit c
      then read_digits sign (wrap32 (10 * v + sign * (char_val c - char_val (CHR ''0'')))) s
      else v)"

definition atoi :: "string \<Rightarrow> int" where
  "atoi s =
     (case skip_space s of
        [] \<Rightarrow> 0
      | c # s' \<Rightarrow>
          if c = NUL then 0
          else if c = CHR ''-'' then read_digits (-1) 0 s'
          else if c = CHR ''+'' then read_digits 1 0 s'
          else read_digits 1 0 (c # s'))"

fun strlen :: "string \<Rightarrow> int" where
  "strlen [] = 0"
| "strlen (c # s) = (if c = NUL then 0 else 1 + strlen s)"

subsection \<open>Strings\<close>

lemma of_char_bounds: "0 \<le> (of_char c :: int)" "(of_char c :: int) < 256"
proof -
  have "(of_char c :: int) = int (of_char c)" by (rule of_nat_of_char [symmetric])
  moreover have "(of_char c :: nat) < 256" by (rule nat_of_char_less_256)
  ultimately show "0 \<le> (of_char c :: int)" "(of_char c :: int) < 256" by linarith+
qed

lemma char_val_inj: "char_val a = char_val b \<longleftrightarrow> a = b"
proof
  assume "char_val a = char_val b"
  then have "(of_char a :: int) = of_char b"
    using of_char_bounds [of a] of_char_bounds [of b] unfolding char_val_def by presburger
  then show "a = b" by simp
qed simp

lemma c_string_nth: "c_string s \<Longrightarrow> i < length s \<Longrightarrow> s ! i \<noteq> NUL"
  by (metis c_string_def nth_mem)

lemma char_at_NUL: "c_string s \<Longrightarrow> i \<le> length s \<Longrightarrow> char_at s i = NUL \<longleftrightarrow> i = length s"
  using c_string_nth [of s i] by (auto simp: char_at_def)

lemma stringcmp_from_eq:
  "c_string a \<Longrightarrow> c_string b \<Longrightarrow> take i a = take i b \<Longrightarrow> i \<le> length a \<Longrightarrow> i \<le> length b \<Longrightarrow>
   stringcmp_from i a b = 0 \<longleftrightarrow> a = b"
proof (induction i a b rule: stringcmp_from.induct)
  case (1 i a b)
  have A: "char_at a i = NUL \<longleftrightarrow> i = length a" "char_at b i = NUL \<longleftrightarrow> i = length b"
    using 1(2,3,5,6) by (simp_all add: char_at_NUL)
  show ?case
  proof (cases "char_at a i = NUL \<or> char_at b i = NUL \<or> char_at a i \<noteq> char_at b i")
    case True
    have "a = b \<Longrightarrow> char_at a i = NUL \<and> char_at b i = NUL"
      using True by auto
    moreover have "char_at a i = NUL \<and> char_at b i = NUL \<Longrightarrow> a = b"
      using A 1(4) by simp
    ultimately show ?thesis
      using True by (auto simp: stringcmp_from.simps [of i] char_val_inj)
  next
    case False
    then have i: "i < length a" "i < length b" "a ! i = b ! i"
      using A 1(5,6) by (auto simp: char_at_def split: if_splits)
    then have "take (Suc i) a = take (Suc i) b" using 1(4) by (simp add: take_Suc_conv_app_nth)
    then have "stringcmp_from (Suc i) a b = 0 \<longleftrightarrow> a = b" using 1 False i by simp
    then show ?thesis using False by (simp add: stringcmp_from.simps [of i])
  qed
qed

lemma cstring_terminated: "c_string s \<Longrightarrow> cstring (s @ NUL # r) = s"
  by (induction s) (auto simp: cstring_def c_string_def)

lemma stringcmp_eq_0: "c_string a \<Longrightarrow> c_string b \<Longrightarrow> stringcmp a b = 0 \<longleftrightarrow> a = b"
  by (simp add: stringcmp_def stringcmp_from_eq)

lemma stringcopy_from_eq:
  "c_string source \<Longrightarrow> n = min (length source) (nat (buflen - 1)) \<Longrightarrow> i \<le> n \<Longrightarrow> 1 \<le> buflen \<Longrightarrow>
   nat buflen \<le> length target \<Longrightarrow>
   stringcopy_from i target source buflen = Inr (take i target @ drop i (take n source) @ NUL # drop (Suc n) target)"
proof (induction i target source buflen rule: stringcopy_from.induct)
  case (1 i target source buflen)
  note step = stringcopy_from.simps [of i target source buflen]
  have i: "i < length target" using 1(3-) by auto
  show ?case
  proof (cases "int i < buflen - 1")
    case False
    then have "i = n" "n = nat (buflen - 1)" using 1(3,4) by auto
    then show ?thesis using False i step 1(5) by (simp add: upd_conv_take_nth_drop)
  next
    case True
    show ?thesis
    proof (cases "i < length source")
      case False
      then have "char_at source i = NUL" "i = n" using 1(3,4) True by (auto simp: char_at_def)
      then show ?thesis using True i step 1(3) False
        by (simp add: upd_conv_take_nth_drop)
    next
      case less: True
      then have c: "char_at source i = source ! i" "source ! i \<noteq> NUL"
        using c_string_nth [OF 1(2)] by (simp_all add: char_at_def)
      have n: "Suc i \<le> n" using less True 1(3) by auto
      have "stringcopy_from (Suc i) (target[i := source ! i]) source buflen =
          Inr (take (Suc i) (target[i := source ! i]) @ drop (Suc i) (take n source) @
            NUL # drop (Suc n) (target[i := source ! i]))"
        using 1(1) [OF True, of "target[i := source ! i]"] 1(2,3,5,6) c n by (metis length_list_update)
      moreover have "take (Suc i) (target[i := source ! i]) @ drop (Suc i) (take n source) =
          take i target @ drop i (take n source)"
        using i n less by (simp add: take_Suc_conv_app_nth Cons_nth_drop_Suc [symmetric])
      moreover have "drop (Suc n) (target[i := source ! i]) = drop (Suc n) target"
        using n by simp
      ultimately show ?thesis using step True i c by simp
    qed
  qed
qed

subsection \<open>Memory\<close>

text \<open>\<open>copied t s k mem\<close>: the \<open>k\<close> bytes from \<open>s\<close> on are also at \<open>t\<close>.\<close>

definition copied :: "uint32 \<Rightarrow> uint32 \<Rightarrow> nat \<Rightarrow> memory \<Rightarrow> memory" where
  "copied t s k mem a =
     (if unat t \<le> unat a \<and> unat a < unat t + k then mem (s + (a - t)) else mem a)"

definition regions_apart :: "uint32 \<Rightarrow> uint32 \<Rightarrow> nat \<Rightarrow> bool" where
  "regions_apart t s n \<longleftrightarrow> unat t + n \<le> 2 ^ 32 \<and> unat s + n \<le> 2 ^ 32 \<and>
     (unat t + n \<le> unat s \<or> unat s + n \<le> unat t)"

lemma unat_offset: "unat (a :: uint32) + k < 2 ^ 32 \<Longrightarrow> unat (a + of_nat k) = unat a + k"
  by (simp add: unat_word_ariths unat_of_nat)

lemma copied_step:
  assumes "regions_apart t s n" "k < n"
  shows "copy_byte (t + of_nat k) (s + of_nat k) (copied t s k mem) = copied t s (Suc k) mem"
proof
  fix a
  have u: "unat (t + of_nat k) = unat t + k" "unat (s + of_nat k) = unat s + k"
    using assms by (auto simp: regions_apart_def intro!: unat_offset)
  have src: "copied t s k mem (s + of_nat k) = mem (s + of_nat k)"
    using assms u(2) by (auto simp: copied_def regions_apart_def)
  show "copy_byte (t + of_nat k) (s + of_nat k) (copied t s k mem) a = copied t s (Suc k) mem a"
  proof (cases "a = t + of_nat k")
    case True
    then show ?thesis using src u(1) by (simp add: copy_byte_def copied_def)
  next
    case False
    then have "unat a \<noteq> unat t + k" using u(1) by (metis word_unat_eq_iff)
    with False show ?thesis by (auto simp: copy_byte_def copied_def)
  qed
qed

lemma copy_word_bytes:
  assumes "regions_apart t s n" "k + 3 < n"
  shows "copy_word (t + of_nat k) (s + of_nat k) mem =
    copy_byte (t + of_nat (k + 3)) (s + of_nat (k + 3)) (copy_byte (t + of_nat (k + 2)) (s + of_nat (k + 2))
     (copy_byte (t + of_nat (k + 1)) (s + of_nat (k + 1)) (copy_byte (t + of_nat k) (s + of_nat k) mem)))"
proof -
  have "t + of_nat (k + i) \<noteq> s + of_nat (k + j)" if "i < 4" "j < 4" for i j
  proof -
    have "unat t + (k + i) < 2 ^ 32" "unat s + (k + j) < 2 ^ 32"
      using assms that by (auto simp: regions_apart_def)
    then have "unat (t + of_nat (k + i)) = unat t + (k + i)" "unat (s + of_nat (k + j)) = unat s + (k + j)"
      by (simp_all only: unat_offset)
    moreover have "unat t + (k + i) \<noteq> unat s + (k + j)"
      using assms that by (auto simp: regions_apart_def)
    ultimately show ?thesis by metis
  qed
  from this [of 0 1] this [of 0 2] this [of 0 3] this [of 1 2] this [of 1 3] this [of 2 3]
  show ?thesis by (simp add: copy_word_def copy_byte_def ac_simps)
qed

lemma copied_word_step:
  assumes "regions_apart t s n" "k + 3 < n"
  shows "copy_word (t + of_nat k) (s + of_nat k) (copied t s k mem) = copied t s (k + 4) mem"
  unfolding copy_word_bytes [OF assms]
  using copied_step [OF assms(1), of k mem] copied_step [OF assms(1), of "k + 1" mem]
    copied_step [OF assms(1), of "k + 2" mem] copied_step [OF assms(1), of "k + 3" mem] assms(2)
  by (simp add: numeral_eq_Suc)

lemma copied_loop:
  assumes "regions_apart t s n" "k + m \<le> n" "j \<le> m"
  shows "for_range j m (\<lambda>i. copy_byte (t + of_nat (k + i)) (s + of_nat (k + i))) (copied t s (k + j) mem) =
    copied t s (k + m) mem"
proof (rule for_range_inv [where I = "\<lambda>i mem'. mem' = copied t s (k + i) mem"])
  fix i mem' assume "i < m" "mem' = copied t s (k + i) mem"
  then show "copy_byte (t + of_nat (k + i)) (s + of_nat (k + i)) mem' = copied t s (k + Suc i) mem"
    using copied_step [OF assms(1), of "k + i" mem] assms(2) by simp
qed (use assms(3) in simp_all)

lemma copied_word_loop:
  assumes "regions_apart t s n" "4 * m \<le> n"
  shows "for_range 0 m (\<lambda>i. copy_word (t + 4 * of_nat i) (s + 4 * of_nat i)) (copied t s 0 mem) =
    copied t s (4 * m) mem"
proof (rule for_range_inv [where I = "\<lambda>i mem'. mem' = copied t s (4 * i) mem"])
  fix i mem' assume "i < m" "mem' = copied t s (4 * i) mem"
  then show "copy_word (t + 4 * of_nat i) (s + 4 * of_nat i) mem' = copied t s (4 * Suc i) mem"
    using copied_word_step [OF assms(1), of "4 * i" mem] assms(2) by (simp add: ac_simps)
qed simp_all

lemma copied_0 [simp]: "copied t s 0 mem = mem"
  by (auto simp: copied_def fun_eq_iff)

lemma memcopy_eq:
  assumes "0 \<le> n" "regions_apart t s (nat n)"
  shows "memcopy n t s mem = copied t s (nat n) mem"
proof (cases "t mod 4 \<noteq> 0 \<or> s mod 4 \<noteq> 0")
  case True
  then show ?thesis
    using copied_loop [OF assms(2), of 0 "nat n" 0 mem] by (simp add: memcopy_def)
next
  case False
  have n: "nat (n sdiv 4) = nat n div 4" "nat (n smod 4) = nat n mod 4"
    using assms(1) by (auto simp: signed_divide_int_def signed_modulo_int_def sgn_if nat_div_distrib nat_mod_distrib)
  let ?m = "nat n div 4"
  have "for_range 0 ?m (\<lambda>i. copy_word (t + 4 * of_nat i) (s + 4 * of_nat i)) mem = copied t s (4 * ?m) mem"
    using copied_word_loop [OF assms(2), of ?m mem] by simp
  moreover have "for_range 0 (nat n mod 4) (\<lambda>i. copy_byte (t + of_nat (4 * ?m + i)) (s + of_nat (4 * ?m + i)))
      (copied t s (4 * ?m) mem) = copied t s (nat n) mem"
    using copied_loop [OF assms(2), of "4 * ?m" "nat n mod 4" 0 mem] by simp
  ultimately show ?thesis
    using False by (simp add: memcopy_def n add.assoc)
qed

subsection \<open>Numbers\<close>

lemma wrap32_small: "- (2 ^ 31) \<le> k \<Longrightarrow> k < 2 ^ 31 \<Longrightarrow> wrap32 k = k"
  by (simp add: wrap32_def signed_of_int signed_take_bit_int_eq_self)

lemma skip_space_append:
  "\<forall>c \<in> set ws. is_space c \<Longrightarrow> (s = [] \<or> \<not> is_space (hd s)) \<Longrightarrow> skip_space (ws @ s) = s"
proof (induction ws)
  case Nil
  then show ?case by (cases s) auto
next
  case (Cons c ws)
  then have "c \<noteq> NUL" by (auto simp: is_space_def NUL_def)
  with Cons show ?case by simp
qed

text \<open>The number a list of digits stands for.\<close>

definition digit_val :: "char \<Rightarrow> int" where
  "digit_val c = char_val c - char_val (CHR ''0'')"

definition number_of :: "int \<Rightarrow> string \<Rightarrow> int" where
  "number_of v ds = foldl (\<lambda>v d. 10 * v + digit_val d) v ds"

lemma digit_val_bounds: "is_digit c \<Longrightarrow> 0 \<le> digit_val c \<and> digit_val c \<le> 9"
  by (simp add: is_digit_def digit_val_def char_val_def)

lemma number_of_mono: "\<forall>c \<in> set ds. is_digit c \<Longrightarrow> 0 \<le> v \<Longrightarrow> v \<le> number_of v ds"
proof (induction ds arbitrary: v)
  case (Cons c ds)
  then have "0 \<le> digit_val c" using digit_val_bounds by simp
  then have "v \<le> 10 * v + digit_val c" "0 \<le> 10 * v + digit_val c" using Cons.prems(2) by simp_all
  with Cons.IH [of "10 * v + digit_val c"] Cons.prems(1) show ?case
    by (simp add: number_of_def)
qed (simp add: number_of_def)

lemma read_digits_eq:
  "\<forall>c \<in> set ds. is_digit c \<Longrightarrow> rest = [] \<or> \<not> is_digit (hd rest) \<Longrightarrow> sign = 1 \<or> sign = -1 \<Longrightarrow>
   0 \<le> v \<Longrightarrow> number_of v ds < 2 ^ 31 \<Longrightarrow> read_digits sign (sign * v) (ds @ rest) = sign * number_of v ds"
proof (induction ds arbitrary: v)
  case Nil
  then show ?case by (cases rest) (auto simp: number_of_def)
next
  case (Cons c ds)
  let ?v = "10 * v + digit_val c"
  have d: "0 \<le> digit_val c" using digit_val_bounds Cons.prems(1) by simp
  have "?v \<le> number_of ?v ds" using number_of_mono [of ds ?v] Cons.prems(1,4) d by simp
  moreover have "number_of v (c # ds) = number_of ?v ds" by (simp add: number_of_def)
  ultimately have lt: "?v < 2 ^ 31" using Cons.prems(5) by simp
  have "wrap32 (10 * (sign * v) + sign * digit_val c) = sign * ?v"
    using Cons.prems(3,4) d lt by (subst wrap32_small) (auto simp: algebra_simps)
  then show ?case
    using Cons.IH [of ?v] Cons.prems d \<open>number_of v (c # ds) = number_of ?v ds\<close>
    by (simp add: digit_val_def)
qed

lemma strlen_eq: "c_string s \<Longrightarrow> strlen s = int (length s)"
  by (induction s) (auto simp: c_string_def)

subsection \<open>Properties\<close>

text \<open>
  \<^verbatim>\<open>stringcmp\<close> returns 0 exactly for equal strings.
\<close>

theorem stringcmp_zero_iff:
  assumes "c_string a" "c_string b"
  shows "stringcmp a b = 0 \<longleftrightarrow> a = b"
  by (rule stringcmp_eq_0 [OF assms])

theorem stringcmp_zero_iff_witness: "stringcmp ''disk'' ''disk'' = 0 \<and> stringcmp ''disk'' ''dish'' \<noteq> 0"
  using stringcmp_zero_iff [of "''disk''" "''disk''"] stringcmp_zero_iff [of "''disk''" "''dish''"]
  by (simp add: c_string_def NUL_def)

text \<open>
  \<^verbatim>\<open>stringcopy\<close> into a buffer of at least \<^verbatim>\<open>buflen\<close> bytes writes the first
  \<^verbatim>\<open>buflen - 1\<close> characters of the source, or all of it if it is shorter, and one null after
  them; the bytes of the buffer beyond that null keep their contents (the comment in the source
  says that they are padded with nulls).
\<close>

theorem stringcopy_writes:
  assumes "c_string source" "1 \<le> buflen" "nat buflen \<le> length target"
    and "n = min (length source) (nat (buflen - 1))"
  shows "stringcopy target source buflen = Inr (take n source @ NUL # drop (Suc n) target)"
  using stringcopy_from_eq [OF assms(1,4) _ assms(2,3), of 0] by (simp add: stringcopy_def)

theorem stringcopy_writes_witness:
  "stringcopy ''xxxxxxxx'' ''abc'' 6 = Inr (''abc'' @ NUL # ''xxxx'') \<and>
   stringcopy ''xxxxxxxx'' ''abcdefgh'' 4 = Inr (''abc'' @ NUL # ''xxxx'')"
proof
  have "c_string ''abc''" "c_string ''abcdefgh''" by (simp_all add: c_string_def NUL_def)
  then show "stringcopy ''xxxxxxxx'' ''abc'' 6 = Inr (''abc'' @ NUL # ''xxxx'')"
    and "stringcopy ''xxxxxxxx'' ''abcdefgh'' 4 = Inr (''abc'' @ NUL # ''xxxx'')"
    using stringcopy_writes [where source = "''abc''" and buflen = 6 and target = "''xxxxxxxx''" and n = 3]
      stringcopy_writes [where source = "''abcdefgh''" and buflen = 4 and target = "''xxxxxxxx''" and n = 3]
    by (simp_all add: numeral_eq_Suc)
qed

text \<open>
  \<^verbatim>\<open>memcopy\<close> between two regions that do not overlap copies exactly the given number of
  bytes, whether it goes word by word or byte by byte.
\<close>

theorem memcopy_copies:
  assumes "0 \<le> n" "regions_apart target source (nat n)"
  shows "memcopy n target source mem = (\<lambda>a.
    if unat target \<le> unat a \<and> unat a < unat target + nat n then mem (source + (a - target)) else mem a)"
  unfolding memcopy_eq [OF assms] by (simp add: copied_def fun_eq_iff)

theorem memcopy_copies_witness:
  "memcopy 7 0x1000 0x2000 (\<lambda>a. if a = 0x2005 then CHR ''x'' else NUL) 0x1005 = CHR ''x''"
  using memcopy_copies [of 7 "0x1000" "0x2000"] by (simp add: regions_apart_def)

text \<open>
  \<^verbatim>\<open>atoi\<close> on white space, an optional sign and digits followed by anything that is not a
  digit returns the number the digits stand for, with its sign, as long as it fits in 31 bits.
\<close>

theorem atoi_parses:
  assumes "\<forall>c \<in> set ws. is_space c" "\<forall>c \<in> set ds. is_digit c" "ds \<noteq> []"
    and "rest = [] \<or> \<not> is_digit (hd rest)" "number_of 0 ds < 2 ^ 31"
  shows "atoi (ws @ ds @ rest) = number_of 0 ds \<and> atoi (ws @ CHR ''-'' # ds @ rest) = - number_of 0 ds"
proof
  obtain d ds' where ds: "ds = d # ds'" "is_digit d" using assms(2,3) by (cases ds) auto
  have nsp: "\<not> is_space d" "d \<noteq> NUL" "d \<noteq> CHR ''-''" "d \<noteq> CHR ''+''"
    using ds(2) by (auto simp: is_digit_def is_space_def NUL_def char_val_def)
  have "skip_space (ws @ ds @ rest) = ds @ rest"
    using skip_space_append [OF assms(1), of "ds @ rest"] ds nsp by simp
  then show "atoi (ws @ ds @ rest) = number_of 0 ds"
    using read_digits_eq [OF assms(2,4), of 1 0] assms(5) nsp ds(1) by (simp add: atoi_def)
  have "skip_space (ws @ CHR ''-'' # ds @ rest) = CHR ''-'' # ds @ rest"
    using skip_space_append [OF assms(1), of "CHR ''-'' # ds @ rest"] by (simp add: is_space_def)
  then show "atoi (ws @ CHR ''-'' # ds @ rest) = - number_of 0 ds"
    using read_digits_eq [OF assms(2,4), of "-1" 0] assms(5) by (simp add: atoi_def NUL_def)
qed

theorem atoi_parses_witness: "atoi '' -23av34'' = -23"
  using atoi_parses [of "'' ''" "''23''" "''av34''"]
  by (simp add: is_space_def is_digit_def number_of_def digit_val_def char_val_def)

end
