(* ===== verification/Gbd.thy ===== *)
theory Gbd
  imports Bitmap Libc
begin

text \<open>
  Blocks of bytes and the generic block device interface of \<^verbatim>\<open>drivers/gbd.h\<close>.  A block is
  the list of its bytes; the file system looks at the same bytes as big-endian 32-bit words, as
  the processor does.  The function pointers of a \<^verbatim>\<open>gbd_t\<close> are the fields of a record; the
  type \<open>'d\<close> is the state of the device behind it.
\<close>

type_synonym block = "char list"

subsection \<open>Words in blocks\<close>

definition enc32 :: "uint32 \<Rightarrow> char list" where
  "enc32 w = [char_of (unat w div 2 ^ 24), char_of (unat w div 2 ^ 16), char_of (unat w div 2 ^ 8), char_of (unat w)]"

definition dec32 :: "char list \<Rightarrow> uint32" where
  "dec32 cs = of_nat (foldl (\<lambda>n c. 256 * n + of_char c) 0 cs)"

definition slice :: "'a list \<Rightarrow> nat \<Rightarrow> nat \<Rightarrow> 'a list" where
  "slice b off n = take n (drop off b)"

definition splice_at :: "'a list \<Rightarrow> nat \<Rightarrow> 'a list \<Rightarrow> 'a list" where
  "splice_at b off xs = take off b @ xs @ drop (off + length xs) b"

definition get32 :: "block \<Rightarrow> nat \<Rightarrow> uint32" where
  "get32 b off = dec32 (slice b off 4)"

definition put32 :: "block \<Rightarrow> nat \<Rightarrow> uint32 \<Rightarrow> block" where
  "put32 b off w = splice_at b off (enc32 w)"

definition words_of :: "block \<Rightarrow> uint32 list" where
  "words_of b = map (\<lambda>i. get32 b (4 * i)) [0..<length b div 4]"

definition bytes_of :: "uint32 list \<Rightarrow> block" where
  "bytes_of ws = concat (map enc32 ws)"

subsection \<open>The device interface\<close>

text \<open>
  \<^verbatim>\<open>read_block\<close> and \<^verbatim>\<open>write_block\<close> are used by the file system with no semaphore in
  the request, so that they return when the request is complete: 0 for failure, anything else for
  success.  The buffer of a read is given with its old contents and returned with the new ones.
\<close>

record 'd gbd =
  read_block :: "uint32 \<Rightarrow> block \<Rightarrow> 'd \<Rightarrow> int \<times> block \<times> 'd"
  write_block :: "uint32 \<Rightarrow> block \<Rightarrow> 'd \<Rightarrow> int \<times> 'd"
  block_size :: "'d \<Rightarrow> uint32"
  total_blocks :: "'d \<Rightarrow> uint32"

text \<open>
  What a working device with blocks of 512 bytes promises: a read returns the contents of the
  block, a write changes that block only.
\<close>

locale block_device =
  fixes g :: "'d gbd" and dev_ok :: "'d \<Rightarrow> bool" and blk :: "'d \<Rightarrow> nat \<Rightarrow> block" and nblocks :: nat
  assumes read_law: "\<lbrakk>dev_ok d; unat n < nblocks; length b = 512\<rbrakk> \<Longrightarrow>
      \<exists>d'. read_block g n b d = (1, blk d (unat n), d') \<and> dev_ok d' \<and> blk d' = blk d"
    and write_law: "\<lbrakk>dev_ok d; unat n < nblocks; length b = 512\<rbrakk> \<Longrightarrow>
      \<exists>d'. write_block g n b d = (1, d') \<and> dev_ok d' \<and> blk d' = (blk d)(unat n := b)"
    and block_length: "\<lbrakk>dev_ok d; k < nblocks\<rbrakk> \<Longrightarrow> length (blk d k) = 512"

subsection \<open>Slices\<close>

lemma length_slice [simp]: "off + n \<le> length b \<Longrightarrow> length (slice b off n) = n"
  by (simp add: slice_def)

lemma length_splice_at [simp]: "off + length xs \<le> length b \<Longrightarrow> length (splice_at b off xs) = length b"
  by (simp add: splice_at_def)

lemma nth_slice: "i < n \<Longrightarrow> off + n \<le> length b \<Longrightarrow> slice b off n ! i = b ! (off + i)"
  by (simp add: slice_def)

lemma nth_splice_at:
  "off + length xs \<le> length b \<Longrightarrow> i < length b \<Longrightarrow>
   splice_at b off xs ! i = (if off \<le> i \<and> i < off + length xs then xs ! (i - off) else b ! i)"
  by (auto simp: splice_at_def nth_append min_def)

lemma slice_splice_same [simp]:
  "off + length xs \<le> length b \<Longrightarrow> n = length xs \<Longrightarrow> slice (splice_at b off xs) off n = xs"
  by (auto simp: slice_def splice_at_def)

lemma slice_splice_apart:
  "off + length xs \<le> length b \<Longrightarrow> o' + n \<le> length b \<Longrightarrow> o' + n \<le> off \<or> off + length xs \<le> o' \<Longrightarrow>
   slice (splice_at b off xs) o' n = slice b o' n"
  by (rule nth_equalityI) (auto simp: nth_slice nth_splice_at)

lemma slice_all [simp]: "n = length b \<Longrightarrow> slice b 0 n = b"
  by (simp add: slice_def)

lemma splice_slice [simp]: "off + n \<le> length b \<Longrightarrow> splice_at b off (slice b off n) = b"
  by (rule nth_equalityI) (auto simp: nth_slice nth_splice_at)

subsection \<open>Encoding of words\<close>

lemma length_enc32 [simp]: "length (enc32 w) = 4"
  by (simp add: enc32_def)

lemma bytes_join:
  fixes n :: nat
  assumes "n < 2 ^ 32"
  shows "256 * (256 * (256 * (n div 2 ^ 24 mod 256) + n div 2 ^ 16 mod 256) + n div 2 ^ 8 mod 256) + n mod 256 = n"
proof -
  define a b c where "a = n div 256" and "b = a div 256" and "c = b div 256"
  have d: "n div 2 ^ 8 = a" "n div 2 ^ 16 = b" "n div 2 ^ 24 = c"
    unfolding a_def b_def c_def by (simp_all flip: div_mult2_eq)
  have "c < 256" using assms d(3) by (simp add: less_mult_imp_div_less flip: d(3))
  then have "256 * (c mod 256) + b mod 256 = b" unfolding c_def by simp
  then have "256 * (256 * (c mod 256) + b mod 256) + a mod 256 = a" unfolding b_def by simp
  then show ?thesis unfolding d by (simp add: a_def)
qed

lemma dec_enc32 [simp]: "dec32 (enc32 w) = w"
proof -
  have "unat w < 2 ^ 32" using unsigned_less [where w = w] by simp
  from bytes_join [OF this] have "foldl (\<lambda>n c. 256 * n + of_char c) 0 (enc32 w) = unat w"
    unfolding enc32_def foldl.simps of_char_of by (simp only: mult_0_right add_0)
  then show ?thesis by (simp add: dec32_def)
qed

lemma get_put32 [simp]: "off + 4 \<le> length b \<Longrightarrow> get32 (put32 b off w) off = w"
  by (simp add: get32_def put32_def)

lemma get_put32_apart:
  "off + 4 \<le> length b \<Longrightarrow> o' + 4 \<le> length b \<Longrightarrow> o' + 4 \<le> off \<or> off + 4 \<le> o' \<Longrightarrow>
   get32 (put32 b off w) o' = get32 b o'"
  by (simp add: get32_def put32_def slice_splice_apart)

lemma length_put32 [simp]: "off + 4 \<le> length b \<Longrightarrow> length (put32 b off w) = length b"
  by (simp add: put32_def)

lemma length_bytes_of [simp]: "length (bytes_of ws) = 4 * length ws"
  by (induction ws) (simp_all add: bytes_of_def)

lemma length_words_of [simp]: "length (words_of b) = length b div 4"
  by (simp add: words_of_def)

lemma get32_bytes_of: "i < length ws \<Longrightarrow> get32 (bytes_of ws) (4 * i) = ws ! i"
proof (induction ws arbitrary: i)
  case (Cons w ws)
  then show ?case
    by (cases i) (simp_all add: get32_def bytes_of_def slice_def)
qed simp

lemma words_bytes_of [simp]: "words_of (bytes_of ws) = ws"
  by (rule nth_equalityI) (simp_all add: words_of_def get32_bytes_of)

subsection \<open>A disk in memory\<close>

text \<open>
  The simplest device that keeps the promise, a list of blocks; reads and writes beyond its end
  fail.
\<close>

definition mem_gbd :: "block list gbd" where
  "mem_gbd =
     \<lparr>read_block = \<lambda>n b d. if unat n < length d then (1, d ! unat n, d) else (0, b, d),
      write_block = \<lambda>n b d. if unat n < length d then (1, d[unat n := b]) else (0, d),
      block_size = \<lambda>d. 512,
      total_blocks = \<lambda>d. of_nat (length d)\<rparr>"

definition mem_ok :: "nat \<Rightarrow> block list \<Rightarrow> bool" where
  "mem_ok n d \<longleftrightarrow> length d = n \<and> (\<forall>b \<in> set d. length b = 512)"

definition mem_blk :: "block list \<Rightarrow> nat \<Rightarrow> block" where
  "mem_blk d n = (if n < length d then d ! n else [])"

interpretation mem: block_device mem_gbd "mem_ok n" mem_blk n
proof
  fix d :: "block list" and k :: uint32 and b :: block
  assume d: "mem_ok n d" "unat k < n" "length b = 512"
  then show "\<exists>d'. read_block mem_gbd k b d = (1, mem_blk d (unat k), d') \<and> mem_ok n d' \<and> mem_blk d' = mem_blk d"
    by (simp add: mem_gbd_def mem_ok_def mem_blk_def)
  have "mem_ok n (d[unat k := b])"
    using d by (auto simp: mem_ok_def dest: set_update_subset_insert [THEN subsetD])
  moreover have "mem_blk (d[unat k := b]) = (mem_blk d)(unat k := b)"
    using d by (auto simp: mem_ok_def mem_blk_def)
  ultimately show "\<exists>d'. write_block mem_gbd k b d = (1, d') \<and> mem_ok n d' \<and> mem_blk d' = (mem_blk d)(unat k := b)"
    using d by (simp add: mem_gbd_def mem_ok_def)
next
  fix d :: "block list" and k
  assume "mem_ok n d" "k < n"
  then show "length (mem_blk d k) = 512" by (simp add: mem_ok_def mem_blk_def)
qed

end
