(* ===== verification/Disk.thy ===== *)
theory Disk
  imports Interrupt Gbd
begin

text \<open>
  The disk driver, \<^verbatim>\<open>drivers/disk.c\<close>, and its scheduler, \<^verbatim>\<open>drivers/disksched.c\<close>: requests are linked
  into a queue, the device works on one request at a time, and its interrupt completes the request
  and starts the next one.

  The device itself is a parameter: \<open>disk_io\<close> has the reads and writes of the registers of its io
  area, and \<open>io_finish\<close> is the end of its work on a command, with the transfer between the disk and
  the memory.  Requests and buffers are found by their addresses, and the state of the kernel below is
  a field of the driver's state.
\<close>

subsection \<open>Data\<close>

datatype gbd_operation_t = GBD_OPERATION_READ | GBD_OPERATION_WRITE

record gbd_request_t =
  rq_block :: uint32
  rq_buf :: uint32
  rq_sem :: "int option"
  rq_operation :: gbd_operation_t
  rq_internal :: uint32
  rq_next :: uint32
  rq_return_value :: int

record device_t =
  real_device :: uint32
  generic_device :: uint32
  dev_descriptor :: uint32
  dev_io_address :: uint32
  dev_type :: uint32

record 'h disk_io =
  io_status :: "'h \<Rightarrow> uint32"
  io_data :: "'h \<Rightarrow> uint32"
  io_command :: "uint32 \<Rightarrow> 'h \<Rightarrow> 'h"
  io_tsector :: "uint32 \<Rightarrow> 'h \<Rightarrow> 'h"
  io_dmaaddr :: "uint32 \<Rightarrow> 'h \<Rightarrow> 'h"
  io_finish :: "(uint32 \<Rightarrow> block) \<Rightarrow> 'h \<Rightarrow> (uint32 \<Rightarrow> block) \<times> 'h"

record ('h, 'a) disk =
  request_at :: "uint32 \<Rightarrow> gbd_request_t"
  disk_slock :: uint32
  request_queue :: uint32
  request_served :: uint32
  buffer_at :: "uint32 \<Rightarrow> block"
  disk_hw :: 'h
  disk_kernel :: "'a sems_scheme"

abbreviation DISK_COMMAND_READ :: uint32 where "DISK_COMMAND_READ \<equiv> 0x1"
abbreviation DISK_COMMAND_WRITE :: uint32 where "DISK_COMMAND_WRITE \<equiv> 0x2"
abbreviation DISK_COMMAND_RIRQ :: uint32 where "DISK_COMMAND_RIRQ \<equiv> 0x3"
abbreviation DISK_COMMAND_WIRQ :: uint32 where "DISK_COMMAND_WIRQ \<equiv> 0x4"
abbreviation DISK_COMMAND_BLOCKS :: uint32 where "DISK_COMMAND_BLOCKS \<equiv> 0x5"
abbreviation DISK_COMMAND_BLOCKSIZE :: uint32 where "DISK_COMMAND_BLOCKSIZE \<equiv> 0x6"

definition DISK_STATUS_RBUSY :: "uint32 \<Rightarrow> uint32" where "DISK_STATUS_RBUSY status = status AND 0x00000001"
definition DISK_STATUS_WBUSY :: "uint32 \<Rightarrow> uint32" where "DISK_STATUS_WBUSY status = status AND 0x00000002"
definition DISK_STATUS_RIRQ :: "uint32 \<Rightarrow> uint32" where "DISK_STATUS_RIRQ status = status AND 0x00000004"
definition DISK_STATUS_WIRQ :: "uint32 \<Rightarrow> uint32" where "DISK_STATUS_WIRQ status = status AND 0x00000008"
definition DISK_STATUS_ERRORS :: "uint32 \<Rightarrow> uint32" where "DISK_STATUS_ERRORS status = status AND 0xf8000000"

subsection \<open>The queue\<close>

definition rq_upd :: "uint32 \<Rightarrow> (gbd_request_t \<Rightarrow> gbd_request_t) \<Rightarrow> ('h, 'a) disk \<Rightarrow> ('h, 'a) disk" where
  "rq_upd r f d = d\<lparr>request_at := (request_at d)(r := f (request_at d r))\<rparr>"

text \<open>
  The walk to the end of the queue.  The bound is the number of addresses: a queue without a cycle
  is shorter.
\<close>

function queue_end :: "nat \<Rightarrow> (uint32 \<Rightarrow> gbd_request_t) \<Rightarrow> uint32 \<Rightarrow> uint32 kres" where
  "queue_end n R q =
     (if rq_next (R q) \<noteq> 0 then if n = 0 then Inl Deadlock else queue_end (n - 1) R (rq_next (R q)) else Inr q)"
  by pat_completeness auto
termination
  by (relation "measure (\<lambda>(n, R, q). n)") auto

declare queue_end.simps [simp del]

definition disksched_schedule :: "uint32 \<Rightarrow> ('h, 'a) disk \<Rightarrow> ('h, 'a) disk kres" where
  "disksched_schedule request d =
     (if request_queue d \<noteq> 0 then
        bindE (queue_end (2 ^ 32) (request_at d) (request_queue d)) (\<lambda>q.
        Inr (rq_upd q (\<lambda>e. e\<lparr>rq_next := request\<rparr>) d))
      else Inr (d\<lparr>request_queue := request\<rparr>))"

subsection \<open>The driver\<close>

text \<open>
  \<open>addr\<close> is the address of the disk's descriptor, \<open>desc\<close> the descriptor and \<open>handler\<close> the address of
  \<^verbatim>\<open>disk_interrupt_handle\<close>.  The driver's structures are the record \<open>disk\<close>; their memory is taken.
\<close>

definition disk_init ::
  "uint32 \<Rightarrow> uint32 \<Rightarrow> io_descriptor \<Rightarrow> ('h, 'b intr_ext) disk \<Rightarrow> (uint32 \<times> device_t \<times> ('h, 'b intr_ext) disk) kres"
where
  "disk_init handler addr desc d =
     bindE (kmalloc 20 (disk_kernel d)) (\<lambda>(dev, k).
     bindE (kmalloc 20 k) (\<lambda>(gbd, k).
     bindE (kmalloc 12 k) (\<lambda>(real_dev, k).
     if dev = 0 \<or> gbd = 0 \<or> real_dev = 0 then KERNEL_PANIC ''Could not allocate memory for disk driver.''
     else
       let device = \<lparr>real_device = real_dev, generic_device = gbd, dev_descriptor = addr,
             dev_io_address = io_area_base desc, dev_type = iod_type desc\<rparr>;
           d = d\<lparr>disk_slock := spinlock_reset (disk_slock d), request_queue := 0, request_served := 0\<rparr>;
           irq_mask = push_bit (unat (iod_irq desc + 10)) 1
       in bindE (interrupt_register irq_mask handler dev k) (\<lambda>k.
          Inr (dev, device, d\<lparr>disk_kernel := k\<rparr>)))))"

definition disk_next_request :: "'h disk_io \<Rightarrow> ('h, 'a) disk \<Rightarrow> ('h, 'a) disk kres" where
  "disk_next_request io d =
     KERNEL_ASSERT (\<not> (DISK_STATUS_RBUSY (io_status io (disk_hw d)) \<noteq> 0 \<or> DISK_STATUS_WBUSY (io_status io (disk_hw d)) \<noteq> 0))
    (KERNEL_ASSERT (request_served d = 0)
    (let req = request_queue d
     in if req = 0 then Inr d
        else
          let d = d\<lparr>request_queue := rq_next (request_at d req)\<rparr>;
              d = rq_upd req (\<lambda>e. e\<lparr>rq_next := 0\<rparr>) d;
              d = d\<lparr>request_served := req\<rparr>;
              d = d\<lparr>disk_hw := io_tsector io (rq_block (request_at d req)) (disk_hw d)\<rparr>;
              d = d\<lparr>disk_hw := io_dmaaddr io (rq_buf (request_at d req)) (disk_hw d)\<rparr>;
              d = d\<lparr>disk_hw := io_command io (case rq_operation (request_at d req) of
                      GBD_OPERATION_READ \<Rightarrow> DISK_COMMAND_READ | GBD_OPERATION_WRITE \<Rightarrow> DISK_COMMAND_WRITE) (disk_hw d)\<rparr>
          in if DISK_STATUS_ERRORS (io_status io (disk_hw d)) \<noteq> 0 then KERNEL_PANIC ''disk error occured''
             else Inr d))"

text \<open>A semaphore pointer of a request is used only after it has been found not to be null.\<close>

definition disk_interrupt_handle :: "'h disk_io \<Rightarrow> uint32 \<Rightarrow> ('h, 'a) disk \<Rightarrow> ('h, 'a) disk kres" where
  "disk_interrupt_handle io base d =
     bindE (spinlock_acquire (disk_slock d)) (\<lambda>l.
     let d = d\<lparr>disk_slock := l\<rparr> in
     if \<not> (DISK_STATUS_RIRQ (io_status io (disk_hw d)) \<noteq> 0 \<or> DISK_STATUS_WIRQ (io_status io (disk_hw d)) \<noteq> 0)
     then Inr (d\<lparr>disk_slock := spinlock_release (disk_slock d)\<rparr>)
     else
       let d = d\<lparr>disk_hw := io_command io DISK_COMMAND_WIRQ (disk_hw d)\<rparr>;
           d = d\<lparr>disk_hw := io_command io DISK_COMMAND_RIRQ (disk_hw d)\<rparr>
       in KERNEL_ASSERT (request_served d \<noteq> 0)
         (let d = rq_upd (request_served d) (\<lambda>e. e\<lparr>rq_return_value := 0\<rparr>) d
          in case rq_sem (request_at d (request_served d)) of
               None \<Rightarrow> Inl Fault
             | Some sem \<Rightarrow>
                 bindE (semaphore_V base sem (disk_kernel d)) (\<lambda>k.
                 bindE (disk_next_request io (d\<lparr>disk_kernel := k, request_served := 0\<rparr>)) (\<lambda>d.
                 Inr (d\<lparr>disk_slock := spinlock_release (disk_slock d)\<rparr>)))))"

text \<open>
  \<^verbatim>\<open>disk_submit_request\<close> up to the point where a synchronous request waits.  The result is the
  value returned at once, or \<open>None\<close> when the thread goes on to wait.
\<close>

definition disk_submit :: "'h disk_io \<Rightarrow> uint32 \<Rightarrow> ('h, 'a) disk \<Rightarrow> (int option \<times> ('h, 'a) disk) kres" where
  "disk_submit io request d =
     (let d = rq_upd request (\<lambda>e. e\<lparr>rq_internal := 0, rq_next := 0, rq_return_value := -1\<rparr>) d;
          sem_null = (rq_sem (request_at d request) = None)
      in bindE (if sem_null then
                  bindE (semaphore_create 0 (disk_kernel d)) (\<lambda>(sem, k).
                  Inr (sem, rq_upd request (\<lambda>e. e\<lparr>rq_sem := sem\<rparr>) (d\<lparr>disk_kernel := k\<rparr>)))
                else Inr (rq_sem (request_at d request), d)) (\<lambda>(sem, d).
         if sem = None then Inr (Some 0, d)
         else
           let (intr_status, k) = interrupt_disable (disk_kernel d) in
           bindE (spinlock_acquire (disk_slock d)) (\<lambda>l.
           bindE (disksched_schedule request (d\<lparr>disk_kernel := k, disk_slock := l\<rparr>)) (\<lambda>d.
           bindE (if request_served d = 0 then disk_next_request io d else Inr d) (\<lambda>d.
           let d = d\<lparr>disk_slock := spinlock_release (disk_slock d), disk_kernel := interrupt_set_state intr_status (disk_kernel d)\<rparr>
           in Inr (if sem_null then None else Some 1, d))))))"

text \<open>The rest of \<^verbatim>\<open>disk_submit_request\<close>, when \<^verbatim>\<open>semaphore_P\<close> has returned.\<close>

definition disk_submit_finish :: "uint32 \<Rightarrow> ('h, 'a) disk \<Rightarrow> (int \<times> ('h, 'a) disk) kres" where
  "disk_submit_finish request d =
     (case rq_sem (request_at d request) of
        None \<Rightarrow> Inl Fault
      | Some sem \<Rightarrow>
          bindE (semaphore_destroy sem (disk_kernel d)) (\<lambda>k.
          let d = rq_upd request (\<lambda>e. e\<lparr>rq_sem := None\<rparr>) (d\<lparr>disk_kernel := k\<rparr>)
          in Inr (if rq_return_value (request_at d request) = 0 then 1 else 0, d)))"

text \<open>
  The whole of \<^verbatim>\<open>disk_submit_request\<close>.  \<open>None\<close> says that \<^verbatim>\<open>semaphore_P\<close> has given up the
  processor; when the thread runs again it goes on with \<open>disk_submit_finish\<close>.
\<close>

definition disk_submit_request :: "'h disk_io \<Rightarrow> uint32 \<Rightarrow> uint32 \<Rightarrow> ('h, 'a) disk \<Rightarrow> (int option \<times> ('h, 'a) disk) kres" where
  "disk_submit_request io base request d =
     bindE (disk_submit io request d) (\<lambda>(r, d).
     case r of Some v \<Rightarrow> Inr (Some v, d)
     | None \<Rightarrow>
         (case rq_sem (request_at d request) of
            None \<Rightarrow> Inl Fault
          | Some sem \<Rightarrow>
              bindE (semaphore_P base sem (disk_kernel d)) (\<lambda>run.
              case run of
                Returned k \<Rightarrow> bindE (disk_submit_finish request (d\<lparr>disk_kernel := k\<rparr>)) (\<lambda>(v, d). Inr (Some v, d))
              | Switched st k \<Rightarrow> Inr (None, d\<lparr>disk_kernel := k\<rparr>))))"

definition disk_read_block :: "'h disk_io \<Rightarrow> uint32 \<Rightarrow> uint32 \<Rightarrow> ('h, 'a) disk \<Rightarrow> (int option \<times> ('h, 'a) disk) kres" where
  "disk_read_block io base request d =
     disk_submit_request io base request (rq_upd request (\<lambda>e. e\<lparr>rq_operation := GBD_OPERATION_READ\<rparr>) d)"

definition disk_write_block :: "'h disk_io \<Rightarrow> uint32 \<Rightarrow> uint32 \<Rightarrow> ('h, 'a) disk \<Rightarrow> (int option \<times> ('h, 'a) disk) kres" where
  "disk_write_block io base request d =
     disk_submit_request io base request (rq_upd request (\<lambda>e. e\<lparr>rq_operation := GBD_OPERATION_WRITE\<rparr>) d)"

text \<open>The common part of \<^verbatim>\<open>disk_block_size\<close> and \<^verbatim>\<open>disk_total_blocks\<close>.\<close>

definition disk_query :: "'h disk_io \<Rightarrow> uint32 \<Rightarrow> ('h, 'a) disk \<Rightarrow> (uint32 \<times> ('h, 'a) disk) kres" where
  "disk_query io command d =
     (let (intr_status, k) = interrupt_disable (disk_kernel d) in
      bindE (spinlock_acquire (disk_slock d)) (\<lambda>l.
      let d = d\<lparr>disk_kernel := k, disk_slock := l\<rparr>;
          d = d\<lparr>disk_hw := io_command io command (disk_hw d)\<rparr>;
          ret = io_data io (disk_hw d);
          d = d\<lparr>disk_slock := spinlock_release (disk_slock d), disk_kernel := interrupt_set_state intr_status (disk_kernel d)\<rparr>
      in Inr (ret, d)))"

definition disk_block_size :: "'h disk_io \<Rightarrow> ('h, 'a) disk \<Rightarrow> (uint32 \<times> ('h, 'a) disk) kres" where
  "disk_block_size io d = disk_query io DISK_COMMAND_BLOCKSIZE d"

definition disk_total_blocks :: "'h disk_io \<Rightarrow> ('h, 'a) disk \<Rightarrow> (uint32 \<times> ('h, 'a) disk) kres" where
  "disk_total_blocks io d = disk_query io DISK_COMMAND_BLOCKS d"

end
