(* ===== verification/Disk_Spec.thy ===== *)
theory Disk_Spec
  imports Disk
begin

text \<open>
  What the disk driver guarantees on a working device: requests are served one at a time in the order
  of their submission whatever the interleaving of submissions and interrupts, and a synchronous
  request is a read or write of one block, so that the driver is a block device.
\<close>

subsection \<open>The device\<close>

text \<open>What the device is doing, as its registers show it.\<close>

datatype disk_phase = Idle | Busy gbd_operation_t uint32 uint32 | Finished

definition command_of :: "gbd_operation_t \<Rightarrow> uint32" where
  "command_of op = (case op of GBD_OPERATION_READ \<Rightarrow> DISK_COMMAND_READ | GBD_OPERATION_WRITE \<Rightarrow> DISK_COMMAND_WRITE)"

text \<open>The transfer of one block between the disk and the memory.\<close>

definition transfer_mem :: "gbd_operation_t \<Rightarrow> nat \<Rightarrow> uint32 \<Rightarrow> (nat \<Rightarrow> block) \<Rightarrow> (uint32 \<Rightarrow> block) \<Rightarrow> uint32 \<Rightarrow> block" where
  "transfer_mem op b a B M = (case op of GBD_OPERATION_READ \<Rightarrow> M(a := B b) | GBD_OPERATION_WRITE \<Rightarrow> M)"

definition transfer_blk :: "gbd_operation_t \<Rightarrow> nat \<Rightarrow> uint32 \<Rightarrow> (nat \<Rightarrow> block) \<Rightarrow> (uint32 \<Rightarrow> block) \<Rightarrow> nat \<Rightarrow> block" where
  "transfer_blk op b a B M = (case op of GBD_OPERATION_READ \<Rightarrow> B | GBD_OPERATION_WRITE \<Rightarrow> B(b := M a))"

text \<open>
  The YAMS disk with \<open>n\<close> blocks of 512 bytes as the driver uses it: \<open>phase\<close> is what it is doing and
  \<open>blk\<close> its contents.  It takes a command when idle, raises an interrupt when the transfer is done
  and is idle again when the driver has cleared the interrupt.
\<close>

locale yams_disk =
  fixes io :: "'h disk_io" and hok :: "'h \<Rightarrow> bool" and phase :: "'h \<Rightarrow> disk_phase" and blk :: "'h \<Rightarrow> nat \<Rightarrow> block" and n :: nat
  assumes idle_status: "\<lbrakk>hok h; phase h = Idle\<rbrakk> \<Longrightarrow> DISK_STATUS_RBUSY (io_status io h) = 0 \<and> DISK_STATUS_WBUSY (io_status io h) = 0 \<and>
      DISK_STATUS_RIRQ (io_status io h) = 0 \<and> DISK_STATUS_WIRQ (io_status io h) = 0"
    and busy_status: "\<lbrakk>hok h; phase h = Busy op b a\<rbrakk> \<Longrightarrow> DISK_STATUS_RIRQ (io_status io h) = 0 \<and> DISK_STATUS_WIRQ (io_status io h) = 0"
    and finished_status: "\<lbrakk>hok h; phase h = Finished\<rbrakk> \<Longrightarrow> DISK_STATUS_RIRQ (io_status io h) \<noteq> 0 \<or> DISK_STATUS_WIRQ (io_status io h) \<noteq> 0"
    and start: "\<lbrakk>hok h; phase h = Idle; unat b < n; h' = io_command io (command_of op) (io_dmaaddr io a (io_tsector io b h))\<rbrakk> \<Longrightarrow>
      hok h' \<and> phase h' = Busy op b a \<and> blk h' = blk h \<and> DISK_STATUS_ERRORS (io_status io h') = 0"
    and finish: "\<lbrakk>hok h; phase h = Busy op b a; length (M a) = 512; io_finish io M h = (M', h')\<rbrakk> \<Longrightarrow>
      hok h' \<and> phase h' = Finished \<and> M' = transfer_mem op (unat b) a (blk h) M \<and> blk h' = transfer_blk op (unat b) a (blk h) M"
    and acknowledge: "\<lbrakk>hok h; phase h = Finished; h' = io_command io DISK_COMMAND_RIRQ (io_command io DISK_COMMAND_WIRQ h)\<rbrakk> \<Longrightarrow>
      hok h' \<and> phase h' = Idle \<and> blk h' = blk h"
    and query: "\<lbrakk>hok h; c = DISK_COMMAND_BLOCKS \<or> c = DISK_COMMAND_BLOCKSIZE; h' = io_command io c h\<rbrakk> \<Longrightarrow>
      hok h' \<and> phase h' = phase h \<and> blk h' = blk h \<and> io_data io h' = (if c = DISK_COMMAND_BLOCKS then of_nat n else 512)"
    and block_length: "\<lbrakk>hok h; k < n\<rbrakk> \<Longrightarrow> length (blk h k) = 512"

subsection \<open>Queues of requests\<close>

fun rq_list :: "(uint32 \<Rightarrow> gbd_request_t) \<Rightarrow> uint32 \<Rightarrow> uint32 list \<Rightarrow> bool" where
  "rq_list R q [] \<longleftrightarrow> q = 0"
| "rq_list R q (r # rs) \<longleftrightarrow> q = r \<and> r \<noteq> 0 \<and> rq_list R (rq_next (R r)) rs"

lemma rq_list_cong: "(\<And>r. r \<in> set rs \<Longrightarrow> rq_next (R' r) = rq_next (R r)) \<Longrightarrow> rq_list R' q rs = rq_list R q rs"
  by (induction rs arbitrary: q) auto

lemma rq_list_empty: "rq_list R q rs \<Longrightarrow> q = 0 \<longleftrightarrow> rs = []"
  by (cases rs) auto

lemma rq_list_append:
  assumes "rq_list R q (rs @ [l])" "distinct (rs @ [l])" "r \<notin> set (rs @ [l])" "r \<noteq> 0" "rq_next (R r) = 0"
  shows "rq_list (R(l := (R l)\<lparr>rq_next := r\<rparr>)) q (rs @ [l, r])"
  using assms by (induction rs arbitrary: q) auto

lemma queue_end_last:
  "rq_list R q (rs @ [l]) \<Longrightarrow> length rs \<le> m \<Longrightarrow> queue_end m R q = Inr l"
proof (induction rs arbitrary: q m)
  case (Cons r rs)
  then show ?case by (cases rs) (auto simp: queue_end.simps [of m R r])
qed (simp add: queue_end.simps)

lemma distinct_words: "distinct (rs :: uint32 list) \<Longrightarrow> length rs \<le> 2 ^ 32"
proof -
  assume "distinct rs"
  then have "length rs = card (set rs)" by (simp add: distinct_card)
  also have "\<dots> \<le> card (UNIV :: uint32 set)" by (rule card_mono) simp_all
  finally show ?thesis by (simp add: card_word)
qed

subsection \<open>The invariant\<close>

definition request_ok :: "nat \<Rightarrow> ('h, 'a) disk \<Rightarrow> uint32 \<Rightarrow> bool" where
  "request_ok n d r \<longleftrightarrow> r \<noteq> 0 \<and> unat (rq_block (request_at d r)) < n \<and> (\<exists>i. rq_sem (request_at d r) = Some i \<and> live (disk_kernel d) i)"

text \<open>
  \<open>outstanding phase n d js\<close>: the requests \<open>js\<close> have been submitted and not completed, oldest first; the
  device works on the first or has finished it, and the others are in the queue.
\<close>

definition outstanding :: "('h \<Rightarrow> disk_phase) \<Rightarrow> nat \<Rightarrow> ('h, 'a) disk \<Rightarrow> uint32 list \<Rightarrow> bool" where
  "outstanding phase n d js \<longleftrightarrow> disk_slock d = 0 \<and> distinct js \<and> (\<forall>r \<in> set js. request_ok n d r) \<and>
     (case js of
        [] \<Rightarrow> request_served d = 0 \<and> request_queue d = 0 \<and> phase (disk_hw d) = Idle
      | r # rs \<Rightarrow> request_served d = r \<and> rq_list (request_at d) (request_queue d) rs \<and>
          (phase (disk_hw d) = Busy (rq_operation (request_at d r)) (rq_block (request_at d r)) (rq_buf (request_at d r)) \<or>
           phase (disk_hw d) = Finished))"

lemma request_ok_cong:
  "rq_block (request_at d' r) = rq_block (request_at d r) \<Longrightarrow> rq_sem (request_at d' r) = rq_sem (request_at d r) \<Longrightarrow>
   (\<And>i. live (disk_kernel d) i \<Longrightarrow> live (disk_kernel d') i) \<Longrightarrow> request_ok n d r \<Longrightarrow> request_ok n d' r"
  by (auto simp: request_ok_def)

text \<open>The device ends its work on a command; the driver is not involved.\<close>

definition disk_finish :: "'h disk_io \<Rightarrow> ('h, 'a) disk \<Rightarrow> ('h, 'a) disk" where
  "disk_finish io d = (let (M, h) = io_finish io (buffer_at d) (disk_hw d) in d\<lparr>buffer_at := M, disk_hw := h\<rparr>)"

text \<open>
  What happens to the driver: a thread submits a request with a semaphore, the device finishes, or its
  interrupt is handled.
\<close>

datatype disk_event = Submit uint32 | Finish | Interrupt

fun disk_do :: "'h disk_io \<Rightarrow> uint32 \<Rightarrow> disk_event \<Rightarrow> ('h, 'a) disk \<Rightarrow> ('h, 'a) disk kres" where
  "disk_do io base (Submit r) d = bindE (disk_submit io r d) (\<lambda>(v, d). Inr d)"
| "disk_do io base Finish d = Inr (disk_finish io d)"
| "disk_do io base Interrupt d = disk_interrupt_handle io base d"

fun disk_run :: "'h disk_io \<Rightarrow> uint32 \<Rightarrow> disk_event list \<Rightarrow> ('h, 'a) disk \<Rightarrow> ('h, 'a) disk kres" where
  "disk_run io base [] d = Inr d"
| "disk_run io base (e # es) d = bindE (disk_do io base e d) (disk_run io base es)"

text \<open>
  The specification: a queue of requests, whether the transfer of the first one is done, and the
  contents of disk and memory.  The device finishes only when it has something to do; an interrupt
  takes the first request out of the queue if its transfer is done and otherwise does nothing.
\<close>

type_synonym disk_state = "uint32 list \<times> bool \<times> (nat \<Rightarrow> block) \<times> (uint32 \<Rightarrow> block)"

fun spec_do :: "(uint32 \<Rightarrow> gbd_request_t) \<Rightarrow> disk_event \<Rightarrow> disk_state \<Rightarrow> disk_state option" where
  "spec_do R (Submit r) (js, t, B, M) = (if r \<in> set js then None else Some (js @ [r], t, B, M))"
| "spec_do R Finish (js, t, B, M) =
     (if js = [] \<or> t then None
      else let e = R (hd js)
           in Some (js, True, transfer_blk (rq_operation e) (unat (rq_block e)) (rq_buf e) B M,
                transfer_mem (rq_operation e) (unat (rq_block e)) (rq_buf e) B M))"
| "spec_do R Interrupt (js, t, B, M) = Some (if t then tl js else js, False, B, M)"

fun spec_run :: "(uint32 \<Rightarrow> gbd_request_t) \<Rightarrow> disk_event list \<Rightarrow> disk_state \<Rightarrow> disk_state option" where
  "spec_run R [] s = Some s"
| "spec_run R (e # es) s = (case spec_do R e s of None \<Rightarrow> None | Some s' \<Rightarrow> spec_run R es s')"

definition submitted :: "disk_event list \<Rightarrow> uint32 set" where
  "submitted es = {r. Submit r \<in> set es}"

text \<open>
  A synchronous request on an idle driver whose device finishes before the thread waits: what
  \<^verbatim>\<open>disk_submit_request\<close> does with the interrupt taken when interrupts are enabled again.
\<close>

definition disk_sync :: "'h disk_io \<Rightarrow> uint32 \<Rightarrow> uint32 \<Rightarrow> ('h, 'a) disk \<Rightarrow> (int \<times> ('h, 'a) disk) kres" where
  "disk_sync io base request d =
     bindE (disk_submit io request d) (\<lambda>(r, d).
     case r of Some v \<Rightarrow> Inr (v, d)
     | None \<Rightarrow>
         bindE (disk_interrupt_handle io base (disk_finish io d)) (\<lambda>d.
         case rq_sem (request_at d request) of
           None \<Rightarrow> Inl Fault
         | Some sem \<Rightarrow>
             bindE (semaphore_P base sem (disk_kernel d)) (\<lambda>run.
             case run of
               Returned k \<Rightarrow> disk_submit_finish request (d\<lparr>disk_kernel := k\<rparr>)
             | Switched st k \<Rightarrow> Inl Deadlock)))"

text \<open>
  The driver as a block device for the file system: \<open>request\<close> and \<open>buf\<close> are the addresses of the
  caller's request descriptor and buffer.
\<close>

definition rw_block :: "'h disk_io \<Rightarrow> uint32 \<Rightarrow> uint32 \<Rightarrow> uint32 \<Rightarrow> gbd_operation_t \<Rightarrow> uint32 \<Rightarrow> block \<Rightarrow> ('h, 'a) disk \<Rightarrow> int \<times> ('h, 'a) disk" where
  "rw_block io base request buf op b data d =
     (case disk_sync io base request (d\<lparr>buffer_at := (buffer_at d)(buf := data), request_at := (request_at d)(request :=
             \<lparr>rq_block = b, rq_buf = buf, rq_sem = None, rq_operation = op, rq_internal = 0, rq_next = 0, rq_return_value = 0\<rparr>)\<rparr>) of
        Inl e \<Rightarrow> (0, d)
      | Inr (v, d') \<Rightarrow> (v, d'))"

definition disk_gbd :: "'h disk_io \<Rightarrow> uint32 \<Rightarrow> uint32 \<Rightarrow> uint32 \<Rightarrow> ('h, 'a) disk gbd" where
  "disk_gbd io base request buf =
     \<lparr>read_block = \<lambda>b data d. let (v, d') = rw_block io base request buf GBD_OPERATION_READ b data d in (v, buffer_at d' buf, d'),
      write_block = \<lambda>b data d. rw_block io base request buf GBD_OPERATION_WRITE b data d,
      block_size = \<lambda>d. (case disk_block_size io d of Inl e \<Rightarrow> 0 | Inr (v, d') \<Rightarrow> v),
      total_blocks = \<lambda>d. (case disk_total_blocks io d of Inl e \<Rightarrow> 0 | Inr (v, d') \<Rightarrow> v)\<rparr>"

text \<open>An idle driver with a semaphore to spare.\<close>

definition disk_ready :: "('h \<Rightarrow> bool) \<Rightarrow> ('h \<Rightarrow> disk_phase) \<Rightarrow> nat \<Rightarrow> uint32 \<Rightarrow> ('h, 'a) disk \<Rightarrow> bool" where
  "disk_ready hok phase n base d \<longleftrightarrow> outstanding phase n d [] \<and> hok (disk_hw d) \<and> free_sems (disk_kernel d) \<noteq> {} \<and>
     (\<exists>ks qs. sems_ok base (disk_kernel d) ks qs)"

context yams_disk
begin

lemma next_request_none: "hok (disk_hw d) \<Longrightarrow> phase (disk_hw d) = Idle \<Longrightarrow> request_served d = 0 \<Longrightarrow> request_queue d = 0 \<Longrightarrow>
  disk_next_request io d = Inr d"
  using idle_status by (simp add: disk_next_request_def KERNEL_ASSERT_def)

lemma next_request_start:
  assumes "hok (disk_hw d)" "phase (disk_hw d) = Idle" "request_served d = 0" "request_queue d = r" "r \<noteq> 0"
    "unat (rq_block (request_at d r)) < n"
  obtains h where "disk_next_request io d = Inr (d\<lparr>request_queue := rq_next (request_at d r),
      request_at := (request_at d)(r := (request_at d r)\<lparr>rq_next := 0\<rparr>), request_served := r, disk_hw := h\<rparr>)"
    "hok h" "phase h = Busy (rq_operation (request_at d r)) (rq_block (request_at d r)) (rq_buf (request_at d r))" "blk h = blk (disk_hw d)"
proof -
  let ?h = "io_command io (command_of (rq_operation (request_at d r)))
      (io_dmaaddr io (rq_buf (request_at d r)) (io_tsector io (rq_block (request_at d r)) (disk_hw d)))"
  have h: "hok ?h" "phase ?h = Busy (rq_operation (request_at d r)) (rq_block (request_at d r)) (rq_buf (request_at d r))"
    "blk ?h = blk (disk_hw d)" "DISK_STATUS_ERRORS (io_status io ?h) = 0"
    using start [OF assms(1,2,6) refl] by auto
  show ?thesis
    by (rule that [of ?h])
      (use assms(3-5) idle_status [OF assms(1,2)] h in \<open>simp_all add: disk_next_request_def KERNEL_ASSERT_def Let_def rq_upd_def command_of_def\<close>)
qed

text \<open>A request that has been prepared is put at the end of the queue and started if the device is idle.\<close>

definition enqueue :: "uint32 \<Rightarrow> ('h, 'a) disk \<Rightarrow> ('h, 'a) disk kres" where
  "enqueue r d = bindE (disksched_schedule r d) (\<lambda>d. if request_served d = 0 then disk_next_request io d else Inr d)"

lemma enqueue_run:
  assumes inv: "outstanding phase n (d\<lparr>disk_slock := 0\<rparr>) js" and hw: "hok (disk_hw d)"
    and r: "r \<notin> set js" "request_ok n d r" "rq_next (request_at d r) = 0"
  obtains R h Q S where "enqueue r d = Inr (d\<lparr>request_at := R, request_queue := Q, request_served := S, disk_hw := h\<rparr>)"
    "outstanding phase n (d\<lparr>request_at := R, request_queue := Q, request_served := S, disk_hw := h, disk_slock := 0\<rparr>) (js @ [r])"
    "hok h" "blk h = blk (disk_hw d)" "\<forall>q. R q = (request_at d q)\<lparr>rq_next := rq_next (R q)\<rparr>" "(phase h = Finished) = (phase (disk_hw d) = Finished)"
proof (cases js)
  case Nil
  then have i: "request_served d = 0" "request_queue d = 0" "phase (disk_hw d) = Idle" using inv by (simp_all add: outstanding_def)
  let ?d = "d\<lparr>request_queue := r\<rparr>"
  have rr: "r \<noteq> 0" "unat (rq_block (request_at d r)) < n" using r(2) by (simp_all add: request_ok_def)
  obtain h where h: "disk_next_request io ?d = Inr (?d\<lparr>request_queue := rq_next (request_at ?d r),
      request_at := (request_at ?d)(r := (request_at ?d r)\<lparr>rq_next := 0\<rparr>), request_served := r, disk_hw := h\<rparr>)" "hok h"
    "phase h = Busy (rq_operation (request_at d r)) (rq_block (request_at d r)) (rq_buf (request_at d r))" "blk h = blk (disk_hw d)"
    by (rule next_request_start [of ?d r]) (use i hw rr in simp_all)
  have same: "(request_at d r)\<lparr>rq_next := 0\<rparr> = request_at d r" using r(3) by simp
  have e: "enqueue r d = Inr (d\<lparr>request_at := request_at d, request_queue := 0, request_served := r, disk_hw := h\<rparr>)"
    using i h(1) r(3) by (simp add: enqueue_def disksched_schedule_def same)
  show ?thesis
    by (rule that [OF e]) (use h r Nil i(3) in \<open>auto simp: outstanding_def request_ok_def\<close>)
next
  case (Cons s rs)
  then have o: "request_served d = s" "s \<noteq> 0" "rq_list (request_at d) (request_queue d) rs" "distinct js" "\<forall>q \<in> set js. request_ok n d q"
    "phase (disk_hw d) = Busy (rq_operation (request_at d s)) (rq_block (request_at d s)) (rq_buf (request_at d s)) \<or> phase (disk_hw d) = Finished"
    using inv by (auto simp: outstanding_def request_ok_def)
  have r0: "r \<noteq> 0" using r(2) by (simp add: request_ok_def)
  show ?thesis
  proof (cases rs rule: rev_cases)
    case Nil
    then have "request_queue d = 0" using o(3) by simp
    then have e: "enqueue r d = Inr (d\<lparr>request_at := request_at d, request_queue := r, request_served := s, disk_hw := disk_hw d\<rparr>)"
      using o(1,2) by (simp add: enqueue_def disksched_schedule_def)
    show ?thesis
      by (rule that [OF e]) (use o r r0 hw Cons Nil in \<open>auto simp: outstanding_def request_ok_def\<close>)
  next
    case (snoc ls l)
    have q: "request_queue d \<noteq> 0" using rq_list_empty [OF o(3)] snoc by simp
    have "length ls \<le> 2 ^ 32" using distinct_words [OF o(4)] Cons snoc by simp
    then have tail: "queue_end (2 ^ 32) (request_at d) (request_queue d) = Inr l"
      using queue_end_last [of "request_at d" "request_queue d" ls l "2 ^ 32"] o(3) snoc by simp
    let ?R = "(request_at d)(l := (request_at d l)\<lparr>rq_next := r\<rparr>)"
    have e: "enqueue r d = Inr (d\<lparr>request_at := ?R, request_queue := request_queue d, request_served := s, disk_hw := disk_hw d\<rparr>)"
      using q o(1,2) tail by (simp add: enqueue_def disksched_schedule_def rq_upd_def)
    have l: "rq_list ?R (request_queue d) (rs @ [r])"
      using rq_list_append [of "request_at d" "request_queue d" ls l r] o(3,4) r(1,3) r0 Cons snoc by simp
    show ?thesis
      by (rule that [OF e]) (use o r r0 hw Cons snoc l in \<open>auto simp: outstanding_def request_ok_def\<close>)
  qed
qed

text \<open>\<open>d'\<close> has the jobs, the memory and the disk contents of \<open>d\<close>.\<close>

definition same_world :: "('h, 'a) disk \<Rightarrow> ('h, 'a) disk \<Rightarrow> bool" where
  "same_world d d' \<longleftrightarrow> buffer_at d' = buffer_at d \<and> blk (disk_hw d') = blk (disk_hw d) \<and>
     (\<forall>q. rq_operation (request_at d' q) = rq_operation (request_at d q) \<and> rq_block (request_at d' q) = rq_block (request_at d q) \<and>
       rq_buf (request_at d' q) = rq_buf (request_at d q))"

lemma same_world_refl [simp]: "same_world d d"
  by (simp add: same_world_def)

lemma same_world_trans: "same_world d d1 \<Longrightarrow> same_world d1 d2 \<Longrightarrow> same_world d d2"
  by (simp add: same_world_def)

lemma locked_enqueue:
  fixes v :: 'v
  assumes inv: "outstanding phase n d js" and hw: "hok (disk_hw d)"
    and r: "r \<notin> set js" "request_ok n d r" "rq_next (request_at d r) = 0"
  obtains d' where
    "(let (intr_status, k) = interrupt_disable (disk_kernel d) in
      bindE (spinlock_acquire (disk_slock d)) (\<lambda>l.
      bindE (disksched_schedule r (d\<lparr>disk_kernel := k, disk_slock := l\<rparr>)) (\<lambda>d.
      bindE (if request_served d = 0 then disk_next_request io d else Inr d) (\<lambda>d.
      let d = d\<lparr>disk_slock := spinlock_release (disk_slock d), disk_kernel := interrupt_set_state intr_status (disk_kernel d)\<rparr>
      in Inr (v, d))))) = Inr (v, d')"
    "outstanding phase n d' (js @ [r])" "hok (disk_hw d')" "same_world d d'" "disk_kernel d' = disk_kernel d"
    "\<forall>q. rq_sem (request_at d' q) = rq_sem (request_at d q) \<and> rq_return_value (request_at d' q) = rq_return_value (request_at d q)"
    "(phase (disk_hw d') = Finished) = (phase (disk_hw d) = Finished)"
proof -
  let ?k = "(disk_kernel d)\<lparr>cp0_status := 0xffff00fe AND cp0_status (disk_kernel d)\<rparr>"
  let ?d = "d\<lparr>disk_kernel := ?k, disk_slock := 1\<rparr>"
  have live: "live ?k i = live (disk_kernel d) i" for i by (simp add: live_def)
  have ok: "request_ok n (?d\<lparr>disk_slock := l\<rparr>) q = request_ok n d q" "request_ok n ?d q = request_ok n d q" for l q
    by (simp_all add: request_ok_def live)
  have inv': "outstanding phase n (?d\<lparr>disk_slock := 0\<rparr>) js" using inv ok by (auto simp: outstanding_def split: list.splits)
  have p: "hok (disk_hw ?d)" "request_ok n ?d r" "rq_next (request_at ?d r) = 0" using hw r ok by simp_all
  obtain R h Q S where e: "enqueue r ?d = Inr (?d\<lparr>request_at := R, request_queue := Q, request_served := S, disk_hw := h\<rparr>)"
    "outstanding phase n (?d\<lparr>request_at := R, request_queue := Q, request_served := S, disk_hw := h, disk_slock := 0\<rparr>) (js @ [r])"
    "hok h" "blk h = blk (disk_hw ?d)" "\<forall>q. R q = (request_at ?d q)\<lparr>rq_next := rq_next (R q)\<rparr>" "(phase h = Finished) = (phase (disk_hw ?d) = Finished)"
    by (rule enqueue_run [OF inv' p(1) r(1) p(2,3)])
  define d' where "d' = ?d\<lparr>request_at := R, request_queue := Q, request_served := S, disk_hw := h, disk_slock := 0, disk_kernel := disk_kernel d\<rparr>"
  have sl: "disk_slock d = 0" using inv by (simp add: outstanding_def)
  have fields: "rq_operation (R q) = rq_operation (request_at d q)" "rq_block (R q) = rq_block (request_at d q)" "rq_buf (R q) = rq_buf (request_at d q)"
    "rq_sem (R q) = rq_sem (request_at d q)" "rq_return_value (R q) = rq_return_value (request_at d q)" for q
    by (subst e(5) [rule_format], simp)+
  show ?thesis
  proof (rule that [of d'])
    have "bindE (disksched_schedule r ?d) (\<lambda>d. bindE (if request_served d = 0 then disk_next_request io d else Inr d) f) =
        bindE (enqueue r ?d) f" for f :: "('h, 'a) disk \<Rightarrow> ('v \<times> ('h, 'a) disk) kres"
      by (simp add: enqueue_def bindE_assoc)
    then show "(let (intr_status, k) = interrupt_disable (disk_kernel d) in
      bindE (spinlock_acquire (disk_slock d)) (\<lambda>l.
      bindE (disksched_schedule r (d\<lparr>disk_kernel := k, disk_slock := l\<rparr>)) (\<lambda>d.
      bindE (if request_served d = 0 then disk_next_request io d else Inr d) (\<lambda>d.
      let d = d\<lparr>disk_slock := spinlock_release (disk_slock d), disk_kernel := interrupt_set_state intr_status (disk_kernel d)\<rparr>
      in Inr (v, d))))) = Inr (v, d')"
      using e(1) sl by (simp add: interrupt_disable_def d'_def Let_def)
    show "outstanding phase n d' (js @ [r])"
      using e(2) ok live sl by (auto simp: outstanding_def d'_def request_ok_def split: list.splits)
  qed (use e(3,4,6) fields in \<open>simp_all add: d'_def same_world_def\<close>)
qed

lemma submit_async:
  assumes inv: "outstanding phase n d js" and hw: "hok (disk_hw d)" and r: "r \<notin> set js" "request_ok n d r"
  obtains d' where "disk_submit io r d = Inr (Some 1, d')" "outstanding phase n d' (js @ [r])" "hok (disk_hw d')"
    "same_world d d'" "disk_kernel d' = disk_kernel d" "(phase (disk_hw d') = Finished) = (phase (disk_hw d) = Finished)"
    "\<forall>q. rq_sem (request_at d' q) = rq_sem (request_at d q)"
proof -
  let ?d = "rq_upd r (\<lambda>e. e\<lparr>rq_internal := 0, rq_next := 0, rq_return_value := -1\<rparr>) d"
  have ok: "request_ok n ?d q = request_ok n d q" for q by (simp add: request_ok_def rq_upd_def)
  have "rq_list (request_at ?d) (request_queue d) rs = rq_list (request_at d) (request_queue d) rs" if "r \<notin> set rs" for rs
    by (rule rq_list_cong) (use that in \<open>auto simp: rq_upd_def\<close>)
  then have inv': "outstanding phase n ?d js"
    using inv r(1) ok by (auto simp: outstanding_def rq_upd_def split: list.splits)
  obtain i where i: "rq_sem (request_at d r) = Some i" using r(2) by (auto simp: request_ok_def)
  have p: "hok (disk_hw ?d)" "request_ok n ?d r" "rq_next (request_at ?d r) = 0" using hw r(2) ok by (simp_all add: rq_upd_def)
  show ?thesis
  proof (rule locked_enqueue [OF inv' p(1) r(1) p(2,3), of "Some (1 :: int)"])
    fix d' assume e: "(let (intr_status, k) = interrupt_disable (disk_kernel ?d) in
      bindE (spinlock_acquire (disk_slock ?d)) (\<lambda>l.
      bindE (disksched_schedule r (?d\<lparr>disk_kernel := k, disk_slock := l\<rparr>)) (\<lambda>d.
      bindE (if request_served d = 0 then disk_next_request io d else Inr d) (\<lambda>d.
      let d = d\<lparr>disk_slock := spinlock_release (disk_slock d), disk_kernel := interrupt_set_state intr_status (disk_kernel d)\<rparr>
      in Inr (Some 1, d))))) = Inr (Some (1 :: int), d')"
      and o: "outstanding phase n d' (js @ [r])" "hok (disk_hw d')" "same_world ?d d'" "disk_kernel d' = disk_kernel ?d"
      "\<forall>q. rq_sem (request_at d' q) = rq_sem (request_at ?d q) \<and> rq_return_value (request_at d' q) = rq_return_value (request_at ?d q)"
      "(phase (disk_hw d') = Finished) = (phase (disk_hw ?d) = Finished)"
    have "disk_submit io r d = Inr (Some 1, d')"
      using e i by (simp add: disk_submit_def Let_def rq_upd_def)
    moreover have "same_world d ?d" by (simp add: same_world_def rq_upd_def)
    moreover have u: "disk_kernel ?d = disk_kernel d" "disk_hw ?d = disk_hw d" "rq_sem (request_at ?d q) = rq_sem (request_at d q)" for q
      by (simp_all add: rq_upd_def)
    ultimately show ?thesis using o same_world_trans [of d ?d d'] by (intro that [of d']) (auto simp: u)
  qed
qed

lemma finish_run:
  assumes inv: "outstanding phase n d (r # rs)" and hw: "hok (disk_hw d)" "phase (disk_hw d) \<noteq> Finished"
    and buf: "length (buffer_at d (rq_buf (request_at d r))) = 512"
  defines "d' \<equiv> disk_finish io d" and "op \<equiv> rq_operation (request_at d r)" and "b \<equiv> unat (rq_block (request_at d r))" and "a \<equiv> rq_buf (request_at d r)"
  shows "outstanding phase n d' (r # rs)" "hok (disk_hw d')" "phase (disk_hw d') = Finished" "request_at d' = request_at d"
    "disk_kernel d' = disk_kernel d" "buffer_at d' = transfer_mem op b a (blk (disk_hw d)) (buffer_at d)"
    "blk (disk_hw d') = transfer_blk op b a (blk (disk_hw d)) (buffer_at d)"
proof -
  obtain M h where f: "io_finish io (buffer_at d) (disk_hw d) = (M, h)" by fastforce
  have "phase (disk_hw d) = Busy op (rq_block (request_at d r)) a" using inv hw(2) by (simp add: outstanding_def op_def a_def)
  from finish [OF hw(1) this _ f] buf have h: "hok h" "phase h = Finished" "M = transfer_mem op b a (blk (disk_hw d)) (buffer_at d)"
    "blk h = transfer_blk op b a (blk (disk_hw d)) (buffer_at d)" by (simp_all add: a_def b_def)
  have d': "d' = d\<lparr>buffer_at := M, disk_hw := h\<rparr>" using f by (simp add: d'_def disk_finish_def)
  show "outstanding phase n d' (r # rs)" using inv h by (simp add: outstanding_def d' request_ok_def)
  show "hok (disk_hw d')" "phase (disk_hw d') = Finished" "request_at d' = request_at d"
    "disk_kernel d' = disk_kernel d" "buffer_at d' = transfer_mem op b a (blk (disk_hw d)) (buffer_at d)"
    "blk (disk_hw d') = transfer_blk op b a (blk (disk_hw d)) (buffer_at d)"
    using h by (simp_all add: d')
qed

lemma interrupt_spurious:
  assumes "outstanding phase n d js" "hok (disk_hw d)" "phase (disk_hw d) \<noteq> Finished"
  shows "disk_interrupt_handle io base d = Inr d"
proof -
  have "DISK_STATUS_RIRQ (io_status io (disk_hw d)) = 0 \<and> DISK_STATUS_WIRQ (io_status io (disk_hw d)) = 0"
    using idle_status [OF assms(2)] busy_status [OF assms(2)] assms(3) by (cases "phase (disk_hw d)") auto
  moreover have "disk_slock d = 0" using assms(1) by (simp add: outstanding_def)
  ultimately show ?thesis by (simp add: disk_interrupt_handle_def)
qed

lemma interrupt_run:
  assumes inv: "outstanding phase n d (r # rs)" and hw: "hok (disk_hw d)" "phase (disk_hw d) = Finished"
    and k: "sems_ok base (disk_kernel d) ks qs" "good_base base"
  obtains d' i ks' qs' where "disk_interrupt_handle io base d = Inr d'" "outstanding phase n d' rs" "hok (disk_hw d')" "same_world d d'"
    "phase (disk_hw d') \<noteq> Finished" "rq_sem (request_at d r) = Some i" "semaphore_V base i (disk_kernel d) = Inr (disk_kernel d')"
    "sems_ok base (disk_kernel d') ks' qs'" "live (disk_kernel d') = live (disk_kernel d)"
    "\<forall>q. rq_sem (request_at d' q) = rq_sem (request_at d q) \<and>
       rq_return_value (request_at d' q) = (if q = r then 0 else rq_return_value (request_at d q))"
proof -
  have o: "disk_slock d = 0" "distinct (r # rs)" "\<forall>q \<in> set (r # rs). request_ok n d q" "request_served d = r" "r \<noteq> 0"
    "rq_list (request_at d) (request_queue d) rs" using inv by (auto simp: outstanding_def request_ok_def)
  obtain i where i: "rq_sem (request_at d r) = Some i" "live (disk_kernel d) i" using o(3) by (auto simp: request_ok_def)
  obtain k' ks' qs' where V: "semaphore_V base i (disk_kernel d) = Inr k'" "sems_ok base k' ks' qs'" "live k' = live (disk_kernel d)"
    by (rule semaphore_V_live [OF k i(2)])
  define h where "h = io_command io DISK_COMMAND_RIRQ (io_command io DISK_COMMAND_WIRQ (disk_hw d))"
  have h: "hok h" "phase h = Idle" "blk h = blk (disk_hw d)" using acknowledge [OF hw h_def] by simp_all
  let ?R = "(request_at d)(r := (request_at d r)\<lparr>rq_return_value := 0\<rparr>)"
  let ?d = "d\<lparr>disk_slock := 1, disk_hw := h, request_at := ?R, disk_kernel := k', request_served := 0\<rparr>"
  have run: "disk_interrupt_handle io base d = bindE (disk_next_request io ?d) (\<lambda>d. Inr (d\<lparr>disk_slock := 0\<rparr>))"
    using finished_status [OF hw] o(1,4,5) i(1) V(1) by (auto simp: disk_interrupt_handle_def KERNEL_ASSERT_def Let_def rq_upd_def h_def)
  have list: "rq_list ?R (request_queue d) rs" using o(6,2) by (subst rq_list_cong [of rs _ "request_at d"]) auto
  show ?thesis
  proof (cases rs)
    case Nil
    then have "request_queue d = 0" using list by simp
    then have e: "disk_interrupt_handle io base d = Inr (?d\<lparr>disk_slock := 0\<rparr>)"
      unfolding run using h by (subst next_request_none) simp_all
    show ?thesis
      by (rule that [OF e _ _ _ _ i(1)]) (use Nil h V i \<open>request_queue d = 0\<close> in \<open>auto simp: outstanding_def same_world_def\<close>)
  next
    case (Cons s ss)
    have s: "request_queue ?d = s" "s \<noteq> 0" "unat (rq_block (request_at ?d s)) < n" "s \<noteq> r"
      using list o(2,3) Cons by (auto simp: request_ok_def)
    obtain h' where n: "disk_next_request io ?d = Inr (?d\<lparr>request_queue := rq_next (request_at ?d s),
        request_at := (request_at ?d)(s := (request_at ?d s)\<lparr>rq_next := 0\<rparr>), request_served := s, disk_hw := h'\<rparr>)"
      "hok h'" "phase h' = Busy (rq_operation (request_at ?d s)) (rq_block (request_at ?d s)) (rq_buf (request_at ?d s))" "blk h' = blk (disk_hw ?d)"
      by (rule next_request_start [OF _ _ _ s(1-3)]) (use h in simp_all)
    define d' where "d' = ?d\<lparr>request_queue := rq_next (request_at ?d s),
        request_at := (request_at ?d)(s := (request_at ?d s)\<lparr>rq_next := 0\<rparr>), request_served := s, disk_hw := h', disk_slock := 0\<rparr>"
    have e: "disk_interrupt_handle io base d = Inr d'" unfolding run n(1) by (simp add: d'_def)
    have "rq_list (request_at d') (request_queue d') ss"
      using list Cons o(2) s(4) by (subst rq_list_cong [of ss _ ?R]) (auto simp: d'_def)
    moreover have "request_ok n d' q" if "q \<in> set rs" for q
      using o(2,3) that by (intro request_ok_cong [of d' q d]) (auto simp: d'_def V(3))
    ultimately have "outstanding phase n d' rs" using o(2) Cons n(3) s(4) by (auto simp: outstanding_def) (simp_all add: d'_def)
    then show ?thesis
      by (rule that [OF e _ _ _ _ i(1)]) (use n h V in \<open>auto simp: d'_def same_world_def\<close>)
  qed
qed

text \<open>The driver in the state of the specification, with the requests \<open>A\<close> still to come.\<close>

definition implements :: "uint32 \<Rightarrow> (uint32 \<Rightarrow> gbd_request_t) \<Rightarrow> uint32 set \<Rightarrow> ('h, 'a) disk \<Rightarrow> disk_state \<Rightarrow> bool" where
  "implements base R A d = (\<lambda>(js, t, B, M).
     outstanding phase n d js \<and> hok (disk_hw d) \<and> t = (phase (disk_hw d) = Finished) \<and> blk (disk_hw d) = B \<and> buffer_at d = M \<and>
     (\<exists>ks qs. sems_ok base (disk_kernel d) ks qs) \<and>
     (\<forall>q. rq_operation (request_at d q) = rq_operation (R q) \<and> rq_block (request_at d q) = rq_block (R q) \<and> rq_buf (request_at d q) = rq_buf (R q)) \<and>
     (\<forall>r \<in> A. request_ok n d r) \<and> (\<forall>r \<in> set js \<union> A. length (M (rq_buf (R r))) = 512))"

lemma request_ok_keep:
  "request_ok n d r \<Longrightarrow> same_world d d' \<Longrightarrow> \<forall>q. rq_sem (request_at d' q) = rq_sem (request_at d q) \<Longrightarrow>
   live (disk_kernel d') = live (disk_kernel d) \<Longrightarrow> request_ok n d' r"
  by (auto simp: request_ok_def same_world_def)

lemma finished_nonempty: "outstanding phase n d js \<Longrightarrow> phase (disk_hw d) = Finished \<Longrightarrow> js \<noteq> []"
  by (auto simp: outstanding_def)

lemma submit_implements:
  assumes "implements base R A d (js, t, B, M)" "r \<in> A" "r \<notin> set js"
  obtains d' where "disk_do io base (Submit r) d = Inr d'" "implements base R A d' (js @ [r], t, B, M)"
proof -
  have o: "outstanding phase n d js" "hok (disk_hw d)" "request_ok n d r" using assms(1,2) by (auto simp: implements_def)
  obtain d' where d': "disk_submit io r d = Inr (Some 1, d')" "outstanding phase n d' (js @ [r])" "hok (disk_hw d')"
    "same_world d d'" "disk_kernel d' = disk_kernel d" "(phase (disk_hw d') = Finished) = (phase (disk_hw d) = Finished)"
    "\<forall>q. rq_sem (request_at d' q) = rq_sem (request_at d q)"
    by (rule submit_async [OF o(1,2) assms(3) o(3)])
  have "\<forall>q \<in> A. request_ok n d' q" using assms(1) request_ok_keep [OF _ d'(4,7)] d'(5) by (auto simp: implements_def)
  then have "implements base R A d' (js @ [r], t, B, M)"
    using assms d'(2-6) by (auto simp: implements_def same_world_def)
  with d'(1) show ?thesis by (intro that) simp_all
qed

lemma finish_implements:
  assumes "implements base R A d (js, False, B, M)" "js \<noteq> []" "e = R (hd js)"
  shows "implements base R A (disk_finish io d) (js, True, transfer_blk (rq_operation e) (unat (rq_block e)) (rq_buf e) B M,
    transfer_mem (rq_operation e) (unat (rq_block e)) (rq_buf e) B M)"
proof -
  obtain r rs where js: "js = r # rs" using assms(2) by (cases js) auto
  have i: "outstanding phase n d (r # rs)" "hok (disk_hw d)" "phase (disk_hw d) \<noteq> Finished" "blk (disk_hw d) = B" "buffer_at d = M"
    and job: "rq_operation (request_at d r) = rq_operation e" "rq_block (request_at d r) = rq_block e" "rq_buf (request_at d r) = rq_buf e"
    and len: "\<And>q. q \<in> set js \<union> A \<Longrightarrow> length (M (rq_buf (R q))) = 512"
    using assms js by (auto simp: implements_def)
  have b: "length (buffer_at d (rq_buf (request_at d r))) = 512" using len [of r] js job(3) assms(3) i(5) by simp
  note F = finish_run [OF i(1-3) b, unfolded job i(4,5)]
  have "unat (rq_block e) < n" using i(1) job(2) by (auto simp: outstanding_def request_ok_def)
  then have "length (transfer_mem (rq_operation e) (unat (rq_block e)) (rq_buf e) B M (rq_buf (R q))) = 512" if "q \<in> set js \<union> A" for q
    using len [OF that] block_length [OF i(2)] i(4) by (auto simp: transfer_mem_def split: gbd_operation_t.splits)
  moreover have "request_ok n (disk_finish io d) q = request_ok n d q" for q by (simp add: request_ok_def F)
  ultimately show ?thesis using assms(1) F js by (simp add: implements_def)
qed

lemma interrupt_implements:
  assumes "implements base R A d (js, t, B, M)" "good_base base"
  obtains d' where "disk_interrupt_handle io base d = Inr d'" "implements base R A d' (if t then tl js else js, False, B, M)"
proof (cases t)
  case False
  then have "disk_interrupt_handle io base d = Inr d" using assms(1) by (intro interrupt_spurious [of d js]) (simp_all add: implements_def)
  with assms(1) False show ?thesis by (intro that) simp_all
next
  case True
  then obtain ks qs where i: "outstanding phase n d js" "hok (disk_hw d)" "phase (disk_hw d) = Finished" "sems_ok base (disk_kernel d) ks qs"
    using assms(1) by (auto simp: implements_def)
  then obtain r rs where js: "js = r # rs" using finished_nonempty by (cases js) auto
  obtain d' i ks' qs' where d': "disk_interrupt_handle io base d = Inr d'" "outstanding phase n d' rs" "hok (disk_hw d')" "same_world d d'"
    "phase (disk_hw d') \<noteq> Finished" "rq_sem (request_at d r) = Some i" "semaphore_V base i (disk_kernel d) = Inr (disk_kernel d')"
    "sems_ok base (disk_kernel d') ks' qs'" "live (disk_kernel d') = live (disk_kernel d)"
    "\<forall>q. rq_sem (request_at d' q) = rq_sem (request_at d q) \<and>
       rq_return_value (request_at d' q) = (if q = r then 0 else rq_return_value (request_at d q))"
    by (rule interrupt_run [OF i(1) [unfolded js] i(2-4) assms(2)])
  have "\<forall>q. rq_sem (request_at d' q) = rq_sem (request_at d q)" using d'(10) by blast
  then have "\<forall>q \<in> A. request_ok n d' q" using assms(1) request_ok_keep [OF _ d'(4) _ d'(9)] by (auto simp: implements_def)
  then have "implements base R A d' (rs, False, B, M)"
    using assms(1) d'(2-5,8) js by (auto simp: implements_def same_world_def)
  with d'(1) True js show ?thesis by (intro that) simp_all
qed

lemma run_implements:
  assumes "implements base R A d s" "spec_run R es s = Some s'" "submitted es \<subseteq> A" "good_base base"
  shows "\<exists>d'. disk_run io base es d = Inr d' \<and> implements base R A d' s'"
  using assms(1-3)
proof (induction es arbitrary: d s)
  case (Cons e es)
  obtain js t B M where s: "s = (js, t, B, M)" by (cases s)
  from Cons.prems(2) obtain s1 where s1: "spec_do R e s = Some s1" "spec_run R es s1 = Some s'" by (auto split: option.splits)
  have A: "submitted es \<subseteq> A" using Cons.prems(3) by (auto simp: submitted_def)
  have "\<exists>d1. disk_do io base e d = Inr d1 \<and> implements base R A d1 s1"
  proof (cases e)
    case (Submit r)
    then have "r \<in> A" using Cons.prems(3) by (auto simp: submitted_def)
    moreover have "r \<notin> set js" "s1 = (js @ [r], t, B, M)" using s1(1) Submit s by (auto split: if_splits)
    ultimately show ?thesis using submit_implements [of base R A d js t B M r] Cons.prems(1) s Submit by blast
  next
    case Finish
    then show ?thesis using s1(1) s finish_implements [of base R A d js B M] Cons.prems(1) by (auto simp: Let_def split: if_splits)
  next
    case Interrupt
    then show ?thesis using s1(1) s interrupt_implements [OF Cons.prems(1) [unfolded s] assms(4)] by (metis disk_do.simps(3) option.inject spec_do.simps(3))
  qed
  with Cons.IH [OF _ s1(2) A] show ?case by auto
qed simp

lemma submit_sync:
  assumes inv: "outstanding phase n d []" and hw: "hok (disk_hw d)" and r: "r \<noteq> 0" "unat (rq_block (request_at d r)) < n" "rq_sem (request_at d r) = None"
    and k: "sems_ok base (disk_kernel d) ks qs" "good_base base" "free_sems (disk_kernel d) \<noteq> {}"
  obtains d' i where "disk_submit io r d = Inr (None, d')" "outstanding phase n d' [r]" "hok (disk_hw d')" "phase (disk_hw d') \<noteq> Finished"
    "same_world d d'" "rq_sem (request_at d' r) = Some i" "live (disk_kernel d') i" "sem_value (sem_row (disk_kernel d') i) = 0"
    "sems_ok base (disk_kernel d') ks qs"
proof -
  have "Suc 0 \<le> card (free_sems (disk_kernel d))" using k(3) finite_free_sems [of "disk_kernel d"] by (simp add: Suc_le_eq card_gt_0_iff)
  then obtain i k' where i: "semaphore_create 0 (disk_kernel d) = Inr (Some i, k')" "sems_ok base k' ks qs" "i \<in> free_sems (disk_kernel d)"
    "sem_row k' i = \<lparr>sem_slock = 0, sem_value = 0, sem_creator = current_of (disk_kernel d) (this_cpu (disk_kernel d))\<rparr>"
    using semaphore_create_free [OF k(1,2), of 0 0] by auto
  have "current_of (disk_kernel d) (this_cpu (disk_kernel d)) \<noteq> -1"
    using sched_okD(7) [OF sleepq_okD(1) [OF sems_okD(1) [OF k(1)]]] by (simp add: is_tid_def)
  then have live: "live k' i" using i(3,4) by (simp add: live_def free_sems_def)
  let ?d = "rq_upd r (\<lambda>e. e\<lparr>rq_sem := Some i\<rparr>) ((rq_upd r (\<lambda>e. e\<lparr>rq_internal := 0, rq_next := 0, rq_return_value := -1\<rparr>) d)\<lparr>disk_kernel := k'\<rparr>)"
  have u: "disk_kernel ?d = k'" "disk_hw ?d = disk_hw d" "rq_sem (request_at ?d r) = Some i" "rq_next (request_at ?d r) = 0" "same_world d ?d"
    by (simp_all add: rq_upd_def same_world_def)
  have inv': "outstanding phase n ?d []" using inv by (simp add: outstanding_def rq_upd_def)
  have ok: "request_ok n ?d r" using r live by (simp add: request_ok_def rq_upd_def)
  show ?thesis
  proof (rule locked_enqueue [OF inv' _ _ ok u(4), where v = "None :: int option"])
    show "hok (disk_hw ?d)" "r \<notin> set []" using hw u by simp_all
    fix d' assume e: "(let (intr_status, k) = interrupt_disable (disk_kernel ?d) in
      bindE (spinlock_acquire (disk_slock ?d)) (\<lambda>l.
      bindE (disksched_schedule r (?d\<lparr>disk_kernel := k, disk_slock := l\<rparr>)) (\<lambda>d.
      bindE (if request_served d = 0 then disk_next_request io d else Inr d) (\<lambda>d.
      let d = d\<lparr>disk_slock := spinlock_release (disk_slock d), disk_kernel := interrupt_set_state intr_status (disk_kernel d)\<rparr>
      in Inr (None, d))))) = Inr (None :: int option, d')"
      and o: "outstanding phase n d' ([] @ [r])" "hok (disk_hw d')" "same_world ?d d'" "disk_kernel d' = disk_kernel ?d"
      "\<forall>q. rq_sem (request_at d' q) = rq_sem (request_at ?d q) \<and> rq_return_value (request_at d' q) = rq_return_value (request_at ?d q)"
      "(phase (disk_hw d') = Finished) = (phase (disk_hw ?d) = Finished)"
    have "disk_submit io r d = Inr (None, d')"
      using e i(1) r(3) by (simp add: disk_submit_def Let_def rq_upd_def)
    moreover have "phase (disk_hw d) = Idle" using inv by (simp add: outstanding_def)
    ultimately show ?thesis
      using o(1-4,6) o(5) [rule_format, of r] u i live same_world_trans [OF u(5) o(3)] by (intro that [of d' i]) simp_all
  qed
qed

lemma sync_run:
  assumes rdy: "disk_ready hok phase n base d" and k: "good_base base" and r: "r \<noteq> 0" "unat (rq_block (request_at d r)) < n" "rq_sem (request_at d r) = None"
    and buf: "length (buffer_at d (rq_buf (request_at d r))) = 512"
    and e: "op = rq_operation (request_at d r)" "b = unat (rq_block (request_at d r))" "a = rq_buf (request_at d r)"
  obtains d' where "disk_sync io base r d = Inr (1, d')" "disk_ready hok phase n base d'"
    "buffer_at d' = transfer_mem op b a (blk (disk_hw d)) (buffer_at d)" "blk (disk_hw d') = transfer_blk op b a (blk (disk_hw d)) (buffer_at d)"
proof -
  obtain ks qs where d: "outstanding phase n d []" "hok (disk_hw d)" "free_sems (disk_kernel d) \<noteq> {}" "sems_ok base (disk_kernel d) ks qs"
    using rdy by (auto simp: disk_ready_def)
  obtain d1 i where d1: "disk_submit io r d = Inr (None, d1)" "outstanding phase n d1 [r]" "hok (disk_hw d1)" "phase (disk_hw d1) \<noteq> Finished"
    "same_world d d1" "rq_sem (request_at d1 r) = Some i" "live (disk_kernel d1) i" "sem_value (sem_row (disk_kernel d1) i) = 0"
    "sems_ok base (disk_kernel d1) ks qs"
    by (rule submit_sync [OF d(1,2) r d(4) k d(3)])
  have w: "buffer_at d1 = buffer_at d" "blk (disk_hw d1) = blk (disk_hw d)" "rq_operation (request_at d1 r) = op"
    "unat (rq_block (request_at d1 r)) = b" "rq_buf (request_at d1 r) = a" using d1(5) e by (simp_all add: same_world_def)
  have b1: "length (buffer_at d1 (rq_buf (request_at d1 r))) = 512" using w buf e(3) by simp
  note F = finish_run [OF d1(2-4) b1, unfolded w]
  obtain d3 i' ks' qs' where d3: "disk_interrupt_handle io base (disk_finish io d1) = Inr d3" "outstanding phase n d3 []" "hok (disk_hw d3)"
    "same_world (disk_finish io d1) d3" "rq_sem (request_at (disk_finish io d1) r) = Some i'"
    "semaphore_V base i' (disk_kernel (disk_finish io d1)) = Inr (disk_kernel d3)"
    "\<forall>q. rq_sem (request_at d3 q) = rq_sem (request_at (disk_finish io d1) q) \<and>
       rq_return_value (request_at d3 q) = (if q = r then 0 else rq_return_value (request_at (disk_finish io d1) q))"
    by (rule interrupt_run [OF F(1-3) _ k]) (use d1(9) F(5) in simp_all)
  have i': "i' = i" "rq_sem (request_at d3 r) = Some i" "rq_return_value (request_at d3 r) = 0" using d3(5,7) d1(6) F(4) by simp_all
  obtain s2 s3 where c: "semaphore_P base i (disk_kernel d3) = Inr (Returned s2)" "semaphore_destroy i s2 = Inr s3" "sems_ok base s3 ks qs" "i \<in> free_sems s3"
    by (rule semaphore_cycle [OF d1(9) k d1(7,8)]) (use d3(6) F(5) i' in simp_all)
  define d4 where "d4 = rq_upd r (\<lambda>e. e\<lparr>rq_sem := None\<rparr>) (d3\<lparr>disk_kernel := s3\<rparr>)"
  have "disk_sync io base r d = Inr (1, d4)"
    using d1(1) d3(1) i' c(1,2) by (simp add: disk_sync_def disk_submit_finish_def Let_def d4_def rq_upd_def)
  moreover have "disk_ready hok phase n base d4"
    using d3(2,3) c(3,4) by (auto simp: disk_ready_def d4_def rq_upd_def outstanding_def)
  moreover have "buffer_at d4 = transfer_mem op b a (blk (disk_hw d)) (buffer_at d)" "blk (disk_hw d4) = transfer_blk op b a (blk (disk_hw d)) (buffer_at d)"
    using d3(4) F(6,7) w by (simp_all add: d4_def rq_upd_def same_world_def)
  ultimately show ?thesis by (rule that)
qed

lemma rw_block_run:
  assumes "disk_ready hok phase n base d" "good_base base" "request \<noteq> 0" "unat b < n" "length data = 512"
  obtains d' where "rw_block io base request buf op b data d = (1, d')" "disk_ready hok phase n base d'"
    "buffer_at d' buf = (case op of GBD_OPERATION_READ \<Rightarrow> blk (disk_hw d) (unat b) | GBD_OPERATION_WRITE \<Rightarrow> data)"
    "blk (disk_hw d') = (case op of GBD_OPERATION_READ \<Rightarrow> blk (disk_hw d) | GBD_OPERATION_WRITE \<Rightarrow> (blk (disk_hw d))(unat b := data))"
proof -
  let ?e = "\<lparr>rq_block = b, rq_buf = buf, rq_sem = None, rq_operation = op, rq_internal = 0, rq_next = 0, rq_return_value = 0\<rparr>"
  let ?d = "d\<lparr>buffer_at := (buffer_at d)(buf := data), request_at := (request_at d)(request := ?e)\<rparr>"
  have "disk_ready hok phase n base ?d" using assms(1) by (simp add: disk_ready_def outstanding_def)
  then obtain d' where d': "disk_sync io base request ?d = Inr (1, d')" "disk_ready hok phase n base d'"
    "buffer_at d' = transfer_mem op (unat b) buf (blk (disk_hw ?d)) (buffer_at ?d)" "blk (disk_hw d') = transfer_blk op (unat b) buf (blk (disk_hw ?d)) (buffer_at ?d)"
    by (rule sync_run [where r = request and op = op and b = "unat b" and a = buf]) (use assms in simp_all)
  show ?thesis
    by (rule that [of d']) (use d' in \<open>simp_all add: rw_block_def transfer_mem_def transfer_blk_def split: gbd_operation_t.splits\<close>)
qed

lemma driver_is_block_device:
  assumes "good_base base" "request \<noteq> 0"
  shows "block_device (disk_gbd io base request buf) (disk_ready hok phase n base) (\<lambda>d. blk (disk_hw d)) n"
proof
  fix d :: "('h, 'a) disk" and b :: uint32 and data :: block
  assume d: "disk_ready hok phase n base d" "unat b < n" "length data = 512"
  obtain d' where "rw_block io base request buf GBD_OPERATION_READ b data d = (1, d')" "disk_ready hok phase n base d'"
    "buffer_at d' buf = blk (disk_hw d) (unat b)" "blk (disk_hw d') = blk (disk_hw d)"
    by (rule rw_block_run [OF d(1) assms d(2,3), of buf GBD_OPERATION_READ]) simp
  then show "\<exists>d'. read_block (disk_gbd io base request buf) b data d = (1, blk (disk_hw d) (unat b), d') \<and>
      disk_ready hok phase n base d' \<and> blk (disk_hw d') = blk (disk_hw d)" by (simp add: disk_gbd_def)
  obtain d' where "rw_block io base request buf GBD_OPERATION_WRITE b data d = (1, d')" "disk_ready hok phase n base d'"
    "blk (disk_hw d') = (blk (disk_hw d))(unat b := data)"
    by (rule rw_block_run [OF d(1) assms d(2,3), of buf GBD_OPERATION_WRITE]) simp
  then show "\<exists>d'. write_block (disk_gbd io base request buf) b data d = (1, d') \<and>
      disk_ready hok phase n base d' \<and> blk (disk_hw d') = (blk (disk_hw d))(unat b := data)" by (simp add: disk_gbd_def)
next
  fix d :: "('h, 'a) disk" and k
  assume "disk_ready hok phase n base d" "k < n"
  then show "length (blk (disk_hw d) k) = 512" by (intro block_length) (simp_all add: disk_ready_def)
qed

lemma query_run:
  assumes "disk_ready hok phase n base d"
  shows "\<exists>d'. disk_block_size io d = Inr (512, d') \<and> disk_ready hok phase n base d' \<and> blk (disk_hw d') = blk (disk_hw d)"
    "\<exists>d'. disk_total_blocks io d = Inr (of_nat n, d') \<and> disk_ready hok phase n base d' \<and> blk (disk_hw d') = blk (disk_hw d)"
proof -
  have q: "\<exists>d'. disk_query io c d = Inr (if c = DISK_COMMAND_BLOCKS then of_nat n else 512, d') \<and> disk_ready hok phase n base d' \<and> blk (disk_hw d') = blk (disk_hw d)"
    if "c = DISK_COMMAND_BLOCKS \<or> c = DISK_COMMAND_BLOCKSIZE" for c
    using assms query [OF _ that refl, of "disk_hw d"] by (auto simp: disk_query_def interrupt_disable_def disk_ready_def outstanding_def Let_def)
  show "\<exists>d'. disk_block_size io d = Inr (512, d') \<and> disk_ready hok phase n base d' \<and> blk (disk_hw d') = blk (disk_hw d)"
    using q [of DISK_COMMAND_BLOCKSIZE] by (simp add: disk_block_size_def)
  show "\<exists>d'. disk_total_blocks io d = Inr (of_nat n, d') \<and> disk_ready hok phase n base d' \<and> blk (disk_hw d') = blk (disk_hw d)"
    using q [of DISK_COMMAND_BLOCKS] by (simp add: disk_total_blocks_def)
qed

end

subsection \<open>A disk\<close>

text \<open>
  A device with the registers of the YAMS disk: the status register has the busy and interrupt bits,
  and the sector and the address are latched for the transfer.  Commands it cannot carry out set an
  error bit.
\<close>

record yams =
  y_status :: uint32
  y_data :: uint32
  y_sector :: uint32
  y_addr :: uint32
  y_blocks :: "block list"

definition y_command :: "uint32 \<Rightarrow> yams \<Rightarrow> yams" where
  "y_command c y =
     (if c = DISK_COMMAND_READ \<or> c = DISK_COMMAND_WRITE then
        if y_status y \<noteq> 0 then y\<lparr>y_status := y_status y OR 0x40000000\<rparr>
        else if unat (y_sector y) < length (y_blocks y) then y\<lparr>y_status := c\<rparr>
        else y\<lparr>y_status := 0x08000000\<rparr>
      else if c = DISK_COMMAND_RIRQ then y\<lparr>y_status := y_status y AND NOT 0x4\<rparr>
      else if c = DISK_COMMAND_WIRQ then y\<lparr>y_status := y_status y AND NOT 0x8\<rparr>
      else if c = DISK_COMMAND_BLOCKS then y\<lparr>y_data := of_nat (length (y_blocks y))\<rparr>
      else if c = DISK_COMMAND_BLOCKSIZE then y\<lparr>y_data := 512\<rparr>
      else y\<lparr>y_status := y_status y OR 0x20000000\<rparr>)"

definition y_finish :: "(uint32 \<Rightarrow> block) \<Rightarrow> yams \<Rightarrow> (uint32 \<Rightarrow> block) \<times> yams" where
  "y_finish M y =
     (if y_status y = 1 then (M(y_addr y := y_blocks y ! unat (y_sector y)), y\<lparr>y_status := 4\<rparr>)
      else if y_status y = 2 then (M, y\<lparr>y_status := 8, y_blocks := (y_blocks y)[unat (y_sector y) := M (y_addr y)]\<rparr>)
      else (M, y))"

definition yams_io :: "yams disk_io" where
  "yams_io = \<lparr>io_status = y_status, io_data = y_data, io_command = y_command, io_tsector = (\<lambda>b y. y\<lparr>y_sector := b\<rparr>),
     io_dmaaddr = (\<lambda>a y. y\<lparr>y_addr := a\<rparr>), io_finish = y_finish\<rparr>"

definition yams_ok :: "nat \<Rightarrow> yams \<Rightarrow> bool" where
  "yams_ok n y \<longleftrightarrow> length (y_blocks y) = n \<and> (\<forall>b \<in> set (y_blocks y). length b = 512) \<and> y_status y \<in> {0, 1, 2, 4, 8} \<and>
     (y_status y \<in> {1, 2} \<longrightarrow> unat (y_sector y) < n)"

definition yams_phase :: "yams \<Rightarrow> disk_phase" where
  "yams_phase y = (if y_status y = 1 then Busy GBD_OPERATION_READ (y_sector y) (y_addr y)
     else if y_status y = 2 then Busy GBD_OPERATION_WRITE (y_sector y) (y_addr y)
     else if y_status y = 0 then Idle else Finished)"

definition yams_blk :: "yams \<Rightarrow> nat \<Rightarrow> block" where
  "yams_blk y k = (if k < length (y_blocks y) then y_blocks y ! k else [])"

lemmas yams_defs = yams_io_def yams_ok_def yams_phase_def y_command_def y_finish_def DISK_STATUS_RBUSY_def DISK_STATUS_WBUSY_def
  DISK_STATUS_RIRQ_def DISK_STATUS_WIRQ_def DISK_STATUS_ERRORS_def command_of_def

interpretation yams: yams_disk yams_io "yams_ok n" yams_phase yams_blk n
proof (unfold_locales, goal_cases)
  case (4 h b h' op a)
  then show ?case by (cases op) (auto simp: yams_defs yams_blk_def fun_eq_iff split: if_splits)
next
  case (5 h op b a M M' h')
  then show ?case by (cases op) (auto simp: yams_defs yams_blk_def fun_eq_iff transfer_mem_def transfer_blk_def nth_list_update
        dest!: set_update_subset_insert [THEN subsetD] split: if_splits)
next
  case (6 h h')
  then show ?case by (auto simp: yams_defs yams_blk_def fun_eq_iff split: if_splits)
next
  case (7 h c h')
  from 7(2) show ?case
    by (elim disjE) (use 7(1,3) in \<open>simp_all add: yams_io_def y_command_def yams_ok_def yams_phase_def yams_blk_def fun_eq_iff\<close>)
next
  case (8 h k)
  then show ?case by (auto simp: yams_ok_def yams_blk_def)
qed (auto simp: yams_defs split: if_splits)

subsection \<open>Sample state\<close>

text \<open>An idle driver with a disk of two blocks, over the kernel state of theory \<open>Semaphore\<close>.\<close>

definition sample_requests :: "uint32 \<Rightarrow> gbd_request_t" where
  "sample_requests r = \<lparr>rq_block = (if r = 0x1000 then 1 else 0), rq_buf = (if r = 0x1000 then 0x31000 else 0x32000), rq_sem = Some 1,
     rq_operation = (if r = 0x1000 then GBD_OPERATION_READ else GBD_OPERATION_WRITE), rq_internal = 0, rq_next = 0, rq_return_value = 0\<rparr>"

definition sample_disk :: "(yams, unit) disk" where
  "sample_disk = \<lparr>request_at = sample_requests, disk_slock = 0, request_queue = 0, request_served = 0,
     buffer_at = (\<lambda>a. replicate 512 (if a = 0x32000 then CHR ''w'' else NUL)),
     disk_hw = \<lparr>y_status = 0, y_data = 0, y_sector = 0, y_addr = 0, y_blocks = [replicate 512 NUL, replicate 512 (CHR ''x'')]\<rparr>,
     disk_kernel = sample_kernel\<rparr>"

lemma sample_disk_idle: "outstanding yams_phase 2 sample_disk []" "yams_ok 2 (disk_hw sample_disk)"
  by (simp_all add: outstanding_def sample_disk_def yams_phase_def yams_ok_def)

lemma sample_disk_job: "disk_kernel sample_disk = sample_kernel"
  "request_at sample_disk 0x1000 = sample_requests 0x1000" "request_at sample_disk 0x2000 = sample_requests 0x2000"
  "rq_operation (sample_requests 0x1000) = GBD_OPERATION_READ" "rq_operation (sample_requests 0x2000) = GBD_OPERATION_WRITE"
  "rq_block (sample_requests 0x1000) = 1" "rq_block (sample_requests 0x2000) = 0"
  "rq_buf (sample_requests 0x1000) = 0x31000" "rq_buf (sample_requests 0x2000) = 0x32000"
  by (simp_all add: sample_disk_def sample_requests_def)

lemma sample_disk_ready: "disk_ready (yams_ok 2) yams_phase 2 sample_base sample_disk"
proof -
  have "5 \<in> free_sems sample_kernel" by (simp add: free_sems_def sample_kernel_sem sample_sem_def is_sem_def CONFIG_MAX_SEMAPHORES_def)
  then show ?thesis
    using sample_disk_idle sample_kernel_ok by (auto simp: disk_ready_def) (auto simp: sample_disk_def)
qed

text \<open>The driver is the block device the file system runs on.\<close>

interpretation disk: block_device "disk_gbd yams_io sample_base 0x80030000 0x31000" "disk_ready (yams_ok n) yams_phase n sample_base"
  "\<lambda>d. yams_blk (disk_hw d)" n
  by (rule yams.driver_is_block_device) (simp_all add: sample_good_base)

subsection \<open>Properties\<close>

text \<open>
  C26: On a working device the driver implements a queue of requests.  Whatever the order of
  submissions, completions and interrupts, none of its assertions fails, requests are carried out in
  the order of their submission and one at a time, each exactly once, with the transfers the
  specification says, and an interrupt that is not the disk's changes nothing.
\<close>

theorem disk_refines_queue:
  assumes "yams_disk io hok phase blk n" "good_base base" "outstanding phase n d js" "hok (disk_hw d)" "sems_ok base (disk_kernel d) ks qs"
    "\<forall>r \<in> submitted es. request_ok n d r" "\<forall>r \<in> set js \<union> submitted es. length (buffer_at d (rq_buf (request_at d r))) = 512"
    "spec_run (request_at d) es (js, phase (disk_hw d) = Finished, blk (disk_hw d), buffer_at d) = Some (js', t, B, M)"
  shows "\<exists>d'. disk_run io base es d = Inr d' \<and> outstanding phase n d' js' \<and> blk (disk_hw d') = B \<and> buffer_at d' = M \<and>
    t = (phase (disk_hw d') = Finished)"
proof -
  have "yams_disk.implements hok phase blk n base (request_at d) (submitted es) d (js, phase (disk_hw d) = Finished, blk (disk_hw d), buffer_at d)"
    using assms(3-7) by (auto simp: yams_disk.implements_def [OF assms(1)])
  from yams_disk.run_implements [OF assms(1) this assms(8) subset_refl assms(2)] show ?thesis
    by (auto simp: yams_disk.implements_def [OF assms(1)])
qed

theorem disk_refines_queue_witness:
  "\<exists>d'. disk_run yams_io sample_base [Submit 0x1000, Submit 0x2000, Finish, Interrupt, Finish, Interrupt] sample_disk = Inr d' \<and>
     outstanding yams_phase 2 d' [] \<and> yams_blk (disk_hw d') 0 = replicate 512 (CHR ''w'') \<and> buffer_at d' 0x31000 = replicate 512 (CHR ''x'')"
proof -
  let ?es = "[Submit 0x1000, Submit 0x2000, Finish, Interrupt, Finish, Interrupt]"
  have "submitted ?es = {0x1000, 0x2000}" by (auto simp: submitted_def)
  moreover have "request_ok 2 sample_disk 0x1000" "request_ok 2 sample_disk 0x2000"
    using sample_live by (simp_all add: request_ok_def sample_disk_def sample_requests_def)
  moreover have "\<forall>a. length (buffer_at sample_disk a) = 512" by (simp add: sample_disk_def)
  moreover have "yams_phase (disk_hw sample_disk) = Idle" using sample_disk_idle by (simp add: outstanding_def)
  ultimately obtain d' where d': "disk_run yams_io sample_base ?es sample_disk = Inr d' \<and> outstanding yams_phase 2 d' [] \<and>
      yams_blk (disk_hw d') = (yams_blk (disk_hw sample_disk))(0 := buffer_at sample_disk 0x32000) \<and>
      buffer_at d' = (buffer_at sample_disk)(0x31000 := yams_blk (disk_hw sample_disk) 1) \<and> False = (yams_phase (disk_hw d') = Finished)"
    using disk_refines_queue [OF yams.yams_disk_axioms sample_good_base(1) sample_disk_idle, of "[2]" sample_queues ?es "[]" False
        "(yams_blk (disk_hw sample_disk))(0 := buffer_at sample_disk 0x32000)"
        "(buffer_at sample_disk)(0x31000 := yams_blk (disk_hw sample_disk) 1)"] sample_kernel_ok sample_disk_job
    by (auto simp: transfer_mem_def transfer_blk_def simp del: disk_run.simps)
  have "yams_blk (disk_hw sample_disk) 1 = replicate 512 (CHR ''x'')" "buffer_at sample_disk 0x32000 = replicate 512 (CHR ''w'')"
    by (simp_all add: sample_disk_def yams_blk_def)
  with d' show ?thesis by (intro exI [of _ d']) (simp del: disk_run.simps)
qed



text \<open>
  When the device has finished the oldest request, the interrupt handler reports success in it,
  raises the semaphore its thread waits for, and starts the next request in the queue; nothing else
  changes in the other requests.
\<close>

theorem disk_interrupt_completes:
  assumes "yams_disk io hok phase blk n" "outstanding phase n d (r # rs)" "hok (disk_hw d)" "phase (disk_hw d) = Finished"
    "sems_ok base (disk_kernel d) ks qs" "good_base base"
  shows "\<exists>d' i. disk_interrupt_handle io base d = Inr d' \<and> outstanding phase n d' rs \<and> rq_sem (request_at d r) = Some i \<and>
    semaphore_V base i (disk_kernel d) = Inr (disk_kernel d') \<and> rq_return_value (request_at d' r) = 0 \<and>
    (\<forall>q. q \<noteq> r \<longrightarrow> rq_return_value (request_at d' q) = rq_return_value (request_at d q))"
  by (rule yams_disk.interrupt_run [OF assms]) auto

theorem disk_interrupt_completes_witness:
  "\<exists>d d'. disk_run yams_io sample_base [Submit 0x1000, Finish] sample_disk = Inr d \<and>
     disk_interrupt_handle yams_io sample_base d = Inr d' \<and> outstanding yams_phase 2 d' [] \<and> rq_return_value (request_at d' 0x1000) = 0"
proof -
  let ?es = "[Submit 0x1000, Finish]"
  let ?R = "request_at sample_disk" and ?B = "yams_blk (disk_hw sample_disk)" and ?M = "buffer_at sample_disk"
  have i: "yams.implements 2 sample_base ?R {0x1000} sample_disk ([], False, ?B, ?M)"
    using sample_disk_idle sample_kernel_ok sample_live
    by (auto simp: yams.implements_def request_ok_def sample_disk_job) (simp_all add: sample_disk_def outstanding_def sample_requests_def)
  have sub: "submitted ?es \<subseteq> {0x1000}" by (auto simp: submitted_def)
  have "spec_run ?R ?es ([], False, ?B, ?M) = Some ([0x1000], True, ?B, ?M(0x31000 := ?B 1))"
    using sample_disk_job by (simp add: Let_def transfer_mem_def transfer_blk_def)
  from yams.run_implements [OF i this sub sample_good_base(1)] obtain d where d: "disk_run yams_io sample_base ?es sample_disk = Inr d"
    "yams.implements 2 sample_base ?R {0x1000} d ([0x1000], True, ?B, ?M(0x31000 := ?B 1))" by blast
  from d(2) obtain ks qs where "outstanding yams_phase 2 d [0x1000]" "yams_ok 2 (disk_hw d)" "yams_phase (disk_hw d) = Finished" "sems_ok sample_base (disk_kernel d) ks qs"
    by (auto simp: yams.implements_def)
  from disk_interrupt_completes [OF yams.yams_disk_axioms this sample_good_base(1)] d(1) show ?thesis by blast
qed

end
