(* ===== verification/User_Sem.thy ===== *)
theory User_Sem
  imports Semaphore Libc
begin

text \<open>
  Named semaphores for user programs, \<^verbatim>\<open>proc/semaphore.c\<close>: a table of names over the semaphores of
  the kernel.  A pointer to a row of the table is the index of the row, or \<open>None\<close> for the null pointer.
\<close>

abbreviation MAX_USER_SEMAPHORES :: nat where "MAX_USER_SEMAPHORES \<equiv> 64"
abbreviation SEMAPHORE_NAME_LENGTH :: int where "SEMAPHORE_NAME_LENGTH \<equiv> 20"

datatype sem_state = USED | FREE

record user_sem_t =
  ksem :: "int option"
  sid :: int
  us_state :: sem_state
  us_name :: "char list"

record 'a usems =
  sem_table :: "user_sem_t list"
  sem_table_slock :: uint32
  us_kernel :: "'a sems_scheme"

subsection \<open>Operations\<close>

definition us_upd :: "int \<Rightarrow> (user_sem_t \<Rightarrow> user_sem_t) \<Rightarrow> 'a usems \<Rightarrow> 'a usems kres" where
  "us_upd i f u = bindE (rd (sem_table u) i) (\<lambda>e. bindE (wr (sem_table u) i (f e)) (\<lambda>t. Inr (u\<lparr>sem_table := t\<rparr>)))"

definition user_semaphore_init :: "'a usems \<Rightarrow> 'a usems kres" where
  "user_semaphore_init u =
     bindE (for_rangeE 0 MAX_USER_SEMAPHORES (\<lambda>i. us_upd (int i) (\<lambda>e. e\<lparr>us_state := FREE\<rparr>)) u) (\<lambda>u.
     Inr (u\<lparr>sem_table_slock := spinlock_reset (sem_table_slock u)\<rparr>))"

definition sem_name_exist :: "string \<Rightarrow> 'a usems \<Rightarrow> bool kres" where
  "sem_name_exist name u =
     bindE (find_from (\<lambda>e. stringcmp (cstring (us_name e)) name = 0) (sem_table u) 0 MAX_USER_SEMAPHORES) (\<lambda>i.
     Inr (i < MAX_USER_SEMAPHORES))"

definition get_sem :: "string \<Rightarrow> int \<Rightarrow> 'a usems \<Rightarrow> (int \<times> 'a usems) kres" where
  "get_sem name v u =
     (let (intr_status, k) = interrupt_disable (us_kernel u) in
      bindE (spinlock_acquire (sem_table_slock u)) (\<lambda>l.
      let u = u\<lparr>us_kernel := k, sem_table_slock := l\<rparr>;
          unlock = (\<lambda>u. u\<lparr>sem_table_slock := spinlock_release (sem_table_slock u), us_kernel := interrupt_set_state intr_status (us_kernel u)\<rparr>)
      in bindE (find_from (\<lambda>e. us_state e = FREE) (sem_table u) 0 MAX_USER_SEMAPHORES) (\<lambda>i.
         if i \<ge> MAX_USER_SEMAPHORES then Inr (-1, unlock u)
         else
           bindE (us_upd (int i) (\<lambda>e. e\<lparr>us_state := USED, sid := int i\<rparr>) u) (\<lambda>u.
           bindE (semaphore_create v (us_kernel u)) (\<lambda>(sem, k).
           bindE (us_upd (int i) (\<lambda>e. e\<lparr>ksem := sem\<rparr>) (u\<lparr>us_kernel := k\<rparr>)) (\<lambda>u.
           bindE (rd (sem_table u) (int i)) (\<lambda>e.
           bindE (stringcopy (us_name e) name SEMAPHORE_NAME_LENGTH) (\<lambda>nm.
           bindE (us_upd (int i) (\<lambda>e. e\<lparr>us_name := nm\<rparr>) u) (\<lambda>u.
           Inr (int i, unlock u))))))))))"

definition get_user_sem_sid :: "int \<Rightarrow> int option" where
  "get_user_sem_sid i = Some i"

definition get_user_sem_name :: "string \<Rightarrow> 'a usems \<Rightarrow> int option kres" where
  "get_user_sem_name name u =
     bindE (find_from (\<lambda>e. stringcmp (cstring (us_name e)) name = 0) (sem_table u) 0 MAX_USER_SEMAPHORES) (\<lambda>i.
     bindE (if i < MAX_USER_SEMAPHORES then bindE (rd (sem_table u) (int i)) (\<lambda>e. Inr (sid e)) else Inr (-1)) (\<lambda>s.
     Inr (if s = -1 then None else Some s)))"

definition user_sem_open :: "string \<Rightarrow> int \<Rightarrow> 'a usems \<Rightarrow> (int option \<times> 'a usems) kres" where
  "user_sem_open name v u =
     (if v \<ge> 0 then
        bindE (sem_name_exist name u) (\<lambda>exist.
        if exist then Inr (None, u)
        else bindE (get_sem name v u) (\<lambda>(i, u). if i = -1 then Inr (None, u) else Inr (get_user_sem_sid i, u)))
      else bindE (get_user_sem_name name u) (\<lambda>r. Inr (r, u)))"

text \<open>
  \<^verbatim>\<open>user_sem_p\<close> returns 0 at once or, with the flag \<open>False\<close>, gives up the processor and returns 0 when
  its thread runs again.
\<close>

definition kernel_sem :: "int \<Rightarrow> 'a usems \<Rightarrow> int kres" where
  "kernel_sem i u = bindE (rd (sem_table u) i) (\<lambda>e. case ksem e of None \<Rightarrow> Inl Fault | Some k \<Rightarrow> Inr k)"

definition user_sem_p :: "uint32 \<Rightarrow> int option \<Rightarrow> 'a usems \<Rightarrow> (bool \<times> int \<times> 'a usems) kres" where
  "user_sem_p base handle u =
     (case handle of None \<Rightarrow> Inr (True, -1, u)
      | Some i \<Rightarrow>
          bindE (kernel_sem i u) (\<lambda>k.
          bindE (semaphore_P base k (us_kernel u)) (\<lambda>run.
          case run of Returned s \<Rightarrow> Inr (True, 0, u\<lparr>us_kernel := s\<rparr>) | Switched st s \<Rightarrow> Inr (False, 0, u\<lparr>us_kernel := s\<rparr>))))"

definition user_sem_v :: "uint32 \<Rightarrow> int option \<Rightarrow> 'a usems \<Rightarrow> (int \<times> 'a usems) kres" where
  "user_sem_v base handle u =
     (case handle of None \<Rightarrow> Inr (-1, u)
      | Some i \<Rightarrow> bindE (kernel_sem i u) (\<lambda>k. bindE (semaphore_V base k (us_kernel u)) (\<lambda>s. Inr (0, u\<lparr>us_kernel := s\<rparr>))))"

definition user_sem_destroy :: "int option \<Rightarrow> 'a usems \<Rightarrow> (int \<times> 'a usems) kres" where
  "user_sem_destroy handle u =
     (case handle of None \<Rightarrow> Inr (-1, u)
      | Some i \<Rightarrow> bindE (kernel_sem i u) (\<lambda>k. bindE (semaphore_destroy k (us_kernel u)) (\<lambda>s. Inr (0, u\<lparr>us_kernel := s\<rparr>))))"

subsection \<open>The invariant\<close>

text \<open>
  \<open>opened u i nm\<close>: row \<open>i\<close> is in use under the name \<open>nm\<close> and has a kernel semaphore of its own.  Rows
  that have never been used have the empty name the table starts with.
\<close>

definition row_ok :: "'a usems \<Rightarrow> nat \<Rightarrow> bool" where
  "row_ok u i \<longleftrightarrow> (let e = sem_table u ! i in length (us_name e) = 20 \<and>
     (if us_state e = FREE then cstring (us_name e) = []
      else sid e = int i \<and> cstring (us_name e) \<noteq> [] \<and> (\<exists>k. ksem e = Some k \<and> live (us_kernel u) k)))"

definition usems_ok :: "uint32 \<Rightarrow> 'a usems \<Rightarrow> bool" where
  "usems_ok base u \<longleftrightarrow> length (sem_table u) = MAX_USER_SEMAPHORES \<and> sem_table_slock u = 0 \<and>
     (\<exists>ks qs. sems_ok base (us_kernel u) ks qs) \<and> (\<forall>i < MAX_USER_SEMAPHORES. row_ok u i) \<and>
     (\<forall>i < MAX_USER_SEMAPHORES. \<forall>j < MAX_USER_SEMAPHORES. us_state (sem_table u ! i) = USED \<and> us_state (sem_table u ! j) = USED \<and> i \<noteq> j \<longrightarrow>
        cstring (us_name (sem_table u ! i)) \<noteq> cstring (us_name (sem_table u ! j)) \<and> ksem (sem_table u ! i) \<noteq> ksem (sem_table u ! j))"

definition opened :: "'a usems \<Rightarrow> string \<Rightarrow> nat \<Rightarrow> bool" where
  "opened u nm i \<longleftrightarrow> i < MAX_USER_SEMAPHORES \<and> us_state (sem_table u ! i) = USED \<and> cstring (us_name (sem_table u ! i)) = nm"

lemma usems_okD:
  assumes "usems_ok base u"
  shows "length (sem_table u) = MAX_USER_SEMAPHORES" "sem_table_slock u = 0" "\<exists>ks qs. sems_ok base (us_kernel u) ks qs"
    "i < MAX_USER_SEMAPHORES \<Longrightarrow> row_ok u i"
    "opened u nm i \<Longrightarrow> opened u nm' j \<Longrightarrow> i \<noteq> j \<Longrightarrow> nm \<noteq> nm' \<and> ksem (sem_table u ! i) \<noteq> ksem (sem_table u ! j)"
  using assms by (auto simp: usems_ok_def opened_def)

lemma opened_row:
  assumes "usems_ok base u" "opened u nm i"
  obtains k where "ksem (sem_table u ! i) = Some k" "live (us_kernel u) k" "sid (sem_table u ! i) = int i" "nm \<noteq> []"
  using usems_okD(4) [OF assms(1), of i] assms(2) by (auto simp: row_ok_def opened_def Let_def)

lemma find_opened:
  assumes "usems_ok base u" "c_string nm" "nm \<noteq> []"
  shows "opened u nm i \<Longrightarrow> find_from (\<lambda>e. stringcmp (cstring (us_name e)) nm = 0) (sem_table u) 0 MAX_USER_SEMAPHORES = Inr i"
    and "(\<And>i. \<not> opened u nm i) \<Longrightarrow> find_from (\<lambda>e. stringcmp (cstring (us_name e)) nm = 0) (sem_table u) 0 MAX_USER_SEMAPHORES = Inr MAX_USER_SEMAPHORES"
proof -
  have eq: "stringcmp (cstring (us_name (sem_table u ! j))) nm = 0 \<longleftrightarrow> opened u nm j" if "j < MAX_USER_SEMAPHORES" for j
  proof -
    have "stringcmp (cstring (us_name (sem_table u ! j))) nm = 0 \<longleftrightarrow> cstring (us_name (sem_table u ! j)) = nm"
      by (rule stringcmp_eq_0 [OF _ assms(2)]) (auto simp: c_string_def cstring_def dest: set_takeWhileD)
    moreover have "us_state (sem_table u ! j) = USED" if "cstring (us_name (sem_table u ! j)) = nm"
      using usems_okD(4) [OF assms(1) \<open>j < MAX_USER_SEMAPHORES\<close>] that assms(3) by (cases "us_state (sem_table u ! j)") (auto simp: row_ok_def Let_def)
    ultimately show ?thesis using that by (auto simp: opened_def)
  qed
  show "find_from (\<lambda>e. stringcmp (cstring (us_name e)) nm = 0) (sem_table u) 0 MAX_USER_SEMAPHORES = Inr i" if o: "opened u nm i"
  proof (rule find_from_hit)
    show i: "i < MAX_USER_SEMAPHORES" using o by (simp add: opened_def)
    then show "stringcmp (cstring (us_name (sem_table u ! i))) nm = 0" using eq o by simp
    show "\<forall>j. 0 \<le> j \<and> j < i \<longrightarrow> stringcmp (cstring (us_name (sem_table u ! j))) nm \<noteq> 0"
      using eq i usems_okD(5) [OF assms(1) o] by fastforce
  qed (use o usems_okD(1) [OF assms(1)] in \<open>simp_all add: opened_def\<close>)
  show "find_from (\<lambda>e. stringcmp (cstring (us_name e)) nm = 0) (sem_table u) 0 MAX_USER_SEMAPHORES = Inr MAX_USER_SEMAPHORES" if "\<And>i. \<not> opened u nm i"
  proof -
    have "find_from (\<lambda>e. stringcmp (cstring (us_name e)) nm = 0) (sem_table u) 0 MAX_USER_SEMAPHORES =
        Inr (first_from (\<lambda>i. stringcmp (cstring (us_name (sem_table u ! i))) nm = 0) 0 MAX_USER_SEMAPHORES)"
      by (rule find_from_eq) (use usems_okD(1) [OF assms(1)] in simp)
    moreover have "first_from (\<lambda>i. stringcmp (cstring (us_name (sem_table u ! i))) nm = 0) 0 MAX_USER_SEMAPHORES = MAX_USER_SEMAPHORES"
      using eq that by (subst first_from_eq_n_iff) auto
    ultimately show ?thesis by simp
  qed
qed

lemma sems_ok_status: "sems_ok b s rs qs \<Longrightarrow> sems_ok b (s\<lparr>cp0_status := st\<rparr>) rs qs"
  by (rule sems_ok_others [of b s rs qs]) (auto dest: sems_okD intro: sleepq_ok_frame simp: waiters_sem_frame)

lemma live_status [simp]: "live (s\<lparr>cp0_status := st\<rparr>) = live s"
  by (simp add: live_def fun_eq_iff)

subsection \<open>Opening\<close>

lemma get_sem_run:
  assumes ok: "usems_ok base u" "good_base base" and nm: "c_string nm" "length nm \<le> 19" and v: "0 \<le> v"
    and free: "\<exists>i < MAX_USER_SEMAPHORES. us_state (sem_table u ! i) = FREE" "free_sems (us_kernel u) \<noteq> {}"
  obtains i e k s ks qs where "get_sem nm v u = Inr (int i, u\<lparr>sem_table := (sem_table u)[i := e], us_kernel := s\<rparr>)"
    "i < MAX_USER_SEMAPHORES" "us_state (sem_table u ! i) = FREE"
    "us_state e = USED" "sid e = int i" "ksem e = Some k" "length (us_name e) = 20" "cstring (us_name e) = nm"
    "sems_ok base s ks qs" "k \<in> free_sems (us_kernel u)" "live s k" "sem_value (sem_row s k) = v"
    "\<forall>j. live (us_kernel u) j \<longrightarrow> live s j"
proof -
  note U = usems_okD [OF ok(1)]
  obtain ks qs where S: "sems_ok base (us_kernel u) ks qs" using U(3) by blast
  define i where "i = first_from (\<lambda>i. us_state (sem_table u ! i) = FREE) 0 MAX_USER_SEMAPHORES"
  have "i \<noteq> MAX_USER_SEMAPHORES" "i \<le> MAX_USER_SEMAPHORES" using free(1) by (auto simp: i_def first_from_eq_n_iff first_from_le)
  then have i: "i < MAX_USER_SEMAPHORES" by simp
  then have fr: "us_state (sem_table u ! i) = FREE" unfolding i_def by (rule first_from_holds)
  have find: "find_from (\<lambda>e. us_state e = FREE) (sem_table u) 0 MAX_USER_SEMAPHORES = Inr i"
    using U(1) by (simp add: find_from_eq i_def)
  let ?k = "(us_kernel u)\<lparr>cp0_status := 0xffff00fe AND cp0_status (us_kernel u)\<rparr>"
  have S': "sems_ok base ?k ks qs" by (rule sems_ok_status [OF S])
  have cur: "current_of ?k (this_cpu ?k) \<noteq> -1"
    using sched_okD(7) [OF sleepq_okD(1) [OF sems_okD(1) [OF S']]] by (simp add: is_tid_def)
  obtain s k where c: "semaphore_create v ?k = Inr (Some k, s)" "sems_ok base s ks qs" "is_sem k" "sem_creator (sem_row ?k k) = -1"
    "sem_row s k = \<lparr>sem_slock = 0, sem_value = v, sem_creator = current_of ?k (this_cpu ?k)\<rparr>"
    "\<And>j. is_sem j \<Longrightarrow> j \<noteq> k \<Longrightarrow> sem_row s j = sem_row ?k j"
    using S' ok(2) v cur
  proof (cases rule: semaphore_create_cases)
    case (full s')
    then show ?thesis using free(2) by (auto simp: free_sems_def)
  qed blast
  let ?old = "us_name (sem_table u ! i)"
  have "row_ok u i" using U(4) i by simp
  then have len: "length ?old = 20" by (simp add: row_ok_def Let_def)
  let ?nm = "nm @ NUL # drop (Suc (length nm)) ?old"
  have copy: "stringcopy ?old nm SEMAPHORE_NAME_LENGTH = Inr ?nm"
    using stringcopy_from_eq [OF nm(1) refl, of 0 20 ?old] nm(2) len by (simp add: stringcopy_def min_def)
  let ?e = "(sem_table u ! i)\<lparr>us_state := USED, sid := int i, ksem := Some k, us_name := ?nm\<rparr>"
  let ?s = "interrupt_set_state (cp0_status (us_kernel u)) s"
  have run: "get_sem nm v u = Inr (int i, u\<lparr>us_kernel := ?s, sem_table_slock := 0, sem_table := (sem_table u)[i := ?e]\<rparr>)"
    using U(1,2) i find c(1) copy by (simp add: get_sem_def interrupt_disable_def us_upd_def Let_def)
  have eq: "u\<lparr>us_kernel := ?s, sem_table_slock := 0, sem_table := (sem_table u)[i := ?e]\<rparr> = u\<lparr>sem_table := (sem_table u)[i := ?e], us_kernel := ?s\<rparr>"
    using U(2) by simp
  have s: "?s = s\<lparr>cp0_status := cp0_status ?s\<rparr>" by (simp add: interrupt_set_state_def)
  have live: "live ?s j = live s j" "sem_row ?s j = sem_row s j" for j by (simp_all add: interrupt_set_state_def)
  show ?thesis
  proof (rule that [OF run [unfolded eq] i fr])
    show "sems_ok base ?s ks qs" by (subst s) (rule sems_ok_status [OF c(2)])
    show "k \<in> free_sems (us_kernel u)" using c(3,4) by (simp add: free_sems_def)
    show "live ?s k" using c(3,5) cur by (simp add: live live_def)
    have "live ?s j" if "live (us_kernel u) j" for j
      using that c(4-6) cur by (cases "j = k") (auto simp: live live_def)
    then show "\<forall>j. live (us_kernel u) j \<longrightarrow> live ?s j" by blast
    show "cstring (us_name ?e) = nm" using cstring_terminated [OF nm(1)] by simp
  qed (use c(5) live len nm(2) in simp_all)
qed

lemma opened_upd:
  assumes "length (sem_table u) = MAX_USER_SEMAPHORES" "us_state (sem_table u ! i) = FREE" "i < MAX_USER_SEMAPHORES" "us_state e = USED"
  shows "opened (u\<lparr>sem_table := (sem_table u)[i := e], us_kernel := s\<rparr>) nm j \<longleftrightarrow> (if j = i then nm = cstring (us_name e) else opened u nm j)"
  using assms by (auto simp: opened_def nth_list_update)

lemma get_sem_ok:
  assumes ok: "usems_ok base u" and i: "i < MAX_USER_SEMAPHORES" "us_state (sem_table u ! i) = FREE"
    and e: "us_state e = USED" "sid e = int i" "ksem e = Some k" "length (us_name e) = 20" "cstring (us_name e) = nm" "nm \<noteq> []" "\<And>j. \<not> opened u nm j"
    and s: "sems_ok base s ks qs" "k \<in> free_sems (us_kernel u)" "live s k" "\<And>j. live (us_kernel u) j \<Longrightarrow> live s j"
  shows "usems_ok base (u\<lparr>sem_table := (sem_table u)[i := e], us_kernel := s\<rparr>)"
proof -
  note U = usems_okD [OF ok]
  let ?u = "u\<lparr>sem_table := (sem_table u)[i := e], us_kernel := s\<rparr>"
  have row: "row_ok ?u j" if "j < MAX_USER_SEMAPHORES" for j
    using U(4) [OF that] U(1) i(1) e s(3,4) by (cases "j = i") (auto simp: row_ok_def Let_def)
  have other: "ksem (sem_table u ! j) \<noteq> Some k" if oj: "opened u nm' j" for nm' j
  proof -
    obtain k' where "ksem (sem_table u ! j) = Some k'" "live (us_kernel u) k'" by (rule opened_row [OF ok oj])
    with s(2) show ?thesis by (auto simp: free_sems_def live_def)
  qed
  have "nm1 \<noteq> nm2 \<and> ksem (sem_table ?u ! j1) \<noteq> ksem (sem_table ?u ! j2)"
    if o: "opened ?u nm1 j1" "opened ?u nm2 j2" "j1 \<noteq> j2" for nm1 nm2 j1 j2
  proof -
    have o': "if j1 = i then nm1 = nm else opened u nm1 j1" "if j2 = i then nm2 = nm else opened u nm2 j2"
      using o(1,2) by (simp_all only: opened_upd [OF U(1) i(2,1) e(1)] e(5))
    have k: "ksem ((sem_table u)[i := e] ! j) = (if j = i then Some k else ksem (sem_table u ! j))" for j using U(1) i(1) e(3) by simp
    consider "j1 = i" "j2 \<noteq> i" | "j1 \<noteq> i" "j2 = i" | "j1 \<noteq> i" "j2 \<noteq> i" using o(3) by blast
    then show ?thesis
    proof cases
      case 1
      then show ?thesis using o' other [of nm2 j2] e(7) by (auto simp: k)
    next
      case 2
      then show ?thesis using o' other [of nm1 j1] e(7) by (auto simp: k)
    next
      case 3
      then show ?thesis using o' U(5) [of nm1 j1 nm2 j2] o(3) by (simp add: k)
    qed
  qed
  then have "\<forall>a < MAX_USER_SEMAPHORES. \<forall>b < MAX_USER_SEMAPHORES. us_state (sem_table ?u ! a) = USED \<and> us_state (sem_table ?u ! b) = USED \<and> a \<noteq> b \<longrightarrow>
      cstring (us_name (sem_table ?u ! a)) \<noteq> cstring (us_name (sem_table ?u ! b)) \<and> ksem (sem_table ?u ! a) \<noteq> ksem (sem_table ?u ! b)"
    unfolding opened_def by blast
  with row U(1,2) s(1) show ?thesis by (auto simp: usems_ok_def)
qed

text \<open>Operations that change only the kernel below.\<close>

lemma usems_kernel:
  assumes "usems_ok base u" "sems_ok base s ks qs" "live s = live (us_kernel u)"
  shows "usems_ok base (u\<lparr>us_kernel := s\<rparr>)" "opened (u\<lparr>us_kernel := s\<rparr>) = opened u"
proof -
  have "row_ok (u\<lparr>us_kernel := s\<rparr>) i = row_ok u i" for i using assms(3) by (simp add: row_ok_def)
  then show "usems_ok base (u\<lparr>us_kernel := s\<rparr>)" using assms(1,2) by (auto simp: usems_ok_def)
  show "opened (u\<lparr>us_kernel := s\<rparr>) = opened u" by (simp add: opened_def fun_eq_iff)
qed

subsection \<open>Properties\<close>

text \<open>
  \<^verbatim>\<open>user_sem_open\<close> of a name of 1 to 19 characters.  With a value that is not negative it creates
  a semaphore: if the name is new and there are a free row and a free kernel semaphore, it returns a
  new row with a kernel semaphore of its own that has this value, and every other name keeps its row; a
  name that exists or a full table gives the null pointer and changes nothing.  With a negative value
  it finds the semaphore of the name, and the null pointer exactly if there is none.
\<close>

theorem user_sem_open_spec:
  assumes ok: "usems_ok base u" "good_base base" and nm: "c_string nm" "nm \<noteq> []" "length nm \<le> 19" and v: "0 \<le> v" "w < 0"
  shows "(if \<exists>i. opened u nm i then user_sem_open nm v u = Inr (None, u)
     else if \<forall>i < MAX_USER_SEMAPHORES. us_state (sem_table u ! i) = USED then user_sem_open nm v u = Inr (None, u)
     else free_sems (us_kernel u) \<noteq> {} \<longrightarrow>
       (\<exists>i k u'. user_sem_open nm v u = Inr (Some (int i), u') \<and> usems_ok base u' \<and> opened u' nm i \<and> user_sem_open nm w u' = Inr (Some (int i), u') \<and>
         (\<forall>nm' j. nm' \<noteq> nm \<longrightarrow> opened u' nm' j = opened u nm' j) \<and>
         ksem (sem_table u' ! i) = Some k \<and> sem_value (sem_row (us_kernel u') k) = v)) \<and>
    (\<forall>i. opened u nm i \<longrightarrow> user_sem_open nm w u = Inr (Some (int i), u)) \<and>
    ((\<forall>i. \<not> opened u nm i) \<longrightarrow> user_sem_open nm w u = Inr (None, u))"
proof -
  have lookup: "user_sem_open nm w u' = Inr (Some (int i), u')" if "usems_ok base u'" "opened u' nm i" for i and u' :: "'a usems"
  proof -
    have "i < MAX_USER_SEMAPHORES" "sid (sem_table u' ! i) = int i" using opened_row [OF that] that(2) by (auto simp: opened_def)
    with find_opened(1) [OF that(1) nm(1,2) that(2)] usems_okD(1) [OF that(1)] v(2) show ?thesis
      by (simp add: user_sem_open_def get_user_sem_name_def)
  qed
  have none: "user_sem_open nm w u = Inr (None, u)" "sem_name_exist nm u = Inr False" if "\<And>i. \<not> opened u nm i"
    using find_opened(2) [OF ok(1) nm(1,2) that] v(2) by (simp_all add: user_sem_open_def get_user_sem_name_def sem_name_exist_def)
  consider (exists) "\<exists>i. opened u nm i" | (full) "\<And>i. \<not> opened u nm i" "\<forall>i < MAX_USER_SEMAPHORES. us_state (sem_table u ! i) = USED"
    | (new) "\<And>i. \<not> opened u nm i" "\<exists>i < MAX_USER_SEMAPHORES. us_state (sem_table u ! i) = FREE" by (metis sem_state.exhaust)
  then show ?thesis
  proof cases
    case exists
    then obtain i where i: "opened u nm i" by blast
    have "user_sem_open nm v u = Inr (None, u)"
      using find_opened(1) [OF ok(1) nm(1,2) i] i v(1) by (simp add: user_sem_open_def sem_name_exist_def opened_def)
    with i lookup [OF ok(1)] show ?thesis by auto
  next
    case full
    have "find_from (\<lambda>e. us_state e = FREE) (sem_table u) 0 MAX_USER_SEMAPHORES = Inr MAX_USER_SEMAPHORES"
      using usems_okD(1) [OF ok(1)] full(2) by (simp add: find_from_eq first_from_eq_n_iff)
    then have "get_sem nm v u = Inr (-1, u)"
      using usems_okD(2) [OF ok(1)] by (simp add: get_sem_def interrupt_disable_def Let_def)
    with full none v(1) show ?thesis by (auto simp: user_sem_open_def)
  next
    case new
    have "\<exists>i k u'. user_sem_open nm v u = Inr (Some (int i), u') \<and> usems_ok base u' \<and> opened u' nm i \<and> user_sem_open nm w u' = Inr (Some (int i), u') \<and>
         (\<forall>nm' j. nm' \<noteq> nm \<longrightarrow> opened u' nm' j = opened u nm' j) \<and>
         ksem (sem_table u' ! i) = Some k \<and> sem_value (sem_row (us_kernel u') k) = v" if fs: "free_sems (us_kernel u) \<noteq> {}"
    proof -
      obtain i e k s ks qs where g: "get_sem nm v u = Inr (int i, u\<lparr>sem_table := (sem_table u)[i := e], us_kernel := s\<rparr>)"
        "i < MAX_USER_SEMAPHORES" "us_state (sem_table u ! i) = FREE"
        "us_state e = USED" "sid e = int i" "ksem e = Some k" "length (us_name e) = 20" "cstring (us_name e) = nm"
        "sems_ok base s ks qs" "k \<in> free_sems (us_kernel u)" "live s k" "sem_value (sem_row s k) = v" "\<forall>j. live (us_kernel u) j \<longrightarrow> live s j"
        by (rule get_sem_run [OF ok nm(1,3) v(1) new(2) fs])
      let ?u = "u\<lparr>sem_table := (sem_table u)[i := e], us_kernel := s\<rparr>"
      have ok': "usems_ok base ?u" by (rule get_sem_ok [OF ok(1) g(2-8) nm(2) new(1) g(9-11) g(13) [rule_format]])
      have o: "opened ?u nm' j \<longleftrightarrow> (if j = i then nm' = nm else opened u nm' j)" for nm' j
        using opened_upd [OF usems_okD(1) [OF ok(1)] g(3,2,4)] g(8) by simp
      have "user_sem_open nm v u = Inr (Some (int i), ?u)" using g(1) none(2) [OF new(1)] v(1) by (simp add: user_sem_open_def get_user_sem_sid_def)
      moreover have "opened u nm' i = False" for nm' using g(3) by (simp add: opened_def)
      ultimately show ?thesis using ok' o lookup [OF ok'] g(2,6,12) usems_okD(1) [OF ok(1)]
        by (intro exI [of _ i] exI [of _ k] exI [of _ ?u]) auto
    qed
    with new none show ?thesis by (auto simp: Bex_def)
  qed
qed

text \<open>
  \<^verbatim>\<open>user_sem_v\<close> on an open semaphore raises its kernel semaphore, returns 0 and keeps the table in
  order; on the null pointer the operations return -1.  \<^verbatim>\<open>user_sem_destroy\<close> destroys the kernel
  semaphore but keeps the row and its name: the name can never be created again, although nothing can be
  done with the semaphore any more.
\<close>

theorem user_sem_destroy_keeps_name:
  assumes "usems_ok base u" "good_base base" "opened u nm i" "c_string nm" "0 \<le> v"
    "ksem (sem_table u ! i) = Some k" "0 \<le> sem_value (sem_row (us_kernel u) k)"
  shows "(\<exists>u'. user_sem_v base (Some (int i)) u = Inr (0, u') \<and> usems_ok base u' \<and> opened u' = opened u \<and>
      semaphore_V base k (us_kernel u) = Inr (us_kernel u')) \<and>
    (\<exists>u'. user_sem_destroy (Some (int i)) u = Inr (0, u') \<and> \<not> live (us_kernel u') k \<and> opened u' = opened u \<and>
      user_sem_open nm v u' = Inr (None, u')) \<and>
    user_sem_v base None u = Inr (-1, u) \<and> user_sem_p base None u = Inr (True, -1, u) \<and> user_sem_destroy None u = Inr (-1, u)"
proof -
  obtain ks qs where S: "sems_ok base (us_kernel u) ks qs" using usems_okD(3) [OF assms(1)] by blast
  have k: "live (us_kernel u) k" "nm \<noteq> []" using opened_row [OF assms(1,3)] assms(6) by auto
  have i: "i < MAX_USER_SEMAPHORES" using assms(3) by (simp add: opened_def)
  have ks: "kernel_sem (int i) u = Inr k" using i assms(6) usems_okD(1) [OF assms(1)] by (simp add: kernel_sem_def)
  obtain s rs' qs' where V: "semaphore_V base k (us_kernel u) = Inr s" "sems_ok base s rs' qs'" "live s = live (us_kernel u)"
    by (rule semaphore_V_live [OF S assms(2) k(1)])
  obtain s' where D: "semaphore_destroy k (us_kernel u) = Inr s'" "k \<in> free_sems s'" using semaphore_destroy_ok [OF S k(1) assms(7)] by metis
  let ?u = "u\<lparr>us_kernel := s'\<rparr>"
  have "sem_name_exist nm ?u = Inr True"
    using find_opened(1) [OF assms(1,4) k(2) assms(3)] i by (simp add: sem_name_exist_def)
  then have "user_sem_open nm v ?u = Inr (None, ?u)" using assms(5) by (simp add: user_sem_open_def)
  moreover have "\<not> live s' k" using D(2) by (simp add: live_def free_sems_def)
  moreover have "opened ?u = opened u" by (simp add: opened_def fun_eq_iff)
  moreover have "user_sem_destroy (Some (int i)) u = Inr (0, ?u)" using ks D(1) by (simp add: user_sem_destroy_def)
  moreover have "user_sem_v base (Some (int i)) u = Inr (0, u\<lparr>us_kernel := s\<rparr>)" using ks V(1) by (simp add: user_sem_v_def)
  ultimately show ?thesis using usems_kernel [OF assms(1) V(2,3)] V(1)
    by (auto simp: user_sem_v_def user_sem_p_def user_sem_destroy_def)
qed

subsection \<open>Sample state\<close>

definition sample_usems :: "unit usems" where
  "sample_usems = \<lparr>sem_table = \<lparr>ksem = Some 1, sid = 0, us_state = USED, us_name = ''mutex'' @ replicate 15 NUL\<rparr> #
     replicate 63 \<lparr>ksem = None, sid = 0, us_state = FREE, us_name = replicate 20 NUL\<rparr>, sem_table_slock = 0, us_kernel = sample_kernel\<rparr>"

lemma sample_usems_row:
  "i < MAX_USER_SEMAPHORES \<Longrightarrow> sem_table sample_usems ! i =
     (if i = 0 then \<lparr>ksem = Some 1, sid = 0, us_state = USED, us_name = ''mutex'' @ replicate 15 NUL\<rparr>
      else \<lparr>ksem = None, sid = 0, us_state = FREE, us_name = replicate 20 NUL\<rparr>)"
  by (simp add: sample_usems_def nth_Cons')

lemma sample_names: "cstring (''mutex'' @ replicate 15 NUL) = ''mutex''" "cstring (replicate 20 NUL) = []"
  by (simp_all add: cstring_def numeral_eq_Suc) (simp_all add: NUL_def)

lemma sample_usems_ok: "usems_ok sample_base sample_usems"
proof -
  have "us_kernel sample_usems = sample_kernel" "length (sem_table sample_usems) = 64" "sem_table_slock sample_usems = 0" by (simp_all add: sample_usems_def)
  then show ?thesis
    unfolding usems_ok_def row_ok_def
    using sample_kernel_ok sample_live sample_names sample_usems_row by (auto simp: Let_def)
qed

theorem user_sem_open_spec_witness:
  "\<exists>i u'. user_sem_open ''items'' 3 sample_usems = Inr (Some i, u') \<and> user_sem_open ''items'' (-1) u' = Inr (Some i, u')"
proof -
  have n: "c_string ''items''" by (simp add: c_string_def NUL_def)
  have "\<not> opened sample_usems ''items'' i" for i using sample_usems_row [of i] sample_names by (auto simp: opened_def)
  moreover have "\<not> (\<forall>i < MAX_USER_SEMAPHORES. us_state (sem_table sample_usems ! i) = USED)"
    using sample_usems_row [of 1] by (auto intro!: exI [of _ 1])
  moreover have "5 \<in> free_sems (us_kernel sample_usems)"
    by (simp add: sample_usems_def free_sems_def sample_kernel_sem sample_sem_def is_sem_def CONFIG_MAX_SEMAPHORES_def)
  ultimately have "\<exists>i k u'. user_sem_open ''items'' 3 sample_usems = Inr (Some (int i), u') \<and> usems_ok sample_base u' \<and> opened u' ''items'' i \<and>
      user_sem_open ''items'' (-1) u' = Inr (Some (int i), u') \<and> (\<forall>nm' j. nm' \<noteq> ''items'' \<longrightarrow> opened u' nm' j = opened sample_usems nm' j) \<and>
      ksem (sem_table u' ! i) = Some k \<and> sem_value (sem_row (us_kernel u') k) = 3"
    using user_sem_open_spec [OF sample_usems_ok sample_good_base(1) n, of 3 "-1"] by (simp only: if_False if_True) auto
  then show ?thesis by blast
qed

theorem user_sem_destroy_keeps_name_witness:
  "\<exists>u'. user_sem_destroy (Some 0) sample_usems = Inr (0, u') \<and> user_sem_open ''mutex'' 1 u' = Inr (None, u')"
proof -
  have n: "c_string ''mutex''" by (simp add: c_string_def NUL_def)
  have "opened sample_usems ''mutex'' 0" "ksem (sem_table sample_usems ! 0) = Some 1"
    using sample_usems_row [of 0] sample_names by (simp_all add: opened_def)
  moreover have "sem_value (sem_row (us_kernel sample_usems) 1) = 1"
    by (simp add: sample_usems_def sample_kernel_sem sample_sem_def is_sem_def CONFIG_MAX_SEMAPHORES_def)
  ultimately show ?thesis
    using user_sem_destroy_keeps_name [OF sample_usems_ok sample_good_base(1) _ n, of 0 1 1] by auto
qed

end
