(* ===== verification/Tfs.thy ===== *)
theory Tfs
  imports Gbd Semaphore
begin

text \<open>
  The trivial file system of \<^verbatim>\<open>fs/tfs.c\<close>.  A volume has a header block, a block with the
  allocation bitmap, a block with 25 directory entries, and for every file an inode block with the
  file size and up to 127 block numbers.

  The record \<open>tfs\<close> is the \<^verbatim>\<open>tfs_t\<close> of a mounted volume together with the three block
  buffers that \<^verbatim>\<open>tfs_init\<close> places one after the other behind it, the volume name of its
  \<^verbatim>\<open>fs_t\<close>, and the state of the device.  The operations of one volume exclude each other by the
  semaphore \<^verbatim>\<open>lock\<close>; an operation is one step of the model, and \<open>lock\<close> is the semaphore's
  value: a \<^verbatim>\<open>semaphore_P\<close> that would wait finds no other operation that could raise the value
  and never ends.
\<close>

subsection \<open>Return codes and constants\<close>

definition VFS_OK :: int where "VFS_OK = 0"
definition VFS_NOT_SUPPORTED :: int where "VFS_NOT_SUPPORTED = -1"
definition VFS_ERROR :: int where "VFS_ERROR = -2"
definition VFS_INVALID_PARAMS :: int where "VFS_INVALID_PARAMS = -3"
definition VFS_NOT_OPEN :: int where "VFS_NOT_OPEN = -4"
definition VFS_NOT_FOUND :: int where "VFS_NOT_FOUND = -5"
definition VFS_NO_SUCH_FS :: int where "VFS_NO_SUCH_FS = -6"
definition VFS_LIMIT :: int where "VFS_LIMIT = -7"
definition VFS_IN_USE :: int where "VFS_IN_USE = -8"
definition VFS_UNUSABLE :: int where "VFS_UNUSABLE = -9"

lemmas vfs_codes = VFS_OK_def VFS_NOT_SUPPORTED_def VFS_ERROR_def VFS_INVALID_PARAMS_def VFS_NOT_OPEN_def
  VFS_NOT_FOUND_def VFS_NO_SUCH_FS_def VFS_LIMIT_def VFS_IN_USE_def VFS_UNUSABLE_def

abbreviation VFS_NAME_LENGTH :: int where "VFS_NAME_LENGTH \<equiv> 16"
abbreviation TFS_BLOCK_SIZE :: int where "TFS_BLOCK_SIZE \<equiv> 512"
abbreviation TFS_VOLUMENAME_MAX :: int where "TFS_VOLUMENAME_MAX \<equiv> 16"
abbreviation TFS_FILENAME_MAX :: int where "TFS_FILENAME_MAX \<equiv> 16"
abbreviation TFS_MAX_FILES :: nat where "TFS_MAX_FILES \<equiv> 25"
abbreviation TFS_BLOCKS_MAX :: nat where "TFS_BLOCKS_MAX \<equiv> 127"

definition TFS_MAGIC :: uint32 where "TFS_MAGIC = 3745"
definition TFS_HEADER_BLOCK :: uint32 where "TFS_HEADER_BLOCK = 0"
definition TFS_ALLOCATION_BLOCK :: uint32 where "TFS_ALLOCATION_BLOCK = 1"
definition TFS_DIRECTORY_BLOCK :: uint32 where "TFS_DIRECTORY_BLOCK = 2"

subsection \<open>The mounted volume\<close>

record 'd tfs =
  totalblocks :: uint32
  lock :: int
  buffer_inode :: block
  buffer_bat :: block
  buffer_md :: block
  disk :: 'd
  volume_name :: block
  lock_sem :: int
  fs_addr :: uint32

definition tfs_lock :: "'d tfs \<Rightarrow> 'd tfs kres" where
  "tfs_lock t = (if lock t > 0 then Inr (t\<lparr>lock := lock t - 1\<rparr>) else Inl Deadlock)"

definition tfs_unlock :: "'d tfs \<Rightarrow> 'd tfs" where
  "tfs_unlock t = t\<lparr>lock := lock t + 1\<rparr>"

text \<open>A request for one block from or to one of the buffers.\<close>

definition read_md :: "'d gbd \<Rightarrow> uint32 \<Rightarrow> 'd tfs \<Rightarrow> int \<times> 'd tfs" where
  "read_md g n t = (let (r, b, d) = read_block g n (buffer_md t) (disk t) in (r, t\<lparr>buffer_md := b, disk := d\<rparr>))"

definition read_bat :: "'d gbd \<Rightarrow> uint32 \<Rightarrow> 'd tfs \<Rightarrow> int \<times> 'd tfs" where
  "read_bat g n t = (let (r, b, d) = read_block g n (buffer_bat t) (disk t) in (r, t\<lparr>buffer_bat := b, disk := d\<rparr>))"

definition read_inode :: "'d gbd \<Rightarrow> uint32 \<Rightarrow> 'd tfs \<Rightarrow> int \<times> 'd tfs" where
  "read_inode g n t = (let (r, b, d) = read_block g n (buffer_inode t) (disk t) in (r, t\<lparr>buffer_inode := b, disk := d\<rparr>))"

definition write_md :: "'d gbd \<Rightarrow> uint32 \<Rightarrow> 'd tfs \<Rightarrow> int \<times> 'd tfs" where
  "write_md g n t = (let (r, d) = write_block g n (buffer_md t) (disk t) in (r, t\<lparr>disk := d\<rparr>))"

definition write_bat :: "'d gbd \<Rightarrow> uint32 \<Rightarrow> 'd tfs \<Rightarrow> int \<times> 'd tfs" where
  "write_bat g n t = (let (r, d) = write_block g n (buffer_bat t) (disk t) in (r, t\<lparr>disk := d\<rparr>))"

definition write_inode :: "'d gbd \<Rightarrow> uint32 \<Rightarrow> 'd tfs \<Rightarrow> int \<times> 'd tfs" where
  "write_inode g n t = (let (r, d) = write_block g n (buffer_inode t) (disk t) in (r, t\<lparr>disk := d\<rparr>))"

text \<open>\<^verbatim>\<open>if (r == 0) return ...\<close> after a request.\<close>

definition or_fail :: "('d tfs \<Rightarrow> 'r) \<Rightarrow> int \<times> 'd tfs \<Rightarrow> ('d tfs \<Rightarrow> 'r kres) \<Rightarrow> 'r kres" where
  "or_fail err rt k = (case rt of (r, t) \<Rightarrow> if r = 0 then Inr (err t) else k t)"

abbreviation tfs_error :: "'d tfs \<Rightarrow> int \<times> 'd tfs" where
  "tfs_error t \<equiv> (VFS_ERROR, tfs_unlock t)"

text \<open>
  The fields of a directory entry and of an inode.  A name is read as a C string that starts at the
  entry's name field.  The word \<^verbatim>\<open>block[i]\<close> is read without a check of the index, and behind
  the inode buffer there are the other two.
\<close>

definition md_inode :: "block \<Rightarrow> nat \<Rightarrow> uint32" where
  "md_inode md i = get32 md (20 * i)"

definition md_name :: "block \<Rightarrow> nat \<Rightarrow> string" where
  "md_name md i = cstring (drop (20 * i + 4) md)"

definition filesize :: "block \<Rightarrow> uint32" where
  "filesize ino = get32 ino 0"

definition inode_block :: "'d tfs \<Rightarrow> int \<Rightarrow> uint32 kres" where
  "inode_block t i =
     (let mem = buffer_inode t @ buffer_bat t @ buffer_md t
      in if 0 \<le> i \<and> 4 + 4 * nat i + 4 \<le> length mem then Inr (get32 mem (4 + 4 * nat i)) else Inl Fault)"

text \<open>Access to the buffer of the caller.\<close>

definition get_bytes :: "char list \<Rightarrow> int \<Rightarrow> nat \<Rightarrow> char list kres" where
  "get_bytes b pos n =
     (if n = 0 then Inr []
      else if 0 \<le> pos \<and> nat pos + n \<le> length b then Inr (slice b (nat pos) n) else Inl Fault)"

definition put_bytes :: "char list \<Rightarrow> int \<Rightarrow> char list \<Rightarrow> char list kres" where
  "put_bytes b pos xs =
     (if xs = [] then Inr b
      else if 0 \<le> pos \<and> nat pos + length xs \<le> length b then Inr (splice_at b (nat pos) xs) else Inl Fault)"

subsection \<open>Mounting\<close>

text \<open>
  \<open>page\<close> is what the page that \<^verbatim>\<open>tfs_init\<close> gets from the page pool contains.  The header block
  is read to its start; \<^verbatim>\<open>fs_t\<close> takes 60 bytes and \<^verbatim>\<open>tfs_t\<close> 24, and the buffers follow.
\<close>

definition tfs_init ::
  "'d gbd \<Rightarrow> block \<Rightarrow> 'd \<Rightarrow> 'a sems_scheme \<Rightarrow> ('d tfs option \<times> 'd \<times> 'a sems_scheme) kres" where
  "tfs_init g page d s =
     (if block_size g d \<noteq> 512 then Inr (None, d, s)
      else bindE (semaphore_create 1 s) (\<lambda>(sem, s).
      case sem of None \<Rightarrow> Inr (None, d, s)
      | Some sem \<Rightarrow>
          bindE (pagepool_get_phys_page s) (\<lambda>(addr, s).
          if addr = 0 then bindE (semaphore_destroy sem s) (\<lambda>s. Inr (None, d, s))
          else KERNEL_ASSERT (PAGE_SIZE \<ge> 3 * 512 + 24 + 60)
         (let addr = ADDR_PHYS_TO_KERNEL addr;
              (r, header, d) = read_block g TFS_HEADER_BLOCK (slice page 0 512) d;
              page = splice_at page 0 header
          in if r = 0 \<or> get32 page 0 \<noteq> TFS_MAGIC then
               bindE (semaphore_destroy sem s) (\<lambda>s.
               bindE (pagepool_free_phys_page (ADDR_KERNEL_TO_PHYS addr) s) (\<lambda>s. Inr (None, d, s)))
             else
               bindE (stringcopy (replicate 16 NUL) (cstring (drop 4 page)) TFS_VOLUMENAME_MAX) (\<lambda>name.
               bindE (stringcopy (slice page 4 16) (cstring name) VFS_NAME_LENGTH) (\<lambda>vname.
               Inr (Some \<lparr>totalblocks = min (total_blocks g d) (8 * 512), lock = 1,
                          buffer_inode = slice page 84 512, buffer_bat = slice page 596 512,
                          buffer_md = slice page 1108 512, disk = d, volume_name = vname,
                          lock_sem = sem, fs_addr = addr\<rparr>, d, s)))))))"

definition tfs_unmount :: "'d tfs \<Rightarrow> 'a sems_scheme \<Rightarrow> (int \<times> 'a sems_scheme) kres" where
  "tfs_unmount t s =
     bindE (tfs_lock t) (\<lambda>t.
     bindE (semaphore_destroy (lock_sem t) s) (\<lambda>s.
     bindE (pagepool_free_phys_page (ADDR_KERNEL_TO_PHYS (fs_addr t)) s) (\<lambda>s. Inr (VFS_OK, s))))"

subsection \<open>Opening and closing\<close>

definition tfs_open :: "'d gbd \<Rightarrow> string \<Rightarrow> 'd tfs \<Rightarrow> (int \<times> 'd tfs) kres" where
  "tfs_open g filename t =
     bindE (tfs_lock t) (\<lambda>t.
     or_fail tfs_error (read_md g TFS_DIRECTORY_BLOCK t) (\<lambda>t.
     let i = first_from (\<lambda>i. stringcmp (md_name (buffer_md t) i) filename = 0) 0 TFS_MAX_FILES
     in if i < TFS_MAX_FILES then Inr (sint (md_inode (buffer_md t) i), tfs_unlock t)
        else Inr (VFS_NOT_FOUND, tfs_unlock t)))"

definition tfs_close :: "int \<Rightarrow> 'd tfs \<Rightarrow> (int \<times> 'd tfs) kres" where
  "tfs_close fileid t = Inr (VFS_OK, t)"

subsection \<open>Creating\<close>

text \<open>
  The scan of the directory: \<open>None\<close> when the name is already there, else the last free entry, or
  \<open>-1\<close>.
\<close>

function create_scan :: "block \<Rightarrow> string \<Rightarrow> nat \<Rightarrow> int \<Rightarrow> int option" where
  "create_scan md filename i index =
     (if i < TFS_MAX_FILES then
        if stringcmp (md_name md i) filename = 0 then None
        else create_scan md filename (Suc i) (if md_inode md i = 0 then int i else index)
      else Some index)"
  by pat_completeness auto
termination
  by (relation "measure (\<lambda>(md, filename, i, index). 25 - i)") auto

declare create_scan.simps [simp del]

text \<open>
  The loop that reserves the data blocks; the first component of the result tells whether the disk
  was full.
\<close>

function alloc_blocks :: "nat \<Rightarrow> nat \<Rightarrow> 'd tfs \<Rightarrow> (bool \<times> 'd tfs) kres" where
  "alloc_blocks i numblocks t =
     (if i < numblocks then
        bindE (bitmap_findnset (words_of (buffer_bat t)) (sint (totalblocks t))) (\<lambda>(bat, b).
        let t = t\<lparr>buffer_bat := bytes_of bat,
                  buffer_inode := put32 (buffer_inode t) (4 + 4 * i) (word_of_int b)\<rparr>
        in if b = -1 then Inr (True, t) else alloc_blocks (Suc i) numblocks t)
      else Inr (False, t))"
  by pat_completeness auto
termination
  by (relation "measure (\<lambda>(i, n, t). n - i)") auto

declare alloc_blocks.simps [simp del]

function zero_blocks :: "'d gbd \<Rightarrow> nat \<Rightarrow> nat \<Rightarrow> 'd tfs \<Rightarrow> (int \<times> 'd tfs) kres" where
  "zero_blocks g i numblocks t =
     (if i < numblocks then
        or_fail tfs_error (write_bat g (get32 (buffer_inode t) (4 + 4 * i)) t) (zero_blocks g (Suc i) numblocks)
      else Inr (VFS_OK, tfs_unlock t))"
  by pat_completeness auto
termination
  by (relation "measure (\<lambda>(g, i, n, t). n - i)") auto

declare zero_blocks.simps [simp del]

text \<open>The writes that make the new file visible, and the clearing of its blocks.\<close>

definition create_commit :: "'d gbd \<Rightarrow> nat \<Rightarrow> nat \<Rightarrow> 'd tfs \<Rightarrow> (int \<times> 'd tfs) kres" where
  "create_commit g index numblocks t =
     or_fail tfs_error (write_bat g TFS_ALLOCATION_BLOCK t) (\<lambda>t.
     or_fail tfs_error (write_md g TFS_DIRECTORY_BLOCK t) (\<lambda>t.
     or_fail tfs_error (write_inode g (md_inode (buffer_md t) index) t) (\<lambda>t.
     zero_blocks g 0 numblocks (t\<lparr>buffer_bat := replicate 512 NUL\<rparr>))))"

text \<open>From the read of the allocation block on: blocks for the inode and the data.\<close>

definition create_alloc :: "'d gbd \<Rightarrow> nat \<Rightarrow> int \<Rightarrow> nat \<Rightarrow> 'd tfs \<Rightarrow> (int \<times> 'd tfs) kres" where
  "create_alloc g index sz numblocks t =
     or_fail tfs_error (read_bat g TFS_ALLOCATION_BLOCK t) (\<lambda>t.
     bindE (bitmap_findnset (words_of (buffer_bat t)) (sint (totalblocks t))) (\<lambda>(bat, ino).
     let t = t\<lparr>buffer_bat := bytes_of bat, buffer_md := put32 (buffer_md t) (20 * index) (word_of_int ino)\<rparr>
     in if ino = -1 then Inr (tfs_error t)
        else
          let t = t\<lparr>buffer_inode := put32 (buffer_inode t) 0 (word_of_int sz)\<rparr>
          in bindE (alloc_blocks 0 numblocks t) (\<lambda>(full, t).
             if full then Inr (tfs_error t)
             else
               let t = t\<lparr>buffer_inode :=
                     for_range numblocks TFS_BLOCKS_MAX (\<lambda>i b. put32 b (4 + 4 * i) 0) (buffer_inode t)\<rparr>
               in create_commit g index numblocks t)))"

definition tfs_numblocks :: "int \<Rightarrow> uint32" where
  "tfs_numblocks sz = word_of_int (wrap32 (sz + TFS_BLOCK_SIZE - 1) sdiv TFS_BLOCK_SIZE)"

definition tfs_create :: "'d gbd \<Rightarrow> string \<Rightarrow> int \<Rightarrow> 'd tfs \<Rightarrow> (int \<times> 'd tfs) kres" where
  "tfs_create g filename sz t =
     bindE (tfs_lock t) (\<lambda>t.
     if tfs_numblocks sz > 512 div 4 - 1 then Inr (tfs_error t)
     else or_fail tfs_error (read_md g TFS_DIRECTORY_BLOCK t) (\<lambda>t.
     case create_scan (buffer_md t) filename 0 (-1) of
       None \<Rightarrow> Inr (tfs_error t)
     | Some index \<Rightarrow>
         if index = -1 then Inr (tfs_error t)
         else
           let off = 20 * nat index + 4 in
           bindE (stringcopy (drop off (buffer_md t)) filename TFS_FILENAME_MAX) (\<lambda>b.
           create_alloc g (nat index) sz (unat (tfs_numblocks sz)) (t\<lparr>buffer_md := take off (buffer_md t) @ b\<rparr>))))"

subsection \<open>Removing\<close>

text \<open>
  The loop that frees the data blocks.  It reads \<^verbatim>\<open>block[i]\<close> before it compares \<^verbatim>\<open>i\<close> with
  the number of block pointers.
\<close>

function free_blocks :: "nat \<Rightarrow> 'd tfs \<Rightarrow> 'd tfs kres" where
  "free_blocks i t =
     bindE (inode_block t (int i)) (\<lambda>b.
     if b \<noteq> 0 \<and> i < TFS_BLOCKS_MAX then
       bindE (bitmap_set (words_of (buffer_bat t)) (sint b) 0) (\<lambda>bat.
       free_blocks (Suc i) (t\<lparr>buffer_bat := bytes_of bat\<rparr>))
     else Inr t)"
  by pat_completeness auto
termination
  by (relation "measure (\<lambda>(i, t). 127 - i)") auto

declare free_blocks.simps [simp del]

definition tfs_remove :: "'d gbd \<Rightarrow> string \<Rightarrow> 'd tfs \<Rightarrow> (int \<times> 'd tfs) kres" where
  "tfs_remove g filename t =
     bindE (tfs_lock t) (\<lambda>t.
     or_fail tfs_error (read_md g TFS_DIRECTORY_BLOCK t) (\<lambda>t.
     let index = first_from (\<lambda>i. stringcmp (md_name (buffer_md t) i) filename = 0) 0 TFS_MAX_FILES
     in if \<not> index < TFS_MAX_FILES then Inr (VFS_NOT_FOUND, tfs_unlock t)
        else
          or_fail tfs_error (read_bat g TFS_ALLOCATION_BLOCK t) (\<lambda>t.
          or_fail tfs_error (read_inode g (md_inode (buffer_md t) index) t) (\<lambda>t.
          bindE (bitmap_set (words_of (buffer_bat t)) (sint (md_inode (buffer_md t) index)) 0) (\<lambda>bat.
          bindE (free_blocks 0 (t\<lparr>buffer_bat := bytes_of bat\<rparr>)) (\<lambda>t.
          let t = t\<lparr>buffer_md := (put32 (buffer_md t) (20 * index) 0)[20 * index + 4 := NUL]\<rparr>
          in or_fail tfs_error (write_bat g TFS_ALLOCATION_BLOCK t) (\<lambda>t.
             or_fail tfs_error (write_md g TFS_DIRECTORY_BLOCK t) (\<lambda>t.
             Inr (VFS_OK, tfs_unlock t))))))))) "

subsection \<open>Reading and writing\<close>

function read_loop ::
  "'d gbd \<Rightarrow> int \<Rightarrow> int \<Rightarrow> int \<Rightarrow> char list \<Rightarrow> int \<Rightarrow> int \<Rightarrow> 'd tfs \<Rightarrow> (int \<times> char list \<times> 'd tfs) kres" where
  "read_loop g b1 b2 bufsize buffer pos got t =
     (if b1 \<le> b2 then
        bindE (inode_block t b1) (\<lambda>blk.
        or_fail (\<lambda>t. (VFS_ERROR, buffer, tfs_unlock t)) (read_bat g blk t) (\<lambda>t.
        if b1 = b2 then
          bindE (put_bytes buffer pos (take (nat (bufsize - got)) (buffer_bat t))) (\<lambda>buffer.
          read_loop g (b1 + 1) b2 bufsize buffer pos (got + (bufsize - got)) t)
        else
          bindE (put_bytes buffer pos (take 512 (buffer_bat t))) (\<lambda>buffer.
          read_loop g (b1 + 1) b2 bufsize buffer (pos + TFS_BLOCK_SIZE) (got + TFS_BLOCK_SIZE) t)))
      else Inr (got, buffer, tfs_unlock t))"
  by pat_completeness auto
termination
  by (relation "measure (\<lambda>(g, b1, b2, bufsize, buffer, pos, got, t). nat (b2 + 1 - b1))") auto

declare read_loop.simps [simp del]

definition tfs_read ::
  "'d gbd \<Rightarrow> int \<Rightarrow> char list \<Rightarrow> int \<Rightarrow> int \<Rightarrow> 'd tfs \<Rightarrow> (int \<times> char list \<times> 'd tfs) kres" where
  "tfs_read g fileid buffer bufsize offset t =
     (let err = (\<lambda>t. (VFS_ERROR, buffer, tfs_unlock t)) in
      bindE (tfs_lock t) (\<lambda>t.
      if fileid < 2 \<or> fileid > sint (totalblocks t) then Inr (err t)
      else or_fail err (read_inode g (word_of_int fileid) t) (\<lambda>t.
      let fsize = sint (filesize (buffer_inode t)) in
      if offset < 0 \<or> offset > fsize then Inr (err t)
      else
        let bufsize = min bufsize (fsize - offset) in
        if bufsize = 0 then Inr (0, buffer, tfs_unlock t)
        else
          let b1 = offset sdiv TFS_BLOCK_SIZE;
              b2 = (offset + bufsize - 1) sdiv TFS_BLOCK_SIZE;
              off = offset smod TFS_BLOCK_SIZE
          in bindE (inode_block t b1) (\<lambda>blk.
             or_fail err (read_bat g blk t) (\<lambda>t.
             let got = min (TFS_BLOCK_SIZE - off) bufsize in
             bindE (put_bytes buffer 0 (slice (buffer_bat t) (nat off) (nat got))) (\<lambda>buffer.
             read_loop g (b1 + 1) b2 bufsize buffer got got t))))))"

text \<open>Read block \<^verbatim>\<open>b1\<close> of the file into the block buffer if fewer bytes than a block will be written.\<close>

definition read_part :: "'d gbd \<Rightarrow> int \<Rightarrow> int \<Rightarrow> 'd tfs \<Rightarrow> (int \<times> 'd tfs) kres" where
  "read_part g n b1 t =
     (if n < TFS_BLOCK_SIZE then bindE (inode_block t b1) (\<lambda>blk. Inr (read_bat g blk t)) else Inr (1, t))"

text \<open>Copy bytes into the block buffer and write it to block \<^verbatim>\<open>b1\<close> of the file.\<close>

definition write_part :: "'d gbd \<Rightarrow> int \<Rightarrow> nat \<Rightarrow> char list \<Rightarrow> 'd tfs \<Rightarrow> (int \<times> 'd tfs) kres" where
  "write_part g b1 off bs t =
     (let t = t\<lparr>buffer_bat := splice_at (buffer_bat t) off bs\<rparr>
      in bindE (inode_block t b1) (\<lambda>blk. Inr (write_bat g blk t)))"

function write_loop ::
  "'d gbd \<Rightarrow> int \<Rightarrow> int \<Rightarrow> int \<Rightarrow> char list \<Rightarrow> int \<Rightarrow> int \<Rightarrow> 'd tfs \<Rightarrow> (int \<times> 'd tfs) kres" where
  "write_loop g b1 b2 datasize buffer pos written t =
     (if b1 \<le> b2 then
        if b1 = b2 then
          bindE (read_part g (datasize - written) b1 t) (\<lambda>rt. or_fail tfs_error rt (\<lambda>t.
          bindE (get_bytes buffer pos (nat (datasize - written))) (\<lambda>bs.
          bindE (write_part g b1 0 bs t) (\<lambda>rt. or_fail tfs_error rt (\<lambda>t.
          write_loop g (b1 + 1) b2 datasize buffer pos datasize t)))))
        else
          bindE (get_bytes buffer pos 512) (\<lambda>bs.
          bindE (write_part g b1 0 bs t) (\<lambda>rt. or_fail tfs_error rt (\<lambda>t.
          write_loop g (b1 + 1) b2 datasize buffer (pos + TFS_BLOCK_SIZE) (written + TFS_BLOCK_SIZE) t)))
      else Inr (written, tfs_unlock t))"
  by pat_completeness auto
termination
  by (relation "measure (\<lambda>(g, b1, b2, datasize, buffer, pos, written, t). nat (b2 + 1 - b1))") auto

declare write_loop.simps [simp del]

definition tfs_write ::
  "'d gbd \<Rightarrow> int \<Rightarrow> char list \<Rightarrow> int \<Rightarrow> int \<Rightarrow> 'd tfs \<Rightarrow> (int \<times> 'd tfs) kres" where
  "tfs_write g fileid buffer datasize offset t =
     bindE (tfs_lock t) (\<lambda>t.
     if fileid < 2 \<or> fileid > sint (totalblocks t) then Inr (tfs_error t)
     else or_fail tfs_error (read_inode g (word_of_int fileid) t) (\<lambda>t.
     let fsize = sint (filesize (buffer_inode t)) in
     if offset < 0 \<or> offset > fsize then Inr (tfs_error t)
     else
       let datasize = min datasize (fsize - offset) in
       if datasize = 0 then Inr (0, tfs_unlock t)
       else
         let b1 = offset sdiv TFS_BLOCK_SIZE;
             b2 = (offset + datasize - 1) sdiv TFS_BLOCK_SIZE;
             off = offset smod TFS_BLOCK_SIZE;
             written = min (TFS_BLOCK_SIZE - off) datasize
         in bindE (read_part g written b1 t) (\<lambda>rt. or_fail tfs_error rt (\<lambda>t.
            bindE (get_bytes buffer 0 (nat written)) (\<lambda>bs.
            bindE (write_part g b1 (nat off) bs t) (\<lambda>rt. or_fail tfs_error rt (\<lambda>t.
            write_loop g (b1 + 1) b2 datasize buffer written written t)))))))"

subsection \<open>Statistics and directory listing\<close>

definition tfs_getfree :: "'d gbd \<Rightarrow> 'd tfs \<Rightarrow> (int \<times> 'd tfs) kres" where
  "tfs_getfree g t =
     bindE (tfs_lock t) (\<lambda>t.
     or_fail tfs_error (read_bat g TFS_ALLOCATION_BLOCK t) (\<lambda>t.
     bindE (for_rangeE 0 (unat (totalblocks t))
              (\<lambda>i allocated. bindE (bitmap_get (words_of (buffer_bat t)) (int i)) (\<lambda>v. Inr (allocated + v))) 0)
       (\<lambda>allocated. Inr (sint ((totalblocks t - word_of_int allocated) * 512), tfs_unlock t))))"

definition tfs_filecount :: "'d gbd \<Rightarrow> 'd tfs \<Rightarrow> (int \<times> 'd tfs) kres" where
  "tfs_filecount g t =
     bindE (tfs_lock t) (\<lambda>t.
     or_fail tfs_error (read_md g TFS_DIRECTORY_BLOCK t) (\<lambda>t.
     Inr (for_range 0 TFS_MAX_FILES (\<lambda>i n. if md_inode (buffer_md t) i \<noteq> 0 then n + 1 else n) 0, tfs_unlock t)))"

function file_scan :: "block \<Rightarrow> nat \<Rightarrow> int \<Rightarrow> int \<Rightarrow> nat" where
  "file_scan md i i2 index =
     (if i < TFS_MAX_FILES \<and> i2 < index
      then file_scan md (Suc i) (if md_inode md i \<noteq> 0 then i2 + 1 else i2) index else i)"
  by pat_completeness auto
termination
  by (relation "measure (\<lambda>(md, i, i2, index). 25 - i)") auto

declare file_scan.simps [simp del]

definition tfs_file :: "'d gbd \<Rightarrow> int \<Rightarrow> char list \<Rightarrow> 'd tfs \<Rightarrow> (int \<times> char list \<times> 'd tfs) kres" where
  "tfs_file g index buffer t =
     bindE (tfs_lock t) (\<lambda>t.
     or_fail (\<lambda>t. (VFS_ERROR, buffer, tfs_unlock t)) (read_md g TFS_DIRECTORY_BLOCK t) (\<lambda>t.
     let i = file_scan (buffer_md t) 0 0 index
     in if \<not> i < TFS_MAX_FILES then Inr (-1, buffer, tfs_unlock t)
        else bindE (stringcopy buffer (md_name (buffer_md t) i) VFS_NAME_LENGTH) (\<lambda>buffer.
             Inr (0, buffer, tfs_unlock t))))"

subsection \<open>What an operation leaves alone\<close>

text \<open>
  Whatever the device does, an operation that returns has released the lock exactly as often as it
  took it, and has not changed the description of the volume.  \<open>frame\<close> collects these fields.
\<close>

definition frame :: "'d tfs \<Rightarrow> int \<times> uint32 \<times> block \<times> int \<times> uint32" where
  "frame t = (lock t, totalblocks t, volume_name t, lock_sem t, fs_addr t)"

lemma or_fail_Inr [kres_iff]:
  "or_fail err rt k = Inr x \<longleftrightarrow> (if fst rt = 0 then x = err (snd rt) else k (snd rt) = Inr x)"
  by (cases rt) (auto simp: or_fail_def)

lemma tfs_lock_Inr [kres_iff]: "tfs_lock t = Inr t' \<longleftrightarrow> lock t > 0 \<and> t' = t\<lparr>lock := lock t - 1\<rparr>"
  by (auto simp: tfs_lock_def)

named_theorems frame_simps \<open>functions that keep the frame of a volume\<close>

lemma frame_upd [frame_simps]:
  "frame (t\<lparr>buffer_md := b\<rparr>) = frame t" "frame (t\<lparr>buffer_bat := b\<rparr>) = frame t"
  "frame (t\<lparr>buffer_inode := b\<rparr>) = frame t" "frame (t\<lparr>disk := d\<rparr>) = frame t"
  by (simp_all add: frame_def)

lemma frame_requests [frame_simps]:
  "frame (snd (read_md g n t)) = frame t" "frame (snd (read_bat g n t)) = frame t"
  "frame (snd (read_inode g n t)) = frame t" "frame (snd (write_md g n t)) = frame t"
  "frame (snd (write_bat g n t)) = frame t" "frame (snd (write_inode g n t)) = frame t"
  by (simp_all add: frame_def read_md_def read_bat_def read_inode_def write_md_def write_bat_def
      write_inode_def split: prod.splits)

lemma frame_unlock [frame_simps]: "frame (tfs_unlock t) = (case frame t of (l, r) \<Rightarrow> (l + 1, r))"
  by (simp add: frame_def tfs_unlock_def)

lemma frame_locked: "(case frame (t\<lparr>lock := lock t - 1\<rparr>) of (l, r) \<Rightarrow> (l + 1, r)) = frame t"
  by (simp add: frame_def)

text \<open>
  \<open>ends F v m\<close>: if the computation \<open>m\<close> returns, the volume in its result has the frame \<open>F\<close>.
\<close>

definition ends :: "int \<times> uint32 \<times> block \<times> int \<times> uint32 \<Rightarrow> ('x \<Rightarrow> 'd tfs) \<Rightarrow> 'x kres \<Rightarrow> bool" where
  "ends F v m \<longleftrightarrow> (\<forall>x. m = Inr x \<longrightarrow> frame (v x) = F)"

lemma ends_Inr: "frame (v x) = F \<Longrightarrow> ends F v (Inr x)"
  and ends_bind: "(\<And>x. m = Inr x \<Longrightarrow> ends F v (k x)) \<Longrightarrow> ends F v (bindE m k)"
  and ends_fail: "frame (v (err (snd rt))) = F \<Longrightarrow> ends F v (cont (snd rt)) \<Longrightarrow> ends F v (or_fail err rt cont)"
  and ends_if: "(c \<Longrightarrow> ends F v a) \<Longrightarrow> (\<not> c \<Longrightarrow> ends F v b) \<Longrightarrow> ends F v (if c then a else b)"
  and ends_option: "(opt = None \<Longrightarrow> ends F v a) \<Longrightarrow> (\<And>y. opt = Some y \<Longrightarrow> ends F v (f y)) \<Longrightarrow>
    ends F v (case opt of None \<Rightarrow> a | Some y \<Rightarrow> f y)"
  and ends_prod: "(\<And>y z. p = (y, z) \<Longrightarrow> ends F v (h y z)) \<Longrightarrow> ends F v (case p of (y, z) \<Rightarrow> h y z)"
  by (auto simp: ends_def kres_iff split: if_splits option.splits prod.splits)

lemmas ends_rules = ends_Inr ends_bind ends_fail ends_if ends_option ends_prod

lemma ends_lock:
  "(lock t > 0 \<Longrightarrow> ends (frame t) v (k (t\<lparr>lock := lock t - 1\<rparr>))) \<Longrightarrow> ends (frame t) v (bindE (tfs_lock t) k)"
  by (auto simp: ends_def kres_iff)

lemma write_part_frame: "write_part g b off bs t = Inr rt \<Longrightarrow> frame (snd rt) = frame t"
  by (auto simp: write_part_def Let_def kres_iff frame_simps)

lemma read_part_frame: "read_part g n b t = Inr rt \<Longrightarrow> frame (snd rt) = frame t"
  by (auto simp: read_part_def kres_iff frame_simps split: if_splits)

lemma zero_blocks_ends: "frame (tfs_unlock t) = F \<Longrightarrow> ends F snd (zero_blocks g i n t)"
proof (induction g i n t rule: zero_blocks.induct)
  case (1 g i n t)
  then show ?case
    unfolding zero_blocks.simps [of g i n t] by (intro ends_rules "1.IH") (simp_all add: frame_simps)
qed

lemma alloc_blocks_frame: "alloc_blocks i n t = Inr (full, t') \<Longrightarrow> frame t' = frame t"
proof (induction i n t rule: alloc_blocks.induct)
  case (1 i n t)
  then show ?case
    by (auto simp: alloc_blocks.simps [of i n t] kres_iff frame_simps Let_def split: if_splits)
qed

lemma create_commit_ends: "frame (tfs_unlock t) = F \<Longrightarrow> ends F snd (create_commit g i n t)"
  unfolding create_commit_def by (intro ends_rules zero_blocks_ends) (simp_all add: frame_simps)

lemma create_alloc_ends: "frame (tfs_unlock t) = F \<Longrightarrow> ends F snd (create_alloc g i sz n t)"
  unfolding create_alloc_def Let_def
  by (intro ends_rules create_commit_ends) (auto simp: frame_simps dest!: alloc_blocks_frame)

lemma free_blocks_frame: "free_blocks i t = Inr t' \<Longrightarrow> frame t' = frame t"
proof (induction i t rule: free_blocks.induct)
  case (1 i t)
  then show ?case
    by (auto simp: free_blocks.simps [of i t] kres_iff frame_simps split: if_splits)
qed

lemma read_loop_ends: "frame (tfs_unlock t) = F \<Longrightarrow> ends F (snd \<circ> snd) (read_loop g b1 b2 n buf pos got t)"
proof (induction g b1 b2 n buf pos got t arbitrary: rule: read_loop.induct)
  case (1 g b1 b2 n buf pos got t)
  then show ?case
    unfolding read_loop.simps [of g b1] by (intro ends_rules "1.IH") (simp_all add: frame_simps)
qed

lemma write_loop_ends: "frame (tfs_unlock t) = F \<Longrightarrow> ends F snd (write_loop g b1 b2 n buf pos got t)"
proof (induction g b1 b2 n buf pos got t rule: write_loop.induct)
  case (1 g b1 b2 n buf pos got t)
  then show ?case
    unfolding write_loop.simps [of g b1]
    by (intro ends_rules "1.IH") (simp_all add: frame_simps write_part_frame read_part_frame)
qed

lemma tfs_ops_end:
  "ends (frame t) snd (tfs_open g name t)" "ends (frame t) snd (tfs_close fileid t)"
  "ends (frame t) snd (tfs_create g name sz t)" "ends (frame t) snd (tfs_remove g name t)"
  "ends (frame t) (snd \<circ> snd) (tfs_read g fileid buf n off t)" "ends (frame t) snd (tfs_write g fileid buf n off t)"
  "ends (frame t) snd (tfs_getfree g t)" "ends (frame t) snd (tfs_filecount g t)"
  "ends (frame t) (snd \<circ> snd) (tfs_file g idx buf t)"
proof -
  note rules = ends_lock ends_rules
  note simps = frame_simps frame_locked
  show "ends (frame t) snd (tfs_open g name t)" "ends (frame t) snd (tfs_close fileid t)"
    "ends (frame t) snd (tfs_getfree g t)" "ends (frame t) snd (tfs_filecount g t)"
    "ends (frame t) (snd \<circ> snd) (tfs_file g idx buf t)"
    unfolding tfs_open_def tfs_close_def tfs_getfree_def tfs_filecount_def tfs_file_def Let_def
    by (intro rules; simp add: simps)+
  show "ends (frame t) snd (tfs_create g name sz t)"
    unfolding tfs_create_def Let_def by (intro rules create_alloc_ends) (simp_all add: simps)
  show "ends (frame t) snd (tfs_remove g name t)"
    unfolding tfs_remove_def Let_def by (intro rules) (auto simp: simps dest!: free_blocks_frame)
  show "ends (frame t) (snd \<circ> snd) (tfs_read g fileid buf n off t)"
    unfolding tfs_read_def Let_def by (intro rules read_loop_ends) (simp_all add: simps)
  show "ends (frame t) snd (tfs_write g fileid buf n off t)"
    unfolding tfs_write_def Let_def
    by (intro rules write_loop_ends) (simp_all add: simps write_part_frame read_part_frame)
qed

end
