(* ===== verification/Volume.thy ===== *)
theory Volume
  imports Tfs
begin

text \<open>
  What a TFS volume stores: a map from file names to byte strings.  \<open>volume_ok\<close> is the invariant of
  the blocks on the disk, \<open>files\<close> the map they stand for, and the lemmas in the context of the
  block device interface show that on a working device every operation of \<^verbatim>\<open>fs/tfs.c\<close> keeps the
  invariant and acts on the map as it should.
\<close>

subsection \<open>Directory entries\<close>

definition name_field :: "block \<Rightarrow> nat \<Rightarrow> char list" where
  "name_field md i = slice md (20 * i + 4) 16"

definition dir_ok :: "block \<Rightarrow> bool" where
  "dir_ok md \<longleftrightarrow> length md = 512 \<and>
     (\<forall>i < 25. NUL \<in> set (name_field md i) \<and> (md_inode md i = 0 \<longleftrightarrow> md_name md i = [])) \<and>
     (\<forall>i < 25. \<forall>j < 25. i \<noteq> j \<and> md_inode md i \<noteq> 0 \<longrightarrow> md_name md i \<noteq> md_name md j)"

definition dir_find :: "block \<Rightarrow> string \<Rightarrow> nat option" where
  "dir_find md name =
     (let i = first_from (\<lambda>i. md_inode md i \<noteq> 0 \<and> md_name md i = name) 0 25
      in if i < 25 then Some i else None)"

definition file_name :: "string \<Rightarrow> bool" where
  "file_name name \<longleftrightarrow> c_string name \<and> name \<noteq> [] \<and> length name \<le> 15"

lemma cstring_c_string [simp]: "c_string (cstring b)"
  by (auto simp: c_string_def cstring_def dest: set_takeWhileD)

lemma md_name_c_string [simp]: "c_string (md_name md i)"
  by (simp add: md_name_def)

lemma cstring_append: "NUL \<in> set b \<Longrightarrow> cstring (b @ c) = cstring b"
  by (auto simp: cstring_def)

lemma md_name_field:
  assumes "NUL \<in> set (name_field md i)"
  shows "md_name md i = cstring (name_field md i)"
proof -
  have "drop (20 * i + 4) md = name_field md i @ drop 16 (drop (20 * i + 4) md)"
    unfolding name_field_def slice_def by (rule append_take_drop_id [symmetric])
  with cstring_append [OF assms] show ?thesis unfolding md_name_def by metis
qed

lemma dir_okD:
  assumes "dir_ok md" "i < 25"
  shows "length md = 512" "NUL \<in> set (name_field md i)" "md_name md i = cstring (name_field md i)"
    "md_inode md i = 0 \<longleftrightarrow> md_name md i = []"
    "j < 25 \<Longrightarrow> i \<noteq> j \<Longrightarrow> md_inode md i \<noteq> 0 \<Longrightarrow> md_name md i \<noteq> md_name md j"
  using assms md_name_field unfolding dir_ok_def by blast+

lemma md_name_length: "dir_ok md \<Longrightarrow> i < 25 \<Longrightarrow> length (md_name md i) \<le> 15"
proof -
  assume "dir_ok md" "i < 25"
  then have n: "NUL \<in> set (name_field md i)" "length (name_field md i) = 16" "md_name md i = cstring (name_field md i)"
    using dir_okD [of md i] by (simp_all add: name_field_def)
  then have "length (cstring (name_field md i)) < 16"
    unfolding cstring_def
    by (metis (mono_tags, lifting) length_takeWhile_le le_neq_implies_less takeWhile_eq_all_conv
        takeWhile_eq_take take_all_iff order_refl)
  with n show ?thesis by simp
qed

lemma dir_find_Some:
  assumes "dir_ok md"
  shows "dir_find md name = Some i \<longleftrightarrow> i < 25 \<and> md_inode md i \<noteq> 0 \<and> md_name md i = name"
proof
  assume "dir_find md name = Some i"
  then show "i < 25 \<and> md_inode md i \<noteq> 0 \<and> md_name md i = name"
    using first_from_holds [of "\<lambda>i. md_inode md i \<noteq> 0 \<and> md_name md i = name" 0 25]
    by (auto simp: dir_find_def Let_def split: if_splits)
next
  assume i: "i < 25 \<and> md_inode md i \<noteq> 0 \<and> md_name md i = name"
  have "md_name md j \<noteq> name" if "j < i" for j
    using dir_okD(5) [OF assms, of i j] i that by auto
  then have "first_from (\<lambda>i. md_inode md i \<noteq> 0 \<and> md_name md i = name) 0 25 = i"
    using i by (intro first_from_eqI) auto
  with i show "dir_find md name = Some i" by (simp add: dir_find_def)
qed

lemma dir_find_None:
  assumes "dir_ok md"
  shows "dir_find md name = None \<longleftrightarrow> (\<forall>i < 25. md_inode md i \<noteq> 0 \<longrightarrow> md_name md i \<noteq> name)"
  using dir_find_Some [OF assms, of name] by (metis not_None_eq)

text \<open>The searches of the C code look at the names only.\<close>

lemma name_search:
  assumes "dir_ok md" "file_name name"
  shows "first_from (\<lambda>i. stringcmp (md_name md i) name = 0) 0 25 =
    (case dir_find md name of Some i \<Rightarrow> i | None \<Rightarrow> 25)"
proof (cases "dir_find md name")
  case None
  have "md_name md i \<noteq> name" if "i < 25" for i
    using None that assms dir_okD(4) [OF assms(1) that] dir_find_None [OF assms(1), of name]
    by (auto simp: file_name_def)
  then have "first_from (\<lambda>i. stringcmp (md_name md i) name = 0) 0 25 = 25"
    using assms(2) by (subst first_from_eq_n_iff) (auto simp: stringcmp_eq_0 file_name_def)
  with None show ?thesis by simp
next
  case (Some i)
  then have i: "i < 25" "md_inode md i \<noteq> 0" "md_name md i = name"
    using dir_find_Some [OF assms(1)] by auto
  have "md_name md j \<noteq> name" if "j < i" for j
    using dir_okD(5) [OF assms(1) i(1), of j] i that by auto
  then have "first_from (\<lambda>i. stringcmp (md_name md i) name = 0) 0 25 = i"
    using i assms(2) by (intro first_from_eqI) (auto simp: stringcmp_eq_0 file_name_def)
  with Some show ?thesis by simp
qed

lemma create_scan_exists:
  assumes "i \<le> j" "j < 25" "md_name md j = name"
  shows "create_scan md name i index = None"
  using assms
proof (induction md name i index rule: create_scan.induct)
  case (1 md name i index)
  have "stringcmp (md_name md i) name = 0" if "i = j"
    using that "1.prems"(3) by (metis md_name_c_string stringcmp_eq_0)
  then show ?case using 1 by (cases "i = j") (simp_all add: create_scan.simps [of md name j index] create_scan.simps [of md name i index])
qed

lemma create_scan_fresh:
  assumes "i \<le> 25" "\<And>j. i \<le> j \<Longrightarrow> j < 25 \<Longrightarrow> md_name md j \<noteq> name" "c_string name"
  shows "\<exists>k. create_scan md name i index = Some k \<and>
    (k = index \<and> (\<forall>j. i \<le> j \<and> j < 25 \<longrightarrow> md_inode md j \<noteq> 0) \<or>
     i \<le> nat k \<and> 0 \<le> k \<and> nat k < 25 \<and> md_inode md (nat k) = 0)"
  using assms
proof (induction md name i index rule: create_scan.induct)
  case (1 md name i index)
  show ?case
  proof (cases "i < 25")
    case False
    then show ?thesis by (auto simp: create_scan.simps [of md name i index])
  next
    case True
    let ?x = "if md_inode md i = 0 then int i else index"
    have n: "stringcmp (md_name md i) name \<noteq> 0"
      using 1(3) [of i] 1(4) True by (simp add: stringcmp_eq_0)
    have "\<exists>k. create_scan md name (Suc i) ?x = Some k \<and>
      (k = ?x \<and> (\<forall>j. Suc i \<le> j \<and> j < 25 \<longrightarrow> md_inode md j \<noteq> 0) \<or>
       Suc i \<le> nat k \<and> 0 \<le> k \<and> nat k < 25 \<and> md_inode md (nat k) = 0)"
      using "1.IH" [OF True n] 1(3,4) True by simp
    then obtain k where k: "create_scan md name (Suc i) ?x = Some k"
      "k = ?x \<and> (\<forall>j. Suc i \<le> j \<and> j < 25 \<longrightarrow> md_inode md j \<noteq> 0) \<or>
       Suc i \<le> nat k \<and> 0 \<le> k \<and> nat k < 25 \<and> md_inode md (nat k) = 0" by blast
    have "create_scan md name i index = Some k"
      using True n k(1) by (simp add: create_scan.simps [of md name i index])
    moreover have "k = index \<and> (\<forall>j. i \<le> j \<and> j < 25 \<longrightarrow> md_inode md j \<noteq> 0) \<or>
       i \<le> nat k \<and> 0 \<le> k \<and> nat k < 25 \<and> md_inode md (nat k) = 0"
      using k(2) True by (auto simp: Suc_le_eq split: if_splits) (metis le_neq_implies_less)+
    ultimately show ?thesis by blast
  qed
qed

subsection \<open>Files\<close>

definition data_blocks :: "block \<Rightarrow> nat list" where
  "data_blocks ino = takeWhile (\<lambda>b. b \<noteq> 0) (map (\<lambda>k. unat (get32 ino (4 + 4 * k))) [0..<127])"

definition file_at :: "(nat \<Rightarrow> block) \<Rightarrow> nat \<Rightarrow> char list" where
  "file_at B n = take (unat (filesize (B n))) (concat (map B (data_blocks (B n))))"

definition entry_inode :: "(nat \<Rightarrow> block) \<Rightarrow> nat \<Rightarrow> nat" where
  "entry_inode B i = unat (md_inode (B 2) i)"

definition entry_blocks :: "(nat \<Rightarrow> block) \<Rightarrow> nat \<Rightarrow> nat list" where
  "entry_blocks B i = entry_inode B i # data_blocks (B (entry_inode B i))"

definition files :: "(nat \<Rightarrow> block) \<Rightarrow> string \<Rightarrow> char list option" where
  "files B name = map_option (\<lambda>i. file_at B (entry_inode B i)) (dir_find (B 2) name)"

definition blocks_for :: "nat \<Rightarrow> nat" where
  "blocks_for sz = (sz + 511) div 512"

definition used :: "(nat \<Rightarrow> block) \<Rightarrow> nat \<Rightarrow> bool" where
  "used B p = bm_bit (words_of (B 1)) p"

definition file_ok :: "nat \<Rightarrow> (nat \<Rightarrow> block) \<Rightarrow> nat \<Rightarrow> bool" where
  "file_ok T B i \<longleftrightarrow>
     length (data_blocks (B (entry_inode B i))) = blocks_for (unat (filesize (B (entry_inode B i)))) \<and>
     distinct (entry_blocks B i) \<and> (\<forall>b \<in> set (entry_blocks B i). 3 \<le> b \<and> b < T \<and> used B b)"

definition entry_used :: "(nat \<Rightarrow> block) \<Rightarrow> nat \<Rightarrow> bool" where
  "entry_used B i \<longleftrightarrow> i < 25 \<and> md_inode (B 2) i \<noteq> 0"

text \<open>
  The invariant of a volume with \<open>T\<close> blocks: the directory is well formed, the three system blocks
  are marked as used, every file has exactly the blocks its size needs, all of them marked as used
  and none of them shared.
\<close>

definition volume_ok :: "nat \<Rightarrow> (nat \<Rightarrow> block) \<Rightarrow> bool" where
  "volume_ok T B \<longleftrightarrow> 3 \<le> T \<and> T \<le> 4096 \<and> dir_ok (B 2) \<and> length (B 1) = 512 \<and> (\<forall>p < 3. used B p) \<and>
     (\<forall>i. entry_used B i \<longrightarrow> file_ok T B i) \<and>
     (\<forall>i j. entry_used B i \<and> entry_used B j \<and> i \<noteq> j \<longrightarrow> set (entry_blocks B i) \<inter> set (entry_blocks B j) = {})"

lemma volume_okD:
  assumes "volume_ok T B"
  shows "3 \<le> T" "T \<le> 4096" "dir_ok (B 2)" "length (B 1) = 512" "length (B 2) = 512" "p < 3 \<Longrightarrow> used B p"
    "entry_used B i \<Longrightarrow> file_ok T B i"
    "entry_used B i \<Longrightarrow> entry_used B j \<Longrightarrow> i \<noteq> j \<Longrightarrow> set (entry_blocks B i) \<inter> set (entry_blocks B j) = {}"
  using assms unfolding volume_ok_def dir_ok_def by blast+

lemma files_Some:
  assumes "volume_ok T B"
  shows "files B name = Some c \<longleftrightarrow>
    (\<exists>i. entry_used B i \<and> md_name (B 2) i = name \<and> c = file_at B (entry_inode B i))"
  using dir_find_Some [OF volume_okD(3) [OF assms], of name] by (auto simp: files_def entry_used_def)

lemma files_eqI:
  assumes "entry_used B i" "md_name (B 2) i = name" "dir_ok (B 2)"
  shows "files B name = Some (file_at B (entry_inode B i))"
  using dir_find_Some [OF assms(3), of name i] assms(1,2) by (simp add: files_def entry_used_def)

lemma data_blocks_length: "length (data_blocks ino) \<le> 127"
  unfolding data_blocks_def by (rule order_trans [OF length_takeWhile_le]) simp

lemma data_blocks_nth:
  assumes "k < length (data_blocks ino)"
  shows "data_blocks ino ! k = unat (get32 ino (4 + 4 * k))" "get32 ino (4 + 4 * k) \<noteq> 0"
proof -
  show eq: "data_blocks ino ! k = unat (get32 ino (4 + 4 * k))"
    using assms data_blocks_length [of ino] by (simp add: data_blocks_def takeWhile_nth)
  have "data_blocks ino ! k \<noteq> 0"
    using set_takeWhileD [OF nth_mem [OF assms, unfolded data_blocks_def]] unfolding data_blocks_def by blast
  with eq show "get32 ino (4 + 4 * k) \<noteq> 0" by auto
qed

lemma file_blocks_max: "file_ok T B i \<Longrightarrow> unat (filesize (B (entry_inode B i))) \<le> 65024"
  using data_blocks_length [of "B (entry_inode B i)"] by (auto simp: file_ok_def blocks_for_def)

text \<open>Files depend on their own blocks only.\<close>

lemma file_at_cong:
  assumes "\<And>b. b \<in> set (n # data_blocks (B n)) \<Longrightarrow> B' b = B b"
  shows "file_at B' n = file_at B n"
proof -
  have "B' n = B n" "map B' (data_blocks (B n)) = map B (data_blocks (B n))" using assms by simp_all
  then show ?thesis unfolding file_at_def by (simp only:)
qed

lemma length_file_at:
  assumes "file_ok T B i" "\<And>b. b < T \<Longrightarrow> length (B b) = 512"
  shows "length (file_at B (entry_inode B i)) = unat (filesize (B (entry_inode B i)))"
proof -
  let ?bs = "data_blocks (B (entry_inode B i))"
  have "length (concat (map B ?bs)) = 512 * length ?bs"
  proof -
    have "\<forall>b \<in> set ?bs. length (B b) = 512"
      using assms by (auto simp: file_ok_def entry_blocks_def)
    then show ?thesis by (induction ?bs) (auto simp: length_concat sum_list_triv o_def cong: map_cong)
  qed
  moreover have "unat (filesize (B (entry_inode B i))) \<le> 512 * length ?bs"
    using assms(1) by (simp add: file_ok_def blocks_for_def)
  ultimately show ?thesis by (simp add: file_at_def)
qed

subsection \<open>Operations on a working device\<close>

lemma tfs_unlock_fields [simp]: "lock (tfs_unlock t) = lock t + 1" "disk (tfs_unlock t) = disk t"
  by (simp_all add: tfs_unlock_def)

text \<open>
  A volume with \<open>T\<close> blocks on a device with \<open>N\<close> blocks whose working states satisfy \<open>ok\<close>.
\<close>

definition mounted_on :: "('d \<Rightarrow> bool) \<Rightarrow> nat \<Rightarrow> nat \<Rightarrow> 'd tfs \<Rightarrow> bool" where
  "mounted_on ok N T t \<longleftrightarrow> ok (disk t) \<and> length (buffer_md t) = 512 \<and> length (buffer_bat t) = 512 \<and>
     length (buffer_inode t) = 512 \<and> totalblocks t = of_nat T \<and> T \<le> N \<and> T \<le> 4096 \<and> 3 \<le> T"

context block_device
begin

abbreviation mounted :: "nat \<Rightarrow> 'd tfs \<Rightarrow> bool" where
  "mounted \<equiv> mounted_on dev_ok nblocks"

lemma mountedD:
  assumes "mounted T t"
  shows "dev_ok (disk t)" "length (buffer_md t) = 512" "length (buffer_bat t) = 512"
    "length (buffer_inode t) = 512" "totalblocks t = of_nat T" "T \<le> nblocks" "3 \<le> T"
    "sint (totalblocks t) = int T" "T \<le> 4096" "unat (totalblocks t) = T"
  using assms by (auto simp: mounted_on_def sint_of_nat_small unat_of_nat_small)

lemma mounted_upd [simp]: "mounted T (tfs_unlock t) = mounted T t" "mounted T (t\<lparr>lock := l\<rparr>) = mounted T t"
  "mounted T t \<Longrightarrow> length b = 512 \<Longrightarrow> mounted T (t\<lparr>buffer_md := b\<rparr>)"
  "mounted T t \<Longrightarrow> length b = 512 \<Longrightarrow> mounted T (t\<lparr>buffer_bat := b\<rparr>)"
  "mounted T t \<Longrightarrow> length b = 512 \<Longrightarrow> mounted T (t\<lparr>buffer_inode := b\<rparr>)"
  by (simp_all add: mounted_on_def tfs_unlock_def)

lemma mounted_blocks: "mounted T t \<Longrightarrow> b < T \<Longrightarrow> length (blk (disk t) b) = 512"
  using block_length [of "disk t" b] mountedD [of T t] by simp

text \<open>Each request succeeds and does one thing.\<close>

lemma request_read:
  assumes "mounted T t" "unat n < T" "length b = 512"
  obtains d' where "read_block g n b (disk t) = (1, blk (disk t) (unat n), d')" "mounted T (t\<lparr>disk := d'\<rparr>)"
    "blk d' = blk (disk t)"
  using read_law [of "disk t" n b] assms mountedD(1,6) [OF assms(1)] by (auto simp: mounted_on_def)

lemma request_write:
  assumes "mounted T t" "unat n < T" "length b = 512"
  obtains d' where "write_block g n b (disk t) = (1, d')" "mounted T (t\<lparr>disk := d'\<rparr>)"
    "blk d' = (blk (disk t))(unat n := b)"
  using write_law [of "disk t" n b] assms mountedD(1,6) [OF assms(1)] by (auto simp: mounted_on_def)

text \<open>Rules for \<open>returns\<close>: what has to hold before a request.\<close>

lemma returns_read_md:
  assumes "mounted T t" "unat n < T"
    and "\<And>d'. mounted T (t\<lparr>buffer_md := blk (disk t) (unat n), disk := d'\<rparr>) \<Longrightarrow> blk d' = blk (disk t) \<Longrightarrow>
      returns P (k (t\<lparr>buffer_md := blk (disk t) (unat n), disk := d'\<rparr>))"
  shows "returns P (or_fail err (read_md g n t) k)"
proof -
  obtain d' where d: "read_block g n (buffer_md t) (disk t) = (1, blk (disk t) (unat n), d')"
    "mounted T (t\<lparr>disk := d'\<rparr>)" "blk d' = blk (disk t)"
    using request_read [OF assms(1,2) mountedD(2) [OF assms(1)]] by blast
  have "mounted T (t\<lparr>buffer_md := blk (disk t) (unat n), disk := d'\<rparr>)"
    using d(2) mounted_blocks [OF assms(1,2)] by (simp add: mounted_on_def)
  with assms(3) [OF this d(3)] show ?thesis by (simp add: or_fail_def read_md_def d(1))
qed

lemma returns_read_bat:
  assumes "mounted T t" "unat n < T"
    and "\<And>d'. mounted T (t\<lparr>buffer_bat := blk (disk t) (unat n), disk := d'\<rparr>) \<Longrightarrow> blk d' = blk (disk t) \<Longrightarrow>
      returns P (k (t\<lparr>buffer_bat := blk (disk t) (unat n), disk := d'\<rparr>))"
  shows "returns P (or_fail err (read_bat g n t) k)"
proof -
  obtain d' where d: "read_block g n (buffer_bat t) (disk t) = (1, blk (disk t) (unat n), d')"
    "mounted T (t\<lparr>disk := d'\<rparr>)" "blk d' = blk (disk t)"
    using request_read [OF assms(1,2) mountedD(3) [OF assms(1)]] by blast
  have "mounted T (t\<lparr>buffer_bat := blk (disk t) (unat n), disk := d'\<rparr>)"
    using d(2) mounted_blocks [OF assms(1,2)] by (simp add: mounted_on_def)
  with assms(3) [OF this d(3)] show ?thesis by (simp add: or_fail_def read_bat_def d(1))
qed

lemma returns_read_inode:
  assumes "mounted T t" "unat n < T"
    and "\<And>d'. mounted T (t\<lparr>buffer_inode := blk (disk t) (unat n), disk := d'\<rparr>) \<Longrightarrow> blk d' = blk (disk t) \<Longrightarrow>
      returns P (k (t\<lparr>buffer_inode := blk (disk t) (unat n), disk := d'\<rparr>))"
  shows "returns P (or_fail err (read_inode g n t) k)"
proof -
  obtain d' where d: "read_block g n (buffer_inode t) (disk t) = (1, blk (disk t) (unat n), d')"
    "mounted T (t\<lparr>disk := d'\<rparr>)" "blk d' = blk (disk t)"
    using request_read [OF assms(1,2) mountedD(4) [OF assms(1)]] by blast
  have "mounted T (t\<lparr>buffer_inode := blk (disk t) (unat n), disk := d'\<rparr>)"
    using d(2) mounted_blocks [OF assms(1,2)] by (simp add: mounted_on_def)
  with assms(3) [OF this d(3)] show ?thesis by (simp add: or_fail_def read_inode_def d(1))
qed

lemma returns_write:
  assumes "mounted T t" "unat n < T"
  shows "(\<And>d'. mounted T (t\<lparr>disk := d'\<rparr>) \<Longrightarrow> blk d' = (blk (disk t))(unat n := buffer_md t) \<Longrightarrow>
      returns P (k (t\<lparr>disk := d'\<rparr>))) \<Longrightarrow> returns P (or_fail err (write_md g n t) k)"
    and "(\<And>d'. mounted T (t\<lparr>disk := d'\<rparr>) \<Longrightarrow> blk d' = (blk (disk t))(unat n := buffer_bat t) \<Longrightarrow>
      returns P (k (t\<lparr>disk := d'\<rparr>))) \<Longrightarrow> returns P (or_fail err (write_bat g n t) k)"
    and "(\<And>d'. mounted T (t\<lparr>disk := d'\<rparr>) \<Longrightarrow> blk d' = (blk (disk t))(unat n := buffer_inode t) \<Longrightarrow>
      returns P (k (t\<lparr>disk := d'\<rparr>))) \<Longrightarrow> returns P (or_fail err (write_inode g n t) k)"
proof -
  obtain d1 d2 d3 where
    d: "write_block g n (buffer_md t) (disk t) = (1, d1)" "mounted T (t\<lparr>disk := d1\<rparr>)"
    "blk d1 = (blk (disk t))(unat n := buffer_md t)"
    "write_block g n (buffer_bat t) (disk t) = (1, d2)" "mounted T (t\<lparr>disk := d2\<rparr>)"
    "blk d2 = (blk (disk t))(unat n := buffer_bat t)"
    "write_block g n (buffer_inode t) (disk t) = (1, d3)" "mounted T (t\<lparr>disk := d3\<rparr>)"
    "blk d3 = (blk (disk t))(unat n := buffer_inode t)"
    using request_write [OF assms mountedD(2) [OF assms(1)]] request_write [OF assms mountedD(3) [OF assms(1)]]
      request_write [OF assms mountedD(4) [OF assms(1)]] by metis
  { assume "\<And>d'. mounted T (t\<lparr>disk := d'\<rparr>) \<Longrightarrow> blk d' = (blk (disk t))(unat n := buffer_md t) \<Longrightarrow>
      returns P (k (t\<lparr>disk := d'\<rparr>))"
    from this [OF d(2,3)] show "returns P (or_fail err (write_md g n t) k)"
      by (simp add: or_fail_def write_md_def d(1)) }
  { assume "\<And>d'. mounted T (t\<lparr>disk := d'\<rparr>) \<Longrightarrow> blk d' = (blk (disk t))(unat n := buffer_bat t) \<Longrightarrow>
      returns P (k (t\<lparr>disk := d'\<rparr>))"
    from this [OF d(5,6)] show "returns P (or_fail err (write_bat g n t) k)"
      by (simp add: or_fail_def write_bat_def d(4)) }
  { assume "\<And>d'. mounted T (t\<lparr>disk := d'\<rparr>) \<Longrightarrow> blk d' = (blk (disk t))(unat n := buffer_inode t) \<Longrightarrow>
      returns P (k (t\<lparr>disk := d'\<rparr>))"
    from this [OF d(8,9)] show "returns P (or_fail err (write_inode g n t) k)"
      by (simp add: or_fail_def write_inode_def d(7)) }
qed

lemma system_blocks:
  "unat TFS_DIRECTORY_BLOCK = 2" "unat TFS_ALLOCATION_BLOCK = 1" "mounted T t \<Longrightarrow> 2 < T" "mounted T t \<Longrightarrow> 1 < T"
  using mountedD(7) [of T t] by (simp_all add: TFS_DIRECTORY_BLOCK_def TFS_ALLOCATION_BLOCK_def)

lemma open_ok:
  assumes "mounted T t" "lock t = 1" "volume_ok T (blk (disk t))" "file_name name"
  shows "returns (\<lambda>(r, t'). r = (case dir_find (blk (disk t) 2) name of
             Some i \<Rightarrow> int (entry_inode (blk (disk t)) i) | None \<Rightarrow> VFS_NOT_FOUND) \<and>
    mounted T t' \<and> lock t' = 1 \<and> blk (disk t') = blk (disk t)) (tfs_open g name t)"
proof -
  let ?B = "blk (disk t)"
  have s: "sint (md_inode (?B 2) i) = int (entry_inode ?B i) \<and> i < 25" if "dir_find (?B 2) name = Some i" for i
  proof -
    have "entry_used ?B i" using that dir_find_Some [OF volume_okD(3) [OF assms(3)]] by (simp add: entry_used_def)
    moreover from this have "entry_inode ?B i < 4096"
      using volume_okD(2,7) [OF assms(3)] by (fastforce simp: file_ok_def entry_blocks_def)
    ultimately show ?thesis by (simp add: entry_inode_def sint_small entry_used_def)
  qed
  show ?thesis
    unfolding tfs_open_def tfs_lock_def
    using assms s name_search [OF volume_okD(3) [OF assms(3)] assms(4)]
    by (auto intro!: returns_read_md simp: system_blocks Let_def split: option.splits)
qed

lemma getfree_ok:
  assumes "mounted T t" "lock t = 1" "volume_ok T (blk (disk t))"
  shows "returns (\<lambda>(r, t'). r = 512 * int (card {p. p < T \<and> \<not> used (blk (disk t)) p}) \<and>
    mounted T t' \<and> lock t' = 1 \<and> blk (disk t') = blk (disk t)) (tfs_getfree g t)"
proof -
  let ?B = "blk (disk t)"
  have T: "T \<le> 4096" "Suc 0 < T" "length (?B 1) = 512" using volume_okD(1,2,4) [OF assms(3)] by simp_all
  let ?f = "\<lambda>i allocated. bindE (bitmap_get (words_of (?B (Suc 0))) (int i)) (\<lambda>v. Inr (allocated + v))"
  have "\<exists>a. for_rangeE 0 T ?f 0 = Inr a \<and> a = int (card {p. p < T \<and> used ?B p})"
  proof (rule for_rangeE_inv [where I = "\<lambda>j a. a = int (card {p. p < j \<and> used ?B p})"])
    fix j a assume j: "j < T" "a = int (card {p. p < j \<and> used ?B p})"
    have "bitmap_get (words_of (?B (Suc 0))) (int j) = Inr (of_bool (used ?B j))"
      using bitmap_get_eq [of j "words_of (?B (Suc 0))"] j(1) T by (simp add: used_def)
    moreover have "{p. p < Suc j \<and> used ?B p} = (if used ?B j then insert j {p. p < j \<and> used ?B p} else {p. p < j \<and> used ?B p})"
      by (auto simp: less_Suc_eq)
    ultimately show "\<exists>s'. ?f j a = Inr s' \<and> s' = int (card {p. p < Suc j \<and> used ?B p})" using j(2) by simp
  qed simp_all
  then have sum: "for_rangeE 0 T ?f 0 = Inr (int (card {p. p < T \<and> used ?B p}))" by blast
  let ?u = "card {p. p < T \<and> used ?B p}" and ?f = "card {p. p < T \<and> \<not> used ?B p}"
  have "{p. p < T \<and> used ?B p} \<union> {p. p < T \<and> \<not> used ?B p} = {..<T}" by auto
  moreover have "card ({p. p < T \<and> used ?B p} \<union> {p. p < T \<and> \<not> used ?B p}) = ?u + ?f"
    by (rule card_Un_disjoint) auto
  ultimately have c: "?u + ?f = T" by simp
  then have "(of_nat T - of_nat ?u) * 512 = (of_nat (512 * ?f) :: uint32)" by (metis (no_types, lifting) add_diff_cancel_left' mult.commute of_nat_add of_nat_mult of_nat_numeral)
  then have r: "sint ((of_nat T - of_nat ?u) * 512 :: uint32) = 512 * int ?f"
    using c T(1) by (simp only:) (subst sint_of_nat_small, auto)
  show ?thesis
    unfolding tfs_getfree_def tfs_lock_def
    using assms(1,2) mountedD(5,10) [OF assms(1)] T sum r
    by (auto intro!: returns_read_bat [where T = T] simp: system_blocks)
qed

lemma filecount_ok:
  assumes "mounted T t" "lock t = 1" "volume_ok T (blk (disk t))"
  shows "returns (\<lambda>(r, t'). r = int (card (dom (files (blk (disk t))))) \<and>
    mounted T t' \<and> lock t' = 1 \<and> blk (disk t') = blk (disk t)) (tfs_filecount g t)"
proof -
  let ?B = "blk (disk t)"
  let ?E = "{i. i < 25 \<and> md_inode (?B 2) i \<noteq> 0}"
  have "for_range 0 25 (\<lambda>i n. if md_inode (?B 2) i \<noteq> 0 then n + 1 else n) 0 = int (card {i. i < 25 \<and> md_inode (?B 2) i \<noteq> 0})"
  proof (rule for_range_inv [where I = "\<lambda>j n. n = int (card {i. i < j \<and> md_inode (?B 2) i \<noteq> 0})"])
    fix j n assume "n = int (card {i. i < j \<and> md_inode (?B 2) i \<noteq> 0})"
    moreover have "{i. i < Suc j \<and> md_inode (?B 2) i \<noteq> 0} =
        (if md_inode (?B 2) j \<noteq> 0 then insert j {i. i < j \<and> md_inode (?B 2) i \<noteq> 0} else {i. i < j \<and> md_inode (?B 2) i \<noteq> 0})"
      by (auto simp: less_Suc_eq)
    ultimately show "(if md_inode (?B 2) j \<noteq> 0 then n + 1 else n) = int (card {i. i < Suc j \<and> md_inode (?B 2) i \<noteq> 0})"
      by simp
  qed simp_all
  moreover have "dom (files ?B) = md_name (?B 2) ` ?E"
    using files_Some [OF assms(3)] by (auto simp: dom_def entry_used_def)
  moreover have "inj_on (md_name (?B 2)) ?E"
    using dir_okD(5) [OF volume_okD(3) [OF assms(3)]] by (auto simp: inj_on_def)
  ultimately have c: "for_range 0 25 (\<lambda>i n. if md_inode (?B 2) i \<noteq> 0 then n + 1 else n) 0 = int (card (dom (files ?B)))"
    by (simp add: card_image)
  show ?thesis
    unfolding tfs_filecount_def tfs_lock_def
    using assms(1,2) volume_okD(1) [OF assms(3)] c
    by (auto intro!: returns_read_md [where T = T] simp: system_blocks)
qed

end

end
