(* ===== verification/Vfs.thy ===== *)
theory Vfs
  imports Volume
begin

text \<open>
  The virtual file system of \<^verbatim>\<open>fs/vfs.c\<close>: the table of mounted file systems, the table of open
  files, and the bookkeeping of active operations for the shutdown.

  A mounted file system is known by its \<^verbatim>\<open>fs_t\<close> pointer, here a number; the function pointers
  in it are the record \<open>fs_ops\<close>, and \<open>'w\<close> is the state behind them.  The four semaphores of the
  file are given by their values; as in the file system, a \<^verbatim>\<open>semaphore_P\<close> that nobody could
  release never ends.
\<close>

definition CONFIG_MAX_FILESYSTEMS :: nat where "CONFIG_MAX_FILESYSTEMS = 8"
definition CONFIG_MAX_OPEN_FILES :: nat where "CONFIG_MAX_OPEN_FILES = 512"

type_synonym fs = nat

record 'w fs_ops =
  fs_volume_name :: "fs \<Rightarrow> 'w \<Rightarrow> string"
  fs_unmount :: "fs \<Rightarrow> 'w \<Rightarrow> (int \<times> 'w) kres"
  fs_open :: "fs \<Rightarrow> string \<Rightarrow> 'w \<Rightarrow> (int \<times> 'w) kres"
  fs_close :: "fs \<Rightarrow> int \<Rightarrow> 'w \<Rightarrow> (int \<times> 'w) kres"
  fs_read :: "fs \<Rightarrow> int \<Rightarrow> char list \<Rightarrow> int \<Rightarrow> int \<Rightarrow> 'w \<Rightarrow> (int \<times> char list \<times> 'w) kres"
  fs_write :: "fs \<Rightarrow> int \<Rightarrow> char list \<Rightarrow> int \<Rightarrow> int \<Rightarrow> 'w \<Rightarrow> (int \<times> 'w) kres"
  fs_create :: "fs \<Rightarrow> string \<Rightarrow> int \<Rightarrow> 'w \<Rightarrow> (int \<times> 'w) kres"
  fs_remove :: "fs \<Rightarrow> string \<Rightarrow> 'w \<Rightarrow> (int \<times> 'w) kres"
  fs_getfree :: "fs \<Rightarrow> 'w \<Rightarrow> (int \<times> 'w) kres"
  fs_filecount :: "fs \<Rightarrow> 'w \<Rightarrow> (int \<times> 'w) kres"
  fs_file :: "fs \<Rightarrow> int \<Rightarrow> char list \<Rightarrow> 'w \<Rightarrow> (int \<times> char list \<times> 'w) kres"

record vfs_entry_t =
  filesystem :: "fs option"
  mountpoint :: "char list"

record openfile_entry_t =
  of_filesystem :: "fs option"
  of_fileid :: int
  of_seek_position :: int

record 'w vfs =
  vfs_table_sem :: int
  filesystems :: "vfs_entry_t list"
  openfile_table_sem :: int
  openfiles :: "openfile_entry_t list"
  vfs_op_sem :: int
  vfs_unmount_sem :: int
  vfs_ops :: int
  vfs_usable :: int
  drivers :: 'w

subsection \<open>Semaphores\<close>

definition sem_P :: "int \<Rightarrow> int kres" where
  "sem_P v = (if v > 0 then Inr (v - 1) else Inl Deadlock)"

definition P_table :: "'w vfs \<Rightarrow> 'w vfs kres" where
  "P_table v = bindE (sem_P (vfs_table_sem v)) (\<lambda>x. Inr (v\<lparr>vfs_table_sem := x\<rparr>))"

definition V_table :: "'w vfs \<Rightarrow> 'w vfs" where
  "V_table v = v\<lparr>vfs_table_sem := vfs_table_sem v + 1\<rparr>"

definition P_files :: "'w vfs \<Rightarrow> 'w vfs kres" where
  "P_files v = bindE (sem_P (openfile_table_sem v)) (\<lambda>x. Inr (v\<lparr>openfile_table_sem := x\<rparr>))"

definition V_files :: "'w vfs \<Rightarrow> 'w vfs" where
  "V_files v = v\<lparr>openfile_table_sem := openfile_table_sem v + 1\<rparr>"

definition P_op :: "'w vfs \<Rightarrow> 'w vfs kres" where
  "P_op v = bindE (sem_P (vfs_op_sem v)) (\<lambda>x. Inr (v\<lparr>vfs_op_sem := x\<rparr>))"

definition V_op :: "'w vfs \<Rightarrow> 'w vfs" where
  "V_op v = v\<lparr>vfs_op_sem := vfs_op_sem v + 1\<rparr>"

subsection \<open>Initialisation\<close>

text \<open>\<open>v\<close> is the memory of the static variables before; the name fields are not cleared.\<close>

definition vfs_init :: "'w vfs \<Rightarrow> 'a sems_scheme \<Rightarrow> ('w vfs \<times> 'a sems_scheme) kres" where
  "vfs_init v s =
     bindE (semaphore_create 1 s) (\<lambda>(table_sem, s).
     bindE (semaphore_create 1 s) (\<lambda>(files_sem, s).
     KERNEL_ASSERT (table_sem \<noteq> None \<and> files_sem \<noteq> None)
    (let v = v\<lparr>vfs_table_sem := 1, openfile_table_sem := 1\<rparr> in
     bindE (for_rangeE 0 CONFIG_MAX_FILESYSTEMS (\<lambda>i l.
              bindE (rd l (int i)) (\<lambda>e. wr l (int i) (e\<lparr>filesystem := None\<rparr>))) (filesystems v)) (\<lambda>fsys.
     bindE (for_rangeE 0 CONFIG_MAX_OPEN_FILES (\<lambda>i l.
              bindE (rd l (int i)) (\<lambda>e. wr l (int i) (e\<lparr>of_filesystem := None\<rparr>))) (openfiles v)) (\<lambda>ofs.
     bindE (semaphore_create 1 s) (\<lambda>(op_sem, s).
     bindE (semaphore_create 0 s) (\<lambda>(unmount_sem, s).
     Inr (v\<lparr>filesystems := fsys, openfiles := ofs, vfs_op_sem := 1, vfs_unmount_sem := 0,
            vfs_ops := 0, vfs_usable := 1\<rparr>, s))))))))"

subsection \<open>Active operations\<close>

definition vfs_start_op :: "'w vfs \<Rightarrow> (int \<times> 'w vfs) kres" where
  "vfs_start_op v =
     bindE (P_op v) (\<lambda>v.
     let (ret, v) = (if vfs_usable v \<noteq> 0 then (VFS_OK, v\<lparr>vfs_ops := vfs_ops v + 1\<rparr>) else (VFS_UNUSABLE, v))
     in Inr (ret, V_op v))"

definition vfs_end_op :: "'w vfs \<Rightarrow> 'w vfs kres" where
  "vfs_end_op v =
     bindE (P_op v) (\<lambda>v.
     let v = v\<lparr>vfs_ops := vfs_ops v - 1\<rparr> in
     KERNEL_ASSERT (vfs_ops v \<ge> 0)
    (let v = (if vfs_usable v = 0 \<and> vfs_ops v = 0 then v\<lparr>vfs_unmount_sem := vfs_unmount_sem v + 1\<rparr> else v)
     in Inr (V_op v)))"

text \<open>
  The frame of every operation: \<^verbatim>\<open>if (vfs_start_op() != VFS_OK) return VFS_UNUSABLE;\<close> at its
  begin, \<^verbatim>\<open>vfs_end_op(); return r;\<close> at its end.
\<close>

definition vfs_op :: "'r \<Rightarrow> ('w vfs \<Rightarrow> ('r \<times> 'w vfs) kres) \<Rightarrow> 'w vfs \<Rightarrow> ('r \<times> 'w vfs) kres" where
  "vfs_op unusable body v =
     bindE (vfs_start_op v) (\<lambda>(ret, v). if ret \<noteq> VFS_OK then Inr (unusable, v) else body v)"

definition vfs_done :: "'r \<Rightarrow> 'w vfs \<Rightarrow> ('r \<times> 'w vfs) kres" where
  "vfs_done r v = bindE (vfs_end_op v) (\<lambda>v. Inr (r, v))"

text \<open>A call through a function pointer of the file system.\<close>

definition drv :: "('w \<Rightarrow> ('r \<times> 'w) kres) \<Rightarrow> 'w vfs \<Rightarrow> ('r \<times> 'w vfs) kres" where
  "drv f v = bindE (f (drivers v)) (\<lambda>(r, w). Inr (r, v\<lparr>drivers := w\<rparr>))"

subsection \<open>Path names\<close>

text \<open>
  The loop over the volume name returns the volume and the rest of the path; a path is the list of
  its characters before the null.
\<close>

function parse_volume :: "nat \<Rightarrow> string \<Rightarrow> string \<Rightarrow> (string \<times> string) option" where
  "parse_volume i pathname volumebuf =
     (if int i < VFS_NAME_LENGTH - 1 then
        (case pathname of
           [] \<Rightarrow> None
         | c # rest \<Rightarrow> if c = CHR '']'' then Some (volumebuf, rest) else parse_volume (Suc i) rest (volumebuf @ [c]))
      else None)"
  by pat_completeness auto
termination
  by (relation "measure (\<lambda>(i, pathname, volumebuf). length pathname)") auto

declare parse_volume.simps [simp del]

function parse_filename :: "nat \<Rightarrow> string \<Rightarrow> string \<Rightarrow> string option" where
  "parse_filename i pathname filenamebuf =
     (if int i < VFS_NAME_LENGTH then
        (case pathname of
           [] \<Rightarrow> if i = 0 then None else Some filenamebuf
         | c # rest \<Rightarrow> parse_filename (Suc i) rest (filenamebuf @ [c]))
      else None)"
  by pat_completeness auto
termination
  by (relation "measure (\<lambda>(i, pathname, filenamebuf). length pathname)") auto

declare parse_filename.simps [simp del]

text \<open>\<open>None\<close> is \<^verbatim>\<open>VFS_ERROR\<close>, \<open>Some\<close> the contents of the two buffers for \<^verbatim>\<open>VFS_OK\<close>.\<close>

definition vfs_parse_pathname :: "string \<Rightarrow> (string \<times> string) option" where
  "vfs_parse_pathname pathname =
     (case (if pathname \<noteq> [] \<and> hd pathname = CHR ''['' then parse_volume 0 (tl pathname) [] else Some ([], pathname)) of
        None \<Rightarrow> None
      | Some (volume, rest) \<Rightarrow> map_option (\<lambda>filename. (volume, filename)) (parse_filename 0 rest []))"

subsection \<open>Mounting\<close>

definition vfs_get_filesystem :: "string \<Rightarrow> 'w vfs \<Rightarrow> fs option kres" where
  "vfs_get_filesystem name v =
     bindE (find_from (\<lambda>e. stringcmp (cstring (mountpoint e)) name = 0) (filesystems v) 0 CONFIG_MAX_FILESYSTEMS) (\<lambda>row.
     if row < CONFIG_MAX_FILESYSTEMS then bindE (rd (filesystems v) (int row)) (\<lambda>e. Inr (filesystem e))
     else Inr None)"

definition vfs_mount :: "fs \<Rightarrow> string \<Rightarrow> 'w vfs \<Rightarrow> (int \<times> 'w vfs) kres" where
  "vfs_mount fs name v =
     KERNEL_ASSERT (name \<noteq> [])
    (vfs_op VFS_UNUSABLE (\<lambda>v.
     bindE (P_table v) (\<lambda>v.
     bindE (find_from (\<lambda>e. filesystem e = None) (filesystems v) 0 CONFIG_MAX_FILESYSTEMS) (\<lambda>row.
     if row \<ge> CONFIG_MAX_FILESYSTEMS then vfs_done VFS_LIMIT (V_table v)
     else
       bindE (find_from (\<lambda>e. stringcmp (cstring (mountpoint e)) name = 0) (filesystems v) 0 CONFIG_MAX_FILESYSTEMS) (\<lambda>i.
       if i < CONFIG_MAX_FILESYSTEMS then vfs_done VFS_ERROR (V_table v)
       else
         bindE (rd (filesystems v) (int row)) (\<lambda>e.
         bindE (stringcopy (mountpoint e) name VFS_NAME_LENGTH) (\<lambda>mp.
         bindE (wr (filesystems v) (int row) (e\<lparr>mountpoint := mp, filesystem := Some fs\<rparr>)) (\<lambda>l.
         vfs_done VFS_OK (V_table (v\<lparr>filesystems := l\<rparr>))))))))) v)"

definition vfs_unmount :: "'w fs_ops \<Rightarrow> string \<Rightarrow> 'w vfs \<Rightarrow> (int \<times> 'w vfs) kres" where
  "vfs_unmount ops name =
     vfs_op VFS_UNUSABLE (\<lambda>v.
     bindE (P_table v) (\<lambda>v.
     bindE (find_from (\<lambda>e. stringcmp (cstring (mountpoint e)) name = 0) (filesystems v) 0 CONFIG_MAX_FILESYSTEMS) (\<lambda>row.
     bindE (if row < CONFIG_MAX_FILESYSTEMS then bindE (rd (filesystems v) (int row)) (\<lambda>e. Inr (filesystem e))
            else Inr None) (\<lambda>fs.
     case fs of None \<Rightarrow> vfs_done VFS_NOT_FOUND (V_table v)
     | Some fs \<Rightarrow>
         bindE (P_files v) (\<lambda>v.
         bindE (find_from (\<lambda>e. of_filesystem e = Some fs) (openfiles v) 0 CONFIG_MAX_OPEN_FILES) (\<lambda>i.
         if i < CONFIG_MAX_OPEN_FILES then vfs_done VFS_IN_USE (V_table (V_files v))
         else
           bindE (drv (fs_unmount ops fs) v) (\<lambda>(_, v).
           bindE (rd (filesystems v) (int row)) (\<lambda>e.
           bindE (wr (filesystems v) (int row) (e\<lparr>filesystem := None\<rparr>)) (\<lambda>l.
           vfs_done VFS_OK (V_table (V_files (v\<lparr>filesystems := l\<rparr>)))))))))))) "

text \<open>\<open>filesystems_try_all\<close> walks the table of file system drivers of \<^verbatim>\<open>fs/filesystems.c\<close>.\<close>

fun filesystems_try_all ::
  "(string \<times> ('k \<Rightarrow> 'w \<Rightarrow> (fs option \<times> 'w) kres)) list \<Rightarrow> 'k \<Rightarrow> 'w \<Rightarrow> (fs option \<times> 'w) kres" where
  "filesystems_try_all [] dsk w = Inr (None, w)"
| "filesystems_try_all ((name, init) # rest) dsk w =
     bindE (init dsk w) (\<lambda>(fs, w). case fs of Some f \<Rightarrow> Inr (Some f, w) | None \<Rightarrow> filesystems_try_all rest dsk w)"

definition vfs_mount_fs ::
  "(string \<times> ('k \<Rightarrow> 'w \<Rightarrow> (fs option \<times> 'w) kres)) list \<Rightarrow> 'w fs_ops \<Rightarrow> 'k \<Rightarrow> string option \<Rightarrow> 'w vfs \<Rightarrow> (int \<times> 'w vfs) kres" where
  "vfs_mount_fs table ops dsk volumename v =
     bindE (drv (filesystems_try_all table dsk) v) (\<lambda>(fs, v).
     case fs of None \<Rightarrow> Inr (VFS_NO_SUCH_FS, v)
     | Some fs \<Rightarrow>
         let name = (case volumename of None \<Rightarrow> fs_volume_name ops fs (drivers v) | Some n \<Rightarrow> n)
         in if name = [] then bindE (drv (fs_unmount ops fs) v) (\<lambda>(_, v). Inr (VFS_INVALID_PARAMS, v))
            else bindE (vfs_mount fs name v) (\<lambda>(ret, v).
                 if ret = VFS_OK then Inr (ret, v)
                 else bindE (drv (fs_unmount ops fs) v) (\<lambda>(_, v). Inr (ret, v))))"

text \<open>
  The loop of \<^verbatim>\<open>vfs_mount_all\<close>; \<open>disks i\<close> is what \<^verbatim>\<open>device_get\<close> returns for the dsk with
  number \<open>i\<close>, and the inner option its generic device.
\<close>

function mount_all_from ::
  "(string \<times> ('k \<Rightarrow> 'w \<Rightarrow> (fs option \<times> 'w) kres)) list \<Rightarrow> 'w fs_ops \<Rightarrow> (nat \<Rightarrow> 'k option option) \<Rightarrow> nat \<Rightarrow> 'w vfs \<Rightarrow> 'w vfs kres" where
  "mount_all_from table ops disks i v =
     (if i < CONFIG_MAX_FILESYSTEMS then
        (case disks i of
           None \<Rightarrow> Inr v
         | Some None \<Rightarrow> mount_all_from table ops disks (Suc i) v
         | Some (Some gbd) \<Rightarrow> bindE (vfs_mount_fs table ops gbd None v) (\<lambda>(_, v). mount_all_from table ops disks (Suc i) v))
      else Inr v)"
  by pat_completeness auto
termination
  by (relation "measure (\<lambda>(table, ops, disks, i, v). CONFIG_MAX_FILESYSTEMS - i)") auto

declare mount_all_from.simps [simp del]

definition vfs_mount_all where
  "vfs_mount_all table ops disks v = mount_all_from table ops disks 0 v"

subsection \<open>Shutdown\<close>

text \<open>
  \<^verbatim>\<open>vfs_deinit\<close> up to the point where it may wait for the pending operations: the first component
  tells whether it has to wait.
\<close>

definition vfs_deinit_start :: "'w vfs \<Rightarrow> (bool \<times> 'w vfs) kres" where
  "vfs_deinit_start v =
     bindE (P_op v) (\<lambda>v.
     let v = v\<lparr>vfs_usable := 0\<rparr>
     in if vfs_ops v > 0 then Inr (True, V_op v) else Inr (False, v))"

text \<open>When the wait is over.\<close>

definition vfs_deinit_resume :: "'w vfs \<Rightarrow> 'w vfs kres" where
  "vfs_deinit_resume v =
     bindE (sem_P (vfs_unmount_sem v)) (\<lambda>x.
     bindE (P_op (v\<lparr>vfs_unmount_sem := x\<rparr>)) (\<lambda>v. KERNEL_ASSERT (vfs_ops v = 0) (Inr v)))"

definition vfs_deinit_unmount :: "'w fs_ops \<Rightarrow> 'w vfs \<Rightarrow> 'w vfs kres" where
  "vfs_deinit_unmount ops v =
     bindE (P_table v) (\<lambda>v.
     bindE (P_files v) (\<lambda>v.
     bindE (for_rangeE 0 CONFIG_MAX_FILESYSTEMS (\<lambda>row v.
              bindE (rd (filesystems v) (int row)) (\<lambda>e.
              case filesystem e of None \<Rightarrow> Inr v
              | Some fs \<Rightarrow>
                  bindE (drv (fs_unmount ops fs) v) (\<lambda>(_, v).
                  bindE (wr (filesystems v) (int row) (e\<lparr>filesystem := None\<rparr>)) (\<lambda>l. Inr (v\<lparr>filesystems := l\<rparr>))))) v) (\<lambda>v.
     Inr (V_op (V_table (V_files v))))))"

definition vfs_deinit :: "'w fs_ops \<Rightarrow> 'w vfs \<Rightarrow> 'w vfs kres" where
  "vfs_deinit ops v =
     bindE (vfs_deinit_start v) (\<lambda>(wait, v).
     bindE (if wait then vfs_deinit_resume v else Inr v) (vfs_deinit_unmount ops))"

subsection \<open>Files\<close>

definition set_openfile :: "nat \<Rightarrow> (openfile_entry_t \<Rightarrow> openfile_entry_t) \<Rightarrow> 'w vfs \<Rightarrow> 'w vfs kres" where
  "set_openfile file f v =
     bindE (rd (openfiles v) (int file)) (\<lambda>e.
     bindE (wr (openfiles v) (int file) (f e)) (\<lambda>l. Inr (v\<lparr>openfiles := l\<rparr>)))"

definition vfs_open :: "'w fs_ops \<Rightarrow> string \<Rightarrow> 'w vfs \<Rightarrow> (int \<times> 'w vfs) kres" where
  "vfs_open ops pathname =
     vfs_op VFS_UNUSABLE (\<lambda>v.
     case vfs_parse_pathname pathname of None \<Rightarrow> vfs_done VFS_ERROR v
     | Some (volumename, filename) \<Rightarrow>
         bindE (P_table v) (\<lambda>v.
         bindE (P_files v) (\<lambda>v.
         bindE (find_from (\<lambda>e. of_filesystem e = None) (openfiles v) 0 CONFIG_MAX_OPEN_FILES) (\<lambda>file.
         if file \<ge> CONFIG_MAX_OPEN_FILES then vfs_done VFS_LIMIT (V_table (V_files v))
         else
           bindE (vfs_get_filesystem volumename v) (\<lambda>fs.
           case fs of None \<Rightarrow> vfs_done VFS_NO_SUCH_FS (V_table (V_files v))
           | Some fs \<Rightarrow>
               bindE (set_openfile file (\<lambda>e. e\<lparr>of_filesystem := Some fs\<rparr>) v) (\<lambda>v.
               bindE (drv (fs_open ops fs filename) (V_table (V_files v))) (\<lambda>(fileid, v).
               if fileid < 0 then
                 bindE (P_files v) (\<lambda>v.
                 bindE (set_openfile file (\<lambda>e. e\<lparr>of_filesystem := None\<rparr>) v) (\<lambda>v.
                 vfs_done fileid (V_files v)))
               else
                 bindE (set_openfile file (\<lambda>e. e\<lparr>of_fileid := fileid, of_seek_position := 0\<rparr>) v) (\<lambda>v.
                 vfs_done (int file) v))))))))"

definition vfs_verify_open :: "int \<Rightarrow> 'w vfs \<Rightarrow> (fs \<times> openfile_entry_t) kres" where
  "vfs_verify_open file v =
     KERNEL_ASSERT (file \<ge> 0 \<and> file < int CONFIG_MAX_OPEN_FILES)
    (bindE (rd (openfiles v) file) (\<lambda>e.
     case of_filesystem e of None \<Rightarrow> KERNEL_ASSERT False (Inr (0, e)) | Some fs \<Rightarrow> Inr (fs, e)))"

definition vfs_close :: "'w fs_ops \<Rightarrow> int \<Rightarrow> 'w vfs \<Rightarrow> (int \<times> 'w vfs) kres" where
  "vfs_close ops file =
     vfs_op VFS_UNUSABLE (\<lambda>v.
     bindE (P_files v) (\<lambda>v.
     bindE (vfs_verify_open file v) (\<lambda>(fs, e).
     bindE (drv (fs_close ops fs (of_fileid e)) v) (\<lambda>(ret, v).
     bindE (set_openfile (nat file) (\<lambda>e. e\<lparr>of_filesystem := None\<rparr>) v) (\<lambda>v.
     vfs_done ret (V_files v))))))"

definition vfs_seek :: "int \<Rightarrow> int \<Rightarrow> 'w vfs \<Rightarrow> (int \<times> 'w vfs) kres" where
  "vfs_seek file seek_position =
     vfs_op VFS_UNUSABLE (\<lambda>v.
     KERNEL_ASSERT (seek_position \<ge> 0)
    (bindE (P_files v) (\<lambda>v.
     bindE (vfs_verify_open file v) (\<lambda>_.
     bindE (set_openfile (nat file) (\<lambda>e. e\<lparr>of_seek_position := seek_position\<rparr>) v) (\<lambda>v.
     vfs_done VFS_OK (V_files v))))))"

text \<open>The end of \<^verbatim>\<open>vfs_read\<close> and \<^verbatim>\<open>vfs_write\<close>: the position moves by what was transferred.\<close>

definition advance :: "int \<Rightarrow> int \<Rightarrow> 'w vfs \<Rightarrow> 'w vfs kres" where
  "advance file ret v =
     (if ret > 0 then
        bindE (P_files v) (\<lambda>v.
        bindE (set_openfile (nat file) (\<lambda>e. e\<lparr>of_seek_position := wrap32 (of_seek_position e + ret)\<rparr>) v) (\<lambda>v. Inr (V_files v)))
      else Inr v)"

definition vfs_read :: "'w fs_ops \<Rightarrow> int \<Rightarrow> char list \<Rightarrow> int \<Rightarrow> 'w vfs \<Rightarrow> ((int \<times> char list) \<times> 'w vfs) kres" where
  "vfs_read ops file buffer bufsize =
     vfs_op (VFS_UNUSABLE, buffer) (\<lambda>v.
     bindE (vfs_verify_open file v) (\<lambda>(fs, e).
     KERNEL_ASSERT (bufsize \<ge> 0)
    (bindE (drv (\<lambda>w. bindE (fs_read ops fs (of_fileid e) buffer bufsize (of_seek_position e) w)
                      (\<lambda>(ret, buf, w). Inr ((ret, buf), w))) v) (\<lambda>((ret, buf), v).
     bindE (advance file ret v) (\<lambda>v.
     vfs_done (ret, buf) v)))))"

definition vfs_write :: "'w fs_ops \<Rightarrow> int \<Rightarrow> char list \<Rightarrow> int \<Rightarrow> 'w vfs \<Rightarrow> (int \<times> 'w vfs) kres" where
  "vfs_write ops file buffer datasize =
     vfs_op VFS_UNUSABLE (\<lambda>v.
     bindE (vfs_verify_open file v) (\<lambda>(fs, e).
     KERNEL_ASSERT (datasize \<ge> 0)
    (bindE (drv (fs_write ops fs (of_fileid e) buffer datasize (of_seek_position e)) v) (\<lambda>(ret, v).
     bindE (advance file ret v) (\<lambda>v.
     vfs_done ret v)))))"

text \<open>The operations on names: the driver is called with the mount table locked.\<close>

definition on_volume :: "string \<Rightarrow> (fs \<Rightarrow> 'w \<Rightarrow> (int \<times> 'w) kres) \<Rightarrow> 'w vfs \<Rightarrow> (int \<times> 'w vfs) kres" where
  "on_volume volumename f v =
     bindE (P_table v) (\<lambda>v.
     bindE (vfs_get_filesystem volumename v) (\<lambda>fs.
     case fs of None \<Rightarrow> vfs_done VFS_NO_SUCH_FS (V_table v)
     | Some fs \<Rightarrow> bindE (drv (f fs) v) (\<lambda>(ret, v). vfs_done ret (V_table v))))"

definition vfs_create :: "'w fs_ops \<Rightarrow> string \<Rightarrow> int \<Rightarrow> 'w vfs \<Rightarrow> (int \<times> 'w vfs) kres" where
  "vfs_create ops pathname sz v =
     KERNEL_ASSERT (sz \<ge> 0)
    (vfs_op VFS_UNUSABLE (\<lambda>v.
     case vfs_parse_pathname pathname of None \<Rightarrow> vfs_done VFS_ERROR v
     | Some (volumename, filename) \<Rightarrow> on_volume volumename (\<lambda>fs. fs_create ops fs filename sz) v) v)"

definition vfs_remove :: "'w fs_ops \<Rightarrow> string \<Rightarrow> 'w vfs \<Rightarrow> (int \<times> 'w vfs) kres" where
  "vfs_remove ops pathname =
     vfs_op VFS_UNUSABLE (\<lambda>v.
     case vfs_parse_pathname pathname of None \<Rightarrow> vfs_done VFS_ERROR v
     | Some (volumename, filename) \<Rightarrow> on_volume volumename (\<lambda>fs. fs_remove ops fs filename) v)"

definition vfs_getfree :: "'w fs_ops \<Rightarrow> string \<Rightarrow> 'w vfs \<Rightarrow> (int \<times> 'w vfs) kres" where
  "vfs_getfree ops name = vfs_op VFS_UNUSABLE (on_volume name (fs_getfree ops))"

definition vfs_filecount :: "'w fs_ops \<Rightarrow> string option \<Rightarrow> 'w vfs \<Rightarrow> (int \<times> 'w vfs) kres" where
  "vfs_filecount ops name =
     vfs_op VFS_UNUSABLE (\<lambda>v.
     bindE (P_table v) (\<lambda>v.
     bindE (P_files v) (\<lambda>v.
     case name of
       None \<Rightarrow>
         bindE (for_rangeE 0 CONFIG_MAX_FILESYSTEMS (\<lambda>i n.
                  bindE (rd (filesystems v) (int i)) (\<lambda>e. Inr (if filesystem e \<noteq> None then n + 1 else n))) 0) (\<lambda>n.
         vfs_done n (V_table (V_files v)))
     | Some name \<Rightarrow>
         bindE (vfs_get_filesystem name v) (\<lambda>fs.
         case fs of None \<Rightarrow> vfs_done VFS_NO_SUCH_FS (V_table (V_files v))
         | Some fs \<Rightarrow> bindE (drv (fs_filecount ops fs) (V_table (V_files v))) (\<lambda>(n, v). vfs_done n v)))))"

definition vfs_file :: "'w fs_ops \<Rightarrow> string option \<Rightarrow> int \<Rightarrow> char list \<Rightarrow> 'w vfs \<Rightarrow> ((int \<times> char list) \<times> 'w vfs) kres" where
  "vfs_file ops name index buffer =
     vfs_op (VFS_UNUSABLE, buffer) (\<lambda>v.
     bindE (P_table v) (\<lambda>v.
     bindE (P_files v) (\<lambda>v.
     case name of
       None \<Rightarrow>
         bindE (rd (filesystems v) index) (\<lambda>e.
         bindE (stringcopy buffer (cstring (mountpoint e)) VFS_NAME_LENGTH) (\<lambda>buffer.
         vfs_done (0, buffer) (V_table (V_files v))))
     | Some name \<Rightarrow>
         bindE (vfs_get_filesystem name v) (\<lambda>fs.
         case fs of None \<Rightarrow> vfs_done (VFS_NO_SUCH_FS, buffer) (V_table (V_files v))
         | Some fs \<Rightarrow>
             bindE (drv (\<lambda>w. bindE (fs_file ops fs index buffer w) (\<lambda>(err, buf, w). Inr ((err, buf), w))) (V_table (V_files v)))
               (\<lambda>(r, v). vfs_done r v)))))"

subsection \<open>Path names\<close>

lemma parse_volume_ok:
  "CHR '']'' \<notin> set vol \<Longrightarrow> i + length vol < 15 \<Longrightarrow> parse_volume i (vol @ CHR '']'' # rest) acc = Some (acc @ vol, rest)"
proof (induction vol arbitrary: i acc)
  case (Cons c vol)
  then show ?case using Cons.IH [of "Suc i" "acc @ [c]"] by (auto simp: parse_volume.simps [of i])
qed (simp add: parse_volume.simps)

lemma parse_volume_Some:
  "parse_volume i p acc = Some (vol, rest) \<Longrightarrow>
   \<exists>v. vol = acc @ v \<and> p = v @ CHR '']'' # rest \<and> CHR '']'' \<notin> set v \<and> i + length v < 15"
proof (induction i p acc rule: parse_volume.induct)
  case (1 i p acc)
  show ?case
  proof (cases "i < 15 \<and> p \<noteq> []")
    case True
    then obtain c p' where p: "p = c # p'" by (cases p) auto
    show ?thesis
    proof (cases "c = CHR '']''")
      case True
      with p \<open>i < 15 \<and> p \<noteq> []\<close> "1.prems" show ?thesis by (simp add: parse_volume.simps [of i])
    next
      case False
      then have "parse_volume (Suc i) p' (acc @ [c]) = Some (vol, rest)"
        using p \<open>i < 15 \<and> p \<noteq> []\<close> "1.prems" by (simp add: parse_volume.simps [of i])
      with "1.IH" [OF _ p False] \<open>i < 15 \<and> p \<noteq> []\<close> obtain v where
        "vol = (acc @ [c]) @ v \<and> p' = v @ CHR '']'' # rest \<and> CHR '']'' \<notin> set v \<and> Suc i + length v < 15" by auto
      with p False show ?thesis by (intro exI [of _ "c # v"]) simp
    qed
  next
    case False
    with "1.prems" show ?thesis by (auto simp: parse_volume.simps [of i] split: list.splits if_splits)
  qed
qed

lemma parse_filename_eq:
  "parse_filename i p acc = (if i + length p < 16 \<and> i + length p > 0 then Some (acc @ p) else None)"
proof (induction i p acc rule: parse_filename.induct)
  case (1 i p acc)
  show ?case
  proof (cases "i < 16")
    case True
    then show ?thesis using "1.IH" by (cases p) (simp_all add: parse_filename.simps [of i])
  qed (simp add: parse_filename.simps [of i])
qed

lemma parse_pathname_iff:
  "vfs_parse_pathname pathname = Some (volume, filename) \<longleftrightarrow>
     filename \<noteq> [] \<and> length filename \<le> 15 \<and>
     (if pathname \<noteq> [] \<and> hd pathname = CHR ''[''
      then length volume \<le> 14 \<and> CHR '']'' \<notin> set volume \<and> pathname = CHR ''['' # volume @ CHR '']'' # filename
      else volume = [] \<and> pathname = filename)"
proof (cases "pathname \<noteq> [] \<and> hd pathname = CHR ''[''")
  case True
  then obtain p where p: "pathname = CHR ''['' # p" by (cases pathname) auto
  show ?thesis
  proof
    assume "vfs_parse_pathname pathname = Some (volume, filename)"
    then have "parse_volume 0 p [] = Some (volume, filename)" "0 < length filename" "length filename < 16"
      by (auto simp: vfs_parse_pathname_def p parse_filename_eq split: option.splits if_splits)
    with parse_volume_Some [of 0 p "[]" volume filename] show "filename \<noteq> [] \<and> length filename \<le> 15 \<and>
     (if pathname \<noteq> [] \<and> hd pathname = CHR ''[''
      then length volume \<le> 14 \<and> CHR '']'' \<notin> set volume \<and> pathname = CHR ''['' # volume @ CHR '']'' # filename
      else volume = [] \<and> pathname = filename)" by (auto simp: p)
  next
    assume "filename \<noteq> [] \<and> length filename \<le> 15 \<and>
     (if pathname \<noteq> [] \<and> hd pathname = CHR ''[''
      then length volume \<le> 14 \<and> CHR '']'' \<notin> set volume \<and> pathname = CHR ''['' # volume @ CHR '']'' # filename
      else volume = [] \<and> pathname = filename)"
    with True show "vfs_parse_pathname pathname = Some (volume, filename)"
      using parse_volume_ok [of volume 0 filename "[]"] by (simp add: vfs_parse_pathname_def parse_filename_eq)
  qed
qed (auto simp: vfs_parse_pathname_def parse_filename_eq)

lemma parse_names:
  assumes "vfs_parse_pathname p = Some (vol, name)" "c_string p"
  shows "file_name name" "c_string vol" "length vol \<le> 14"
  using assms by (auto simp: parse_pathname_iff file_name_def c_string_def split: if_splits)

text \<open>
  C18: a path name is accepted exactly when it is a file name of 1 to 15 characters, alone or after a
  volume name of at most 14 characters in brackets; the two buffers then hold these names, each
  with its null within the 16 bytes.
\<close>

theorem vfs_parse_pathname_accepts:
  "vfs_parse_pathname pathname = Some (volume, filename) \<longleftrightarrow>
     filename \<noteq> [] \<and> length filename \<le> 15 \<and>
     (if pathname \<noteq> [] \<and> hd pathname = CHR ''[''
      then length volume \<le> 14 \<and> CHR '']'' \<notin> set volume \<and> pathname = CHR ''['' # volume @ CHR '']'' # filename
      else volume = [] \<and> pathname = filename)"
  by (rule parse_pathname_iff)

end
