(* ===== verification/Vfs_Spec.thy ===== *)
theory Vfs_Spec
  imports Vfs
begin

text \<open>
  What the virtual file system guarantees whatever the file system drivers do: the invariant of the
  two tables, the release of the locks on every path, and the protocol of the shutdown.
\<close>

subsection \<open>The invariant of the tables\<close>

definition mounted_names :: "vfs_entry_t list \<Rightarrow> bool" where
  "mounted_names l \<longleftrightarrow> (\<forall>e \<in> set l. length (mountpoint e) = 16 \<and> NUL \<in> set (mountpoint e) \<and>
       (filesystem e \<noteq> None \<longrightarrow> cstring (mountpoint e) \<noteq> [])) \<and>
     (\<forall>i < length l. \<forall>j < length l. i \<noteq> j \<and> filesystem (l ! i) \<noteq> None \<longrightarrow>
       cstring (mountpoint (l ! i)) \<noteq> cstring (mountpoint (l ! j)))"

definition files_mounted :: "vfs_entry_t list \<Rightarrow> openfile_entry_t list \<Rightarrow> bool" where
  "files_mounted l fl \<longleftrightarrow> (\<forall>f \<in> set fl. of_filesystem f \<noteq> None \<longrightarrow> (\<exists>e \<in> set l. filesystem e = of_filesystem f))"

definition tables_ok :: "'w vfs \<Rightarrow> bool" where
  "tables_ok v \<longleftrightarrow> length (filesystems v) = CONFIG_MAX_FILESYSTEMS \<and> length (openfiles v) = CONFIG_MAX_OPEN_FILES \<and>
     mounted_names (filesystems v) \<and> (vfs_usable v \<noteq> 0 \<longrightarrow> files_mounted (filesystems v) (openfiles v))"

definition vfs_quiet :: "'w vfs \<Rightarrow> bool" where
  "vfs_quiet v \<longleftrightarrow> vfs_table_sem v = 1 \<and> openfile_table_sem v = 1 \<and> vfs_op_sem v = 1 \<and> vfs_ops v \<ge> 0"

text \<open>\<open>kept v v'\<close>: the tables are in order and the bookkeeping is as it was.\<close>

definition kept :: "'w vfs \<Rightarrow> 'w vfs \<Rightarrow> bool" where
  "kept v v' \<longleftrightarrow> tables_ok v' \<and> vfs_table_sem v' = vfs_table_sem v \<and> openfile_table_sem v' = openfile_table_sem v \<and>
     vfs_op_sem v' = vfs_op_sem v \<and> vfs_ops v' = vfs_ops v \<and> vfs_usable v' = vfs_usable v \<and> vfs_unmount_sem v' = vfs_unmount_sem v"

text \<open>
  The state of a running operation: \<open>a\<close> and \<open>b\<close> tell which of the two tables it has locked, and
  \<open>n\<close> is the number of operations including it.
\<close>

definition during :: "'w vfs \<Rightarrow> bool \<Rightarrow> bool \<Rightarrow> 'w vfs \<Rightarrow> bool" where
  "during u a b v \<longleftrightarrow> tables_ok v \<and> vfs_table_sem v = (if a then 0 else 1) \<and> openfile_table_sem v = (if b then 0 else 1) \<and>
     vfs_op_sem v = 1 \<and> vfs_ops v = vfs_ops u + 1 \<and> vfs_quiet u \<and> vfs_usable v = vfs_usable u \<and> vfs_usable u \<noteq> 0 \<and>
     vfs_unmount_sem v = vfs_unmount_sem u"

lemma after_op:
  assumes "vfs_quiet v" "tables_ok v" "kept v v \<Longrightarrow> Q (r, v)" "during v False False (v\<lparr>vfs_ops := vfs_ops v + 1\<rparr>) \<Longrightarrow> after Q (body (v\<lparr>vfs_ops := vfs_ops v + 1\<rparr>))"
  shows "after Q (vfs_op r body v)"
proof -
  have s: "vfs_start_op v = Inr (if vfs_usable v \<noteq> 0 then (VFS_OK, v\<lparr>vfs_ops := vfs_ops v + 1\<rparr>) else (VFS_UNUSABLE, v))"
    using assms(1) by (cases v) (simp add: vfs_start_op_def P_op_def V_op_def sem_P_def vfs_quiet_def)
  show ?thesis
    using assms by (auto simp: vfs_op_def s kept_def during_def vfs_quiet_def tables_ok_def VFS_OK_def VFS_UNUSABLE_def)
qed

lemma after_done:
  "during u False False v \<Longrightarrow> (\<And>v'. kept u v' \<Longrightarrow> Q (r, v')) \<Longrightarrow> after Q (vfs_done r v)"
  by (simp add: vfs_done_def vfs_end_op_def P_op_def V_op_def sem_P_def during_def kept_def tables_ok_def vfs_quiet_def)

lemma after_P_table: "during u a b v \<Longrightarrow> (\<And>v'. filesystems v' = filesystems v \<Longrightarrow> openfiles v' = openfiles v \<Longrightarrow> drivers v' = drivers v \<Longrightarrow> during u True b v' \<Longrightarrow> after Q (k v')) \<Longrightarrow>
    after Q (bindE (P_table v) k)"
  by (auto simp: P_table_def sem_P_def during_def tables_ok_def)

lemma after_P_files: "during u a b v \<Longrightarrow> (\<And>v'. filesystems v' = filesystems v \<Longrightarrow> openfiles v' = openfiles v \<Longrightarrow> drivers v' = drivers v \<Longrightarrow> during u a True v' \<Longrightarrow> after Q (k v')) \<Longrightarrow>
    after Q (bindE (P_files v) k)"
  by (auto simp: P_files_def sem_P_def during_def tables_ok_def)

lemma V_tables [simp]:
  "filesystems (V_table v) = filesystems v" "openfiles (V_table v) = openfiles v" "drivers (V_table v) = drivers v"
  "filesystems (V_files v) = filesystems v" "openfiles (V_files v) = openfiles v" "drivers (V_files v) = drivers v"
  by (simp_all add: V_table_def V_files_def)

lemma during_V_table: "during u True b v \<Longrightarrow> during u False b (V_table v)"
  by (simp add: V_table_def during_def tables_ok_def)

lemma during_V_files: "during u a True v \<Longrightarrow> during u a False (V_files v)"
  by (simp add: V_files_def during_def tables_ok_def)

lemma during_drivers: "during u a b v \<Longrightarrow> during u a b (v\<lparr>drivers := w\<rparr>)"
  by (simp add: during_def tables_ok_def)

lemma after_drv: "(\<And>r w. after Q (k (r, v\<lparr>drivers := w\<rparr>))) \<Longrightarrow> after Q (bindE (drv f v) k)"
  by (cases "f (drivers v)") (auto simp: drv_def)

lemma during_tables:
  "during u a b v \<Longrightarrow> tables_ok v"
  by (simp add: during_def)

lemma tables_length:
  "tables_ok v \<Longrightarrow> length (filesystems v) = CONFIG_MAX_FILESYSTEMS"
  "tables_ok v \<Longrightarrow> length (openfiles v) = CONFIG_MAX_OPEN_FILES"
  by (simp_all add: tables_ok_def)

lemma after_find_fs:
  "during u a b v \<Longrightarrow> (\<And>i. i < CONFIG_MAX_FILESYSTEMS \<Longrightarrow> P (filesystems v ! i) \<Longrightarrow> after Q (k i)) \<Longrightarrow>
    ((\<And>j. j < CONFIG_MAX_FILESYSTEMS \<Longrightarrow> \<not> P (filesystems v ! j)) \<Longrightarrow> after Q (k CONFIG_MAX_FILESYSTEMS)) \<Longrightarrow>
    after Q (bindE (find_from P (filesystems v) 0 CONFIG_MAX_FILESYSTEMS) k)"
  using first_from_holds [of "\<lambda>i. P (filesystems v ! i)" 0 CONFIG_MAX_FILESYSTEMS]
    first_from_eq_n_iff [of 0 CONFIG_MAX_FILESYSTEMS "\<lambda>i. P (filesystems v ! i)"]
    first_from_le [of 0 CONFIG_MAX_FILESYSTEMS "\<lambda>i. P (filesystems v ! i)"]
  by (simp add: find_from_eq tables_length during_tables) (metis le_neq_implies_less)

lemma after_find_file:
  "during u a b v \<Longrightarrow> (\<And>i. i < CONFIG_MAX_OPEN_FILES \<Longrightarrow> P (openfiles v ! i) \<Longrightarrow> after Q (k i)) \<Longrightarrow>
    ((\<And>j. j < CONFIG_MAX_OPEN_FILES \<Longrightarrow> \<not> P (openfiles v ! j)) \<Longrightarrow> after Q (k CONFIG_MAX_OPEN_FILES)) \<Longrightarrow>
    after Q (bindE (find_from P (openfiles v) 0 CONFIG_MAX_OPEN_FILES) k)"
  using first_from_holds [of "\<lambda>i. P (openfiles v ! i)" 0 CONFIG_MAX_OPEN_FILES]
    first_from_eq_n_iff [of 0 CONFIG_MAX_OPEN_FILES "\<lambda>i. P (openfiles v ! i)"]
    first_from_le [of 0 CONFIG_MAX_OPEN_FILES "\<lambda>i. P (openfiles v ! i)"]
  by (simp add: find_from_eq tables_length during_tables) (metis le_neq_implies_less)

lemma after_get_filesystem:
  assumes "during u a b v" "after Q (k None)" "\<And>fs e. e \<in> set (filesystems v) \<Longrightarrow> filesystem e = Some fs \<Longrightarrow> after Q (k (Some fs))"
  shows "after Q (bindE (vfs_get_filesystem name v) k)"
proof -
  have l: "length (filesystems v) = CONFIG_MAX_FILESYSTEMS" using assms(1) by (simp add: during_def tables_ok_def)
  have "after Q (k (filesystem (filesystems v ! i)))" if "i < CONFIG_MAX_FILESYSTEMS" for i
    using assms(2) assms(3) [of "filesystems v ! i"] that l by (cases "filesystem (filesystems v ! i)") auto
  then show ?thesis
    using assms(2) l by (auto simp: vfs_get_filesystem_def find_from_eq)
qed

subsection \<open>Changes of the tables\<close>

lemma nth_in_update: "i < length l \<Longrightarrow> i \<noteq> row \<Longrightarrow> l ! i \<in> set (l[row := e])"
  by (metis length_list_update nth_list_update_neq nth_mem)

lemma mounted_names_mount:
  assumes "mounted_names l" "row < length l" "length mp = 16" "NUL \<in> set mp" "cstring mp \<noteq> []"
    "\<And>j. j < length l \<Longrightarrow> cstring (mountpoint (l ! j)) \<noteq> cstring mp"
  shows "mounted_names (l[row := (l ! row)\<lparr>mountpoint := mp, filesystem := Some fs\<rparr>])"
  using assms(1-5) assms(6) [THEN not_sym] assms(6)
  by (auto simp: mounted_names_def nth_list_update dest!: subsetD [OF set_update_subset_insert])

lemma mounted_names_unmount:
  assumes "mounted_names l" "row < length l"
  shows "mounted_names (l[row := (l ! row)\<lparr>filesystem := None\<rparr>])"
  using assms by (auto simp: mounted_names_def nth_list_update dest!: subsetD [OF set_update_subset_insert])

lemma files_mounted_mount:
  assumes "files_mounted l fl" "row < length l" "filesystem (l ! row) = None" "filesystem e \<noteq> None"
  shows "files_mounted (l[row := e]) fl"
  unfolding files_mounted_def
proof (intro ballI impI)
  fix f
  assume "f \<in> set fl" "of_filesystem f \<noteq> None"
  then obtain i where i: "i < length l" "filesystem (l ! i) = of_filesystem f"
    using assms(1) unfolding files_mounted_def by (metis in_set_conv_nth)
  with assms(3) \<open>of_filesystem f \<noteq> None\<close> have "i \<noteq> row" by auto
  with i show "\<exists>e' \<in> set (l[row := e]). filesystem e' = of_filesystem f" by (metis nth_in_update)
qed

lemma files_mounted_unmount:
  assumes "files_mounted l fl" "row < length l" "filesystem (l ! row) = Some fs" "\<And>j. j < length fl \<Longrightarrow> of_filesystem (fl ! j) \<noteq> Some fs"
  shows "files_mounted (l[row := e]) fl"
  unfolding files_mounted_def
proof (intro ballI impI)
  fix f
  assume f: "f \<in> set fl" "of_filesystem f \<noteq> None"
  then obtain i where i: "i < length l" "filesystem (l ! i) = of_filesystem f"
    using assms(1) unfolding files_mounted_def by (metis in_set_conv_nth)
  with assms(3,4) f have "i \<noteq> row" by (metis in_set_conv_nth)
  with i show "\<exists>e' \<in> set (l[row := e]). filesystem e' = of_filesystem f" by (metis nth_in_update)
qed

lemma files_mounted_file:
  assumes "files_mounted l fl" "of_filesystem e = None \<or> (\<exists>x \<in> set l. filesystem x = of_filesystem e)"
  shows "files_mounted l (fl[i := e])"
  using assms by (auto simp: files_mounted_def dest!: subsetD [OF set_update_subset_insert])

lemma during_filesystems:
  "during u a b v \<Longrightarrow> length l = CONFIG_MAX_FILESYSTEMS \<Longrightarrow> mounted_names l \<Longrightarrow> files_mounted l (openfiles v) \<Longrightarrow>
   during u a b (v\<lparr>filesystems := l\<rparr>)"
  by (simp add: during_def tables_ok_def)

lemma during_names: "during u a b v \<Longrightarrow> mounted_names (filesystems v)"
  and during_files: "during u a b v \<Longrightarrow> files_mounted (filesystems v) (openfiles v)"
  by (simp_all add: during_def tables_ok_def)

lemma after_set_openfile:
  assumes "during u a b v" "\<And>e. of_filesystem (f e) = None \<or> of_filesystem (f e) = of_filesystem e \<or>
      (\<exists>x \<in> set (filesystems v). filesystem x = of_filesystem (f e))"
    "\<And>fl. during u a b (v\<lparr>openfiles := fl\<rparr>) \<Longrightarrow> after Q (k (v\<lparr>openfiles := fl\<rparr>))"
  shows "after Q (bindE (set_openfile file f v) k)"
proof -
  have "files_mounted (filesystems v) ((openfiles v)[file := f (openfiles v ! file)])" if "file < length (openfiles v)"
  proof (rule files_mounted_file [OF during_files [OF assms(1)]])
    have "of_filesystem (openfiles v ! file) = None \<or> (\<exists>x \<in> set (filesystems v). filesystem x = of_filesystem (openfiles v ! file))"
      using during_files [OF assms(1)] nth_mem [OF that] unfolding files_mounted_def by blast
    then show "of_filesystem (f (openfiles v ! file)) = None \<or>
        (\<exists>x \<in> set (filesystems v). filesystem x = of_filesystem (f (openfiles v ! file)))"
      using assms(2) [of "openfiles v ! file"] by auto
  qed
  then have "during u a b (v\<lparr>openfiles := (openfiles v)[file := f (openfiles v ! file)]\<rparr>)" if "file < length (openfiles v)"
    using assms(1) that by (simp add: during_def tables_ok_def)
  then show ?thesis using assms(3) by (simp add: set_openfile_def)
qed

lemma after_verify_open:
  "(\<And>fs e. file \<ge> 0 \<Longrightarrow> after Q (k (fs, e))) \<Longrightarrow> after Q (bindE (vfs_verify_open file v) k)"
  by (auto simp: vfs_verify_open_def split: option.splits)

subsection \<open>The operations keep the tables\<close>

definition keeps :: "'w vfs \<Rightarrow> ('r \<times> 'w vfs) kres \<Rightarrow> bool" where
  "keeps v m \<longleftrightarrow> after (\<lambda>(_, v'). kept v v') m"

lemma keeps_op:
  assumes "vfs_quiet v" "tables_ok v" "\<And>v'. during v False False v' \<Longrightarrow> drivers v' = drivers v \<Longrightarrow> keeps v (body v')"
  shows "keeps v (vfs_op r body v)"
  using assms by (auto simp: keeps_def intro!: after_op)

lemma keeps_done [intro!]: "during u False False v \<Longrightarrow> keeps u (vfs_done r v)"
  by (auto simp: keeps_def intro: after_done)

lemmas keeps_rules = after_P_table after_P_files after_find_fs after_find_file after_drv after_get_filesystem
  after_verify_open after_set_openfile

lemmas keepsI = keeps_rules [where Q = "\<lambda>(_, v'). kept u v'" for u, folded keeps_def]

lemma keeps_pure: "(\<And>x. keeps u (k x)) \<Longrightarrow> keeps u (bindE m k)"
  by (cases m) (auto simp: keeps_def)

lemmas during_intros = during_V_table during_V_files during_drivers

lemma on_volume_keeps: "during u False False v \<Longrightarrow> keeps u (on_volume name f v)"
  unfolding on_volume_def
  by (rule keepsI(1), assumption, rule keepsI(6)) (auto intro!: keepsI(5) during_intros)

lemma stringcopy_name:
  assumes "c_string name" "length name \<le> 15" "length mp = 16"
  shows "stringcopy mp name VFS_NAME_LENGTH = Inr (name @ NUL # drop (Suc (length name)) mp)"
  using stringcopy_from_eq [OF assms(1) refl, where i = 0 and target = mp and buflen = VFS_NAME_LENGTH] assms(2,3) by (simp add: stringcopy_def min_def)

lemma during_mount:
  assumes "during u a b v" "row < CONFIG_MAX_FILESYSTEMS" "filesystem (filesystems v ! row) = None"
    "\<And>j. j < CONFIG_MAX_FILESYSTEMS \<Longrightarrow> stringcmp (cstring (mountpoint (filesystems v ! j))) name \<noteq> 0"
    "c_string name" "name \<noteq> []" "length name \<le> 15" "length mp = 16"
  shows "during u a b (v\<lparr>filesystems := (filesystems v)[row := (filesystems v ! row)
           \<lparr>mountpoint := name @ NUL # drop (Suc (length name)) mp, filesystem := Some fs\<rparr>]\<rparr>)"
proof (rule during_filesystems [OF assms(1)])
  have l: "length (filesystems v) = CONFIG_MAX_FILESYSTEMS" using assms(1) by (simp add: during_def tables_ok_def)
  let ?mp = "name @ NUL # drop (Suc (length name)) mp"
  show "mounted_names ((filesystems v)[row := (filesystems v ! row)\<lparr>mountpoint := ?mp, filesystem := Some fs\<rparr>])"
  proof (rule mounted_names_mount [OF during_names [OF assms(1)]])
    show "cstring (mountpoint (filesystems v ! j)) \<noteq> cstring ?mp" if "j < length (filesystems v)" for j
      using assms(4,5) that l by (metis cstring_c_string cstring_terminated stringcmp_eq_0)
  qed (use assms l in \<open>simp_all add: cstring_terminated\<close>)
  show "files_mounted ((filesystems v)[row := (filesystems v ! row)\<lparr>mountpoint := ?mp, filesystem := Some fs\<rparr>]) (openfiles v)"
    by (rule files_mounted_mount [OF during_files [OF assms(1)]]) (use assms l in simp_all)
qed (use assms(1) in \<open>simp add: during_def tables_ok_def\<close>)

lemma vfs_mount_keeps:
  assumes "vfs_quiet v" "tables_ok v" "c_string name" "length name \<le> 15"
  shows "keeps v (vfs_mount fs name v)"
proof (cases "name = []")
  case False
  have mp: "stringcopy (mountpoint (filesystems x ! row)) name VFS_NAME_LENGTH =
      Inr (name @ NUL # drop (Suc (length name)) (mountpoint (filesystems x ! row)))"
    "length (mountpoint (filesystems x ! row)) = 16"
    if "during v True False x" "row < CONFIG_MAX_FILESYSTEMS" for x row
    using that assms(3,4) by (auto simp: during_def tables_ok_def mounted_names_def stringcopy_name)
  show ?thesis
    unfolding vfs_mount_def KERNEL_ASSERT_True [OF False]
    apply (rule keeps_op [OF assms(1,2)], rule keepsI(1), assumption, rule keepsI(3), assumption)
    subgoal premises prems for v1 v2 row
      using prems(6-) assms(3,4) False tables_length(1) [OF during_tables [OF prems(6)]]
      by (auto simp: mp intro!: keepsI(3) [OF prems(6)] during_intros during_mount [OF prems(6)])
    by (auto intro!: during_intros)
qed (simp add: vfs_mount_def keeps_def)

lemma during_unmount:
  assumes "during u a b x" "filesystems x = l" "row < CONFIG_MAX_FILESYSTEMS" "filesystem (l ! row) \<noteq> None"
    "\<forall>j < CONFIG_MAX_OPEN_FILES. of_filesystem (openfiles x ! j) \<noteq> filesystem (l ! row)"
  shows "during u a b (x\<lparr>drivers := w, filesystems := l[row := (l ! row)\<lparr>filesystem := None\<rparr>]\<rparr>)"
  using assms files_mounted_unmount [OF during_files [OF assms(1)], of row] mounted_names_unmount [OF during_names [OF assms(1)], of row]
  by (auto simp: during_def tables_ok_def)

lemma vfs_unmount_keeps:
  assumes "vfs_quiet v" "tables_ok v"
  shows "keeps v (vfs_unmount ops name v)"
  unfolding vfs_unmount_def
  apply (rule keeps_op [OF assms], rule keepsI(1), assumption, rule keepsI(3), assumption)
  subgoal premises prems for v1 v2 row
    using prems(6,7) tables_length(1) [OF during_tables [OF prems(6)]]
    by (auto intro!: keepsI(2,4,5) during_intros during_unmount split: option.splits)
  by (auto intro!: during_intros)

lemma open_failed_keeps:
  "during u False False v \<Longrightarrow>
   keeps u (bindE (P_files v) (\<lambda>v. bindE (set_openfile fd (\<lambda>e. e\<lparr>of_filesystem := None\<rparr>) v) (\<lambda>v. vfs_done r (V_files v))))"
  by (auto intro!: keepsI(2) keepsI(8) [where a = False and b = True] during_intros)

lemma open_done_keeps:
  "during u False False v \<Longrightarrow>
   keeps u (bindE (set_openfile fd (\<lambda>e. e\<lparr>of_fileid := i, of_seek_position := p\<rparr>) v) (\<lambda>v. vfs_done r v))"
  by (auto intro!: keepsI(8) [where a = False and b = False])

lemma vfs_open_keeps:
  assumes "vfs_quiet v" "tables_ok v"
  shows "keeps v (vfs_open ops pathname v)"
  unfolding vfs_open_def
  by (rule keeps_op [OF assms])
    (auto split: option.splits intro!: keepsI(1,2,4,5,6) keepsI(8) [where a = True and b = True] open_failed_keeps open_done_keeps during_intros)

lemma vfs_close_keeps:
  assumes "vfs_quiet v" "tables_ok v"
  shows "keeps v (vfs_close ops fd v)"
  unfolding vfs_close_def
  by (rule keeps_op [OF assms]) (auto intro!: keepsI during_intros)

lemma vfs_seek_keeps:
  assumes "vfs_quiet v" "tables_ok v"
  shows "keeps v (vfs_seek fd pos v)"
  unfolding vfs_seek_def
  by (rule keeps_op [OF assms]) (auto simp: KERNEL_ASSERT_def keeps_def [of _ "Inl _"] intro!: keepsI during_intros)

lemma advance_keeps: "during u False False v \<Longrightarrow> keeps u (bindE (advance fd n v) (\<lambda>v. vfs_done r v))"
  by (auto simp: advance_def bindE_assoc intro!: keepsI(2) keepsI(8) [where a = False and b = True] during_intros)

lemma vfs_read_keeps:
  assumes "vfs_quiet v" "tables_ok v"
  shows "keeps v (vfs_read ops fd buf n v)"
  unfolding vfs_read_def
  by (rule keeps_op [OF assms]) (auto simp: KERNEL_ASSERT_def keeps_def [of _ "Inl _"] intro!: keepsI(5,7) advance_keeps during_intros)

lemma vfs_write_keeps:
  assumes "vfs_quiet v" "tables_ok v"
  shows "keeps v (vfs_write ops fd buf n v)"
  unfolding vfs_write_def
  by (rule keeps_op [OF assms]) (auto simp: KERNEL_ASSERT_def keeps_def [of _ "Inl _"] intro!: keepsI(5,7) advance_keeps during_intros)

lemma vfs_create_keeps:
  assumes "vfs_quiet v" "tables_ok v"
  shows "keeps v (vfs_create ops pathname sz v)"
proof (cases "sz \<ge> 0")
  case True
  then show ?thesis
    unfolding vfs_create_def KERNEL_ASSERT_True [OF True]
    by (intro keeps_op [OF assms]) (auto split: option.splits intro!: on_volume_keeps)
qed (simp add: vfs_create_def keeps_def)

lemma vfs_remove_keeps:
  assumes "vfs_quiet v" "tables_ok v"
  shows "keeps v (vfs_remove ops pathname v)"
  unfolding vfs_remove_def by (rule keeps_op [OF assms]) (auto split: option.splits intro!: on_volume_keeps)

lemma vfs_getfree_keeps:
  assumes "vfs_quiet v" "tables_ok v"
  shows "keeps v (vfs_getfree ops name v)"
  unfolding vfs_getfree_def by (rule keeps_op [OF assms]) (auto intro!: on_volume_keeps)

lemma vfs_filecount_keeps:
  assumes "vfs_quiet v" "tables_ok v"
  shows "keeps v (vfs_filecount ops name v)"
  unfolding vfs_filecount_def
  by (rule keeps_op [OF assms])
    (auto split: option.splits intro!: keepsI(1,2,5,6) keeps_pure [where m = "for_rangeE i n f x" for i n f x] during_intros)

lemma vfs_file_keeps:
  assumes "vfs_quiet v" "tables_ok v"
  shows "keeps v (vfs_file ops name index buf v)"
  unfolding vfs_file_def
  by (rule keeps_op [OF assms])
    (auto split: option.splits intro!: keepsI(1,2,5,6) keeps_pure [where m = "rd l i" for l i]
       keeps_pure [where m = "stringcopy t src n" for t src n] during_intros)

subsection \<open>Mounting the disks\<close>

text \<open>The volume name of a file system fits the field \<^verbatim>\<open>volume_name\<close> of \<^verbatim>\<open>fs_t\<close>, with its null.\<close>

definition named_volumes :: "'w fs_ops \<Rightarrow> bool" where
  "named_volumes ops \<longleftrightarrow> (\<forall>fs w. c_string (fs_volume_name ops fs w) \<and> length (fs_volume_name ops fs w) \<le> 15)"

lemma kept_refl: "tables_ok v \<Longrightarrow> kept v v"
  by (simp add: kept_def)

lemma kept_trans: "kept u v \<Longrightarrow> kept v w \<Longrightarrow> kept u w"
  by (simp add: kept_def)

lemma kept_drivers: "kept u v \<Longrightarrow> kept u (v\<lparr>drivers := w\<rparr>)"
  by (simp add: kept_def tables_ok_def)

lemma kept_quiet: "kept u v \<Longrightarrow> vfs_quiet u \<Longrightarrow> vfs_quiet v \<and> tables_ok v"
  by (simp add: kept_def vfs_quiet_def)

lemma keeps_drv: "kept u v \<Longrightarrow> (\<And>r v'. kept u v' \<Longrightarrow> after Q (k (r, v'))) \<Longrightarrow> after Q (bindE (drv f v) k)"
  by (rule after_drv) (auto intro: kept_drivers)

lemma after_keeps:
  assumes "keeps v' m" "kept u v'" "\<And>r x. kept u x \<Longrightarrow> after Q (k (r, x))"
  shows "after Q (bindE m k)"
  using assms by (cases m) (auto simp: keeps_def intro: kept_trans)

lemma vfs_mount_fs_keeps:
  assumes "vfs_quiet v" "tables_ok v" "named_volumes ops"
    "\<And>n. volumename = Some n \<Longrightarrow> c_string n \<and> length n \<le> 15"
  shows "keeps v (vfs_mount_fs table ops dsk volumename v)"
proof -
  have names: "c_string (case volumename of None \<Rightarrow> fs_volume_name ops fs w | Some n \<Rightarrow> n) \<and>
      length (case volumename of None \<Rightarrow> fs_volume_name ops fs w | Some n \<Rightarrow> n) \<le> 15" for fs w
    using assms(3,4) by (auto simp: named_volumes_def split: option.splits)
  have mount: "keeps v' (vfs_mount fs (case volumename of None \<Rightarrow> fs_volume_name ops fs w | Some n \<Rightarrow> n) v')"
    if "kept v v'" for v' fs w
    using vfs_mount_keeps kept_quiet [OF that assms(1)] names by blast
  show ?thesis
    unfolding vfs_mount_fs_def keeps_def
    apply (rule keeps_drv [OF kept_refl [OF assms(2)]])
    subgoal for r v'
      by (cases r) (auto simp: Let_def simp del: after_bind intro!: keeps_drv [of v v'] after_keeps [OF mount] keeps_drv)
    done
qed

lemma mount_all_keeps:
  assumes "vfs_quiet u" "named_volumes ops" "kept u v"
  shows "after (kept u) (mount_all_from table ops dsks i v)"
  using assms(3)
proof (induction "CONFIG_MAX_FILESYSTEMS - i" arbitrary: i v)
  case (Suc n)
  then have i: "i < CONFIG_MAX_FILESYSTEMS" and n: "n = CONFIG_MAX_FILESYSTEMS - Suc i" by simp_all
  have "keeps v (vfs_mount_fs table ops k None v)" for k
    using vfs_mount_fs_keeps [of v ops None] kept_quiet [OF Suc.prems assms(1)] assms(2) by simp
  with Suc.hyps(1) [OF n] Suc.prems show ?case
    by (auto simp: mount_all_from.simps [of _ _ _ i] i split: option.splits intro!: after_keeps simp del: after_bind)
qed (simp add: mount_all_from.simps)

subsection \<open>All operations\<close>

text \<open>
  The calls of the operating system into the virtual file system, one after the other; between two
  calls the state of the drivers may change on its own.
\<close>

inductive vfs_step :: "(string \<times> ('k \<Rightarrow> 'w \<Rightarrow> (fs option \<times> 'w) kres)) list \<Rightarrow> 'w fs_ops \<Rightarrow> 'w vfs \<Rightarrow> 'w vfs \<Rightarrow> bool"
  for table :: "(string \<times> ('k \<Rightarrow> 'w \<Rightarrow> (fs option \<times> 'w) kres)) list" and ops :: "'w fs_ops" where
  mount_at: "vfs_mount fs name v = Inr (r, v') \<Longrightarrow> c_string name \<Longrightarrow> length name \<le> 15 \<Longrightarrow> vfs_step table ops v v'"
| mount_fs: "vfs_mount_fs table ops dsk volumename v = Inr (r, v') \<Longrightarrow>
    (\<And>n. volumename = Some n \<Longrightarrow> c_string n \<and> length n \<le> 15) \<Longrightarrow> vfs_step table ops v v'"
| mount_all: "vfs_mount_all table ops dsks v = Inr v' \<Longrightarrow> vfs_step table ops v v'"
| unmount_fs: "vfs_unmount ops name v = Inr (r, v') \<Longrightarrow> vfs_step table ops v v'"
| open_file: "vfs_open ops pathname v = Inr (r, v') \<Longrightarrow> vfs_step table ops v v'"
| close_file: "vfs_close ops fd v = Inr (r, v') \<Longrightarrow> vfs_step table ops v v'"
| seek_file: "vfs_seek fd pos v = Inr (r, v') \<Longrightarrow> vfs_step table ops v v'"
| read_file: "vfs_read ops fd buf n v = Inr (r, v') \<Longrightarrow> vfs_step table ops v v'"
| write_file: "vfs_write ops fd buf n v = Inr (r, v') \<Longrightarrow> vfs_step table ops v v'"
| create_file: "vfs_create ops pathname sz v = Inr (r, v') \<Longrightarrow> vfs_step table ops v v'"
| remove_file: "vfs_remove ops pathname v = Inr (r, v') \<Longrightarrow> vfs_step table ops v v'"
| getfree: "vfs_getfree ops name v = Inr (r, v') \<Longrightarrow> vfs_step table ops v v'"
| filecount: "vfs_filecount ops volume v = Inr (r, v') \<Longrightarrow> vfs_step table ops v v'"
| file_at: "vfs_file ops volume index buf v = Inr (r, v') \<Longrightarrow> vfs_step table ops v v'"
| driver: "vfs_step table ops v (v\<lparr>drivers := w\<rparr>)"

lemma keepsD: "m = Inr (r, v') \<Longrightarrow> keeps v m \<Longrightarrow> kept v v'"
  by (simp add: keeps_def)

lemmas vfs_ops_keep = vfs_mount_keeps vfs_unmount_keeps vfs_open_keeps vfs_close_keeps vfs_seek_keeps vfs_read_keeps
  vfs_write_keeps vfs_create_keeps vfs_remove_keeps vfs_getfree_keeps vfs_filecount_keeps vfs_file_keeps vfs_mount_fs_keeps

lemma vfs_step_kept:
  assumes "vfs_step table ops v v'" "vfs_quiet v" "tables_ok v" "named_volumes ops"
  shows "kept v v'"
  using assms(1)
proof cases
  case (mount_all dsks)
  then show ?thesis
    using mount_all_keeps [OF assms(2,4) kept_refl [OF assms(3)]] by (auto simp: vfs_mount_all_def dest: afterD)
next
  case (mount_fs dsk volumename r)
  then show ?thesis using vfs_mount_fs_keeps [OF assms(2-4), of volumename table dsk] by (auto simp: keeps_def)
next
  case (driver w)
  then show ?thesis using kept_drivers [OF kept_refl [OF assms(3)]] by simp
qed (erule keepsD, (rule vfs_ops_keep assms | assumption)+)+

text \<open>A table with no file system and no open file, as the loader clears the static data.\<close>

definition blank_tables :: "'w vfs \<Rightarrow> bool" where
  "blank_tables v \<longleftrightarrow> filesystems v = replicate CONFIG_MAX_FILESYSTEMS \<lparr>filesystem = None, mountpoint = replicate 16 NUL\<rparr> \<and>
     length (openfiles v) = CONFIG_MAX_OPEN_FILES"

lemma vfs_init_ok:
  assumes "vfs_init v s = Inr (v', s')" "blank_tables v"
  shows "tables_ok v'" "vfs_quiet v'" "vfs_ops v' = 0" "vfs_usable v' = 1" "vfs_unmount_sem v' = 0"
proof -
  let ?f = "filesystems v" and ?o = "openfiles v"
  have f: "for_rangeE 0 CONFIG_MAX_FILESYSTEMS (\<lambda>i l. bindE (rd l (int i)) (\<lambda>e. wr l (int i) (e\<lparr>filesystem := None\<rparr>))) ?f =
      Inr (map (\<lambda>e. e\<lparr>filesystem := None\<rparr>) ?f)"
    using for_rangeE_update_all [of ?f "\<lambda>e. e\<lparr>filesystem := None\<rparr>"] assms(2) by (simp add: blank_tables_def)
  have o: "for_rangeE 0 CONFIG_MAX_OPEN_FILES (\<lambda>i l. bindE (rd l (int i)) (\<lambda>e. wr l (int i) (e\<lparr>of_filesystem := None\<rparr>))) ?o =
      Inr (map (\<lambda>e. e\<lparr>of_filesystem := None\<rparr>) ?o)"
    using for_rangeE_update_all [of ?o "\<lambda>e. e\<lparr>of_filesystem := None\<rparr>"] assms(2) by (simp add: blank_tables_def)
  have v': "v' = v\<lparr>vfs_table_sem := 1, openfile_table_sem := 1, filesystems := map (\<lambda>e. e\<lparr>filesystem := None\<rparr>) ?f,
      openfiles := map (\<lambda>e. e\<lparr>of_filesystem := None\<rparr>) ?o, vfs_op_sem := 1, vfs_unmount_sem := 0, vfs_ops := 0, vfs_usable := 1\<rparr>"
    using assms(1) by (auto simp: vfs_init_def f o kres_iff Let_def)
  show "tables_ok v'" using assms(2)
    by (auto simp: v' blank_tables_def tables_ok_def mounted_names_def files_mounted_def NUL_def)
  show "vfs_quiet v'" "vfs_ops v' = 0" "vfs_usable v' = 1" "vfs_unmount_sem v' = 0" by (simp_all add: v' vfs_quiet_def)
qed

lemma vfs_init_returns:
  assumes "blank_tables v" "sems_ok b s rs qs" "good_base b" "4 \<le> card (free_sems s)"
  obtains v' s' where "vfs_init v s = Inr (v', s')" "sems_ok b s' rs qs" "drivers v' = drivers v"
    "filesystems v' = filesystems v" "\<forall>e \<in> set (openfiles v'). of_filesystem e = None"
proof -
  obtain i1 s1 where 1: "semaphore_create 1 s = Inr (Some i1, s1)" "sems_ok b s1 rs qs" "3 \<le> card (free_sems s1)"
    by (rule semaphore_create_free [OF assms(2,3), of 1 3]) (use assms(4) in simp_all)
  obtain i2 s2 where 2: "semaphore_create 1 s1 = Inr (Some i2, s2)" "sems_ok b s2 rs qs" "2 \<le> card (free_sems s2)"
    by (rule semaphore_create_free [OF 1(2) assms(3), of 1 2]) (use 1(3) in simp_all)
  obtain i3 s3 where 3: "semaphore_create 1 s2 = Inr (Some i3, s3)" "sems_ok b s3 rs qs" "1 \<le> card (free_sems s3)"
    by (rule semaphore_create_free [OF 2(2) assms(3), of 1 1]) (use 2(3) in simp_all)
  obtain i4 s4 where 4: "semaphore_create 0 s3 = Inr (Some i4, s4)" "sems_ok b s4 rs qs"
    by (rule semaphore_create_free [OF 3(2) assms(3), of 0 0]) (use 3(3) in simp_all)
  have l: "length (filesystems v) = CONFIG_MAX_FILESYSTEMS" "length (openfiles v) = CONFIG_MAX_OPEN_FILES"
    "map (\<lambda>e. e\<lparr>filesystem := None\<rparr>) (filesystems v) = filesystems v"
    using assms(1) by (simp_all add: blank_tables_def)
  note loops = for_rangeE_update_all [of "filesystems v" "\<lambda>e. e\<lparr>filesystem := None\<rparr>", unfolded l(1,3)]
    for_rangeE_update_all [of "openfiles v" "\<lambda>e. e\<lparr>of_filesystem := None\<rparr>", unfolded l(2)]
  show ?thesis
    by (rule that [OF _ 4(2)]) (simp add: vfs_init_def 1(1) 2(1) 3(1) 4(1) loops, simp_all)
qed

subsection \<open>Runs of the operations\<close>

lemmas op_defs = vfs_start_op_def vfs_end_op_def vfs_deinit_start_def vfs_deinit_resume_def P_op_def V_op_def sem_P_def
  VFS_OK_def VFS_UNUSABLE_def

text \<open>What the frame of an operation does when the virtual file system is usable and nothing is locked.\<close>

definition vfs_free :: "'w vfs \<Rightarrow> bool" where
  "vfs_free v \<longleftrightarrow> vfs_quiet v \<and> tables_ok v \<and> vfs_usable v \<noteq> 0"

lemma vfs_freeD:
  assumes "vfs_free v"
  shows "vfs_table_sem v = 1" "openfile_table_sem v = 1" "vfs_op_sem v = 1" "vfs_ops v \<ge> 0" "vfs_usable v \<noteq> 0"
    "length (filesystems v) = CONFIG_MAX_FILESYSTEMS" "length (openfiles v) = CONFIG_MAX_OPEN_FILES"
    "mounted_names (filesystems v)" "files_mounted (filesystems v) (openfiles v)"
  using assms by (simp_all add: vfs_free_def vfs_quiet_def tables_ok_def)

lemma vfs_op_run: "vfs_free v \<Longrightarrow> vfs_op r body v = body (v\<lparr>vfs_ops := vfs_ops v + 1\<rparr>)"
  by (cases v) (simp add: vfs_op_def op_defs vfs_free_def vfs_quiet_def)

lemma vfs_done_run: "vfs_op_sem v = 1 \<Longrightarrow> vfs_ops v > 0 \<Longrightarrow> vfs_usable v \<noteq> 0 \<Longrightarrow> vfs_done r v = Inr (r, v\<lparr>vfs_ops := vfs_ops v - 1\<rparr>)"
  by (cases v) (simp add: vfs_done_def op_defs)

lemma P_table_run: "vfs_table_sem v = 1 \<Longrightarrow> P_table v = Inr (v\<lparr>vfs_table_sem := 0\<rparr>)"
  and P_files_run: "openfile_table_sem v = 1 \<Longrightarrow> P_files v = Inr (v\<lparr>openfile_table_sem := 0\<rparr>)"
  by (simp_all add: P_table_def P_files_def sem_P_def)

lemmas vfs_run = vfs_op_run vfs_done_run P_table_run P_files_run V_table_def V_files_def drv_def

lemma vfs_same: "vfs_free v \<Longrightarrow> v\<lparr>vfs_ops := vfs_ops v, vfs_table_sem := 1, openfile_table_sem := 1\<rparr> = v"
  by (cases v) (simp add: vfs_free_def vfs_quiet_def)

lemma vfs_mount_run:
  assumes "vfs_free v" "row < CONFIG_MAX_FILESYSTEMS" "filesystem (filesystems v ! row) = None"
    "\<And>j. j < row \<Longrightarrow> filesystem (filesystems v ! j) \<noteq> None"
    "\<And>j. j < CONFIG_MAX_FILESYSTEMS \<Longrightarrow> cstring (mountpoint (filesystems v ! j)) \<noteq> name" "file_name name"
    "mp = name @ NUL # drop (Suc (length name)) (mountpoint (filesystems v ! row))"
  shows "vfs_mount fs name v = Inr (VFS_OK, v\<lparr>filesystems := (filesystems v)[row := \<lparr>filesystem = Some fs, mountpoint = mp\<rparr>]\<rparr>)"
proof -
  note V = vfs_freeD [OF assms(1)]
  have n: "c_string name" "name \<noteq> []" "length name \<le> 15" using assms(6) by (simp_all add: file_name_def)
  have l: "length (mountpoint (filesystems v ! row)) = 16" using V(6,8) assms(2) by (simp add: mounted_names_def)
  have e: "e\<lparr>mountpoint := m, filesystem := f\<rparr> = \<lparr>filesystem = f, mountpoint = m\<rparr>" for e :: vfs_entry_t and m f by (cases e) simp
  have r: "first_from (\<lambda>i. filesystem (filesystems v ! i) = None) 0 CONFIG_MAX_FILESYSTEMS = row"
    by (rule first_from_eqI) (use assms(2-4) in auto)
  have c: "first_from (\<lambda>i. stringcmp (cstring (mountpoint (filesystems v ! i))) name = 0) 0 CONFIG_MAX_FILESYSTEMS = CONFIG_MAX_FILESYSTEMS"
    using assms(5) n(1) by (subst first_from_eq_n_iff) (simp_all add: stringcmp_eq_0)
  show ?thesis
    using assms(2) n l V(1-7)
    by (simp add: vfs_mount_def vfs_op_run [OF assms(1)] vfs_run find_from_eq r [simplified] c [simplified] stringcopy_name assms(7) e)
qed

subsection \<open>Shutdown\<close>

text \<open>
  The operations run in threads of their own, and \<^verbatim>\<open>vfs_deinit\<close> in another.  A state holds the
  number of operations between their \<^verbatim>\<open>vfs_start_op\<close> and \<^verbatim>\<open>vfs_end_op\<close> and how far the shutdown
  has got.  An operation may change the tables and the drivers and lock and unlock the tables.
\<close>

datatype shutdown = Running | Waiting | Unmounting | Halted

inductive shutdown_step :: "'w fs_ops \<Rightarrow> 'w vfs \<times> nat \<times> shutdown \<Rightarrow> 'w vfs \<times> nat \<times> shutdown \<Rightarrow> bool" for ops :: "'w fs_ops" where
  admitted: "vfs_start_op v = Inr (VFS_OK, v') \<Longrightarrow> shutdown_step ops (v, n, p) (v', Suc n, p)"
| refused: "vfs_start_op v = Inr (r, v') \<Longrightarrow> r \<noteq> VFS_OK \<Longrightarrow> shutdown_step ops (v, n, p) (v', n, p)"
| work: "n > 0 \<Longrightarrow> shutdown_step ops (v, n, p)
    (v\<lparr>vfs_table_sem := a, filesystems := l, openfile_table_sem := b, openfiles := fl, drivers := w\<rparr>, n, p)"
| finish: "vfs_end_op v = Inr v' \<Longrightarrow> shutdown_step ops (v, Suc n, p) (v', n, p)"
| deinit_wait: "vfs_deinit_start v = Inr (True, v') \<Longrightarrow> shutdown_step ops (v, n, Running) (v', n, Waiting)"
| deinit_now: "vfs_deinit_start v = Inr (False, v') \<Longrightarrow> shutdown_step ops (v, n, Running) (v', n, Unmounting)"
| resume: "vfs_deinit_resume v = Inr v' \<Longrightarrow> shutdown_step ops (v, n, Waiting) (v', n, Unmounting)"
| halt: "vfs_deinit_unmount ops v = Inr v' \<Longrightarrow> shutdown_step ops (v, n, Unmounting) (v', n, Halted)"

definition shutdown_inv :: "'w vfs \<times> nat \<times> shutdown \<Rightarrow> bool" where
  "shutdown_inv = (\<lambda>(v, n, p). vfs_ops v = int n \<and> vfs_op_sem v = (if p = Unmounting then 0 else 1) \<and>
     vfs_usable v = (if p = Running then 1 else 0) \<and> vfs_unmount_sem v = (if p = Waiting \<and> n = 0 then 1 else 0) \<and>
     (p = Unmounting \<or> p = Halted \<longrightarrow> n = 0))"

lemma deinit_unmount_frame:
  assumes "vfs_deinit_unmount ops v = Inr v'"
  shows "vfs_ops v' = vfs_ops v" "vfs_op_sem v' = vfs_op_sem v + 1" "vfs_usable v' = vfs_usable v" "vfs_unmount_sem v' = vfs_unmount_sem v"
proof -
  let ?same = "\<lambda>x y :: 'a vfs. vfs_ops x = vfs_ops y \<and> vfs_op_sem x = vfs_op_sem y \<and> vfs_usable x = vfs_usable y \<and> vfs_unmount_sem x = vfs_unmount_sem y"
  let ?body = "\<lambda>row v. bindE (rd (filesystems v) (int row)) (\<lambda>e.
              case filesystem e of None \<Rightarrow> Inr v
              | Some fs \<Rightarrow>
                  bindE (drv (fs_unmount ops fs) v) (\<lambda>(_, v).
                  bindE (wr (filesystems v) (int row) (e\<lparr>filesystem := None\<rparr>)) (\<lambda>l. Inr (v\<lparr>filesystems := l\<rparr>))))"
  have "after (?same x) (?body row x)" for row x
    unfolding after_def by (auto simp: kres_iff drv_def split: option.splits)
  then have loop: "?same x y" if "for_rangeE i n ?body x = Inr y" for i n x y
    using that by (rule for_rangeE_after [where R = ?same]) auto
  from assms obtain x y where "for_rangeE 0 CONFIG_MAX_FILESYSTEMS ?body x = Inr y" "?same v x" "v' = V_op (V_table (V_files y))"
    by (auto simp: vfs_deinit_unmount_def kres_iff P_table_def P_files_def)
  with loop [OF this(1)] show "vfs_ops v' = vfs_ops v" "vfs_op_sem v' = vfs_op_sem v + 1" "vfs_usable v' = vfs_usable v" "vfs_unmount_sem v' = vfs_unmount_sem v"
    by (simp_all add: V_op_def V_table_def V_files_def)
qed

lemma shutdown_step_inv: "shutdown_step ops x y \<Longrightarrow> shutdown_inv x \<Longrightarrow> shutdown_inv y"
proof (induction rule: shutdown_step.induct)
  case (halt v v' n)
  then show ?case using deinit_unmount_frame [OF halt.hyps] by (simp add: shutdown_inv_def)
next
  case (resume v v' n)
  then show ?case by (cases "n = 0") (auto simp: shutdown_inv_def op_defs)
next
  case (finish v v' n p)
  then show ?case by (cases p) (auto simp: shutdown_inv_def op_defs Let_def KERNEL_ASSERT_def split: if_splits)
qed (auto simp: shutdown_inv_def op_defs Let_def KERNEL_ASSERT_def split: if_splits)

subsection \<open>Properties\<close>

text \<open>
  C17: the shutdown of the virtual file system waits for the pending operations.  However operations
  start, run and end around it, the file systems are unmounted only when none is pending, no operation
  is admitted once the shutdown has begun, every pending operation can end, and when the last one has
  ended the shutdown goes on: the wake-up is never lost and the assertion in \<^verbatim>\<open>vfs_deinit\<close> holds.
\<close>

theorem vfs_shutdown_waits:
  assumes "vfs_init v0 s = Inr (v1, s')" "blank_tables v0" "(shutdown_step ops)\<^sup>*\<^sup>* (v1, 0, Running) (v, n, p)"
  shows "vfs_ops v = int n \<and> (p = Unmounting \<or> p = Halted \<longrightarrow> n = 0) \<and>
    (p \<noteq> Running \<longrightarrow> (\<forall>r v'. vfs_start_op v = Inr (r, v') \<longrightarrow> r = VFS_UNUSABLE)) \<and>
    (n > 0 \<longrightarrow> (\<exists>v'. vfs_end_op v = Inr v')) \<and>
    (p = Waiting \<and> n = 0 \<longrightarrow> (\<exists>v'. vfs_deinit_resume v = Inr v'))"
proof -
  have "shutdown_inv (v, n, p)"
    using assms(3)
  proof (induction "(v, n, p)" arbitrary: v n p rule: rtranclp_induct)
    case base
    then show ?case using vfs_init_ok [OF assms(1,2)] by (simp add: shutdown_inv_def vfs_quiet_def)
  next
    case (step y)
    then show ?case by (cases y) (auto intro: shutdown_step_inv)
  qed
  then show ?thesis by (auto simp: shutdown_inv_def op_defs Let_def split: if_splits)
qed

text \<open>The kernel of the semaphore development has room for the four semaphores.\<close>

definition sample_vfs :: "unit vfs" where
  "sample_vfs = \<lparr>vfs_table_sem = 0, filesystems = replicate CONFIG_MAX_FILESYSTEMS \<lparr>filesystem = None, mountpoint = replicate 16 NUL\<rparr>,
     openfile_table_sem = 0, openfiles = replicate CONFIG_MAX_OPEN_FILES \<lparr>of_filesystem = None, of_fileid = 0, of_seek_position = 0\<rparr>,
     vfs_op_sem = 0, vfs_unmount_sem = 0, vfs_ops = 0, vfs_usable = 0, drivers = ()\<rparr>"

lemma sample_free_sems: "4 \<le> card (free_sems sample_kernel)"
proof -
  have "{2, 3, 4, 5} \<subseteq> free_sems sample_kernel"
    by (simp add: free_sems_def sample_kernel_sem is_sem_def CONFIG_MAX_SEMAPHORES_def sample_sem_def)
  from card_mono [OF finite_free_sems this] show ?thesis by simp
qed

lemma sample_vfs_init:
  obtains v' s' where "vfs_init sample_vfs sample_kernel = Inr (v', s')" "blank_tables sample_vfs" "drivers v' = ()"
    "filesystems v' = filesystems sample_vfs"
proof -
  have b: "blank_tables sample_vfs" by (simp add: blank_tables_def sample_vfs_def)
  show ?thesis
    by (rule vfs_init_returns [OF b sample_kernel_ok sample_good_base(1) sample_free_sems]) (use b that in \<open>simp add: sample_vfs_def\<close>)
qed

theorem vfs_shutdown_waits_witness:
  "\<exists>v1 s' v v' ops. vfs_init sample_vfs sample_kernel = Inr (v1, s') \<and> (shutdown_step ops)\<^sup>*\<^sup>* (v1, 0, Running) (v, 0, Waiting) \<and>
     vfs_deinit_resume v = Inr v'"
proof -
  obtain v1 s' where 1: "vfs_init sample_vfs sample_kernel = Inr (v1, s')" "blank_tables sample_vfs" by (rule sample_vfs_init)
  note i = vfs_init_ok [OF 1]
  have q: "vfs_op_sem v1 = 1" using i(2) by (simp add: vfs_quiet_def)
  let ?a = "v1\<lparr>vfs_ops := 1, vfs_op_sem := 1\<rparr>"
  let ?b = "v1\<lparr>vfs_ops := 1, vfs_op_sem := 1, vfs_usable := 0\<rparr>"
  let ?c = "v1\<lparr>vfs_ops := 0, vfs_op_sem := 1, vfs_usable := 0, vfs_unmount_sem := 1\<rparr>"
  have "shutdown_step ops (v1, 0, Running) (?a, 1, Running)" for ops
    using shutdown_step.admitted [of v1 ?a ops 0] i q by (simp add: op_defs)
  moreover have "shutdown_step ops (?a, 1, Running) (?b, 1, Waiting)" for ops
    by (rule shutdown_step.deinit_wait) (simp add: op_defs)
  moreover have "shutdown_step ops (?b, 1, Waiting) (?c, 0, Waiting)" for ops
    using shutdown_step.finish [of ?b ?c ops 0] i by (simp add: op_defs)
  ultimately have "(shutdown_step ops)\<^sup>*\<^sup>* (v1, 0, Running) (?c, 0, Waiting)" for ops by (meson converse_rtranclp_into_rtranclp rtranclp.rtrancl_refl)
  with vfs_shutdown_waits [OF 1 this] 1(1) show ?thesis by blast
qed

lemma sample_cstring: "cstring (replicate 16 NUL) = []"
  by (simp add: cstring_def)

lemma blank_mount:
  assumes "vfs_free v" "file_name name"
    "filesystems v = replicate CONFIG_MAX_FILESYSTEMS \<lparr>filesystem = None, mountpoint = replicate 16 NUL\<rparr>"
  shows "vfs_mount fs name v = Inr (VFS_OK, v\<lparr>filesystems := (filesystems v)[0 := \<lparr>filesystem = Some fs,
    mountpoint = name @ replicate (16 - length name) NUL\<rparr>]\<rparr>)"
proof -
  have n: "name \<noteq> []" "length name \<le> 15" using assms(2) by (simp_all add: file_name_def)
  have "replicate (16 - length name) NUL = NUL # replicate (15 - length name) NUL"
    using n(2) by (simp add: Suc_diff_le flip: replicate_Suc)
  then show ?thesis
    using n vfs_mount_run [OF assms(1), of 0 name _ fs] assms(2,3)
    by (simp add: CONFIG_MAX_FILESYSTEMS_def sample_cstring)
qed



end
