(* ===== verification/File_Data.thy ===== *)
theory File_Data
  imports Volume
begin

text \<open>
  Reading and writing the contents of files: on a working device \<^verbatim>\<open>tfs_read\<close> returns the
  requested part of the file and \<^verbatim>\<open>tfs_write\<close> overwrites it, block boundaries notwithstanding.
\<close>

subsection \<open>The blocks of a file as one byte string\<close>

lemma slice_append_same: "slice c off (a + b) = slice c off a @ slice c (off + a) b"
  by (simp add: slice_def take_add ac_simps)

lemma splice_splice_at: "off + length xs + length ys \<le> length b \<Longrightarrow>
  splice_at (splice_at b off xs) (off + length xs) ys = splice_at b off (xs @ ys)"
  by (simp add: splice_at_def ac_simps)

lemmas splice_splice = splice_splice_at [where off = 0, simplified]

lemma slice_take: "off + n \<le> m \<Longrightarrow> slice (take m c) off n = slice c off n"
  by (simp add: slice_def drop_take min_def)

lemma take_splice: "off + length xs \<le> n \<Longrightarrow> n \<le> length c \<Longrightarrow> take n (splice_at c off xs) = splice_at (take n c) off xs"
  by (rule nth_equalityI) (auto simp: nth_splice_at)

lemma slice_left: "off + n \<le> length a \<Longrightarrow> slice (a @ b) off n = slice a off n"
  by (simp add: slice_def)

lemma length_blocks: "\<forall>b \<in> set bs. length (B b) = (512::nat) \<Longrightarrow> length (concat (map B bs)) = 512 * length bs"
  by (induction bs) simp_all

lemma concat_split:
  assumes "k < length bs" "\<forall>b \<in> set bs. length (B b) = (512::nat)"
  shows "concat (map B bs) = concat (map B (take k bs)) @ B (bs ! k) @ concat (map B (drop (Suc k) bs))"
    and "length (concat (map B (take k bs))) = 512 * k"
proof -
  have "bs = take k bs @ bs ! k # drop (Suc k) bs" using assms(1) by (rule id_take_nth_drop)
  then have "concat (map B bs) = concat (map B (take k bs @ bs ! k # drop (Suc k) bs))" by (rule arg_cong)
  then show "concat (map B bs) = concat (map B (take k bs)) @ B (bs ! k) @ concat (map B (drop (Suc k) bs))" by simp
  have "\<forall>b \<in> set (take k bs). length (B b) = 512" using assms(2) by (auto dest: in_set_takeD)
  from length_blocks [OF this] show "length (concat (map B (take k bs))) = 512 * k" using assms(1) by simp
qed

lemma slice_blocks:
  assumes "k < length bs" "\<forall>b \<in> set bs. length (B b) = 512" "off + n \<le> 512"
  shows "slice (concat (map B bs)) (512 * k + off) n = slice (B (bs ! k)) off n"
proof -
  have "length (B (bs ! k)) = 512" using assms by simp
  then show ?thesis
    unfolding concat_split(1) [OF assms(1,2)] using concat_split(2) [OF assms(1,2)] assms(3)
    by (simp add: slice_def)
qed

lemma splice_blocks:
  assumes "k < length bs" "\<forall>b \<in> set bs. length (B b) = 512" "off + length xs \<le> 512" "distinct bs"
  shows "concat (map (B(bs ! k := splice_at (B (bs ! k)) off xs)) bs) = splice_at (concat (map B bs)) (512 * k + off) xs"
proof -
  let ?B = "B(bs ! k := splice_at (B (bs ! k)) off xs)"
  have l: "length (B (bs ! k)) = 512" using assms by simp
  have "bs ! k \<notin> set (take k bs)" "bs ! k \<notin> set (drop (Suc k) bs)"
    using assms(1,4) by (metis distinct_take id_take_nth_drop not_distinct_conv_prefix)
      (metis assms(1,4) disjoint_iff distinct_append distinct.simps(2) id_take_nth_drop)
  then have m: "map ?B (take k bs) = map B (take k bs)" "map ?B (drop (Suc k) bs) = map B (drop (Suc k) bs)"
    by (auto intro!: map_cong)
  have "\<forall>b \<in> set bs. length (?B b) = 512" using assms(2,3) l by auto
  from concat_split(1) [OF assms(1) this, unfolded m]
  have "concat (map ?B bs) = concat (map B (take k bs)) @ splice_at (B (bs ! k)) off xs @ concat (map B (drop (Suc k) bs))"
    by (simp only: fun_upd_same)
  then show ?thesis
    unfolding concat_split(1) [OF assms(1,2)] using concat_split(2) [OF assms(1,2)] assms(3) l
    by (simp add: splice_at_def)
qed

subsection \<open>Reading\<close>

text \<open>The parts of a volume that a read or write of file \<open>n\<close> relies on.\<close>

definition readable :: "nat \<Rightarrow> (nat \<Rightarrow> block) \<Rightarrow> nat \<Rightarrow> bool" where
  "readable T B n \<longleftrightarrow> n < T \<and> 2 < n \<and> distinct (data_blocks (B n)) \<and> n \<notin> set (data_blocks (B n)) \<and>
     (\<forall>b \<in> set (data_blocks (B n)). b < T) \<and>
     unat (filesize (B n)) \<le> 512 * length (data_blocks (B n))"

lemma file_readable: "volume_ok T B \<Longrightarrow> entry_used B i \<Longrightarrow> readable T B (entry_inode B i)"
  using volume_okD(7) [of T B i] by (auto simp: readable_def file_ok_def entry_blocks_def blocks_for_def)

lemma inode_block_eq:
  assumes "k < length (data_blocks ino)" "buffer_inode t = ino" "length ino = 512"
  shows "\<exists>w. inode_block t (int k) = Inr w \<and> unat w = data_blocks ino ! k"
proof -
  have "k < 127" using assms(1) data_blocks_length [of ino] by simp
  then have "inode_block t (int k) = Inr (get32 ino (4 + 4 * k))"
    using assms(2,3) by (simp add: inode_block_def get32_def slice_left)
  with data_blocks_nth(1) [OF assms(1)] show ?thesis by simp
qed

lemma block_of_offset: "off < 512 * n \<Longrightarrow> off div 512 < (n::nat)"
  by (simp add: less_mult_imp_div_less mult.commute)

text \<open>The arithmetic of the first block.\<close>

lemma first_part:
  assumes "0 < m"
  obtains k o' k2 got where "offset = 512 * k + o'" "512 * k2 < offset + m" "offset + m \<le> 512 * Suc k2"
    "int offset sdiv 512 = int k" "(int offset + int m - 1) sdiv 512 = int k2" "int offset smod 512 = int o'"
    "0 < got" "o' + got \<le> 512" "got \<le> m" "min (512 - int o') (int m) = int got"
    "Suc k \<le> k2 \<and> offset + got = 512 * Suc k \<or> Suc k = Suc k2 \<and> got = m"
proof -
  define k where "k = offset div 512" define o' where "o' = offset mod 512"
  define k2 where "k2 = (offset + m - 1) div 512" define got where "got = min (512 - o') m"
  have off: "offset = 512 * k + o'" "o' < 512" by (simp_all add: k_def o'_def)
  have e: "512 * k2 < offset + m" "offset + m \<le> 512 * Suc k2"
    using assms by (simp_all add: k2_def)
  have "int offset sdiv 512 = int k" "(int offset + int m - 1) sdiv 512 = int k2" "int offset smod 512 = int o'"
    using assms by (auto simp: signed_divide_int_def signed_modulo_int_def sgn_if k_def k2_def o'_def zdiv_int zmod_int of_nat_diff)
  moreover have "0 < got" "o' + got \<le> 512" "got \<le> m" "min (512 - int o') (int m) = int got"
    using assms off(2) by (auto simp: got_def)
  moreover have "Suc k \<le> k2 \<and> offset + got = 512 * Suc k \<or> Suc k = Suc k2 \<and> got = m"
    using off e calculation by (auto simp: got_def min_def split: if_splits)
  ultimately show ?thesis using off(1) e by (intro that)
qed

lemma put_bytes_0: "length xs \<le> length b \<Longrightarrow> put_bytes b 0 xs = Inr (splice_at b 0 xs)"
  by (simp add: put_bytes_def splice_at_def)

lemma read_loop_done: "\<not> b1 \<le> b2 \<Longrightarrow> read_loop g b1 b2 n buf pos got t = Inr (got, buf, tfs_unlock t)"
  by (simp add: read_loop.simps [of g b1])

context block_device
begin

lemma readable_lengths:
  assumes "mounted T t" "readable T (blk (disk t)) n"
  shows "\<forall>b \<in> set (data_blocks (blk (disk t) n)). length (blk (disk t) b) = 512" "length (blk (disk t) n) = 512"
  using assms mounted_blocks [OF assms(1)] by (auto simp: readable_def)

lemma length_file:
  assumes "mounted T t" "readable T (blk (disk t)) n"
  shows "length (file_at (blk (disk t)) n) = unat (filesize (blk (disk t) n))"
  using length_blocks [OF readable_lengths(1) [OF assms]] assms(2)
  by (simp add: file_at_def readable_def)

lemma slice_file:
  assumes "mounted T t" "readable T (blk (disk t)) n" "512 * k + off + m \<le> unat (filesize (blk (disk t) n))"
    "off + m \<le> 512" "0 < m"
  shows "slice (file_at (blk (disk t)) n) (512 * k + off) m = slice (blk (disk t) (data_blocks (blk (disk t) n) ! k)) off m"
    "k < length (data_blocks (blk (disk t) n))"
proof -
  have "512 * k < 512 * length (data_blocks (blk (disk t) n))"
    using assms(2,3,5) by (auto simp: readable_def)
  then show k: "k < length (data_blocks (blk (disk t) n))" by simp
  have "slice (file_at (blk (disk t)) n) (512 * k + off) m =
      slice (concat (map (blk (disk t)) (data_blocks (blk (disk t) n)))) (512 * k + off) m"
    unfolding file_at_def by (rule slice_take) (use assms(3) in simp)
  with slice_blocks [OF k readable_lengths(1) [OF assms(1,2)] assms(4)]
  show "slice (file_at (blk (disk t)) n) (512 * k + off) m = slice (blk (disk t) (data_blocks (blk (disk t) n) ! k)) off m"
    by simp
qed

text \<open>A read of block \<open>k\<close> of the file, inside the computations.\<close>

lemma returns_file_block:
  assumes "mounted T t" "readable T (blk (disk t)) n" "buffer_inode t = blk (disk t) n"
    "k < length (data_blocks (blk (disk t) n))"
    "\<And>d'. mounted T (t\<lparr>buffer_bat := blk (disk t) (data_blocks (blk (disk t) n) ! k), disk := d'\<rparr>) \<Longrightarrow>
      blk d' = blk (disk t) \<Longrightarrow>
      returns P (f (t\<lparr>buffer_bat := blk (disk t) (data_blocks (blk (disk t) n) ! k), disk := d'\<rparr>))"
  shows "returns (\<lambda>b. returns P (or_fail err (read_bat g b t) f)) (inode_block t (int k))"
proof -
  obtain w where w: "inode_block t (int k) = Inr w" "unat w = data_blocks (blk (disk t) n) ! k"
    using inode_block_eq [OF assms(4,3)] readable_lengths(2) [OF assms(1,2)] by blast
  have "unat w < T" using w(2) assms(2,4) by (simp add: readable_def)
  with w assms(1,5) show ?thesis by (auto intro!: returns_read_bat)
qed

definition read_post :: "nat \<Rightarrow> (nat \<Rightarrow> block) \<Rightarrow> int \<Rightarrow> int \<Rightarrow> char list \<Rightarrow> int \<times> char list \<times> 'd tfs \<Rightarrow> bool" where
  "read_post T B l r0 buf0 = (\<lambda>(r, buf, t). r = r0 \<and> buf = buf0 \<and> mounted T t \<and> lock t = l \<and> blk (disk t) = B)"

lemma read_loop_ok:
  assumes "mounted T t" "blk (disk t) = B" "lock t + 1 = l" "buffer_inode t = B n" "readable T B n"
    and "offset + m \<le> unat (filesize (B n))" "m \<le> length buf0"
    and "512 * k2 < offset + m" "offset + m \<le> 512 * Suc k2" "got \<le> m"
    and "k \<le> k2 \<and> offset + got = 512 * k \<or> k = Suc k2 \<and> got = m"
  shows "returns (read_post T B l (int m) (splice_at buf0 0 (slice (file_at B n) offset m)))
    (read_loop g (int k) (int k2) (int m) (splice_at buf0 0 (slice (file_at B n) offset got)) (int got) (int got) t)"
  using assms(1-4,10,11)
proof (induction "Suc k2 - k" arbitrary: k got t)
  case 0
  then have "k = Suc k2" "got = m" by auto
  with 0 show ?case by (simp add: read_loop_done read_post_def)
next
  case (Suc x)
  let ?c = "file_at B n" and ?bk = "B (data_blocks (B n) ! k)"
  have k: "k \<le> k2" "offset + got = 512 * k" using Suc.hyps(2) Suc.prems(6) by auto
  have rd: "readable T (blk (disk t)) n" "buffer_inode t = blk (disk t) n" using assms(5) Suc.prems(2,4) by simp_all
  define part where "part = (if k = k2 then m - got else 512)"
  have part: "0 < part" "part \<le> 512" "got + part \<le> m"
    using assms(8,9) k Suc.prems(5) unfolding part_def by (auto split: if_splits)
  have fit: "512 * k + 0 + part \<le> unat (filesize (blk (disk t) n))" using part(3) k(2) assms(6) Suc.prems(2) by simp
  note sl = slice_file [OF Suc.prems(1) rd(1) fit _ part(1), unfolded Suc.prems(2)]
  have piece: "take part ?bk = slice ?c (offset + got) part"
    using sl(1) part(2) k(2) by (simp add: slice_def)
  have k': "k < length (data_blocks (blk (disk t) n))" using sl(2) part(2) Suc.prems(2) by simp
  have lc: "length ?c = unat (filesize (B n))" using length_file [OF Suc.prems(1) rd(1)] Suc.prems(2) by simp
  have put: "put_bytes (splice_at buf0 0 (slice ?c offset got)) (int got) (take part ?bk) =
      Inr (splice_at buf0 0 (slice ?c offset (got + part)))"
    using splice_splice [of "slice ?c offset got" "slice ?c (offset + got) part" buf0] part lc assms(6,7) Suc.prems(5)
    by (auto simp: put_bytes_def slice_append_same piece)
  have next': "Suc k \<le> k2 \<and> offset + (got + part) = 512 * Suc k \<or> Suc k = Suc k2 \<and> got + part = m"
    using k part by (auto simp: part_def)
  have step: "returns (read_post T B l (int m) (splice_at buf0 0 (slice ?c offset m)))
    (read_loop g (int (Suc k)) (int k2) (int m) (splice_at buf0 0 (slice ?c offset (got + part))) (int (got + part)) (int (got + part))
      (t\<lparr>buffer_bat := ?bk, disk := d'\<rparr>))"
    if "mounted T (t\<lparr>buffer_bat := ?bk, disk := d'\<rparr>)" "blk d' = B" for d'
    by (rule Suc.hyps(1)) (use Suc.hyps(2) Suc.prems that part(3) next' in simp_all)
  note block = returns_file_block [OF Suc.prems(1) rd k', unfolded Suc.prems(2)]
  show ?case
  proof (cases "k = k2")
    case True
    then have "part = nat (int m - int got)" "int got + (int m - int got) = int (got + part)"
      using Suc.prems(5) by (simp_all add: part_def nat_diff_distrib)
    with True k(1) show ?thesis
      unfolding read_loop.simps [of g "int k"]
      using step put by (auto intro!: block [unfolded True] simp: read_loop_done)
  next
    case False
    then show ?thesis
      unfolding read_loop.simps [of g "int k"]
      using step put k(1) by (auto intro!: block simp: part_def ac_simps)
  qed
qed

lemma read_ok:
  assumes "mounted T t" "lock t = 1" "readable T (blk (disk t)) n" "unat (filesize (blk (disk t) n)) < 2 ^ 31"
    and "offset \<le> unat (filesize (blk (disk t) n))" "m = min bufsize (unat (filesize (blk (disk t) n)) - offset)"
    and "m \<le> length buf0"
  shows "returns (read_post T (blk (disk t)) 1 (int m) (splice_at buf0 0 (slice (file_at (blk (disk t)) n) offset m)))
    (tfs_read g (int n) buf0 (int bufsize) (int offset) t)"
proof -
  let ?B = "blk (disk t)" and ?t = "t\<lparr>lock := 0\<rparr>"
  let ?size = "unat (filesize (?B n))"
  let ?Q = "read_post T ?B 1 (int m) (splice_at buf0 0 (slice (file_at ?B n) offset m))"
  have n: "n < T" "2 < n" "unat (word_of_nat n :: uint32) = n"
    using assms(3) mountedD(9) [OF assms(1)] by (auto simp: readable_def unat_of_nat_small)
  have sz: "sint (filesize (?B n)) = int ?size" using assms(4) by (simp add: sint_small)
  have up: "offset + m \<le> ?size" using assms(5,6) by linarith
  have mi: "min (int bufsize) (int ?size - int offset) = int m" using assms(5,6) by (simp only: of_nat_min of_nat_diff)
  have "returns ?Q (if int m = 0 then Inr (0, buf0, tfs_unlock u)
    else let b1 = int offset sdiv 512; b2 = (int offset + int m - 1) sdiv 512; off = int offset smod 512
         in bindE (inode_block u b1) (\<lambda>blk. or_fail (\<lambda>t. (VFS_ERROR, buf0, tfs_unlock t)) (read_bat g blk u) (\<lambda>t.
             let got = min (512 - off) (int m) in
             bindE (put_bytes buf0 0 (slice (buffer_bat t) (nat off) (nat got))) (\<lambda>buffer.
             read_loop g (b1 + 1) b2 (int m) buffer got got t))))"
    if u: "mounted T u" "blk (disk u) = ?B" "lock u = 0" "buffer_inode u = ?B n" for u
  proof (cases "m = 0")
    case True
    with u show ?thesis by (simp add: read_post_def slice_def splice_at_def)
  next
    case False
    then have "0 < m" by simp
    then obtain k o' k2 got where off: "offset = 512 * k + o'"
      and e: "512 * k2 < offset + m" "offset + m \<le> 512 * Suc k2"
      and sd: "int offset sdiv 512 = int k" "(int offset + int m - 1) sdiv 512 = int k2" "int offset smod 512 = int o'"
      and got: "0 < got" "o' + got \<le> 512" "got \<le> m" "min (512 - int o') (int m) = int got"
      and nx: "Suc k \<le> k2 \<and> offset + got = 512 * Suc k \<or> Suc k = Suc k2 \<and> got = m"
      by (rule first_part)
    have fit: "512 * k + o' + got \<le> unat (filesize (blk (disk u) n))" 
      using off got(3) assms(5,6) unfolding u(2) by linarith
    have rd: "readable T (blk (disk u)) n" "buffer_inode u = blk (disk u) n" using assms(3) u by simp_all
    note sl = slice_file [OF u(1) rd(1) fit got(2,1), unfolded u(2)]
    note block = returns_file_block [OF u(1) rd, unfolded u(2), OF sl(2)]
    have put: "put_bytes buf0 0 (slice (?B (data_blocks (?B n) ! k)) o' got) = Inr (splice_at buf0 0 (slice (file_at ?B n) offset got))"
    proof -
      have "length (slice (file_at ?B n) offset got) = got"
        using fit length_file [OF assms(1,3)] off u(2) by simp
      then show ?thesis
        using put_bytes_0 [of "slice (file_at ?B n) offset got" buf0] sl(1) off got(3) assms(7) by simp
    qed
    have loop: "returns ?Q (read_loop g (int (Suc k)) (int k2) (int m) (splice_at buf0 0 (slice (file_at ?B n) offset got))
        (int got) (int got) (u\<lparr>buffer_bat := b, disk := d'\<rparr>))"
      if "mounted T (u\<lparr>buffer_bat := b, disk := d'\<rparr>)" "blk d' = ?B" for b d'
      by (rule read_loop_ok) (use that u assms(3,7) up e got nx in auto)
    have suc: "int k + 1 = int (Suc k)" by simp
    show ?thesis
      unfolding sd got(4) Let_def suc using False loop put by (auto intro!: block simp del: of_nat_Suc)
  qed
  note main = this
  show ?thesis
    unfolding tfs_read_def tfs_lock_def Let_def
    using assms(1,2,5) n mountedD(8) [OF assms(1)] sz mi main [unfolded Let_def]
    by (auto intro!: returns_read_inode)
qed

end

subsection \<open>Writing\<close>

text \<open>
  \<open>written bs B0 off xs B\<close>: the blocks \<open>B\<close> differ from \<open>B0\<close> only in the blocks \<open>bs\<close>, and there the
  bytes from \<open>off\<close> on have been replaced by \<open>xs\<close>.
\<close>

definition written :: "nat list \<Rightarrow> (nat \<Rightarrow> block) \<Rightarrow> nat \<Rightarrow> char list \<Rightarrow> (nat \<Rightarrow> block) \<Rightarrow> bool" where
  "written bs B0 off xs B \<longleftrightarrow> (\<forall>b. b \<notin> set bs \<longrightarrow> B b = B0 b) \<and> (\<forall>b \<in> set bs. length (B b) = 512) \<and>
     concat (map B bs) = splice_at (concat (map B0 bs)) off xs"

lemma written_nil: "\<forall>b \<in> set bs. length (B b) = 512 \<Longrightarrow> written bs B off [] B"
  by (simp add: written_def splice_at_def)

lemma written_step:
  assumes "written bs B0 off xs B" "k < length bs" "off + length xs = 512 * k + o'" "o' + length ys \<le> 512"
    "distinct bs" "length (concat (map B0 bs)) = 512 * length bs"
  shows "written bs B0 off (xs @ ys) (B(bs ! k := splice_at (B (bs ! k)) o' ys))"
proof -
  have W: "\<forall>b. b \<notin> set bs \<longrightarrow> B b = B0 b" "\<forall>b \<in> set bs. length (B b) = 512"
    "concat (map B bs) = splice_at (concat (map B0 bs)) off xs"
    using assms(1) by (auto simp: written_def)
  have "off + length xs + length ys \<le> length (concat (map B0 bs))"
    using assms(2-4,6) by simp
  from splice_splice_at [OF this] splice_blocks [OF assms(2) W(2) assms(4,5)]
  have "concat (map (B(bs ! k := splice_at (B (bs ! k)) o' ys)) bs) = splice_at (concat (map B0 bs)) off (xs @ ys)"
    using W(3) assms(3) by simp
  then show ?thesis unfolding written_def using W assms(2,4) by auto
qed

text \<open>The blocks written so far do not matter to what the loop relies on.\<close>

lemma written_readable:
  assumes "readable T B0 n" "written (data_blocks (B0 n)) B0 off xs B"
  shows "B n = B0 n" "readable T B n"
proof -
  show "B n = B0 n" using assms by (simp add: readable_def written_def)
  with assms(1) show "readable T B n" by (simp add: readable_def)
qed

lemma splice_full: "length b = length b' \<Longrightarrow> length xs = length b \<Longrightarrow> splice_at b 0 xs = splice_at b' 0 xs"
  by (simp add: splice_at_def)

lemma write_loop_done: "\<not> b1 \<le> b2 \<Longrightarrow> write_loop g b1 b2 n buf pos got t = Inr (got, tfs_unlock t)"
  by (simp add: write_loop.simps [of g b1])

lemma get_bytes_ok: "pos + n \<le> length b \<Longrightarrow> get_bytes b (int pos) n = Inr (slice b pos n)"
  by (simp add: get_bytes_def slice_def)

context block_device
begin

definition write_post :: "nat \<Rightarrow> ((nat \<Rightarrow> block) \<Rightarrow> bool) \<Rightarrow> int \<Rightarrow> int \<Rightarrow> int \<times> 'd tfs \<Rightarrow> bool" where
  "write_post T W l r0 = (\<lambda>(r, t). r = r0 \<and> mounted T t \<and> lock t = l \<and> W (blk (disk t)))"

text \<open>One block of a write: an optional read of the block, then the changed block.\<close>

lemma returns_write_block:
  assumes "mounted T t" "readable T (blk (disk t)) n" "buffer_inode t = blk (disk t) n"
    and k: "k < length (data_blocks (blk (disk t) n))" and fit: "o' + length xs \<le> 512"
    and full: "x < 512 \<or> o' = 0 \<and> length xs = 512"
    and post: "\<And>b d'. mounted T (t\<lparr>buffer_bat := b, disk := d'\<rparr>) \<Longrightarrow>
      blk d' = (blk (disk t))(data_blocks (blk (disk t) n) ! k :=
        splice_at (blk (disk t) (data_blocks (blk (disk t) n) ! k)) o' xs) \<Longrightarrow>
      returns P (f (t\<lparr>buffer_bat := b, disk := d'\<rparr>))"
  shows "returns (\<lambda>rt. returns P (or_fail err rt (\<lambda>t. bindE (write_part g (int k) o' xs t) (\<lambda>rt. or_fail err rt f))))
    (read_part g x (int k) t)"
proof -
  let ?B = "blk (disk t)" and ?b = "data_blocks (blk (disk t) n) ! k"
  obtain w where w: "inode_block t (int k) = Inr w" "unat w = ?b"
    using inode_block_eq [OF k assms(3)] readable_lengths(2) [OF assms(1,2)] by blast
  have w_T: "unat w < T" using w(2) assms(2) k by (simp add: readable_def)
  have part: "returns P (bindE (write_part g (int k) o' xs u) (\<lambda>rt. or_fail err rt f))"
    if u: "u = t\<lparr>buffer_bat := b, disk := d\<rparr>" "mounted T u" "blk d = ?B"
      "splice_at b o' xs = splice_at (?B ?b) o' xs" for u b d
  proof -
    have len: "length (splice_at b o' xs) = 512" using mountedD(3) [OF u(2)] u(1) fit by simp
    have i: "inode_block (u\<lparr>buffer_bat := splice_at (buffer_bat u) o' xs\<rparr>) (int k) = Inr w"
    proof -
      have "buffer_inode u = ?B n" using u(1) assms(3) by simp
      then show ?thesis
        using inode_block_eq [OF k, of "u\<lparr>buffer_bat := splice_at (buffer_bat u) o' xs\<rparr>"] w(2)
          readable_lengths(2) [OF assms(1,2)] by (metis tfs.select_convs(3) tfs.surjective tfs.update_convs(4) unsigned_word_eqI)
    qed
    have m: "mounted T (u\<lparr>buffer_bat := splice_at b o' xs\<rparr>)" using u(2) len by simp
    have "returns P (or_fail err (write_bat g w (u\<lparr>buffer_bat := splice_at b o' xs\<rparr>)) f)"
      by (rule returns_write(2) [OF m w_T]) (use u post w(2) in auto)
    with i u(1) show ?thesis by (simp add: write_part_def Let_def)
  qed
  show ?thesis
  proof (cases "x < 512")
    case True
    have "returns P (or_fail err (read_bat g w t) (\<lambda>t. bindE (write_part g (int k) o' xs t) (\<lambda>rt. or_fail err rt f)))"
      by (rule returns_read_bat [OF assms(1) w_T], rule part [OF refl]) (use w(2) in auto)
    with True w(1) show ?thesis by (simp add: read_part_def)
  next
    case False
    have "length (?B ?b) = 512" using readable_lengths(1) [OF assms(1,2)] k by simp
    then have "splice_at (buffer_bat t) o' xs = splice_at (?B ?b) o' xs"
      using False full mountedD(3) [OF assms(1)] by (auto intro: splice_full)
    from part [where u = t and b = "buffer_bat t" and d = "disk t"] this assms(1) False show ?thesis
      by (simp add: read_part_def or_fail_def)
  qed
qed

lemma write_loop_ok:
  assumes "mounted T t" "written (data_blocks (B0 n)) B0 offset (slice buf 0 got) (blk (disk t))"
    "lock t + 1 = l" "buffer_inode t = B0 n" "readable T B0 n"
    and "length (concat (map B0 (data_blocks (B0 n)))) = 512 * length (data_blocks (B0 n))"
    and "offset + m \<le> unat (filesize (B0 n))" "m \<le> length buf"
    and "512 * k2 < offset + m" "offset + m \<le> 512 * Suc k2" "got \<le> m"
    and "k \<le> k2 \<and> offset + got = 512 * k \<or> k = Suc k2 \<and> got = m"
  shows "returns (write_post T (written (data_blocks (B0 n)) B0 offset (slice buf 0 m)) l (int m))
    (write_loop g (int k) (int k2) (int m) buf (int got) (int got) t)"
  using assms(1-4,11,12)
proof (induction "Suc k2 - k" arbitrary: k got t)
  case 0
  then have "k = Suc k2" "got = m" by auto
  with 0 show ?case by (simp add: write_loop_done write_post_def)
next
  case (Suc x)
  let ?bs = "data_blocks (B0 n)"
  have k: "k \<le> k2" "offset + got = 512 * k" using Suc.hyps(2) Suc.prems(6) by auto
  note wr = written_readable [OF assms(5) Suc.prems(2)]
  define part where "part = (if k = k2 then m - got else 512)"
  have part: "0 < part" "part \<le> 512" "got + part \<le> m"
    using assms(9,10) k Suc.prems(5) unfolding part_def by (auto split: if_splits)
  have "512 * k < 512 * length ?bs" using part k(2) assms(5,7) by (auto simp: readable_def)
  then have k': "k < length ?bs" by simp
  have gb: "get_bytes buf (int got) part = Inr (slice buf got part)" using part(3) assms(8) by (simp add: get_bytes_ok)
  have len: "length (slice buf got part) = part" "length (slice buf 0 got) = got"
    using part(3) assms(8) Suc.prems(5) by simp_all
  have next': "Suc k \<le> k2 \<and> offset + (got + part) = 512 * Suc k \<or> Suc k = Suc k2 \<and> got + part = m"
    using k part by (auto simp: part_def)
  have W: "written ?bs B0 offset (slice buf 0 (got + part))
      ((blk (disk t))(?bs ! k := splice_at (blk (disk t) (?bs ! k)) 0 (slice buf got part)))"
    using written_step [OF Suc.prems(2) k', of 0 "slice buf got part"] k(2) len part(2) assms(5,6)
    by (simp add: slice_append_same readable_def)
  have step: "returns (write_post T (written ?bs B0 offset (slice buf 0 m)) l (int m))
    (write_loop g (int (Suc k)) (int k2) (int m) buf (int (got + part)) (int (got + part)) (t\<lparr>buffer_bat := b, disk := d'\<rparr>))"
    if "mounted T (t\<lparr>buffer_bat := b, disk := d'\<rparr>)"
      "blk d' = (blk (disk t))(?bs ! k := splice_at (blk (disk t) (?bs ! k)) 0 (slice buf got part))" for b d'
    by (rule Suc.hyps(1)) (use Suc.hyps(2) Suc.prems that part(3) next' W in simp_all)
  have fl: "int part < 512 \<or> 0 = (0::nat) \<and> length (slice buf got part) = 512" using len part(2) by auto
  have blk': "buffer_inode t = blk (disk t) n" using Suc.prems(4) wr(1) by simp
  note block = returns_write_block [OF Suc.prems(1) wr(2) blk', unfolded wr(1), OF k']
  have fit: "0 + length (slice buf got part) \<le> 512" using len part(2) by simp
  show ?case
  proof (cases "k = k2")
    case True
    then have pm: "int m - int got = int part" "int m = int (got + part)"
      using Suc.prems(5) by (simp_all add: part_def of_nat_diff)
    have "returns (\<lambda>rt. returns (write_post T (written ?bs B0 offset (slice buf 0 m)) l (int m)) (or_fail tfs_error rt (\<lambda>t.
        bindE (write_part g (int k) 0 (slice buf got part) t) (\<lambda>rt. or_fail tfs_error rt
          (write_loop g (int k + 1) (int k2) (int m) buf (int got) (int m)))))) (read_part g (int part) (int k) t)"
      by (rule block [OF fit fl]) (use step pm True in \<open>auto simp: write_loop_done\<close>)
    with True gb show ?thesis unfolding write_loop.simps [of g "int k"] by (simp add: pm(1))
  next
    case False
    then have p: "part = 512" by (simp add: part_def)
    have "returns (\<lambda>rt. returns (write_post T (written ?bs B0 offset (slice buf 0 m)) l (int m)) (or_fail tfs_error rt (\<lambda>t.
        bindE (write_part g (int k) 0 (slice buf got part) t) (\<lambda>rt. or_fail tfs_error rt
          (write_loop g (int k + 1) (int k2) (int m) buf (int got + 512) (int got + 512)))))) (read_part g 512 (int k) t)"
      by (rule block [OF fit]) (use step p len in \<open>auto simp: ac_simps\<close>)
    with False gb k(1) p show ?thesis
      unfolding write_loop.simps [of g "int k"] by (simp add: read_part_def or_fail_def)
  qed
qed

lemma write_ok:
  assumes "mounted T t" "lock t = 1" "readable T (blk (disk t)) n" "unat (filesize (blk (disk t) n)) < 2 ^ 31"
    and "offset \<le> unat (filesize (blk (disk t) n))" "m = min datasize (unat (filesize (blk (disk t) n)) - offset)"
    and "m \<le> length buf"
  shows "returns (write_post T (written (data_blocks (blk (disk t) n)) (blk (disk t)) offset (slice buf 0 m)) 1 (int m))
    (tfs_write g (int n) buf (int datasize) (int offset) t)"
proof -
  let ?B = "blk (disk t)" and ?bs = "data_blocks (blk (disk t) n)"
  let ?size = "unat (filesize (?B n))"
  let ?Q = "write_post T (written ?bs ?B offset (slice buf 0 m)) 1 (int m)"
  have n: "n < T" "2 < n" "unat (word_of_nat n :: uint32) = n"
    using assms(3) mountedD(9) [OF assms(1)] by (auto simp: readable_def unat_of_nat_small)
  have sz: "sint (filesize (?B n)) = int ?size" using assms(4) by (simp add: sint_small)
  have up: "offset + m \<le> ?size" using assms(5,6) by linarith
  have mi: "min (int datasize) (int ?size - int offset) = int m" using assms(5,6) by (simp only: of_nat_min of_nat_diff)
  have lens: "length (concat (map ?B ?bs)) = 512 * length ?bs" by (rule length_blocks [OF readable_lengths(1) [OF assms(1,3)]])
  have "returns ?Q (if int m = 0 then Inr (0, tfs_unlock u)
    else let b1 = int offset sdiv 512; b2 = (int offset + int m - 1) sdiv 512; off = int offset smod 512;
             written = min (512 - off) (int m)
         in bindE (read_part g written b1 u) (\<lambda>rt. or_fail tfs_error rt (\<lambda>t.
            bindE (get_bytes buf 0 (nat written)) (\<lambda>bs.
            bindE (write_part g b1 (nat off) bs t) (\<lambda>rt. or_fail tfs_error rt (\<lambda>t.
            write_loop g (b1 + 1) b2 (int m) buf written written t))))))"
    if u: "mounted T u" "blk (disk u) = ?B" "lock u = 0" "buffer_inode u = ?B n" for u
  proof (cases "m = 0")
    case True
    with u readable_lengths(1) [OF assms(1,3)] show ?thesis by (simp add: write_post_def slice_def written_nil)
  next
    case False
    then have "0 < m" by simp
    then obtain k o' k2 got where off: "offset = 512 * k + o'"
      and e: "512 * k2 < offset + m" "offset + m \<le> 512 * Suc k2"
      and sd: "int offset sdiv 512 = int k" "(int offset + int m - 1) sdiv 512 = int k2" "int offset smod 512 = int o'"
      and got: "0 < got" "o' + got \<le> 512" "got \<le> m" "min (512 - int o') (int m) = int got"
      and nx: "Suc k \<le> k2 \<and> offset + got = 512 * Suc k \<or> Suc k = Suc k2 \<and> got = m"
      by (rule first_part)
    have rd: "readable T (blk (disk u)) n" "buffer_inode u = blk (disk u) n" using assms(3) u by simp_all
    have "512 * k < 512 * length ?bs" using up got(1,3) off assms(3) by (auto simp: readable_def)
    then have k': "k < length ?bs" by simp
    have len: "length (slice buf 0 got) = got" using got(3) assms(7) by simp
    have W: "written ?bs ?B offset (slice buf 0 got) (?B(?bs ! k := splice_at (?B (?bs ! k)) o' (slice buf 0 got)))"
      using written_step [OF written_nil [OF readable_lengths(1) [OF assms(1,3)], of offset] k', of o' "slice buf 0 got"]
        off got(2) len assms(3) lens by (simp add: readable_def)
    have loop: "returns ?Q (write_loop g (int (Suc k)) (int k2) (int m) buf (int got) (int got) (u\<lparr>buffer_bat := b, disk := d'\<rparr>))"
      if "mounted T (u\<lparr>buffer_bat := b, disk := d'\<rparr>)"
        "blk d' = ?B(?bs ! k := splice_at (?B (?bs ! k)) o' (slice buf 0 got))" for b d'
      by (rule write_loop_ok) (use that u assms(3,7) up lens e got nx W in auto)
    have gb: "get_bytes buf 0 got = Inr (slice buf 0 got)" using get_bytes_ok [of 0 got buf] got(3) assms(7) by simp
    have fit: "o' + length (slice buf 0 got) \<le> 512" using got(2) len by simp
    have fl: "int got < 512 \<or> o' = 0 \<and> length (slice buf 0 got) = 512" using got(1,2) len by auto
    have suc: "int k + 1 = int (Suc k)" by simp
    have "returns (\<lambda>rt. returns ?Q (or_fail tfs_error rt (\<lambda>t. bindE (write_part g (int k) o' (slice buf 0 got) t) (\<lambda>rt.
        or_fail tfs_error rt (write_loop g (int (Suc k)) (int k2) (int m) buf (int got) (int got))))))
      (read_part g (int got) (int k) u)"
      by (rule returns_write_block [OF u(1) rd, unfolded u(2), OF k' fit fl], rule loop)
    with False gb show ?thesis unfolding sd got(4) Let_def suc by simp
  qed
  note main = this
  show ?thesis
    unfolding tfs_write_def tfs_lock_def Let_def
    using assms(1,2,5) n mountedD(8) [OF assms(1)] sz mi main [unfolded Let_def]
    by (auto intro!: returns_read_inode)
qed

end

subsection \<open>The effect on the volume\<close>

text \<open>Volumes that agree on the system blocks, the inodes and the used data blocks.\<close>

lemma volume_ok_cong:
  assumes "volume_ok T B" "B' 1 = B 1" "B' 2 = B 2"
    and "\<And>i. entry_used B i \<Longrightarrow> B' (entry_inode B i) = B (entry_inode B i)"
  shows "volume_ok T B'"
proof -
  have u: "used B' = used B" "entry_used B' = entry_used B" "entry_inode B' = entry_inode B"
    using assms(2,3) by (auto simp: used_def entry_used_def entry_inode_def fun_eq_iff)
  have b: "entry_blocks B' i = entry_blocks B i" if "entry_used B i" for i
    using assms(4) [OF that] by (simp add: entry_blocks_def u(3))
  have f: "file_ok T B' i" if "entry_used B i" for i
    using volume_okD(7) [OF assms(1) that] assms(4) [OF that] b [OF that] by (simp add: file_ok_def u)
  show ?thesis
    using assms(1) f b unfolding volume_ok_def u assms(2,3) by metis
qed

lemma files_cong:
  assumes "B' 2 = B 2" "\<And>i. dir_find (B 2) name = Some i \<Longrightarrow> file_at B' (entry_inode B i) = file_at B (entry_inode B i)"
  shows "files B' name = files B name"
  using assms by (cases "dir_find (B 2) name") (auto simp: files_def entry_inode_def)

lemma written_file:
  assumes "readable T B n" "written (data_blocks (B n)) B off xs B'" "off + length xs \<le> unat (filesize (B n))"
    "\<And>b. b < T \<Longrightarrow> length (B b) = 512"
  shows "file_at B' n = splice_at (file_at B n) off xs"
proof -
  have n: "B' n = B n" by (rule written_readable [OF assms(1,2)])
  have "length (concat (map B (data_blocks (B n)))) = 512 * length (data_blocks (B n))"
    using assms(1,4) by (intro length_blocks) (auto simp: readable_def)
  then have "take (unat (filesize (B n))) (splice_at (concat (map B (data_blocks (B n)))) off xs) =
      splice_at (take (unat (filesize (B n))) (concat (map B (data_blocks (B n))))) off xs"
    using assms(1,3) by (intro take_splice) (auto simp: readable_def)
  then show ?thesis
    using assms(2) by (simp add: file_at_def n written_def)
qed

lemma written_volume:
  assumes "volume_ok T B" "entry_used B i" "written (data_blocks (B (entry_inode B i))) B off xs B'"
    "off + length xs \<le> unat (filesize (B (entry_inode B i)))" "\<And>b. b < T \<Longrightarrow> length (B b) = 512"
  shows "volume_ok T B'"
    "files B' = (files B)(md_name (B 2) i \<mapsto> splice_at (file_at B (entry_inode B i)) off xs)"
proof -
  let ?bs = "data_blocks (B (entry_inode B i))"
  have same: "B' b = B b" if "b \<notin> set ?bs" for b using assms(3) that by (simp add: written_def)
  have ge: "\<forall>b \<in> set ?bs. 3 \<le> b" "entry_inode B i \<notin> set ?bs"
    using volume_okD(7) [OF assms(1,2)] by (auto simp: file_ok_def entry_blocks_def)
  have others: "b \<notin> set ?bs" if "entry_used B j" "j \<noteq> i" "b \<in> set (entry_blocks B j)" for b j
    using volume_okD(8) [OF assms(1) that(1) assms(2) that(2)] that(3) by (auto simp: entry_blocks_def)
  have sys: "B' 1 = B 1" "B' 2 = B 2" using ge(1) by (auto intro!: same)
  have ino: "B' (entry_inode B j) = B (entry_inode B j)" if "entry_used B j" for j
    using ge(2) others [OF that, of "entry_inode B j"] by (cases "j = i") (auto intro!: same simp: entry_blocks_def)
  show "volume_ok T B'" by (rule volume_ok_cong [OF assms(1) sys ino])
  show "files B' = (files B)(md_name (B 2) i \<mapsto> splice_at (file_at B (entry_inode B i)) off xs)"
  proof
    fix name
    show "files B' name = ((files B)(md_name (B 2) i \<mapsto> splice_at (file_at B (entry_inode B i)) off xs)) name"
    proof (cases "name = md_name (B 2) i")
      case True
      have "entry_used B' i" "dir_ok (B' 2)" "entry_inode B' i = entry_inode B i"
        using assms(2) sys(2) volume_okD(3) [OF assms(1)] by (simp_all add: entry_used_def entry_inode_def)
      with True show ?thesis
        using files_eqI [of B' i name] written_file [OF file_readable [OF assms(1,2)] assms(3,4,5)] sys(2) by simp
    next
      case False
      have "file_at B' (entry_inode B j) = file_at B (entry_inode B j)" if "dir_find (B 2) name = Some j" for j
      proof (rule file_at_cong)
        have j: "entry_used B j" "j \<noteq> i"
          using that False dir_find_Some [OF volume_okD(3) [OF assms(1)], of name j] by (auto simp: entry_used_def)
        fix b assume "b \<in> set (entry_inode B j # data_blocks (B (entry_inode B j)))"
        then show "B' b = B b" using others [OF j] same by (simp add: entry_blocks_def)
      qed
      with False show ?thesis using files_cong [of B' B name] sys(2) by simp
    qed
  qed
qed

end
