(* ===== verification/File_Dir.thy ===== *)
theory File_Dir
  imports File_Data
begin

text \<open>
  Creating and removing files: the changes of the directory, the allocation bitmap and the inodes,
  and what they mean for the map from names to contents.
\<close>

subsection \<open>Changing one directory entry\<close>

definition same_entries :: "block \<Rightarrow> block \<Rightarrow> nat \<Rightarrow> bool" where
  "same_entries md md' i \<longleftrightarrow> length md' = 512 \<and> (\<forall>j < 25. j \<noteq> i \<longrightarrow> slice md' (20 * j) 20 = slice md (20 * j) 20)"

lemma slice_slice: "off + n \<le> m \<Longrightarrow> slice (slice b p m) off n = slice b (p + off) n"
  by (simp add: slice_def drop_take min_def add.commute)

lemma entry_fields:
  "get32 md (20 * j) = dec32 (slice (slice md (20 * j) 20) 0 4)" "name_field md j = slice (slice md (20 * j) 20) 4 16"
  by (simp_all add: get32_def name_field_def slice_slice)

lemma same_entriesD:
  assumes "same_entries md md' i" "dir_ok md" "j < 25" "j \<noteq> i"
  shows "md_inode md' j = md_inode md j" "name_field md' j = name_field md j" "md_name md' j = md_name md j"
proof -
  have "slice md' (20 * j) 20 = slice md (20 * j) 20" using assms by (simp add: same_entries_def)
  then show "md_inode md' j = md_inode md j" and n: "name_field md' j = name_field md j"
    by (simp_all add: md_inode_def entry_fields)
  have N: "NUL \<in> set (name_field md j)" using dir_okD(2) [OF assms(2,3)] .
  with n show "md_name md' j = md_name md j" by (simp add: md_name_field)
qed

lemma dir_ok_change:
  assumes "dir_ok md" "same_entries md md' i" "i < 25" "NUL \<in> set (name_field md' i)"
    and "md_inode md' i = 0 \<longleftrightarrow> md_name md' i = []"
    and "\<And>j. j < 25 \<Longrightarrow> j \<noteq> i \<Longrightarrow> md_inode md' i \<noteq> 0 \<Longrightarrow> md_name md j \<noteq> md_name md' i"
  shows "dir_ok md'"
proof -
  note same = same_entriesD [OF assms(2,1)]
  have f: "NUL \<in> set (name_field md' j) \<and> (md_inode md' j = 0 \<longleftrightarrow> md_name md' j = [])" if "j < 25" for j
    using assms(4,5) same [OF that] dir_okD(2,4) [OF assms(1) that] by (cases "j = i") auto
  have d: "md_name md' j \<noteq> md_name md' k" if "j < 25" "k < 25" "j \<noteq> k" "md_inode md' j \<noteq> 0" for j k
  proof (cases "j = i \<or> k = i")
    case False
    then show ?thesis using same [OF that(1)] same [OF that(2)] dir_okD(5) [OF assms(1) that(1,2,3)] that(4) by auto
  next
    case True
    then show ?thesis
      using that same [of j] same [of k] assms(5) assms(6) [of j] assms(6) [of k] f [of j] by metis
  qed
  show ?thesis using f d assms(2) unfolding dir_ok_def same_entries_def by blast
qed

lemma same_entries_splice:
  assumes "same_entries md md1 i" "i < 25" "20 * i \<le> p" "p + length xs \<le> 20 * i + 20"
  shows "same_entries md (splice_at md1 p xs) i"
proof -
  have len: "length md1 = 512" using assms(1) by (simp add: same_entries_def)
  have "slice (splice_at md1 p xs) (20 * j) 20 = slice md1 (20 * j) 20" if "j < 25" "j \<noteq> i" for j
    using that assms(2-4) len by (intro slice_splice_apart) auto
  with assms(1) len assms(2,4) show ?thesis by (auto simp: same_entries_def)
qed

lemma same_entries_refl: "length md = 512 \<Longrightarrow> same_entries md md i"
  by (simp add: same_entries_def)

lemma update_splice: "p < length xs \<Longrightarrow> xs[p := v] = splice_at xs p [v]"
  by (simp add: splice_at_def upd_conv_take_nth_drop)

lemma entry_cleared:
  assumes "length md = 512" "i < 25"
  shows "same_entries md ((put32 md (20 * i) 0)[20 * i + 4 := NUL]) i" "md_inode ((put32 md (20 * i) 0)[20 * i + 4 := NUL]) i = 0"
    "NUL \<in> set (name_field ((put32 md (20 * i) 0)[20 * i + 4 := NUL]) i)" "md_name ((put32 md (20 * i) 0)[20 * i + 4 := NUL]) i = []"
    "length ((put32 md (20 * i) 0)[20 * i + 4 := NUL]) = 512"
proof -
  let ?md = "put32 md (20 * i) 0"
  have l: "length ?md = 512" "?md[20 * i + 4 := NUL] = splice_at ?md (20 * i + 4) [NUL]"
    using assms by (simp_all add: update_splice)
  have "same_entries md ?md i"
    unfolding put32_def using assms by (intro same_entries_splice same_entries_refl) simp_all
  then show "same_entries md (?md[20 * i + 4 := NUL]) i"
    unfolding l(2) using assms by (intro same_entries_splice) simp_all
  show "md_inode (?md[20 * i + 4 := NUL]) i = 0"
    unfolding l(2) md_inode_def get32_def using slice_splice_apart [of "20 * i + 4" "[NUL]" ?md "20 * i" 4] l assms
    by (simp flip: get32_def)
  have "name_field (?md[20 * i + 4 := NUL]) i ! 0 = NUL" "length (name_field (?md[20 * i + 4 := NUL]) i) = 16"
    using l(1) assms(2) by (simp_all add: name_field_def nth_slice)
  then obtain r where r: "name_field (?md[20 * i + 4 := NUL]) i = NUL # r"
    by (cases "name_field (?md[20 * i + 4 := NUL]) i") auto
  then show N: "NUL \<in> set (name_field (?md[20 * i + 4 := NUL]) i)" by simp
  show "md_name (?md[20 * i + 4 := NUL]) i = []"
    unfolding md_name_field [OF N] r by (simp add: cstring_def)
  show "length (?md[20 * i + 4 := NUL]) = 512" using l(1) by simp
qed

subsection \<open>Removing a file from a volume\<close>

lemma volume_remove:
  assumes "volume_ok T B" "entry_used B i"
    and "B' = B(1 := bat, 2 := md)" "length bat = 512"
    and bits: "\<And>p. bm_bit (words_of bat) p \<longleftrightarrow> used B p \<and> p \<notin> set (entry_blocks B i)"
    and md: "same_entries (B 2) md i" "md_inode md i = 0" "NUL \<in> set (name_field md i)" "md_name md i = []"
  shows "volume_ok T B'" "files B' = (files B)(md_name (B 2) i := None)"
proof -
  have i: "i < 25" using assms(2) by (simp add: entry_used_def)
  note same = same_entriesD [OF md(1) volume_okD(3) [OF assms(1)]]
  have eu: "entry_used B' j \<longleftrightarrow> entry_used B j \<and> j \<noteq> i" for j
    using same(1) [of j] md(2) assms(3) by (cases "j = i") (auto simp: entry_used_def)
  have ei: "entry_inode B' j = entry_inode B j" if "entry_used B' j" for j
    using same(1) [of j] that assms(3) eu [of j] by (simp add: entry_inode_def entry_used_def)
  have ge: "\<forall>b \<in> set (entry_blocks B j). 3 \<le> b" if "entry_used B j" for j
    using volume_okD(7) [OF assms(1) that] by (auto simp: file_ok_def)
  have Bb: "B' b = B b" if "3 \<le> b" for b using that assms(3) by simp
  have bl: "B' (entry_inode B j) = B (entry_inode B j)" "entry_blocks B' j = entry_blocks B j" if "entry_used B' j" for j
  proof -
    have "3 \<le> entry_inode B j" using ge [of j] that eu [of j] by (simp add: entry_blocks_def)
    then show "B' (entry_inode B j) = B (entry_inode B j)" by (rule Bb)
    then show "entry_blocks B' j = entry_blocks B j" by (simp add: entry_blocks_def ei [OF that])
  qed
  have us: "used B' p \<longleftrightarrow> used B p \<and> p \<notin> set (entry_blocks B i)" for p
    using bits assms(3) by (simp add: used_def)
  have fo: "file_ok T B' j" if "entry_used B' j" for j
    using volume_okD(7,8) [OF assms(1)] assms(2) that eu [of j] bl [OF that] ei [OF that]
    by (fastforce simp: file_ok_def us)
  have dir: "dir_ok (B' 2)"
    using dir_ok_change [OF volume_okD(3) [OF assms(1)] md(1) i md(3)] md(2,4) assms(3) by simp
  have sys: "used B' p" if "p < 3" for p
    using volume_okD(6) [OF assms(1) that] ge [OF assms(2)] that us [of p] by auto
  show "volume_ok T B'"
    unfolding volume_ok_def
    using volume_okD(1,2) [OF assms(1)] dir sys fo assms(3,4) volume_okD(8) [OF assms(1)] eu bl(2) by auto
  show "files B' = (files B)(md_name (B 2) i := None)"
  proof
    fix name
    have fc: "file_at B' (entry_inode B j) = file_at B (entry_inode B j)" if "entry_used B' j" for j
      using ge [of j] eu [of j] that by (intro file_at_cong Bb) (auto simp: entry_blocks_def)
    have df: "dir_find (B' 2) name = (if name = md_name (B 2) i then None else dir_find (B 2) name)"
    proof (cases "name = md_name (B 2) i")
      case True
      have "md_name (B' 2) j \<noteq> name" if "j < 25" "md_inode (B' 2) j \<noteq> 0" for j
        using eu [of j] that True same(3) [of j] assms(2,3) dir_okD(5) [OF volume_okD(3) [OF assms(1)] i, of j]
        by (auto simp: entry_used_def)
      with True show ?thesis using dir_find_None [OF dir, of name] by simp
    next
      case False
      have "dir_find (B' 2) name = Some j \<longleftrightarrow> dir_find (B 2) name = Some j" for j
        using dir_find_Some [OF dir, of name j] dir_find_Some [OF volume_okD(3) [OF assms(1)], of name j]
          eu [of j] same(3) [of j] False assms(3) by (auto simp: entry_used_def)
      with False show ?thesis by (metis option.exhaust)
    qed
    have "entry_used B' j" if "dir_find (B' 2) name = Some j" for j
      using that dir_find_Some [OF dir, of name j] by (simp add: entry_used_def)
    then show "files B' name = ((files B)(md_name (B 2) i := None)) name"
      using df fc ei by (auto simp: files_def map_option_case split: option.splits)
  qed
qed

subsection \<open>Freeing blocks\<close>

lemma data_blocks_end:
  assumes "length (data_blocks ino) < 127"
  shows "get32 ino (4 + 4 * length (data_blocks ino)) = 0"
proof -
  let ?xs = "map (\<lambda>k. unat (get32 ino (4 + 4 * k))) [0..<127]"
  let ?l = "length (takeWhile (\<lambda>b. b \<noteq> 0) ?xs)"
  have l: "?l < 127" using assms unfolding data_blocks_def .
  then have "\<not> ?xs ! ?l \<noteq> 0" by (intro nth_length_takeWhile) simp
  with l have "unat (get32 ino (4 + 4 * ?l)) = 0" by simp
  then show ?thesis unfolding data_blocks_def by (metis unat_0 word_unat_eq_iff)
qed

lemma inode_block_any:
  assumes "k \<le> 127" "length (buffer_inode t) = 512" "length (buffer_bat t) = 512"
  shows "\<exists>w. inode_block t (int k) = Inr w"
  using assms by (simp add: inode_block_def Let_def)

lemma inode_block_low:
  assumes "k < 127" "length (buffer_inode t) = 512"
  shows "inode_block t (int k) = Inr (get32 (buffer_inode t) (4 + 4 * k))"
  using assms by (simp add: inode_block_def get32_def slice_left)

lemma free_blocks_ok:
  assumes "length (buffer_inode t) = 512" "length (buffer_bat t) = 512" "k \<le> length (data_blocks (buffer_inode t))"
    and "\<forall>b \<in> set (data_blocks (buffer_inode t)). b < 4096"
  shows "\<exists>bat. free_blocks k t = Inr (t\<lparr>buffer_bat := bat\<rparr>) \<and> length bat = 512 \<and>
    (\<forall>p. bm_bit (words_of bat) p \<longleftrightarrow>
      bm_bit (words_of (buffer_bat t)) p \<and> p \<notin> set (drop k (data_blocks (buffer_inode t))))"
  using assms
proof (induction "length (data_blocks (buffer_inode t)) - k" arbitrary: k t)
  case 0
  let ?bs = "data_blocks (buffer_inode t)"
  have k: "k = length ?bs" using 0 by simp
  obtain w where w: "inode_block t (int k) = Inr w"
    using inode_block_any [of k t] 0 k data_blocks_length [of "buffer_inode t"] by auto
  have "w = 0" if "k < 127"
    using inode_block_low [OF that, of t] data_blocks_end [of "buffer_inode t"] w k that 0 by simp
  then have "free_blocks k t = Inr t" using w by (auto simp: free_blocks.simps [of k t])
  then show ?case using k "0.prems"(2) by (intro exI [of _ "buffer_bat t"]) simp
next
  case (Suc x)
  let ?bs = "data_blocks (buffer_inode t)" and ?w = "get32 (buffer_inode t) (4 + 4 * k)"
  have k: "k < length ?bs" "k < 127" using Suc.hyps(2) data_blocks_length [of "buffer_inode t"] by linarith+
  have b: "?bs ! k = unat ?w" "?w \<noteq> 0" "unat ?w < 4096"
    using data_blocks_nth [OF k(1)] nth_mem [OF k(1)] Suc.prems(4) by auto
  let ?bat = "bm_upd (words_of (buffer_bat t)) (unat ?w) False"
  have set: "bitmap_set (words_of (buffer_bat t)) (sint ?w) 0 = Inr ?bat"
    using bm.put_False [of "unat ?w" "words_of (buffer_bat t)"] b(3) Suc.prems(2) by (simp add: sint_small)
  let ?t = "t\<lparr>buffer_bat := bytes_of ?bat\<rparr>"
  have x: "x = length ?bs - Suc k" using Suc.hyps(2) by simp
  obtain bat where bat: "free_blocks (Suc k) ?t = Inr (?t\<lparr>buffer_bat := bat\<rparr>)" "length bat = 512"
    "\<forall>p. bm_bit (words_of bat) p \<longleftrightarrow> bm_bit ?bat p \<and> p \<notin> set (drop (Suc k) ?bs)"
    using Suc.hyps(1) [of ?t "Suc k"] x Suc.prems k(1) by auto
  have "free_blocks k t = Inr (t\<lparr>buffer_bat := bat\<rparr>)"
    using inode_block_low [OF k(2) Suc.prems(1)] b(2) k(2) set bat(1) by (simp add: free_blocks.simps [of k t])
  moreover have "bm_bit ?bat p \<longleftrightarrow> bm_bit (words_of (buffer_bat t)) p \<and> p \<noteq> ?bs ! k" for p
    using bm_bit_upd [of "unat ?w" "words_of (buffer_bat t)" False p] b Suc.prems(2) by auto
  moreover have "set (drop k ?bs) = insert (?bs ! k) (set (drop (Suc k) ?bs))"
    using Cons_nth_drop_Suc [OF k(1)] by (metis list.simps(15))
  ultimately show ?case using bat(2,3) by auto
qed

lemma returns_free_blocks:
  assumes "length (buffer_inode t) = 512" "length (buffer_bat t) = 512"
    "\<forall>b \<in> set (data_blocks (buffer_inode t)). b < 4096"
    and "\<And>bat. length bat = 512 \<Longrightarrow> \<forall>p. bm_bit (words_of bat) p \<longleftrightarrow>
        bm_bit (words_of (buffer_bat t)) p \<and> p \<notin> set (data_blocks (buffer_inode t)) \<Longrightarrow> P (t\<lparr>buffer_bat := bat\<rparr>)"
  shows "returns P (free_blocks 0 t)"
  using free_blocks_ok [of t 0] assms by (auto simp: returns_def)

context block_device
begin

definition dir_post :: "nat \<Rightarrow> int \<Rightarrow> (string \<Rightarrow> char list option) \<Rightarrow> int \<times> 'd tfs \<Rightarrow> bool" where
  "dir_post T r0 F = (\<lambda>(r, t). r = r0 \<and> mounted T t \<and> lock t = 1 \<and> volume_ok T (blk (disk t)) \<and> files (blk (disk t)) = F)"

lemma remove_missing:
  assumes "mounted T t" "lock t = 1" "volume_ok T (blk (disk t))" "file_name name" "files (blk (disk t)) name = None"
  shows "returns (dir_post T VFS_NOT_FOUND (files (blk (disk t)))) (tfs_remove g name t)"
proof -
  have "dir_find (blk (disk t) 2) name = None" using assms(5) by (simp add: files_def)
  with name_search [OF volume_okD(3) [OF assms(3)] assms(4)]
  have i: "first_from (\<lambda>i. stringcmp (md_name (blk (disk t) 2) i) name = 0) 0 25 = 25" by simp
  show ?thesis
    unfolding tfs_remove_def tfs_lock_def Let_def
    using assms i by (auto intro!: returns_read_md simp: system_blocks dir_post_def)
qed

lemma remove_ok:
  assumes "mounted T t" "lock t = 1" "volume_ok T (blk (disk t))" "file_name name" "files (blk (disk t)) name \<noteq> None"
  shows "returns (dir_post T VFS_OK ((files (blk (disk t)))(name := None))) (tfs_remove g name t)"
proof -
  let ?B = "blk (disk t)" and ?Q = "dir_post T VFS_OK ((files (blk (disk t)))(name := None))"
  obtain i where i: "dir_find (?B 2) name = Some i" using assms(5) by (auto simp: files_def)
  then have eu: "entry_used ?B i" "i < 25" "md_name (?B 2) i = name"
    using dir_find_Some [OF volume_okD(3) [OF assms(3)]] by (auto simp: entry_used_def)
  have fst: "first_from (\<lambda>i. stringcmp (md_name (?B 2) i) name = 0) 0 25 = i"
    using name_search [OF volume_okD(3) [OF assms(3)] assms(4)] i by simp
  let ?n = "md_inode (?B 2) i"
  have fo: "file_ok T ?B i" using volume_okD(7) [OF assms(3) eu(1)] .
  have n: "unat ?n < T" "3 \<le> unat ?n" "unat ?n = entry_inode ?B i"
    using fo by (auto simp: file_ok_def entry_blocks_def entry_inode_def)
  have T: "T \<le> 4096" using volume_okD(2) [OF assms(3)] .
  let ?bat = "bm_upd (words_of (?B 1)) (unat ?n) False"
  have set: "bitmap_set (words_of (?B 1)) (sint ?n) 0 = Inr ?bat"
    using bm.put_False [of "unat ?n" "words_of (?B 1)"] n(1) T volume_okD(4) [OF assms(3)] by (simp add: sint_small)
  let ?md = "(put32 (?B 2) (20 * i) 0)[20 * i + 4 := NUL]"
  have lmd: "length (?B 2) = 512" using volume_okD(5) [OF assms(3)] .
  have md: "same_entries (?B 2) ?md i" "md_inode ?md i = 0" "NUL \<in> set (name_field ?md i)" "md_name ?md i = []" "length ?md = 512"
    using entry_cleared [OF lmd eu(2)] by simp_all
  have final: "returns ?Q (or_fail tfs_error (write_bat g TFS_ALLOCATION_BLOCK u) (\<lambda>t.
        or_fail tfs_error (write_md g TFS_DIRECTORY_BLOCK t) (\<lambda>t. Inr (VFS_OK, tfs_unlock t))))"
    if u: "mounted T u" "lock u = 0" "blk (disk u) = ?B" "buffer_md u = ?md" "length (buffer_bat u) = 512"
      "\<forall>p. bm_bit (words_of (buffer_bat u)) p \<longleftrightarrow> bm_bit ?bat p \<and> p \<notin> set (data_blocks (?B (unat ?n)))" for u
  proof -
    have bits: "bm_bit (words_of (buffer_bat u)) p \<longleftrightarrow> used ?B p \<and> p \<notin> set (entry_blocks ?B i)" for p
      using u(6) bm_bit_upd [of "unat ?n" "words_of (?B 1)" False p] n T volume_okD(4) [OF assms(3)]
      by (auto simp: used_def entry_blocks_def)
    note V = volume_remove [OF assms(3) eu(1) refl u(5) bits md(1-4)]
    have "2 < T" "Suc 0 < T" using volume_okD(1) [OF assms(3)] by simp_all
    then show ?thesis
      using u V eu(3) by (auto intro!: returns_write simp: system_blocks dir_post_def)
  qed
  have bs: "\<forall>b \<in> set (data_blocks (?B (unat ?n))). b < 4096"
    using fo T n(3) by (auto simp: file_ok_def entry_blocks_def)
  have last: "returns ?Q (bindE (free_blocks 0 (u\<lparr>buffer_bat := bytes_of ?bat\<rparr>)) (\<lambda>t.
      or_fail tfs_error (write_bat g TFS_ALLOCATION_BLOCK (t\<lparr>buffer_md := (put32 (buffer_md t) (20 * i) 0)[20 * i + 4 := NUL]\<rparr>)) (\<lambda>t.
      or_fail tfs_error (write_md g TFS_DIRECTORY_BLOCK t) (\<lambda>t. Inr (VFS_OK, tfs_unlock t)))))"
    if u: "mounted T (u\<lparr>buffer_bat := ?B 1\<rparr>)" "lock u = 0" "blk (disk u) = ?B" "buffer_md u = ?B 2" "buffer_inode u = ?B (unat ?n)" for u
    unfolding returns_bind
  proof (rule returns_free_blocks)
    show "length (buffer_inode (u\<lparr>buffer_bat := bytes_of ?bat\<rparr>)) = 512" "length (buffer_bat (u\<lparr>buffer_bat := bytes_of ?bat\<rparr>)) = 512"
      using mountedD(4) [OF u(1)] volume_okD(4) [OF assms(3)] by simp_all
    show "\<forall>b \<in> set (data_blocks (buffer_inode (u\<lparr>buffer_bat := bytes_of ?bat\<rparr>))). b < 4096" using bs u(5) by simp
    fix bat
    assume bat: "length bat = 512" "\<forall>p. bm_bit (words_of bat) p \<longleftrightarrow>
        bm_bit (words_of (buffer_bat (u\<lparr>buffer_bat := bytes_of ?bat\<rparr>))) p \<and> p \<notin> set (data_blocks (buffer_inode (u\<lparr>buffer_bat := bytes_of ?bat\<rparr>)))"
    show "returns ?Q (or_fail tfs_error (write_bat g TFS_ALLOCATION_BLOCK (u\<lparr>buffer_bat := bytes_of ?bat, buffer_bat := bat,
        buffer_md := (put32 (buffer_md (u\<lparr>buffer_bat := bytes_of ?bat, buffer_bat := bat\<rparr>)) (20 * i) 0)[20 * i + 4 := NUL]\<rparr>)) (\<lambda>t.
        or_fail tfs_error (write_md g TFS_DIRECTORY_BLOCK t) (\<lambda>t. Inr (VFS_OK, tfs_unlock t))))"
      by (rule final) (use u bat md(5) in \<open>simp_all add: mounted_on_def\<close>)
  qed
  have "2 < T" "Suc 0 < T" using volume_okD(1) [OF assms(3)] by simp_all
  then show ?thesis
    unfolding tfs_remove_def tfs_lock_def Let_def
    using assms(1,2) eu(2) n(1)
    by (auto intro!: returns_read_md [where T = T] returns_read_bat [where T = T] returns_read_inode [where T = T]
        last [unfolded returns_bind One_nat_def] simp: system_blocks fst set [unfolded One_nat_def])
      (simp_all add: mounted_on_def)
qed

end

end
