(* ===== verification/File_Create.thy ===== *)
theory File_Create
  imports File_Dir
begin

text \<open>
  Creating a file: the search for free blocks, the new inode and directory entry, and the effect on
  the map from names to contents.
\<close>

subsection \<open>Allocation of the data blocks\<close>

definition free_count :: "block \<Rightarrow> nat \<Rightarrow> nat" where
  "free_count bat T = card (unset_below (bm_bit (words_of bat)) T)"

text \<open>
  \<open>alloc_result\<close>: the blocks \<open>ds\<close> were free, are now marked in the bitmap and recorded in the inode from
  position \<open>i\<close> on; the rest of the inode is as before.
\<close>

definition alloc_result :: "nat \<Rightarrow> nat \<Rightarrow> block \<Rightarrow> block \<Rightarrow> nat list \<Rightarrow> block \<Rightarrow> block \<Rightarrow> bool" where
  "alloc_result T i bat0 ino0 ds bat ino \<longleftrightarrow> distinct ds \<and>
     (\<forall>d \<in> set ds. d < T \<and> \<not> bm_bit (words_of bat0) d) \<and>
     (\<forall>p. bm_bit (words_of bat) p \<longleftrightarrow> bm_bit (words_of bat0) p \<or> p \<in> set ds) \<and>
     (\<forall>k < length ds. get32 ino (4 + 4 * (i + k)) = of_nat (ds ! k)) \<and>
     get32 ino 0 = get32 ino0 0 \<and> (\<forall>k < i. get32 ino (4 + 4 * k) = get32 ino0 (4 + 4 * k))"

lemma alloc_result_Cons:
  assumes "alloc_result T (Suc i) (bytes_of (bm_upd (words_of bat0) p True)) (put32 ino0 (4 + 4 * i) (of_nat p)) ds bat ino"
    and "p < T" "T \<le> 4096" "\<not> bm_bit (words_of bat0) p" "length bat0 = 512" "length ino0 = 512" "i < 127"
  shows "alloc_result T i bat0 ino0 (p # ds) bat ino"
proof -
  have b: "bm_bit (bm_upd (words_of bat0) p True) q \<longleftrightarrow> bm_bit (words_of bat0) q \<or> q = p" for q
    using bm_bit_upd [of p "words_of bat0" True q] assms(2,3,5) by auto
  have g: "get32 (put32 ino0 (4 + 4 * i) (of_nat p)) (4 + 4 * i) = of_nat p"
    "get32 (put32 ino0 (4 + 4 * i) (of_nat p)) 0 = get32 ino0 0"
    "k < i \<Longrightarrow> get32 (put32 ino0 (4 + 4 * i) (of_nat p)) (4 + 4 * k) = get32 ino0 (4 + 4 * k)" for k
    using assms(6,7) by (simp_all add: get_put32_apart)
  have A: "distinct ds" "\<forall>d \<in> set ds. d < T \<and> \<not> (bm_bit (words_of bat0) d \<or> d = p)"
    "\<forall>q. bm_bit (words_of bat) q \<longleftrightarrow> (bm_bit (words_of bat0) q \<or> q = p) \<or> q \<in> set ds"
    "\<forall>k < length ds. get32 ino (4 + 4 * (Suc i + k)) = of_nat (ds ! k)"
    "get32 ino 0 = get32 ino0 0" "get32 ino (4 + 4 * i) = of_nat p"
    "\<And>k. k < i \<Longrightarrow> get32 ino (4 + 4 * k) = get32 ino0 (4 + 4 * k)"
    using assms(1) unfolding alloc_result_def words_bytes_of b g(2) by (simp_all add: g(1,3))
  have "get32 ino (4 + 4 * (i + k)) = of_nat ((p # ds) ! k)" if "k < length (p # ds)" for k
    using A(4,6) that by (cases k) auto
  with A assms(2,4) show ?thesis unfolding alloc_result_def by auto
qed

lemma alloc_blocks_ok:
  assumes "length (buffer_bat t) = 512" "length (buffer_inode t) = 512" "sint (totalblocks t) = int T" "T \<le> 4096"
    and "i \<le> n" "n \<le> 127"
  shows "\<exists>full bat ino. alloc_blocks i n t = Inr (full, t\<lparr>buffer_bat := bat, buffer_inode := ino\<rparr>) \<and>
    length bat = 512 \<and> length ino = 512 \<and> (full \<longleftrightarrow> free_count (buffer_bat t) T < n - i) \<and>
    (\<not> full \<longrightarrow> (\<exists>ds. length ds = n - i \<and> alloc_result T i (buffer_bat t) (buffer_inode t) ds bat ino))"
  using assms
proof (induction "n - i" arbitrary: i t)
  case 0
  then have "alloc_blocks i n t = Inr (False, t\<lparr>buffer_bat := buffer_bat t, buffer_inode := buffer_inode t\<rparr>)"
    unfolding alloc_blocks.simps [of i n t] by simp
  moreover have "alloc_result T i (buffer_bat t) (buffer_inode t) [] (buffer_bat t) (buffer_inode t)"
    by (simp add: alloc_result_def)
  ultimately show ?case using 0
    by (intro exI [of _ False] exI [of _ "buffer_bat t"] exI [of _ "buffer_inode t"]) (simp add: exI [of _ "[]"])
next
  case (Suc x)
  let ?ws = "words_of (buffer_bat t)"
  have i: "i < n" "x = n - Suc i" using Suc.hyps(2) by simp_all
  have cap: "T \<le> 32 * length ?ws" using Suc.prems(1,4) by simp
  show ?case
  proof (cases rule: bm.findnset_cases [OF cap, case_names none slot])
    case none
    then have "unset_below (bm_bit ?ws) T = {}" by (auto simp: unset_below_def)
    then have "free_count (buffer_bat t) T = 0" by (simp add: free_count_def)
    moreover have "alloc_blocks i n t = Inr (True, t\<lparr>buffer_bat := bytes_of ?ws,
        buffer_inode := put32 (buffer_inode t) (4 + 4 * i) (-1)\<rparr>)"
      using none(1) i(1) Suc.prems(3) by (simp add: alloc_blocks.simps [of i n t])
    ultimately show ?thesis using i Suc.prems
      by (intro exI [of _ True] exI [of _ "bytes_of ?ws"] exI [of _ "put32 (buffer_inode t) (4 + 4 * i) (-1)"]) simp
  next
    case (slot p)
    let ?t = "t\<lparr>buffer_bat := bytes_of (bm_upd ?ws p True), buffer_inode := put32 (buffer_inode t) (4 + 4 * i) (of_nat p)\<rparr>"
    have "alloc_blocks i n t = alloc_blocks (Suc i) n ?t"
      using slot(2) i(1) Suc.prems(3) by (simp add: alloc_blocks.simps [of i n t])
    moreover have "Suc (free_count (buffer_bat ?t) T) = free_count (buffer_bat t) T"
      using bm.free_mark_True [OF cap slot(1,3)] by (simp add: free_count_def)
    moreover obtain full bat ino where r: "alloc_blocks (Suc i) n ?t = Inr (full, ?t\<lparr>buffer_bat := bat, buffer_inode := ino\<rparr>)"
      "length bat = 512" "length ino = 512" "full \<longleftrightarrow> free_count (buffer_bat ?t) T < n - Suc i"
      "\<not> full \<longrightarrow> (\<exists>ds. length ds = n - Suc i \<and> alloc_result T (Suc i) (buffer_bat ?t) (buffer_inode ?t) ds bat ino)"
      using Suc.hyps(1) [of "Suc i" ?t] i Suc.prems by (auto simp del: tfs.update_convs)
    moreover have "\<exists>ds. length ds = n - i \<and> alloc_result T i (buffer_bat t) (buffer_inode t) ds bat ino" if nf: "\<not> full"
    proof -
      obtain ds where "length ds = n - Suc i" "alloc_result T (Suc i) (buffer_bat ?t) (buffer_inode ?t) ds bat ino"
        using r(5) nf by blast
      then have "alloc_result T i (buffer_bat t) (buffer_inode t) (p # ds) bat ino" "length (p # ds) = n - i"
        using alloc_result_Cons [of T i "buffer_bat t" p "buffer_inode t" ds bat ino] slot(1,3) i Suc.prems by simp_all
      then show ?thesis by blast
    qed
    ultimately show ?thesis using i(1) by (intro exI [of _ full] exI [of _ bat] exI [of _ ino]) auto
  qed
qed

subsection \<open>The new inode and the new directory entry\<close>

lemma clear_rest:
  assumes "n \<le> 127" "length b = 512"
  shows "length (for_range n 127 (\<lambda>i b. put32 b (4 + 4 * i) 0) b) = 512 \<and>
    get32 (for_range n 127 (\<lambda>i b. put32 b (4 + 4 * i) 0) b) 0 = get32 b 0 \<and>
    (\<forall>k < 127. get32 (for_range n 127 (\<lambda>i b. put32 b (4 + 4 * i) 0) b) (4 + 4 * k) =
      (if n \<le> k \<and> k < 127 then 0 else get32 b (4 + 4 * k)))"
proof (rule for_range_inv [where I = "\<lambda>m b'. length b' = 512 \<and> get32 b' 0 = get32 b 0 \<and>
      (\<forall>k < 127. get32 b' (4 + 4 * k) = (if n \<le> k \<and> k < m then 0 else get32 b (4 + 4 * k)))"])
  fix j b' assume j: "n \<le> j" "j < 127"
    and I: "length b' = 512 \<and> get32 b' 0 = get32 b 0 \<and>
      (\<forall>k < 127. get32 b' (4 + 4 * k) = (if n \<le> k \<and> k < j then 0 else get32 b (4 + 4 * k)))"
  have "get32 (put32 b' (4 + 4 * j) 0) (4 + 4 * k) = (if k = j then 0 else get32 b' (4 + 4 * k))" if "k < 127" for k
  proof (cases "k = j")
    case False
    have "get32 (put32 b' (4 + 4 * j) 0) (4 + 4 * k) = get32 b' (4 + 4 * k)"
      by (rule get_put32_apart) (use I j(2) that False in auto)
    with False show ?thesis by simp
  qed (use I that in simp)
  with I j show "length (put32 b' (4 + 4 * j) 0) = 512 \<and> get32 (put32 b' (4 + 4 * j) 0) 0 = get32 b 0 \<and>
      (\<forall>k < 127. get32 (put32 b' (4 + 4 * j) 0) (4 + 4 * k) = (if n \<le> k \<and> k < Suc j then 0 else get32 b (4 + 4 * k)))"
    by (auto simp: get_put32_apart)
qed (use assms in auto)

lemma data_blocks_eq:
  assumes "length ds \<le> 127" "\<And>k. k < length ds \<Longrightarrow> get32 ino (4 + 4 * k) = of_nat (ds ! k)"
    "\<And>k. length ds \<le> k \<Longrightarrow> k < 127 \<Longrightarrow> get32 ino (4 + 4 * k) = 0" "\<forall>d \<in> set ds. 0 < d \<and> d < 4096"
  shows "data_blocks ino = ds"
proof -
  have "map (\<lambda>k. unat (get32 ino (4 + 4 * k))) [0..<127] = ds @ replicate (127 - length ds) 0"
  proof (rule nth_equalityI)
    fix k assume "k < length (map (\<lambda>k. unat (get32 ino (4 + 4 * k))) [0..<127])"
    then have k: "k < 127" by simp
    show "map (\<lambda>k. unat (get32 ino (4 + 4 * k))) [0..<127] ! k = (ds @ replicate (127 - length ds) 0) ! k"
    proof (cases "k < length ds")
      case True
      then have "ds ! k < 4096" using assms(4) by simp
      with True k assms(2) show ?thesis by (simp add: nth_append unat_of_nat_small)
    next
      case False
      with k assms(1) assms(3) [of k] show ?thesis by (simp add: nth_append)
    qed
  qed (use assms(1) in simp)
  moreover have "takeWhile (\<lambda>b. b \<noteq> 0) (ds @ replicate m 0) = ds" for m
    using assms(4) by (cases m) (auto simp: takeWhile_append)
  ultimately show ?thesis unfolding data_blocks_def by simp
qed

lemma entry_filled:
  assumes "length md = 512" "i < 25" "file_name name" and md': "md' = put32 (splice_at md (20 * i + 4) (name @ [NUL])) (20 * i) w"
  shows "same_entries md md' i" "md_inode md' i = w" "NUL \<in> set (name_field md' i)" "md_name md' i = name" "length md' = 512"
proof -
  let ?md = "splice_at md (20 * i + 4) (name @ [NUL])"
  have n: "c_string name" "length name \<le> 15" using assms(3) by (auto simp: file_name_def)
  have l: "length ?md = 512" using assms(1,2) n(2) by simp
  have "same_entries md ?md i"
    using assms(1,2) n(2) by (intro same_entries_splice same_entries_refl) simp_all
  then show "same_entries md md' i"
    unfolding md' put32_def by (rule same_entries_splice) (use assms(2) in simp_all)
  show "md_inode md' i = w" using l assms(2) by (simp add: md' md_inode_def)
  have f: "name_field md' i = slice ?md (20 * i + 4) 16"
    unfolding md' name_field_def put32_def using l assms(2) by (intro slice_splice_apart) simp_all
  obtain r where r: "name_field md' i = name @ NUL # r"
    unfolding f slice_def splice_at_def using assms(1,2) n(2) by (simp add: take_Cons')
  then show N: "NUL \<in> set (name_field md' i)" by simp
  show "md_name md' i = name" unfolding md_name_field [OF N] r by (rule cstring_terminated [OF n(1)])
  show "length md' = 512" using l assms(2) by (simp add: md')
qed

subsection \<open>Adding a file to a volume\<close>

lemma volume_create:
  assumes "volume_ok T B" "i < 25" "md_inode (B 2) i = 0" "file_name name" "files B name = None"
    and md: "same_entries (B 2) md i" "md_inode md i = of_nat n" "NUL \<in> set (name_field md i)" "md_name md i = name"
    and new: "distinct (n # ds)" "\<forall>b \<in> set (n # ds). b < T \<and> \<not> used B b"
    and bits: "\<And>p. bm_bit (words_of bat) p \<longleftrightarrow> used B p \<or> p \<in> set (n # ds)" and len: "length bat = 512"
    and ino: "data_blocks ino = ds" "filesize ino = of_nat sz" "length ds = blocks_for sz" "sz < 2 ^ 31"
    and B': "B' = (\<lambda>b. if b \<in> set ds then replicate 512 NUL else (B(1 := bat, 2 := md, n := ino)) b)"
  shows "volume_ok T B'" "files B' = (files B)(name \<mapsto> replicate sz NUL)"
proof -
  have ge: "3 \<le> b" if "b \<in> set (n # ds)" for b
    using new(2) that volume_okD(6) [OF assms(1), of b] by force
  have n: "n < 4096" "3 \<le> n" "n \<notin> set ds" using new ge [of n] volume_okD(2) [OF assms(1)] by auto
  have sys: "B' 1 = bat" "B' 2 = md" "B' n = ino" using ge [of 1] ge [of 2] n by (auto simp: B')
  have old: "B' b = B b" if "b \<notin> set (n # ds)" "3 \<le> b" for b using that by (simp add: B')
  note same = same_entriesD [OF md(1) volume_okD(3) [OF assms(1)]]
  have nu: "unat (md_inode md i) = n" using n(1) md(2) by (simp add: unat_of_nat_small)
  then have "md_inode md i \<noteq> 0" using n(2) by auto
  note nz = this nu
  have eu: "entry_used B' j \<longleftrightarrow> entry_used B j \<or> j = i" for j
    using same(1) [of j] nz(1) assms(2) sys by (cases "j = i") (auto simp: entry_used_def)
  have ni: "\<not> entry_used B i" using assms(3) by (simp add: entry_used_def)
  have ob: "b \<notin> set (n # ds)" "3 \<le> b" if "entry_used B j" "b \<in> set (entry_blocks B j)" for b j
    using volume_okD(7) [OF assms(1) that(1)] that(2) new(2) by (auto simp: file_ok_def)
  have ei: "entry_inode B' j = entry_inode B j" if "entry_used B j" for j
    using same(1) [of j] that sys ni by (cases "j = i") (auto simp: entry_inode_def entry_used_def)
  have bi: "B' (entry_inode B j) = B (entry_inode B j)" if "entry_used B j" for j
    using ob [OF that, of "entry_inode B j"] by (intro old) (simp_all add: entry_blocks_def)
  have bl: "entry_blocks B' j = entry_blocks B j" if "entry_used B j" for j
    using bi [OF that] ei [OF that] by (simp add: entry_blocks_def)
  have eb: "entry_blocks B' i = n # ds" "entry_inode B' i = n"
    using sys nz(2) ino(1) by (simp_all add: entry_blocks_def entry_inode_def)
  have us: "used B' p \<longleftrightarrow> used B p \<or> p \<in> set (n # ds)" for p using bits sys by (simp add: used_def)
  have fsz: "unat (filesize ino) = sz" using ino(2,4) by (simp add: unat_of_nat_small)
  have fo: "file_ok T B' j" if "entry_used B' j" for j
  proof (cases "j = i")
    case True
    show ?thesis unfolding True file_ok_def eb us using sys ino(1,3) fsz new ge by auto
  next
    case False
    then have "entry_used B j" using that eu by simp
    then show ?thesis using volume_okD(7) [OF assms(1), of j] bi bl ei by (auto simp: file_ok_def us)
  qed
  have nm: "md_name (B 2) j \<noteq> name" if "j < 25" for j
    using assms(4,5) that dir_okD(4) [OF volume_okD(3) [OF assms(1)] that] dir_find_None [OF volume_okD(3) [OF assms(1)], of name]
    by (auto simp: files_def file_name_def)
  have dir: "dir_ok (B' 2)"
    using dir_ok_change [OF volume_okD(3) [OF assms(1)] md(1) assms(2) md(3)] nz md(4) nm assms(4) sys
    by (auto simp: file_name_def)
  have apart: "set (n # ds) \<inter> set (entry_blocks B k) = {}" if "entry_used B k" for k
    using ob(1) [OF that] by (simp only: disjoint_iff) metis
  have dj: "set (entry_blocks B' j) \<inter> set (entry_blocks B' k) = {}" if jk: "entry_used B' j" "entry_used B' k" "j \<noteq> k" for j k
  proof (cases "j = i \<or> k = i")
    case True
    then consider "j = i" "entry_used B k" | "k = i" "entry_used B j"
      using jk eu [of j] eu [of k] by auto
    then show ?thesis
    proof cases
      case 1
      then show ?thesis using apart [OF 1(2)] bl [OF 1(2)] eb(1) by simp
    next
      case 2
      then show ?thesis using apart [OF 2(2)] bl [OF 2(2)] eb(1) by (simp add: Int_commute)
    qed
  next
    case False
    then have "entry_used B j" "entry_used B k" using jk eu by simp_all
    then show ?thesis using volume_okD(8) [OF assms(1) _ _ jk(3)] bl by simp
  qed
  show "volume_ok T B'"
    unfolding volume_ok_def using volume_okD(1,2) [OF assms(1)] volume_okD(6) [OF assms(1)] dir fo dj us sys len by auto
  show "files B' = (files B)(name \<mapsto> replicate sz NUL)"
  proof
    fix nm'
    show "files B' nm' = ((files B)(name \<mapsto> replicate sz NUL)) nm'"
    proof (cases "nm' = name")
      case True
      have "file_at B' n = replicate sz NUL"
      proof -
        have "map B' ds = map (\<lambda>_. replicate 512 NUL) ds" by (simp add: B')
        then have "concat (map B' ds) = replicate (512 * length ds) NUL"
          by (simp only:) (induction ds, simp_all add: replicate_add)
        moreover have "sz \<le> 512 * length ds" using ino(3) by (simp add: blocks_for_def)
        ultimately show ?thesis by (simp add: file_at_def sys ino(1) fsz)
      qed
      moreover have "entry_used B' i" using eu by simp
      ultimately show ?thesis using files_eqI [of B' i name] dir True sys md(4) eb(2) by simp
    next
      case False
      have df: "dir_find (B' 2) nm' = Some j \<longleftrightarrow> dir_find (B 2) nm' = Some j" for j
        using dir_find_Some [OF dir, of nm' j] dir_find_Some [OF volume_okD(3) [OF assms(1)], of nm' j]
          eu [of j] same(3) [of j] False md(4) sys(2) ni by (cases "j = i") (auto simp: entry_used_def)
      have "file_at B' (entry_inode B j) = file_at B (entry_inode B j)" if "entry_used B j" for j
        using ob [OF that] by (intro file_at_cong old) (auto simp: entry_blocks_def)
      moreover have "entry_used B j" if "dir_find (B 2) nm' = Some j" for j
        using that dir_find_Some [OF volume_okD(3) [OF assms(1)], of nm' j] by (simp add: entry_used_def)
      moreover have "dir_find (B' 2) nm' = dir_find (B 2) nm'" using df by (metis option.exhaust)
      ultimately show ?thesis using False ei by (cases "dir_find (B 2) nm'") (auto simp: files_def)
    qed
  qed
qed

subsection \<open>The whole operation\<close>

definition can_create :: "nat \<Rightarrow> (nat \<Rightarrow> block) \<Rightarrow> string \<Rightarrow> nat \<Rightarrow> bool" where
  "can_create T B name sz \<longleftrightarrow> blocks_for sz \<le> 127 \<and> files B name = None \<and>
     (\<exists>i < 25. md_inode (B 2) i = 0) \<and> blocks_for sz < free_count (B 1) T"

lemma numblocks:
  assumes "sz + 511 < 2 ^ 31"
  shows "unat (tfs_numblocks (int sz)) = blocks_for sz"
proof -
  have "wrap32 (int sz + 512 - 1) = int (sz + 511)"
    using assms wrap32_small [of "int (sz + 511)"] by (simp add: ac_simps)
  moreover have "int (sz + 511) sdiv 512 = int (blocks_for sz)"
    by (simp add: signed_divide_int_def sgn_if blocks_for_def zdiv_int)
  ultimately have "tfs_numblocks (int sz) = of_nat (blocks_for sz)" by (simp add: tfs_numblocks_def)
  moreover have "blocks_for sz < 2 ^ 32" using assms by (simp add: blocks_for_def)
  ultimately show ?thesis by (simp only: unat_of_nat_small)
qed

lemma name_written:
  assumes "length md = 512" "i < 25" "file_name name"
  shows "stringcopy (drop (20 * i + 4) md) name 16 = Inr (drop (20 * i + 4) (splice_at md (20 * i + 4) (name @ [NUL])))"
    "take (20 * i + 4) md @ drop (20 * i + 4) (splice_at md (20 * i + 4) (name @ [NUL])) = splice_at md (20 * i + 4) (name @ [NUL])"
proof -
  have n: "c_string name" "length name \<le> 15" using assms(3) by (auto simp: file_name_def)
  show "stringcopy (drop (20 * i + 4) md) name 16 = Inr (drop (20 * i + 4) (splice_at md (20 * i + 4) (name @ [NUL])))"
    unfolding stringcopy_def using stringcopy_from_eq [OF n(1) refl, of 0 16 "drop (20 * i + 4) md"] assms(1,2) n(2)
    by (simp add: splice_at_def ac_simps)
  show "take (20 * i + 4) md @ drop (20 * i + 4) (splice_at md (20 * i + 4) (name @ [NUL])) = splice_at md (20 * i + 4) (name @ [NUL])"
    using assms(1,2) by (simp add: splice_at_def)
qed

context block_device
begin

lemma zero_blocks_ok:
  assumes "mounted T t" "buffer_bat t = replicate 512 NUL" "data_blocks (buffer_inode t) = ds" "\<forall>d \<in> set ds. d < T" "i \<le> length ds"
  shows "returns (\<lambda>(r, t'). r = VFS_OK \<and> mounted T t' \<and> lock t' = lock t + 1 \<and>
      blk (disk t') = (\<lambda>b. if b \<in> set (drop i ds) then replicate 512 NUL else blk (disk t) b))
    (zero_blocks g i (length ds) t)"
  using assms
proof (induction "length ds - i" arbitrary: i t)
  case 0
  then have "\<not> i < length ds" by simp
  with 0 show ?case unfolding zero_blocks.simps [of g i] by simp
next
  case (Suc x)
  have i: "i < length ds" "x = length ds - Suc i" using Suc.hyps(2) by simp_all
  let ?w = "get32 (buffer_inode t) (4 + 4 * i)"
  have w: "unat ?w = ds ! i" "unat ?w < T"
    using data_blocks_nth(1) [of i "buffer_inode t"] i(1) Suc.prems(3,4) nth_mem [OF i(1)] by auto
  have drop: "set (drop i ds) = insert (ds ! i) (set (drop (Suc i) ds))"
    using Cons_nth_drop_Suc [OF i(1)] by (metis list.simps(15))
  have step: "returns (\<lambda>(r, t'). r = VFS_OK \<and> mounted T t' \<and> lock t' = lock t + 1 \<and>
      blk (disk t') = (\<lambda>b. if b \<in> set (drop i ds) then replicate 512 NUL else blk (disk t) b))
    (zero_blocks g (Suc i) (length ds) (t\<lparr>disk := d'\<rparr>))"
    if d': "mounted T (t\<lparr>disk := d'\<rparr>)" "blk d' = (blk (disk t))(unat ?w := buffer_bat t)" for d'
    by (rule returns_mono [OF Suc.hyps(1) [OF i(2)]])
      (use d' Suc.prems i(1) w(1) drop in \<open>auto simp: fun_eq_iff split: if_splits\<close>)
  show ?case unfolding zero_blocks.simps [of g i] by (simp add: i(1)) (rule returns_write(2) [OF Suc.prems(1) w(2)], rule step)
qed

lemma create_commit_ok:
  assumes "mounted T t" "lock t = 0" "unat (md_inode (buffer_md t) index) = n" "n < T"
    "data_blocks (buffer_inode t) = ds" "\<forall>d \<in> set ds. d < T"
  shows "returns (\<lambda>(r, t'). r = VFS_OK \<and> mounted T t' \<and> lock t' = 1 \<and> blk (disk t') =
      (\<lambda>b. if b \<in> set ds then replicate 512 NUL
        else ((blk (disk t))(1 := buffer_bat t, 2 := buffer_md t, n := buffer_inode t)) b))
    (create_commit g index (length ds) t)"
proof -
  have T: "Suc 0 < T" "2 < T" using mountedD(7) [OF assms(1)] by simp_all
  have z: "returns (\<lambda>(r, t'). r = VFS_OK \<and> mounted T t' \<and> lock t' = 1 \<and> blk (disk t') =
      (\<lambda>b. if b \<in> set ds then replicate 512 NUL
        else ((blk (disk t))(1 := buffer_bat t, 2 := buffer_md t, n := buffer_inode t)) b))
      (zero_blocks g 0 (length ds) (t\<lparr>disk := d, buffer_bat := replicate 512 NUL\<rparr>))"
    if "mounted T (t\<lparr>disk := d\<rparr>)" "blk d = (blk (disk t))(1 := buffer_bat t, 2 := buffer_md t, n := buffer_inode t)" for d
    by (rule returns_mono [OF zero_blocks_ok [of T _ ds 0]]) (use that assms in auto)
  show ?thesis
    unfolding create_commit_def
    using assms z by (auto intro!: returns_write [where T = T] simp: system_blocks T)
qed

text \<open>The blocks are found and everything is written.\<close>

lemma create_blocks_ok:
  assumes m: "mounted T t" "lock t = 0" "volume_ok T (blk (disk t))" "index < 25" "md_inode (blk (disk t) 2) index = 0"
    and nm: "file_name name" "files (blk (disk t)) name = None"
    and n: "n < T" "\<not> used (blk (disk t)) n" and sz: "blocks_for sz \<le> 127" "sz < 2 ^ 31"
    and bat0: "buffer_bat t = bytes_of (bm_upd (words_of (blk (disk t) 1)) n True)"
    and md: "buffer_md t = put32 (splice_at (blk (disk t) 2) (20 * index + 4) (name @ [NUL])) (20 * index) (of_nat n)"
    and ino0: "get32 (buffer_inode t) 0 = of_nat sz"
    and al: "length bat = 512" "length ino = 512" "length ds = blocks_for sz" "alloc_result T 0 (buffer_bat t) (buffer_inode t) ds bat ino"
  shows "returns (dir_post T VFS_OK ((files (blk (disk t)))(name \<mapsto> replicate sz NUL)))
    (create_commit g index (blocks_for sz) (t\<lparr>buffer_bat := bat,
      buffer_inode := for_range (blocks_for sz) 127 (\<lambda>i b. put32 b (4 + 4 * i) 0) ino\<rparr>))"
proof -
  let ?B = "blk (disk t)" and ?ino = "for_range (blocks_for sz) 127 (\<lambda>i b. put32 b (4 + 4 * i) 0) ino"
  let ?t = "t\<lparr>buffer_bat := bat, buffer_inode := ?ino\<rparr>"
  have T: "T \<le> 4096" "length (?B 1) = 512" "length (?B 2) = 512" using volume_okD(2,4,5) [OF m(3)] by simp_all
  note cl = clear_rest [OF sz(1) al(2)]
  have b0: "bm_bit (words_of (buffer_bat t)) p \<longleftrightarrow> used ?B p \<or> p = n" for p
    using bm_bit_upd [of n "words_of (?B 1)" True p] n(1) T by (auto simp: bat0 used_def)
  have A: "distinct ds" "\<forall>d \<in> set ds. d < T \<and> \<not> used ?B d \<and> d \<noteq> n"
    "\<And>p. bm_bit (words_of bat) p \<longleftrightarrow> used ?B p \<or> p \<in> set (n # ds)"
    "\<And>k. k < length ds \<Longrightarrow> get32 ino (4 + 4 * k) = of_nat (ds ! k)" "get32 ino 0 = of_nat sz"
    using al(4) ino0 by (auto simp: alloc_result_def b0)
  have pos: "\<forall>d \<in> set ds. 0 < d \<and> d < 4096"
    using A(2) volume_okD(6) [OF m(3), of 0] T(1) by (metis gr0I less_le_trans zero_less_numeral)
  have db: "data_blocks ?ino = ds"
    by (rule data_blocks_eq) (use al(3) sz(1) cl A(4) pos in auto)
  have fs: "filesize ?ino = of_nat sz" using cl A(5) by (simp add: filesize_def)
  note e = entry_filled [OF T(3) m(4) nm(1) md]
  have un: "unat (md_inode (buffer_md t) index) = n" using e(2) n(1) T(1) by (simp add: unat_of_nat_small)
  have mt: "mounted T ?t" using m(1) al(1) cl by (simp add: mounted_on_def)
  have ds: "\<forall>d \<in> set ds. d < T" using A(2) by blast
  have nd: "distinct (n # ds)" "\<forall>b \<in> set (n # ds). b < T \<and> \<not> used ?B b" using A(1,2) n by auto
  define B' where "B' = (\<lambda>b. if b \<in> set ds then replicate 512 NUL else (?B(1 := bat, 2 := buffer_md t, n := ?ino)) b)"
  note V = volume_create [OF m(3) m(4,5) nm e(1-4) nd A(3) al(1) db fs al(3) sz(2) B'_def]
  have "returns (\<lambda>(r, t'). r = VFS_OK \<and> mounted T t' \<and> lock t' = 1 \<and> blk (disk t') = B')
      (create_commit g index (length ds) ?t)"
    by (rule returns_mono [OF create_commit_ok [OF mt, of index n ds]])
      (use m(2) un n(1) db ds B'_def in auto)
  then show ?thesis
    unfolding al(3) by (rule returns_mono) (use V in \<open>auto simp: dir_post_def\<close>)
qed

text \<open>From the read of the bitmap on.\<close>

lemma create_alloc_ok:
  assumes m: "mounted T t" "lock t = 0" "volume_ok T (blk (disk t))" "index < 25" "md_inode (blk (disk t) 2) index = 0"
    and nm: "file_name name" "files (blk (disk t)) name = None" and sz: "blocks_for sz \<le> 127" "sz < 2 ^ 31"
    and md: "buffer_md t = splice_at (blk (disk t) 2) (20 * index + 4) (name @ [NUL])"
  shows "returns (if blocks_for sz < free_count (blk (disk t) 1) T
      then dir_post T VFS_OK ((files (blk (disk t)))(name \<mapsto> replicate sz NUL)) else dir_post T VFS_ERROR (files (blk (disk t))))
    (create_alloc g index (int sz) (blocks_for sz) t)"
    (is "returns ?Q _")
proof -
  let ?B = "blk (disk t)" and ?ws = "words_of (blk (disk t) 1)"
  have T: "T \<le> 4096" "length (?B 1) = 512" "Suc 0 < T" using volume_okD(1,2,4) [OF m(3)] by simp_all
  have cap: "T \<le> 32 * length ?ws" using T by simp
  have err: "returns ?Q (Inr (tfs_error u))" if "mounted T u" "lock u = 0" "blk (disk u) = ?B" "\<not> blocks_for sz < free_count (?B 1) T" for u
    using that m(3) by (simp add: dir_post_def)
  have "returns ?Q (bindE (bitmap_findnset ?ws (int T)) (\<lambda>(bat, ino).
     let t = t\<lparr>disk := d, buffer_bat := bytes_of bat, buffer_md := put32 (buffer_md t) (20 * index) (word_of_int ino)\<rparr>
     in if ino = -1 then Inr (tfs_error t)
        else let t = t\<lparr>buffer_inode := put32 (buffer_inode t) 0 (word_of_int (int sz))\<rparr>
          in bindE (alloc_blocks 0 (blocks_for sz) t) (\<lambda>(full, t).
             if full then Inr (tfs_error t)
             else let t = t\<lparr>buffer_inode := for_range (blocks_for sz) 127 (\<lambda>i b. put32 b (4 + 4 * i) 0) (buffer_inode t)\<rparr>
               in create_commit g index (blocks_for sz) t)))"
    if d: "mounted T (t\<lparr>disk := d\<rparr>)" "blk d = ?B" for d
  proof (cases rule: bm.findnset_cases [OF cap, case_names none slot])
    case none
    then have "free_count (?B 1) T = 0" by (auto simp: free_count_def unset_below_def)
    then show ?thesis
      using none(1) err [of "t\<lparr>disk := d, buffer_bat := bytes_of ?ws, buffer_md := put32 (buffer_md t) (20 * index) (-1)\<rparr>"]
        d m(2,4) T mountedD(2) [OF m(1)] by (simp add: mounted_on_def)
  next
    case (slot n)
    let ?t = "t\<lparr>disk := d, buffer_bat := bytes_of (bm_upd ?ws n True), buffer_md := put32 (buffer_md t) (20 * index) (of_nat n),
      buffer_inode := put32 (buffer_inode t) 0 (of_nat sz)\<rparr>"
    have mt: "mounted T ?t" using d(1) T m(4) by (simp add: mounted_on_def)
    have fc: "Suc (free_count (buffer_bat ?t) T) = free_count (?B 1) T"
      using bm.free_mark_True [OF cap slot(1,3)] by (simp add: free_count_def)
    obtain full bat ino where a: "alloc_blocks 0 (blocks_for sz) ?t = Inr (full, ?t\<lparr>buffer_bat := bat, buffer_inode := ino\<rparr>)"
      "length bat = 512" "length ino = 512" "full \<longleftrightarrow> free_count (buffer_bat ?t) T < blocks_for sz"
      "\<not> full \<longrightarrow> (\<exists>ds. length ds = blocks_for sz \<and> alloc_result T 0 (buffer_bat ?t) (buffer_inode ?t) ds bat ino)"
      using alloc_blocks_ok [of ?t T 0 "blocks_for sz"] mountedD [OF mt] sz(1) by auto
    have mf: "mounted T (?t\<lparr>buffer_bat := bat, buffer_inode := ino\<rparr>)" using mt a(2,3) by (simp add: mounted_on_def)
    show ?thesis
    proof (cases full)
      case True
      then have "\<not> blocks_for sz < free_count (?B 1) T" using a(4) fc by simp
      from err [OF mf _ _ this] slot(2) a(1) True m(2) d(2) show ?thesis by simp
    next
      case False
      then obtain ds where ds: "length ds = blocks_for sz" "alloc_result T 0 (buffer_bat ?t) (buffer_inode ?t) ds bat ino"
        using a(5) by blast
      have "blocks_for sz < free_count (?B 1) T" using a(4) fc False by simp
      moreover have "returns (dir_post T VFS_OK ((files (blk (disk ?t)))(name \<mapsto> replicate sz NUL)))
        (create_commit g index (blocks_for sz) (?t\<lparr>buffer_bat := bat,
          buffer_inode := for_range (blocks_for sz) 127 (\<lambda>i b. put32 b (4 + 4 * i) 0) ino\<rparr>))"
        by (rule create_blocks_ok [OF mt, of index name n sz bat ino ds])
          (use m nm sz slot md d ds a(2,3) mountedD(4) [OF m(1)] in \<open>simp_all add: used_def\<close>)
      ultimately show ?thesis using slot(2) a(1) False d(2) by simp
    qed
  qed
  note main = this
  show ?thesis
    unfolding create_alloc_def
  proof (rule returns_read_bat [OF m(1)])
    show "unat TFS_ALLOCATION_BLOCK < T" using T(3) by (simp add: system_blocks)
    fix d' assume d': "mounted T (t\<lparr>buffer_bat := ?B (unat TFS_ALLOCATION_BLOCK), disk := d'\<rparr>)" "blk d' = ?B"
    then have "mounted T (t\<lparr>disk := d'\<rparr>)" using m(1) by (simp add: mounted_on_def)
    from main [OF this d'(2)] mountedD(8) [OF m(1)]
    show "returns ?Q (bindE (bitmap_findnset (words_of (buffer_bat (t\<lparr>buffer_bat := ?B (unat TFS_ALLOCATION_BLOCK), disk := d'\<rparr>)))
        (sint (totalblocks (t\<lparr>buffer_bat := ?B (unat TFS_ALLOCATION_BLOCK), disk := d'\<rparr>)))) (\<lambda>(bat, ino).
      let t = t\<lparr>buffer_bat := ?B (unat TFS_ALLOCATION_BLOCK), disk := d', buffer_bat := bytes_of bat,
          buffer_md := put32 (buffer_md (t\<lparr>buffer_bat := ?B (unat TFS_ALLOCATION_BLOCK), disk := d'\<rparr>)) (20 * index) (word_of_int ino)\<rparr>
      in if ino = -1 then Inr (tfs_error t)
        else let t = t\<lparr>buffer_inode := put32 (buffer_inode t) 0 (word_of_int (int sz))\<rparr>
          in bindE (alloc_blocks 0 (blocks_for sz) t) (\<lambda>(full, t).
             if full then Inr (tfs_error t)
             else let t = t\<lparr>buffer_inode := for_range (blocks_for sz) 127 (\<lambda>i b. put32 b (4 + 4 * i) 0) (buffer_inode t)\<rparr>
               in create_commit g index (blocks_for sz) t)))"
      by (simp add: system_blocks)
  qed
qed

lemma create_ok:
  assumes "mounted T t" "lock t = 1" "volume_ok T (blk (disk t))" "file_name name" "sz + 511 < 2 ^ 31"
  shows "returns (if can_create T (blk (disk t)) name sz
      then dir_post T VFS_OK ((files (blk (disk t)))(name \<mapsto> replicate sz NUL)) else dir_post T VFS_ERROR (files (blk (disk t))))
    (tfs_create g name (int sz) t)"
    (is "returns ?Q _")
proof -
  let ?B = "blk (disk t)" and ?md = "blk (disk t) 2"
  have nb: "unat (tfs_numblocks (int sz)) = blocks_for sz" by (rule numblocks [OF assms(5)])
  have big: "tfs_numblocks (int sz) > 512 div 4 - 1 \<longleftrightarrow> \<not> blocks_for sz \<le> 127"
    using nb by (simp add: word_less_nat_alt not_le)
  have T: "2 < T" "length ?md = 512" using volume_okD(1,5) [OF assms(3)] by simp_all
  note dir = volume_okD(3) [OF assms(3)]
  have err: "returns ?Q (Inr (tfs_error u))" if "mounted T u" "lock u = 0" "blk (disk u) = ?B" "\<not> can_create T ?B name sz" for u
    using that assms(3) by (simp add: dir_post_def)
  have body: "returns ?Q (case create_scan (buffer_md u) name 0 (-1) of None \<Rightarrow> Inr (tfs_error u)
     | Some index \<Rightarrow> if index = -1 then Inr (tfs_error u)
         else let off = 20 * nat index + 4 in
           bindE (stringcopy (drop off (buffer_md u)) name 16) (\<lambda>b.
           create_alloc g (nat index) (int sz) (unat (tfs_numblocks (int sz))) (u\<lparr>buffer_md := take off (buffer_md u) @ b\<rparr>)))"
    if u: "mounted T u" "lock u = 0" "blk (disk u) = ?B" and md: "buffer_md u = ?md" and small: "blocks_for sz \<le> 127" for u
  proof (cases "files ?B name = None")
    case False
    then obtain j where "j < 25" "md_name ?md j = name"
      using dir_find_Some [OF dir, of name] by (auto simp: files_def)
    then have "create_scan ?md name 0 (-1) = None" by (intro create_scan_exists) auto
    moreover have "\<not> can_create T ?B name sz" using False by (simp add: can_create_def)
    ultimately show ?thesis using err [OF u] unfolding md nb by simp
  next
    case True
    have fresh: "md_name ?md j \<noteq> name" if "j < 25" for j
      using True assms(4) that dir_okD(4) [OF dir that] dir_find_None [OF dir, of name] by (auto simp: files_def file_name_def)
    then obtain k where k: "create_scan ?md name 0 (-1) = Some k"
      "k = -1 \<and> (\<forall>j < 25. md_inode ?md j \<noteq> 0) \<or> 0 \<le> k \<and> nat k < 25 \<and> md_inode ?md (nat k) = 0"
      using create_scan_fresh [of 0 ?md name "-1"] assms(4) by (auto simp: file_name_def)
    show ?thesis
    proof (cases "k = -1")
      case m: True
      then have "\<not> can_create T ?B name sz" using k(2) by (auto simp: can_create_def)
      with m k(1) err [OF u] show ?thesis unfolding md nb by simp
    next
      case False
      then have k2: "nat k < 25" "md_inode ?md (nat k) = 0" using k(2) by auto
      have can: "can_create T ?B name sz \<longleftrightarrow> blocks_for sz < free_count (?B 1) T"
        using small True k2 by (auto simp: can_create_def)
      note w = name_written [OF T(2) k2(1) assms(4)]
      let ?u = "u\<lparr>buffer_md := splice_at ?md (20 * nat k + 4) (name @ [NUL])\<rparr>"
      have n15: "length name \<le> 15" using assms(4) by (simp add: file_name_def)
      have "returns ?Q (create_alloc g (nat k) (int sz) (blocks_for sz) ?u)"
      proof -
        have "mounted T ?u" using u(1) k2(1) T(2) n15 by (simp add: mounted_on_def)
        moreover have "sz < 2 ^ 31" using assms(5) by simp
        ultimately show ?thesis
          using create_alloc_ok [of T ?u "nat k" name sz] u assms(3,4) k2 True small unfolding can
          by (simp split: if_splits)
      qed
      with k(1) False w show ?thesis unfolding md nb by (simp add: Let_def)
    qed
  qed
  show ?thesis
  proof (cases "blocks_for sz \<le> 127")
    case False
    then have "\<not> can_create T ?B name sz" by (simp add: can_create_def)
    from err [of "t\<lparr>lock := 0\<rparr>"] this False big assms(1,2) show ?thesis
      unfolding tfs_create_def tfs_lock_def by simp
  next
    case True
    have "returns ?Q (or_fail tfs_error (read_md g TFS_DIRECTORY_BLOCK (t\<lparr>lock := 0\<rparr>)) (\<lambda>t.
       case create_scan (buffer_md t) name 0 (-1) of None \<Rightarrow> Inr (tfs_error t)
     | Some index \<Rightarrow> if index = -1 then Inr (tfs_error t)
         else let off = 20 * nat index + 4 in
           bindE (stringcopy (drop off (buffer_md t)) name 16) (\<lambda>b.
           create_alloc g (nat index) (int sz) (unat (tfs_numblocks (int sz))) (t\<lparr>buffer_md := take off (buffer_md t) @ b\<rparr>))))"
      by (rule returns_read_md [where T = T], simp add: assms(1), simp add: system_blocks T(1), rule body)
        (simp_all add: system_blocks True)
    with True big assms(2) show ?thesis unfolding tfs_create_def tfs_lock_def by simp
  qed
qed

end

end
