(* ===== verification/Tfs_Spec.thy ===== *)
theory Tfs_Spec
  imports File_Create
begin

text \<open>
  The trivial file system as a map from names to contents: the statements about the operations of
  \<^verbatim>\<open>fs/tfs.c\<close> on a device that keeps the promise of the block device interface, and what they
  guarantee on a device that does not.
\<close>

definition file_id :: "(nat \<Rightarrow> block) \<Rightarrow> string \<Rightarrow> nat option" where
  "file_id B name = map_option (entry_inode B) (dir_find (B 2) name)"

text \<open>A volume that is mounted, well formed and not in use by another operation.\<close>

definition ready :: "('d \<Rightarrow> bool) \<Rightarrow> ('d \<Rightarrow> nat \<Rightarrow> block) \<Rightarrow> nat \<Rightarrow> nat \<Rightarrow> 'd tfs \<Rightarrow> bool" where
  "ready ok blk N T t \<longleftrightarrow> mounted_on ok N T t \<and> lock t = 1 \<and> volume_ok T (blk (disk t))"

text \<open>The map of names to contents of a volume.\<close>

definition contents :: "('d \<Rightarrow> nat \<Rightarrow> block) \<Rightarrow> 'd tfs \<Rightarrow> string \<Rightarrow> char list option" where
  "contents blk t = files (blk (disk t))"

lemma readyD: "ready ok blk N T t \<Longrightarrow> mounted_on ok N T t \<and> lock t = 1 \<and> volume_ok T (blk (disk t))"
  by (simp add: ready_def)

lemma file_idD:
  assumes "volume_ok T B" "file_id B name = Some n"
  obtains i where "entry_used B i" "md_name (B 2) i = name" "n = entry_inode B i" "files B name = Some (file_at B n)"
proof -
  obtain i where i: "dir_find (B 2) name = Some i" "n = entry_inode B i" using assms(2) by (auto simp: file_id_def)
  then have "entry_used B i" "md_name (B 2) i = name"
    using dir_find_Some [OF volume_okD(3) [OF assms(1)]] by (auto simp: entry_used_def)
  with i show ?thesis by (intro that [of i]) (auto simp: files_def)
qed

context block_device
begin

lemma file_facts:
  assumes "mounted T t" "volume_ok T (blk (disk t))" "entry_used (blk (disk t)) i" "n = entry_inode (blk (disk t)) i"
  shows "readable T (blk (disk t)) n" "unat (filesize (blk (disk t) n)) = length (file_at (blk (disk t)) n)"
    "length (file_at (blk (disk t)) n) < 2 ^ 31" "length (file_at (blk (disk t)) n) \<le> 65024"
proof -
  show r: "readable T (blk (disk t)) n" using file_readable [OF assms(2,3)] assms(4) by simp
  show "unat (filesize (blk (disk t) n)) = length (file_at (blk (disk t)) n)" using length_file [OF assms(1) r] by simp
  with file_blocks_max [OF volume_okD(7) [OF assms(2,3)]] assms(4)
  show "length (file_at (blk (disk t)) n) < 2 ^ 31" "length (file_at (blk (disk t)) n) \<le> 65024" by simp_all
qed

lemma read_file:
  assumes "ready dev_ok blk nblocks T t" "file_id (blk (disk t)) name = Some n" "contents blk t name = Some c"
    "offset \<le> length c" "m = min bufsize (length c - offset)" "m \<le> length buf"
  shows "returns (\<lambda>(r, buf', t'). r = int m \<and> buf' = take m (drop offset c) @ drop m buf \<and>
      ready dev_ok blk nblocks T t' \<and> contents blk t' = contents blk t)
    (tfs_read g (int n) buf (int bufsize) (int offset) t)"
proof -
  have V: "mounted T t" "lock t = 1" "volume_ok T (blk (disk t))" using readyD [OF assms(1)] by simp_all
  obtain i where i: "entry_used (blk (disk t)) i" "n = entry_inode (blk (disk t)) i" "c = file_at (blk (disk t)) n"
    using file_idD [OF V(3) assms(2)] assms(3) by (metis contents_def option.inject)
  note f = file_facts [OF V(1,3) i(1,2)]
  have "length (take m (drop offset c)) = m" using assms(4,5) by simp
  then have "splice_at buf 0 (slice c offset m) = take m (drop offset c) @ drop m buf"
    using assms(6) by (simp add: splice_at_def slice_def)
  then show ?thesis
    using read_ok [OF V(1,2) f(1), of offset m bufsize buf] f(2,3) assms(4-6) i(3) V(3)
    by (auto simp: read_post_def ready_def contents_def elim!: returns_mono)
qed

lemma write_file:
  assumes "ready dev_ok blk nblocks T t" "file_id (blk (disk t)) name = Some n" "contents blk t name = Some c"
    "offset \<le> length c" "m = min datasize (length c - offset)" "m \<le> length buf"
  shows "returns (\<lambda>(r, t'). r = int m \<and> ready dev_ok blk nblocks T t' \<and> file_id (blk (disk t')) name = Some n \<and>
      contents blk t' = (contents blk t)(name \<mapsto> take offset c @ take m buf @ drop (offset + m) c))
    (tfs_write g (int n) buf (int datasize) (int offset) t)"
proof -
  let ?B = "blk (disk t)"
  have V: "mounted T t" "lock t = 1" "volume_ok T ?B" using readyD [OF assms(1)] by simp_all
  obtain i where i: "entry_used ?B i" "n = entry_inode ?B i" "c = file_at ?B n" "md_name (?B 2) i = name"
    using file_idD [OF V(3) assms(2)] assms(3) by (metis contents_def option.inject)
  note f = file_facts [OF V(1,3) i(1,2)]
  have w: "returns (write_post T (written (data_blocks (?B n)) ?B offset (slice buf 0 m)) 1 (int m))
      (tfs_write g (int n) buf (int datasize) (int offset) t)"
    by (rule write_ok [OF V(1,2) f(1)]) (use f(2,3) assms(4-6) i(3) in simp_all)
  have len: "length (slice buf 0 m) = m" using assms(6) by simp
  have fit: "offset + length (slice buf 0 m) \<le> unat (filesize (?B n))" using f(2) i(3) assms(4,5) len by simp
  show ?thesis
  proof (rule returns_mono [OF w])
    fix x assume x: "write_post T (written (data_blocks (?B n)) ?B offset (slice buf 0 m)) 1 (int m) x"
    obtain r t' where [simp]: "x = (r, t')" by (cases x)
    let ?B' = "blk (disk t')"
    have p: "r = int m" "mounted T t'" "lock t' = 1" "written (data_blocks (?B n)) ?B offset (slice buf 0 m) ?B'"
      using x by (simp_all add: write_post_def)
    note W = written_volume [OF V(3) i(1), of offset "slice buf 0 m" ?B']
    have "splice_at c offset (slice buf 0 m) = take offset c @ take m buf @ drop (offset + m) c"
      using len by (simp add: splice_at_def) (simp add: slice_def)
    moreover have "?B' 2 = ?B 2"
    proof -
      have "\<forall>b \<in> set (data_blocks (?B n)). 3 \<le> b"
        using volume_okD(7) [OF V(3) i(1)] i(2) by (auto simp: file_ok_def entry_blocks_def)
      then have "2 \<notin> set (data_blocks (?B n))" by auto
      with p(4) show ?thesis by (simp add: written_def)
    qed
    moreover have "volume_ok T ?B'" "files ?B' = (files ?B)(name \<mapsto> splice_at c offset (slice buf 0 m))"
      using W p(4) fit i mounted_blocks [OF V(1)] by simp_all
    ultimately show "case x of (r, t') \<Rightarrow> r = int m \<and> ready dev_ok blk nblocks T t' \<and> file_id (blk (disk t')) name = Some n \<and>
        contents blk t' = (contents blk t)(name \<mapsto> take offset c @ take m buf @ drop (offset + m) c)"
      using p(1-3) assms(2) by (simp add: ready_def contents_def file_id_def entry_inode_def)
  qed
qed

end

subsection \<open>A small volume\<close>

text \<open>An empty volume with ten blocks on a disk in memory, as the formatting tool leaves it.\<close>

definition sample_disk :: "block list" where
  "sample_disk = bytes_of (TFS_MAGIC # replicate 127 0) # bytes_of (7 # replicate 127 0) # replicate 8 (replicate 512 NUL)"

definition sample_volume :: "block list tfs" where
  "sample_volume = \<lparr>totalblocks = 10, lock = 1, buffer_inode = replicate 512 NUL, buffer_bat = replicate 512 NUL,
     buffer_md = replicate 512 NUL, disk = sample_disk, volume_name = replicate 16 NUL, lock_sem = 0, fs_addr = 0\<rparr>"

lemma slice_replicate [simp]: "off + n \<le> m \<Longrightarrow> slice (replicate m x) off n = replicate n x"
  by (simp add: slice_def)

lemma get32_zero: "off + 4 \<le> m \<Longrightarrow> get32 (replicate m NUL) off = 0"
  by (simp add: get32_def dec32_def NUL_def numeral_eq_Suc)

lemma sample_bits: "bm_bit (words_of (mem_blk sample_disk 1)) p \<longleftrightarrow> p < 3" if "p < 4096"
proof -
  have "p mod 32 < 32" by simp
  then have "bit (7 :: uint32) (p mod 32) \<longleftrightarrow> p mod 32 < 3"
  proof -
    have "(7 :: uint32) = mask 3" by (simp add: mask_eq_exp_minus_1)
    then show ?thesis using \<open>p mod 32 < 32\<close> by (simp only: bit_mask_iff) auto
  qed
  moreover have "(7 # replicate 127 (0::uint32)) ! (p div 32) = (if p div 32 = 0 then 7 else 0)"
    using that by (auto simp: nth_Cons' )
  ultimately show ?thesis using that
    by (auto simp: bm_bit_def mem_blk_def sample_disk_def dest: div_eq_0_iff [THEN iffD1, rotated])
qed

lemma sample_volume_ready: "ready (mem_ok 10) mem_blk 10 10 sample_volume"
proof -
  let ?B = "mem_blk sample_disk"
  have B2: "?B 2 = replicate 512 NUL" "length (?B 1) = 512" by (simp_all add: mem_blk_def sample_disk_def)
  have ino: "md_inode (?B 2) i = 0" if "i < 25" for i using that by (simp add: md_inode_def B2 get32_zero)
  have nf: "name_field (?B 2) i = replicate 16 NUL" if "i < 25" for i using that by (simp add: name_field_def B2)
  have nm: "md_name (?B 2) i = []" if "i < 25" for i
    using md_name_field [of "?B 2" i] nf [OF that] by (simp add: cstring_def)
  have "dir_ok (?B 2)" unfolding dir_ok_def using ino nf nm B2 by simp
  moreover have "used ?B p" if "p < 3" for p using sample_bits [of p] that by (simp add: used_def)
  moreover have "\<not> entry_used ?B i" for i using ino [of i] by (auto simp: entry_used_def)
  ultimately have "volume_ok 10 ?B" unfolding volume_ok_def using B2 by simp
  moreover have "mounted_on (mem_ok 10) 10 10 sample_volume"
    by (simp add: mounted_on_def sample_volume_def mem_ok_def sample_disk_def)
  ultimately show ?thesis by (simp add: ready_def sample_volume_def)
qed

lemma sample_empty: "contents mem_blk sample_volume name = None"
proof -
  have "\<not> entry_used (mem_blk sample_disk) i" for i
    by (auto simp: entry_used_def md_inode_def mem_blk_def sample_disk_def get32_zero)
  moreover have "volume_ok 10 (mem_blk sample_disk)" using readyD [OF sample_volume_ready] by (simp add: sample_volume_def)
  ultimately have "files (mem_blk sample_disk) name = None" using files_Some by (metis option.exhaust)
  then show ?thesis by (simp add: contents_def sample_volume_def)
qed

lemma sample_can_create:
  assumes "blocks_for sz < 7"
  shows "can_create 10 (mem_blk (disk sample_volume)) name sz"
proof -
  have "unset_below (bm_bit (words_of (mem_blk sample_disk 1))) 10 = {3..<10}"
    using sample_bits by (auto simp: unset_below_def)
  then have "free_count (mem_blk sample_disk 1) 10 = 7" by (simp add: free_count_def)
  moreover have "md_inode (mem_blk sample_disk 2) 0 = 0"
    by (simp add: md_inode_def mem_blk_def sample_disk_def get32_zero)
  ultimately show ?thesis
    using assms sample_empty [of name] unfolding can_create_def
    by (auto simp: sample_volume_def contents_def intro!: exI [of _ 0])
qed

text \<open>The volume with one file.\<close>

lemma sample_file:
  assumes "file_name name" "sz \<le> 3000"
  obtains t n where "ready (mem_ok 10) mem_blk 10 10 t" "contents mem_blk t = [name \<mapsto> replicate sz NUL]"
    "file_id (mem_blk (disk t)) name = Some n"
proof -
  have R: "mounted_on (mem_ok 10) 10 10 sample_volume" "lock sample_volume = 1" "volume_ok 10 (mem_blk (disk sample_volume))"
    using readyD [OF sample_volume_ready] by simp_all
  have "blocks_for sz < 7" using assms(2) by (simp add: blocks_for_def)
  from mem.create_ok [OF R assms(1), of sz] assms(2) sample_can_create [OF this, of name]
  obtain t where "ready (mem_ok 10) mem_blk 10 10 t" "contents mem_blk t = (contents mem_blk sample_volume)(name \<mapsto> replicate sz NUL)"
    by (auto simp: returns_def mem.dir_post_def ready_def contents_def)
  moreover from this(2) have "files (mem_blk (disk t)) name \<noteq> None" by (simp add: contents_def)
  then obtain n where "file_id (mem_blk (disk t)) name = Some n" by (auto simp: files_def file_id_def)
  moreover have "contents mem_blk sample_volume = Map.empty" using sample_empty by (simp add: fun_eq_iff)
  ultimately show ?thesis by (intro that) simp_all
qed

subsection \<open>Properties\<close>

text \<open>
  C11: \<^verbatim>\<open>tfs_create\<close> on a working device adds the name with a file of zeros of the given size to
  the volume and returns \<^verbatim>\<open>VFS_OK\<close>, exactly if the name is new, the size fits into an inode, a
  directory entry is free and there are blocks for the inode and the data; otherwise it returns
  \<^verbatim>\<open>VFS_ERROR\<close> and the files are as before.  In both cases the volume stays well formed and the
  lock is released.
\<close>

theorem tfs_create_refines:
  assumes "block_device g ok blk N" "ready ok blk N T t" "file_name name" "sz + 511 < 2 ^ 31"
  shows "\<exists>r t'. tfs_create g name (int sz) t = Inr (r, t') \<and> ready ok blk N T t' \<and>
    (if can_create T (blk (disk t)) name sz
     then r = VFS_OK \<and> contents blk t' = (contents blk t)(name \<mapsto> replicate sz NUL)
     else r = VFS_ERROR \<and> contents blk t' = contents blk t)"
  using block_device.create_ok [OF assms(1) _ _ _ assms(3,4), of T t] readyD [OF assms(2)]
  by (auto simp: returns_def block_device.dir_post_def [OF assms(1)] ready_def contents_def split: if_splits)

theorem tfs_create_refines_witness:
  "\<exists>t'. tfs_create mem_gbd ''hello'' 600 sample_volume = Inr (VFS_OK, t') \<and>
     contents mem_blk t' ''hello'' = Some (replicate 600 NUL)"
proof -
  have n: "file_name ''hello''" by (simp add: file_name_def c_string_def NUL_def)
  have "can_create 10 (mem_blk (disk sample_volume)) ''hello'' 600"
    by (rule sample_can_create) (simp add: blocks_for_def)
  with tfs_create_refines [OF mem.block_device_axioms sample_volume_ready n, of 600] show ?thesis by auto
qed



text \<open>
  C13: \<^verbatim>\<open>tfs_read\<close> on a working device puts the part of the file that starts at the offset and is
  at most as long as requested into the buffer, leaves the rest of the buffer alone and returns the
  number of bytes, across any number of blocks.
\<close>

theorem tfs_read_returns_file:
  assumes "block_device g ok blk N" "ready ok blk N T t" "file_id (blk (disk t)) name = Some n"
    "contents blk t name = Some c" "offset \<le> length c" "m = min bufsize (length c - offset)" "m \<le> length buf"
  shows "\<exists>t'. tfs_read g (int n) buf (int bufsize) (int offset) t = Inr (int m, take m (drop offset c) @ drop m buf, t') \<and>
    ready ok blk N T t' \<and> contents blk t' = contents blk t"
  using block_device.read_file [OF assms] by (auto simp: returns_def)

theorem tfs_read_returns_file_witness:
  "\<exists>t n t'. tfs_read mem_gbd (int n) (replicate 800 (CHR ''x'')) 700 20 t =
     Inr (580, replicate 580 NUL @ replicate 220 (CHR ''x''), t')"
proof -
  have n: "file_name ''hello''" by (simp add: file_name_def c_string_def NUL_def)
  obtain t k where t: "ready (mem_ok 10) mem_blk 10 10 t" "contents mem_blk t = [''hello'' \<mapsto> replicate 600 NUL]"
    "file_id (mem_blk (disk t)) ''hello'' = Some k" using sample_file [OF n, of 600] by auto
  from tfs_read_returns_file [OF mem.block_device_axioms t(1,3), of "replicate 600 NUL" 20 580 700 "replicate 800 (CHR ''x'')"] t(2)
  show ?thesis by auto
qed

text \<open>
  C12: \<^verbatim>\<open>tfs_write\<close> on a working device replaces the part of the file that starts at the offset by
  the data, as far as the file reaches, returns the number of bytes written and changes no other
  file.
\<close>

theorem tfs_write_refines:
  assumes "block_device g ok blk N" "ready ok blk N T t" "file_id (blk (disk t)) name = Some n"
    "contents blk t name = Some c" "offset \<le> length c" "m = min datasize (length c - offset)" "m \<le> length buf"
  shows "\<exists>t'. tfs_write g (int n) buf (int datasize) (int offset) t = Inr (int m, t') \<and> ready ok blk N T t' \<and>
    file_id (blk (disk t')) name = Some n \<and>
    contents blk t' = (contents blk t)(name \<mapsto> take offset c @ take m buf @ drop (offset + m) c)"
  using block_device.write_file [OF assms] by (auto simp: returns_def)

theorem tfs_write_refines_witness:
  "\<exists>t n t'. tfs_write mem_gbd (int n) (replicate 800 (CHR ''x'')) 700 20 t = Inr (580, t') \<and>
     contents mem_blk t' ''hello'' = Some (replicate 20 NUL @ replicate 580 (CHR ''x''))"
proof -
  have n: "file_name ''hello''" by (simp add: file_name_def c_string_def NUL_def)
  obtain t k where t: "ready (mem_ok 10) mem_blk 10 10 t" "contents mem_blk t = [''hello'' \<mapsto> replicate 600 NUL]"
    "file_id (mem_blk (disk t)) ''hello'' = Some k" using sample_file [OF n, of 600] by auto
  from tfs_write_refines [OF mem.block_device_axioms t(1,3), of "replicate 600 NUL" 20 580 700 "replicate 800 (CHR ''x'')"] t(2)
  show ?thesis by - (rule exI [of _ t], rule exI [of _ k], auto)
qed

text \<open>
  What \<^verbatim>\<open>tfs_write\<close> has written to a file, \<^verbatim>\<open>tfs_read\<close> at the same offset reads back.
\<close>

theorem tfs_write_then_read:
  assumes "block_device g ok blk N" "ready ok blk N T t" "file_id (blk (disk t)) name = Some n"
    "contents blk t name = Some c" "offset + length data \<le> length c" "length data \<le> length buf"
  shows "\<exists>t' t''. tfs_write g (int n) data (int (length data)) (int offset) t = Inr (int (length data), t') \<and>
    tfs_read g (int n) buf (int (length data)) (int offset) t' = Inr (int (length data), data @ drop (length data) buf, t'')"
proof -
  let ?c = "take offset c @ data @ drop (offset + length data) c"
  obtain t' where t': "tfs_write g (int n) data (int (length data)) (int offset) t = Inr (int (length data), t')"
    "ready ok blk N T t'" "file_id (blk (disk t')) name = Some n" "contents blk t' name = Some ?c"
    using block_device.write_file [OF assms(1-4), of offset "length data" "length data" data] assms(5)
    by (auto simp: returns_def)
  obtain t'' where "tfs_read g (int n) buf (int (length data)) (int offset) t' =
      Inr (int (length data), take (length data) (drop offset ?c) @ drop (length data) buf, t'')"
    using block_device.read_file [OF assms(1) t'(2-4), of offset "length data" "length data" buf] assms(5,6)
    by (auto simp: returns_def)
  with t'(1) assms(5) show ?thesis by simp
qed

theorem tfs_write_then_read_witness:
  "\<exists>t n t' t''. tfs_write mem_gbd (int n) ''abc'' 3 510 t = Inr (3, t') \<and>
     tfs_read mem_gbd (int n) ''......'' 3 510 t' = Inr (3, ''abc...'', t'')"
proof -
  have n: "file_name ''hello''" by (simp add: file_name_def c_string_def NUL_def)
  obtain t k where t: "ready (mem_ok 10) mem_blk 10 10 t" "contents mem_blk t = [''hello'' \<mapsto> replicate 600 NUL]"
    "file_id (mem_blk (disk t)) ''hello'' = Some k" using sample_file [OF n, of 600] by auto
  from tfs_write_then_read [OF mem.block_device_axioms t(1,3), of "replicate 600 NUL" 510 "''abc''" "''......''"] t(2)
  show ?thesis by (auto simp: numeral_eq_Suc)
qed

text \<open>
  \<^verbatim>\<open>tfs_open\<close> on a working device returns the inode number of the named file, which is at
  least 3 and so no error code and no system block, and \<^verbatim>\<open>VFS_NOT_FOUND\<close> exactly if there is no
  file of that name; \<^verbatim>\<open>tfs_getfree\<close> returns the number of bytes in free blocks and
  \<^verbatim>\<open>tfs_filecount\<close> the number of files.  None of them changes a file.
\<close>

theorem tfs_queries:
  assumes "block_device g ok blk N" "ready ok blk N T t" "file_name name"
  shows "(\<exists>t'. tfs_open g name t = Inr (case file_id (blk (disk t)) name of None \<Rightarrow> VFS_NOT_FOUND | Some n \<Rightarrow> int n, t') \<and>
      ready ok blk N T t' \<and> contents blk t' = contents blk t) \<and>
    (case file_id (blk (disk t)) name of None \<Rightarrow> contents blk t name = None
     | Some n \<Rightarrow> 3 \<le> n \<and> contents blk t name = Some (file_at (blk (disk t)) n)) \<and>
    (\<exists>t'. tfs_getfree g t = Inr (512 * int (card {p. p < T \<and> \<not> used (blk (disk t)) p}), t') \<and>
      ready ok blk N T t' \<and> contents blk t' = contents blk t) \<and>
    (\<exists>t'. tfs_filecount g t = Inr (int (card (dom (contents blk t))), t') \<and>
      ready ok blk N T t' \<and> contents blk t' = contents blk t)"
proof -
  have R: "mounted_on ok N T t" "lock t = 1" "volume_ok T (blk (disk t))" using readyD [OF assms(2)] by simp_all
  have "(case dir_find (blk (disk t) 2) name of None \<Rightarrow> VFS_NOT_FOUND | Some i \<Rightarrow> int (entry_inode (blk (disk t)) i))
    = (case file_id (blk (disk t)) name of None \<Rightarrow> VFS_NOT_FOUND | Some n \<Rightarrow> int n)"
    by (simp add: file_id_def split: option.splits)
  then have "\<exists>t'. tfs_open g name t = Inr (case file_id (blk (disk t)) name of None \<Rightarrow> VFS_NOT_FOUND | Some n \<Rightarrow> int n, t') \<and>
      ready ok blk N T t' \<and> contents blk t' = contents blk t"
    using block_device.open_ok [OF assms(1) R assms(3)] R(3) by (auto simp: returns_def ready_def contents_def file_id_def)
  moreover have "case file_id (blk (disk t)) name of None \<Rightarrow> contents blk t name = None
     | Some n \<Rightarrow> 3 \<le> n \<and> contents blk t name = Some (file_at (blk (disk t)) n)"
  proof (cases "file_id (blk (disk t)) name")
    case None
    then show ?thesis by (simp add: file_id_def contents_def files_def)
  next
    case (Some n)
    then obtain i where "entry_used (blk (disk t)) i" "n = entry_inode (blk (disk t)) i"
      "files (blk (disk t)) name = Some (file_at (blk (disk t)) n)" using file_idD [OF R(3) Some] by metis
    with Some volume_okD(7) [OF R(3)] show ?thesis by (simp add: contents_def file_ok_def entry_blocks_def)
  qed
  moreover have "\<exists>t'. tfs_getfree g t = Inr (512 * int (card {p. p < T \<and> \<not> used (blk (disk t)) p}), t') \<and>
      ready ok blk N T t' \<and> contents blk t' = contents blk t"
    using block_device.getfree_ok [OF assms(1) R] R(3) by (auto simp: returns_def ready_def contents_def)
  moreover have "\<exists>t'. tfs_filecount g t = Inr (int (card (dom (contents blk t))), t') \<and>
      ready ok blk N T t' \<and> contents blk t' = contents blk t"
    using block_device.filecount_ok [OF assms(1) R] R(3) by (auto simp: returns_def ready_def contents_def)
  ultimately show ?thesis by blast
qed

theorem tfs_queries_witness:
  "(\<exists>t'. tfs_open mem_gbd ''hello'' sample_volume = Inr (VFS_NOT_FOUND, t')) \<and>
   (\<exists>t'. tfs_filecount mem_gbd sample_volume = Inr (0, t'))"
proof -
  have n: "file_name ''hello''" by (simp add: file_name_def c_string_def NUL_def)
  have c: "contents mem_blk sample_volume = Map.empty" using sample_empty by (simp add: fun_eq_iff)
  have "file_id (mem_blk (disk sample_volume)) ''hello'' = None"
    using sample_empty [of "''hello''"] by (auto simp: contents_def files_def file_id_def)
  with c tfs_queries [OF mem.block_device_axioms sample_volume_ready n] show ?thesis by auto
qed

text \<open>
  C15: Whatever the device does, including failing at any request, every operation that returns has
  released the lock of the volume as often as it has taken it and has left the number of blocks, the
  volume name, the semaphore and the address of the volume as they were; and none of them starts
  while the lock is taken.
\<close>

theorem tfs_releases_lock:
  "(tfs_open g name t = Inr (r, t') \<longrightarrow> lock t > 0 \<and> frame t' = frame t) \<and>
   (tfs_create g name sz t = Inr (r, t') \<longrightarrow> lock t > 0 \<and> frame t' = frame t) \<and>
   (tfs_remove g name t = Inr (r, t') \<longrightarrow> lock t > 0 \<and> frame t' = frame t) \<and>
   (tfs_read g fileid buf n off t = Inr (r, buf', t') \<longrightarrow> lock t > 0 \<and> frame t' = frame t) \<and>
   (tfs_write g fileid buf n off t = Inr (r, t') \<longrightarrow> lock t > 0 \<and> frame t' = frame t) \<and>
   (tfs_getfree g t = Inr (r, t') \<longrightarrow> lock t > 0 \<and> frame t' = frame t) \<and>
   (tfs_filecount g t = Inr (r, t') \<longrightarrow> lock t > 0 \<and> frame t' = frame t) \<and>
   (tfs_file g i buf t = Inr (r, buf', t') \<longrightarrow> lock t > 0 \<and> frame t' = frame t)"
proof (intro conjI impI)
  show "lock t > 0" if "tfs_open g name t = Inr (r, t')" using that by (simp add: tfs_open_def kres_iff)
  show "lock t > 0" if "tfs_create g name sz t = Inr (r, t')" using that by (simp add: tfs_create_def kres_iff)
  show "lock t > 0" if "tfs_remove g name t = Inr (r, t')" using that by (simp add: tfs_remove_def kres_iff)
  show "lock t > 0" if "tfs_read g fileid buf n off t = Inr (r, buf', t')" using that by (simp add: tfs_read_def Let_def kres_iff)
  show "lock t > 0" if "tfs_write g fileid buf n off t = Inr (r, t')" using that by (simp add: tfs_write_def kres_iff)
  show "lock t > 0" if "tfs_getfree g t = Inr (r, t')" using that by (simp add: tfs_getfree_def kres_iff)
  show "lock t > 0" if "tfs_filecount g t = Inr (r, t')" using that by (simp add: tfs_filecount_def kres_iff)
  show "lock t > 0" if "tfs_file g i buf t = Inr (r, buf', t')" using that by (simp add: tfs_file_def kres_iff)
qed (use tfs_ops_end in \<open>fastforce simp: ends_def\<close>)+

text \<open>A device on which every request fails.\<close>

definition broken_gbd :: "block list gbd" where
  "broken_gbd = \<lparr>read_block = \<lambda>n b d. (0, b, d), write_block = \<lambda>n b d. (0, d), block_size = \<lambda>d. 512, total_blocks = \<lambda>d. 10\<rparr>"

theorem tfs_releases_lock_witness:
  "\<exists>t'. tfs_remove broken_gbd ''hello'' sample_volume = Inr (VFS_ERROR, t') \<and> lock t' = 1"
proof -
  have "\<exists>t'. tfs_remove broken_gbd ''hello'' sample_volume = Inr (VFS_ERROR, t')"
    by (simp add: tfs_remove_def tfs_lock_def or_fail_def read_md_def broken_gbd_def sample_volume_def)
  then obtain t' where t': "tfs_remove broken_gbd ''hello'' sample_volume = Inr (VFS_ERROR, t')" by blast
  with tfs_releases_lock [where g = broken_gbd and name = "''hello''" and t = sample_volume and r = VFS_ERROR and t' = t']
  have "frame t' = frame sample_volume" by blast
  with t' show ?thesis by (simp add: frame_def sample_volume_def)
qed

end
