(* ===== verification/Vfs_Tfs.thy ===== *)
theory Vfs_Tfs
  imports Vfs_Spec Tfs_Spec
begin

text \<open>
  The virtual file system with the trivial file system behind it: the function pointers that
  \<^verbatim>\<open>tfs_init\<close> stores in the \<^verbatim>\<open>fs_t\<close>, what each operation of the virtual file system does when
  the driver succeeds, and a file that is created, written and read back by its path name.
\<close>

subsection \<open>The file system driver\<close>

text \<open>The state behind the function pointers: the volume of every \<^verbatim>\<open>fs_t\<close>, and the semaphores of the kernel.\<close>

type_synonym ('d, 'a) volumes = "(fs \<Rightarrow> 'd tfs) \<times> 'a sems_scheme"

definition on_fs :: "('d tfs \<Rightarrow> ('r \<times> 'd tfs) kres) \<Rightarrow> fs \<Rightarrow> ('d, 'a) volumes \<Rightarrow> ('r \<times> ('d, 'a) volumes) kres" where
  "on_fs f fs = (\<lambda>(vols, s). bindE (f (vols fs)) (\<lambda>(r, t). Inr (r, vols(fs := t), s)))"

definition with_buffer :: "(int \<times> char list \<times> 'w) kres \<Rightarrow> ((int \<times> char list) \<times> 'w) kres" where
  "with_buffer m = bindE m (\<lambda>(r, buf, w). Inr ((r, buf), w))"

definition tfs_ops :: "'d gbd \<Rightarrow> ('d, 'a) volumes fs_ops" where
  "tfs_ops g =
     \<lparr>fs_volume_name = \<lambda>fs (vols, s). cstring (volume_name (vols fs)),
      fs_unmount = \<lambda>fs (vols, s). bindE (tfs_unmount (vols fs) s) (\<lambda>(r, s). Inr (r, vols, s)),
      fs_open = \<lambda>fs name. on_fs (tfs_open g name) fs,
      fs_close = \<lambda>fs fileid. on_fs (tfs_close fileid) fs,
      fs_read = \<lambda>fs fileid buf n off w.
        bindE (on_fs (\<lambda>t. with_buffer (tfs_read g fileid buf n off t)) fs w) (\<lambda>((r, buf), w). Inr (r, buf, w)),
      fs_write = \<lambda>fs fileid buf n off. on_fs (tfs_write g fileid buf n off) fs,
      fs_create = \<lambda>fs name sz. on_fs (tfs_create g name sz) fs,
      fs_remove = \<lambda>fs name. on_fs (tfs_remove g name) fs,
      fs_getfree = on_fs (tfs_getfree g),
      fs_filecount = on_fs (tfs_filecount g),
      fs_file = \<lambda>fs index buf w.
        bindE (on_fs (\<lambda>t. with_buffer (tfs_file g index buf t)) fs w) (\<lambda>((r, buf), w). Inr (r, buf, w))\<rparr>"

subsection \<open>Operations on a mounted volume\<close>

definition mounted_at :: "'w vfs \<Rightarrow> string \<Rightarrow> fs \<Rightarrow> bool" where
  "mounted_at v vol f \<longleftrightarrow> (\<exists>e \<in> set (filesystems v). filesystem e = Some f \<and> cstring (mountpoint e) = vol)"

lemma get_filesystem_run:
  assumes "length (filesystems v) = CONFIG_MAX_FILESYSTEMS" "mounted_names (filesystems v)" "mounted_at v vol f"
  shows "vfs_get_filesystem vol v = Inr (Some f)"
proof -
  obtain row where row: "row < CONFIG_MAX_FILESYSTEMS" "filesystem (filesystems v ! row) = Some f" "cstring (mountpoint (filesystems v ! row)) = vol"
    using assms(1,3) unfolding mounted_at_def by (metis in_set_conv_nth)
  have "cstring (mountpoint (filesystems v ! j)) \<noteq> vol" if "j < row" for j
    using assms(1,2) row that unfolding mounted_names_def by (metis less_irrefl less_trans option.distinct(1))
  moreover have "c_string vol" using row(3) by auto
  ultimately have "first_from (\<lambda>i. stringcmp (cstring (mountpoint (filesystems v ! i))) vol = 0) 0 CONFIG_MAX_FILESYSTEMS = row"
    using row by (intro first_from_eqI) (simp_all add: stringcmp_eq_0)
  with assms(1) row show ?thesis by (simp add: vfs_get_filesystem_def find_from_eq)
qed

lemma vfs_create_run:
  assumes "vfs_free v" "vfs_parse_pathname path = Some (vol, name)" "mounted_at v vol f" "sz \<ge> 0"
    "fs_create ops f name sz (drivers v) = Inr (r, w)"
  shows "vfs_create ops path sz v = Inr (r, v\<lparr>drivers := w\<rparr>)"
proof -
  note V = vfs_freeD [OF assms(1)]
  have "vfs_get_filesystem vol (v\<lparr>vfs_ops := n, vfs_table_sem := a\<rparr>) = Inr (Some f)" for n a
    by (rule get_filesystem_run) (use V assms(3) in \<open>simp_all add: mounted_at_def\<close>)
  then show ?thesis
    using V(1-5) assms(2,4,5)
    by (simp add: vfs_create_def vfs_op_run [OF assms(1)] on_volume_def vfs_run)
qed

text \<open>\<open>opened v fd f id pos\<close>: row \<open>fd\<close> of the table of open files is the file \<open>id\<close> of \<open>f\<close> at position \<open>pos\<close>.\<close>

definition opened :: "'w vfs \<Rightarrow> nat \<Rightarrow> fs \<Rightarrow> int \<Rightarrow> int \<Rightarrow> bool" where
  "opened v fd f i pos \<longleftrightarrow> fd < CONFIG_MAX_OPEN_FILES \<and>
     openfiles v ! fd = \<lparr>of_filesystem = Some f, of_fileid = i, of_seek_position = pos\<rparr>"

lemma vfs_open_run:
  assumes "vfs_free v" "vfs_parse_pathname path = Some (vol, name)" "mounted_at v vol f"
    "\<exists>i < CONFIG_MAX_OPEN_FILES. of_filesystem (openfiles v ! i) = None"
    "fs_open ops f name (drivers v) = Inr (i, w)" "i \<ge> 0"
  obtains fd where "fd < CONFIG_MAX_OPEN_FILES" "of_filesystem (openfiles v ! fd) = None"
    "vfs_open ops path v = Inr (int fd, v\<lparr>drivers := w,
       openfiles := (openfiles v)[fd := \<lparr>of_filesystem = Some f, of_fileid = i, of_seek_position = 0\<rparr>]\<rparr>)"
proof -
  note V = vfs_freeD [OF assms(1)]
  have e: "x\<lparr>of_filesystem := a, of_fileid := b, of_seek_position := c\<rparr> = \<lparr>of_filesystem = a, of_fileid = b, of_seek_position = c\<rparr>"
    for x :: openfile_entry_t and a b c by (cases x) simp
  have g: "vfs_get_filesystem vol (v\<lparr>vfs_ops := n, vfs_table_sem := a, openfile_table_sem := b\<rparr>) = Inr (Some f)" for n a b
    by (rule get_filesystem_run) (use V assms(3) in \<open>simp_all add: mounted_at_def\<close>)
  define fd where "fd = first_from (\<lambda>i. of_filesystem (openfiles v ! i) = None) 0 CONFIG_MAX_OPEN_FILES"
  have "fd \<noteq> CONFIG_MAX_OPEN_FILES" "fd \<le> CONFIG_MAX_OPEN_FILES"
    unfolding fd_def using assms(4) by (auto simp: first_from_eq_n_iff first_from_le)
  then have fd: "fd < CONFIG_MAX_OPEN_FILES" by simp
  then have "of_filesystem (openfiles v ! fd) = None" unfolding fd_def by (rule first_from_holds)
  moreover have "vfs_open ops path v = Inr (int fd, v\<lparr>drivers := w,
       openfiles := (openfiles v)[fd := \<lparr>of_filesystem = Some f, of_fileid = i, of_seek_position = 0\<rparr>]\<rparr>)"
    using V(1-5,7) assms(2,5,6) fd g
    by (simp add: vfs_open_def vfs_op_run [OF assms(1)] vfs_run find_from_eq fd_def [symmetric] set_openfile_def e)
  ultimately show ?thesis using fd that by blast
qed

lemma verify_open_run: "opened v fd f i pos \<Longrightarrow> length (openfiles v) = CONFIG_MAX_OPEN_FILES \<Longrightarrow>
    vfs_verify_open (int fd) v = Inr (f, openfiles v ! fd)"
  by (simp add: vfs_verify_open_def opened_def)

lemma advance_run:
  assumes "openfile_table_sem v = 1" "length (openfiles v) = CONFIG_MAX_OPEN_FILES" "opened v fd f i pos" "r \<ge> 0"
    "wrap32 (pos + r) = pos + r"
  shows "advance (int fd) r v = Inr (v\<lparr>openfiles := (openfiles v)[fd := \<lparr>of_filesystem = Some f, of_fileid = i, of_seek_position = pos + r\<rparr>]\<rparr>)"
proof (cases "r = 0")
  case True
  have "(openfiles v)[fd := openfiles v ! fd] = openfiles v" by simp
  with True assms(3) show ?thesis by (simp add: advance_def opened_def)
next
  case False
  then show ?thesis
    using assms by (simp add: advance_def vfs_run set_openfile_def opened_def)
qed

lemma vfs_write_run:
  assumes "vfs_free v" "opened v fd f i pos" "n \<ge> 0" "fs_write ops f i buf n pos (drivers v) = Inr (r, w)" "r \<ge> 0"
    "wrap32 (pos + r) = pos + r"
  shows "vfs_write ops (int fd) buf n v = Inr (r, v\<lparr>drivers := w,
     openfiles := (openfiles v)[fd := \<lparr>of_filesystem = Some f, of_fileid = i, of_seek_position = pos + r\<rparr>]\<rparr>)"
proof -
  note V = vfs_freeD [OF assms(1)]
  let ?v = "v\<lparr>vfs_ops := vfs_ops v + 1\<rparr>" and ?w = "v\<lparr>vfs_ops := vfs_ops v + 1, drivers := w\<rparr>"
  have "vfs_verify_open (int fd) ?v = Inr (f, openfiles v ! fd)"
    using verify_open_run [of ?v fd f i pos] assms(2) V(7) by (simp add: opened_def)
  moreover have "advance (int fd) r ?w = Inr (?w\<lparr>openfiles := (openfiles v)[fd := \<lparr>of_filesystem = Some f, of_fileid = i, of_seek_position = pos + r\<rparr>]\<rparr>)"
    using advance_run [of ?w fd f i pos r] assms(2,5,6) V(2,7) by (simp add: opened_def)
  ultimately show ?thesis
    using V(1-5) assms(2-4) by (simp add: vfs_write_def vfs_op_run [OF assms(1)] vfs_run opened_def)
qed

lemma vfs_read_run:
  assumes "vfs_free v" "opened v fd f i pos" "n \<ge> 0" "fs_read ops f i buf n pos (drivers v) = Inr (r, buf', w)" "r \<ge> 0"
    "wrap32 (pos + r) = pos + r"
  shows "vfs_read ops (int fd) buf n v = Inr ((r, buf'), v\<lparr>drivers := w,
     openfiles := (openfiles v)[fd := \<lparr>of_filesystem = Some f, of_fileid = i, of_seek_position = pos + r\<rparr>]\<rparr>)"
proof -
  note V = vfs_freeD [OF assms(1)]
  let ?v = "v\<lparr>vfs_ops := vfs_ops v + 1\<rparr>" and ?w = "v\<lparr>vfs_ops := vfs_ops v + 1, drivers := w\<rparr>"
  have "vfs_verify_open (int fd) ?v = Inr (f, openfiles v ! fd)"
    using verify_open_run [of ?v fd f i pos] assms(2) V(7) by (simp add: opened_def)
  moreover have "advance (int fd) r ?w = Inr (?w\<lparr>openfiles := (openfiles v)[fd := \<lparr>of_filesystem = Some f, of_fileid = i, of_seek_position = pos + r\<rparr>]\<rparr>)"
    using advance_run [of ?w fd f i pos r] assms(2,5,6) V(2,7) by (simp add: opened_def)
  ultimately show ?thesis
    using V(1-5) assms(2-4) by (simp add: vfs_read_def vfs_op_run [OF assms(1)] vfs_run opened_def)
qed

lemma vfs_seek_run:
  assumes "vfs_free v" "opened v fd f i pos" "p \<ge> 0"
  shows "vfs_seek (int fd) p v = Inr (VFS_OK, v\<lparr>openfiles := (openfiles v)[fd := \<lparr>of_filesystem = Some f, of_fileid = i, of_seek_position = p\<rparr>]\<rparr>)"
  using vfs_freeD [OF assms(1)] assms(2,3)
  by (simp add: vfs_seek_def vfs_op_run [OF assms(1)] vfs_run opened_def vfs_verify_open_def set_openfile_def)

lemma vfs_close_run:
  assumes "vfs_free v" "opened v fd f i pos" "fs_close ops f i (drivers v) = Inr (r, w)"
  shows "vfs_close ops (int fd) v = Inr (r, v\<lparr>drivers := w, openfiles := (openfiles v)[fd := \<lparr>of_filesystem = None, of_fileid = i, of_seek_position = pos\<rparr>]\<rparr>)"
  using vfs_freeD [OF assms(1)] assms(2,3)
  by (simp add: vfs_close_def vfs_op_run [OF assms(1)] vfs_run opened_def vfs_verify_open_def set_openfile_def)

subsection \<open>A file by its path name\<close>

text \<open>The volume behind \<open>f\<close>, and the state after a step of the virtual file system.\<close>

abbreviation volume_of :: "('d, 'a) volumes vfs \<Rightarrow> fs \<Rightarrow> 'd tfs" where
  "volume_of v f \<equiv> fst (drivers v) f"

lemma on_fs_run: "f (fst w fs) = Inr (r, t) \<Longrightarrow> on_fs f fs w = Inr (r, (fst w)(fs := t), snd w)"
  by (cases w) (simp add: on_fs_def)

lemma keeps_free: "keeps v m \<Longrightarrow> m = Inr (r, v') \<Longrightarrow> vfs_free v \<Longrightarrow> vfs_free v'"
  by (auto simp: keeps_def kept_def vfs_free_def vfs_quiet_def)

lemma keeps_freeD:
  assumes "vfs_free v"
  shows "vfs_create ops path sz v = Inr (r, v') \<Longrightarrow> vfs_free v'" "vfs_open ops path v = Inr (r, v') \<Longrightarrow> vfs_free v'"
    "vfs_write ops fd buf n v = Inr (r, v') \<Longrightarrow> vfs_free v'" "vfs_seek fd p v = Inr (r, v') \<Longrightarrow> vfs_free v'"
    "vfs_read ops fd buf n v = Inr (rb, v') \<Longrightarrow> vfs_free v'" "vfs_close ops fd v = Inr (r, v') \<Longrightarrow> vfs_free v'"
proof -
  have q: "vfs_quiet v" "tables_ok v" using assms by (simp_all add: vfs_free_def)
  note K = keeps_free [OF vfs_create_keeps [OF q]] keeps_free [OF vfs_open_keeps [OF q]] keeps_free [OF vfs_write_keeps [OF q]]
    keeps_free [OF vfs_seek_keeps [OF q]] keeps_free [OF vfs_read_keeps [OF q]] keeps_free [OF vfs_close_keeps [OF q]]
  show "vfs_create ops path sz v = Inr (r, v') \<Longrightarrow> vfs_free v'" "vfs_open ops path v = Inr (r, v') \<Longrightarrow> vfs_free v'"
    "vfs_write ops fd buf n v = Inr (r, v') \<Longrightarrow> vfs_free v'" "vfs_seek fd p v = Inr (r, v') \<Longrightarrow> vfs_free v'"
    "vfs_read ops fd buf n v = Inr (rb, v') \<Longrightarrow> vfs_free v'" "vfs_close ops fd v = Inr (r, v') \<Longrightarrow> vfs_free v'"
    by (rule K [OF _ assms], assumption)+
qed

lemma vfs_tfs_create:
  assumes "block_device g ok blk N" "vfs_free v" "vfs_parse_pathname path = Some (vol, name)" "mounted_at v vol f"
    "ready ok blk N T (volume_of v f)" "file_name name" "sz + 511 < 2 ^ 31" "can_create T (blk (disk (volume_of v f))) name sz"
  obtains t where "vfs_create (tfs_ops g) path (int sz) v = Inr (VFS_OK, v\<lparr>drivers := ((fst (drivers v))(f := t), snd (drivers v))\<rparr>)"
    "ready ok blk N T t" "contents blk t = (contents blk (volume_of v f))(name \<mapsto> replicate sz NUL)"
proof -
  let ?t = "volume_of v f"
  obtain t where t: "tfs_create g name (int sz) ?t = Inr (VFS_OK, t)" "ready ok blk N T t"
    "contents blk t = (contents blk ?t)(name \<mapsto> replicate sz NUL)"
    using block_device.create_ok [OF assms(1) _ _ _ assms(6,7), of T ?t] readyD [OF assms(5)] assms(8)
    by (auto simp: returns_def block_device.dir_post_def [OF assms(1)] ready_def contents_def)
  have "fs_create (tfs_ops g) f name (int sz) (drivers v) = Inr (VFS_OK, (fst (drivers v))(f := t), snd (drivers v))"
    by (simp add: tfs_ops_def on_fs_run [where f = "tfs_create g name (int sz)", OF t(1)])
  from vfs_create_run [OF assms(2-4) _ this] t(2,3) show ?thesis by (intro that) simp_all
qed

lemma vfs_tfs_open:
  assumes "block_device g ok blk N" "vfs_free v" "vfs_parse_pathname path = Some (vol, name)" "mounted_at v vol f"
    "ready ok blk N T (volume_of v f)" "file_name name" "contents blk (volume_of v f) name = Some c"
    "\<exists>i < CONFIG_MAX_OPEN_FILES. of_filesystem (openfiles v ! i) = None"
  obtains fd n v' where "vfs_open (tfs_ops g) path v = Inr (int fd, v')" "opened v' fd f (int n) 0" "filesystems v' = filesystems v"
    "ready ok blk N T (volume_of v' f)" "contents blk (volume_of v' f) = contents blk (volume_of v f)"
    "file_id (blk (disk (volume_of v' f))) name = Some n"
proof -
  let ?t = "volume_of v f"
  have R: "mounted_on ok N T ?t" "lock ?t = 1" "volume_ok T (blk (disk ?t))" using readyD [OF assms(5)] by simp_all
  obtain i where i: "dir_find (blk (disk ?t) 2) name = Some i"
    using assms(7) by (auto simp: contents_def files_def split: option.splits)
  obtain t where t: "tfs_open g name ?t = Inr (int (entry_inode (blk (disk ?t)) i), t)" "ready ok blk N T t" "blk (disk t) = blk (disk ?t)"
    using block_device.open_ok [OF assms(1) R assms(6)] R(3) i by (auto simp: returns_def ready_def contents_def)
  have "fs_open (tfs_ops g) f name (drivers v) = Inr (int (entry_inode (blk (disk ?t)) i), (fst (drivers v))(f := t), snd (drivers v))"
    by (simp add: tfs_ops_def on_fs_run [where f = "tfs_open g name", OF t(1)])
  from vfs_open_run [OF assms(2-4,8) this] obtain fd where fd: "fd < CONFIG_MAX_OPEN_FILES"
    "vfs_open (tfs_ops g) path v = Inr (int fd, v\<lparr>drivers := ((fst (drivers v))(f := t), snd (drivers v)),
       openfiles := (openfiles v)[fd := \<lparr>of_filesystem = Some f, of_fileid = int (entry_inode (blk (disk ?t)) i), of_seek_position = 0\<rparr>]\<rparr>)"
    by auto
  show ?thesis
    by (rule that [OF fd(2)]) (use fd(1) t(2,3) i vfs_freeD(7) [OF assms(2)] in \<open>simp_all add: opened_def contents_def file_id_def\<close>)
qed

lemma vfs_tfs_write:
  assumes "block_device g ok blk N" "vfs_free v" "opened v fd f (int n) (int p)" "ready ok blk N T (volume_of v f)"
    "file_id (blk (disk (volume_of v f))) name = Some n" "contents blk (volume_of v f) name = Some c"
    "p + length data \<le> length c" "length c < 2 ^ 31"
  obtains v' where "vfs_write (tfs_ops g) (int fd) data (int (length data)) v = Inr (int (length data), v')"
    "opened v' fd f (int n) (int (p + length data))" "filesystems v' = filesystems v"
    "ready ok blk N T (volume_of v' f)" "file_id (blk (disk (volume_of v' f))) name = Some n"
    "contents blk (volume_of v' f) = (contents blk (volume_of v f))(name \<mapsto> take p c @ data @ drop (p + length data) c)"
proof -
  let ?t = "volume_of v f"
  obtain t where t: "tfs_write g (int n) data (int (length data)) (int p) ?t = Inr (int (length data), t)" "ready ok blk N T t"
    "file_id (blk (disk t)) name = Some n" "contents blk t = (contents blk ?t)(name \<mapsto> take p c @ data @ drop (p + length data) c)"
    using block_device.write_file [OF assms(1,4-6), of p "length data" "length data" data] assms(7) by (auto simp: returns_def)
  have w: "fs_write (tfs_ops g) f (int n) data (int (length data)) (int p) (drivers v) =
      Inr (int (length data), (fst (drivers v))(f := t), snd (drivers v))"
    by (simp add: tfs_ops_def on_fs_run [where f = "tfs_write g (int n) data (int (length data)) (int p)", OF t(1)])
  have wrap: "wrap32 (int p + int (length data)) = int p + int (length data)"
    using assms(7,8) by (intro wrap32_small) simp_all
  show ?thesis
    by (rule that [OF vfs_write_run [OF assms(2,3) _ w _ wrap]])
      (use assms(3) t(2-4) vfs_freeD(7) [OF assms(2)] in \<open>simp_all add: opened_def\<close>)
qed

lemma vfs_tfs_read:
  assumes "block_device g ok blk N" "vfs_free v" "opened v fd f (int n) (int p)" "ready ok blk N T (volume_of v f)"
    "file_id (blk (disk (volume_of v f))) name = Some n" "contents blk (volume_of v f) name = Some c"
    "p + k \<le> length c" "length c < 2 ^ 31" "k \<le> length buf"
  obtains v' where "vfs_read (tfs_ops g) (int fd) buf (int k) v = Inr ((int k, take k (drop p c) @ drop k buf), v')"
    "opened v' fd f (int n) (int (p + k))" "filesystems v' = filesystems v"
    "ready ok blk N T (volume_of v' f)" "contents blk (volume_of v' f) = contents blk (volume_of v f)"
proof -
  let ?t = "volume_of v f"
  obtain t where t: "tfs_read g (int n) buf (int k) (int p) ?t = Inr (int k, take k (drop p c) @ drop k buf, t)" "ready ok blk N T t"
    "contents blk t = contents blk ?t"
    using block_device.read_file [OF assms(1,4-6), of p k k buf] assms(7,9) by (auto simp: returns_def)
  have r: "fs_read (tfs_ops g) f (int n) buf (int k) (int p) (drivers v) =
      Inr (int k, take k (drop p c) @ drop k buf, (fst (drivers v))(f := t), snd (drivers v))"
    using on_fs_run [where f = "\<lambda>t. with_buffer (tfs_read g (int n) buf (int k) (int p) t)" and w = "drivers v" and fs = f]
    by (simp add: tfs_ops_def with_buffer_def t(1))
  have wrap: "wrap32 (int p + int k) = int p + int k"
    using assms(7,8) by (intro wrap32_small) simp_all
  show ?thesis
    by (rule that [OF vfs_read_run [OF assms(2,3) _ r _ wrap]])
      (use assms(3) t(2-3) vfs_freeD(7) [OF assms(2)] in \<open>simp_all add: opened_def\<close>)
qed

lemma vfs_tfs_close:
  assumes "vfs_free v" "opened v fd f i p"
  obtains v' where "vfs_close (tfs_ops g) (int fd) v = Inr (VFS_OK, v')" "drivers v' = drivers v" "filesystems v' = filesystems v"
    "of_filesystem (openfiles v' ! fd) = None"
proof -
  have c: "fs_close (tfs_ops g) f i (drivers v) = Inr (VFS_OK, drivers v)"
    by (cases "drivers v") (simp add: tfs_ops_def on_fs_def tfs_close_def)
  show ?thesis
    by (rule that [OF vfs_close_run [OF assms c]]) (use assms(2) vfs_freeD(7) [OF assms(1)] in \<open>simp_all add: opened_def\<close>)
qed

text \<open>
  A file of the trivial file system, used through the virtual file system by its path name
  \<open>[vol]name\<close>, behaves as a file: it can be created, opened, written, rewound and read back, and the
  bytes read are the bytes written; after it is closed the volume has the file with these bytes and
  zeros up to its size and every other file as before, and the virtual file system is unlocked and in
  order.
\<close>

theorem vfs_file_roundtrip:
  assumes "block_device g ok blk N" "vfs_free v" "mounted_at v vol f" "length vol \<le> 14" "CHR '']'' \<notin> set vol"
    "ready ok blk N T (volume_of v f)" "file_name name" "can_create T (blk (disk (volume_of v f))) name sz"
    "\<exists>i < CONFIG_MAX_OPEN_FILES. of_filesystem (openfiles v ! i) = None"
    "sz + 511 < 2 ^ 31" "length data \<le> sz" "length data \<le> length buf"
    and path: "path = ''['' @ vol @ '']'' @ name"
  shows "\<exists>fd v1 v2 v3 v4 v5 v6.
    vfs_create (tfs_ops g) path (int sz) v = Inr (VFS_OK, v1) \<and>
    vfs_open (tfs_ops g) path v1 = Inr (int fd, v2) \<and>
    vfs_write (tfs_ops g) (int fd) data (int (length data)) v2 = Inr (int (length data), v3) \<and>
    vfs_seek (int fd) 0 v3 = Inr (VFS_OK, v4) \<and>
    vfs_read (tfs_ops g) (int fd) buf (int (length data)) v4 = Inr ((int (length data), data @ drop (length data) buf), v5) \<and>
    vfs_close (tfs_ops g) (int fd) v5 = Inr (VFS_OK, v6) \<and>
    contents blk (volume_of v6 f) = (contents blk (volume_of v f))(name \<mapsto> data @ replicate (sz - length data) NUL) \<and>
    vfs_free v6"
proof -
  have p: "vfs_parse_pathname path = Some (vol, name)"
    using assms(4,5,7) by (simp add: parse_pathname_iff path file_name_def)
  obtain t where 1: "vfs_create (tfs_ops g) path (int sz) v = Inr (VFS_OK, v\<lparr>drivers := ((fst (drivers v))(f := t), snd (drivers v))\<rparr>)"
    "ready ok blk N T t" "contents blk t = (contents blk (volume_of v f))(name \<mapsto> replicate sz NUL)"
    by (rule vfs_tfs_create [OF assms(1,2) p assms(3,6,7,10,8)])
  let ?v1 = "v\<lparr>drivers := ((fst (drivers v))(f := t), snd (drivers v))\<rparr>"
  have f1: "vfs_free ?v1" by (rule keeps_freeD(1) [OF assms(2) 1(1)])
  obtain fd n v2 where 2: "vfs_open (tfs_ops g) path ?v1 = Inr (int fd, v2)" "opened v2 fd f (int n) (int 0)"
    "ready ok blk N T (volume_of v2 f)" "contents blk (volume_of v2 f) = contents blk (volume_of ?v1 f)"
    "file_id (blk (disk (volume_of v2 f))) name = Some n"
    by (rule vfs_tfs_open [OF assms(1) f1 p, of f T "replicate sz NUL"])
      (use 1(2,3) assms(3,7,9) in \<open>simp_all add: mounted_at_def\<close>)
  have f2: "vfs_free v2" by (rule keeps_freeD(2) [OF f1 2(1)])
  obtain v3 where 3: "vfs_write (tfs_ops g) (int fd) data (int (length data)) v2 = Inr (int (length data), v3)"
    "opened v3 fd f (int n) (int (0 + length data))" "ready ok blk N T (volume_of v3 f)" "file_id (blk (disk (volume_of v3 f))) name = Some n"
    "contents blk (volume_of v3 f) = (contents blk (volume_of v f))(name \<mapsto> data @ replicate (sz - length data) NUL)"
    by (rule vfs_tfs_write [OF assms(1) f2 2(2,3,5), of "replicate sz NUL" data])
      (use 2(4) 1(3) assms(10,11) in simp_all)
  have f3: "vfs_free v3" by (rule keeps_freeD(3) [OF f2 3(1)])
  let ?v4 = "v3\<lparr>openfiles := (openfiles v3)[fd := \<lparr>of_filesystem = Some f, of_fileid = int n, of_seek_position = int 0\<rparr>]\<rparr>"
  have 4: "vfs_seek (int fd) 0 v3 = Inr (VFS_OK, ?v4)" using vfs_seek_run [OF f3 3(2), of 0] by simp
  have f4: "vfs_free ?v4" by (rule keeps_freeD(4) [OF f3 4])
  have o4: "opened ?v4 fd f (int n) (int 0)" using 3(2) vfs_freeD(7) [OF f3] by (simp add: opened_def)
  obtain v5 where 5: "vfs_read (tfs_ops g) (int fd) buf (int (length data)) ?v4 =
        Inr ((int (length data), take (length data) (drop 0 (data @ replicate (sz - length data) NUL)) @ drop (length data) buf), v5)"
    "opened v5 fd f (int n) (int (0 + length data))" "contents blk (volume_of v5 f) = contents blk (volume_of ?v4 f)"
    by (rule vfs_tfs_read [OF assms(1) f4 o4, of T name "data @ replicate (sz - length data) NUL" "length data" buf])
      (use 3(3-5) assms(10-12) in simp_all)
  have f5: "vfs_free v5" by (rule keeps_freeD(5) [OF f4 5(1)])
  obtain v6 where 6: "vfs_close (tfs_ops g) (int fd) v5 = Inr (VFS_OK, v6)" "drivers v6 = drivers v5"
    by (rule vfs_tfs_close [OF f5 5(2), of g])
  have f6: "vfs_free v6" by (rule keeps_freeD(6) [OF f5 6(1)])
  have "contents blk (volume_of v6 f) = (contents blk (volume_of v f))(name \<mapsto> data @ replicate (sz - length data) NUL)"
    using 6(2) 5(3) 3(5) by simp
  moreover have "vfs_read (tfs_ops g) (int fd) buf (int (length data)) ?v4 = Inr ((int (length data), data @ drop (length data) buf), v5)"
    using 5(1) by simp
  ultimately show ?thesis using 1(1) 2(1) 3(1) 4 6(1) f6 by blast
qed

text \<open>A virtual file system with nothing mounted, and the same with the volume \<^verbatim>\<open>disk1\<close>.\<close>

definition empty_vfs :: "'w \<Rightarrow> 'w vfs" where
  "empty_vfs w = \<lparr>vfs_table_sem = 1, filesystems = replicate CONFIG_MAX_FILESYSTEMS \<lparr>filesystem = None, mountpoint = replicate 16 NUL\<rparr>,
     openfile_table_sem = 1, openfiles = replicate CONFIG_MAX_OPEN_FILES \<lparr>of_filesystem = None, of_fileid = 0, of_seek_position = 0\<rparr>,
     vfs_op_sem = 1, vfs_unmount_sem = 0, vfs_ops = 0, vfs_usable = 1, drivers = w\<rparr>"

lemma empty_vfs_free: "vfs_free (empty_vfs w)"
  by (simp add: empty_vfs_def vfs_free_def vfs_quiet_def tables_ok_def mounted_names_def files_mounted_def)

lemma disk1_name: "file_name ''disk1''"
  by (simp add: file_name_def c_string_def NUL_def)

lemma empty_vfs_mount:
  obtains v where "vfs_mount f ''disk1'' (empty_vfs w) = Inr (VFS_OK, v)" "vfs_free v" "mounted_at v ''disk1'' f" "drivers v = w"
    "openfiles v = openfiles (empty_vfs w)"
proof -
  let ?v = "empty_vfs w"
  let ?e = "\<lparr>filesystem = Some f, mountpoint = ''disk1'' @ replicate 11 NUL\<rparr>"
  have "vfs_mount f ''disk1'' ?v = Inr (VFS_OK, ?v\<lparr>filesystems := (filesystems ?v)[0 := ?e]\<rparr>)"
    using blank_mount [OF empty_vfs_free disk1_name, of w f] by (simp add: empty_vfs_def)
  moreover have "keeps ?v (vfs_mount f ''disk1'' ?v)"
    by (rule vfs_mount_keeps) (use empty_vfs_free [of w] disk1_name in \<open>auto simp: vfs_free_def file_name_def\<close>)
  then have "vfs_free (?v\<lparr>filesystems := (filesystems ?v)[0 := ?e]\<rparr>)"
    using calculation by (rule keeps_free) (rule empty_vfs_free)
  moreover have "?e \<in> set ((filesystems ?v)[0 := ?e])"
    by (intro set_update_memI) (simp add: empty_vfs_def CONFIG_MAX_FILESYSTEMS_def)
  then have "mounted_at (?v\<lparr>filesystems := (filesystems ?v)[0 := ?e]\<rparr>) ''disk1'' f"
    unfolding mounted_at_def using cstring_terminated [of "''disk1''" "replicate 10 NUL"] disk1_name
    by (intro bexI [of _ ?e]) (simp_all add: file_name_def numeral_eq_Suc)
  ultimately show ?thesis by (intro that) (auto simp: empty_vfs_def)
qed

definition sample_world :: "(block list, unit) volumes" where
  "sample_world = (\<lambda>f. sample_volume, sample_kernel)"

theorem vfs_file_roundtrip_witness:
  "\<exists>v fd v1 v2 v3 v4 v5. vfs_mount 5 ''disk1'' (empty_vfs sample_world) = Inr (VFS_OK, v) \<and>
    vfs_create (tfs_ops mem_gbd) ''[disk1]hello'' 600 v = Inr (VFS_OK, v1) \<and>
    vfs_open (tfs_ops mem_gbd) ''[disk1]hello'' v1 = Inr (int fd, v2) \<and>
    vfs_write (tfs_ops mem_gbd) (int fd) ''abc'' 3 v2 = Inr (3, v3) \<and>
    vfs_seek (int fd) 0 v3 = Inr (VFS_OK, v4) \<and>
    vfs_read (tfs_ops mem_gbd) (int fd) ''......'' 3 v4 = Inr ((3, ''abc...''), v5)"
proof -
  have n: "file_name ''hello''" by (simp add: file_name_def c_string_def NUL_def)
  obtain v where v: "vfs_mount 5 ''disk1'' (empty_vfs sample_world) = Inr (VFS_OK, v)" "vfs_free v"
    "mounted_at v ''disk1'' 5" "drivers v = sample_world"
    "openfiles v = openfiles (empty_vfs sample_world)" by (rule empty_vfs_mount)
  have c: "can_create 10 (mem_blk (disk (volume_of v 5))) ''hello'' 600"
    unfolding v(4) sample_world_def fst_conv by (rule sample_can_create) (simp add: blocks_for_def)
  have r: "ready (mem_ok 10) mem_blk 10 10 (volume_of v 5)" using sample_volume_ready by (simp add: v(4) sample_world_def)
  have o: "\<exists>i < CONFIG_MAX_OPEN_FILES. of_filesystem (openfiles v ! i) = None"
    unfolding v(5) by (intro exI [of _ 0]) (simp add: empty_vfs_def CONFIG_MAX_OPEN_FILES_def)
  obtain fd v1 v2 v3 v4 v5 where "vfs_create (tfs_ops mem_gbd) ''[disk1]hello'' (int 600) v = Inr (VFS_OK, v1)"
    "vfs_open (tfs_ops mem_gbd) ''[disk1]hello'' v1 = Inr (int fd, v2)"
    "vfs_write (tfs_ops mem_gbd) (int fd) ''abc'' (int (length ''abc'')) v2 = Inr (int (length ''abc''), v3)"
    "vfs_seek (int fd) 0 v3 = Inr (VFS_OK, v4)"
    "vfs_read (tfs_ops mem_gbd) (int fd) ''......'' (int (length ''abc'')) v4 =
       Inr ((int (length ''abc''), ''abc'' @ drop (length ''abc'') ''......''), v5)"
    using vfs_file_roundtrip [OF mem.block_device_axioms v(2,3) _ _ r n c o, of "''abc''" "''......''" "''[disk1]hello''"]
    by auto
  with v(1) show ?thesis by (intro exI conjI) simp_all
qed

subsection \<open>Mounting again\<close>

lemma vfs_unmount_run:
  assumes "vfs_free v" "mounted_at v name f" "\<And>i. i < CONFIG_MAX_OPEN_FILES \<Longrightarrow> of_filesystem (openfiles v ! i) \<noteq> Some f"
    "fs_unmount ops f (drivers v) = Inr (r, w)"
  obtains v' where "vfs_unmount ops name v = Inr (VFS_OK, v')"
proof -
  note V = vfs_freeD [OF assms(1)]
  let ?row = "first_from (\<lambda>i. stringcmp (cstring (mountpoint (filesystems v ! i))) name = 0) 0 CONFIG_MAX_FILESYSTEMS"
  have row: "?row < CONFIG_MAX_FILESYSTEMS" "filesystem (filesystems v ! ?row) = Some f"
    using get_filesystem_run [OF V(6,8) assms(2)] V(6) by (auto simp: vfs_get_filesystem_def find_from_eq split: if_splits)
  have none: "first_from (\<lambda>i. of_filesystem (openfiles v ! i) = Some f) 0 CONFIG_MAX_OPEN_FILES = CONFIG_MAX_OPEN_FILES"
    using assms(3) by (simp add: first_from_eq_n_iff)
  show ?thesis
    using V row none assms(4)
    by (intro that) (simp add: vfs_unmount_def vfs_op_run [OF assms(1)] vfs_run find_from_eq)
qed

text \<open>
  once a file system has been unmounted successfully, no file system can be mounted under its
  name: \<^verbatim>\<open>vfs_mount\<close> finds the name in the row that is now free and returns \<^verbatim>\<open>VFS_ERROR\<close>, although
  nothing is mounted there.
\<close>

theorem vfs_remount_refused:
  assumes "vfs_free v" "c_string name" "name \<noteq> []" "vfs_unmount ops name v = Inr (VFS_OK, v')"
  shows "vfs_mount fs name v' = Inr (VFS_ERROR, v')"
proof -
  note V = vfs_freeD [OF assms(1)]
  let ?P = "\<lambda>i. stringcmp (cstring (mountpoint (filesystems v ! i))) name = 0"
  let ?row = "first_from ?P 0 CONFIG_MAX_FILESYSTEMS"
  have row: "?row < CONFIG_MAX_FILESYSTEMS" and v': "filesystems v' = (filesystems v)[?row := (filesystems v ! ?row)\<lparr>filesystem := None\<rparr>]"
    using assms(4) V by (auto simp: vfs_unmount_def vfs_op_run [OF assms(1)] vfs_run find_from_eq kres_iff VFS_OK_def
        VFS_NOT_FOUND_def VFS_IN_USE_def split: if_splits option.splits)
  have free: "vfs_free v'"
    using keeps_free [OF vfs_unmount_keeps assms(4,1)] assms(1) by (simp add: vfs_free_def)
  note V' = vfs_freeD [OF free]
  have name: "cstring (mountpoint (filesystems v' ! ?row)) = name" "filesystem (filesystems v' ! ?row) = None"
    using first_from_holds [OF row] row V(6) assms(2) by (simp_all add: v' stringcmp_eq_0)
  define r where "r = first_from (\<lambda>i. filesystem (filesystems v' ! i) = None) 0 CONFIG_MAX_FILESYSTEMS"
  define k where "k = first_from (\<lambda>i. stringcmp (cstring (mountpoint (filesystems v' ! i))) name = 0) 0 CONFIG_MAX_FILESYSTEMS"
  have "r \<noteq> CONFIG_MAX_FILESYSTEMS" "r \<le> CONFIG_MAX_FILESYSTEMS" "k \<noteq> CONFIG_MAX_FILESYSTEMS" "k \<le> CONFIG_MAX_FILESYSTEMS"
    unfolding r_def k_def using name row assms(2) by (auto simp: first_from_eq_n_iff first_from_le stringcmp_eq_0)
  then have "r < CONFIG_MAX_FILESYSTEMS" "k < CONFIG_MAX_FILESYSTEMS" by simp_all
  with V' assms(3) show ?thesis
    by (simp add: vfs_mount_def vfs_op_run [OF free] vfs_run find_from_eq r_def [symmetric] k_def [symmetric])
qed

theorem vfs_remount_refused_witness:
  "\<exists>v v'. vfs_mount 5 ''disk1'' (empty_vfs sample_world) = Inr (VFS_OK, v) \<and>
     vfs_unmount ((tfs_ops mem_gbd)\<lparr>fs_unmount := \<lambda>fs w. Inr (VFS_OK, w)\<rparr>) ''disk1'' v = Inr (VFS_OK, v') \<and>
     vfs_mount 5 ''disk1'' v' = Inr (VFS_ERROR, v')"
proof -
  obtain v where v: "vfs_mount 5 ''disk1'' (empty_vfs sample_world) = Inr (VFS_OK, v)" "vfs_free v" "mounted_at v ''disk1'' 5"
    "openfiles v = openfiles (empty_vfs sample_world)" by (rule empty_vfs_mount)
  obtain v' where v': "vfs_unmount ((tfs_ops mem_gbd)\<lparr>fs_unmount := \<lambda>fs w. Inr (VFS_OK, w)\<rparr>) ''disk1'' v = Inr (VFS_OK, v')"
    by (rule vfs_unmount_run [OF v(2,3), where r = VFS_OK and w = "drivers v" and ops = "(tfs_ops mem_gbd)\<lparr>fs_unmount := \<lambda>fs w. Inr (VFS_OK, w)\<rparr>"]) (use v(4) in \<open>simp_all add: empty_vfs_def\<close>)
  have "vfs_mount 5 ''disk1'' v' = Inr (VFS_ERROR, v')"
    by (rule vfs_remount_refused [OF v(2) _ _ v']) (use disk1_name in \<open>simp_all add: file_name_def\<close>)
  with v(1) v' show ?thesis by blast
qed

end
