(* ===== verification/Process.thy ===== *)
theory Process
  imports Semaphore Libc
begin

text \<open>
  User processes, \<^verbatim>\<open>proc/process.c\<close>: the table of processes, their creation, their end and the join
  of a parent with its child.  Dead children that have not been joined are linked in the table into a
  doubly linked list of their parent.

  The record \<open>procs\<close> holds the global variables of the file and the state of the kernel below it.
  \<open>base\<close> is the address of \<^verbatim>\<open>process_table\<close>, whose rows are the resources a joining thread sleeps on.
\<close>

abbreviation PROCESS_MAX_PROCESSES :: int where "PROCESS_MAX_PROCESSES \<equiv> 8"
abbreviation PROCESS_NAME_MAX :: int where "PROCESS_NAME_MAX \<equiv> 128"

datatype process_state_t = PROCESS_FREE | PROCESS_RUNNING | PROCESS_ZOMBIE

record process_table_t =
  executable :: "char list"
  p_state :: process_state_t
  retval :: int
  parent :: int
  first_zombie :: int
  prev_zombie :: int
  next_zombie :: int
  children :: int

record 'a procs =
  process_table :: "process_table_t list"
  process_table_slock :: uint32
  kernel :: "'a sems_scheme"

definition proc_addr :: "uint32 \<Rightarrow> int \<Rightarrow> uint32" where
  "proc_addr base pid = base + 156 * word_of_int pid"

definition pt_get :: "int \<Rightarrow> 'a procs \<Rightarrow> process_table_t kres" where
  "pt_get pid p = rd (process_table p) pid"

definition pt_upd :: "int \<Rightarrow> (process_table_t \<Rightarrow> process_table_t) \<Rightarrow> 'a procs \<Rightarrow> 'a procs kres" where
  "pt_upd pid f p = bindE (rd (process_table p) pid) (\<lambda>e.
     bindE (wr (process_table p) pid (f e)) (\<lambda>t. Inr (p\<lparr>process_table := t\<rparr>)))"

text \<open>A call of a function of the kernel below.\<close>

definition in_kernel :: "('a sems_scheme \<Rightarrow> ('r \<times> 'a sems_scheme) kres) \<Rightarrow> 'a procs \<Rightarrow> ('r \<times> 'a procs) kres" where
  "in_kernel f p = bindE (f (kernel p)) (\<lambda>(r, s). Inr (r, p\<lparr>kernel := s\<rparr>))"

definition run_kernel :: "('a sems_scheme \<Rightarrow> 'a sems_scheme kres) \<Rightarrow> 'a procs \<Rightarrow> 'a procs kres" where
  "run_kernel f p = bindE (f (kernel p)) (\<lambda>s. Inr (p\<lparr>kernel := s\<rparr>))"

text \<open>The bracket of \<^verbatim>\<open>_interrupt_disable\<close> and \<^verbatim>\<open>spinlock_acquire\<close>, and its end.\<close>

definition lock_table :: "'a procs \<Rightarrow> (uint32 \<times> 'a procs) kres" where
  "lock_table p =
     (let (intr_status, s) = interrupt_disable (kernel p)
      in bindE (spinlock_acquire (process_table_slock p)) (\<lambda>l.
         Inr (intr_status, p\<lparr>kernel := s, process_table_slock := l\<rparr>)))"

definition unlock_table :: "uint32 \<Rightarrow> 'a procs \<Rightarrow> 'a procs" where
  "unlock_table intr_status p =
     p\<lparr>process_table_slock := spinlock_release (process_table_slock p), kernel := interrupt_set_state intr_status (kernel p)\<rparr>"

subsection \<open>The table\<close>

definition process_reset :: "int \<Rightarrow> 'a procs \<Rightarrow> 'a procs kres" where
  "process_reset pid p =
     bindE (pt_get pid p) (\<lambda>e.
     bindE (wr (executable e) 0 NUL) (\<lambda>name.
     pt_upd pid (\<lambda>e. e\<lparr>p_state := PROCESS_FREE, executable := name, retval := 0\<rparr>) p))"

definition process_init :: "'a procs \<Rightarrow> 'a procs kres" where
  "process_init p =
     for_rangeE 0 (nat PROCESS_MAX_PROCESSES + 1) (\<lambda>i. process_reset (int i))
       (p\<lparr>process_table_slock := spinlock_reset (process_table_slock p)\<rparr>)"

text \<open>
  The loop of \<^verbatim>\<open>alloc_process_id\<close> runs to \<^verbatim>\<open>i <= PROCESS_MAX_PROCESSES\<close>, one row further than the
  table has.
\<close>

definition alloc_process_id :: "process_state_t \<Rightarrow> 'a procs \<Rightarrow> (int \<times> 'a procs) kres" where
  "alloc_process_id newstate p =
     bindE (lock_table p) (\<lambda>(intr_status, p).
     bindE (find_from (\<lambda>e. p_state e = PROCESS_FREE) (process_table p) 0 (nat PROCESS_MAX_PROCESSES + 1)) (\<lambda>i.
     bindE (if int i \<le> PROCESS_MAX_PROCESSES then
              bindE (process_reset (int i) p) (pt_upd (int i) (\<lambda>e. e\<lparr>p_state := newstate\<rparr>))
            else Inr p) (\<lambda>p.
     Inr (if int i \<le> PROCESS_MAX_PROCESSES then int i else -1, unlock_table intr_status p))))"

definition process_get_current_process :: "'a procs \<Rightarrow> (int \<times> 'a procs) kres" where
  "process_get_current_process p =
     bindE (in_kernel thread_get_current_thread_entry p) (\<lambda>(e, p). Inr (th_process_id e, p))"

definition process_get_current_process_entry :: "'a procs \<Rightarrow> (process_table_t \<times> 'a procs) kres" where
  "process_get_current_process_entry p =
     bindE (process_get_current_process p) (\<lambda>(pid, p). bindE (pt_get pid p) (\<lambda>e. Inr (e, p)))"

text \<open>\<open>start\<close> is the address of \<^verbatim>\<open>process_start\<close>.\<close>

definition process_spawn :: "symbols \<Rightarrow> uint32 \<Rightarrow> string \<Rightarrow> 'a procs \<Rightarrow> (int \<times> 'a procs) kres" where
  "process_spawn img start name p =
     bindE (process_get_current_process p) (\<lambda>(my_pid, p).
     bindE (alloc_process_id PROCESS_RUNNING p) (\<lambda>(pid, p).
     if pid < 0 then Inr (-1, p)
     else
       bindE (pt_get pid p) (\<lambda>e.
       bindE (stringcopy (executable e) name PROCESS_NAME_MAX) (\<lambda>exe.
       bindE (pt_upd pid (\<lambda>e. e\<lparr>executable := exe, retval := 0, first_zombie := -1, prev_zombie := -1,
                next_zombie := -1, parent := my_pid, children := 0\<rparr>) p) (\<lambda>p.
       bindE (lock_table p) (\<lambda>(intr_status, p).
       bindE (if my_pid \<ge> 0 then pt_upd my_pid (\<lambda>e. e\<lparr>children := children e + 1\<rparr>) p else Inr p) (\<lambda>p.
       let p = unlock_table intr_status p in
       bindE (in_kernel (thread_create img start (word_of_int pid)) p) (\<lambda>(thread, p).
       bindE (run_kernel (thread_run thread) p) (\<lambda>p.
       Inr (pid, p))))))))))"

subsection \<open>Join\<close>

text \<open>Reaping a zombie: the part of \<^verbatim>\<open>process_join\<close> after its loop.\<close>

definition unlink_zombie :: "int \<Rightarrow> int \<Rightarrow> 'a procs \<Rightarrow> 'a procs kres" where
  "unlink_zombie my_pid pid p =
     bindE (pt_get my_pid p) (\<lambda>me.
     bindE (pt_get pid p) (\<lambda>e.
     if first_zombie me = pid then
       let nxt = next_zombie e in
       bindE (pt_upd my_pid (\<lambda>e. e\<lparr>first_zombie := nxt\<rparr>) p) (\<lambda>p.
       if nxt \<ge> 0 then pt_upd nxt (\<lambda>e. e\<lparr>prev_zombie := -1\<rparr>) p else Inr p)
     else
       let prev = prev_zombie e; nxt = next_zombie e in
       bindE (pt_upd prev (\<lambda>e. e\<lparr>next_zombie := nxt\<rparr>) p) (\<lambda>p.
       if nxt \<ge> 0 then pt_upd nxt (\<lambda>e. e\<lparr>prev_zombie := prev\<rparr>) p else Inr p)))"

definition process_reap :: "int \<Rightarrow> int \<Rightarrow> 'a procs \<Rightarrow> (int \<times> 'a procs) kres" where
  "process_reap my_pid pid p =
     bindE (pt_get pid p) (\<lambda>e.
     bindE (pt_upd pid (\<lambda>e. e\<lparr>retval := -1, parent := -1\<rparr>) p) (\<lambda>p.
     bindE (if children e = 0 then
              bindE (pt_upd my_pid (\<lambda>e. e\<lparr>children := children e - 1\<rparr>) p) (\<lambda>p.
              bindE (unlink_zombie my_pid pid p) (process_reset pid))
            else Inr p) (\<lambda>p.
     Inr (retval e, p))))"

text \<open>
  One turn of the loop of \<^verbatim>\<open>process_join\<close> from \<^verbatim>\<open>spinlock_acquire\<close> on: either the child is a
  zombie and the join is done, with the child's return value, or the thread is asleep on the row of
  the child and gives up the processor (\<open>None\<close>); when it runs again, it starts the next turn.
\<close>

definition join_turn :: "uint32 \<Rightarrow> uint32 \<Rightarrow> int \<Rightarrow> int \<Rightarrow> 'a procs \<Rightarrow> (int option \<times> 'a procs) kres" where
  "join_turn base intr_status my_pid pid p =
     bindE (spinlock_acquire (process_table_slock p)) (\<lambda>l.
     let p = p\<lparr>process_table_slock := l\<rparr> in
     bindE (pt_get pid p) (\<lambda>e.
     if p_state e \<noteq> PROCESS_ZOMBIE then
       bindE (run_kernel (sleepq_add (proc_addr base pid)) p) (\<lambda>p.
       Inr (None, p\<lparr>process_table_slock := spinlock_release (process_table_slock p)\<rparr>))
     else
       bindE (process_reap my_pid pid p) (\<lambda>(r, p).
       Inr (Some r, unlock_table intr_status p))))"

definition process_join :: "uint32 \<Rightarrow> int \<Rightarrow> 'a procs \<Rightarrow> (int option \<times> 'a procs) kres" where
  "process_join base pid p =
     bindE (process_get_current_process p) (\<lambda>(my_pid, p).
     bindE (if pid < 0 \<or> pid \<ge> PROCESS_MAX_PROCESSES then Inr True
            else bindE (pt_get pid p) (\<lambda>e. Inr (parent e \<noteq> my_pid))) (\<lambda>bad.
     if bad then Inr (Some (-1), p)
     else
       let (intr_status, s) = interrupt_disable (kernel p)
       in join_turn base intr_status my_pid pid (p\<lparr>kernel := s\<rparr>)))"

subsection \<open>End of a process\<close>

text \<open>The loop that frees the unjoined dead children; a list longer than the table would not end.\<close>

fun free_zombies :: "nat \<Rightarrow> int \<Rightarrow> 'a procs \<Rightarrow> 'a procs kres" where
  "free_zombies n pid p =
     bindE (pt_get pid p) (\<lambda>e.
     if first_zombie e \<ge> 0 then
       case n of 0 \<Rightarrow> Inl Deadlock
       | Suc m \<Rightarrow>
           let zombie = first_zombie e in
           bindE (pt_upd zombie (\<lambda>z. z\<lparr>p_state := PROCESS_FREE, retval := -1, parent := -1\<rparr>) p) (\<lambda>p.
           bindE (pt_get zombie p) (\<lambda>z.
           bindE (pt_upd pid (\<lambda>e. e\<lparr>first_zombie := next_zombie z, children := children e - 1\<rparr>) p)
             (free_zombies m pid)))
     else Inr p)"

declare free_zombies.simps [simp del]

text \<open>The bound counts the chain of parents that end together.\<close>

fun finish_given_process :: "nat \<Rightarrow> uint32 \<Rightarrow> int \<Rightarrow> int \<Rightarrow> 'a procs \<Rightarrow> 'a procs kres" where
  "finish_given_process 0 base pid r p = Inl Deadlock"
| "finish_given_process (Suc n) base pid r p =
     bindE (pt_get pid p) (\<lambda>e.
     let par = parent e in
     bindE (pt_upd pid (\<lambda>e. e\<lparr>retval := r\<rparr>) p) (\<lambda>p.
     bindE (free_zombies (nat PROCESS_MAX_PROCESSES) pid p) (\<lambda>p.
     bindE (if par \<ge> 0 then bindE (pt_get par p) (\<lambda>e. Inr (p_state e = PROCESS_ZOMBIE)) else Inr False) (\<lambda>zombie_parent.
     bindE (if zombie_parent then
              bindE (pt_upd par (\<lambda>e. e\<lparr>children := children e - 1\<rparr>) p) (\<lambda>p.
              bindE (pt_get par p) (\<lambda>e.
              bindE (if children e = 0 \<and> retval e < 0 then finish_given_process n base par 0 p else Inr p)
                (pt_upd pid (\<lambda>e. e\<lparr>p_state := PROCESS_FREE\<rparr>))))
            else if par \<ge> 0 then
              bindE (pt_upd pid (\<lambda>e. e\<lparr>p_state := PROCESS_ZOMBIE\<rparr>) p) (\<lambda>p.
              bindE (pt_get par p) (\<lambda>e.
              let zombie = first_zombie e in
              bindE (pt_upd pid (\<lambda>e. e\<lparr>next_zombie := zombie\<rparr>) p) (\<lambda>p.
              bindE (if zombie \<ge> 0 then pt_upd zombie (\<lambda>e. e\<lparr>prev_zombie := pid\<rparr>) p else Inr p)
                (pt_upd par (\<lambda>e. e\<lparr>first_zombie := pid\<rparr>)))))
            else pt_upd pid (\<lambda>e. e\<lparr>p_state := PROCESS_ZOMBIE\<rparr>) p)
       (run_kernel (sleepq_wake (proc_addr base pid)))))))"

definition process_finish :: "uint32 \<Rightarrow> int \<Rightarrow> 'a procs \<Rightarrow> 'a procs kres" where
  "process_finish base r p =
     bindE (in_kernel thread_get_current_thread_entry p) (\<lambda>(thread, p).
     bindE (in_kernel thread_get_current_thread p) (\<lambda>(my_tid, p).
     let pid = th_process_id thread;
         r = (if r < 0 then 0 else r) in
     bindE (lock_table p) (\<lambda>(intr_status, p).
     bindE (run_kernel (vm_destroy_pagetable (th_pagetable thread)) p) (\<lambda>p.
     bindE (finish_given_process (nat PROCESS_MAX_PROCESSES + 1) base pid r p) (\<lambda>p.
     bindE (run_kernel (tt_upd my_tid (\<lambda>e. e\<lparr>th_pagetable := 0\<rparr>)) p) (\<lambda>p.
     run_kernel thread_finish (unlock_table intr_status p)))))))"

end
