(* ===== verification/Process_Table.thy ===== *)
theory Process_Table
  imports Process
begin

text \<open>
  The process table as a family of rows with doubly linked lists of dead children: the invariant, and
  the effect of the operations of \<^verbatim>\<open>proc/process.c\<close> on it.
\<close>

subsection \<open>Doubly linked lists\<close>

text \<open>
  \<open>chain nx pv i b zs\<close>: following \<open>nx\<close> from \<open>i\<close> visits \<open>zs\<close> and then a negative number; \<open>pv\<close> leads
  back from each element to the one before it and from the first to \<open>b\<close>.
\<close>

fun chain :: "(int \<Rightarrow> int) \<Rightarrow> (int \<Rightarrow> int) \<Rightarrow> int \<Rightarrow> int \<Rightarrow> int list \<Rightarrow> bool" where
  "chain nx pv i b [] \<longleftrightarrow> i < 0"
| "chain nx pv i b (z # zs) \<longleftrightarrow> i = z \<and> 0 \<le> z \<and> pv z = b \<and> chain nx pv (nx z) z zs"

lemma chain_cong:
  "(\<And>z. z \<in> set zs \<Longrightarrow> nx' z = nx z \<and> pv' z = pv z) \<Longrightarrow> chain nx' pv' i b zs = chain nx pv i b zs"
  by (induction zs arbitrary: i b) auto

lemma chain_head: "chain nx pv i b zs \<Longrightarrow> (0 \<le> i \<longleftrightarrow> zs \<noteq> []) \<and> (zs \<noteq> [] \<longrightarrow> i = hd zs)"
  by (cases zs) auto

lemma chain_split:
  "chain nx pv i b (xs @ z # ys) \<Longrightarrow>
     pv z = (if xs = [] then b else last xs) \<and> (if ys = [] then nx z < 0 else nx z = hd ys \<and> 0 \<le> hd ys) \<and>
     0 \<le> z \<and> (xs = [] \<longrightarrow> i = z) \<and> (xs \<noteq> [] \<longrightarrow> i = hd xs)"
proof (induction xs arbitrary: i b)
  case Nil
  then show ?case by (cases ys) auto
next
  case (Cons x xs)
  then show ?case by (cases xs) auto
qed

lemma chain_remove:
  assumes "chain nx pv i b (xs @ z # ys)" "distinct (xs @ z # ys)"
  shows "chain (if xs = [] then nx else nx(last xs := nx z)) (if ys = [] then pv else pv(hd ys := if xs = [] then b else last xs))
    (if xs = [] then nx z else i) b (xs @ ys)"
  using assms
proof (induction xs arbitrary: i b)
  case Nil
  show ?case
  proof (cases ys)
    case (Cons y ys')
    have "chain nx (pv(y := b)) (nx y) y ys' = chain nx pv (nx y) y ys'"
      by (rule chain_cong) (use Nil Cons in auto)
    with Nil Cons show ?thesis by (simp add: fun_upd_def)
  qed (use Nil in simp)
next
  case (Cons x xs)
  show ?case
  proof (cases "xs = []")
    case True
    show ?thesis
    proof (cases ys)
      case (Cons y ys')
      have "chain (nx(x := nx z)) (pv(y := x)) (nx y) y ys' = chain nx pv (nx y) y ys'"
        by (rule chain_cong) (use Cons.prems True Cons in auto)
      with Cons.prems True Cons show ?thesis by (auto simp: fun_upd_def)
    qed (use Cons.prems True in auto)
  next
    case False
    from Cons.prems have "chain nx pv (nx x) x (xs @ z # ys)" "distinct (xs @ z # ys)" by auto
    from Cons.IH [OF this] False Cons.prems show ?thesis
      by (cases ys) (auto simp: fun_upd_def)
  qed
qed

lemma chain_push:
  assumes "chain nx pv i (-1) zs" "z \<notin> set zs" "0 \<le> z" "pv z = -1" "distinct zs"
  shows "chain (nx(z := i)) (if i \<ge> 0 then pv(i := z) else pv) z (-1) (z # zs)"
proof (cases zs)
  case Nil
  with assms show ?thesis by auto
next
  case (Cons y ys)
  have "chain (nx(z := i)) (pv(y := z)) (nx y) y ys = chain nx pv (nx y) y ys"
    by (rule chain_cong) (use assms(2,5) Cons in auto)
  with assms Cons show ?thesis by (auto simp: fun_upd_def)
qed

subsection \<open>Rows\<close>

definition is_pid :: "int \<Rightarrow> bool" where
  "is_pid q \<longleftrightarrow> 0 \<le> q \<and> q < PROCESS_MAX_PROCESSES"

definition tab_ok :: "'a procs \<Rightarrow> bool" where
  "tab_ok p \<longleftrightarrow> length (process_table p) = nat PROCESS_MAX_PROCESSES"

text \<open>The row of a process number, and an empty row for numbers outside the table.\<close>

definition rows :: "'a procs \<Rightarrow> int \<Rightarrow> process_table_t" where
  "rows p q = (if is_pid q then process_table p ! nat q
     else \<lparr>executable = [], p_state = PROCESS_FREE, retval = 0, parent = -1, first_zombie = -1, prev_zombie = -1, next_zombie = -1, children = 0\<rparr>)"

definition put :: "int \<Rightarrow> (process_table_t \<Rightarrow> process_table_t) \<Rightarrow> 'a procs \<Rightarrow> 'a procs" where
  "put q f p = p\<lparr>process_table := (process_table p)[nat q := f (process_table p ! nat q)]\<rparr>"

lemma put_simps [simp]:
  "tab_ok (put q f p) = tab_ok p" "kernel (put q f p) = kernel p" "process_table_slock (put q f p) = process_table_slock p"
  by (simp_all add: put_def tab_ok_def)

lemma rows_put [simp]: "tab_ok p \<Longrightarrow> is_pid q \<Longrightarrow> rows (put q f p) = (rows p)(q := f (rows p q))"
  by (auto simp: rows_def put_def fun_eq_iff tab_ok_def is_pid_def nth_list_update nat_eq_iff)

lemma rows_other [simp]:
  "rows (p\<lparr>kernel := k\<rparr>) = rows p" "rows (p\<lparr>process_table_slock := l\<rparr>) = rows p"
  "tab_ok (p\<lparr>kernel := k\<rparr>) = tab_ok p" "tab_ok (p\<lparr>process_table_slock := l\<rparr>) = tab_ok p"
  by (simp_all add: rows_def tab_ok_def fun_eq_iff)

lemma pt_upd_run [simp]: "tab_ok p \<Longrightarrow> is_pid q \<Longrightarrow> pt_upd q f p = Inr (put q f p)"
  by (auto simp: pt_upd_def put_def tab_ok_def is_pid_def nat_less_iff)

lemma pt_get_run [simp]: "tab_ok p \<Longrightarrow> is_pid q \<Longrightarrow> pt_get q p = Inr (rows p q)"
  by (auto simp: pt_get_def rows_def tab_ok_def is_pid_def nat_less_iff)

lemma is_pid_nonneg: "is_pid q \<Longrightarrow> 0 \<le> q"
  by (simp add: is_pid_def)

lemma process_reset_run [simp]:
  "tab_ok p \<Longrightarrow> is_pid q \<Longrightarrow> executable (rows p q) \<noteq> [] \<Longrightarrow>
   process_reset q p = Inr (put q (\<lambda>e. e\<lparr>p_state := PROCESS_FREE, executable := (executable (rows p q))[0 := NUL], retval := 0\<rparr>) p)"
  by (simp add: process_reset_def)

subsection \<open>The invariant\<close>

abbreviation nx_of :: "(int \<Rightarrow> process_table_t) \<Rightarrow> int \<Rightarrow> int" where "nx_of R \<equiv> \<lambda>q. next_zombie (R q)"
abbreviation pv_of :: "(int \<Rightarrow> process_table_t) \<Rightarrow> int \<Rightarrow> int" where "pv_of R \<equiv> \<lambda>q. prev_zombie (R q)"

text \<open>The children of a process, and those among them that are dead and not joined.\<close>

definition kids :: "(int \<Rightarrow> process_table_t) \<Rightarrow> int \<Rightarrow> int set" where
  "kids R m = {q. is_pid q \<and> p_state (R q) \<noteq> PROCESS_FREE \<and> parent (R q) = m}"

definition dead_kids :: "(int \<Rightarrow> process_table_t) \<Rightarrow> int \<Rightarrow> int set" where
  "dead_kids R m = {q. is_pid q \<and> p_state (R q) = PROCESS_ZOMBIE \<and> parent (R q) = m}"

text \<open>The lists and counters of one running process.\<close>

definition family_ok :: "(int \<Rightarrow> process_table_t) \<Rightarrow> int \<Rightarrow> int list \<Rightarrow> bool" where
  "family_ok R m zs \<longleftrightarrow> chain (nx_of R) (pv_of R) (first_zombie (R m)) (-1) zs \<and> distinct zs \<and>
     set zs = dead_kids R m \<and> children (R m) = int (card (kids R m)) \<and> prev_zombie (R m) = -1"

definition procs_ok :: "(int \<Rightarrow> process_table_t) \<Rightarrow> (int \<Rightarrow> int list) \<Rightarrow> bool" where
  "procs_ok R zs \<longleftrightarrow>
     (\<forall>m. is_pid m \<longrightarrow> length (executable (R m)) = nat PROCESS_NAME_MAX) \<and>
     (\<forall>m. is_pid m \<and> p_state (R m) = PROCESS_RUNNING \<longrightarrow> family_ok R m (zs m)) \<and>
     (\<forall>q. is_pid q \<and> p_state (R q) \<noteq> PROCESS_FREE \<longrightarrow>
        parent (R q) = -1 \<or> is_pid (parent (R q)) \<and> p_state (R (parent (R q))) = PROCESS_RUNNING) \<and>
     (\<forall>q. is_pid q \<and> p_state (R q) = PROCESS_ZOMBIE \<longrightarrow> children (R q) = 0 \<and> 0 \<le> retval (R q))"

lemma procs_okD:
  assumes "procs_ok R zs"
  shows "is_pid m \<Longrightarrow> length (executable (R m)) = nat PROCESS_NAME_MAX"
    "is_pid m \<Longrightarrow> p_state (R m) = PROCESS_RUNNING \<Longrightarrow> family_ok R m (zs m)"
    "is_pid m \<Longrightarrow> p_state (R m) \<noteq> PROCESS_FREE \<Longrightarrow> parent (R m) = -1 \<or> is_pid (parent (R m)) \<and> p_state (R (parent (R m))) = PROCESS_RUNNING"
    "is_pid m \<Longrightarrow> p_state (R m) = PROCESS_ZOMBIE \<Longrightarrow> children (R m) = 0 \<and> 0 \<le> retval (R m)"
  using assms by (auto simp: procs_ok_def)

lemma finite_pids [simp]: "finite {q. is_pid q \<and> P q}"
  by (rule finite_subset [of _ "{0..<8}"]) (auto simp: is_pid_def)

lemma finite_kids [simp]: "finite (kids R m)"
  by (simp add: kids_def)

subsection \<open>Reaping\<close>

text \<open>The rows after \<open>pid\<close> has been taken out of the list \<open>xs @ pid # ys\<close> of \<open>m\<close>.\<close>

definition unlinked :: "int \<Rightarrow> int \<Rightarrow> int list \<Rightarrow> int list \<Rightarrow> (int \<Rightarrow> process_table_t) \<Rightarrow> int \<Rightarrow> process_table_t" where
  "unlinked m pid xs ys R q = (R q)
     \<lparr>first_zombie := (if xs = [] \<and> q = m then next_zombie (R pid) else first_zombie (R q)),
      next_zombie := (if xs \<noteq> [] \<and> q = last xs then next_zombie (R pid) else next_zombie (R q)),
      prev_zombie := (if ys \<noteq> [] \<and> q = hd ys then (if xs = [] then -1 else last xs) else prev_zombie (R q))\<rparr>"

lemma process_row_eqI:
  "executable a = executable b \<Longrightarrow> p_state a = p_state b \<Longrightarrow> retval a = retval b \<Longrightarrow> parent a = parent b \<Longrightarrow>
   first_zombie a = first_zombie b \<Longrightarrow> prev_zombie a = prev_zombie b \<Longrightarrow> next_zombie a = next_zombie b \<Longrightarrow>
   children a = children b \<Longrightarrow> a = (b :: process_table_t)"
  by (cases a, cases b) simp

lemma unlink_zombie_run:
  assumes "tab_ok p" "is_pid m" "m \<notin> set (xs @ pid # ys)" "\<forall>q \<in> set (xs @ pid # ys). is_pid q" "distinct (xs @ pid # ys)"
    "chain (nx_of (rows p)) (pv_of (rows p)) (first_zombie (rows p m)) (-1) (xs @ pid # ys)"
  obtains p' where "unlink_zombie m pid p = Inr p'" "tab_ok p'" "kernel p' = kernel p" "process_table_slock p' = process_table_slock p"
    "rows p' = unlinked m pid xs ys (rows p)"
proof -
  note c = chain_split [OF assms(6)]
  have pid: "is_pid pid" and nx: "ys \<noteq> [] \<Longrightarrow> is_pid (hd ys)" and pv: "xs \<noteq> [] \<Longrightarrow> is_pid (last xs)" using assms(4) by auto
  have first: "first_zombie (rows p m) = pid \<longleftrightarrow> xs = []" using c assms(5) by (cases xs) auto
  have "\<exists>p'. unlink_zombie m pid p = Inr p' \<and> tab_ok p' \<and> kernel p' = kernel p \<and> process_table_slock p' = process_table_slock p \<and>
    rows p' = unlinked m pid xs ys (rows p)"
    using assms(1,2,3,5) c pid nx pv first
    by (cases "xs = []"; cases "ys = []")
      (auto simp: unlink_zombie_def Let_def fun_eq_iff unlinked_def intro!: process_row_eqI)
  then show ?thesis using that by blast
qed

definition reaped :: "int \<Rightarrow> int \<Rightarrow> int list \<Rightarrow> int list \<Rightarrow> (int \<Rightarrow> process_table_t) \<Rightarrow> int \<Rightarrow> process_table_t" where
  "reaped m pid xs ys R q =
     (if q = pid then (unlinked m pid xs ys R q)\<lparr>p_state := PROCESS_FREE, executable := (executable (R q))[0 := NUL], retval := 0, parent := -1\<rparr>
      else if q = m then (unlinked m pid xs ys R q)\<lparr>children := children (R q) - 1\<rparr>
      else unlinked m pid xs ys R q)"

lemma unlinked_fields [simp]:
  "executable (unlinked m pid xs ys R q) = executable (R q)" "p_state (unlinked m pid xs ys R q) = p_state (R q)"
  "retval (unlinked m pid xs ys R q) = retval (R q)" "parent (unlinked m pid xs ys R q) = parent (R q)"
  "children (unlinked m pid xs ys R q) = children (R q)"
  by (simp_all add: unlinked_def)

lemma process_reap_run:
  assumes "tab_ok p" "is_pid m" "m \<notin> set (xs @ pid # ys)" "\<forall>q \<in> set (xs @ pid # ys). is_pid q" "distinct (xs @ pid # ys)"
    "chain (nx_of (rows p)) (pv_of (rows p)) (first_zombie (rows p m)) (-1) (xs @ pid # ys)"
    "children (rows p pid) = 0" "executable (rows p pid) \<noteq> []"
  obtains p' where "process_reap m pid p = Inr (retval (rows p pid), p')" "tab_ok p'" "kernel p' = kernel p"
    "process_table_slock p' = process_table_slock p" "rows p' = reaped m pid xs ys (rows p)"
proof -
  have pid: "is_pid pid" "pid \<noteq> m" using assms(3,4) by auto
  let ?p1 = "put m (\<lambda>e. e\<lparr>children := children e - 1\<rparr>) (put pid (\<lambda>e. e\<lparr>retval := -1, parent := -1\<rparr>) p)"
  have r1: "rows ?p1 = (rows p)(pid := (rows p pid)\<lparr>retval := -1, parent := -1\<rparr>, m := (rows p m)\<lparr>children := children (rows p m) - 1\<rparr>)"
    using assms(1,2) pid by simp
  have "nx_of (rows ?p1) = nx_of (rows p)" "pv_of (rows ?p1) = pv_of (rows p)" "first_zombie (rows ?p1 m) = first_zombie (rows p m)"
    unfolding r1 using pid by auto
  then obtain p2 where 2: "unlink_zombie m pid ?p1 = Inr p2" "tab_ok p2" "kernel p2 = kernel p" "process_table_slock p2 = process_table_slock p"
      "rows p2 = unlinked m pid xs ys (rows ?p1)"
    using unlink_zombie_run [OF _ assms(2-5), of ?p1] assms(1,6) by auto
  let ?p3 = "put pid (\<lambda>e. e\<lparr>p_state := PROCESS_FREE, executable := (executable (rows p2 pid))[0 := NUL], retval := 0\<rparr>) p2"
  have "process_reset pid p2 = Inr ?p3" using 2(2,5) pid assms(8) by (simp add: r1)
  then have "process_reap m pid p = Inr (retval (rows p pid), ?p3)"
    using assms(1,2,7) pid 2(1) by (simp add: process_reap_def)
  moreover have "rows ?p3 = reaped m pid xs ys (rows p)"
    using 2(2,5) pid by (auto simp: r1 fun_eq_iff reaped_def unlinked_def intro!: process_row_eqI)
  ultimately show ?thesis using 2(2-4) by (intro that) simp_all
qed

lemma reaped_next: "next_zombie (reaped m pid xs ys R q) = (if xs \<noteq> [] \<and> q = last xs then next_zombie (R pid) else next_zombie (R q))"
  and reaped_prev: "prev_zombie (reaped m pid xs ys R q) =
      (if ys \<noteq> [] \<and> q = hd ys then (if xs = [] then -1 else last xs) else prev_zombie (R q))"
  by (simp_all add: reaped_def unlinked_def)

lemma reaped_links:
  assumes "q \<notin> set (xs @ pid # ys)"
  shows "next_zombie (reaped m pid xs ys R q) = next_zombie (R q)" "prev_zombie (reaped m pid xs ys R q) = prev_zombie (R q)"
  using assms by (auto simp: reaped_next reaped_prev)

lemma reaped_first: "q \<noteq> m \<Longrightarrow> first_zombie (reaped m pid xs ys R q) = first_zombie (R q)"
  by (simp add: reaped_def unlinked_def)

lemma dead_kidsD: "q \<in> dead_kids R m \<Longrightarrow> is_pid q \<and> p_state (R q) = PROCESS_ZOMBIE \<and> parent (R q) = m"
  by (simp add: dead_kids_def)

lemma reaped_ok:
  assumes ok: "procs_ok R zs" and m: "is_pid m" "p_state (R m) = PROCESS_RUNNING" and zs: "zs m = xs @ pid # ys"
  shows "procs_ok (reaped m pid xs ys R) (zs(m := xs @ ys))"
proof -
  let ?R = "reaped m pid xs ys R"
  note D = procs_okD [OF ok]
  have fm: "chain (nx_of R) (pv_of R) (first_zombie (R m)) (-1) (xs @ pid # ys)" "distinct (xs @ pid # ys)"
    "set (xs @ pid # ys) = dead_kids R m" "children (R m) = int (card (kids R m))" "prev_zombie (R m) = -1"
    using D(2) [OF m] zs by (simp_all add: family_ok_def)
  have z: "is_pid q" "p_state (R q) = PROCESS_ZOMBIE" "parent (R q) = m" if "q \<in> set (xs @ pid # ys)" for q
    using that fm(3) by (auto dest: dead_kidsD)
  have pid: "is_pid pid" "p_state (R pid) = PROCESS_ZOMBIE" "parent (R pid) = m" using z [of pid] by simp_all
  then have pm: "pid \<noteq> m" using m by auto
  have st: "p_state (?R q) = (if q = pid then PROCESS_FREE else p_state (R q))" "parent (?R q) = (if q = pid then -1 else parent (R q))" for q
    by (simp_all add: reaped_def)
  have kids': "kids ?R k = kids R k - {pid}" "dead_kids ?R k = dead_kids R k - {pid}" for k
    by (auto simp: kids_def dead_kids_def st)
  have other: "family_ok ?R k (zs k)" if k: "is_pid k" "p_state (R k) = PROCESS_RUNNING" "k \<noteq> m" for k
  proof -
    have fk: "family_ok R k (zs k)" by (rule D(2) [OF k(1,2)])
    then have sk: "set (zs k) = dead_kids R k" by (simp add: family_ok_def)
    have out: "q \<notin> set (xs @ pid # ys)" if "q \<in> set (zs k)" for q
      using that sk z(3) k(3) by (auto dest: dead_kidsD)
    have "chain (nx_of ?R) (pv_of ?R) (first_zombie (?R k)) (-1) (zs k) = chain (nx_of R) (pv_of R) (first_zombie (R k)) (-1) (zs k)"
      unfolding reaped_first [OF k(3)]
      by (rule chain_cong) (simp only: reaped_links [OF out] simp_thms)
    moreover have "pid \<notin> dead_kids R k" "pid \<notin> kids R k" using pid(3) k(3) by (auto simp: dead_kids_def kids_def)
    moreover have "k \<noteq> pid" using k(2) pid(2) by auto
    moreover have "k \<notin> set (xs @ pid # ys)" using k(2) z(2) [of k] by auto
    then have "prev_zombie (?R k) = prev_zombie (R k)" by (rule reaped_links)
    ultimately show ?thesis using fk k(3) unfolding family_ok_def kids' by (simp add: reaped_def)
  qed
  have own: "family_ok ?R m (xs @ ys)"
  proof -
    have eq: "nx_of ?R q = (if xs = [] then nx_of R else (nx_of R)(last xs := nx_of R pid)) q \<and>
        pv_of ?R q = (if ys = [] then pv_of R else (pv_of R)(hd ys := if xs = [] then -1 else last xs)) q" for q
      unfolding reaped_next reaped_prev by (cases "xs = []"; cases "ys = []") simp_all
    have "first_zombie (?R m) = (if xs = [] then next_zombie (R pid) else first_zombie (R m))"
      using pm by (simp add: reaped_def unlinked_def)
    then have "chain (nx_of ?R) (pv_of ?R) (first_zombie (?R m)) (-1) (xs @ ys)"
      using chain_remove [OF fm(1,2)] by (simp only: chain_cong [where zs = "xs @ ys", OF eq])
    moreover have "pid \<in> kids R m" using pid by (simp add: kids_def)
    then have "int (card (kids ?R m)) = children (?R m)"
      using fm(4) pm card_gt_0_iff [of "kids R m"] by (auto simp: kids' reaped_def of_nat_diff)
    moreover have "m \<notin> set (xs @ pid # ys)" using m(2) z(2) [of m] by auto
    then have "prev_zombie (?R m) = -1" unfolding fm(5) [symmetric] by (rule reaped_links)
    ultimately show ?thesis using fm(2,3) unfolding family_ok_def by (auto simp: kids')
  qed
  show ?thesis
    unfolding procs_ok_def
  proof (intro conjI allI impI)
    fix q
    show "length (executable (?R q)) = nat PROCESS_NAME_MAX" if "is_pid q" using D(1) [OF that] by (auto simp: reaped_def)
    show "family_ok ?R q ((zs(m := xs @ ys)) q)" if "is_pid q \<and> p_state (?R q) = PROCESS_RUNNING"
      using that own other [of q] by (auto simp: st split: if_splits)
    show "parent (?R q) = -1 \<or> is_pid (parent (?R q)) \<and> p_state (?R (parent (?R q))) = PROCESS_RUNNING"
      if "is_pid q \<and> p_state (?R q) \<noteq> PROCESS_FREE"
      using that D(3) [of q] pid(2) by (auto simp: st split: if_splits)
    assume q: "is_pid q \<and> p_state (?R q) = PROCESS_ZOMBIE"
    show "children (?R q) = 0" using q D(4) [of q] m(2) by (auto simp: reaped_def split: if_splits)
    show "0 \<le> retval (?R q)" using q D(4) [of q] by (auto simp: reaped_def split: if_splits)
  qed
qed

subsection \<open>The end of a process\<close>

text \<open>The rows after the dead children \<open>zs\<close> of \<open>pid\<close> have been freed; \<open>f\<close> is the end mark of their list.\<close>

definition buried :: "int \<Rightarrow> int \<Rightarrow> int list \<Rightarrow> (int \<Rightarrow> process_table_t) \<Rightarrow> int \<Rightarrow> process_table_t" where
  "buried f pid zs R q =
     (if q \<in> set zs then (R q)\<lparr>p_state := PROCESS_FREE, retval := -1, parent := -1\<rparr>
      else if q = pid then (R q)\<lparr>first_zombie := f, children := children (R q) - int (length zs)\<rparr>
      else R q)"

lemma free_zombies_run:
  assumes "tab_ok p" "is_pid pid" "chain (nx_of (rows p)) (pv_of (rows p)) (first_zombie (rows p pid)) b zs"
    "distinct zs" "pid \<notin> set zs" "\<forall>q \<in> set zs. is_pid q" "length zs \<le> n"
  shows "\<exists>p' f. free_zombies n pid p = Inr p' \<and> tab_ok p' \<and> kernel p' = kernel p \<and> process_table_slock p' = process_table_slock p \<and>
    f < 0 \<and> rows p' = buried f pid zs (rows p)"
  using assms
proof (induction zs arbitrary: n p b)
  case Nil
  then have "rows p = buried (first_zombie (rows p pid)) pid [] (rows p)" by (auto simp: buried_def fun_eq_iff)
  with Nil show ?case by (auto simp: free_zombies.simps [of n])
next
  case (Cons z zs)
  then obtain m where n: "n = Suc m" by (cases n) auto
  have z: "is_pid z" "z \<noteq> pid" "first_zombie (rows p pid) = z" "0 \<le> z" using Cons.prems by auto
  let ?p1 = "put z (\<lambda>z. z\<lparr>p_state := PROCESS_FREE, retval := -1, parent := -1\<rparr>) p"
  let ?p2 = "put pid (\<lambda>e. e\<lparr>first_zombie := next_zombie (rows p z), children := children e - 1\<rparr>) ?p1"
  have r2: "rows ?p2 = (rows p)(z := (rows p z)\<lparr>p_state := PROCESS_FREE, retval := -1, parent := -1\<rparr>,
      pid := (rows p pid)\<lparr>first_zombie := next_zombie (rows p z), children := children (rows p pid) - 1\<rparr>)"
    using Cons.prems(1,2) z by simp
  have step: "free_zombies n pid p = free_zombies m pid ?p2"
    using Cons.prems(1,2) z by (simp add: free_zombies.simps [of "Suc m"] n)
  have "nx_of (rows ?p2) = nx_of (rows p)" "pv_of (rows ?p2) = pv_of (rows p)" "first_zombie (rows ?p2 pid) = next_zombie (rows p z)"
    unfolding r2 using z by auto
  then have c: "chain (nx_of (rows ?p2)) (pv_of (rows ?p2)) (first_zombie (rows ?p2 pid)) z zs" using Cons.prems(3) by simp
  have "\<exists>p' f. free_zombies m pid ?p2 = Inr p' \<and> tab_ok p' \<and> kernel p' = kernel ?p2 \<and>
      process_table_slock p' = process_table_slock ?p2 \<and> f < 0 \<and> rows p' = buried f pid zs (rows ?p2)"
    by (rule Cons.IH [OF _ Cons.prems(2) c]) (use Cons.prems n in auto)
  then obtain p' f where p': "free_zombies m pid ?p2 = Inr p'" "tab_ok p'" "kernel p' = kernel ?p2"
    "process_table_slock p' = process_table_slock ?p2" "f < 0" "rows p' = buried f pid zs (rows ?p2)" by blast
  have "rows p' = buried f pid (z # zs) (rows p)"
    unfolding p'(6) r2 using z Cons.prems(4,5) by (auto simp: buried_def fun_eq_iff)
  with p' step show ?case by auto
qed

text \<open>The rows after \<open>pid\<close> has become a zombie of \<open>par\<close>, at the head of its list.\<close>

definition died :: "int \<Rightarrow> int \<Rightarrow> (int \<Rightarrow> process_table_t) \<Rightarrow> int \<Rightarrow> process_table_t" where
  "died pid par R q =
     (if q = pid then (R q)\<lparr>p_state := PROCESS_ZOMBIE, next_zombie := (if par \<ge> 0 then first_zombie (R par) else next_zombie (R q))\<rparr>
      else if par \<ge> 0 \<and> q = par then (R q)\<lparr>first_zombie := pid\<rparr>
      else if par \<ge> 0 \<and> q = first_zombie (R par) \<and> 0 \<le> q then (R q)\<lparr>prev_zombie := pid\<rparr>
      else R q)"

definition finished :: "int \<Rightarrow> int \<Rightarrow> int \<Rightarrow> int list \<Rightarrow> (int \<Rightarrow> process_table_t) \<Rightarrow> int \<Rightarrow> process_table_t" where
  "finished f r pid zs R = died pid (parent (R pid)) (buried f pid zs (R(pid := (R pid)\<lparr>retval := r\<rparr>)))"

lemma finished_fields:
  assumes "is_pid pid" "p_state (R pid) = PROCESS_RUNNING" "parent (R pid) = -1 \<or> is_pid (parent (R pid)) \<and> p_state (R (parent (R pid))) = PROCESS_RUNNING"
    "parent (R pid) \<noteq> pid" "\<And>q. q \<in> set zs \<Longrightarrow> p_state (R q) = PROCESS_ZOMBIE"
    "par = parent (R pid)"
  shows "p_state (finished f r pid zs R q) = (if q = pid then PROCESS_ZOMBIE else if q \<in> set zs then PROCESS_FREE else p_state (R q))"
    "parent (finished f r pid zs R q) = (if q \<in> set zs then -1 else parent (R q))"
    "retval (finished f r pid zs R q) = (if q \<in> set zs then -1 else if q = pid then r else retval (R q))"
    "children (finished f r pid zs R q) = (if q = pid then children (R q) - int (length zs) else children (R q))"
    "executable (finished f r pid zs R q) = executable (R q)"
    "next_zombie (finished f r pid zs R q) = (if q = pid \<and> 0 \<le> par then first_zombie (R par) else next_zombie (R q))"
    "first_zombie (finished f r pid zs R q) = (if q = pid then f else if q = par \<and> 0 \<le> par then pid else first_zombie (R q))"
    "0 \<le> par \<Longrightarrow> q \<noteq> pid \<Longrightarrow> q \<noteq> par \<Longrightarrow> prev_zombie (finished f r pid zs R q) = (if q = first_zombie (R par) \<and> 0 \<le> q then pid else prev_zombie (R q))"
    "par < 0 \<or> q = pid \<or> q = par \<Longrightarrow> prev_zombie (finished f r pid zs R q) = prev_zombie (R q)"
proof -
  have "pid \<notin> set zs" "0 \<le> par \<Longrightarrow> par \<notin> set zs" using assms(2,3,5) assms(6) by (auto simp: is_pid_def)
  moreover have "par \<noteq> pid" using assms(4,6) by simp
  ultimately show "p_state (finished f r pid zs R q) = (if q = pid then PROCESS_ZOMBIE else if q \<in> set zs then PROCESS_FREE else p_state (R q))"
    "parent (finished f r pid zs R q) = (if q \<in> set zs then -1 else parent (R q))"
    "retval (finished f r pid zs R q) = (if q \<in> set zs then -1 else if q = pid then r else retval (R q))"
    "children (finished f r pid zs R q) = (if q = pid then children (R q) - int (length zs) else children (R q))"
    "executable (finished f r pid zs R q) = executable (R q)"
    "next_zombie (finished f r pid zs R q) = (if q = pid \<and> 0 \<le> par then first_zombie (R par) else next_zombie (R q))"
    "first_zombie (finished f r pid zs R q) = (if q = pid then f else if q = par \<and> 0 \<le> par then pid else first_zombie (R q))"
    "0 \<le> par \<Longrightarrow> q \<noteq> pid \<Longrightarrow> q \<noteq> par \<Longrightarrow> prev_zombie (finished f r pid zs R q) = (if q = first_zombie (R par) \<and> 0 \<le> q then pid else prev_zombie (R q))"
    "par < 0 \<or> q = pid \<or> q = par \<Longrightarrow> prev_zombie (finished f r pid zs R q) = prev_zombie (R q)"
    unfolding finished_def died_def buried_def assms(6) [symmetric] by auto
qed

text \<open>What \<^verbatim>\<open>finish_given_process\<close> needs of a process: it runs and all its children are dead.\<close>

definition can_finish :: "(int \<Rightarrow> process_table_t) \<Rightarrow> int \<Rightarrow> bool" where
  "can_finish R pid \<longleftrightarrow> is_pid pid \<and> p_state (R pid) = PROCESS_RUNNING \<and> kids R pid = dead_kids R pid"

lemma can_finish_parent:
  assumes "procs_ok R zs" "can_finish R pid"
  shows "parent (R pid) \<noteq> pid" "parent (R pid) = -1 \<or> is_pid (parent (R pid)) \<and> p_state (R (parent (R pid))) = PROCESS_RUNNING"
    "family_ok R pid (zs pid)" "set (zs pid) = kids R pid" "children (R pid) = int (length (zs pid))"
proof -
  have p: "is_pid pid" "p_state (R pid) = PROCESS_RUNNING" "kids R pid = dead_kids R pid" using assms(2) by (simp_all add: can_finish_def)
  show "parent (R pid) = -1 \<or> is_pid (parent (R pid)) \<and> p_state (R (parent (R pid))) = PROCESS_RUNNING"
    using procs_okD(3) [OF assms(1) p(1)] p(2) by simp
  have "pid \<notin> dead_kids R pid" using p(2) by (auto dest: dead_kidsD)
  then have "pid \<notin> kids R pid" using p(3) by simp
  then show "parent (R pid) \<noteq> pid" using p(1,2) by (auto simp: kids_def)
  show f: "family_ok R pid (zs pid)" by (rule procs_okD(2) [OF assms(1) p(1,2)])
  then show "set (zs pid) = kids R pid" "children (R pid) = int (length (zs pid))"
    using p(3) distinct_card [of "zs pid"] by (auto simp: family_ok_def)
qed

lemma first_zombie_kid:
  assumes "procs_ok R zs" "is_pid m" "p_state (R m) = PROCESS_RUNNING" "0 \<le> first_zombie (R m)"
  shows "first_zombie (R m) \<in> dead_kids R m"
proof -
  have "chain (nx_of R) (pv_of R) (first_zombie (R m)) (-1) (zs m)" "set (zs m) = dead_kids R m"
    using procs_okD(2) [OF assms(1-3)] by (simp_all add: family_ok_def)
  with chain_head [of "nx_of R" "pv_of R" "first_zombie (R m)" "-1" "zs m"] assms(4) show ?thesis
    using hd_in_set [of "zs m"] by auto
qed

lemma finished_ok:
  assumes ok: "procs_ok R zs" and fin: "can_finish R pid" and r: "0 \<le> r" and par: "par = parent (R pid)"
  shows "procs_ok (finished f r pid (zs pid) R) (if 0 \<le> par then zs(par := pid # zs par) else zs)"
proof -
  let ?R = "finished f r pid (zs pid) R"
  note D = procs_okD [OF ok] and P = can_finish_parent [OF ok fin]
  have pid: "is_pid pid" "p_state (R pid) = PROCESS_RUNNING" "kids R pid = dead_kids R pid" using fin by (simp_all add: can_finish_def)
  have Z: "p_state (R q) = PROCESS_ZOMBIE" "is_pid q" "parent (R q) = pid" if "q \<in> set (zs pid)" for q
    using that P(4) pid(3) by (auto dest: dead_kidsD)
  note F = finished_fields [OF pid(1,2) P(2,1) Z(1) par, where f = f and r = r]
  have par': "0 \<le> par \<Longrightarrow> is_pid par \<and> p_state (R par) = PROCESS_RUNNING \<and> par \<noteq> pid" using P(1,2) par by auto
  have kid: "q \<in> set (zs pid)" if "is_pid q" "p_state (R q) \<noteq> PROCESS_FREE" "parent (R q) = pid" for q
    using that P(4) by (auto simp: kids_def)
  have kids': "kids ?R k = kids R k" if "is_pid k" "k \<noteq> pid" for k
    using that pid Z(3) by (auto simp: kids_def F is_pid_def split: if_splits)
  have dead': "dead_kids ?R k = (if k = par then insert pid (dead_kids R k) else dead_kids R k)" if "is_pid k" "k \<noteq> pid" for k
    using that pid Z(3) par by (auto simp: dead_kids_def F is_pid_def split: if_splits)
  have fam: "family_ok ?R k ((if 0 \<le> par then zs(par := pid # zs par) else zs) k)"
    if k: "is_pid k" "p_state (?R k) = PROCESS_RUNNING" for k
  proof -
    have k': "k \<noteq> pid" "p_state (R k) = PROCESS_RUNNING" using k(2) by (auto simp: F split: if_splits)
    have fk: "chain (nx_of R) (pv_of R) (first_zombie (R k)) (-1) (zs k)" "distinct (zs k)" "set (zs k) = dead_kids R k"
      "children (R k) = int (card (kids R k))" "pv_of R k = -1" using D(2) [OF k(1) k'(2)] by (simp_all add: family_ok_def)
    have nopid: "pid \<notin> set (zs k)" using fk(3) pid(2) by (auto dest: dead_kidsD)
    have first: "first_zombie (R par) \<in> dead_kids R par" if "0 \<le> par" "0 \<le> first_zombie (R par)"
      using first_zombie_kid [OF ok] par' [OF that(1)] that(2) by blast
    have pvk: "pv_of ?R k = -1"
    proof (cases "0 \<le> par \<and> k \<noteq> par")
      case True
      then have "k \<noteq> first_zombie (R par)" using dead_kidsD [OF first] k(1) k'(2) by (auto simp: is_pid_def)
      with True k' fk(5) show ?thesis by (simp add: F)
    qed (use fk(5) k' in \<open>auto simp: F\<close>)
    show ?thesis
    proof (cases "0 \<le> par \<and> k = par")
      case True
      have pv: "pv_of R pid = -1" using P(3) by (simp add: family_ok_def)
      have "chain (nx_of ?R) (pv_of ?R) pid (-1) (pid # zs par)"
      proof -
        let ?nx = "(nx_of R)(pid := first_zombie (R par))"
        let ?pv = "if 0 \<le> first_zombie (R par) then (pv_of R)(first_zombie (R par) := pid) else pv_of R"
        have "nx_of ?R q = ?nx q \<and> pv_of ?R q = ?pv q" if "q \<in> set (pid # zs par)" for q
        proof -
          have q: "is_pid q" "q \<noteq> par" using that pid fk(3) True par' by (auto dest: dead_kidsD)
          show ?thesis
          proof (cases "q = pid")
            case True
            with dead_kidsD [OF first] \<open>0 \<le> par \<and> k = par\<close> pid(2) is_pid_nonneg [OF pid(1)] show ?thesis by (auto simp: F)
          next
            case False
            with q \<open>0 \<le> par \<and> k = par\<close> show ?thesis by (auto simp: F is_pid_def)
          qed
        qed
        then have "chain (nx_of ?R) (pv_of ?R) pid (-1) (pid # zs par) = chain ?nx ?pv pid (-1) (pid # zs par)"
          by (rule chain_cong)
        then show ?thesis
          using chain_push [OF fk(1) nopid is_pid_nonneg [OF pid(1)] pv fk(2)] True by (simp only: simp_thms)
      qed
      then show ?thesis
        using True k k' fk nopid pvk kids' [OF k(1) k'(1)] dead' [OF k(1) k'(1)] by (simp add: family_ok_def F)
    next
      case False
      have out: "nx_of ?R q = nx_of R q \<and> pv_of ?R q = pv_of R q" if q: "q \<in> set (zs k)" for q
      proof -
        have "q \<noteq> pid" using q nopid by auto
        moreover have "0 \<le> par \<Longrightarrow> q \<noteq> first_zombie (R par)"
          using first q fk(3) False by (metis dead_kidsD is_pid_def)
        ultimately show ?thesis by (cases "0 \<le> par \<and> q \<noteq> par") (auto simp: F)
      qed
      then show ?thesis
        using False k k' fk pvk kids' [OF k(1) k'(1)] dead' [OF k(1) k'(1)] chain_cong [of "zs k" "nx_of ?R" "nx_of R" "pv_of ?R" "pv_of R"] par k(1)
        by (auto simp: family_ok_def F is_pid_def)
    qed
  qed
  show ?thesis
    unfolding procs_ok_def
  proof (intro conjI allI impI)
    fix q
    show "length (executable (?R q)) = nat PROCESS_NAME_MAX" if "is_pid q" using D(1) [OF that] by (simp add: F)
    show "family_ok ?R q ((if 0 \<le> par then zs(par := pid # zs par) else zs) q)" if "is_pid q \<and> p_state (?R q) = PROCESS_RUNNING"
      using that fam by blast
    show "parent (?R q) = -1 \<or> is_pid (parent (?R q)) \<and> p_state (?R (parent (?R q))) = PROCESS_RUNNING"
      if q: "is_pid q \<and> p_state (?R q) \<noteq> PROCESS_FREE"
    proof (cases "q = pid")
      case True
      then show ?thesis using P(1,2) Z(1) [of "parent (R pid)"] by (auto simp: F)
    next
      case False
      then have "q \<notin> set (zs pid)" "p_state (R q) \<noteq> PROCESS_FREE" using q by (auto simp: F split: if_splits)
      then show ?thesis using D(3) [of q] q kid [of q] Z(1) [of "parent (R q)"] by (auto simp: F)
    qed
    assume q: "is_pid q \<and> p_state (?R q) = PROCESS_ZOMBIE"
    show "children (?R q) = 0" using q D(4) [of q] P(5) by (auto simp: F split: if_splits)
    show "0 \<le> retval (?R q)" using q D(4) [of q] r Z(1) [of pid] pid(2) by (auto simp: F split: if_splits)
  qed
qed

end
