(* ===== verification/Process_Spec.thy ===== *)
theory Process_Spec
  imports Process_Table
begin

text \<open>
  What the process table guarantees while every process outlives its children, and what goes wrong
  otherwise: spawn, end and join as steps, the invariant of the table along all their sequences, the
  value a join returns, and the accesses outside the table.
\<close>

subsection \<open>Runs of the operations\<close>

lemma stringcopy_length:
  assumes "c_string source" "1 \<le> n" "nat n = length target"
  obtains b where "stringcopy target source n = Inr b" "length b = length target"
  using stringcopy_from_eq [OF assms(1) refl _ assms(2), where i = 0 and target = target] assms(2,3)
  by (auto simp: stringcopy_def)

lemma length_zombies:
  assumes "distinct zs" "\<forall>q \<in> set zs. is_pid q"
  shows "length zs \<le> nat PROCESS_MAX_PROCESSES"
proof -
  have "set zs \<subseteq> {0..<8}" using assms(2) by (auto simp: is_pid_def)
  then have "card (set zs) \<le> card {0..<8 :: int}" by (intro card_mono) simp_all
  with distinct_card [OF assms(1)] show ?thesis by simp
qed

lemma finish_given_run:
  assumes "tab_ok p" "procs_ok (rows p) zs" "can_finish (rows p) pid"
  obtains p' f where "finish_given_process (Suc n) base pid r p = run_kernel (sleepq_wake (proc_addr base pid)) p'" "tab_ok p'"
    "kernel p' = kernel p" "process_table_slock p' = process_table_slock p" "rows p' = finished f r pid (zs pid) (rows p)"
proof -
  let ?R = "rows p" and ?par = "parent (rows p pid)"
  note P = can_finish_parent [OF assms(2,3)]
  have pid: "is_pid pid" "p_state (?R pid) = PROCESS_RUNNING" "kids ?R pid = dead_kids ?R pid" using assms(3) by (simp_all add: can_finish_def)
  have zs: "chain (nx_of ?R) (pv_of ?R) (first_zombie (?R pid)) (-1) (zs pid)" "distinct (zs pid)" "set (zs pid) = dead_kids ?R pid"
    using P(3) by (simp_all add: family_ok_def)
  have Z: "\<forall>q \<in> set (zs pid). is_pid q" "pid \<notin> set (zs pid)" "?par \<notin> set (zs pid)"
    using zs(3) pid(2) P(2) by (auto simp: is_pid_def dest: dead_kidsD)
  let ?p1 = "put pid (\<lambda>e. e\<lparr>retval := r\<rparr>) p"
  have r1: "rows ?p1 = ?R(pid := (?R pid)\<lparr>retval := r\<rparr>)" using assms(1) pid(1) by simp
  have "nx_of (rows ?p1) = nx_of ?R" "pv_of (rows ?p1) = pv_of ?R" "first_zombie (rows ?p1 pid) = first_zombie (?R pid)" unfolding r1 by auto
  then have "\<exists>p' f. free_zombies (nat PROCESS_MAX_PROCESSES) pid ?p1 = Inr p' \<and> tab_ok p' \<and> kernel p' = kernel ?p1 \<and>
      process_table_slock p' = process_table_slock ?p1 \<and> f < 0 \<and> rows p' = buried f pid (zs pid) (rows ?p1)"
    using free_zombies_run [OF _ pid(1), of ?p1 "-1" "zs pid"] assms(1) zs(1,2) Z length_zombies [OF zs(2) Z(1)] by simp
  then obtain p2 f where p2: "free_zombies (nat PROCESS_MAX_PROCESSES) pid ?p1 = Inr p2" "tab_ok p2" "kernel p2 = kernel p"
    "process_table_slock p2 = process_table_slock p" "rows p2 = buried f pid (zs pid) (rows ?p1)" by auto
  have par: "0 \<le> ?par \<Longrightarrow> is_pid ?par \<and> p_state (rows p2 ?par) \<noteq> PROCESS_ZOMBIE \<and> first_zombie (rows p2 ?par) = first_zombie (?R ?par)"
    using P(1,2) Z(3) by (auto simp: p2(5) r1 buried_def)
  have first: "is_pid z" "z \<noteq> pid" "z \<noteq> ?par" if "0 \<le> ?par" "z = first_zombie (?R ?par)" "0 \<le> z" for z
    using first_zombie_kid [OF assms(2), of ?par] that par P(2) pid(2) by (auto dest: dead_kidsD)
  have "\<exists>p'. finish_given_process (Suc n) base pid r p = run_kernel (sleepq_wake (proc_addr base pid)) p' \<and> tab_ok p' \<and>
    kernel p' = kernel p \<and> process_table_slock p' = process_table_slock p \<and> rows p' = died pid ?par (rows p2)"
  proof (cases "0 \<le> ?par")
    case False
    then show ?thesis
      using assms(1) pid(1) p2 by (auto simp: Let_def died_def fun_eq_iff)
  next
    case True
    define par where "par = ?par"
    define z where "z = first_zombie (?R par)"
    have par: "is_pid par" "par \<noteq> pid" "0 \<le> par" "p_state (rows p2 par) \<noteq> PROCESS_ZOMBIE" "first_zombie (rows p2 par) = z" "parent (rows p pid) = par"
      using par [OF True] P(1) True by (simp_all add: par_def z_def)
    have z: "0 \<le> z \<Longrightarrow> is_pid z \<and> z \<noteq> pid \<and> z \<noteq> par" using first [OF True] by (simp add: par_def z_def)
    let ?q = "put pid (\<lambda>e. e\<lparr>next_zombie := z\<rparr>) (put pid (\<lambda>e. e\<lparr>p_state := PROCESS_ZOMBIE\<rparr>) p2)"
    show ?thesis
    proof (cases "0 \<le> z")
      case True
      let ?p3 = "put par (\<lambda>e. e\<lparr>first_zombie := pid\<rparr>) (put z (\<lambda>e. e\<lparr>prev_zombie := pid\<rparr>) ?q)"
      have "finish_given_process (Suc n) base pid r p = run_kernel (sleepq_wake (proc_addr base pid)) ?p3"
        using assms(1) pid(1) p2(1,2) par z True by (simp add: Let_def)
      moreover have "rows ?p3 = died pid par (rows p2)"
        using pid(1) p2(2) par z True by (simp add: died_def fun_eq_iff)
      ultimately show ?thesis using p2(2-4) by (intro exI [of _ ?p3]) (simp add: par(6))
    next
      case False
      let ?p3 = "put par (\<lambda>e. e\<lparr>first_zombie := pid\<rparr>) ?q"
      have "finish_given_process (Suc n) base pid r p = run_kernel (sleepq_wake (proc_addr base pid)) ?p3"
        using assms(1) pid(1) p2(1,2) par False by (simp add: Let_def)
      moreover have "rows ?p3 = died pid par (rows p2)"
        using pid(1) p2(2) par False by (simp add: died_def fun_eq_iff)
      ultimately show ?thesis using p2(2-4) by (intro exI [of _ ?p3]) (simp add: par(6))
    qed
  qed
  moreover have "died pid ?par (rows p2) = finished f r pid (zs pid) ?R" by (simp add: finished_def p2(5) r1)
  ultimately show ?thesis using that by auto
qed

text \<open>Locking the table.\<close>

lemma lock_table_run:
  "process_table_slock p = 0 \<Longrightarrow> lock_table p = Inr (cp0_status (kernel p),
     p\<lparr>kernel := (kernel p)\<lparr>cp0_status := 0xffff00fe AND cp0_status (kernel p)\<rparr>, process_table_slock := 1\<rparr>)"
  by (simp add: lock_table_def interrupt_disable_def)

lemma unlock_table_simps [simp]:
  "rows (unlock_table st p) = rows p" "tab_ok (unlock_table st p) = tab_ok p" "process_table_slock (unlock_table st p) = 0"
  by (simp_all add: unlock_table_def rows_def tab_ok_def fun_eq_iff)

text \<open>The state of the table between two operations.\<close>

definition procs_idle :: "'a procs \<Rightarrow> (int \<Rightarrow> int list) \<Rightarrow> bool" where
  "procs_idle p zs \<longleftrightarrow> tab_ok p \<and> process_table_slock p = 0 \<and> procs_ok (rows p) zs"

lemma alloc_process_id_run:
  assumes "tab_ok p" "process_table_slock p = 0" "\<exists>q. is_pid q \<and> p_state (rows p q) = PROCESS_FREE"
    "\<And>q. is_pid q \<Longrightarrow> executable (rows p q) \<noteq> []"
  obtains q p' where "is_pid q" "p_state (rows p q) = PROCESS_FREE" "alloc_process_id st p = Inr (q, p')" "tab_ok p'"
    "process_table_slock p' = 0" "kernel p' = kernel p"
    "rows p' = (rows p)(q := (rows p q)\<lparr>p_state := st, executable := (executable (rows p q))[0 := NUL], retval := 0\<rparr>)"
proof -
  define i where "i = first_from (\<lambda>i. p_state (process_table p ! i) = PROCESS_FREE) 0 8"
  have len: "length (process_table p) = 8" using assms(1) by (simp add: tab_ok_def)
  obtain q0 where q0: "is_pid q0" "p_state (process_table p ! nat q0) = PROCESS_FREE" using assms(3) by (auto simp: rows_def)
  have "i \<noteq> 8" "i \<le> 8" unfolding i_def using q0 by (auto simp: first_from_eq_n_iff first_from_le is_pid_def intro!: exI [of _ "nat q0"])
  then have i: "i < 8" by simp
  then have free: "p_state (process_table p ! i) = PROCESS_FREE" unfolding i_def by (rule first_from_holds)
  have find: "find_from (\<lambda>e. p_state e = PROCESS_FREE) (process_table p) 0 9 = Inr i"
    using first_from_before [of 0 _ "\<lambda>i. p_state (process_table p ! i) = PROCESS_FREE" 8] i free len
    by (intro find_from_hit) (auto simp: i_def)
  have q: "is_pid (int i)" "p_state (rows p (int i)) = PROCESS_FREE" using i free by (simp_all add: is_pid_def rows_def)
  show ?thesis
  proof (rule that [OF q])
    let ?p1 = "p\<lparr>kernel := (kernel p)\<lparr>cp0_status := 0xffff00fe AND cp0_status (kernel p)\<rparr>, process_table_slock := 1\<rparr>"
    let ?p2 = "put (int i) (\<lambda>e. e\<lparr>p_state := st\<rparr>) (put (int i) (\<lambda>e. e\<lparr>p_state := PROCESS_FREE, executable := (executable (rows p (int i)))[0 := NUL], retval := 0\<rparr>) ?p1)"
    show "alloc_process_id st p = Inr (int i, unlock_table (cp0_status (kernel p)) ?p2)"
      using assms(1,2) assms(4) [OF q(1)] q i by (simp add: alloc_process_id_def lock_table_run find)
    show "kernel (unlock_table (cp0_status (kernel p)) ?p2) = kernel p" by (simp add: unlock_table_def)
    show "rows (unlock_table (cp0_status (kernel p)) ?p2) = (rows p)(int i := (rows p (int i))\<lparr>p_state := st, executable := (executable (rows p (int i)))[0 := NUL], retval := 0\<rparr>)"
      using assms(1) q by (simp add: fun_eq_iff)
  qed (use assms(1) q in simp_all)
qed



text \<open>With no free row the search goes on past the end of the table.\<close>

lemma alloc_full:
  assumes "tab_ok p" "process_table_slock p = 0" "\<not> (\<exists>q. is_pid q \<and> p_state (rows (p\<lparr>kernel := k\<rparr>) q) = PROCESS_FREE)"
  shows "alloc_process_id st (p\<lparr>kernel := k\<rparr>) = Inl Fault"
proof -
  have len: "length (process_table p) = 8" using assms(1) by (simp add: tab_ok_def)
  have "\<not> p_state (process_table p ! j) = PROCESS_FREE" if "j < 8" for j
    using assms(3) that by (auto simp: rows_def is_pid_def dest: spec [of _ "int j"])
  then have "find_from (\<lambda>e. p_state e = PROCESS_FREE) (process_table p) 0 9 = Inl Fault"
    using len by (intro find_from_out) auto
  then show ?thesis using assms(2) by (simp add: alloc_process_id_def lock_table_run)
qed

text \<open>The rows after process \<open>m\<close> has created process \<open>pid\<close>.\<close>

definition spawned :: "char list \<Rightarrow> int \<Rightarrow> int \<Rightarrow> (int \<Rightarrow> process_table_t) \<Rightarrow> int \<Rightarrow> process_table_t" where
  "spawned exe m pid R q =
     (if q = pid then \<lparr>executable = exe, p_state = PROCESS_RUNNING, retval = 0, parent = m, first_zombie = -1,
        prev_zombie = -1, next_zombie = -1, children = 0\<rparr>
      else if q = m \<and> 0 \<le> m then (R q)\<lparr>children := children (R q) + 1\<rparr>
      else R q)"

lemma spawned_ok:
  assumes ok: "procs_ok R zs" and pid: "is_pid pid" "p_state (R pid) = PROCESS_FREE" and exe: "length exe = nat PROCESS_NAME_MAX"
    and m: "m = -1 \<or> is_pid m \<and> p_state (R m) = PROCESS_RUNNING"
  shows "procs_ok (spawned exe m pid R) (zs(pid := []))"
proof -
  let ?R = "spawned exe m pid R"
  note D = procs_okD [OF ok]
  have pm: "pid \<noteq> m" using pid m by (auto simp: is_pid_def)
  have orphan: "p_state (R q) = PROCESS_FREE" if "is_pid q" "parent (R q) = pid" for q
    using D(3) [OF that(1)] that(2) pid by (auto simp: is_pid_def)
  have st: "p_state (?R q) = (if q = pid then PROCESS_RUNNING else p_state (R q))" "parent (?R q) = (if q = pid then m else parent (R q))" for q
    by (simp_all add: spawned_def)
  have kids': "kids ?R k = (if k = m then insert pid (kids R k) else kids R k)" if "k \<noteq> pid" for k
    using that pid by (auto simp: kids_def st split: if_splits)
  have dead': "dead_kids ?R k = dead_kids R k" if "k \<noteq> pid" for k
    using that pid by (auto simp: dead_kids_def st split: if_splits)
  have nokids: "kids ?R pid = {}" "dead_kids ?R pid = {}"
    using orphan pm by (auto simp: kids_def dead_kids_def st split: if_splits)
  have fam: "family_ok ?R k ((zs(pid := [])) k)" if k: "is_pid k" "p_state (?R k) = PROCESS_RUNNING" for k
  proof (cases "k = pid")
    case True
    then show ?thesis using nokids by (simp add: family_ok_def) (simp add: spawned_def)
  next
    case False
    then have fk: "family_ok R k (zs k)" using k D(2) by (simp add: st)
    then have z: "q \<noteq> pid" if "q \<in> set (zs k)" for q using that pid(2) by (auto simp: family_ok_def dest: dead_kidsD)
    have "nx_of ?R q = nx_of R q \<and> pv_of ?R q = pv_of R q" if "q \<in> set (zs k)" for q
      using z [OF that] by (simp add: spawned_def)
    then have "chain (nx_of ?R) (pv_of ?R) (first_zombie (?R k)) (-1) (zs k)"
      using fk False chain_cong [of "zs k" "nx_of ?R" "nx_of R" "pv_of ?R" "pv_of R"]
      by (auto simp: family_ok_def spawned_def)
    moreover have "pid \<notin> kids R k" using pid(2) by (auto simp: kids_def)
    then have "children (?R k) = int (card (kids ?R k))"
      using fk False k(1) by (auto simp: family_ok_def kids' spawned_def is_pid_def)
    moreover have "pv_of ?R k = -1" using fk False by (auto simp: family_ok_def spawned_def)
    ultimately show ?thesis using fk False by (simp add: family_ok_def dead')
  qed
  show ?thesis
    unfolding procs_ok_def
  proof (intro conjI allI impI)
    fix q
    show "length (executable (?R q)) = nat PROCESS_NAME_MAX" if "is_pid q" using D(1) [OF that] exe by (auto simp: spawned_def)
    show "family_ok ?R q ((zs(pid := [])) q)" if "is_pid q \<and> p_state (?R q) = PROCESS_RUNNING" using that fam by blast
    show "parent (?R q) = -1 \<or> is_pid (parent (?R q)) \<and> p_state (?R (parent (?R q))) = PROCESS_RUNNING"
      if "is_pid q \<and> p_state (?R q) \<noteq> PROCESS_FREE" using that m D(3) [of q] by (auto simp: st split: if_splits)
    assume q: "is_pid q \<and> p_state (?R q) = PROCESS_ZOMBIE"
    then have q': "q \<noteq> pid" "p_state (R q) = PROCESS_ZOMBIE" "q \<noteq> m" using m by (auto simp: st is_pid_def split: if_splits)
    then show "children (?R q) = 0" "0 \<le> retval (?R q)" using q D(4) [of q] by (simp_all add: spawned_def)
  qed
qed

subsection \<open>Steps\<close>

text \<open>The number of the current process, as \<^verbatim>\<open>process_get_current_process\<close> returns it.\<close>

definition current_pid :: "'a procs \<Rightarrow> int \<Rightarrow> bool" where
  "current_pid p m \<longleftrightarrow> (\<exists>p'. process_get_current_process p = Inr (m, p'))"

definition running :: "'a procs \<Rightarrow> int \<Rightarrow> bool" where
  "running p m \<longleftrightarrow> is_pid m \<and> p_state (rows p m) = PROCESS_RUNNING"

text \<open>
  Processes and kernel threads create processes, running processes join their children and end when
  all their children are dead, and between these steps the kernel below does what it likes.  A join
  that had to wait goes on with the next turn of its loop.
\<close>

inductive proc_step :: "symbols \<Rightarrow> uint32 \<Rightarrow> uint32 \<Rightarrow> 'a procs \<Rightarrow> 'a procs \<Rightarrow> bool"
  for img :: symbols and start :: uint32 and base :: uint32 where
  spawn: "process_spawn img start name p = Inr (r, p') \<Longrightarrow> c_string name \<Longrightarrow> current_pid p m \<Longrightarrow> m = -1 \<or> running p m \<Longrightarrow>
    proc_step img start base p p'"
| finish: "process_finish base r p = Inr p' \<Longrightarrow> current_pid p m \<Longrightarrow> can_finish (rows p) m \<Longrightarrow> proc_step img start base p p'"
| join: "process_join base pid p = Inr (r, p') \<Longrightarrow> current_pid p m \<Longrightarrow> running p m \<Longrightarrow> proc_step img start base p p'"
| join_again: "join_turn base st m pid p = Inr (r, p') \<Longrightarrow> running p m \<Longrightarrow> is_pid pid \<Longrightarrow> parent (rows p pid) = m \<Longrightarrow>
    proc_step img start base p p'"
| other: "proc_step img start base p (p\<lparr>kernel := k\<rparr>)"

lemma current_process:
  assumes "process_get_current_process p = Inr (m, p')"
  obtains k where "p' = p\<lparr>kernel := k\<rparr>"
  using assms by (auto simp: process_get_current_process_def in_kernel_def kres_iff)

lemma idle_kernel [simp]: "procs_idle (p\<lparr>kernel := k\<rparr>) zs = procs_idle p zs"
  by (simp add: procs_idle_def)

lemma name_row: "procs_ok R zs \<Longrightarrow> is_pid q \<Longrightarrow> executable (R q) \<noteq> []"
  using procs_okD(1) [of R zs q] by auto

lemma spawn_run:
  assumes "c_string name" "process_get_current_process p = Inr (m, p\<lparr>kernel := k\<rparr>)" "m = -1 \<or> running p m" "procs_idle p zs"
    "\<exists>q. is_pid q \<and> p_state (rows (p\<lparr>kernel := k\<rparr>) q) = PROCESS_FREE"
  obtains pid exe p' where "is_pid pid" "p_state (rows p pid) = PROCESS_FREE" "length exe = nat PROCESS_NAME_MAX"
    "rows p' = spawned exe m pid (rows p)" "tab_ok p'" "process_table_slock p' = 0" "kernel p' = k"
    "process_spawn img start name p = bindE (in_kernel (thread_create img start (word_of_int pid)) p') (\<lambda>(thread, p).
       bindE (run_kernel (thread_run thread) p) (\<lambda>p. Inr (pid, p)))"
proof -
  have I: "tab_ok p" "process_table_slock p = 0" "procs_ok (rows p) zs" using assms(4) by (simp_all add: procs_idle_def)
  let ?p1 = "p\<lparr>kernel := k\<rparr>"
  obtain pid p2 where p2: "is_pid pid" "p_state (rows p pid) = PROCESS_FREE" "alloc_process_id PROCESS_RUNNING ?p1 = Inr (pid, p2)"
    "tab_ok p2" "process_table_slock p2 = 0" "kernel p2 = k"
    "rows p2 = (rows p)(pid := (rows p pid)\<lparr>p_state := PROCESS_RUNNING, executable := (executable (rows p pid))[0 := NUL], retval := 0\<rparr>)"
    by (rule alloc_process_id_run [OF _ _ assms(5)]) (use I name_row [OF I(3)] in simp_all)
  have len: "length (executable (rows p2 pid)) = 128" using procs_okD(1) [OF I(3) p2(1)] by (simp add: p2(7))
  obtain exe where exe: "stringcopy (executable (rows p2 pid)) name PROCESS_NAME_MAX = Inr exe" "length exe = 128"
    using stringcopy_length [OF assms(1), of PROCESS_NAME_MAX "executable (rows p2 pid)"] len by auto
  let ?p3 = "put pid (\<lambda>e. e\<lparr>executable := exe, retval := 0, first_zombie := -1, prev_zombie := -1,
      next_zombie := -1, parent := m, children := 0\<rparr>) p2"
  let ?l = "?p3\<lparr>kernel := (kernel p2)\<lparr>cp0_status := 0xffff00fe AND cp0_status (kernel p2)\<rparr>, process_table_slock := 1\<rparr>"
  define p4 where "p4 = unlock_table (cp0_status (kernel p2)) (if 0 \<le> m then put m (\<lambda>e. e\<lparr>children := children e + 1\<rparr>) ?l else ?l)"
  have "process_spawn img start name p = bindE (in_kernel (thread_create img start (word_of_int pid)) p4) (\<lambda>(thread, p).
       bindE (run_kernel (thread_run thread) p) (\<lambda>p. Inr (pid, p)))"
    using p2(1,4,5) I(1) assms(3) len is_pid_nonneg [OF p2(1)]
    by (auto simp: process_spawn_def assms(2) p2(3) exe(1) lock_table_run Let_def p4_def running_def)
  moreover have "rows p4 = spawned exe m pid (rows p)" "tab_ok p4" "process_table_slock p4 = 0"
    using p2(1,2,4) assms(3) by (auto simp: p4_def p2(7) spawned_def fun_eq_iff running_def intro!: process_row_eqI)
  moreover have "kernel p4 = k" using p2(6) by (simp add: p4_def unlock_table_def)
  ultimately show ?thesis using p2(1,2) exe(2) by (intro that) simp_all
qed

lemma spawn_table:
  assumes "process_spawn img start name p = Inr (r, p')" "c_string name" "current_pid p m" "m = -1 \<or> running p m" "procs_idle p zs"
  obtains pid exe where "r = pid" "is_pid pid" "p_state (rows p pid) = PROCESS_FREE" "length exe = nat PROCESS_NAME_MAX"
    "rows p' = spawned exe m pid (rows p)" "tab_ok p'" "process_table_slock p' = 0"
proof -
  have I: "tab_ok p" "process_table_slock p = 0" using assms(5) by (simp_all add: procs_idle_def)
  obtain k where k: "process_get_current_process p = Inr (m, p\<lparr>kernel := k\<rparr>)"
    using assms(3) current_process unfolding current_pid_def by metis
  have free: "\<exists>q. is_pid q \<and> p_state (rows (p\<lparr>kernel := k\<rparr>) q) = PROCESS_FREE"
  proof (rule ccontr)
    assume "\<not> ?thesis"
    from alloc_full [OF I this] assms(1) show False by (simp add: process_spawn_def k)
  qed
  obtain pid exe q where q: "is_pid pid" "p_state (rows p pid) = PROCESS_FREE" "length exe = nat PROCESS_NAME_MAX"
    "rows q = spawned exe m pid (rows p)" "tab_ok q" "process_table_slock q = 0"
    "process_spawn img start name p = bindE (in_kernel (thread_create img start (word_of_int pid)) q) (\<lambda>(thread, p).
       bindE (run_kernel (thread_run thread) p) (\<lambda>p. Inr (pid, p)))"
    by (rule spawn_run [OF assms(2) k assms(4,5) free, of img start])
  from assms(1) obtain k' where "r = pid" "p' = q\<lparr>kernel := k'\<rparr>"
    unfolding q(7) by (auto simp: kres_iff in_kernel_def run_kernel_def)
  with q(1-6) show ?thesis by (intro that) simp_all
qed

lemma reap_zombie:
  assumes "tab_ok p" "procs_ok (rows p) zs" "is_pid m" "p_state (rows p m) = PROCESS_RUNNING" "is_pid pid"
    "p_state (rows p pid) = PROCESS_ZOMBIE" "parent (rows p pid) = m"
  obtains xs ys q where "zs m = xs @ pid # ys" "process_reap m pid (p\<lparr>process_table_slock := l\<rparr>) = Inr (retval (rows p pid), q)" "tab_ok q"
    "rows q = reaped m pid xs ys (rows p)" "kernel q = kernel p" "process_table_slock q = l"
proof -
  let ?p = "p\<lparr>process_table_slock := l\<rparr>"
  have f: "chain (nx_of (rows p)) (pv_of (rows p)) (first_zombie (rows p m)) (-1) (zs m)" "distinct (zs m)" "set (zs m) = dead_kids (rows p) m"
    using procs_okD(2) [OF assms(2-4)] by (simp_all add: family_ok_def)
  then have "pid \<in> set (zs m)" using assms(5-7) by (simp add: dead_kids_def)
  then obtain xs ys where z: "zs m = xs @ pid # ys" by (meson split_list)
  have "m \<notin> set (zs m)" "\<forall>q \<in> set (zs m). is_pid q" using f(3) assms(4) by (auto dest: dead_kidsD)
  with f z assms(1,3) procs_okD(4) [OF assms(2,5,6)] name_row [OF assms(2,5)] obtain q where
    "process_reap m pid ?p = Inr (retval (rows p pid), q)" "tab_ok q" "kernel q = kernel p" "process_table_slock q = l" "rows q = reaped m pid xs ys (rows p)"
    using process_reap_run [of ?p m xs pid ys] by auto
  then show ?thesis by (intro that [OF z])
qed

lemma join_table:
  assumes "join_turn base st m pid p = Inr (r, p')" "running p m" "is_pid pid" "parent (rows p pid) = m" "procs_idle p zs"
  shows "\<exists>zs'. procs_idle p' zs'"
proof -
  have I: "tab_ok p" "process_table_slock p = 0" "procs_ok (rows p) zs" using assms(5) by (simp_all add: procs_idle_def)
  have m: "is_pid m" "p_state (rows p m) = PROCESS_RUNNING" using assms(2) by (simp_all add: running_def)
  show ?thesis
  proof (cases "p_state (rows p pid) = PROCESS_ZOMBIE")
    case True
    obtain xs ys q where q: "zs m = xs @ pid # ys" "process_reap m pid (p\<lparr>process_table_slock := 1\<rparr>) = Inr (retval (rows p pid), q)" "tab_ok q"
      "rows q = reaped m pid xs ys (rows p)"
      by (rule reap_zombie [OF I(1,3) m assms(3) True assms(4), of 1]) blast
    with assms(1,3) True I have "p' = unlock_table st q" by (simp add: join_turn_def Let_def)
    with reaped_ok [OF I(3) m q(1)] q(3,4) show ?thesis by (auto simp: procs_idle_def)
  next
    case False
    with assms(1,3) I obtain k where "p' = p\<lparr>kernel := k, process_table_slock := 0\<rparr>"
      by (auto simp: join_turn_def Let_def run_kernel_def kres_iff)
    with I show ?thesis by (auto simp: procs_idle_def)
  qed
qed

lemma finish_table:
  assumes "process_finish base r p = Inr p'" "current_pid p pid" "can_finish (rows p) pid" "procs_idle p zs"
  obtains f where "rows p' = finished f (max 0 r) pid (zs pid) (rows p)" "tab_ok p'" "process_table_slock p' = 0"
proof -
  have I: "tab_ok p" "process_table_slock p = 0" "procs_ok (rows p) zs" using assms(4) by (simp_all add: procs_idle_def)
  obtain e k where e: "thread_get_current_thread_entry (kernel p) = Inr (e, k)" "th_process_id e = pid"
    using assms(2) by (auto simp: current_pid_def process_get_current_process_def in_kernel_def kres_iff)
  from assms(1) obtain k2 st q where q: "finish_given_process 9 base pid (max 0 r) (p\<lparr>process_table_slock := 1, kernel := k2\<rparr>) = Inr q"
    and p': "\<exists>k. p' = (unlock_table st q)\<lparr>kernel := k\<rparr>"
    by (fastforce simp: process_finish_def in_kernel_def run_kernel_def e lock_table_def Let_def kres_iff unlock_table_def
        interrupt_disable_def I(2) max_def split: if_splits)
  obtain q1 f where q1: "finish_given_process (Suc 8) base pid (max 0 r) (p\<lparr>process_table_slock := 1, kernel := k2\<rparr>) =
      run_kernel (sleepq_wake (proc_addr base pid)) q1" "tab_ok q1" "rows q1 = finished f (max 0 r) pid (zs pid) (rows p)"
    by (rule finish_given_run [of "p\<lparr>process_table_slock := 1, kernel := k2\<rparr>" zs pid 8 base "max 0 r"]) (use I assms(3) in simp_all)
  from q q1(1) have "run_kernel (sleepq_wake (proc_addr base pid)) q1 = Inr q" by simp
  then have "rows q = rows q1" "tab_ok q" using q1(2) by (auto simp: run_kernel_def kres_iff)
  with p' q1(3) show ?thesis by (intro that) (auto simp: unlock_table_def)
qed

lemma proc_step_idle:
  assumes "proc_step img start base p p'" "procs_idle p zs"
  shows "\<exists>zs'. procs_idle p' zs'"
  using assms(1)
proof cases
  case (spawn name r m)
  from spawn_table [OF spawn assms(2)] obtain pid exe where "is_pid pid" "p_state (rows p pid) = PROCESS_FREE" "length exe = nat PROCESS_NAME_MAX"
    "rows p' = spawned exe m pid (rows p)" "tab_ok p'" "process_table_slock p' = 0" by metis
  with spawned_ok [of "rows p" zs pid exe m] assms(2) spawn(4) show ?thesis by (auto simp: procs_idle_def running_def)
next
  case (finish r m)
  from finish_table [OF finish assms(2)] obtain f where "rows p' = finished f (max 0 r) m (zs m) (rows p)" "tab_ok p'" "process_table_slock p' = 0" .
  with finished_ok [of "rows p" zs m "max 0 r" _ f] finish(3) assms(2) show ?thesis by (auto simp: procs_idle_def)
next
  case (join pid r m)
  obtain k where k: "process_get_current_process p = Inr (m, p\<lparr>kernel := k\<rparr>)"
    using join(2) current_process unfolding current_pid_def by metis
  show ?thesis
  proof (cases "is_pid pid \<and> parent (rows p pid) = m")
    case True
    with join(1) k obtain st k' where "join_turn base st m pid (p\<lparr>kernel := k'\<rparr>) = Inr (r, p')"
      using assms(2) by (auto simp: process_join_def interrupt_disable_def procs_idle_def is_pid_def split: if_splits)
    from join_table [OF this] True join(3) assms(2) show ?thesis by (simp add: running_def)
  next
    case False
    with join(1) k have "p' = p\<lparr>kernel := k\<rparr>"
      using assms(2) by (auto simp: process_join_def procs_idle_def kres_iff is_pid_def split: if_splits)
    with assms(2) show ?thesis by auto
  qed
next
  case (join_again st m pid r)
  from join_table [OF join_again assms(2)] show ?thesis .
next
  case (other k)
  with assms(2) show ?thesis by auto
qed

lemma sleepq_wake_returns:
  assumes "sleepq_ok s rs qs" "sleepq_slock s = 0"
  obtains s' rs' qs' where "sleepq_wake res s = Inr s'" "sleepq_ok s' rs' qs'"
proof (cases "waiters s qs res")
  case Nil
  from sleepq_wake_none [OF assms(1) Nil assms(2)] assms(1) show ?thesis by (rule that)
next
  case (Cons w ws)
  from sleepq_wake_first [OF assms(1) Cons assms(2)] show ?thesis using that by metis
qed

lemma new_thread_runs:
  assumes "sems_ok b s rs qs" "is_tid t" "t \<noteq> 0" "th_state (th s t) = THREAD_FREE"
  obtains u s1 s2 where "thread_create img func arg s = Inr (u, s1)" "thread_run u s1 = Inr s2" "sems_ok b s2 (rs @ [u]) qs"
proof -
  have sk: "sched_ok s rs" using assms(1) by (blast dest: sems_okD sleepq_okD)
  from sk show ?thesis
  proof (cases rule: thread_create_cases [where img = img and func = func and arg = arg])
    case full
    with assms(2-4) show ?thesis by blast
  next
    case (slot u s1)
    have "sems_ok b s1 rs qs" using thread_create_sems_ok [OF assms(1), of img func arg] slot(1) by auto
    moreover have "th_state (th s1 u) = THREAD_NONREADY"
      using slot(2,5) sched_okD(9) [OF sk] by (auto simp: th_def new_thread_def is_tid_def)
    ultimately show ?thesis using thread_run_sems_ok [of b s1 rs qs u] slot(1-3) that by blast
  qed
qed

subsection \<open>Properties\<close>

text \<open>
  C19: as long as no process ends while a child of it is still running, every sequence of process
  creations, ends and joins, with anything the kernel below does in between, keeps the process table in
  order: the zombie list of every running process is a doubly linked list of exactly its dead
  children that have not been joined, its counter is the number of its children, the parent of every
  process is running, and the table is unlocked.
\<close>

theorem process_steps_invariant:
  assumes "(proc_step img start base)\<^sup>*\<^sup>* p p'" "procs_idle p zs"
  shows "\<exists>zs'. procs_idle p' zs'"
  using assms(1)
proof (induction rule: rtranclp_induct)
  case base
  show ?case using assms(2) by blast
next
  case (step q q')
  then show ?case using proc_step_idle by blast
qed


text \<open>
  C21: when a process whose children are all dead ends with the value \<open>r\<close>, \<^verbatim>\<open>finish_given_process\<close>
  frees the rows of its dead children, makes it a zombie with that value and puts it at the head of
  the zombie list of its parent, where it waits for the join, changes no other process, keeps the
  table in order and wakes a thread that waits for it.
\<close>

theorem finish_given_process_spec:
  assumes "tab_ok p" "procs_ok (rows p) zs" "can_finish (rows p) pid" "0 \<le> r" "sleepq_ok (kernel p) rs qs" "sleepq_slock (kernel p) = 0"
    and par: "par = parent (rows p pid)"
  shows "\<exists>p'. finish_given_process (Suc n) base pid r p = Inr p' \<and> tab_ok p' \<and>
    procs_ok (rows p') (if 0 \<le> par then zs(par := pid # zs par) else zs) \<and>
    p_state (rows p' pid) = PROCESS_ZOMBIE \<and> retval (rows p' pid) = r \<and> parent (rows p' pid) = par \<and>
    (0 \<le> par \<longrightarrow> first_zombie (rows p' par) = pid) \<and>
    (\<forall>q. q \<noteq> pid \<longrightarrow> (if q \<in> kids (rows p) pid then p_state (rows p' q) = PROCESS_FREE
       else p_state (rows p' q) = p_state (rows p q) \<and> retval (rows p' q) = retval (rows p q) \<and> parent (rows p' q) = parent (rows p q))) \<and>
    sleepq_wake (proc_addr base pid) (kernel p) = Inr (kernel p')"
proof -
  obtain p1 f where p1: "finish_given_process (Suc n) base pid r p = run_kernel (sleepq_wake (proc_addr base pid)) p1" "tab_ok p1"
    "kernel p1 = kernel p" "rows p1 = finished f r pid (zs pid) (rows p)"
    by (rule finish_given_run [OF assms(1-3)])
  obtain s where s: "sleepq_wake (proc_addr base pid) (kernel p) = Inr s" by (rule sleepq_wake_returns [OF assms(5,6)])
  note P = can_finish_parent [OF assms(2,3)]
  have pid: "is_pid pid" "p_state (rows p pid) = PROCESS_RUNNING" "kids (rows p) pid = dead_kids (rows p) pid" using assms(3) by (simp_all add: can_finish_def)
  have Z: "p_state (rows p q) = PROCESS_ZOMBIE" if "q \<in> set (zs pid)" for q using that P(4) pid(3) by (auto dest: dead_kidsD)
  then have "pid \<notin> set (zs pid)" using pid(2) by auto
  note F = finished_fields [where R = "rows p" and pid = pid and zs = "zs pid" and f = f and r = r, OF pid(1,2) P(2,1) _ par, folded p1(4)]
  have "finish_given_process (Suc n) base pid r p = Inr (p1\<lparr>kernel := s\<rparr>)" using p1(1,3) s by (simp add: run_kernel_def)
  moreover have "procs_ok (rows p1) (if 0 \<le> par then zs(par := pid # zs par) else zs)"
    unfolding p1(4) by (rule finished_ok [OF assms(2-4) par])
  moreover have "p_state (rows p1 pid) = PROCESS_ZOMBIE" "retval (rows p1 pid) = r" "parent (rows p1 pid) = par"
    "0 \<le> par \<longrightarrow> first_zombie (rows p1 par) = pid"
    using P(1) par Z \<open>pid \<notin> set (zs pid)\<close> by (simp_all add: F)
  moreover have "if q \<in> set (zs pid) then p_state (rows p1 q) = PROCESS_FREE
       else p_state (rows p1 q) = p_state (rows p q) \<and> retval (rows p1 q) = retval (rows p q) \<and> parent (rows p1 q) = parent (rows p q)"
    if "q \<noteq> pid" for q using that Z by (simp add: F)
  ultimately show ?thesis
    using p1(2) s P(4) by (intro exI [of _ "p1\<lparr>kernel := s\<rparr>"]) (simp del: finish_given_process.simps)
qed


subsection \<open>Beyond the table\<close>

lemma process_reset_shape:
  assumes "process_reset q p = Inr p'" "length (process_table p) = n"
  shows "length (process_table p') = n"
  using assms by (auto simp: process_reset_def pt_get_def pt_upd_def kres_iff wr_def split: if_splits)

lemma process_reset_outside: "tab_ok p \<Longrightarrow> process_reset 8 p = Inl Fault"
  by (simp add: process_reset_def pt_get_def rd_def tab_ok_def)

lemma process_reset_fails: "process_reset q p = Inl e \<Longrightarrow> e = Fault"
  by (auto simp: process_reset_def pt_get_def pt_upd_def rd_def wr_def split: if_splits)

lemma reset_loop_faults:
  assumes "tab_ok p" "i \<le> 8"
  shows "for_rangeE i 9 (\<lambda>i. process_reset (int i)) p = Inl Fault"
  using assms
proof (induction "8 - i" arbitrary: i p)
  case 0
  then show ?case using process_reset_outside [of p] by (simp add: for_rangeE_step)
next
  case (Suc n)
  show ?case
  proof (cases "process_reset (int i) p")
    case (Inl e)
    then show ?thesis using Suc.prems process_reset_fails [OF Inl] by (simp add: for_rangeE_step)
  next
    case (Inr p')
    have "tab_ok p'" using process_reset_shape [OF Inr] Suc.prems(1) by (simp add: tab_ok_def)
    with Suc.hyps Suc.prems Inr show ?thesis by (simp add: for_rangeE_step)
  qed
qed

text \<open>
  C23: three accesses outside \<^verbatim>\<open>process_table\<close>.  \<^verbatim>\<open>process_init\<close> always resets one row too many.
  \<^verbatim>\<open>alloc_process_id\<close> reads the same row when no row is free, instead of returning -1.
  \<^verbatim>\<open>process_join\<close> of a thread that runs no process, as the startup thread does for the initial
  program, writes the row with the number -1 when the program has ended without children.
\<close>

theorem process_table_overrun:
  assumes "tab_ok p" "process_table_slock p = 0"
  shows "process_init p = Inl Fault \<and>
    ((\<forall>q. is_pid q \<longrightarrow> p_state (rows p q) \<noteq> PROCESS_FREE) \<longrightarrow> alloc_process_id st p = Inl Fault) \<and>
    (process_get_current_process p = Inr (-1, p) \<and> is_pid pid \<and> p_state (rows p pid) = PROCESS_ZOMBIE \<and>
       parent (rows p pid) = -1 \<and> children (rows p pid) = 0 \<longrightarrow> process_join base pid p = Inl Fault)"
proof (intro conjI impI)
  show "process_init p = Inl Fault" using assms(1) reset_loop_faults [of "p\<lparr>process_table_slock := 0\<rparr>" 0] by (simp add: process_init_def)
  show "alloc_process_id st p = Inl Fault" if "\<forall>q. is_pid q \<longrightarrow> p_state (rows p q) \<noteq> PROCESS_FREE"
    using alloc_full [OF assms, of "kernel p" st] that by simp
  assume "process_get_current_process p = Inr (-1, p) \<and> is_pid pid \<and> p_state (rows p pid) = PROCESS_ZOMBIE \<and>
       parent (rows p pid) = -1 \<and> children (rows p pid) = 0"
  moreover have "pt_upd (-1) f q = Inl Fault" for f and q :: "'a procs" by (simp add: pt_upd_def rd_def)
  ultimately show "process_join base pid p = Inl Fault"
    using assms by (simp add: process_join_def interrupt_disable_def join_turn_def process_reap_def Let_def is_pid_def)
qed

text \<open>
  a process that was joined while a child of it was still running keeps its row for ever.  When
  its last child ends, \<^verbatim>\<open>finish_given_process\<close> calls itself for the joined parent, which has no
  parent any more and so becomes a zombie again instead of being freed.
\<close>

theorem joined_parent_stays_zombie:
  assumes "tab_ok p" "is_pid c" "is_pid q" "c \<noteq> q" "parent (rows p c) = q" "first_zombie (rows p c) = -1"
    "p_state (rows p q) = PROCESS_ZOMBIE" "retval (rows p q) = -1" "parent (rows p q) = -1" "children (rows p q) = 1"
    "first_zombie (rows p q) = -1" "sleepq_ok (kernel p) rs qs" "sleepq_slock (kernel p) = 0"
    "waiters (kernel p) qs (proc_addr base q) = []"
  shows "\<exists>p'. finish_given_process (nat PROCESS_MAX_PROCESSES + 1) base c r p = Inr p' \<and>
    p_state (rows p' c) = PROCESS_FREE \<and> p_state (rows p' q) = PROCESS_ZOMBIE \<and> parent (rows p' q) = -1"
proof -
  obtain s where s: "sleepq_wake (proc_addr base c) (kernel p) = Inr s" by (rule sleepq_wake_returns [OF assms(12,13)])
  note none = sleepq_wake_none [OF assms(12,14,13)]
  have "\<exists>p'. finish_given_process (Suc (Suc n)) base c r p = Inr p' \<and>
    p_state (rows p' c) = PROCESS_FREE \<and> p_state (rows p' q) = PROCESS_ZOMBIE \<and> parent (rows p' q) = -1" for n
    using assms(1-11) is_pid_nonneg [OF assms(3)] s none
    by (simp add: Let_def run_kernel_def free_zombies.simps)
  from this [of 7] show ?thesis by (simp del: finish_given_process.simps)
qed

subsection \<open>Sample states\<close>

text \<open>
  Process 0 runs in thread 1 and has one dead child, process 1, that ended with the value 7; in the
  second state no process exists and thread 1 is a kernel thread.
\<close>

definition blank_row :: process_table_t where
  "blank_row = \<lparr>executable = replicate 128 NUL, p_state = PROCESS_FREE, retval = 0, parent = -1, first_zombie = -1,
     prev_zombie = -1, next_zombie = -1, children = 0\<rparr>"

definition sample_procs :: "unit procs" where
  "sample_procs = \<lparr>process_table = [blank_row\<lparr>p_state := PROCESS_RUNNING, first_zombie := 1, children := 1\<rparr>,
       blank_row\<lparr>p_state := PROCESS_ZOMBIE, retval := 7, parent := 0\<rparr>] @ replicate 6 blank_row,
     process_table_slock = 0,
     kernel = sample_kernel\<lparr>thread_table := (thread_table sample_kernel)[1 := (sample_row 1)\<lparr>th_process_id := 0\<rparr>]\<rparr>\<rparr>"

definition sample_start :: "unit procs" where
  "sample_start = \<lparr>process_table = replicate 8 blank_row, process_table_slock = 0, kernel = sample_kernel\<rparr>"

lemma sample_tables [simp]: "tab_ok sample_procs" "tab_ok sample_start" "process_table_slock sample_procs = 0" "process_table_slock sample_start = 0"
  "kernel sample_start = sample_kernel"
  by (simp_all add: tab_ok_def sample_procs_def sample_start_def)

lemma is_pid_cases: "is_pid q \<longleftrightarrow> q \<in> {0, 1, 2, 3, 4, 5, 6, 7}"
  by (auto simp: is_pid_def)

lemma rows_sample_procs:
  "is_pid q \<Longrightarrow> rows sample_procs q = (if q = 0 then blank_row\<lparr>p_state := PROCESS_RUNNING, first_zombie := 1, children := 1\<rparr>
     else if q = 1 then blank_row\<lparr>p_state := PROCESS_ZOMBIE, retval := 7, parent := 0\<rparr> else blank_row)"
  by (auto simp: rows_def sample_procs_def is_pid_cases)

lemma rows_sample_start: "is_pid q \<Longrightarrow> rows sample_start q = blank_row"
  by (auto simp: rows_def sample_start_def is_pid_cases)

lemma sample_procs_kids: "kids (rows sample_procs) 0 = {1}" "dead_kids (rows sample_procs) 0 = {1}"
  by (auto simp: kids_def dead_kids_def rows_sample_procs blank_row_def is_pid_def split: if_splits)

lemma sample_pids: "is_pid 0" "is_pid 1"
  by (simp_all add: is_pid_def)

lemma sample_procs_idle: "procs_idle sample_procs ((\<lambda>_. [])(0 := [1]))"
proof -
  have "family_ok (rows sample_procs) 0 [1]"
    using sample_procs_kids by (simp add: family_ok_def rows_sample_procs sample_pids blank_row_def)
  then show ?thesis
    by (auto simp: procs_idle_def procs_ok_def rows_sample_procs sample_pids blank_row_def split: if_splits)
qed

lemma sample_start_idle: "procs_idle sample_start (\<lambda>_. [])"
  by (auto simp: procs_idle_def procs_ok_def rows_sample_start blank_row_def)

lemma sample_current:
  "process_get_current_process sample_procs = Inr (0, sample_procs)" "process_get_current_process sample_start = Inr (-1, sample_start)"
  by (simp_all add: process_get_current_process_def in_kernel_def sample_procs_def sample_start_def thread_get_current_thread_entry_def
      tt_get_def interrupt_disable_def interrupt_set_state_def CONFIG_MAX_THREADS_def nth_list_update sample_row_def)

lemma sample_join: "\<exists>p'. process_join 0x80030000 1 sample_procs = Inr (Some 7, p')"
  by (simp add: process_join_def sample_current interrupt_disable_def join_turn_def process_reap_def unlink_zombie_def
      rows_sample_procs sample_pids blank_row_def Let_def)

text \<open>Applications of the properties.\<close>

theorem process_steps_invariant_witness:
  "\<exists>p' zs. process_join 0x80030000 1 sample_procs = Inr (Some 7, p') \<and> procs_idle p' zs"
proof -
  from sample_join obtain p' where p': "process_join 0x80030000 1 sample_procs = Inr (Some 7, p')" by blast
  have "proc_step sample_img 0 0x80030000 sample_procs p'"
    by (rule proc_step.join [OF p', of 0])
      (simp_all add: current_pid_def sample_current running_def sample_pids rows_sample_procs blank_row_def)
  then have "(proc_step sample_img 0 0x80030000)\<^sup>*\<^sup>* sample_procs p'" by blast
  from process_steps_invariant [OF this sample_procs_idle] p' show ?thesis by blast
qed



theorem process_table_overrun_witness: "process_init sample_start = Inl Fault"
  using process_table_overrun [of sample_start] by simp

theorem finish_given_process_spec_witness:
  "\<exists>p'. finish_given_process 1 0x80030000 0 5 (sample_procs\<lparr>kernel := sample_kernel\<rparr>) = Inr p' \<and>
     retval (rows p' 0) = 5 \<and> p_state (rows p' 1) = PROCESS_FREE"
proof -
  have "can_finish (rows sample_procs) 0" by (simp add: can_finish_def sample_procs_kids rows_sample_procs sample_pids blank_row_def)
  moreover have "sleepq_ok sample_kernel [2] sample_queues" using sample_kernel_ok by (simp add: sems_ok_def)
  ultimately show ?thesis
    using finish_given_process_spec [of "sample_procs\<lparr>kernel := sample_kernel\<rparr>" "(\<lambda>_. [])(0 := [1])" 0 5 "[2]" sample_queues _ 0 "0x80030000", OF _ _ _ _ _ _ refl]
      sample_procs_idle sample_procs_kids by (auto simp: procs_idle_def simp del: finish_given_process.simps dest!: spec [of _ 1])
qed

text \<open>Process 1 was joined while process 2 was running.\<close>

definition sample_orphan :: "unit procs" where
  "sample_orphan = \<lparr>process_table = [blank_row\<lparr>p_state := PROCESS_RUNNING\<rparr>,
       blank_row\<lparr>p_state := PROCESS_ZOMBIE, retval := -1, children := 1\<rparr>,
       blank_row\<lparr>p_state := PROCESS_RUNNING, parent := 1\<rparr>] @ replicate 5 blank_row,
     process_table_slock = 0, kernel = sample_kernel\<rparr>"

theorem joined_parent_stays_zombie_witness:
  "\<exists>p'. finish_given_process 9 0x80030000 2 0 sample_orphan = Inr p' \<and> p_state (rows p' 1) = PROCESS_ZOMBIE"
proof -
  have "sleepq_ok sample_kernel [2] sample_queues" using sample_kernel_ok by (simp add: sems_ok_def)
  moreover have "rows sample_orphan 1 = blank_row\<lparr>p_state := PROCESS_ZOMBIE, retval := -1, children := 1\<rparr>"
    "rows sample_orphan 2 = blank_row\<lparr>p_state := PROCESS_RUNNING, parent := 1\<rparr>" "is_pid 2"
    by (simp_all add: rows_def sample_orphan_def is_pid_def)
  moreover have "waiters sample_kernel sample_queues (proc_addr 0x80030000 1) = []"
    by (simp add: sample_kernel_waiters proc_addr_def sample_base_def)
  ultimately show ?thesis
    using joined_parent_stays_zombie [of sample_orphan 2 1 "[2]" sample_queues "0x80030000" 0] sample_pids
    by (simp add: tab_ok_def sample_orphan_def blank_row_def del: finish_given_process.simps) blast
qed

end
