(* ===== verification/Syscall.thy ===== *)
theory Syscall
  imports Vfs_Tfs Process_Spec
begin

text \<open>
  System calls, \<^verbatim>\<open>proc/syscall.c\<close>, and the exception handlers of user mode and kernel mode that lead to
  them, \<^verbatim>\<open>proc/exception.c\<close> and \<^verbatim>\<open>kernel/exception.c\<close>.

  The state joins the parts of the kernel a system call uses: the virtual file system, the processes
  with the kernel below them, the console and the memory of the calling process.  The console is a
  generic character device (\<^verbatim>\<open>drivers/gcd.h\<close>) and is a parameter; \<open>None\<close> says that there is none.
\<close>

record 'c gcd =
  gcd_write :: "char list \<Rightarrow> int \<Rightarrow> 'c \<Rightarrow> (int \<times> 'c) kres"
  gcd_read :: "char list \<Rightarrow> int \<Rightarrow> 'c \<Rightarrow> (int \<times> char list \<times> 'c) kres"

record ('w, 'a, 'c) sys =
  sys_vfs :: "'w vfs"
  sys_procs :: "'a procs"
  sys_console :: 'c
  user_mem :: "uint32 \<Rightarrow> char"

abbreviation FILEHANDLE_STDIN :: uint32 where "FILEHANDLE_STDIN \<equiv> 0"
abbreviation FILEHANDLE_STDOUT :: uint32 where "FILEHANDLE_STDOUT \<equiv> 1"
abbreviation FILEHANDLE_STDERR :: uint32 where "FILEHANDLE_STDERR \<equiv> 2"


definition SYSCALL_HALT :: uint32 where "SYSCALL_HALT = 0x001"
definition SYSCALL_EXEC :: uint32 where "SYSCALL_EXEC = 0x101"
definition SYSCALL_EXIT :: uint32 where "SYSCALL_EXIT = 0x102"
definition SYSCALL_JOIN :: uint32 where "SYSCALL_JOIN = 0x103"
definition SYSCALL_OPEN :: uint32 where "SYSCALL_OPEN = 0x201"
definition SYSCALL_CLOSE :: uint32 where "SYSCALL_CLOSE = 0x202"
definition SYSCALL_SEEK :: uint32 where "SYSCALL_SEEK = 0x203"
definition SYSCALL_READ :: uint32 where "SYSCALL_READ = 0x204"
definition SYSCALL_WRITE :: uint32 where "SYSCALL_WRITE = 0x205"
definition SYSCALL_CREATE :: uint32 where "SYSCALL_CREATE = 0x206"
definition SYSCALL_DELETE :: uint32 where "SYSCALL_DELETE = 0x207"
definition SYSCALL_FILECOUNT :: uint32 where "SYSCALL_FILECOUNT = 0x208"
definition SYSCALL_FILE :: uint32 where "SYSCALL_FILE = 0x209"

lemmas syscall_numbers = SYSCALL_HALT_def SYSCALL_EXEC_def SYSCALL_EXIT_def SYSCALL_JOIN_def SYSCALL_OPEN_def SYSCALL_CLOSE_def SYSCALL_SEEK_def SYSCALL_READ_def
  SYSCALL_WRITE_def SYSCALL_CREATE_def SYSCALL_DELETE_def SYSCALL_FILECOUNT_def SYSCALL_FILE_def

subsection \<open>User memory\<close>

text \<open>
  The string at an address; a string without an end in the whole address space would be read for
  ever.  The bytes of a buffer, and their change.
\<close>

function read_string :: "nat \<Rightarrow> (uint32 \<Rightarrow> char) \<Rightarrow> uint32 \<Rightarrow> string kres" where
  "read_string n m a =
     (if m a = NUL then Inr []
      else if n = 0 then Inl Deadlock
      else bindE (read_string (n - 1) m (a + 1)) (\<lambda>s. Inr (m a # s)))"
  by pat_completeness auto
termination
  by (relation "measure (\<lambda>(n, m, a). n)") auto

declare read_string.simps [simp del]

definition string_at :: "(uint32 \<Rightarrow> char) \<Rightarrow> uint32 \<Rightarrow> string kres" where
  "string_at m a = read_string (2 ^ 32) m a"

definition bytes_at :: "(uint32 \<Rightarrow> char) \<Rightarrow> uint32 \<Rightarrow> int \<Rightarrow> char list" where
  "bytes_at m a len = map (\<lambda>i. m (a + of_nat i)) [0..<nat len]"

definition store_at :: "(uint32 \<Rightarrow> char) \<Rightarrow> uint32 \<Rightarrow> char list \<Rightarrow> uint32 \<Rightarrow> char" where
  "store_at m a bs = (\<lambda>x. if unat (x - a) < length bs then bs ! unat (x - a) else m x)"

subsection \<open>The calls\<close>

definition on_vfs :: "('w vfs \<Rightarrow> (int \<times> 'w vfs) kres) \<Rightarrow> ('w, 'a, 'c) sys \<Rightarrow> (int \<times> ('w, 'a, 'c) sys) kres" where
  "on_vfs f s = bindE (f (sys_vfs s)) (\<lambda>(r, v). Inr (r, s\<lparr>sys_vfs := v\<rparr>))"

definition syscall_write :: "'w fs_ops \<Rightarrow> 'c gcd option \<Rightarrow> uint32 \<Rightarrow> uint32 \<Rightarrow> int \<Rightarrow> ('w, 'a, 'c) sys \<Rightarrow> (int \<times> ('w, 'a, 'c) sys) kres" where
  "syscall_write ops con fd a len s =
     (let data = bytes_at (user_mem s) a len
      in if fd > 2 then on_vfs (vfs_write ops (sint (fd - 3)) data len) s
         else if fd = FILEHANDLE_STDOUT \<or> fd = FILEHANDLE_STDERR then
           case con of None \<Rightarrow> Inl Fault
           | Some dev \<Rightarrow> bindE (gcd_write dev data len (sys_console s)) (\<lambda>(r, c). Inr (r, s\<lparr>sys_console := c\<rparr>))
         else KERNEL_PANIC ''Write syscall not finished yet.'')"

definition syscall_read :: "'w fs_ops \<Rightarrow> 'c gcd option \<Rightarrow> uint32 \<Rightarrow> uint32 \<Rightarrow> int \<Rightarrow> ('w, 'a, 'c) sys \<Rightarrow> (int \<times> ('w, 'a, 'c) sys) kres" where
  "syscall_read ops con fd a len s =
     (let buf = bytes_at (user_mem s) a len
      in if fd > 2 then
           bindE (vfs_read ops (sint (fd - 3)) buf len (sys_vfs s)) (\<lambda>((r, buf), v).
           Inr (r, s\<lparr>sys_vfs := v, user_mem := store_at (user_mem s) a buf\<rparr>))
         else if fd = FILEHANDLE_STDIN then
           case con of None \<Rightarrow> Inl Fault
           | Some dev \<Rightarrow> bindE (gcd_read dev buf len (sys_console s)) (\<lambda>(r, buf, c).
               Inr (r, s\<lparr>sys_console := c, user_mem := store_at (user_mem s) a buf\<rparr>))
         else KERNEL_PANIC ''Read syscall not finished yet.'')"

definition syscall_open :: "'w fs_ops \<Rightarrow> uint32 \<Rightarrow> ('w, 'a, 'c) sys \<Rightarrow> (int \<times> ('w, 'a, 'c) sys) kres" where
  "syscall_open ops pathname s =
     bindE (string_at (user_mem s) pathname) (\<lambda>path.
     bindE (on_vfs (vfs_open ops path) s) (\<lambda>(ret, s).
     Inr (if ret < 0 then ret else ret + 3, s)))"

definition syscall_close :: "'w fs_ops \<Rightarrow> uint32 \<Rightarrow> ('w, 'a, 'c) sys \<Rightarrow> (int \<times> ('w, 'a, 'c) sys) kres" where
  "syscall_close ops filehandle s = on_vfs (vfs_close ops (sint (filehandle - 3))) s"

definition syscall_create :: "'w fs_ops \<Rightarrow> uint32 \<Rightarrow> int \<Rightarrow> ('w, 'a, 'c) sys \<Rightarrow> (int \<times> ('w, 'a, 'c) sys) kres" where
  "syscall_create ops pathname sz s =
     bindE (string_at (user_mem s) pathname) (\<lambda>path. on_vfs (vfs_create ops path sz) s)"

definition syscall_delete :: "'w fs_ops \<Rightarrow> uint32 \<Rightarrow> ('w, 'a, 'c) sys \<Rightarrow> (int \<times> ('w, 'a, 'c) sys) kres" where
  "syscall_delete ops pathname s =
     bindE (string_at (user_mem s) pathname) (\<lambda>path. on_vfs (vfs_remove ops path) s)"

definition syscall_seek :: "uint32 \<Rightarrow> int \<Rightarrow> ('w, 'a, 'c) sys \<Rightarrow> (int \<times> ('w, 'a, 'c) sys) kres" where
  "syscall_seek filehandle offset s = on_vfs (vfs_seek (sint (filehandle - 3)) offset) s"

text \<open>A null pointer is passed on as no name.\<close>

definition name_at :: "(uint32 \<Rightarrow> char) \<Rightarrow> uint32 \<Rightarrow> string option kres" where
  "name_at m a = (if a = 0 then Inr None else bindE (string_at m a) (\<lambda>n. Inr (Some n)))"

definition syscall_filecount :: "'w fs_ops \<Rightarrow> uint32 \<Rightarrow> ('w, 'a, 'c) sys \<Rightarrow> (int \<times> ('w, 'a, 'c) sys) kres" where
  "syscall_filecount ops name s =
     bindE (name_at (user_mem s) name) (\<lambda>n. on_vfs (vfs_filecount ops n) s)"

text \<open>The buffer of \<^verbatim>\<open>syscall_file\<close> has room for a name of the volume.\<close>

definition syscall_file :: "'w fs_ops \<Rightarrow> uint32 \<Rightarrow> int \<Rightarrow> uint32 \<Rightarrow> ('w, 'a, 'c) sys \<Rightarrow> (int \<times> ('w, 'a, 'c) sys) kres" where
  "syscall_file ops name index buffer s =
     bindE (name_at (user_mem s) name) (\<lambda>n.
     bindE (vfs_file ops n index (bytes_at (user_mem s) buffer VFS_NAME_LENGTH) (sys_vfs s)) (\<lambda>((r, buf), v).
     Inr (r, s\<lparr>sys_vfs := v, user_mem := store_at (user_mem s) buffer buf\<rparr>)))"

subsection \<open>Dispatch\<close>

text \<open>
  How a call ends: the program goes on with the result, its thread waits and the result comes later,
  the process has ended, or the machine has been shut down.
\<close>

datatype sysres = Continue | Blocked | Exited | Stopped

definition on_procs :: "('a procs \<Rightarrow> ('r \<times> 'a procs) kres) \<Rightarrow> ('w, 'a, 'c) sys \<Rightarrow> ('r \<times> ('w, 'a, 'c) sys) kres" where
  "on_procs f s = bindE (f (sys_procs s)) (\<lambda>(r, p). Inr (r, s\<lparr>sys_procs := p\<rparr>))"

definition on_kernel :: "('a sems_scheme \<Rightarrow> 'a sems_scheme) \<Rightarrow> ('w, 'a, 'c) sys \<Rightarrow> ('w, 'a, 'c) sys" where
  "on_kernel f s = s\<lparr>sys_procs := (sys_procs s)\<lparr>kernel := f (kernel (sys_procs s))\<rparr>\<rparr>"

definition sys_return :: "uint32 \<Rightarrow> (int \<times> ('w, 'a, 'c) sys) kres \<Rightarrow> (sysres \<times> ('w, 'a, 'c) sys) kres" where
  "sys_return user_context m =
     bindE m (\<lambda>(r, s). Inr (Continue, on_kernel (context_upd user_context (\<lambda>c. (set_reg MIPS_REGISTER_V0 (word_of_int r) c)\<lparr>reg_pc := reg_pc c + 4\<rparr>)) s))"

definition halt_kernel :: "'w fs_ops \<Rightarrow> ('w, 'a, 'c) sys \<Rightarrow> (sysres \<times> ('w, 'a, 'c) sys) kres" where
  "halt_kernel ops s = bindE (vfs_deinit ops (sys_vfs s)) (\<lambda>v. Inr (Stopped, s\<lparr>sys_vfs := v\<rparr>))"

text \<open>
  \<open>img\<close>, \<open>start\<close> and \<open>base\<close> are the addresses the process operations use.
\<close>

definition syscall_handle ::
  "'w fs_ops \<Rightarrow> 'c gcd option \<Rightarrow> symbols \<Rightarrow> uint32 \<Rightarrow> uint32 \<Rightarrow> uint32 \<Rightarrow> ('w, 'a, 'c) sys \<Rightarrow> (sysres \<times> ('w, 'a, 'c) sys) kres"
where
  "syscall_handle ops con img start base user_context s =
     (let c = context_at (kernel (sys_procs s)) user_context;
          A0 = cpu_regs c ! MIPS_REGISTER_A0; A1 = cpu_regs c ! MIPS_REGISTER_A1;
          A2 = cpu_regs c ! MIPS_REGISTER_A2; A3 = cpu_regs c ! MIPS_REGISTER_A3
      in if A0 = SYSCALL_HALT then halt_kernel ops s
         else if A0 = SYSCALL_EXEC then
           sys_return user_context (bindE (string_at (user_mem s) A1) (\<lambda>name. on_procs (process_spawn img start name) s))
         else if A0 = SYSCALL_EXIT then
           bindE (on_procs (\<lambda>p. bindE (process_finish base (sint A1) p) (\<lambda>p. Inr ((), p))) s) (\<lambda>(_, s). Inr (Exited, s))
         else if A0 = SYSCALL_JOIN then
           bindE (on_procs (process_join base (sint A1)) s) (\<lambda>(r, s).
           case r of None \<Rightarrow> Inr (Blocked, s) | Some v \<Rightarrow> sys_return user_context (Inr (v, s)))
         else if A0 = SYSCALL_READ then sys_return user_context (syscall_read ops con A1 A2 (sint A3) s)
         else if A0 = SYSCALL_WRITE then sys_return user_context (syscall_write ops con A1 A2 (sint A3) s)
         else if A0 = SYSCALL_OPEN then sys_return user_context (syscall_open ops A1 s)
         else if A0 = SYSCALL_CLOSE then sys_return user_context (syscall_close ops A1 s)
         else if A0 = SYSCALL_SEEK then sys_return user_context (syscall_seek A1 (sint A2) s)
         else if A0 = SYSCALL_CREATE then sys_return user_context (syscall_create ops A1 (sint A2) s)
         else if A0 = SYSCALL_DELETE then sys_return user_context (syscall_delete ops A1 s)
         else if A0 = SYSCALL_FILECOUNT then sys_return user_context (syscall_filecount ops A1 s)
         else if A0 = SYSCALL_FILE then sys_return user_context (syscall_file ops A1 (sint A2) A3 s)
         else KERNEL_PANIC ''Unhandled system call'')"

text \<open>A join that had to wait goes on: the next turn of the loop of \<^verbatim>\<open>process_join\<close> and what follows it.\<close>

definition syscall_join_resume ::
  "uint32 \<Rightarrow> uint32 \<Rightarrow> int \<Rightarrow> int \<Rightarrow> uint32 \<Rightarrow> ('w, 'a, 'c) sys \<Rightarrow> (sysres \<times> ('w, 'a, 'c) sys) kres"
where
  "syscall_join_resume base intr_status my_pid pid user_context s =
     bindE (on_procs (join_turn base intr_status my_pid pid) s) (\<lambda>(r, s).
     case r of None \<Rightarrow> Inr (Blocked, s) | Some v \<Rightarrow> sys_return user_context (Inr (v, s)))"

subsection \<open>Exceptions\<close>

definition EXCEPTION_TLBM :: int where "EXCEPTION_TLBM = 1"
definition EXCEPTION_TLBL :: int where "EXCEPTION_TLBL = 2"
definition EXCEPTION_TLBS :: int where "EXCEPTION_TLBS = 3"
definition EXCEPTION_ADDRL :: int where "EXCEPTION_ADDRL = 4"
definition EXCEPTION_ADDRS :: int where "EXCEPTION_ADDRS = 5"
definition EXCEPTION_BUSI :: int where "EXCEPTION_BUSI = 6"
definition EXCEPTION_BUSD :: int where "EXCEPTION_BUSD = 7"
definition EXCEPTION_SYSCALL :: int where "EXCEPTION_SYSCALL = 8"
definition EXCEPTION_BREAK :: int where "EXCEPTION_BREAK = 9"
definition EXCEPTION_RESVI :: int where "EXCEPTION_RESVI = 10"
definition EXCEPTION_COPROC :: int where "EXCEPTION_COPROC = 11"
definition EXCEPTION_AOFLOW :: int where "EXCEPTION_AOFLOW = 12"
definition EXCEPTION_TRAP :: int where "EXCEPTION_TRAP = 13"

lemmas exception_codes = EXCEPTION_TLBM_def EXCEPTION_TLBL_def EXCEPTION_TLBS_def EXCEPTION_ADDRL_def EXCEPTION_ADDRS_def
  EXCEPTION_BUSI_def EXCEPTION_BUSD_def EXCEPTION_SYSCALL_def EXCEPTION_BREAK_def EXCEPTION_RESVI_def EXCEPTION_COPROC_def
  EXCEPTION_AOFLOW_def EXCEPTION_TRAP_def

text \<open>
  The cases of the two handlers that stop the kernel; those of kernel mode print the failing address
  first, which only the console shows.
\<close>

definition kernel_exception_handle :: "int \<Rightarrow> 'a sems_scheme \<Rightarrow> 'a sems_scheme kres" where
  "kernel_exception_handle ex s =
     (let (intr_status, s) = interrupt_disable s;
          s = interrupt_clear_EXL s
      in bindE
          (if ex = EXCEPTION_TLBM then KERNEL_PANIC ''TLB Modification: not handled yet''
           else if ex = EXCEPTION_TLBL then KERNEL_PANIC ''TLB Load: not handled yet''
           else if ex = EXCEPTION_TLBS then KERNEL_PANIC ''TLB Store: not handled yet''
           else if ex = EXCEPTION_ADDRL then KERNEL_PANIC ''Address Error Load: not handled yet''
           else if ex = EXCEPTION_ADDRS then KERNEL_PANIC ''Address Error Store: not handled yet''
           else if ex = EXCEPTION_BUSI then KERNEL_PANIC ''Bus Error Instruction: not handled yet''
           else if ex = EXCEPTION_BUSD then KERNEL_PANIC ''Bus Error Data: not handled yet''
           else if ex = EXCEPTION_SYSCALL then KERNEL_PANIC ''Syscall: From _kernel_ mode?''
           else if ex = EXCEPTION_BREAK then KERNEL_PANIC ''Breakpoint: not handled yet''
           else if ex = EXCEPTION_RESVI then KERNEL_PANIC ''Reserved instruction: not handled yet''
           else if ex = EXCEPTION_COPROC then KERNEL_PANIC ''Coprocessor unusable: buggy assembler code?''
           else if ex = EXCEPTION_AOFLOW then KERNEL_PANIC ''Arithmetic overflow: buggy assembler code?''
           else if ex = EXCEPTION_TRAP then KERNEL_PANIC ''Trap: this just should not happen''
           else KERNEL_PANIC ''Unknown exception'' :: unit kres)
         (\<lambda>_. Inr (interrupt_set_state intr_status (interrupt_set_EXL s))))"

definition user_exception_handle ::
  "'w fs_ops \<Rightarrow> 'c gcd option \<Rightarrow> symbols \<Rightarrow> uint32 \<Rightarrow> uint32 \<Rightarrow> int \<Rightarrow> ('w, 'a, 'c) sys \<Rightarrow> (sysres \<times> ('w, 'a, 'c) sys) kres"
where
  "user_exception_handle ops con img start base ex s =
     (let s = on_kernel (\<lambda>k. interrupt_clear_EXL (snd (interrupt_disable k))) s
      in bindE (on_procs (in_kernel thread_get_current_thread) s) (\<lambda>(t, s).
         bindE (on_procs (in_kernel thread_get_current_thread_entry) s) (\<lambda>(my_entry, s).
         bindE (on_procs (\<lambda>p. bindE (run_kernel (tt_upd t (\<lambda>e. e\<lparr>th_user_context := th_context e\<rparr>)) p) (\<lambda>p. Inr ((), p))) s) (\<lambda>(_, s).
         bindE
          (if ex = EXCEPTION_TLBM then KERNEL_PANIC ''TLB Modification: not handled yet''
           else if ex = EXCEPTION_TLBL then KERNEL_PANIC ''TLB Load: not handled yet''
           else if ex = EXCEPTION_TLBS then KERNEL_PANIC ''TLB Store: not handled yet''
           else if ex = EXCEPTION_ADDRL then KERNEL_PANIC ''Address Error Load: not handled yet''
           else if ex = EXCEPTION_ADDRS then KERNEL_PANIC ''Address Error Store: not handled yet''
           else if ex = EXCEPTION_BUSI then KERNEL_PANIC ''Bus Error Instruction: not handled yet''
           else if ex = EXCEPTION_BUSD then KERNEL_PANIC ''Bus Error Data: not handled yet''
           else if ex = EXCEPTION_SYSCALL then
             bindE (syscall_handle ops con img start base (th_context my_entry) (on_kernel (\<lambda>k. snd (interrupt_enable k)) s)) (\<lambda>(r, s).
             Inr (r, if r = Continue then on_kernel (\<lambda>k. snd (interrupt_disable k)) s else s))
           else if ex = EXCEPTION_BREAK then KERNEL_PANIC ''Breakpoint: not handled yet''
           else if ex = EXCEPTION_RESVI then KERNEL_PANIC ''Reserved instruction: not handled yet''
           else if ex = EXCEPTION_COPROC then KERNEL_PANIC ''Coprocessor unusable: buggy assembler code?''
           else if ex = EXCEPTION_AOFLOW then KERNEL_PANIC ''Arithmetic overflow: buggy assembler code?''
           else if ex = EXCEPTION_TRAP then KERNEL_PANIC ''Trap: this just should not happen''
           else KERNEL_PANIC ''Unknown exception'') (\<lambda>(r, s).
         Inr (r, if r = Continue then on_kernel (\<lambda>k. snd (interrupt_enable (interrupt_set_EXL k))) s else s))))))"

end
