(* ===== verification/Syscall_Spec.thy ===== *)
theory Syscall_Spec
  imports Syscall
begin

text \<open>
  What a user program sees of the kernel through system calls: a file written with one call is read
  back with another, the tables of the kernel stay in order, and the calls that stop the kernel.
\<close>

subsection \<open>User memory\<close>

lemma read_string_run:
  assumes "length p \<le> n" "NUL \<notin> set p" "\<And>i. i < length p \<Longrightarrow> m (a + of_nat i) = p ! i" "m (a + of_nat (length p)) = NUL"
  shows "read_string n m a = Inr p"
  using assms
proof (induction p arbitrary: n a)
  case Nil
  then show ?case by (simp add: read_string.simps)
next
  case (Cons c p)
  have "read_string (n - 1) m (a + 1) = Inr p"
  proof (rule Cons.IH)
    show "m (a + 1 + of_nat i) = p ! i" if "i < length p" for i
      using Cons.prems(3) [of "Suc i"] that by (simp add: add.assoc)
  qed (use Cons.prems in \<open>auto simp: add.assoc\<close>)
  moreover have "m a = c" "c \<noteq> NUL" "n \<noteq> 0" using Cons.prems(1,2) Cons.prems(3) [of 0] by auto
  ultimately show ?case by (simp add: read_string.simps [of n])
qed

lemma read_string_c_string: "read_string n m a = Inr p \<Longrightarrow> c_string p"
proof (induction n arbitrary: a p)
  case 0
  then show ?case by (auto simp: read_string.simps c_string_def split: if_splits)
next
  case (Suc n)
  from Suc.prems show ?case
    by (subst (asm) read_string.simps) (auto simp: c_string_def kres_iff split: if_splits dest!: Suc.IH)
qed

text \<open>\<open>holds m a bs\<close>: the bytes from address \<open>a\<close> on are \<open>bs\<close>.\<close>

definition holds :: "(uint32 \<Rightarrow> char) \<Rightarrow> uint32 \<Rightarrow> char list \<Rightarrow> bool" where
  "holds m a bs \<longleftrightarrow> (\<forall>i < length bs. m (a + of_nat i) = bs ! i)"

lemma holds_Nil: "holds m a []"
  and holds_Cons: "holds m a (c # cs) \<longleftrightarrow> m a = c \<and> holds m (a + 1) cs"
  by (auto simp: holds_def All_less_Suc2 add.assoc)

lemma string_at_holds:
  assumes "holds m a (p @ [NUL])" "NUL \<notin> set p" "length p \<le> 2 ^ 32"
  shows "string_at m a = Inr p"
  unfolding string_at_def
proof (rule read_string_run)
  show "m (a + of_nat i) = p ! i" if "i < length p" for i
    using assms(1) that by (auto simp: holds_def nth_append dest: spec [of _ i])
  show "m (a + of_nat (length p)) = NUL" using assms(1) by (auto simp: holds_def dest: spec [of _ "length p"])
qed (use assms in simp_all)

lemma bytes_at_holds: "holds m a bs \<Longrightarrow> bytes_at m a (int (length bs)) = bs"
  by (rule nth_equalityI) (simp_all add: bytes_at_def holds_def)

lemma holds_store_at: "length bs < 2 ^ 32 \<Longrightarrow> holds (store_at m a bs) a bs"
  by (auto simp: holds_def store_at_def unat_of_nat take_bit_nat_eq_self)

lemma length_bytes_at [simp]: "length (bytes_at m a n) = nat n"
  by (simp add: bytes_at_def)

subsection \<open>A system call of the running thread\<close>

text \<open>
  The thread that runs has its context at \<open>ctx\<close>.  A user program loads the registers and executes
  the system call instruction (\<^verbatim>\<open>tests/_syscall.S\<close>); what it finds in \<^verbatim>\<open>v0\<close> afterwards is the
  result.
\<close>

definition user_at :: "uint32 \<Rightarrow> ('w, 'a, 'c) sys \<Rightarrow> bool" where
  "user_at ctx s \<longleftrightarrow> (\<exists>t e. rd (scheduler_current_thread (kernel (sys_procs s))) (this_cpu (kernel (sys_procs s))) = Inr t \<and>
     rd (thread_table (kernel (sys_procs s))) t = Inr e \<and> th_context e = ctx \<and>
     length (cpu_regs (context_at (kernel (sys_procs s)) ctx)) = 29)"

definition load_args :: "uint32 \<Rightarrow> uint32 \<Rightarrow> uint32 \<Rightarrow> uint32 \<Rightarrow> context_t \<Rightarrow> context_t" where
  "load_args call a1 a2 a3 c =
     set_reg MIPS_REGISTER_A3 a3 (set_reg MIPS_REGISTER_A2 a2 (set_reg MIPS_REGISTER_A1 a1 (set_reg MIPS_REGISTER_A0 call c)))"

definition user_syscall where
  "user_syscall ops con img start base ctx call a1 a2 a3 s =
     bindE (user_exception_handle ops con img start base EXCEPTION_SYSCALL (on_kernel (context_upd ctx (load_args call a1 a2 a3)) s))
       (\<lambda>(r, s). Inr (r, cpu_regs (context_at (kernel (sys_procs s)) ctx) ! MIPS_REGISTER_V0, s))"

lemmas regs = MIPS_REGISTER_V0_def MIPS_REGISTER_A0_def MIPS_REGISTER_A1_def MIPS_REGISTER_A2_def MIPS_REGISTER_A3_def

lemma load_args_regs [simp]:
  assumes "length (cpu_regs c) = 29"
  shows "cpu_regs (load_args call a1 a2 a3 c) ! MIPS_REGISTER_A0 = call" "cpu_regs (load_args call a1 a2 a3 c) ! MIPS_REGISTER_A1 = a1"
    "cpu_regs (load_args call a1 a2 a3 c) ! MIPS_REGISTER_A2 = a2" "cpu_regs (load_args call a1 a2 a3 c) ! MIPS_REGISTER_A3 = a3"
    "length (cpu_regs (load_args call a1 a2 a3 c)) = 29"
  using assms by (simp_all add: load_args_def set_reg_def regs)

lemma on_kernel_simps [simp]:
  "sys_vfs (on_kernel f s) = sys_vfs s" "user_mem (on_kernel f s) = user_mem s" "sys_console (on_kernel f s) = sys_console s"
  "kernel (sys_procs (on_kernel f s)) = f (kernel (sys_procs s))"
  "process_table (sys_procs (on_kernel f s)) = process_table (sys_procs s)"
  "process_table_slock (sys_procs (on_kernel f s)) = process_table_slock (sys_procs s)"
  by (simp_all add: on_kernel_def)

lemma this_cpu_upd [simp]: "this_cpu (s\<lparr>cp0_status := x\<rparr>) = this_cpu s" "this_cpu (context_upd p f k) = this_cpu k"
  by (simp_all add: context_upd_def)

lemma current_thread_run:
  assumes "rd (scheduler_current_thread k) (this_cpu k) = Inr t"
  shows "thread_get_current_thread k = Inr (t, k)"
  using assms by (simp add: thread_get_current_thread_def interrupt_disable_def interrupt_set_state_def)

lemma current_entry_run:
  assumes "rd (scheduler_current_thread k) (this_cpu k) = Inr t" "rd (thread_table k) t = Inr e"
  shows "thread_get_current_thread_entry k = Inr (e, k)"
  using assms by (simp add: thread_get_current_thread_entry_def interrupt_disable_def interrupt_set_state_def tt_get_def)

lemma on_procs_run:
  "f (kernel (sys_procs s)) = Inr (r, k) \<Longrightarrow> on_procs (in_kernel f) s = Inr (r, on_kernel (\<lambda>_. k) s)"
  "g (kernel (sys_procs s)) = Inr k \<Longrightarrow> on_procs (\<lambda>p. bindE (run_kernel g p) (\<lambda>p. Inr ((), p))) s = Inr ((), on_kernel (\<lambda>_. k) s)"
  by (simp_all add: on_procs_def in_kernel_def run_kernel_def on_kernel_def)

lemma on_kernel_twice [simp]: "on_kernel f (on_kernel g s) = on_kernel (\<lambda>k. f (g k)) s"
  by (simp add: on_kernel_def)

lemma interrupt_status_only:
  "snd (interrupt_disable k) = k\<lparr>cp0_status := 0xffff00fe AND cp0_status k\<rparr>"
  "snd (interrupt_enable k) = k\<lparr>cp0_status := 0x0000ff01 OR cp0_status k\<rparr>"
  by (simp_all add: interrupt_disable_def interrupt_enable_def)

lemma current_pid_eq:
  assumes "rd (scheduler_current_thread (kernel p)) (this_cpu (kernel p)) = Inr t" "rd (thread_table (kernel p)) t = Inr e"
  shows "current_pid p m \<longleftrightarrow> m = th_process_id e"
  using current_entry_run [OF assms] by (auto simp: current_pid_def process_get_current_process_def in_kernel_def)

text \<open>The system call as it arrives in \<^verbatim>\<open>syscall_handle\<close>, and what is left when it is done.\<close>

lemma user_syscall_eq:
  assumes "user_at ctx s"
  obtains s1 where
    "user_syscall ops con img start base ctx call a1 a2 a3 s =
       bindE (syscall_handle ops con img start base ctx s1) (\<lambda>(r, s').
       let s' = (if r = Continue then on_kernel (\<lambda>k. snd (interrupt_enable (interrupt_set_EXL (snd (interrupt_disable k))))) s' else s')
       in Inr (r, cpu_regs (context_at (kernel (sys_procs s')) ctx) ! MIPS_REGISTER_V0, s'))"
    "sys_vfs s1 = sys_vfs s" "user_mem s1 = user_mem s" "sys_console s1 = sys_console s" "user_at ctx s1"
    "\<exists>k. sys_procs s1 = (sys_procs s)\<lparr>kernel := k\<rparr>" "current_pid (sys_procs s1) = current_pid (sys_procs s)"
    "context_at (kernel (sys_procs s1)) ctx = load_args call a1 a2 a3 (context_at (kernel (sys_procs s)) ctx)"
proof -
  obtain t e where te: "rd (scheduler_current_thread (kernel (sys_procs s))) (this_cpu (kernel (sys_procs s))) = Inr t"
    "rd (thread_table (kernel (sys_procs s))) t = Inr e" "th_context e = ctx"
    "length (cpu_regs (context_at (kernel (sys_procs s)) ctx)) = 29"
    using assms by (auto simp: user_at_def)
  let ?K = "kernel (sys_procs s)" and ?g = "load_args call a1 a2 a3"
  define k1 where "k1 = interrupt_clear_EXL (snd (interrupt_disable (context_upd ctx ?g ?K)))"
  have k1: "rd (scheduler_current_thread k1) (this_cpu k1) = Inr t" "rd (thread_table k1) t = Inr e"
    "context_at k1 ctx = ?g (context_at ?K ctx)"
    using te by (simp_all add: k1_def interrupt_status_only interrupt_clear_EXL_def context_upd_def)
  define k2 where "k2 = k1\<lparr>thread_table := (thread_table k1)[nat t := e\<lparr>th_user_context := th_context e\<rparr>]\<rparr>"
  have k2: "tt_upd t (\<lambda>e. e\<lparr>th_user_context := th_context e\<rparr>) k1 = Inr k2"
    using k1(2) by (auto simp: tt_upd_def k2_def kres_iff)
  let ?k3 = "snd (interrupt_enable k2)"
  show ?thesis
  proof (rule that [of "on_kernel (\<lambda>_. ?k3) s"])
    show "user_syscall ops con img start base ctx call a1 a2 a3 s =
       bindE (syscall_handle ops con img start base ctx (on_kernel (\<lambda>_. ?k3) s)) (\<lambda>(r, s').
       let s' = (if r = Continue then on_kernel (\<lambda>k. snd (interrupt_enable (interrupt_set_EXL (snd (interrupt_disable k))))) s' else s')
       in Inr (r, cpu_regs (context_at (kernel (sys_procs s')) ctx) ! MIPS_REGISTER_V0, s'))"
      using current_thread_run [OF k1(1)] current_entry_run [OF k1(1,2)] k2 te(3)
      by (simp add: user_syscall_def user_exception_handle_def Let_def k1_def [symmetric] on_procs_run exception_codes bindE_assoc
          split_def fun_eq_iff cong: if_cong)
    show "user_at ctx (on_kernel (\<lambda>_. ?k3) s)"
      using k1 te(3,4) by (auto simp: user_at_def interrupt_status_only k2_def kres_iff nth_list_update)
    have "rd (scheduler_current_thread ?k3) (this_cpu ?k3) = Inr t" "rd (thread_table ?k3) t = Inr (e\<lparr>th_user_context := th_context e\<rparr>)"
      using k1 by (auto simp: interrupt_status_only k2_def kres_iff)
    then show "current_pid (sys_procs (on_kernel (\<lambda>_. ?k3) s)) = current_pid (sys_procs s)"
      using current_pid_eq [OF te(1,2)] current_pid_eq [of "sys_procs (on_kernel (\<lambda>_. ?k3) s)"] by (auto simp: fun_eq_iff)
    show "\<exists>k. sys_procs (on_kernel (\<lambda>_. ?k3) s) = (sys_procs s)\<lparr>kernel := k\<rparr>" by (auto simp: on_kernel_def)
    show "context_at (kernel (sys_procs (on_kernel (\<lambda>_. ?k3) s))) ctx = ?g (context_at ?K ctx)"
      using k1(3) by (simp add: interrupt_status_only k2_def)
  qed simp_all
qed

text \<open>The program goes on after the instruction, with the result in \<^verbatim>\<open>v0\<close>.\<close>

definition user_pc :: "uint32 \<Rightarrow> ('w, 'a, 'c) sys \<Rightarrow> uint32" where
  "user_pc ctx s = reg_pc (context_at (kernel (sys_procs s)) ctx)"

lemma user_syscall_returns:
  fixes s :: "('w, 'a, 'c) sys"
  assumes "user_at ctx s"
    "\<And>s1 :: ('w, 'a, 'c) sys. \<lbrakk>sys_vfs s1 = sys_vfs s; user_mem s1 = user_mem s;
        cpu_regs (context_at (kernel (sys_procs s1)) ctx) ! MIPS_REGISTER_A0 = call; cpu_regs (context_at (kernel (sys_procs s1)) ctx) ! MIPS_REGISTER_A1 = a1;
        cpu_regs (context_at (kernel (sys_procs s1)) ctx) ! MIPS_REGISTER_A2 = a2; cpu_regs (context_at (kernel (sys_procs s1)) ctx) ! MIPS_REGISTER_A3 = a3\<rbrakk> \<Longrightarrow>
      syscall_handle ops con img start base ctx s1 = sys_return ctx (Inr (r, s1\<lparr>sys_vfs := v, user_mem := m\<rparr>))"
  shows "\<exists>s'. user_syscall ops con img start base ctx call a1 a2 a3 s = Inr (Continue, word_of_int r, s') \<and>
    user_at ctx s' \<and> sys_vfs s' = v \<and> user_mem s' = m \<and> user_pc ctx s' = user_pc ctx s + 4"
proof -
  have len: "length (cpu_regs (context_at (kernel (sys_procs s)) ctx)) = 29" using assms(1) by (auto simp: user_at_def)
  obtain s1 where s1: "user_syscall ops con img start base ctx call a1 a2 a3 s =
       bindE (syscall_handle ops con img start base ctx s1) (\<lambda>(r, s').
       let s' = (if r = Continue then on_kernel (\<lambda>k. snd (interrupt_enable (interrupt_set_EXL (snd (interrupt_disable k))))) s' else s')
       in Inr (r, cpu_regs (context_at (kernel (sys_procs s')) ctx) ! MIPS_REGISTER_V0, s'))"
    "sys_vfs s1 = sys_vfs s" "user_mem s1 = user_mem s" "user_at ctx s1"
    "context_at (kernel (sys_procs s1)) ctx = load_args call a1 a2 a3 (context_at (kernel (sys_procs s)) ctx)"
    by (rule user_syscall_eq [OF assms(1)]) blast
  define s2 where "s2 = s1\<lparr>sys_vfs := v, user_mem := m\<rparr>"
  have s2: "sys_vfs s2 = v" "user_mem s2 = m" "sys_procs s2 = sys_procs s1" by (simp_all add: s2_def)
  have call: "syscall_handle ops con img start base ctx s1 = sys_return ctx (Inr (r, s2))"
    unfolding s2_def by (rule assms(2)) (use s1(2,3,5) len in simp_all)
  define s' where "s' = on_kernel (\<lambda>k. snd (interrupt_enable (interrupt_set_EXL (snd (interrupt_disable
      (context_upd ctx (\<lambda>c. (set_reg MIPS_REGISTER_V0 (word_of_int r) c)\<lparr>reg_pc := reg_pc c + 4\<rparr>) k)))))) s2"
  have k': "kernel (sys_procs s') = (kernel (sys_procs s1))\<lparr>context_at := (context_at (kernel (sys_procs s1)))(ctx :=
        (set_reg MIPS_REGISTER_V0 (word_of_int r) (context_at (kernel (sys_procs s1)) ctx))\<lparr>reg_pc := user_pc ctx s + 4\<rparr>),
      cp0_status := cp0_status (kernel (sys_procs s'))\<rparr>"
    using s2(3) s1(5) by (simp add: s'_def interrupt_status_only interrupt_set_EXL_def context_upd_def user_pc_def load_args_def set_reg_def)
  show ?thesis
  proof (intro exI [of _ s'] conjI)
    have l: "length (cpu_regs (context_at (kernel (sys_procs s1)) ctx)) = 29" using s1(5) len by simp
    show "user_syscall ops con img start base ctx call a1 a2 a3 s = Inr (Continue, word_of_int r, s')"
      using l by (simp add: s1(1) call sys_return_def s'_def [symmetric]) 
        (simp add: s'_def s2(3) interrupt_status_only interrupt_set_EXL_def context_upd_def set_reg_def regs)
    show "user_at ctx s'" using s1(4) l unfolding user_at_def by (subst (1 2 3 4) k') (simp add: set_reg_def)
    show "user_pc ctx s' = user_pc ctx s + 4" unfolding user_pc_def [of ctx s'] by (subst k') simp
  qed (simp_all add: s'_def s2)
qed

subsection \<open>Files through system calls\<close>

text \<open>Handles and lengths in registers.\<close>

lemma handle_word:
  assumes "fd < CONFIG_MAX_OPEN_FILES"
  shows "sint (word_of_int (int fd + 3) - 3 :: uint32) = int fd" "2 < (word_of_int (int fd + 3) :: uint32)"
proof -
  have fd: "fd < 512" using assms by (simp add: CONFIG_MAX_OPEN_FILES_def)
  have "word_of_int (int fd + 3) - 3 = (word_of_int (int fd) :: uint32)" by simp
  then show "sint (word_of_int (int fd + 3) - 3 :: uint32) = int fd"
    using fd by (simp only: sint_sbintrunc') (simp add: signed_take_bit_int_eq_self)
  show "2 < (word_of_int (int fd + 3) :: uint32)"
    using fd by (simp add: word_less_def uint_word_of_int del: of_int_add)
qed

lemma length_word: "n < 2 ^ 31 \<Longrightarrow> sint (of_nat n :: uint32) = int n"
  by (simp add: signed_of_nat signed_take_bit_int_eq_self)

lemma vfs_seek_range: "vfs_seek file pos v = Inr (VFS_OK, v') \<Longrightarrow> file < int CONFIG_MAX_OPEN_FILES"
  by (auto simp: vfs_seek_def vfs_op_def vfs_verify_open_def VFS_OK_def VFS_UNUSABLE_def kres_iff split: if_splits)

lemma same_mem: "user_mem s = m \<Longrightarrow> s\<lparr>sys_vfs := v, user_mem := m\<rparr> = s\<lparr>sys_vfs := v\<rparr>"
  by (cases s) simp

lemma syscall_file_runs:
  "string_at (user_mem s) pa = Inr path \<Longrightarrow> vfs_create ops path n (sys_vfs s) = Inr (r, v) \<Longrightarrow> syscall_create ops pa n s = Inr (r, s\<lparr>sys_vfs := v\<rparr>)"
  "string_at (user_mem s) pa = Inr path \<Longrightarrow> vfs_open ops path (sys_vfs s) = Inr (int fd, v) \<Longrightarrow> syscall_open ops pa s = Inr (int fd + 3, s\<lparr>sys_vfs := v\<rparr>)"
  "fd < CONFIG_MAX_OPEN_FILES \<Longrightarrow> vfs_write ops (int fd) (bytes_at (user_mem s) a n) n (sys_vfs s) = Inr (r, v) \<Longrightarrow>
     syscall_write ops con (word_of_int (int fd + 3)) a n s = Inr (r, s\<lparr>sys_vfs := v\<rparr>)"
  "fd < CONFIG_MAX_OPEN_FILES \<Longrightarrow> vfs_seek (int fd) n (sys_vfs s) = Inr (r, v) \<Longrightarrow> syscall_seek (word_of_int (int fd + 3)) n s = Inr (r, s\<lparr>sys_vfs := v\<rparr>)"
  "fd < CONFIG_MAX_OPEN_FILES \<Longrightarrow> vfs_read ops (int fd) (bytes_at (user_mem s) a n) n (sys_vfs s) = Inr ((r, buf), v) \<Longrightarrow>
     syscall_read ops con (word_of_int (int fd + 3)) a n s = Inr (r, s\<lparr>sys_vfs := v, user_mem := store_at (user_mem s) a buf\<rparr>)"
  "fd < CONFIG_MAX_OPEN_FILES \<Longrightarrow> vfs_close ops (int fd) (sys_vfs s) = Inr (r, v) \<Longrightarrow> syscall_close ops (word_of_int (int fd + 3)) s = Inr (r, s\<lparr>sys_vfs := v\<rparr>)"
  unfolding syscall_create_def syscall_open_def syscall_write_def syscall_seek_def syscall_read_def syscall_close_def on_vfs_def
  by (simp_all add: handle_word del: of_int_add)

lemmas syscall_dispatch = user_syscall_returns [unfolded syscall_handle_def Let_def]

lemma syscall_create_returns:
  assumes "user_at ctx s" "string_at (user_mem s) pa = Inr path" "sz < 2 ^ 31" "vfs_create ops path (int sz) (sys_vfs s) = Inr (r, v)"
  shows "\<exists>s'. user_syscall ops con img start base ctx SYSCALL_CREATE pa (of_nat sz) a3 s = Inr (Continue, word_of_int r, s') \<and>
    user_at ctx s' \<and> sys_vfs s' = v \<and> user_mem s' = user_mem s \<and> user_pc ctx s' = user_pc ctx s + 4"
  by (rule syscall_dispatch [OF assms(1), where call = SYSCALL_CREATE and ?a1.0 = pa and ?a2.0 = "of_nat sz" and ?a3.0 = a3 and r = r and v = v and m = "user_mem s"])
    (use assms(2-) in \<open>simp_all add: syscall_numbers syscall_file_runs(1) [where path = path and r = r and v = v] length_word same_mem\<close>)

lemma syscall_open_returns:
  assumes "user_at ctx s" "string_at (user_mem s) pa = Inr path" "vfs_open ops path (sys_vfs s) = Inr (int fd, v)"
  shows "\<exists>s'. user_syscall ops con img start base ctx SYSCALL_OPEN pa a2 a3 s = Inr (Continue, word_of_int (int fd + 3), s') \<and>
    user_at ctx s' \<and> sys_vfs s' = v \<and> user_mem s' = user_mem s \<and> user_pc ctx s' = user_pc ctx s + 4"
  by (rule syscall_dispatch [OF assms(1), where call = SYSCALL_OPEN and ?a1.0 = pa and ?a2.0 = a2 and ?a3.0 = a3 and r = "int fd + 3" and v = v and m = "user_mem s"])
    (use assms(2-) in \<open>simp_all add: syscall_numbers syscall_file_runs(2) [where path = path and fd = fd and v = v] same_mem\<close>)

lemma syscall_write_returns:
  assumes "user_at ctx s" "holds (user_mem s) a data" "length data < 2 ^ 31" "fd < CONFIG_MAX_OPEN_FILES"
    "vfs_write ops (int fd) data (int (length data)) (sys_vfs s) = Inr (r, v)"
  shows "\<exists>s'. user_syscall ops con img start base ctx SYSCALL_WRITE (word_of_int (int fd + 3)) a (of_nat (length data)) s = Inr (Continue, word_of_int r, s') \<and>
    user_at ctx s' \<and> sys_vfs s' = v \<and> user_mem s' = user_mem s \<and> user_pc ctx s' = user_pc ctx s + 4"
  by (rule syscall_dispatch [OF assms(1), where call = SYSCALL_WRITE and ?a1.0 = "word_of_int (int fd + 3)" and ?a2.0 = a and ?a3.0 = "of_nat (length data)" and r = r and v = v and m = "user_mem s"])
    (use assms(2-) in \<open>simp_all add: syscall_numbers syscall_file_runs(3) [where r = r and v = v] length_word bytes_at_holds handle_word same_mem del: of_int_add\<close>)

lemma syscall_seek_returns:
  assumes "user_at ctx s" "fd < CONFIG_MAX_OPEN_FILES" "n < 2 ^ 31" "vfs_seek (int fd) (int n) (sys_vfs s) = Inr (r, v)"
  shows "\<exists>s'. user_syscall ops con img start base ctx SYSCALL_SEEK (word_of_int (int fd + 3)) (of_nat n) a3 s = Inr (Continue, word_of_int r, s') \<and>
    user_at ctx s' \<and> sys_vfs s' = v \<and> user_mem s' = user_mem s \<and> user_pc ctx s' = user_pc ctx s + 4"
  by (rule syscall_dispatch [OF assms(1), where call = SYSCALL_SEEK and ?a1.0 = "word_of_int (int fd + 3)" and ?a2.0 = "of_nat n" and ?a3.0 = a3 and r = r and v = v and m = "user_mem s"])
    (use assms(2-) in \<open>simp_all add: syscall_numbers syscall_file_runs(4) [where r = r and v = v] length_word handle_word same_mem del: of_int_add\<close>)

lemma syscall_read_returns:
  assumes "user_at ctx s" "n < 2 ^ 31" "fd < CONFIG_MAX_OPEN_FILES"
    "vfs_read ops (int fd) (bytes_at (user_mem s) a (int n)) (int n) (sys_vfs s) = Inr ((r, buf), v)"
  shows "\<exists>s'. user_syscall ops con img start base ctx SYSCALL_READ (word_of_int (int fd + 3)) a (of_nat n) s = Inr (Continue, word_of_int r, s') \<and>
    user_at ctx s' \<and> sys_vfs s' = v \<and> user_mem s' = store_at (user_mem s) a buf \<and> user_pc ctx s' = user_pc ctx s + 4"
  by (rule syscall_dispatch [OF assms(1), where call = SYSCALL_READ and ?a1.0 = "word_of_int (int fd + 3)" and ?a2.0 = a and ?a3.0 = "of_nat n" and r = r and v = v and m = "store_at (user_mem s) a buf"])
    (use assms(2-) in \<open>simp_all add: syscall_numbers syscall_file_runs(5) [where r = r and buf = buf and v = v] length_word handle_word del: of_int_add\<close>)

lemma syscall_close_returns:
  assumes "user_at ctx s" "fd < CONFIG_MAX_OPEN_FILES" "vfs_close ops (int fd) (sys_vfs s) = Inr (r, v)"
  shows "\<exists>s'. user_syscall ops con img start base ctx SYSCALL_CLOSE (word_of_int (int fd + 3)) a2 a3 s = Inr (Continue, word_of_int r, s') \<and>
    user_at ctx s' \<and> sys_vfs s' = v \<and> user_mem s' = user_mem s \<and> user_pc ctx s' = user_pc ctx s + 4"
  by (rule syscall_dispatch [OF assms(1), where call = SYSCALL_CLOSE and ?a1.0 = "word_of_int (int fd + 3)" and ?a2.0 = a2 and ?a3.0 = a3 and r = r and v = v and m = "user_mem s"])
    (use assms(2-) in \<open>simp_all add: syscall_numbers syscall_file_runs(6) [where r = r and v = v] handle_word same_mem del: of_int_add\<close>)


subsection \<open>Calls that stop the kernel\<close>

abbreviation assertion_failed :: "'r kres" where "assertion_failed \<equiv> Inl (Panic ''Assertion failed'')"

lemma verify_open_panics:
  assumes "length (openfiles v) = CONFIG_MAX_OPEN_FILES"
    "i < 0 \<or> i \<ge> int CONFIG_MAX_OPEN_FILES \<or> of_filesystem (openfiles v ! nat i) = None"
  shows "vfs_verify_open i v = assertion_failed"
  using assms by (auto simp: vfs_verify_open_def KERNEL_ASSERT_def)

lemma bad_file_panics:
  assumes "vfs_free v" "i < 0 \<or> i \<ge> int CONFIG_MAX_OPEN_FILES \<or> of_filesystem (openfiles v ! nat i) = None"
  shows "vfs_close ops i v = assertion_failed" "vfs_seek i pos v = assertion_failed" "vfs_read ops i buf n v = assertion_failed" "vfs_write ops i data m v = assertion_failed"
proof -
  note V = vfs_freeD [OF assms(1)]
  have 1: "vfs_verify_open i (v\<lparr>vfs_ops := vfs_ops v + 1, openfile_table_sem := 0\<rparr>) = assertion_failed" "vfs_verify_open i (v\<lparr>vfs_ops := vfs_ops v + 1\<rparr>) = assertion_failed"
    using V(7) assms(2) by (auto intro!: verify_open_panics)
  show "vfs_close ops i v = assertion_failed" "vfs_read ops i buf n v = assertion_failed" "vfs_write ops i data m v = assertion_failed"
    using V(2) 1 by (simp_all add: vfs_close_def vfs_read_def vfs_write_def vfs_op_run [OF assms(1)] P_files_run)
  show "vfs_seek i pos v = assertion_failed"
    using V(2) 1 by (simp add: vfs_seek_def vfs_op_run [OF assms(1)] P_files_run KERNEL_ASSERT_def)
qed

lemma user_syscall_stops:
  fixes s :: "('w, 'a, 'c) sys"
  assumes "user_at ctx s"
    "\<And>s1 :: ('w, 'a, 'c) sys. \<lbrakk>sys_vfs s1 = sys_vfs s; user_mem s1 = user_mem s;
        cpu_regs (context_at (kernel (sys_procs s1)) ctx) ! MIPS_REGISTER_A0 = call; cpu_regs (context_at (kernel (sys_procs s1)) ctx) ! MIPS_REGISTER_A1 = a1;
        cpu_regs (context_at (kernel (sys_procs s1)) ctx) ! MIPS_REGISTER_A2 = a2; cpu_regs (context_at (kernel (sys_procs s1)) ctx) ! MIPS_REGISTER_A3 = a3\<rbrakk> \<Longrightarrow>
      syscall_handle ops con img start base ctx s1 = Inl e"
  shows "user_syscall ops con img start base ctx call a1 a2 a3 s = Inl e"
proof -
  have len: "length (cpu_regs (context_at (kernel (sys_procs s)) ctx)) = 29" using assms(1) by (auto simp: user_at_def)
  show ?thesis
    by (rule user_syscall_eq [OF assms(1), of ops con img start base call a1 a2 a3]) (use assms(2) len in auto)
qed

definition syscall_known :: "uint32 \<Rightarrow> bool" where
  "syscall_known n \<longleftrightarrow> n \<in> {SYSCALL_HALT, SYSCALL_EXEC, SYSCALL_EXIT, SYSCALL_JOIN, SYSCALL_OPEN, SYSCALL_CLOSE, SYSCALL_SEEK,
     SYSCALL_READ, SYSCALL_WRITE, SYSCALL_CREATE, SYSCALL_DELETE, SYSCALL_FILECOUNT, SYSCALL_FILE}"

lemma user_exception_panics:
  assumes "user_at ctx s" "ex \<noteq> EXCEPTION_SYSCALL"
  shows "\<exists>msg. user_exception_handle ops con img start base ex s = Inl (Panic msg)"
proof -
  obtain t e where te: "rd (scheduler_current_thread (kernel (sys_procs s))) (this_cpu (kernel (sys_procs s))) = Inr t"
    "rd (thread_table (kernel (sys_procs s))) t = Inr e"
    using assms(1) by (auto simp: user_at_def)
  define k1 where "k1 = interrupt_clear_EXL (snd (interrupt_disable (kernel (sys_procs s))))"
  have k1: "rd (scheduler_current_thread k1) (this_cpu k1) = Inr t" "rd (thread_table k1) t = Inr e"
    using te by (simp_all add: k1_def interrupt_status_only interrupt_clear_EXL_def)
  obtain k2 where k2: "tt_upd t (\<lambda>e. e\<lparr>th_user_context := th_context e\<rparr>) k1 = Inr k2"
    using k1(2) by (auto simp: tt_upd_def kres_iff)
  show ?thesis
    using current_thread_run [OF k1(1)] current_entry_run [OF k1] k2 assms(2)
    by (simp add: user_exception_handle_def Let_def k1_def [symmetric] on_procs_run KERNEL_PANIC_def)
qed

text \<open>
  C30: what a user program can do to the kernel.  A handle that is not the handle of an open file
  makes the calls close and seek, and read and write for handles above 2, fail an assertion of the
  kernel: the whole machine stops instead of the call returning an error.  The same holds for a system call
  number the kernel does not know, and every exception of user mode other than a system call stops
  the kernel too.
\<close>

theorem user_program_stops_kernel:
  assumes "user_at ctx s" "vfs_free (sys_vfs s)"
    "sint (h - 3) < 0 \<or> sint (h - 3) \<ge> int CONFIG_MAX_OPEN_FILES \<or> of_filesystem (openfiles (sys_vfs s) ! nat (sint (h - 3))) = None"
  shows "user_syscall ops con img start base ctx SYSCALL_CLOSE h a2 a3 s = assertion_failed \<and>
    user_syscall ops con img start base ctx SYSCALL_SEEK h a2 a3 s = assertion_failed \<and>
    (h > 2 \<longrightarrow> user_syscall ops con img start base ctx SYSCALL_READ h a2 a3 s = assertion_failed \<and>
       user_syscall ops con img start base ctx SYSCALL_WRITE h a2 a3 s = assertion_failed) \<and>
    (\<not> syscall_known call \<longrightarrow> user_syscall ops con img start base ctx call h a2 a3 s = Inl (Panic ''Unhandled system call'')) \<and>
    (ex \<noteq> EXCEPTION_SYSCALL \<longrightarrow> (\<exists>msg. user_exception_handle ops con img start base ex s = Inl (Panic msg)))"
proof (intro conjI impI)
  note P = bad_file_panics [OF assms(2,3)]
  show "user_syscall ops con img start base ctx SYSCALL_CLOSE h a2 a3 s = assertion_failed"
    by (rule user_syscall_stops [OF assms(1)]) (simp add: syscall_handle_def syscall_numbers syscall_close_def on_vfs_def P sys_return_def)
  show "user_syscall ops con img start base ctx SYSCALL_SEEK h a2 a3 s = assertion_failed"
    by (rule user_syscall_stops [OF assms(1)]) (simp add: syscall_handle_def Let_def syscall_numbers syscall_seek_def on_vfs_def P sys_return_def)
  show "user_syscall ops con img start base ctx SYSCALL_READ h a2 a3 s = assertion_failed" if "h > 2"
    by (rule user_syscall_stops [OF assms(1)]) (use that in \<open>simp add: syscall_handle_def Let_def syscall_numbers syscall_read_def P sys_return_def\<close>)
  show "user_syscall ops con img start base ctx SYSCALL_WRITE h a2 a3 s = assertion_failed" if "h > 2"
    by (rule user_syscall_stops [OF assms(1)]) (use that in \<open>simp add: syscall_handle_def Let_def syscall_numbers syscall_write_def on_vfs_def P sys_return_def\<close>)
  show "user_syscall ops con img start base ctx call h a2 a3 s = Inl (Panic ''Unhandled system call'')" if "\<not> syscall_known call"
    by (rule user_syscall_stops [OF assms(1)]) (use that in \<open>simp add: syscall_handle_def Let_def syscall_known_def KERNEL_PANIC_def\<close>)
  show "\<exists>msg. user_exception_handle ops con img start base ex s = Inl (Panic msg)" if "ex \<noteq> EXCEPTION_SYSCALL"
    by (rule user_exception_panics [OF assms(1) that])
qed

subsection \<open>The tables of the kernel\<close>

text \<open>
  The virtual file system and the process table between two system calls; \<open>zs\<close> gives the dead
  children of each process.
\<close>

definition sys_ok :: "('w, 'a, 'c) sys \<Rightarrow> bool" where
  "sys_ok s \<longleftrightarrow> vfs_quiet (sys_vfs s) \<and> tables_ok (sys_vfs s) \<and> (\<exists>zs. procs_idle (sys_procs s) zs)"

lemma sys_ok_simps [simp]:
  "sys_ok (on_kernel f s) = sys_ok s" "sys_ok (s\<lparr>user_mem := m\<rparr>) = sys_ok s" "sys_ok (s\<lparr>sys_console := c\<rparr>) = sys_ok s"
  by (simp_all add: sys_ok_def on_kernel_def)

lemma sys_ok_vfs: "sys_ok s \<Longrightarrow> kept (sys_vfs s) v \<Longrightarrow> sys_ok (s\<lparr>sys_vfs := v\<rparr>)"
  by (auto simp: sys_ok_def kept_def vfs_quiet_def)

definition leaves_ok :: "('r \<times> ('w, 'a, 'c) sys) kres \<Rightarrow> bool" where
  "leaves_ok m \<longleftrightarrow> after (\<lambda>(_, s). sys_ok s) m"

lemma leaves_on_vfs: "sys_ok s \<Longrightarrow> keeps (sys_vfs s) (f (sys_vfs s)) \<Longrightarrow> leaves_ok (on_vfs f s)"
  by (auto simp: leaves_ok_def on_vfs_def keeps_def after_def kres_iff sys_ok_vfs)

lemma leaves_on_procs:
  "sys_ok s \<Longrightarrow> (\<And>r p zs. f (sys_procs s) = Inr (r, p) \<Longrightarrow> procs_idle (sys_procs s) zs \<Longrightarrow> \<exists>zs'. procs_idle p zs') \<Longrightarrow> leaves_ok (on_procs f s)"
  by (auto simp: leaves_ok_def on_procs_def after_def kres_iff sys_ok_def)

lemma leaves_bind: "(\<And>x. m = Inr x \<Longrightarrow> leaves_ok (k x)) \<Longrightarrow> leaves_ok (bindE m k)"
  by (cases m) (auto simp: leaves_ok_def)

lemma leaves_sys_return: "leaves_ok m \<Longrightarrow> leaves_ok (sys_return ctx m)"
  by (auto simp: leaves_ok_def sys_return_def after_def kres_iff)

lemma syscall_vfs_leaves:
  assumes "sys_ok s"
  shows "leaves_ok (syscall_write ops con fd a n s)" "leaves_ok (syscall_read ops con fd a n s)" "leaves_ok (syscall_open ops pa s)"
    "leaves_ok (syscall_close ops fd s)" "leaves_ok (syscall_create ops pa sz s)" "leaves_ok (syscall_delete ops pa s)"
    "leaves_ok (syscall_seek fd pos s)" "leaves_ok (syscall_filecount ops nm s)" "leaves_ok (syscall_file ops nm i b s)"
proof -
  have v: "vfs_quiet (sys_vfs s)" "tables_ok (sys_vfs s)" using assms by (simp_all add: sys_ok_def)
  note K = vfs_ops_keep(3-12) [OF v]
  show "leaves_ok (syscall_write ops con fd a n s)"
    using leaves_on_vfs [OF assms, of "vfs_write ops (sint (fd - 3)) (bytes_at (user_mem s) a n) n"] K assms
    by (auto simp: syscall_write_def Let_def KERNEL_PANIC_def leaves_ok_def after_def kres_iff split: option.splits)
  show "leaves_ok (syscall_close ops fd s)" "leaves_ok (syscall_create ops pa sz s)" "leaves_ok (syscall_delete ops pa s)"
    "leaves_ok (syscall_seek fd pos s)" "leaves_ok (syscall_filecount ops nm s)"
    unfolding syscall_close_def syscall_create_def syscall_delete_def syscall_seek_def syscall_filecount_def
    by (intro leaves_bind leaves_on_vfs assms K)+
  have o: "leaves_ok (on_vfs (vfs_open ops p) s)" for p by (intro leaves_on_vfs assms K)
  show "leaves_ok (syscall_open ops pa s)"
    using o by (auto simp: syscall_open_def leaves_ok_def after_def kres_iff)
  show "leaves_ok (syscall_file ops nm i b s)"
    using assms by (auto simp: syscall_file_def leaves_ok_def after_def kres_iff intro!: sys_ok_vfs keepsD [OF _ K(10)])
  show "leaves_ok (syscall_read ops con fd a n s)"
    using assms by (auto simp: syscall_read_def Let_def KERNEL_PANIC_def leaves_ok_def after_def kres_iff split: option.splits if_splits
        intro!: sys_ok_vfs keepsD [OF _ K(4)])
qed

lemma syscall_process_leaves:
  assumes "sys_ok s" "current_pid (sys_procs s) m" "running (sys_procs s) m"
  shows "c_string name \<Longrightarrow> leaves_ok (on_procs (process_spawn img start name) s)"
    "can_finish (rows (sys_procs s)) m \<Longrightarrow> leaves_ok (on_procs (\<lambda>p. bindE (process_finish base v p) (\<lambda>p. Inr ((), p))) s)"
    "leaves_ok (on_procs (process_join base pid) s)"
proof -
  show "leaves_ok (on_procs (process_spawn img start name) s)" if "c_string name"
    by (rule leaves_on_procs [OF assms(1)]) (rule proc_step_idle [OF proc_step.spawn], use that assms in auto)
  show "leaves_ok (on_procs (\<lambda>p. bindE (process_finish base v p) (\<lambda>p. Inr ((), p))) s)" if "can_finish (rows (sys_procs s)) m"
    by (rule leaves_on_procs [OF assms(1)]) (rule proc_step_idle [OF proc_step.finish], use that assms in \<open>auto simp: kres_iff\<close>)
  show "leaves_ok (on_procs (process_join base pid) s)"
    by (rule leaves_on_procs [OF assms(1)]) (rule proc_step_idle [OF proc_step.join], use assms in auto)
qed

lemma leaves_then: "leaves_ok m \<Longrightarrow> (\<And>r s. sys_ok s \<Longrightarrow> leaves_ok (k (r, s))) \<Longrightarrow> leaves_ok (bindE m k)"
  by (cases m) (auto simp: leaves_ok_def)

lemma leaves_panic [simp]: "leaves_ok (KERNEL_PANIC d)"
  by (simp add: leaves_ok_def KERNEL_PANIC_def)

lemma syscall_handle_leaves:
  assumes "sys_ok s" "current_pid (sys_procs s) m" "running (sys_procs s) m"
    "cpu_regs (context_at (kernel (sys_procs s)) ctx) ! MIPS_REGISTER_A0 = SYSCALL_EXIT \<Longrightarrow> can_finish (rows (sys_procs s)) m"
    "cpu_regs (context_at (kernel (sys_procs s)) ctx) ! MIPS_REGISTER_A0 \<noteq> SYSCALL_HALT"
  shows "leaves_ok (syscall_handle ops con img start base ctx s)"
proof -
  note V = syscall_vfs_leaves [OF assms(1), THEN leaves_sys_return] and P = syscall_process_leaves [OF assms(1-3)]
  have spawn: "leaves_ok (sys_return ctx (bindE (string_at (user_mem s) a) (\<lambda>name. on_procs (process_spawn img start name) s)))" for a
    by (intro leaves_sys_return leaves_bind P) (auto simp: string_at_def intro: read_string_c_string)
  have join: "leaves_ok (bindE (on_procs (process_join base a) s) (\<lambda>(r, s).
      case r of None \<Rightarrow> Inr (Blocked, s) | Some v \<Rightarrow> sys_return ctx (Inr (v, s))))" for a
    by (rule leaves_then [OF P(3)]) (auto simp: leaves_ok_def sys_return_def split: option.splits)
  have exit: "leaves_ok (bindE (on_procs (\<lambda>p. bindE (process_finish base a p) (\<lambda>p. Inr ((), p))) s) (\<lambda>(_, s). Inr (Exited, s)))"
    if "cpu_regs (context_at (kernel (sys_procs s)) ctx) ! MIPS_REGISTER_A0 = SYSCALL_EXIT" for a
    by (rule leaves_then [OF P(2) [OF assms(4) [OF that]]]) (simp add: leaves_ok_def)
  show ?thesis using V spawn join exit assms(5) by (simp add: syscall_handle_def Let_def)
qed

text \<open>
  C29: every system call that returns to a program, or leaves its thread waiting, or ends its
  process, keeps the tables of the virtual file system in order with all locks released, and the
  zombie lists, child counters and parent links of the process table, whatever the arguments, the memory
  of the program, the file system drivers and the console do.  A process ends only after its children.
\<close>

theorem system_calls_keep_tables:
  assumes "user_at ctx s" "sys_ok s" "current_pid (sys_procs s) m" "running (sys_procs s) m"
    "call = SYSCALL_EXIT \<longrightarrow> can_finish (rows (sys_procs s)) m" "call \<noteq> SYSCALL_HALT"
    "user_syscall ops con img start base ctx call a1 a2 a3 s = Inr (r, v0, s')"
  shows "sys_ok s'"
proof -
  have len: "length (cpu_regs (context_at (kernel (sys_procs s)) ctx)) = 29" using assms(1) by (auto simp: user_at_def)
  obtain s1 k where s1: "user_syscall ops con img start base ctx call a1 a2 a3 s =
       bindE (syscall_handle ops con img start base ctx s1) (\<lambda>(r, s').
       let s' = (if r = Continue then on_kernel (\<lambda>k. snd (interrupt_enable (interrupt_set_EXL (snd (interrupt_disable k))))) s' else s')
       in Inr (r, cpu_regs (context_at (kernel (sys_procs s')) ctx) ! MIPS_REGISTER_V0, s'))"
    "sys_vfs s1 = sys_vfs s" "sys_procs s1 = (sys_procs s)\<lparr>kernel := k\<rparr>" "current_pid (sys_procs s1) = current_pid (sys_procs s)"
    "context_at (kernel (sys_procs s1)) ctx = load_args call a1 a2 a3 (context_at (kernel (sys_procs s)) ctx)"
    by (rule user_syscall_eq [OF assms(1)]) blast
  have ok: "sys_ok s1" using assms(2) s1(2,3) by (simp add: sys_ok_def)
  have m: "current_pid (sys_procs s1) m" "running (sys_procs s1) m"
    using assms(3,4) s1(3,4) by (simp_all add: running_def)
  have cf: "call = SYSCALL_EXIT \<Longrightarrow> can_finish (rows (sys_procs s1)) m" using assms(5) s1(3) by simp
  have "leaves_ok (syscall_handle ops con img start base ctx s1)"
    by (rule syscall_handle_leaves [OF ok m]) (use s1(5) len cf assms(6) in simp_all)
  then show ?thesis using assms(7) by (auto simp: s1(1) leaves_ok_def after_def kres_iff Let_def)
qed

subsection \<open>Applications\<close>

text \<open>Process 0 runs with a path name at \<open>0x1000\<close> and three bytes at \<open>0x2000\<close> of its memory.\<close>

definition sample_mem :: "uint32 \<Rightarrow> char" where
  "sample_mem = store_at (store_at (\<lambda>_. NUL) 0x1000 ''[disk1]hello'') 0x2000 ''abc''"

definition sample_sys :: "'w vfs \<Rightarrow> ('w, unit, unit) sys" where
  "sample_sys v = \<lparr>sys_vfs = v, sys_procs = sample_procs, sys_console = (), user_mem = sample_mem\<rparr>"

definition sample_ctx :: uint32 where
  "sample_ctx = th_context (sample_row 1)"

lemma sample_mem_holds: "holds sample_mem 0x1000 (''['' @ ''disk1'' @ '']'' @ ''hello'' @ [NUL])" "holds sample_mem 0x2000 ''abc''"
  by (simp_all add: holds_Cons holds_Nil sample_mem_def store_at_def NUL_def)

lemma sample_user_at: "user_at sample_ctx (sample_sys v)"
  by (simp add: user_at_def sample_sys_def sample_procs_def sample_ctx_def nth_list_update CONFIG_MAX_THREADS_def zero_context_def sample_kernel_def)

lemma sample_sys_simps [simp]: "sys_vfs (sample_sys v) = v" "user_mem (sample_sys v) = sample_mem" "sys_procs (sample_sys v) = sample_procs"
  by (simp_all add: sample_sys_def)

lemma sample_sys_ok: "vfs_free v \<Longrightarrow> sys_ok (sample_sys v)"
  using sample_procs_idle by (auto simp: sys_ok_def vfs_free_def)

lemma sample_current_pid: "current_pid sample_procs 0" "running sample_procs 0"
  using sample_current(1) sample_pids(1) by (auto simp: current_pid_def running_def rows_sample_procs blank_row_def)


theorem user_program_stops_kernel_witness:
  "user_syscall (tfs_ops mem_gbd) None sample_img 0 0 sample_ctx SYSCALL_CLOSE 0 0 0 (sample_sys (empty_vfs sample_world)) = assertion_failed \<and>
   user_syscall (tfs_ops mem_gbd) None sample_img 0 0 sample_ctx SYSCALL_SEEK 0 0 0 (sample_sys (empty_vfs sample_world)) = assertion_failed \<and>
   user_syscall (tfs_ops mem_gbd) None sample_img 0 0 sample_ctx 0x300 0 0 0 (sample_sys (empty_vfs sample_world)) = Inl (Panic ''Unhandled system call'') \<and>
   (\<exists>msg. user_exception_handle (tfs_ops mem_gbd) None sample_img 0 0 EXCEPTION_TLBL (sample_sys (empty_vfs sample_world)) = Inl (Panic msg))"
  using user_program_stops_kernel [OF sample_user_at, of "empty_vfs sample_world" 0 "tfs_ops mem_gbd" None sample_img 0 0 0 0 "0x300" EXCEPTION_TLBL]
    empty_vfs_free [of sample_world]
  by (simp add: syscall_known_def syscall_numbers exception_codes)

theorem system_calls_keep_tables_witness:
  "\<exists>s'. user_syscall (tfs_ops mem_gbd) None sample_img 0 0 sample_ctx SYSCALL_CREATE 0 600 0 (sample_sys (empty_vfs sample_world)) =
     Inr (Continue, word_of_int VFS_ERROR, s') \<and> sys_ok s'"
proof -
  let ?v = "empty_vfs sample_world"
  have "string_at (user_mem (sample_sys ?v)) 0 = Inr []"
    by (simp add: string_at_def read_string.simps sample_mem_def store_at_def)
  moreover have "vfs_create (tfs_ops mem_gbd) [] (int 600) (sys_vfs (sample_sys ?v)) = Inr (VFS_ERROR, ?v)"
    by (simp add: vfs_create_def vfs_op_run [OF empty_vfs_free] vfs_parse_pathname_def parse_volume.simps parse_filename.simps vfs_done_run)
      (simp add: empty_vfs_def vfs_done_run)
  ultimately obtain s' where s': "user_syscall (tfs_ops mem_gbd) None sample_img 0 0 sample_ctx SYSCALL_CREATE 0 (of_nat 600) 0 (sample_sys ?v) =
      Inr (Continue, word_of_int VFS_ERROR, s')"
    using syscall_create_returns [OF sample_user_at, of ?v 0 "[]" 600 "tfs_ops mem_gbd" VFS_ERROR ?v None sample_img 0 0 0] by auto
  have "sys_ok s'"
    by (rule system_calls_keep_tables [OF sample_user_at sample_sys_ok [OF empty_vfs_free] _ _ _ _ s', of 0])
      (simp_all add: sample_current_pid syscall_numbers)
  then show ?thesis using s' by auto
qed

end
