(* ===== verification/Wake_All.thy ===== *)
theory Wake_All
  imports Semaphore
begin

text \<open>
  \<^verbatim>\<open>sleepq_wake_all\<close> of \<^verbatim>\<open>kernel/sleepq.c\<close>, which the terminal driver uses: every thread that waits
  for the resource is woken, in the order of the queue, and no other.
\<close>

lemma linked_rest: "linked f i (xs @ ys) \<Longrightarrow> xs \<noteq> [] \<Longrightarrow> linked f (f (last xs)) ys"
  by (induction xs arbitrary: i) auto

lemma linked_start: "linked f i ys \<Longrightarrow> linked g j ys \<Longrightarrow> linked g i ys"
  by (cases ys) auto

lemma unlink_waiter_next: "unlink_waiter h p w s = Inr (nxt, s') \<Longrightarrow> nxt = th_next (th s w)"
  by (auto simp: unlink_waiter_def tt_get_def th_def kres_iff)

text \<open>What the loop does, with the queue split into the part it has passed and the rest.\<close>

definition woken_all :: "'a sleepq_scheme \<Rightarrow> int list \<Rightarrow> (nat \<Rightarrow> int list) \<Rightarrow> uint32 \<Rightarrow> 'a sleepq_scheme \<Rightarrow> bool" where
  "woken_all s rs qs res s' \<longleftrightarrow> (\<exists>tt ht hd' tl' qs'. s' = wake_result s tt ht hd' tl' \<and>
    sleepq_ok s' (rs @ filter (\<lambda>w. th_state (th s w) = THREAD_SLEEPING) (waiters s qs res)) qs' \<and>
    (\<forall>r. waiters s' qs' r = (if r = res then [] else waiters s qs r)) \<and>
    (\<forall>u. is_tid u \<longrightarrow>
       th_state (th s' u) = (if u \<in> set (waiters s qs res) then woken_state (th_state (th s u)) else th_state (th s u)) \<and>
       th_sleeps_on (th s' u) = (if u \<in> set (waiters s qs res) then 0 else th_sleeps_on (th s u))))"

lemma woken_all_none: "sleepq_ok s rs qs \<Longrightarrow> waiters s qs res = [] \<Longrightarrow> woken_all s rs qs res s"
  unfolding woken_all_def
  by (intro exI [of _ "thread_table s"] exI [of _ "sleepq_hashtable s"] exI [of _ "ready_head s"] exI [of _ "ready_tail s"] exI [of _ qs]) auto

lemma woken_all_step:
  assumes "waiters s qs res = w # ws" "s1 = wake_result s tt ht hd' tl'" "waiters s1 qs1 res = ws"
    "\<And>r. r \<noteq> res \<Longrightarrow> waiters s1 qs1 r = waiters s qs r"
    and row: "\<And>u. is_tid u \<Longrightarrow> th_state (th s1 u) = (if u = w then woken_state (th_state (th s u)) else th_state (th s u)) \<and>
       th_sleeps_on (th s1 u) = (if u = w then 0 else th_sleeps_on (th s u))"
    and tids: "distinct (w # ws)" "\<And>u. u \<in> set (w # ws) \<Longrightarrow> is_tid u"
    and w: "woken_all s1 (ready_after (th_state (th s w)) w rs) qs1 res s'"
  shows "woken_all s rs qs res s'"
proof -
  have "filter (\<lambda>u. th_state (th s1 u) = THREAD_SLEEPING) ws = filter (\<lambda>u. th_state (th s u) = THREAD_SLEEPING) ws"
    using tids row by (intro filter_cong) auto
  then have "ready_after (th_state (th s w)) w rs @ filter (\<lambda>u. th_state (th s1 u) = THREAD_SLEEPING) (waiters s1 qs1 res) =
      rs @ filter (\<lambda>u. th_state (th s u) = THREAD_SLEEPING) (waiters s qs res)"
    by (simp add: assms(1,3) ready_after_def)
  with w assms(1-4) row tids show ?thesis
    unfolding woken_all_def by (elim exE conjE) (intro exI conjI, auto)
qed

lemma wake_all_loop_ok:
  assumes "sleepq_ok s rs qs" "h = SLEEPQ_HASH res" "qs h = xs @ zs" "\<forall>t \<in> set xs. th_sleeps_on (th s t) \<noteq> res"
    "linked (next_of (thread_table s)) first zs" "prev = (if xs = [] then -1 else last xs)" "length zs \<le> n"
  shows "\<exists>s'. wake_all_loop n h res prev first s = Inr s' \<and> woken_all s rs qs res s'"
  using assms
proof (induction n arbitrary: s rs qs xs zs first prev)
  case (0 s rs qs xs zs first prev)
  then have "zs = []" "waiters s qs res = []" by (simp_all add: waiters_def filter_empty_conv)
  with "0.prems"(1,5) show ?case by (auto simp: wake_all_loop.simps [of 0] intro: woken_all_none)
next
  case (Suc n s rs qs xs zs first prev)
  note Q = sleepq_okD [OF Suc.prems(1)] and D = sched_okD [OF sleepq_okD(1) [OF Suc.prems(1)]]
  note q = Suc.prems(3) and xs = Suc.prems(4)
  have rep: "queue_rep (thread_table s) (sleepq_hashtable s ! h) h (xs @ zs)" using Q(5) [of res] Suc.prems(2,3) by simp
  have len: "length zs \<le> CONFIG_MAX_THREADS" using queue_rep_short [OF Q(5), of res] Suc.prems(2,3) by simp
  have tid: "\<forall>t \<in> set zs. is_tid t" using rep by (simp add: queue_rep_def)
  show ?case
  proof (cases "0 < first")
    case False
    then have "zs = []" using Suc.prems(5) by (cases zs) auto
    then have "waiters s qs res = []" using q xs Suc.prems(2) by (simp add: waiters_def filter_empty_conv)
    with False Suc.prems(1) show ?thesis by (auto simp: wake_all_loop.simps [of "Suc n"] intro: woken_all_none)
  next
    case True
    from find_waiter_eq [OF Suc.prems(5) len tid D(9), of res prev] show ?thesis
    proof (elim disjE exE conjE)
      fix p j
      assume n: "\<forall>t \<in> set zs. th_sleeps_on (th s t) \<noteq> res" "j < 0" "find_waiter CONFIG_MAX_THREADS res prev first s = Inr (p, j)"
      then have "waiters s qs res = []" using q xs Suc.prems(2) by (auto simp: waiters_def filter_empty_conv)
      with n True Suc.prems(1) show ?thesis by (auto simp: wake_all_loop.simps [of "Suc n"] intro: woken_all_none)
    next
      fix xs2 w ys
      assume zs: "zs = xs2 @ w # ys" and sl: "\<forall>t \<in> set xs2. th_sleeps_on (th s t) \<noteq> res" "th_sleeps_on (th s w) = res"
        and find: "find_waiter CONFIG_MAX_THREADS res prev first s = Inr (if xs2 = [] then prev else last xs2, w)"
      let ?xs = "xs @ xs2"
      let ?p = "if ?xs = [] then -1 else last ?xs"
      have find': "find_waiter CONFIG_MAX_THREADS res prev first s = Inr (?p, w)" using find Suc.prems(6) by auto
      have q': "qs h = ?xs @ w # ys" using q zs by simp
      have hb: "h < SLEEPQ_HASHTABLE_SIZE" using Suc.prems(2) hash_bound by simp
      obtain tt hd' tl' ht where st: "bindE (unlink_waiter h ?p w s) (\<lambda>(_, s). make_ready w s) = Inr (wake_result s tt ht hd' tl')"
        "sleepq_ok (wake_result s tt ht hd' tl') (ready_after (th_state (th s w)) w rs) (qs(h := ?xs @ ys))"
        "\<forall>u. is_tid u \<longrightarrow> th_state (tt ! nat u) = (if u = w then woken_state (th_state (th s u)) else th_state (th s u)) \<and>
          th_sleeps_on (tt ! nat u) = (if u = w then 0 else th_sleeps_on (th s u))"
        by (rule wake_one_ok [OF Suc.prems(1) q' hb]) blast
      define s1 where "s1 = wake_result s tt ht hd' tl'"
      obtain s0 where s0: "unlink_waiter h ?p w s = Inr (th_next (th s w), s0)" "make_ready w s0 = Inr s1"
        using st(1) unlink_waiter_next [of h ?p w s] unfolding s1_def bindE_Inr by (auto simp only: split_paired_Ex prod.case)
      have dist: "distinct (?xs @ w # ys)" "\<forall>t \<in> set (?xs @ w # ys). is_tid t" using rep zs by (auto simp: queue_rep_def)
      have row: "th_state (th s1 u) = (if u = w then woken_state (th_state (th s u)) else th_state (th s u)) \<and>
          th_sleeps_on (th s1 u) = (if u = w then 0 else th_sleeps_on (th s u))" if "is_tid u" for u
        using st(3) that by (simp add: th_def s1_def)
      have ok1: "sleepq_ok s1 (ready_after (th_state (th s w)) w rs) (qs(h := ?xs @ ys))" using st(2) by (simp add: s1_def)
      have "\<forall>t \<in> set ?xs. th_sleeps_on (th s t) \<noteq> res" using xs sl(1) by auto
      then have "waiters s1 (qs(SLEEPQ_HASH res := ?xs @ ys)) r = (if r = res then tl (waiters s qs r) else waiters s qs r)" for r
        using waiters_unlink [OF Suc.prems(1), of res ?xs w ys s1 r] q' Suc.prems(2) sl(2) row by auto
      moreover obtain ws where ws: "waiters s qs res = w # ws"
        using q' Suc.prems(2) sl xs by (simp add: waiters_def)
      ultimately have w1: "waiters s1 (qs(h := ?xs @ ys)) res = ws" "\<And>r. r \<noteq> res \<Longrightarrow> waiters s1 (qs(h := ?xs @ ys)) r = waiters s qs r"
        using Suc.prems(2) by simp_all
      have "linked (next_of (thread_table s)) (next_of (thread_table s) w) ys"
        using linked_rest [of "next_of (thread_table s)" first "xs2 @ [w]" ys] Suc.prems(5) zs by simp
      moreover have "\<exists>j. linked (next_of (thread_table s1)) j ys"
        using sleepq_okD(5) [OF ok1, of res] linked_rest [of "next_of (thread_table s1)" _ ?xs ys] Suc.prems(2)
        by (cases "?xs = []") (auto simp: queue_rep_def)
      ultimately have lk: "linked (next_of (thread_table s1)) (th_next (th s w)) ys"
        using linked_start by (fastforce simp: next_of_def th_def)
      have "th_sleeps_on (th s1 t) \<noteq> res" if "t \<in> set ?xs" for t
      proof -
        have "t \<noteq> w" "is_tid t" using that dist by auto
        then show ?thesis using row [of t] that xs sl(1) by auto
      qed
      then have sl1: "\<forall>t \<in> set ?xs. th_sleeps_on (th s1 t) \<noteq> res" by blast
      have short: "length ys \<le> n" using Suc.prems(7) zs by simp
      obtain s' where s': "wake_all_loop n h res ?p (th_next (th s w)) s1 = Inr s'"
        "woken_all s1 (ready_after (th_state (th s w)) w rs) (qs(h := ?xs @ ys)) res s'"
        using Suc.IH [OF ok1 Suc.prems(2) fun_upd_same sl1 lk refl short] by blast
      have "wake_all_loop (Suc n) h res prev first s = Inr s'"
        using True find' s0 s'(1) linked_pos [OF Suc.prems(5)] zs by (simp add: wake_all_loop.simps [of "Suc n"])
      moreover have "woken_all s rs qs res s'"
      proof (rule woken_all_step [OF ws s1_def w1 row _ _ s'(2)])
        have "distinct (qs h)" using dist(1) q' by simp
        then show "distinct (w # ws)" using Suc.prems(2) by (simp flip: ws add: waiters_def)
        show "is_tid u" if "u \<in> set (w # ws)" for u
          using that dist(2) q' Suc.prems(2) unfolding ws [symmetric] waiters_def by auto
      qed
      ultimately show ?thesis by blast
    qed
  qed
qed

lemma sleepq_wake_all_ok:
  assumes "sleepq_ok s rs qs" "sleepq_slock s = 0"
  shows "\<exists>s'. sleepq_wake_all res s = Inr s' \<and> woken_all s rs qs res s'"
proof -
  let ?h = "SLEEPQ_HASH res"
  let ?s = "s\<lparr>cp0_status := 0xffff00fe AND cp0_status s, sleepq_slock := 1\<rparr>"
  note Q = sleepq_okD [OF assms(1)]
  have th: "th ?s = th s" by (simp add: th_def fun_eq_iff)
  have ws: "waiters ?s qs = waiters s qs" by (simp add: waiters_def fun_eq_iff th)
  have s1: "sleepq_ok ?s rs qs" by (rule sleepq_ok_frame [OF assms(1)]) simp_all
  obtain s2 where s2: "wake_all_loop CONFIG_MAX_THREADS ?h res (-1) (sleepq_hashtable s ! ?h) ?s = Inr s2" "woken_all ?s rs qs res s2"
    using wake_all_loop_ok [OF s1 refl, of res "[]" "qs ?h" "sleepq_hashtable s ! ?h" "-1" CONFIG_MAX_THREADS]
      Q(5) [of res] queue_rep_short [OF Q(5), of res] by (auto simp: queue_rep_def)
  let ?s3 = "s2\<lparr>sleepq_slock := 0, cp0_status := cp0_status s\<rparr>"
  obtain tt ht hd' tl' qs' where e: "s2 = wake_result ?s tt ht hd' tl'"
    "sleepq_ok s2 (rs @ filter (\<lambda>w. th_state (th s w) = THREAD_SLEEPING) (waiters s qs res)) qs'"
    "\<forall>r. waiters s2 qs' r = (if r = res then [] else waiters s qs r)"
    "\<forall>u. is_tid u \<longrightarrow>
       th_state (th s2 u) = (if u \<in> set (waiters s qs res) then woken_state (th_state (th s u)) else th_state (th s u)) \<and>
       th_sleeps_on (th s2 u) = (if u \<in> set (waiters s qs res) then 0 else th_sleeps_on (th s u))"
    using s2(2) unfolding woken_all_def th ws by blast
  have r: "wake_result s tt ht hd' tl' = ?s3" using e(1) assms(2) by simp
  have "th ?s3 = th s2" by (simp add: th_def fun_eq_iff)
  moreover have "sleepq_ok ?s3 (rs @ filter (\<lambda>w. th_state (th s w) = THREAD_SLEEPING) (waiters s qs res)) qs'"
    by (rule sleepq_ok_frame [OF e(2)]) simp_all
  ultimately have "woken_all s rs qs res (wake_result s tt ht hd' tl')"
    unfolding woken_all_def
    by (intro exI [of _ tt] exI [of _ ht] exI [of _ hd'] exI [of _ tl'] exI [of _ qs'] conjI) (use e(3,4) in \<open>simp_all add: r waiters_def\<close>)
  moreover have "sleepq_wake_all res s = Inr (wake_result s tt ht hd' tl')"
    using assms(2) Q(3) hash_bound [of res] s2(1) e(1)
    by (simp add: sleepq_wake_all_def interrupt_disable_def interrupt_set_state_def sleepq_idem)
  ultimately show ?thesis by blast
qed

text \<open>
  \<^verbatim>\<open>sleepq_wake_all\<close> returns, with every thread that waited for the resource out of the queue: those that
  had been switched out are ready, behind the threads that were ready before and in the order in
  which they went to sleep; the threads that wait for other resources still wait in their order, and the state of no
  other thread changes.
\<close>

theorem sleepq_wake_all_spec:
  assumes "sleepq_ok s rs qs" "sleepq_slock s = 0"
  shows "\<exists>s' qs'. sleepq_wake_all res s = Inr s' \<and>
    sleepq_ok s' (rs @ filter (\<lambda>w. th_state (th s w) = THREAD_SLEEPING) (waiters s qs res)) qs' \<and>
    (\<forall>r. waiters s' qs' r = (if r = res then [] else waiters s qs r)) \<and>
    (\<forall>u. is_tid u \<longrightarrow>
       th_state (th s' u) = (if u \<in> set (waiters s qs res) \<and> th_state (th s u) = THREAD_SLEEPING then THREAD_READY else th_state (th s u)))"
proof -
  obtain s' where s': "sleepq_wake_all res s = Inr s'" "woken_all s rs qs res s'" using sleepq_wake_all_ok [OF assms] by blast
  from s'(2) obtain qs' where "sleepq_ok s' (rs @ filter (\<lambda>w. th_state (th s w) = THREAD_SLEEPING) (waiters s qs res)) qs'"
    "\<forall>r. waiters s' qs' r = (if r = res then [] else waiters s qs r)"
    "\<forall>u. is_tid u \<longrightarrow> th_state (th s' u) = (if u \<in> set (waiters s qs res) then woken_state (th_state (th s u)) else th_state (th s u))"
    unfolding woken_all_def by blast
  then show ?thesis using s'(1) by (intro exI [of _ s'] exI [of _ qs'] conjI) (simp_all add: woken_state_def)
qed

theorem sleepq_wake_all_spec_witness:
  "\<exists>s'. sleepq_wake_all sample_base sample_kernel = Inr s' \<and> th_state (th s' 3) = THREAD_READY"
proof -
  have ok: "sleepq_ok sample_kernel [2] sample_queues" "sleepq_slock sample_kernel = 0"
    using sample_kernel_ok by (auto simp: sems_ok_def)
  have "is_tid 3" by (simp add: is_tid_def CONFIG_MAX_THREADS_def)
  then show ?thesis
    using sleepq_wake_all_spec [OF ok, of sample_base] sample_kernel_row [of 3] by (auto simp: sample_kernel_waiters sample_row_def)
qed

end
