(* ===== verification/Tty.thy ===== *)
theory Tty
  imports Disk Wake_All
begin

text \<open>
  The terminal driver, \<^verbatim>\<open>drivers/tty.c\<close>: writers fill a ring buffer that the interrupt handler sends
  to the device, and the handler puts what is typed into a second ring buffer for the readers.

  The device is a parameter: \<open>tty_io\<close> has the accesses to the registers of its io area.  The status
  may be different at each read, and reading the data register takes a character from the device; of the
  data register only the low byte matters, and the model has it as a character.
\<close>

subsection \<open>Data\<close>

record 'h tty_io =
  tio_status :: "'h \<Rightarrow> uint32 \<times> 'h"
  tio_command :: "uint32 \<Rightarrow> 'h \<Rightarrow> 'h"
  tio_get :: "'h \<Rightarrow> char \<times> 'h"
  tio_put :: "char \<Rightarrow> 'h \<Rightarrow> 'h"

definition TTY_STATUS_RAVAIL :: "uint32 \<Rightarrow> uint32" where "TTY_STATUS_RAVAIL status = status AND 0x00000001"
definition TTY_STATUS_WBUSY :: "uint32 \<Rightarrow> uint32" where "TTY_STATUS_WBUSY status = drop_bit 1 (status AND 0x00000002)"
definition TTY_STATUS_RIRQ :: "uint32 \<Rightarrow> uint32" where "TTY_STATUS_RIRQ status = drop_bit 2 (status AND 0x00000004)"
definition TTY_STATUS_WIRQ :: "uint32 \<Rightarrow> uint32" where "TTY_STATUS_WIRQ status = drop_bit 3 (status AND 0x00000008)"
definition TTY_STATUS_ERROR :: "uint32 \<Rightarrow> uint32" where "TTY_STATUS_ERROR status = drop_bit 31 (status AND 0x80000000)"

definition TTY_COMMAND_RIRQ :: uint32 where "TTY_COMMAND_RIRQ = 0x01"
definition TTY_COMMAND_WIRQ :: uint32 where "TTY_COMMAND_WIRQ = 0x02"
definition TTY_COMMAND_WIRQE :: uint32 where "TTY_COMMAND_WIRQE = 0x03"
definition TTY_COMMAND_WIRQD :: uint32 where "TTY_COMMAND_WIRQD = 0x04"

definition TTY_BUF_SIZE :: int where "TTY_BUF_SIZE = 2048"

text \<open>\<^verbatim>\<open>tty_real_device_t\<close> with the device and the kernel below.\<close>

record ('h, 'a) tty =
  tty_slock :: uint32
  read_buf :: "char list"
  read_head :: int
  read_count :: int
  write_buf :: "char list"
  write_head :: int
  write_count :: int
  tty_hw :: 'h
  tty_kernel :: "'a sems_scheme"

text \<open>A read of the status register.\<close>

definition tty_status :: "'h tty_io \<Rightarrow> ('h, 'a) tty \<Rightarrow> uint32 \<times> ('h, 'a) tty" where
  "tty_status io t = (let (st, h) = tio_status io (tty_hw t) in (st, t\<lparr>tty_hw := h\<rparr>))"

definition tty_command :: "'h tty_io \<Rightarrow> uint32 \<Rightarrow> ('h, 'a) tty \<Rightarrow> ('h, 'a) tty" where
  "tty_command io c t = t\<lparr>tty_hw := tio_command io c (tty_hw t)\<rparr>"

subsection \<open>Initialisation\<close>

text \<open>
  The first terminal shares the lock of \<^verbatim>\<open>kprintf\<close>, which is not reset; \<open>num_of_inits\<close> is the static
  counter of the function.  The result is the address of the device, the device and the new counter.
  The function does not set the descriptor of the device: \<open>old\<close> is what the memory holds there.
\<close>

definition tty_init ::
  "uint32 \<Rightarrow> uint32 \<Rightarrow> io_descriptor \<Rightarrow> int \<Rightarrow> ('h, 'b intr_ext) tty \<Rightarrow> (uint32 \<times> device_t \<times> int \<times> ('h, 'b intr_ext) tty) kres"
where
  "tty_init handler old desc num_of_inits t =
     bindE (kmalloc 20 (tty_kernel t)) (\<lambda>(dev, k).
     if dev = 0 then KERNEL_PANIC ''Could not reserve memory for tty driver.'' else
     bindE (kmalloc 12 k) (\<lambda>(gcd_addr, k).
     if gcd_addr = 0 then KERNEL_PANIC ''Could not reserve memory for tty driver.'' else
     bindE (kmalloc 4116 k) (\<lambda>(tty_rd, k).
     if tty_rd = 0 then KERNEL_PANIC ''Could not reserve memory for tty driver.'' else
     let device = \<lparr>real_device = tty_rd, generic_device = gcd_addr, dev_descriptor = old,
           dev_io_address = io_area_base desc, dev_type = iod_type desc\<rparr>
     in bindE (if num_of_inits = 0 then Inr (t\<lparr>tty_kernel := k\<rparr>)
               else bindE (kmalloc 4 k) (\<lambda>(l, k).
                 if l = 0 then KERNEL_PANIC ''Could not reserve memory for tty driver spinlock.''
                 else Inr (t\<lparr>tty_kernel := k, tty_slock := spinlock_reset (tty_slock t)\<rparr>))) (\<lambda>t.
        let t = t\<lparr>write_head := 0, write_count := 0, read_head := 0, read_count := 0\<rparr>;
            irq_mask = push_bit (unat (iod_irq desc + 10)) 1
        in bindE (interrupt_register irq_mask handler dev (tty_kernel t)) (\<lambda>k.
           Inr (dev, device, num_of_inits + 1, t\<lparr>tty_kernel := k\<rparr>))))))"

subsection \<open>The interrupt handler\<close>

text \<open>Send the character at the head of the write buffer.\<close>

definition send_head :: "'h tty_io \<Rightarrow> ('h, 'a) tty \<Rightarrow> ('h, 'a) tty kres" where
  "send_head io t =
     bindE (rd (write_buf t) (write_head t)) (\<lambda>c.
     Inr (t\<lparr>tty_hw := tio_put io c (tty_hw t), write_head := (write_head t + 1) mod TTY_BUF_SIZE, write_count := write_count t - 1\<rparr>))"

text \<open>The loop that sends the buffer, as long as the device takes characters.\<close>

fun send_loop :: "nat \<Rightarrow> 'h tty_io \<Rightarrow> ('h, 'a) tty \<Rightarrow> ('h, 'a) tty kres" where
  "send_loop n io t =
     (let (st, t) = tty_status io t
      in if TTY_STATUS_WBUSY st = 0 \<and> write_count t > 0 then
           case n of 0 \<Rightarrow> Inl Deadlock
           | Suc m \<Rightarrow> bindE (send_head io (tty_command io TTY_COMMAND_WIRQ t)) (send_loop m io)
         else Inr t)"

declare send_loop.simps [simp del]

text \<open>
  The loop that empties the device.  A character for which the driver has no room is read from the device
  and dropped.  The loop ends when the device has no more input; the bound stands for a device that
  never has.
\<close>

function fetch_loop :: "nat \<Rightarrow> 'h tty_io \<Rightarrow> ('h, 'a) tty \<Rightarrow> ('h, 'a) tty kres" where
  "fetch_loop n io t =
     (let (st, t) = tty_status io t
      in if TTY_STATUS_RAVAIL st \<noteq> 0 then
           if n = 0 then Inl Deadlock
           else
             let (data, h) = tio_get io (tty_hw t);
                 t = t\<lparr>tty_hw := h\<rparr>
             in if read_count t > TTY_BUF_SIZE then fetch_loop (n - 1) io t
                else
                  bindE (wr (read_buf t) ((read_head t + read_count t) mod TTY_BUF_SIZE) data) (\<lambda>b.
                  fetch_loop (n - 1) io (t\<lparr>read_buf := b, read_count := read_count t + 1\<rparr>))
         else Inr t)"
  by pat_completeness auto
termination
  by (relation "measure (\<lambda>(n, io, t). n)") auto

declare fetch_loop.simps [simp del]

text \<open>
  \<open>rbuf\<close> and \<open>wbuf\<close> are the addresses of the two buffers, the resources the threads sleep on.  The
  count is an \<^verbatim>\<open>int\<close>, so the first loop sends fewer than \<open>2 ^ 31\<close> characters; \<open>2 ^ 32\<close> characters
  are more than any device delivers in one interrupt.
\<close>

definition send_part :: "'h tty_io \<Rightarrow> uint32 \<Rightarrow> ('h, 'a) tty \<Rightarrow> ('h, 'a) tty kres" where
  "send_part io wbuf t =
     bindE (spinlock_acquire (tty_slock t)) (\<lambda>l.
     let t = tty_command io TTY_COMMAND_WIRQ (tty_command io TTY_COMMAND_WIRQD (t\<lparr>tty_slock := l\<rparr>)) in
     bindE (send_loop (nat (write_count t)) io t) (\<lambda>t.
     let t = tty_command io TTY_COMMAND_WIRQE t in
     bindE (if write_count t = 0 then
              bindE (sleepq_wake_all wbuf (tty_kernel t)) (\<lambda>k. Inr (t\<lparr>tty_kernel := k\<rparr>))
            else Inr t) (\<lambda>t.
     Inr (t\<lparr>tty_slock := spinlock_release (tty_slock t)\<rparr>))))"

definition fetch_part :: "'h tty_io \<Rightarrow> uint32 \<Rightarrow> ('h, 'a) tty \<Rightarrow> ('h, 'a) tty kres" where
  "fetch_part io rbuf t =
     bindE (spinlock_acquire (tty_slock t)) (\<lambda>l.
     let (st, t) = tty_status io (tty_command io TTY_COMMAND_RIRQ (t\<lparr>tty_slock := l\<rparr>)) in
     if TTY_STATUS_ERROR st \<noteq> 0 then KERNEL_PANIC ''Could not issue RIRQ to TTY.''
     else
       bindE (fetch_loop (2 ^ 32) io t) (\<lambda>t.
       let t = t\<lparr>tty_slock := spinlock_release (tty_slock t)\<rparr> in
       bindE (sleepq_wake_all rbuf (tty_kernel t)) (\<lambda>k.
       Inr (t\<lparr>tty_kernel := k\<rparr>))))"

definition tty_interrupt_handle :: "'h tty_io \<Rightarrow> uint32 \<Rightarrow> uint32 \<Rightarrow> ('h, 'a) tty \<Rightarrow> ('h, 'a) tty kres" where
  "tty_interrupt_handle io rbuf wbuf t =
     (let (st, t) = tty_status io t in
      bindE (if TTY_STATUS_WIRQ st \<noteq> 0 then send_part io wbuf t else Inr t) (\<lambda>t.
      let (st, t) = tty_status io t in
      if TTY_STATUS_RIRQ st \<noteq> 0 then fetch_part io rbuf t else Inr t))"

subsection \<open>Writing\<close>

text \<open>The loop that fills the buffer from position \<open>i\<close> of the data on.\<close>

function fill_loop :: "char list \<Rightarrow> int \<Rightarrow> int \<Rightarrow> ('h, 'a) tty \<Rightarrow> (int \<times> ('h, 'a) tty) kres" where
  "fill_loop buf len i t =
     (if write_count t < TTY_BUF_SIZE \<and> i < len then
        bindE (rd buf i) (\<lambda>c.
        bindE (wr (write_buf t) ((write_head t + write_count t) mod TTY_BUF_SIZE) c) (\<lambda>b.
        fill_loop buf len (i + 1) (t\<lparr>write_buf := b, write_count := write_count t + 1\<rparr>)))
      else Inr (i, t))"
  by pat_completeness auto
termination
  by (relation "measure (\<lambda>(buf, len, i, t). nat (len - i))") auto

declare fill_loop.simps [simp del]

text \<open>
  \<^verbatim>\<open>tty_write\<close> from position \<open>i\<close> on, with the lock held, to its end or to the point where the thread
  waits for the buffer to be empty.  The result is the value returned, or \<open>Inl i\<close> when the thread has
  been put to sleep.  Each turn of the loop fills the buffer, so there are at most \<open>len\<close> turns.
\<close>

fun tty_write_loop :: "nat \<Rightarrow> 'h tty_io \<Rightarrow> uint32 \<Rightarrow> uint32 \<Rightarrow> char list \<Rightarrow> int \<Rightarrow> int \<Rightarrow> ('h, 'a) tty \<Rightarrow> ((int + int) \<times> ('h, 'a) tty) kres" where
  "tty_write_loop n io wbuf intr_status buf len i t =
     (if i < len then
        if write_count t > 0 then
          bindE (sleepq_add wbuf (tty_kernel t)) (\<lambda>k.
          Inr (Inl i, t\<lparr>tty_kernel := k, tty_slock := spinlock_release (tty_slock t)\<rparr>))
        else
          (case n of 0 \<Rightarrow> Inl Deadlock
           | Suc m \<Rightarrow>
               bindE (fill_loop buf len i t) (\<lambda>(i, t).
               let (st, t) = tty_status io t in
               bindE (if TTY_STATUS_WBUSY st = 0 then send_head io t else Inr t)
                 (tty_write_loop m io wbuf intr_status buf len i)))
      else Inr (Inr i, t\<lparr>tty_slock := spinlock_release (tty_slock t), tty_kernel := interrupt_set_state intr_status (tty_kernel t)\<rparr>))"

declare tty_write_loop.simps [simp del]

definition tty_write :: "'h tty_io \<Rightarrow> uint32 \<Rightarrow> char list \<Rightarrow> int \<Rightarrow> ('h, 'a) tty \<Rightarrow> ((int + int) \<times> ('h, 'a) tty) kres" where
  "tty_write io wbuf buf len t =
     (let (intr_status, k) = interrupt_disable (tty_kernel t) in
      bindE (spinlock_acquire (tty_slock t)) (\<lambda>l.
      tty_write_loop (nat len) io wbuf intr_status buf len 0 (t\<lparr>tty_kernel := k, tty_slock := l\<rparr>)))"

text \<open>The thread runs again after \<^verbatim>\<open>thread_switch\<close>, at position \<open>i\<close>.\<close>

definition tty_write_resume ::
  "'h tty_io \<Rightarrow> uint32 \<Rightarrow> uint32 \<Rightarrow> char list \<Rightarrow> int \<Rightarrow> int \<Rightarrow> ('h, 'a) tty \<Rightarrow> ((int + int) \<times> ('h, 'a) tty) kres"
where
  "tty_write_resume io wbuf intr_status buf len i t =
     bindE (spinlock_acquire (tty_slock t)) (\<lambda>l.
     tty_write_loop (nat (len - i)) io wbuf intr_status buf len i (t\<lparr>tty_slock := l\<rparr>))"

subsection \<open>Reading\<close>

function copy_loop :: "char list \<Rightarrow> int \<Rightarrow> int \<Rightarrow> ('h, 'a) tty \<Rightarrow> (int \<times> char list \<times> ('h, 'a) tty) kres" where
  "copy_loop buf len i t =
     (if read_count t > 0 \<and> i < len then
        bindE (rd (read_buf t) (read_head t)) (\<lambda>c.
        bindE (wr buf i c) (\<lambda>buf.
        copy_loop buf len (i + 1) (t\<lparr>read_head := (read_head t + 1) mod TTY_BUF_SIZE, read_count := read_count t - 1\<rparr>)))
      else Inr (i, buf, t))"
  by pat_completeness auto
termination
  by (relation "measure (\<lambda>(buf, len, i, t). nat (len - i))") auto

declare copy_loop.simps [simp del]

text \<open>The body of \<^verbatim>\<open>tty_read\<close> with the lock held; \<open>None\<close> says that the thread waits for input.\<close>

definition read_turn ::
  "uint32 \<Rightarrow> uint32 \<Rightarrow> char list \<Rightarrow> int \<Rightarrow> ('h, 'a) tty \<Rightarrow> ((int \<times> char list) option \<times> ('h, 'a) tty) kres"
where
  "read_turn rbuf intr_status buf len t =
     (if read_count t = 0 then
        bindE (sleepq_add rbuf (tty_kernel t)) (\<lambda>k.
        Inr (None, t\<lparr>tty_kernel := k, tty_slock := spinlock_release (tty_slock t)\<rparr>))
      else
        bindE (copy_loop buf len 0 t) (\<lambda>(i, buf, t).
        Inr (Some (i, buf), t\<lparr>tty_slock := spinlock_release (tty_slock t), tty_kernel := interrupt_set_state intr_status (tty_kernel t)\<rparr>)))"

definition tty_read :: "uint32 \<Rightarrow> char list \<Rightarrow> int \<Rightarrow> ('h, 'a) tty \<Rightarrow> ((int \<times> char list) option \<times> ('h, 'a) tty) kres" where
  "tty_read rbuf buf len t =
     (let (intr_status, k) = interrupt_disable (tty_kernel t) in
      bindE (spinlock_acquire (tty_slock t)) (\<lambda>l.
      read_turn rbuf intr_status buf len (t\<lparr>tty_kernel := k, tty_slock := l\<rparr>)))"

definition tty_read_resume ::
  "uint32 \<Rightarrow> uint32 \<Rightarrow> char list \<Rightarrow> int \<Rightarrow> ('h, 'a) tty \<Rightarrow> ((int \<times> char list) option \<times> ('h, 'a) tty) kres"
where
  "tty_read_resume rbuf intr_status buf len t =
     bindE (spinlock_acquire (tty_slock t)) (\<lambda>l. read_turn rbuf intr_status buf len (t\<lparr>tty_slock := l\<rparr>))"

end
