(* ===== verification/Tty_Spec.thy ===== *)
theory Tty_Spec
  imports Tty
begin

text \<open>
  What the terminal driver guarantees: the characters written come out in order, each once, and the
  characters typed are read in order as long as the buffer has room; and what happens when it has none.
\<close>

subsection \<open>Ring buffers\<close>

definition ring :: "char list \<Rightarrow> int \<Rightarrow> int \<Rightarrow> char list" where
  "ring b h n = map (\<lambda>j. b ! nat ((h + int j) mod TTY_BUF_SIZE)) [0..<nat n]"

definition ring_ok :: "char list \<Rightarrow> int \<Rightarrow> int \<Rightarrow> bool" where
  "ring_ok b h n \<longleftrightarrow> length b = nat TTY_BUF_SIZE \<and> 0 \<le> h \<and> h < TTY_BUF_SIZE \<and> 0 \<le> n \<and> n \<le> TTY_BUF_SIZE"

lemma ring_empty [simp]: "n \<le> 0 \<Longrightarrow> ring b h n = []"
  by (simp add: ring_def)

lemma length_ring [simp]: "length (ring b h n) = nat n"
  by (simp add: ring_def)

lemma ring_index:
  assumes "length b = nat TTY_BUF_SIZE"
  shows "0 \<le> (k :: int) mod TTY_BUF_SIZE" "nat (k mod TTY_BUF_SIZE) < length b"
proof -
  have "k mod TTY_BUF_SIZE < TTY_BUF_SIZE" by (simp add: TTY_BUF_SIZE_def)
  moreover show "0 \<le> k mod TTY_BUF_SIZE" by (simp add: TTY_BUF_SIZE_def)
  ultimately show "nat (k mod TTY_BUF_SIZE) < length b" using assms by (simp add: nat_less_iff)
qed

lemma ring_first:
  assumes "ring_ok b h n" "0 < n"
  shows "ring b h n = b ! nat h # ring b ((h + 1) mod TTY_BUF_SIZE) (n - 1)" "ring_ok b ((h + 1) mod TTY_BUF_SIZE) (n - 1)"
    "nat h < length b"
proof -
  have n: "nat n = Suc (nat (n - 1))" using assms(2) by simp
  have "ring b h n = b ! nat (h mod TTY_BUF_SIZE) # map (\<lambda>j. b ! nat ((h + int (Suc j)) mod TTY_BUF_SIZE)) [0..<nat (n - 1)]"
    unfolding ring_def n upt_conv_Cons [OF zero_less_Suc] by (simp add: map_Suc_upt [symmetric] del: upt_Suc)
  moreover have "h mod TTY_BUF_SIZE = h" using assms(1) by (simp add: ring_ok_def)
  moreover have "((h + 1) mod TTY_BUF_SIZE + int j) mod TTY_BUF_SIZE = (h + int (Suc j)) mod TTY_BUF_SIZE" for j
    by (simp add: mod_add_left_eq add.assoc)
  ultimately show "ring b h n = b ! nat h # ring b ((h + 1) mod TTY_BUF_SIZE) (n - 1)" by (simp add: ring_def)
  show "ring_ok b ((h + 1) mod TTY_BUF_SIZE) (n - 1)" using assms by (simp add: ring_ok_def TTY_BUF_SIZE_def)
  show "nat h < length b" using assms by (simp add: ring_ok_def nat_less_iff)
qed

lemma mod_distinct: "0 \<le> i \<Longrightarrow> i < j \<Longrightarrow> j < m \<Longrightarrow> (h + i) mod m \<noteq> (h + j) mod (m :: int)"
proof
  assume a: "0 \<le> i" "i < j" "j < m" "(h + i) mod m = (h + j) mod m"
  then have "m dvd (h + j) - (h + i)" by (metis mod_eq_dvd_iff)
  then show False using zdvd_not_zless [of "j - i" m] a by simp
qed

lemma ring_last:
  assumes "ring_ok b h n" "n < TTY_BUF_SIZE"
  shows "ring (b[nat ((h + n) mod TTY_BUF_SIZE) := c]) h (n + 1) = ring b h n @ [c]"
    "ring_ok (b[nat ((h + n) mod TTY_BUF_SIZE) := c]) h (n + 1)"
proof -
  let ?k = "nat ((h + n) mod TTY_BUF_SIZE)"
  have l: "length b = nat TTY_BUF_SIZE" and n: "0 \<le> n" using assms(1) by (simp_all add: ring_ok_def)
  have k: "?k < length b" "0 \<le> (h + n) mod TTY_BUF_SIZE" using ring_index [OF l] by blast+
  have "b[?k := c] ! nat ((h + int j) mod TTY_BUF_SIZE) = b ! nat ((h + int j) mod TTY_BUF_SIZE)" if "j < nat n" for j
    using mod_distinct [of "int j" n TTY_BUF_SIZE h] that assms(2) n ring_index(1) [OF l, of "h + int j"] k(2)
    by (intro nth_list_update_neq) (simp add: nat_eq_iff2)
  then have "map (\<lambda>j. b[?k := c] ! nat ((h + int j) mod TTY_BUF_SIZE)) [0..<nat n] = ring b h n"
    by (simp add: ring_def)
  moreover have "nat (n + 1) = Suc (nat n)" using n by simp
  ultimately show "ring (b[?k := c]) h (n + 1) = ring b h n @ [c]" using n k(1) by (simp add: ring_def)
  show "ring_ok (b[?k := c]) h (n + 1)" using assms by (simp add: ring_ok_def)
qed

text \<open>The two buffers of the driver as queues.\<close>

definition pending :: "('h, 'a) tty \<Rightarrow> char list" where
  "pending t = ring (write_buf t) (write_head t) (write_count t)"

definition received :: "('h, 'a) tty \<Rightarrow> char list" where
  "received t = ring (read_buf t) (read_head t) (read_count t)"

definition buffers_ok :: "('h, 'a) tty \<Rightarrow> bool" where
  "buffers_ok t \<longleftrightarrow> ring_ok (write_buf t) (write_head t) (write_count t) \<and> ring_ok (read_buf t) (read_head t) (read_count t)"

lemma queues_cong [simp]:
  "pending (t\<lparr>tty_hw := h\<rparr>) = pending t" "pending (t\<lparr>tty_kernel := k\<rparr>) = pending t" "pending (t\<lparr>tty_slock := l\<rparr>) = pending t"
  "received (t\<lparr>tty_hw := h\<rparr>) = received t" "received (t\<lparr>tty_kernel := k\<rparr>) = received t" "received (t\<lparr>tty_slock := l\<rparr>) = received t"
  "buffers_ok (t\<lparr>tty_hw := h\<rparr>) = buffers_ok t" "buffers_ok (t\<lparr>tty_kernel := k\<rparr>) = buffers_ok t" "buffers_ok (t\<lparr>tty_slock := l\<rparr>) = buffers_ok t"
  by (simp_all add: pending_def received_def buffers_ok_def)

text \<open>
  All that has been written, and all that has been typed and not been read, with what the device holds
  given by \<open>sent\<close> and \<open>input\<close>.
\<close>

definition tty_output :: "('h \<Rightarrow> char list) \<Rightarrow> ('h, 'a) tty \<Rightarrow> char list" where
  "tty_output sent t = sent (tty_hw t) @ pending t"

definition tty_typed :: "('h \<Rightarrow> char list) \<Rightarrow> ('h, 'a) tty \<Rightarrow> char list" where
  "tty_typed input t = received t @ input (tty_hw t)"

definition tty_works :: "('h \<Rightarrow> bool) \<Rightarrow> ('h, 'a) tty \<Rightarrow> bool" where
  "tty_works hok t \<longleftrightarrow> hok (tty_hw t) \<and> buffers_ok t"

text \<open>The kernel below between two steps of the driver, with the threads that wait for a resource.\<close>

definition waiting :: "('h, 'a) tty \<Rightarrow> (uint32 \<Rightarrow> int list) \<Rightarrow> bool" where
  "waiting t w \<longleftrightarrow> sleepq_slock (tty_kernel t) = 0 \<and> (\<exists>rs qs. sleepq_ok (tty_kernel t) rs qs \<and> w = waiters (tty_kernel t) qs)"

lemma wake_all_waiting:
  assumes "waiting t w"
  obtains k where "sleepq_wake_all res (tty_kernel t) = Inr k" "waiting (t\<lparr>tty_kernel := k\<rparr>) (w(res := []))"
proof -
  obtain rs qs where ok: "sleepq_slock (tty_kernel t) = 0" "sleepq_ok (tty_kernel t) rs qs" "w = waiters (tty_kernel t) qs"
    using assms by (auto simp: waiting_def)
  obtain k where k: "sleepq_wake_all res (tty_kernel t) = Inr k" "woken_all (tty_kernel t) rs qs res k"
    using sleepq_wake_all_ok [OF ok(2,1)] by blast
  then obtain qs' rs' where "sleepq_ok k rs' qs'" "\<forall>r. waiters k qs' r = (if r = res then [] else w r)" "sleepq_slock k = 0"
    using ok(1,3) unfolding woken_all_def by (elim exE conjE) simp
  then show ?thesis
    by (intro that [OF k(1)]) (auto simp: waiting_def fun_eq_iff intro!: exI [of _ rs'] exI [of _ qs'])
qed

text \<open>The thread \<open>u\<close> runs and may go to sleep.\<close>

definition can_sleep :: "int \<Rightarrow> ('h, 'a) tty \<Rightarrow> bool" where
  "can_sleep u t \<longleftrightarrow> (let k = tty_kernel t in u = current_of k (this_cpu k) \<and> u \<noteq> 0 \<and> th_state (th k u) = THREAD_RUNNING \<and> th_sleeps_on (th k u) = 0)"

lemma add_waiting:
  assumes "waiting t w" "can_sleep u t" "res \<noteq> 0" "interrupts_off (cp0_status (tty_kernel t))"
  obtains k where "sleepq_add res (tty_kernel t) = Inr k" "waiting (t\<lparr>tty_kernel := k\<rparr>) (w(res := w res @ [u]))"
proof -
  let ?k = "tty_kernel t" and ?h = "SLEEPQ_HASH res"
  obtain rs qs where ok: "sleepq_slock ?k = 0" "sleepq_ok ?k rs qs" "w = waiters ?k qs"
    using assms(1) by (auto simp: waiting_def)
  have u: "u = current_of ?k (this_cpu ?k)" "u \<noteq> 0" "th_state (th ?k u) = THREAD_RUNNING" "th_sleeps_on (th ?k u) = 0"
    using assms(2) by (auto simp: can_sleep_def Let_def)
  note D = sched_okD [OF sleepq_okD(1) [OF ok(2)]]
  have tid: "is_tid u" using D(7) u(1) by simp
  let ?tt = "add_rows u res (qs ?h) (thread_table ?k)" and ?ht = "if qs ?h = [] then (sleepq_hashtable ?k)[?h := u] else sleepq_hashtable ?k"
  let ?k' = "?k\<lparr>thread_table := ?tt, sleepq_hashtable := ?ht\<rparr>"
  have "sleepq_ok ?k' rs (qs(?h := qs ?h @ [u]))" by (rule sleepq_add_ok [OF ok(2) u refl assms(3)])
  moreover have "waiters ?k' (qs(?h := qs ?h @ [u])) r = (if r = res then waiters ?k qs r @ [u] else waiters ?k qs r)" for r
    by (rule waiters_add [OF ok(2) u(4) tid]) (use add_rows_fields [OF ok(2) tid u(4)] in \<open>simp add: th_def\<close>)
  ultimately show ?thesis
    using sleepq_add_code [OF ok(2) assms(4) u(1,2,4) refl ok(1)] ok(1,3)
    by (intro that [of ?k']) (auto simp: waiting_def fun_eq_iff intro!: exI [of _ rs] exI [of _ "qs(?h := qs ?h @ [u])"])
qed

lemma can_sleep_status:
  "can_sleep u (t\<lparr>tty_kernel := (tty_kernel t)\<lparr>cp0_status := x\<rparr>, tty_slock := l\<rparr>) = can_sleep u t"
  by (simp add: can_sleep_def current_of_def th_def Let_def)

lemma waiting_cong: "waiting t w \<Longrightarrow> tty_kernel t' = tty_kernel t \<Longrightarrow> waiting t' w"
  by (simp add: waiting_def)

lemma waiting_status:
  assumes "waiting t w" "tty_kernel t' = (tty_kernel t)\<lparr>cp0_status := x\<rparr>"
  shows "waiting t' w"
proof -
  obtain rs qs where ok: "sleepq_slock (tty_kernel t) = 0" "sleepq_ok (tty_kernel t) rs qs" "w = waiters (tty_kernel t) qs"
    using assms(1) by (auto simp: waiting_def)
  have "sleepq_ok (tty_kernel t') rs qs" by (rule sleepq_ok_frame [OF ok(2)]) (simp_all add: assms(2))
  then show ?thesis using ok assms(2) by (auto simp: waiting_def waiters_def th_def fun_eq_iff intro!: exI [of _ rs] exI [of _ qs])
qed

text \<open>
  A turn of \<^verbatim>\<open>tty_write\<close> at position \<open>i\<close>: it has put a piece of the data behind all that was written
  before, and it has either returned or put the thread \<open>u\<close> to sleep at the end of that piece, with
  characters left in the buffer.
\<close>

definition tty_wrote ::
  "('h \<Rightarrow> bool) \<Rightarrow> ('h \<Rightarrow> char list) \<Rightarrow> ('h \<Rightarrow> char list) \<Rightarrow> uint32 \<Rightarrow> int \<Rightarrow> (uint32 \<Rightarrow> int list) \<Rightarrow> char list \<Rightarrow> int \<Rightarrow>
   ('h, 'a) tty \<Rightarrow> (int + int) \<Rightarrow> ('h, 'a) tty \<Rightarrow> bool" where
  "tty_wrote hok sent input wbuf u w buf i t r t' \<longleftrightarrow> tty_works hok t' \<and> tty_slock t' = 0 \<and> tty_typed input t' = tty_typed input t \<and>
     (case r of
        Inr j \<Rightarrow> j = int (length buf) \<and> tty_output sent t' = tty_output sent t @ drop (nat i) buf \<and> waiting t' w
      | Inl j \<Rightarrow> i \<le> j \<and> j < int (length buf) \<and> tty_output sent t' = tty_output sent t @ take (nat (j - i)) (drop (nat i) buf) \<and>
          pending t' \<noteq> [] \<and> waiting t' (w(wbuf := w wbuf @ [u])))"

lemma pieces:
  fixes i j :: int
  assumes "0 \<le> i" "i \<le> j"
  shows "take (nat (j - i)) (drop (nat i) b) @ drop (nat j) b = drop (nat i) b"
    "j \<le> l \<Longrightarrow> take (nat (j - i)) (drop (nat i) b) @ take (nat (l - j)) (drop (nat j) b) = take (nat (l - i)) (drop (nat i) b)"
proof -
  have d: "drop (nat j) b = drop (nat (j - i)) (drop (nat i) b)" using assms by (simp add: nat_diff_distrib)
  then show "take (nat (j - i)) (drop (nat i) b) @ drop (nat j) b = drop (nat i) b" by (simp only: append_take_drop_id)
  show "take (nat (j - i)) (drop (nat i) b) @ take (nat (l - j)) (drop (nat j) b) = take (nat (l - i)) (drop (nat i) b)" if "j \<le> l"
  proof -
    have "nat (l - i) = nat (j - i) + nat (l - j)" using assms that by simp
    then show ?thesis by (simp only: take_add d)
  qed
qed

subsection \<open>The device\<close>

text \<open>
  A working terminal.  \<open>sent h\<close> is what it has shown, \<open>input h\<close> what has been typed and not been fetched
  yet, and \<open>free h\<close> says that it takes a character now; a device that reports not to be busy is free until it gets a character.
\<close>

locale yams_tty =
  fixes io :: "'h tty_io" and hok :: "'h \<Rightarrow> bool" and sent :: "'h \<Rightarrow> char list" and input :: "'h \<Rightarrow> char list" and free :: "'h \<Rightarrow> bool"
  assumes status: "\<lbrakk>hok h; tio_status io h = (st, h')\<rbrakk> \<Longrightarrow>
      hok h' \<and> sent h' = sent h \<and> input h' = input h \<and> (TTY_STATUS_WBUSY st = 0 \<longrightarrow> free h') \<and>
      (TTY_STATUS_RAVAIL st \<noteq> 0 \<longleftrightarrow> input h \<noteq> []) \<and> TTY_STATUS_ERROR st = 0"
    and command: "hok h \<Longrightarrow> cmd \<in> {TTY_COMMAND_RIRQ, TTY_COMMAND_WIRQ, TTY_COMMAND_WIRQE, TTY_COMMAND_WIRQD} \<Longrightarrow>
      hok (tio_command io cmd h) \<and> sent (tio_command io cmd h) = sent h \<and> input (tio_command io cmd h) = input h \<and>
      free (tio_command io cmd h) = free h"
    and put: "hok h \<Longrightarrow> free h \<Longrightarrow> hok (tio_put io c h) \<and> sent (tio_put io c h) = sent h @ [c] \<and> input (tio_put io c h) = input h"
    and get: "\<lbrakk>hok h; input h = c # cs; tio_get io h = (d, h')\<rbrakk> \<Longrightarrow> d = c \<and> hok h' \<and> sent h' = sent h \<and> input h' = cs"
begin

abbreviation printed :: "('h, 'a) tty \<Rightarrow> char list" where "printed \<equiv> tty_output sent"
abbreviation typed :: "('h, 'a) tty \<Rightarrow> char list" where "typed \<equiv> tty_typed input"
abbreviation works :: "('h, 'a) tty \<Rightarrow> bool" where "works \<equiv> tty_works hok"

lemmas printed_def = tty_output_def [of sent]
lemmas typed_def = tty_typed_def [of input]
lemmas works_def = tty_works_def [of hok]

abbreviation wrote :: "uint32 \<Rightarrow> int \<Rightarrow> (uint32 \<Rightarrow> int list) \<Rightarrow> char list \<Rightarrow> int \<Rightarrow> ('h, 'a) tty \<Rightarrow> (int + int) \<Rightarrow> ('h, 'a) tty \<Rightarrow> bool" where
  "wrote \<equiv> tty_wrote hok sent input"

lemmas wrote_def = tty_wrote_def [of hok sent input]

lemma tty_status_ok:
  assumes "works t"
  obtains st t' where "tty_status io t = (st, t')" "\<exists>h. t' = t\<lparr>tty_hw := h\<rparr>" "works t'" "printed t' = printed t" "typed t' = typed t"
    "TTY_STATUS_WBUSY st = 0 \<longrightarrow> free (tty_hw t')" "TTY_STATUS_RAVAIL st \<noteq> 0 \<longleftrightarrow> input (tty_hw t') \<noteq> []" "TTY_STATUS_ERROR st = 0"
proof -
  obtain st h' where s: "tio_status io (tty_hw t) = (st, h')" by fastforce
  from assms status [OF _ s] show ?thesis
    by (intro that [of st "t\<lparr>tty_hw := h'\<rparr>"]) (auto simp: tty_status_def s works_def printed_def typed_def)
qed

lemma tty_command_ok:
  assumes "works t" "c \<in> {TTY_COMMAND_RIRQ, TTY_COMMAND_WIRQ, TTY_COMMAND_WIRQE, TTY_COMMAND_WIRQD}"
  shows "works (tty_command io c t)" "printed (tty_command io c t) = printed t" "typed (tty_command io c t) = typed t"
    "free (tty_hw (tty_command io c t)) = free (tty_hw t)" "input (tty_hw (tty_command io c t)) = input (tty_hw t)"
  using assms command [of "tty_hw t" c] by (simp_all add: tty_command_def works_def printed_def typed_def)

lemma send_head_ok:
  assumes "works t" "free (tty_hw t)" "0 < write_count t"
  obtains t' where "send_head io t = Inr t'" "works t'" "printed t' = printed t" "typed t' = typed t" "write_count t' = write_count t - 1"
    "tty_slock t' = tty_slock t" "tty_kernel t' = tty_kernel t" "input (tty_hw t') = input (tty_hw t)"
proof -
  have r: "ring_ok (write_buf t) (write_head t) (write_count t)" using assms(1) by (simp add: works_def buffers_ok_def)
  note F = ring_first [OF r assms(3)] and P = put [of "tty_hw t" "write_buf t ! nat (write_head t)"]
  have h: "0 \<le> write_head t" using r by (simp add: ring_ok_def)
  show ?thesis
    by (rule that [of "t\<lparr>tty_hw := tio_put io (write_buf t ! nat (write_head t)) (tty_hw t),
          write_head := (write_head t + 1) mod TTY_BUF_SIZE, write_count := write_count t - 1\<rparr>"])
      (use assms F P h in \<open>simp_all add: send_head_def works_def buffers_ok_def printed_def typed_def pending_def received_def\<close>)
qed

text \<open>The sending loop keeps the output and ends.\<close>

lemma send_loop_ok:
  assumes "works t" "write_count t \<le> int n"
  shows "\<exists>t'. send_loop n io t = Inr t' \<and> works t' \<and> printed t' = printed t \<and> typed t' = typed t \<and>
    tty_slock t' = tty_slock t \<and> tty_kernel t' = tty_kernel t \<and> input (tty_hw t') = input (tty_hw t)"
  using assms
proof (induction n arbitrary: t)
  case (0 t)
  obtain st t1 where 1: "tty_status io t = (st, t1)" "\<exists>h. t1 = t\<lparr>tty_hw := h\<rparr>" "works t1" "printed t1 = printed t" "typed t1 = typed t"
    by (rule tty_status_ok [OF "0.prems"(1)])
  then show ?case using "0.prems"(2) by (auto simp: send_loop.simps [of 0] typed_def)
next
  case (Suc n t)
  obtain st t1 where 1: "tty_status io t = (st, t1)" "\<exists>h. t1 = t\<lparr>tty_hw := h\<rparr>" "works t1" "printed t1 = printed t" "typed t1 = typed t"
    "TTY_STATUS_WBUSY st = 0 \<longrightarrow> free (tty_hw t1)"
    by (rule tty_status_ok [OF Suc.prems(1)])
  have same: "tty_slock t1 = tty_slock t" "tty_kernel t1 = tty_kernel t" "write_count t1 = write_count t" "input (tty_hw t1) = input (tty_hw t)"
    using 1(2,5) by (auto simp: typed_def)
  show ?case
  proof (cases "TTY_STATUS_WBUSY st = 0 \<and> write_count t1 > 0")
    case True
    let ?t2 = "tty_command io TTY_COMMAND_WIRQ t1"
    note C = tty_command_ok [OF 1(3), of TTY_COMMAND_WIRQ, simplified]
    have c2: "write_count ?t2 = write_count t1" "tty_slock ?t2 = tty_slock t1" "tty_kernel ?t2 = tty_kernel t1" by (simp_all add: tty_command_def)
    obtain t3 where 3: "send_head io ?t2 = Inr t3" "works t3" "printed t3 = printed ?t2" "typed t3 = typed ?t2" "write_count t3 = write_count ?t2 - 1"
      "tty_slock t3 = tty_slock ?t2" "tty_kernel t3 = tty_kernel ?t2" "input (tty_hw t3) = input (tty_hw ?t2)"
      by (rule send_head_ok [of ?t2]) (use C 1(6) True c2 in auto)
    have "write_count t3 \<le> int n" using 3(5) c2 same Suc.prems(2) by simp
    from Suc.IH [OF 3(2) this] show ?thesis
      using True 1 3 C(2,3,5) c2 same by (auto simp: send_loop.simps [of "Suc n"])
  next
    case False
    then show ?thesis using 1 same by (auto simp: send_loop.simps [of "Suc n"])
  qed
qed

text \<open>The fetching loop takes all input when there is room for it.\<close>

lemma fetch_loop_ok:
  assumes "works t" "length (input (tty_hw t)) \<le> n" "read_count t + int (length (input (tty_hw t))) \<le> TTY_BUF_SIZE"
  shows "\<exists>t'. fetch_loop n io t = Inr t' \<and> works t' \<and> printed t' = printed t \<and> typed t' = typed t \<and> input (tty_hw t') = [] \<and>
    tty_slock t' = tty_slock t \<and> tty_kernel t' = tty_kernel t \<and> pending t' = pending t"
  using assms
proof (induction "length (input (tty_hw t))" arbitrary: t n)
  case (0 t n)
  obtain st t1 where 1: "tty_status io t = (st, t1)" "\<exists>h. t1 = t\<lparr>tty_hw := h\<rparr>" "works t1" "printed t1 = printed t" "typed t1 = typed t"
    "TTY_STATUS_RAVAIL st \<noteq> 0 \<longleftrightarrow> input (tty_hw t1) \<noteq> []"
    by (rule tty_status_ok [OF "0.prems"(1)])
  moreover have "input (tty_hw t1) = []" using 1(2,5) "0.hyps" by (auto simp: typed_def)
  ultimately show ?case by (auto simp: fetch_loop.simps [of n])
next
  case (Suc m t n)
  obtain st t1 where 1: "tty_status io t = (st, t1)" "\<exists>h. t1 = t\<lparr>tty_hw := h\<rparr>" "works t1" "printed t1 = printed t" "typed t1 = typed t"
    "TTY_STATUS_RAVAIL st \<noteq> 0 \<longleftrightarrow> input (tty_hw t1) \<noteq> []"
    by (rule tty_status_ok [OF Suc.prems(1)])
  have same: "tty_slock t1 = tty_slock t" "tty_kernel t1 = tty_kernel t" "read_count t1 = read_count t" "input (tty_hw t1) = input (tty_hw t)"
    using 1(2,5) by (auto simp: typed_def)
  obtain c cs where c: "input (tty_hw t1) = c # cs" "length cs = m" using Suc.hyps(2) same(4) by (cases "input (tty_hw t)") auto
  obtain h where g: "tio_get io (tty_hw t1) = (c, h)" "hok h" "sent h = sent (tty_hw t1)" "input h = cs"
    using get [OF _ c(1)] 1(3) by (cases "tio_get io (tty_hw t1)") (auto simp: works_def)
  have r: "ring_ok (read_buf t1) (read_head t1) (read_count t1)" "ring_ok (write_buf t1) (write_head t1) (write_count t1)"
    using 1(3) by (simp_all add: works_def buffers_ok_def)
  have room: "read_count t1 < TTY_BUF_SIZE" "\<not> read_count t1 > TTY_BUF_SIZE" using Suc.prems(3) Suc.hyps(2) same(3) by linarith+
  note L = ring_last [OF r(1) room(1), of c]
  let ?k = "(read_head t1 + read_count t1) mod TTY_BUF_SIZE"
  let ?t2 = "t1\<lparr>tty_hw := h, read_buf := (read_buf t1)[nat ?k := c], read_count := read_count t1 + 1\<rparr>"
  have k: "0 \<le> ?k" "nat ?k < length (read_buf t1)" using ring_index [of "read_buf t1" "read_head t1 + read_count t1"] r(1) by (auto simp: ring_ok_def)
  obtain p where p: "n = Suc p" using Suc.prems(2) Suc.hyps(2) by (cases n) auto
  have step: "fetch_loop n io t = fetch_loop p io ?t2"
    using 1(1,6) c(1) g(1) room k p by (simp add: fetch_loop.simps [of "Suc p"])
  have 2: "works ?t2" "printed ?t2 = printed t1" "typed ?t2 = typed t1"
    using L r g c(1) by (simp_all add: works_def buffers_ok_def printed_def typed_def pending_def received_def)
  have "\<exists>t'. fetch_loop p io ?t2 = Inr t' \<and> works t' \<and> printed t' = printed ?t2 \<and> typed t' = typed ?t2 \<and> input (tty_hw t') = [] \<and>
    tty_slock t' = tty_slock ?t2 \<and> tty_kernel t' = tty_kernel ?t2 \<and> pending t' = pending ?t2"
  proof (rule Suc.hyps(1) [OF _ 2(1)])
    have l: "length (input (tty_hw t)) = Suc m" using Suc.hyps(2) by simp
    have i: "input (tty_hw ?t2) = cs" using g(4) by simp
    show "m = length (input (tty_hw ?t2))" "length (input (tty_hw ?t2)) \<le> p" unfolding i using c(2) Suc.prems(2) l p by simp_all
    show "read_count ?t2 + int (length (input (tty_hw ?t2))) \<le> TTY_BUF_SIZE" unfolding i using c(2) Suc.prems(3) l same(3) by simp
  qed
  moreover have "pending ?t2 = pending t" using 1(2) by (auto simp: pending_def)
  ultimately show ?case using step 1(4,5) 2 same by simp
qed

subsection \<open>The interrupt handler\<close>

lemma send_part_ok:
  assumes "works t" "tty_slock t = 0" "waiting t w"
  shows "\<exists>t'. send_part io wbuf t = Inr t' \<and> works t' \<and> tty_slock t' = 0 \<and> printed t' = printed t \<and> typed t' = typed t \<and>
    input (tty_hw t') = input (tty_hw t) \<and> waiting t' (if write_count t' = 0 then w(wbuf := []) else w)"
proof -
  define t1 where "t1 = tty_command io TTY_COMMAND_WIRQ (tty_command io TTY_COMMAND_WIRQD (t\<lparr>tty_slock := 1\<rparr>))"
  have w0: "works (t\<lparr>tty_slock := 1\<rparr>)" "printed (t\<lparr>tty_slock := 1\<rparr>) = printed t" "typed (t\<lparr>tty_slock := 1\<rparr>) = typed t"
    using assms(1) by (simp_all add: works_def printed_def typed_def)
  note C0 = tty_command_ok [OF w0(1), of TTY_COMMAND_WIRQD, simplified]
  note C1 = tty_command_ok [OF C0(1), of TTY_COMMAND_WIRQ, simplified, folded t1_def]
  have s1: "tty_kernel t1 = tty_kernel t" by (simp add: t1_def tty_command_def)
  have le: "write_count t1 \<le> int (nat (write_count t1))" by simp
  obtain t2 where 2: "send_loop (nat (write_count t1)) io t1 = Inr t2" "works t2" "printed t2 = printed t1" "typed t2 = typed t1" "tty_kernel t2 = tty_kernel t1"
    "input (tty_hw t2) = input (tty_hw t1)"
    using send_loop_ok [OF C1(1) le] by blast
  define t3 where "t3 = tty_command io TTY_COMMAND_WIRQE t2"
  note C3 = tty_command_ok [OF 2(2), of TTY_COMMAND_WIRQE, simplified, folded t3_def]
  have w3: "waiting t3 w" by (rule waiting_cong [OF assms(3)]) (use s1 2(5) in \<open>simp add: t3_def tty_command_def\<close>)
  obtain k where k: "sleepq_wake_all wbuf (tty_kernel t3) = Inr k" "waiting (t3\<lparr>tty_kernel := k\<rparr>) (w(wbuf := []))"
    by (rule wake_all_waiting [OF w3])
  let ?t4 = "if write_count t3 = 0 then t3\<lparr>tty_kernel := k\<rparr> else t3"
  have "send_part io wbuf t = Inr (?t4\<lparr>tty_slock := 0\<rparr>)"
    using assms(2) 2(1) k(1) by (simp add: send_part_def t1_def [symmetric] t3_def [symmetric] Let_def)
  moreover have "works (?t4\<lparr>tty_slock := 0\<rparr>)" "printed (?t4\<lparr>tty_slock := 0\<rparr>) = printed t" "typed (?t4\<lparr>tty_slock := 0\<rparr>) = typed t"
    "input (tty_hw (?t4\<lparr>tty_slock := 0\<rparr>)) = input (tty_hw t)"
    using C3 2(3,4,6) C1 C0 w0 by (simp_all add: works_def printed_def typed_def)
  moreover have "waiting (?t4\<lparr>tty_slock := 0\<rparr>) (if write_count (?t4\<lparr>tty_slock := 0\<rparr>) = 0 then w(wbuf := []) else w)"
    by (auto intro: waiting_cong [OF k(2)] waiting_cong [OF w3])
  ultimately show ?thesis by fastforce
qed

lemma fetch_part_ok:
  assumes "works t" "tty_slock t = 0" "waiting t w" "read_count t + int (length (input (tty_hw t))) \<le> TTY_BUF_SIZE"
  shows "\<exists>t'. fetch_part io rbuf t = Inr t' \<and> works t' \<and> tty_slock t' = 0 \<and> printed t' = printed t \<and> typed t' = typed t \<and>
    input (tty_hw t') = [] \<and> pending t' = pending t \<and> waiting t' (w(rbuf := []))"
proof -
  define t1 where "t1 = tty_command io TTY_COMMAND_RIRQ (t\<lparr>tty_slock := 1\<rparr>)"
  have w0: "works (t\<lparr>tty_slock := 1\<rparr>)" "printed (t\<lparr>tty_slock := 1\<rparr>) = printed t" "typed (t\<lparr>tty_slock := 1\<rparr>) = typed t"
    using assms(1) by (simp_all add: works_def printed_def typed_def)
  note C1 = tty_command_ok [OF w0(1), of TTY_COMMAND_RIRQ, simplified, folded t1_def]
  obtain st t2 where 2: "tty_status io t1 = (st, t2)" "\<exists>h. t2 = t1\<lparr>tty_hw := h\<rparr>" "works t2" "printed t2 = printed t1" "typed t2 = typed t1"
    "TTY_STATUS_ERROR st = 0"
    by (rule tty_status_ok [OF C1(1)])
  have s2: "tty_kernel t2 = tty_kernel t" "read_count t2 = read_count t" "input (tty_hw t2) = input (tty_hw t)"
    using 2(2,5) C1(5) by (auto simp: t1_def tty_command_def typed_def)
  have len: "length (input (tty_hw t2)) \<le> 2 ^ 32" "read_count t2 + int (length (input (tty_hw t2))) \<le> TTY_BUF_SIZE"
    using assms(1,4) s2 by (auto simp: works_def buffers_ok_def ring_ok_def TTY_BUF_SIZE_def)
  obtain t3 where 3: "fetch_loop (2 ^ 32) io t2 = Inr t3" "works t3" "printed t3 = printed t2" "typed t3 = typed t2" "input (tty_hw t3) = []"
    "tty_kernel t3 = tty_kernel t2" "pending t3 = pending t2"
    using fetch_loop_ok [OF 2(3) len] by blast
  let ?t4 = "t3\<lparr>tty_slock := 0\<rparr>"
  have w4: "waiting ?t4 w" by (rule waiting_cong [OF assms(3)]) (use s2 3(6) in simp)
  obtain k where k: "sleepq_wake_all rbuf (tty_kernel ?t4) = Inr k" "waiting (?t4\<lparr>tty_kernel := k\<rparr>) (w(rbuf := []))"
    by (rule wake_all_waiting [OF w4])
  have "fetch_part io rbuf t = Inr (?t4\<lparr>tty_kernel := k\<rparr>)"
    using assms(2) 2(1,6) 3(1) k(1) by (simp add: fetch_part_def t1_def [symmetric] Let_def)
  moreover have "works (?t4\<lparr>tty_kernel := k\<rparr>)" "printed (?t4\<lparr>tty_kernel := k\<rparr>) = printed t" "typed (?t4\<lparr>tty_kernel := k\<rparr>) = typed t"
    using 3(2-4) 2(4,5) C1 w0 by (simp_all add: works_def printed_def typed_def)
  moreover have "pending (?t4\<lparr>tty_kernel := k\<rparr>) = pending t" using 3(7) 2(2) by (auto simp: t1_def tty_command_def)
  ultimately show ?thesis using k(2) 3(5) by fastforce
qed

lemma tty_interrupt_ok:
  assumes "works t" "tty_slock t = 0" "waiting t w" "read_count t + int (length (input (tty_hw t))) \<le> TTY_BUF_SIZE" "rbuf \<noteq> wbuf"
  shows "\<exists>t' w'. tty_interrupt_handle io rbuf wbuf t = Inr t' \<and> works t' \<and> tty_slock t' = 0 \<and> waiting t' w' \<and>
    printed t' = printed t \<and> typed t' = typed t \<and>
    (input (tty_hw t') = [] \<and> w' rbuf = [] \<or> input (tty_hw t') = input (tty_hw t) \<and> w' rbuf = w rbuf) \<and>
    (TTY_STATUS_WIRQ (fst (tio_status io (tty_hw t))) \<noteq> 0 \<and> pending t' = [] \<longrightarrow> w' wbuf = []) \<and>
    (\<forall>r. r \<noteq> rbuf \<and> r \<noteq> wbuf \<longrightarrow> w' r = w r)"
proof -
  obtain st t1 where 1: "tty_status io t = (st, t1)" "\<exists>h. t1 = t\<lparr>tty_hw := h\<rparr>" "works t1" "printed t1 = printed t" "typed t1 = typed t"
    by (rule tty_status_ok [OF assms(1)])
  have st: "st = fst (tio_status io (tty_hw t))" using 1(1) by (auto simp: tty_status_def split_def Let_def)
  have same: "tty_slock t1 = 0" "input (tty_hw t1) = input (tty_hw t)" "read_count t1 = read_count t" using 1(2,5) assms(2) by (auto simp: typed_def)
  have w1: "waiting t1 w" by (rule waiting_cong [OF assms(3)]) (use 1(2) in auto)
  obtain t2 w2 where 2: "(if TTY_STATUS_WIRQ st \<noteq> 0 then send_part io wbuf t1 else Inr t1) = Inr t2" "works t2" "tty_slock t2 = 0"
    "printed t2 = printed t" "typed t2 = typed t" "waiting t2 w2" "TTY_STATUS_WIRQ st \<noteq> 0 \<longrightarrow> w2 = (if write_count t2 = 0 then w(wbuf := []) else w)"
    "TTY_STATUS_WIRQ st = 0 \<longrightarrow> w2 = w" 
    "input (tty_hw t2) = input (tty_hw t)"
    using send_part_ok [OF 1(3) same(1) w1, of wbuf] 1 same w1 by (cases "TTY_STATUS_WIRQ st \<noteq> 0") auto
  obtain st2 t3 where 3: "tty_status io t2 = (st2, t3)" "\<exists>h. t3 = t2\<lparr>tty_hw := h\<rparr>" "works t3" "printed t3 = printed t2" "typed t3 = typed t2"
    by (rule tty_status_ok [OF 2(2)])
  have same3: "tty_slock t3 = 0" "input (tty_hw t3) = input (tty_hw t)" "pending t3 = pending t2" using 3(2,5) 2(3,9) by (auto simp: typed_def)
  have w3: "waiting t3 w2" by (rule waiting_cong [OF 2(6)]) (use 3(2) in auto)
  have run: "tty_interrupt_handle io rbuf wbuf t = (if TTY_STATUS_RIRQ st2 \<noteq> 0 then fetch_part io rbuf t3 else Inr t3)"
    using 1(1) 2(1) 3(1) by (simp add: tty_interrupt_handle_def)
  have wq: "w2 rbuf = w rbuf" "r \<noteq> wbuf \<Longrightarrow> w2 r = w r" for r using 2(7,8) assms(5) by (auto split: if_splits)
  have ww: "w2 wbuf = []" if "TTY_STATUS_WIRQ st \<noteq> 0" "pending t2 = []"
  proof -
    have "nat (write_count t2) = 0" using arg_cong [OF that(2), of length] by (simp add: pending_def)
    moreover have "0 \<le> write_count t2" using 2(2) by (simp add: works_def buffers_ok_def ring_ok_def)
    ultimately show ?thesis using 2(7) that(1) by simp
  qed
  show ?thesis
  proof (cases "TTY_STATUS_RIRQ st2 \<noteq> 0")
    case False
    then have "tty_interrupt_handle io rbuf wbuf t = Inr t3" by (simp add: run)
    with 3 2(4,5) same3 w3 wq ww show ?thesis by (intro exI [of _ t3] exI [of _ w2]) (simp add: st)
  next
    case True
    have "length (typed t3) = length (typed t)" using 3(5) 2(5) by simp
    then have room: "read_count t3 + int (length (input (tty_hw t3))) \<le> TTY_BUF_SIZE"
      using assms(1,4) 3(3) same3(2) by (auto simp: eq_nat_nat_iff typed_def received_def works_def buffers_ok_def ring_ok_def)
    obtain t4 where 4: "fetch_part io rbuf t3 = Inr t4" "works t4" "tty_slock t4 = 0" "printed t4 = printed t3" "typed t4 = typed t3"
      "input (tty_hw t4) = []" "pending t4 = pending t3" "waiting t4 (w2(rbuf := []))"
      using fetch_part_ok [OF 3(3) same3(1) w3 room] by blast
    from True 4(1) have "tty_interrupt_handle io rbuf wbuf t = Inr t4" by (simp add: run)
    with 3 4 2(4,5) same3 wq ww assms(5) show ?thesis by (intro exI [of _ t4] exI [of _ "w2(rbuf := [])"]) (simp add: st)
  qed
qed

subsection \<open>Writing\<close>

lemma fill_loop_ok:
  assumes "works t" "length buf = nat len" "0 \<le> i" "i \<le> len"
  shows "\<exists>t'. fill_loop buf len i t = Inr (min len (i + TTY_BUF_SIZE - write_count t), t') \<and> works t' \<and> typed t' = typed t \<and>
    printed t' = printed t @ take (nat (min len (i + TTY_BUF_SIZE - write_count t) - i)) (drop (nat i) buf) \<and>
    write_count t' = min (write_count t + (len - i)) TTY_BUF_SIZE \<and> tty_slock t' = tty_slock t \<and> tty_kernel t' = tty_kernel t"
  using assms
proof (induction "nat (len - i)" arbitrary: i t)
  case (0 i t)
  then have "i = len" by simp
  moreover have "write_count t \<le> TTY_BUF_SIZE" using "0.prems"(1) by (simp add: works_def buffers_ok_def ring_ok_def)
  ultimately show ?case using "0.prems"(1) by (simp add: fill_loop.simps [of buf len len])
next
  case (Suc m i t)
  have r: "ring_ok (write_buf t) (write_head t) (write_count t)" "ring_ok (read_buf t) (read_head t) (read_count t)"
    using Suc.prems(1) by (simp_all add: works_def buffers_ok_def)
  show ?case
  proof (cases "write_count t < TTY_BUF_SIZE")
    case False
    then have "write_count t = TTY_BUF_SIZE" using r(1) by (simp add: ring_ok_def)
    then show ?thesis using Suc.prems(1,4) by (auto simp: fill_loop.simps [of buf len i])
  next
    case True
    let ?k = "(write_head t + write_count t) mod TTY_BUF_SIZE" and ?c = "buf ! nat i"
    let ?t1 = "t\<lparr>write_buf := (write_buf t)[nat ?k := ?c], write_count := write_count t + 1\<rparr>"
    note L = ring_last [OF r(1) True, of ?c]
    have k: "0 \<le> ?k" "nat ?k < length (write_buf t)" using ring_index [of "write_buf t" "write_head t + write_count t"] r(1) by (auto simp: ring_ok_def)
    have i: "i < len" "nat i < length buf" using Suc.hyps(2) Suc.prems(2,3) by linarith+
    have 1: "works ?t1" "printed ?t1 = printed t @ [?c]" "typed ?t1 = typed t"
      using L r Suc.prems(1) by (simp_all add: works_def buffers_ok_def printed_def typed_def pending_def received_def)
    have step: "fill_loop buf len i t = fill_loop buf len (i + 1) ?t1"
      using True i Suc.prems(3) k by (simp add: fill_loop.simps [of buf len i])
    have e: "i + 1 + TTY_BUF_SIZE - write_count ?t1 = i + TTY_BUF_SIZE - write_count t" by simp
    define j where "j = min len (i + TTY_BUF_SIZE - write_count t)"
    have j: "i + 1 \<le> j" using i True by (simp add: j_def)
    have "drop (nat i) buf = ?c # drop (nat (i + 1)) buf" using i Suc.prems(3) by (simp add: Cons_nth_drop_Suc nat_add_distrib flip: Suc_eq_plus1)
    moreover have "nat (j - i) = Suc (nat (j - (i + 1)))" using j by simp
    ultimately have tk: "take (nat (j - i)) (drop (nat i) buf) = ?c # take (nat (j - (i + 1))) (drop (nat (i + 1)) buf)" by simp
    have "m = nat (len - (i + 1))" using Suc.hyps(2) by simp
    from Suc.hyps(1) [OF this 1(1) Suc.prems(2)] i(1) Suc.prems(3)
    obtain t' where "fill_loop buf len (i + 1) ?t1 = Inr (j, t')" "works t'" "typed t' = typed t"
      "printed t' = printed ?t1 @ take (nat (j - (i + 1))) (drop (nat (i + 1)) buf)"
      "write_count t' = min (write_count t + 1 + (len - (i + 1))) TTY_BUF_SIZE" "tty_slock t' = tty_slock t" "tty_kernel t' = tty_kernel t"
      unfolding e j_def [symmetric] using 1(3) by auto
    then show ?thesis unfolding j_def [symmetric] tk step using 1(2) by auto
  qed
qed

lemma tty_write_loop_ok:
  assumes "works t" "0 \<le> i" "i \<le> int (length buf)" "nat (int (length buf) - i) \<le> n" "waiting t w" "can_sleep u t"
    "interrupts_off (cp0_status (tty_kernel t))" "wbuf \<noteq> 0"
  shows "\<exists>r t'. tty_write_loop n io wbuf intr buf (int (length buf)) i t = Inr (r, t') \<and> wrote wbuf u w buf i t r t'"
  using assms
proof (induction n arbitrary: i t)
  case (0 i t)
  let ?t = "t\<lparr>tty_slock := 0, tty_kernel := interrupt_set_state intr (tty_kernel t)\<rparr>"
  have "i = int (length buf)" using "0.prems"(3,4) by simp
  moreover have "waiting ?t w" by (rule waiting_status [OF "0.prems"(5)]) (simp add: interrupt_set_state_def)
  ultimately show ?case using "0.prems"(1) by (auto simp: tty_write_loop.simps [of 0] wrote_def works_def printed_def typed_def)
next
  case (Suc n i t)
  let ?len = "int (length buf)"
  show ?case
  proof (cases "i < ?len")
    case False
    let ?t = "t\<lparr>tty_slock := 0, tty_kernel := interrupt_set_state intr (tty_kernel t)\<rparr>"
    have "waiting ?t w" by (rule waiting_status [OF Suc.prems(5)]) (simp add: interrupt_set_state_def)
    then show ?thesis using False Suc.prems(1,3) by (auto simp: tty_write_loop.simps [of "Suc n"] wrote_def works_def printed_def typed_def)
  next
    case less: True
    show ?thesis
    proof (cases "write_count t > 0")
      case True
      obtain k where k: "sleepq_add wbuf (tty_kernel t) = Inr k" "waiting (t\<lparr>tty_kernel := k\<rparr>) (w(wbuf := w wbuf @ [u]))"
        by (rule add_waiting [OF Suc.prems(5,6,8,7)])
      let ?t = "t\<lparr>tty_kernel := k, tty_slock := 0\<rparr>"
      have "waiting ?t (w(wbuf := w wbuf @ [u]))" by (rule waiting_cong [OF k(2)]) simp
      moreover have "length (pending t) = nat (write_count t)" by (simp add: pending_def)
      then have "pending t \<noteq> []" using True by auto
      ultimately show ?thesis using True less k(1) Suc.prems(1) by (auto simp: tty_write_loop.simps [of "Suc n"] wrote_def works_def printed_def typed_def)
    next
      case False
      define j where "j = min ?len (i + TTY_BUF_SIZE - write_count t)"
      have c0: "write_count t = 0" using False Suc.prems(1) by (simp add: works_def buffers_ok_def ring_ok_def)
      have j: "i < j" "j \<le> ?len" using less c0 by (simp_all add: j_def TTY_BUF_SIZE_def)
      obtain t1 where 1: "fill_loop buf ?len i t = Inr (j, t1)" "works t1" "typed t1 = typed t"
        "printed t1 = printed t @ take (nat (j - i)) (drop (nat i) buf)" "write_count t1 = min (write_count t + (?len - i)) TTY_BUF_SIZE"
        "tty_slock t1 = tty_slock t" "tty_kernel t1 = tty_kernel t"
        using fill_loop_ok [OF Suc.prems(1) _ Suc.prems(2,3)] unfolding j_def by auto
      obtain st t2 where 2: "tty_status io t1 = (st, t2)" "\<exists>h. t2 = t1\<lparr>tty_hw := h\<rparr>" "works t2" "printed t2 = printed t1" "typed t2 = typed t1"
        "TTY_STATUS_WBUSY st = 0 \<longrightarrow> free (tty_hw t2)"
        by (rule tty_status_ok [OF 1(2)])
      have c2: "0 < write_count t2" "tty_kernel t2 = tty_kernel t" using 2(2) 1(5,7) less c0 by (auto simp: TTY_BUF_SIZE_def)
      obtain t3 where 3: "(if TTY_STATUS_WBUSY st = 0 then send_head io t2 else Inr t2) = Inr t3" "works t3" "printed t3 = printed t2" "typed t3 = typed t2"
        "tty_kernel t3 = tty_kernel t"
      proof (cases "TTY_STATUS_WBUSY st = 0")
        case True
        then have f: "free (tty_hw t2)" using 2(6) by simp
        obtain x where "send_head io t2 = Inr x" "works x" "printed x = printed t2" "typed x = typed t2" "tty_kernel x = tty_kernel t2"
          by (rule send_head_ok [OF 2(3) f c2(1)])
        then show ?thesis using True c2(2) by (intro that [of x]) simp_all
      qed (use that 2(3) c2(2) in simp)
      have w3: "waiting t3 w" by (rule waiting_cong [OF Suc.prems(5)]) (use 3(5) in simp)
      have "\<exists>r t'. tty_write_loop n io wbuf intr buf ?len j t3 = Inr (r, t') \<and> wrote wbuf u w buf j t3 r t'"
        by (rule Suc.IH [OF 3(2) _ j(2) _ w3]) (use j Suc.prems(2,4,6,7,8) 3(5) in \<open>simp_all add: can_sleep_def\<close>)
      then obtain r t' where r: "tty_write_loop n io wbuf intr buf ?len j t3 = Inr (r, t')" "wrote wbuf u w buf j t3 r t'" by blast
      have "tty_write_loop (Suc n) io wbuf intr buf ?len i t = Inr (r, t')"
        using less False 1(1) 2(1) 3(1) r(1) by (simp add: tty_write_loop.simps [of "Suc n"])
      moreover have p3: "printed t3 = printed t @ take (nat (j - i)) (drop (nat i) buf)" using 3(3) 2(4) 1(4) by simp
      have "wrote wbuf u w buf i t r t'"
        using r(2) p3 3(4) 2(5) 1(3) pieces [OF Suc.prems(2) less_imp_le [OF j(1)]] j(1) unfolding wrote_def by (cases r) auto
      ultimately show ?thesis by blast
    qed
  qed
qed

lemma tty_write_ok:
  assumes "works t" "tty_slock t = 0" "waiting t w" "can_sleep u t" "wbuf \<noteq> 0"
  shows "\<exists>r t'. tty_write io wbuf buf (int (length buf)) t = Inr (r, t') \<and> wrote wbuf u w buf 0 t r t'"
proof -
  let ?t = "t\<lparr>tty_kernel := (tty_kernel t)\<lparr>cp0_status := 0xffff00fe AND cp0_status (tty_kernel t)\<rparr>, tty_slock := 1\<rparr>"
  have w: "waiting ?t w" by (rule waiting_status [OF assms(3)]) simp
  have p: "works ?t" "printed ?t = printed t" "typed ?t = typed t" using assms(1) by (simp_all add: works_def printed_def typed_def)
  have "\<exists>r t'. tty_write_loop (nat (int (length buf))) io wbuf (cp0_status (tty_kernel t)) buf (int (length buf)) 0 ?t = Inr (r, t') \<and> wrote wbuf u w buf 0 ?t r t'"
    by (rule tty_write_loop_ok [OF p(1) _ _ _ w]) (use assms(4,5) in \<open>auto simp: can_sleep_status\<close>)
  then show ?thesis using assms(2) p by (auto simp: tty_write_def interrupt_disable_def wrote_def split: sum.splits)
qed

lemma tty_write_resume_ok:
  assumes "works t" "tty_slock t = 0" "waiting t w" "can_sleep u t" "wbuf \<noteq> 0" "0 \<le> i" "i \<le> int (length buf)"
    "interrupts_off (cp0_status (tty_kernel t))"
  shows "\<exists>r t'. tty_write_resume io wbuf intr buf (int (length buf)) i t = Inr (r, t') \<and> wrote wbuf u w buf i t r t'"
proof -
  let ?t = "t\<lparr>tty_slock := 1\<rparr>"
  have w: "waiting ?t w" by (rule waiting_cong [OF assms(3)]) simp
  have p: "works ?t" "printed ?t = printed t" "typed ?t = typed t" using assms(1) by (simp_all add: works_def printed_def typed_def)
  have "\<exists>r t'. tty_write_loop (nat (int (length buf) - i)) io wbuf intr buf (int (length buf)) i ?t = Inr (r, t') \<and> wrote wbuf u w buf i ?t r t'"
    by (rule tty_write_loop_ok [OF p(1) assms(6,7) _ w]) (use assms(4,5,8) in \<open>auto simp: can_sleep_def\<close>)
  then show ?thesis using assms(2) p by (auto simp: tty_write_resume_def wrote_def split: sum.splits)
qed

end

subsection \<open>Reading\<close>

lemma copy_loop_ok:
  assumes "buffers_ok t" "nat len \<le> length buf" "0 \<le> i" "i \<le> len"
  shows "\<exists>t'. copy_loop buf len i t = Inr (min len (i + read_count t),
      take (nat i) buf @ take (nat (min len (i + read_count t) - i)) (received t) @ drop (nat (min len (i + read_count t))) buf, t') \<and>
    buffers_ok t' \<and> received t' = drop (nat (min len (i + read_count t) - i)) (received t) \<and> pending t' = pending t \<and>
    tty_hw t' = tty_hw t \<and> tty_slock t' = tty_slock t \<and> tty_kernel t' = tty_kernel t"
  using assms
proof (induction "nat (len - i)" arbitrary: i t buf)
  case (0 i t buf)
  then have "i = len" by simp
  moreover have "0 \<le> read_count t" using "0.prems"(1) by (simp add: buffers_ok_def ring_ok_def)
  ultimately show ?case using "0.prems"(1) by (simp add: copy_loop.simps [of buf len len])
next
  case (Suc m i t buf)
  have r: "ring_ok (read_buf t) (read_head t) (read_count t)" using Suc.prems(1) by (simp add: buffers_ok_def)
  have i: "i < len" using Suc.hyps(2) by linarith
  show ?case
  proof (cases "0 < read_count t")
    case False
    then have "read_count t = 0" using r by (simp add: ring_ok_def)
    then show ?thesis using i Suc.prems(1) by (simp add: copy_loop.simps [of buf len i])
  next
    case True
    note F = ring_first [OF r True]
    let ?c = "read_buf t ! nat (read_head t)" and ?n = "nat i"
    let ?t1 = "t\<lparr>read_head := (read_head t + 1) mod TTY_BUF_SIZE, read_count := read_count t - 1\<rparr>"
    have b: "?n < length buf" "nat (i + 1) = Suc ?n" using i Suc.prems(2,3) by linarith+
    have h: "0 \<le> read_head t" using r by (simp add: ring_ok_def)
    have 1: "buffers_ok ?t1" "received t = ?c # received ?t1" "pending ?t1 = pending t"
      using Suc.prems(1) F by (simp_all add: buffers_ok_def received_def pending_def)
    have step: "copy_loop buf len i t = copy_loop (buf[?n := ?c]) len (i + 1) ?t1"
      using True i F(3) h b(1) Suc.prems(3) by (simp add: copy_loop.simps [of buf len i])
    define j where "j = min len (i + read_count t)"
    have j: "i < j" "nat (j - i) = Suc (nat (j - (i + 1)))" using i True by (simp_all add: j_def)
    have e: "i + 1 + read_count ?t1 = i + read_count t" by simp
    have "m = nat (len - (i + 1))" using Suc.hyps(2) by simp
    from Suc.hyps(1) [OF this 1(1), of "buf[?n := ?c]"] i Suc.prems(2,3)
    obtain t' where t': "copy_loop (buf[?n := ?c]) len (i + 1) ?t1 = Inr (j,
        take (nat (i + 1)) (buf[?n := ?c]) @ take (nat (j - (i + 1))) (received ?t1) @ drop (nat j) (buf[?n := ?c]), t')"
      "buffers_ok t'" "received t' = drop (nat (j - (i + 1))) (received ?t1)" "pending t' = pending t"
      "tty_hw t' = tty_hw t" "tty_slock t' = tty_slock t" "tty_kernel t' = tty_kernel t"
      unfolding e j_def [symmetric] using 1(3) by auto
    have "take (nat (i + 1)) (buf[?n := ?c]) = take ?n buf @ [?c]" using b by (simp add: take_Suc_conv_app_nth)
    moreover have "drop (nat j) (buf[?n := ?c]) = drop (nat j) buf" using j(1) Suc.prems(3) by (simp add: drop_update_cancel)
    ultimately have "copy_loop buf len i t = Inr (j, take ?n buf @ take (nat (j - i)) (received t) @ drop (nat j) buf, t')"
      using step t'(1) 1(2) j(2) by simp
    moreover have "received t' = drop (nat (j - i)) (received t)" using t'(3) 1(2) j(2) by simp
    ultimately show ?thesis unfolding j_def [symmetric] using t'(2,4-7) by blast
  qed
qed

lemma read_turn_ok:
  assumes "buffers_ok t" "waiting t w" "can_sleep u t" "rbuf \<noteq> 0" "0 \<le> len" "nat len \<le> length buf" "interrupts_off (cp0_status (tty_kernel t))"
  shows "\<exists>r t'. read_turn rbuf intr buf len t = Inr (r, t') \<and> buffers_ok t' \<and> tty_slock t' = 0 \<and> pending t' = pending t \<and> tty_hw t' = tty_hw t \<and>
    (if received t = [] then r = None \<and> received t' = [] \<and> waiting t' (w(rbuf := w rbuf @ [u]))
     else let n = min (nat len) (length (received t))
          in r = Some (int n, take n (received t) @ drop n buf) \<and> received t' = drop n (received t) \<and> waiting t' w)"
proof -
  have c: "0 \<le> read_count t" using assms(1) by (simp add: buffers_ok_def ring_ok_def)
  then have e: "received t = [] \<longleftrightarrow> read_count t = 0"
    using length_ring [of "read_buf t" "read_head t" "read_count t"] by (auto simp: received_def simp del: length_ring)
  show ?thesis
  proof (cases "received t = []")
    case True
    obtain k where k: "sleepq_add rbuf (tty_kernel t) = Inr k" "waiting (t\<lparr>tty_kernel := k\<rparr>) (w(rbuf := w rbuf @ [u]))"
      by (rule add_waiting [OF assms(2,3,4,7)])
    have "waiting (t\<lparr>tty_kernel := k, tty_slock := 0\<rparr>) (w(rbuf := w rbuf @ [u]))" by (rule waiting_cong [OF k(2)]) simp
    then show ?thesis using True k(1) e assms(1) by (simp add: read_turn_def)
  next
    case False
    let ?n = "min (nat len) (length (received t))"
    have j: "min len (0 + read_count t) = int ?n" using c assms(5) by (simp add: received_def)
    obtain t' where t': "copy_loop buf len 0 t = Inr (int ?n, take ?n (received t) @ drop ?n buf, t')" "buffers_ok t'"
      "received t' = drop ?n (received t)" "pending t' = pending t" "tty_hw t' = tty_hw t" "tty_kernel t' = tty_kernel t"
      using copy_loop_ok [OF assms(1,6) order_refl assms(5)] unfolding j by auto
    have "waiting (t'\<lparr>tty_slock := 0, tty_kernel := interrupt_set_state intr (tty_kernel t')\<rparr>) w"
      by (rule waiting_status [OF assms(2)]) (use t'(6) in \<open>simp add: interrupt_set_state_def\<close>)
    then show ?thesis using False e t' by (simp add: read_turn_def)
  qed
qed

subsection \<open>A full buffer\<close>

context yams_tty
begin

lemma fetch_loop_overrun:
  assumes "works t" "read_count t = TTY_BUF_SIZE" "input (tty_hw t) = [c]"
  obtains t' where "fetch_loop (2 ^ 32) io t = Inr t'" "read_count t' = TTY_BUF_SIZE + 1" "read_head t' = read_head t"
    "read_buf t' = (read_buf t)[nat (read_head t) := c]" "tty_slock t' = tty_slock t" "tty_kernel t' = tty_kernel t"
proof -
  obtain st t1 where 1: "tty_status io t = (st, t1)" "\<exists>h. t1 = t\<lparr>tty_hw := h\<rparr>" "works t1" "typed t1 = typed t"
    "TTY_STATUS_RAVAIL st \<noteq> 0 \<longleftrightarrow> input (tty_hw t1) \<noteq> []"
    by (rule tty_status_ok [OF assms(1)])
  have i1: "input (tty_hw t1) = c # []" "read_count t1 = TTY_BUF_SIZE" "read_head t1 = read_head t" "read_buf t1 = read_buf t"
    "tty_slock t1 = tty_slock t" "tty_kernel t1 = tty_kernel t" using 1(2,4) assms by (auto simp: typed_def)
  have hok1: "hok (tty_hw t1)" using 1(3) by (simp add: works_def)
  obtain h where g: "tio_get io (tty_hw t1) = (c, h)" "hok h" "input h = []"
    using get [OF hok1 i1(1)] by (cases "tio_get io (tty_hw t1)") auto
  have r: "ring_ok (read_buf t) (read_head t) (read_count t)" using assms(1) by (simp add: works_def buffers_ok_def)
  have ix: "(read_head t + TTY_BUF_SIZE) mod TTY_BUF_SIZE = read_head t" "0 \<le> read_head t" "nat (read_head t) < length (read_buf t)"
    using r by (auto simp: ring_ok_def nat_less_iff)
  define t2 where "t2 = t1\<lparr>tty_hw := h, read_buf := (read_buf t1)[nat (read_head t1) := c], read_count := read_count t1 + 1\<rparr>"
  obtain st2 h2 where s2: "tio_status io h = (st2, h2)" by fastforce
  have st2: "TTY_STATUS_RAVAIL st2 = 0" using status [OF g(2) s2] g(3) by auto
  have "fetch_loop n io t2 = Inr (t2\<lparr>tty_hw := h2\<rparr>)" for n
    using s2 st2 by (simp add: fetch_loop.simps [of n] tty_status_def t2_def)
  then have "fetch_loop (Suc n) io t = Inr (t2\<lparr>tty_hw := h2\<rparr>)" for n
    using 1(1,5) i1 g(1) ix by (simp add: fetch_loop.simps [of "Suc n"] t2_def)
  moreover have "(2 :: nat) ^ 32 = Suc (2 ^ 32 - 1)" by simp
  ultimately have "fetch_loop (2 ^ 32) io t = Inr (t2\<lparr>tty_hw := h2\<rparr>)" by metis
  then show ?thesis using i1 by (intro that [of "t2\<lparr>tty_hw := h2\<rparr>"]) (simp_all add: t2_def)
qed

lemma fetch_overrun:
  assumes "works t" "tty_slock t = 0" "waiting t w" "read_count t = TTY_BUF_SIZE" "input (tty_hw t) = [c]"
  shows "\<exists>t'. fetch_part io rbuf t = Inr t' \<and> read_count t' = TTY_BUF_SIZE + 1 \<and>
    read_buf t' = (read_buf t)[nat (read_head t) := c] \<and> (\<exists>t''. tty_read rbuf [x] 1 t' = Inr (Some (1, [c]), t''))"
proof -
  define t1 where "t1 = tty_command io TTY_COMMAND_RIRQ (t\<lparr>tty_slock := 1\<rparr>)"
  have w0: "works (t\<lparr>tty_slock := 1\<rparr>)" using assms(1) by (simp add: works_def)
  note C1 = tty_command_ok [OF w0, of TTY_COMMAND_RIRQ, simplified, folded t1_def]
  obtain st t2 where 2: "tty_status io t1 = (st, t2)" "\<exists>h. t2 = t1\<lparr>tty_hw := h\<rparr>" "works t2" "typed t2 = typed t1" "TTY_STATUS_ERROR st = 0"
    by (rule tty_status_ok [OF C1(1)])
  have s2: "tty_kernel t2 = tty_kernel t" "read_count t2 = TTY_BUF_SIZE" "input (tty_hw t2) = [c]" "read_buf t2 = read_buf t" "read_head t2 = read_head t"
    using 2(2,4) C1(5) assms(4,5) by (auto simp: t1_def tty_command_def typed_def)
  obtain t3 where 3: "fetch_loop (2 ^ 32) io t2 = Inr t3" "read_count t3 = TTY_BUF_SIZE + 1" "read_head t3 = read_head t2"
    "read_buf t3 = (read_buf t2)[nat (read_head t2) := c]" "tty_kernel t3 = tty_kernel t2"
    by (rule fetch_loop_overrun [OF 2(3) s2(2,3)])
  let ?t4 = "t3\<lparr>tty_slock := 0\<rparr>"
  have w4: "waiting ?t4 w" by (rule waiting_cong [OF assms(3)]) (use s2 3(5) in simp)
  obtain k where k: "sleepq_wake_all rbuf (tty_kernel ?t4) = Inr k" by (rule wake_all_waiting [OF w4])
  have "fetch_part io rbuf t = Inr (?t4\<lparr>tty_kernel := k\<rparr>)"
    using assms(2) 2(1,5) 3(1) k by (simp add: fetch_part_def t1_def [symmetric] Let_def)
  moreover have ix: "0 \<le> read_head t" "nat (read_head t) < length (read_buf t)"
    using assms(1) by (auto simp: works_def buffers_ok_def ring_ok_def nat_less_iff)
  have "\<exists>t''. tty_read rbuf [x] 1 (?t4\<lparr>tty_kernel := k\<rparr>) = Inr (Some (1, [c]), t'')"
    using 3(2-4) s2(4,5) ix
    by (simp add: tty_read_def interrupt_disable_def read_turn_def copy_loop.simps [of "[x]" 1 0] copy_loop.simps [of "[c]" 1 1] TTY_BUF_SIZE_def)
  ultimately show ?thesis using 3(2,4) s2(4,5) by auto
qed

end

subsection \<open>A terminal\<close>

text \<open>
  A terminal as YAMS has it: it is busy for some reads of its status after each character, and has an
  interrupt flag for each direction that a command clears.
\<close>

record yams_term =
  yt_sent :: "char list"
  yt_input :: "char list"
  yt_busy :: nat
  yt_rirq :: bool
  yt_wirq :: bool

definition term_io :: "yams_term tty_io" where
  "term_io = \<lparr>tio_status = \<lambda>h. ((if yt_input h \<noteq> [] then 1 else 0) + (if yt_busy h \<noteq> 0 then 2 else 0) + (if yt_rirq h then 4 else 0) +
       (if yt_wirq h then 8 else 0), h\<lparr>yt_busy := yt_busy h - 1\<rparr>),
     tio_command = \<lambda>c h. if c = TTY_COMMAND_RIRQ then h\<lparr>yt_rirq := False\<rparr> else if c = TTY_COMMAND_WIRQ then h\<lparr>yt_wirq := False\<rparr> else h,
     tio_get = \<lambda>h. (hd (yt_input h), h\<lparr>yt_input := tl (yt_input h)\<rparr>),
     tio_put = \<lambda>c h. if yt_busy h = 0 then h\<lparr>yt_sent := yt_sent h @ [c], yt_busy := 3, yt_wirq := True\<rparr> else h\<rparr>"

lemmas tty_status_defs = TTY_STATUS_RAVAIL_def TTY_STATUS_WBUSY_def TTY_STATUS_RIRQ_def TTY_STATUS_WIRQ_def TTY_STATUS_ERROR_def

interpretation terminal: yams_tty term_io "\<lambda>_. True" yt_sent yt_input "\<lambda>h. yt_busy h = 0"
  by unfold_locales (auto simp: term_io_def tty_status_defs split: if_splits)

definition sample_tty :: "(yams_term, unit) tty" where
  "sample_tty = \<lparr>tty_slock = 0, read_buf = replicate 2048 NUL, read_head = 0, read_count = 0,
     write_buf = replicate 2048 NUL, write_head = 0, write_count = 0,
     tty_hw = \<lparr>yt_sent = [], yt_input = ''ok'', yt_busy = 0, yt_rirq = True, yt_wirq = False\<rparr>, tty_kernel = sample_kernel\<rparr>"

subsection \<open>Properties\<close>



text \<open>
  C33: the test that protects the input buffer lets one character too many pass.  When the buffer is
  full and one more character is typed, the interrupt handler stores it over the oldest one and counts one character
  more than the buffer has: the next read returns the newest character in place of the oldest.
\<close>

theorem tty_input_overrun:
  assumes "yams_tty io hok sent input free" "tty_works hok t" "tty_slock t = 0" "waiting t w"
    "read_count t = TTY_BUF_SIZE" "input (tty_hw t) = [c]"
  shows "\<exists>t'. fetch_part io rbuf t = Inr t' \<and> read_count t' = TTY_BUF_SIZE + 1 \<and>
    read_buf t' = (read_buf t)[nat (read_head t) := c] \<and> (\<exists>t''. tty_read rbuf [x] 1 t' = Inr (Some (1, [c]), t''))"
  using yams_tty.fetch_overrun [OF assms] by blast

subsection \<open>Applications\<close>

lemma sample_tty_ok:
  "tty_works (\<lambda>_. True) sample_tty" "tty_slock sample_tty = 0" "waiting sample_tty (waiters sample_kernel sample_queues)" "can_sleep 1 sample_tty"
proof -
  show "tty_works (\<lambda>_. True) sample_tty" "tty_slock sample_tty = 0"
    by (simp_all add: sample_tty_def tty_works_def buffers_ok_def ring_ok_def TTY_BUF_SIZE_def)
  show "waiting sample_tty (waiters sample_kernel sample_queues)"
    using sample_kernel_ok by (auto simp: sample_tty_def waiting_def sems_ok_def)
  have "is_tid 1" by (simp add: is_tid_def CONFIG_MAX_THREADS_def)
  then show "can_sleep 1 sample_tty"
    by (simp add: sample_tty_def can_sleep_def current_of_def sample_kernel_row sample_row_def)
qed



theorem tty_input_overrun_witness:
  "\<exists>t' t''. fetch_part term_io 0x80040000 (sample_tty\<lparr>read_count := 2048, tty_hw := (tty_hw sample_tty)\<lparr>yt_input := ''x''\<rparr>\<rparr>) = Inr t' \<and>
     read_count t' = 2049 \<and> tty_read 0x80040000 ''.'' 1 t' = Inr (Some (1, ''x''), t'')"
proof -
  let ?t = "sample_tty\<lparr>read_count := 2048, tty_hw := (tty_hw sample_tty)\<lparr>yt_input := ''x''\<rparr>\<rparr>"
  have 1: "tty_works (\<lambda>_. True) ?t" "tty_slock ?t = 0" "read_count ?t = TTY_BUF_SIZE" "yt_input (tty_hw ?t) = ''x''"
    by (simp_all add: sample_tty_def tty_works_def buffers_ok_def ring_ok_def TTY_BUF_SIZE_def)
  have w: "waiting ?t (waiters sample_kernel sample_queues)" by (rule waiting_cong [OF sample_tty_ok(3)]) simp
  from tty_input_overrun [OF terminal.yams_tty_axioms 1(1,2) w 1(3,4), of "0x80040000" "CHR ''.''"]
  show ?thesis by (auto simp: TTY_BUF_SIZE_def)
qed

end
