(* ===== verification/Elf.thy ===== *)
theory Elf
  imports Vfs_Tfs
begin

text \<open>
  The loader's view of an executable file, \<^verbatim>\<open>proc/elf.c\<close> and \<^verbatim>\<open>proc/elf.h\<close>: the two headers of
  the ELF format, which the processor reads as big-endian numbers, and \<^verbatim>\<open>elf_parse_header\<close>, which
  collects the entry point and the place of the read-only and of the writable segment.
\<close>

record elf_info_t =
  entry_point :: uint32
  ro_location :: uint32
  ro_size :: uint32
  ro_pages :: uint32
  ro_vaddr :: uint32
  rw_location :: uint32
  rw_size :: uint32
  rw_pages :: uint32
  rw_vaddr :: uint32

record Elf32_Ehdr =
  e_ident :: "char list"
  e_type :: uint16
  e_machine :: uint16
  e_version :: uint32
  e_entry :: uint32
  e_phoff :: uint32
  e_shoff :: uint32
  e_flags :: uint32
  e_ehsize :: uint16
  e_phentsize :: uint16
  e_phnum :: uint16
  e_shentsize :: uint16
  e_shnum :: uint16
  e_shstrndx :: uint16

record Elf32_Phdr =
  p_type :: uint32
  p_offset :: uint32
  p_vaddr :: uint32
  p_paddr :: uint32
  p_filesz :: uint32
  p_memsz :: uint32
  p_flags :: uint32
  p_align :: uint32

abbreviation (input) ET_EXEC :: uint16 where "ET_EXEC \<equiv> 2"
abbreviation (input) EM_MIPS :: uint16 where "EM_MIPS \<equiv> 8"
abbreviation (input) EI_CLASS :: nat where "EI_CLASS \<equiv> 4"
abbreviation (input) EI_DATA :: nat where "EI_DATA \<equiv> 5"
abbreviation (input) EI_VERSION :: nat where "EI_VERSION \<equiv> 6"
abbreviation (input) ELFCLASS32 :: nat where "ELFCLASS32 \<equiv> 1"
abbreviation (input) ELFDATA2MSB :: nat where "ELFDATA2MSB \<equiv> 2"
abbreviation (input) EV_CURRENT :: nat where "EV_CURRENT \<equiv> 1"
abbreviation (input) ELF_MAGIC :: uint32 where "ELF_MAGIC \<equiv> 0x7f454c46"
abbreviation (input) PT_NULL :: uint32 where "PT_NULL \<equiv> 0"
abbreviation (input) PT_LOAD :: uint32 where "PT_LOAD \<equiv> 1"
abbreviation (input) PT_NOTE :: uint32 where "PT_NOTE \<equiv> 4"
abbreviation (input) PT_PHDR :: uint32 where "PT_PHDR \<equiv> 6"
abbreviation (input) PF_W :: uint32 where "PF_W \<equiv> 2"
abbreviation (input) SEG_RO :: int where "SEG_RO \<equiv> 1"
abbreviation (input) SEG_RW :: int where "SEG_RW \<equiv> 2"
abbreviation (input) sizeof_Ehdr :: nat where "sizeof_Ehdr \<equiv> 52"
abbreviation (input) sizeof_Phdr :: nat where "sizeof_Phdr \<equiv> 32"

subsection \<open>Headers in memory\<close>

text \<open>What the processor reads from the bytes of a header: the fields in their order, with no gaps.\<close>

definition get16 :: "char list \<Rightarrow> nat \<Rightarrow> uint16" where
  "get16 b off = ucast (dec32 (slice b off 2))"

definition get_Ehdr :: "char list \<Rightarrow> Elf32_Ehdr" where
  "get_Ehdr b = \<lparr>e_ident = slice b 0 16, e_type = get16 b 16, e_machine = get16 b 18, e_version = get32 b 20,
     e_entry = get32 b 24, e_phoff = get32 b 28, e_shoff = get32 b 32, e_flags = get32 b 36, e_ehsize = get16 b 40,
     e_phentsize = get16 b 42, e_phnum = get16 b 44, e_shentsize = get16 b 46, e_shnum = get16 b 48, e_shstrndx = get16 b 50\<rparr>"

definition get_Phdr :: "char list \<Rightarrow> Elf32_Phdr" where
  "get_Phdr b = \<lparr>p_type = get32 b 0, p_offset = get32 b 4, p_vaddr = get32 b 8, p_paddr = get32 b 12,
     p_filesz = get32 b 16, p_memsz = get32 b 20, p_flags = get32 b 24, p_align = get32 b 28\<rparr>"

definition ident_byte :: "Elf32_Ehdr \<Rightarrow> nat \<Rightarrow> nat" where
  "ident_byte h i = of_char (e_ident h ! i)"

subsection \<open>The parser\<close>

text \<open>
  The six checks of the file header.  The union of \<^verbatim>\<open>e_ident\<close> is the list of its bytes; its member
  \<^verbatim>\<open>i\<close> is the first word.
\<close>

definition ehdr_accepted :: "Elf32_Ehdr \<Rightarrow> bool" where
  "ehdr_accepted h \<longleftrightarrow>
     \<not> dec32 (take 4 (e_ident h)) \<noteq> ELF_MAGIC \<and>
     \<not> (ident_byte h EI_CLASS \<noteq> ELFCLASS32 \<or> ident_byte h EI_DATA \<noteq> ELFDATA2MSB \<or> e_machine h \<noteq> EM_MIPS) \<and>
     \<not> (e_version h \<noteq> of_nat EV_CURRENT \<or> ident_byte h EI_VERSION \<noteq> EV_CURRENT) \<and>
     \<not> e_type h \<noteq> ET_EXEC \<and>
     \<not> e_phnum h = 0"

text \<open>The \<^verbatim>\<open>switch\<close> on one program header; \<open>None\<close> is its \<^verbatim>\<open>return 0\<close>.\<close>

definition program_header :: "Elf32_Phdr \<Rightarrow> int \<times> elf_info_t \<Rightarrow> (int \<times> elf_info_t) option" where
  "program_header h = (\<lambda>(segs, elf).
     if p_type h = PT_NULL \<or> p_type h = PT_NOTE \<or> p_type h = PT_PHDR then Some (segs, elf)
     else if p_type h = PT_LOAD then
       if p_flags h AND PF_W \<noteq> 0 then
         if segs AND SEG_RW \<noteq> 0 then None
         else Some (segs OR SEG_RW, elf\<lparr>rw_location := p_offset h, rw_size := p_filesz h, rw_vaddr := p_vaddr h,
                rw_pages := (p_memsz h + PAGE_SIZE - 1) div PAGE_SIZE\<rparr>)
       else
         if segs AND SEG_RO \<noteq> 0 then None
         else Some (segs OR SEG_RO, elf\<lparr>ro_location := p_offset h, ro_size := p_filesz h, ro_vaddr := p_vaddr h,
                ro_pages := (p_memsz h + PAGE_SIZE - 1) div PAGE_SIZE\<rparr>)
     else None)"

text \<open>
  The loop over the program headers, with \<open>n\<close> headers to go, and the function.  The headers are
  read into local variables, whose old contents do not matter when all bytes are read.
\<close>

fun program_headers ::
  "'w fs_ops \<Rightarrow> int \<Rightarrow> nat \<Rightarrow> int \<Rightarrow> int \<Rightarrow> elf_info_t \<Rightarrow> 'w vfs \<Rightarrow> ((int \<times> elf_info_t) \<times> 'w vfs) kres" where
  "program_headers ops fd 0 current_position segs elf v = Inr ((if segs > 0 then 1 else 0, elf), v)"
| "program_headers ops fd (Suc n) current_position segs elf v =
     bindE (vfs_read ops fd (replicate sizeof_Phdr NUL) (int sizeof_Phdr) v) (\<lambda>((r, buf), v).
     if r \<noteq> int sizeof_Phdr then Inr ((0, elf), v)
     else case program_header (get_Phdr buf) (segs, elf) of None \<Rightarrow> Inr ((0, elf), v)
     | Some (segs, elf) \<Rightarrow>
         let current_position = wrap32 (current_position + int sizeof_Phdr) in
         bindE (vfs_seek fd current_position v) (\<lambda>(_, v).
         program_headers ops fd n current_position segs elf v))"

definition zero_elf :: elf_info_t where
  "zero_elf = \<lparr>entry_point = 0, ro_location = 0, ro_size = 0, ro_pages = 0, ro_vaddr = 0,
     rw_location = 0, rw_size = 0, rw_pages = 0, rw_vaddr = 0\<rparr>"

definition elf_parse_header :: "'w fs_ops \<Rightarrow> elf_info_t \<Rightarrow> int \<Rightarrow> 'w vfs \<Rightarrow> ((int \<times> elf_info_t) \<times> 'w vfs) kres" where
  "elf_parse_header ops elf fd v =
     bindE (vfs_read ops fd (replicate sizeof_Ehdr NUL) (int sizeof_Ehdr) v) (\<lambda>((r, buf), v).
     if r \<noteq> int sizeof_Ehdr then Inr ((0, elf), v)
     else
       let elf_hdr = get_Ehdr buf in
       if \<not> ehdr_accepted elf_hdr then Inr ((0, elf), v)
       else
         let elf = zero_elf\<lparr>entry_point := e_entry elf_hdr\<rparr>;
             current_position = sint (e_phoff elf_hdr) in
         bindE (vfs_seek fd current_position v) (\<lambda>(_, v).
         program_headers ops fd (unat (e_phnum elf_hdr)) current_position 0 elf v))"

subsection \<open>What an executable file is\<close>

text \<open>
  The contents of an executable: the program headers it lists lie in the file, all are of a known
  type, and of the segments to load at most one is writable, at most one is not, and there is one.
\<close>

definition phdrs :: "char list \<Rightarrow> nat \<Rightarrow> nat \<Rightarrow> Elf32_Phdr list" where
  "phdrs c pos n = map (\<lambda>i. get_Phdr (slice c (pos + sizeof_Phdr * i) sizeof_Phdr)) [0..<n]"

definition writable_segments :: "Elf32_Phdr list \<Rightarrow> Elf32_Phdr list" where
  "writable_segments = filter (\<lambda>h. p_type h = PT_LOAD \<and> p_flags h AND PF_W \<noteq> 0)"

definition readonly_segments :: "Elf32_Phdr list \<Rightarrow> Elf32_Phdr list" where
  "readonly_segments = filter (\<lambda>h. p_type h = PT_LOAD \<and> p_flags h AND PF_W = 0)"

fun with_rw :: "Elf32_Phdr list \<Rightarrow> elf_info_t \<Rightarrow> elf_info_t" where
  "with_rw [] elf = elf"
| "with_rw (h # hs) elf = elf\<lparr>rw_location := p_offset h, rw_size := p_filesz h, rw_vaddr := p_vaddr h,
     rw_pages := (p_memsz h + PAGE_SIZE - 1) div PAGE_SIZE\<rparr>"

fun with_ro :: "Elf32_Phdr list \<Rightarrow> elf_info_t \<Rightarrow> elf_info_t" where
  "with_ro [] elf = elf"
| "with_ro (h # hs) elf = elf\<lparr>ro_location := p_offset h, ro_size := p_filesz h, ro_vaddr := p_vaddr h,
     ro_pages := (p_memsz h + PAGE_SIZE - 1) div PAGE_SIZE\<rparr>"

definition good_phdrs :: "Elf32_Phdr list \<Rightarrow> bool" where
  "good_phdrs hs \<longleftrightarrow> (\<forall>h \<in> set hs. p_type h \<in> {PT_NULL, PT_LOAD, PT_NOTE, PT_PHDR}) \<and>
     length (writable_segments hs) \<le> 1 \<and> length (readonly_segments hs) \<le> 1"

definition executable_info :: "char list \<Rightarrow> elf_info_t option" where
  "executable_info c =
     (let h = get_Ehdr c; pos = unat (e_phoff h); n = unat (e_phnum h); hs = phdrs c pos n
      in if sizeof_Ehdr \<le> length c \<and> ehdr_accepted h \<and> pos + sizeof_Phdr * n \<le> length c \<and> good_phdrs hs \<and>
            (writable_segments hs \<noteq> [] \<or> readonly_segments hs \<noteq> [])
         then Some (with_rw (writable_segments hs) (with_ro (readonly_segments hs) (zero_elf\<lparr>entry_point := e_entry h\<rparr>)))
         else None)"

subsection \<open>The loop as a function of the headers\<close>

fun scan_phdrs :: "Elf32_Phdr list \<Rightarrow> int \<times> elf_info_t \<Rightarrow> (int \<times> elf_info_t) option" where
  "scan_phdrs [] st = Some st"
| "scan_phdrs (h # hs) st = Option.bind (program_header h st) (scan_phdrs hs)"

lemma phdrs_simps [simp]: "phdrs c pos 0 = []"
  "phdrs c pos (Suc n) = get_Phdr (slice c pos sizeof_Phdr) # phdrs c (pos + sizeof_Phdr) n"
  by (simp_all add: phdrs_def map_upt_Suc add.assoc del: upt_Suc)

lemma segments_simps [simp]:
  "writable_segments [] = []" "readonly_segments [] = []"
  "writable_segments (h # hs) = (if p_type h = PT_LOAD \<and> p_flags h AND PF_W \<noteq> 0 then h # writable_segments hs else writable_segments hs)"
  "readonly_segments (h # hs) = (if p_type h = PT_LOAD \<and> p_flags h AND PF_W = 0 then h # readonly_segments hs else readonly_segments hs)"
  by (simp_all add: writable_segments_def readonly_segments_def)

definition seg_bits :: "bool \<Rightarrow> bool \<Rightarrow> int" where
  "seg_bits w r = (if w then SEG_RW else 0) + (if r then SEG_RO else 0)"

lemma seg_bits_simps [simp]:
  "seg_bits w r AND SEG_RW \<noteq> 0 \<longleftrightarrow> w" "seg_bits w r AND SEG_RO \<noteq> 0 \<longleftrightarrow> r"
  "seg_bits False r OR SEG_RW = seg_bits True r" "seg_bits w False OR SEG_RO = seg_bits w True"
  "seg_bits False False = 0" "seg_bits w r > 0 \<longleftrightarrow> w \<or> r"
  by (cases w; cases r; simp add: seg_bits_def)+

lemma with_rw_ro: "with_ro rs (with_rw ws elf) = with_rw ws (with_ro rs elf)"
  by (cases ws; cases rs) simp_all

lemma scan_phdrs_eq:
  "scan_phdrs hs (seg_bits w r, elf) =
     (if (\<forall>h \<in> set hs. p_type h \<in> {PT_NULL, PT_LOAD, PT_NOTE, PT_PHDR}) \<and>
         length (writable_segments hs) \<le> (if w then 0 else 1) \<and> length (readonly_segments hs) \<le> (if r then 0 else 1)
      then Some (seg_bits (w \<or> writable_segments hs \<noteq> []) (r \<or> readonly_segments hs \<noteq> []),
             with_rw (writable_segments hs) (with_ro (readonly_segments hs) elf))
      else None)"
proof (induction hs arbitrary: w r elf)
  case (Cons h hs)
  consider (skip) "p_type h = PT_NULL \<or> p_type h = PT_NOTE \<or> p_type h = PT_PHDR"
    | (rw) "p_type h = PT_LOAD" "p_flags h AND PF_W \<noteq> 0" | (ro) "p_type h = PT_LOAD" "p_flags h AND PF_W = 0"
    | (bad) "p_type h \<notin> {PT_NULL, PT_LOAD, PT_NOTE, PT_PHDR}" by auto
  then show ?case
  proof cases
    case skip
    then show ?thesis by (auto simp: program_header_def Cons.IH)
  next
    case rw
    then show ?thesis by (auto simp: program_header_def Cons.IH with_rw_ro [of _ "[h]", simplified])
  next
    case ro
    then show ?thesis by (auto simp: program_header_def Cons.IH)
  next
    case bad
    then show ?thesis by (simp add: program_header_def)
  qed
qed simp

end
