(* ===== verification/Elf_Spec.thy ===== *)
theory Elf_Spec
  imports Elf
begin

text \<open>
  \<^verbatim>\<open>elf_parse_header\<close> computes what the contents of the file say: the interface it needs of an open
  file, the proof over this interface, and the open files of the virtual file system on a volume of
  the trivial file system as an instance.
\<close>

subsection \<open>An open file\<close>

text \<open>
  An open file \<open>fd\<close> with contents \<open>c\<close>, where \<open>at p v\<close> says that the file is at position \<open>p\<close>:
  a read inside the file gives its bytes and moves on, a read that goes beyond the end does not give the number asked for,
  and every position can be sought.
\<close>

text \<open>What the loop returns in state \<open>st\<close> of the scan, and from headers that may end outside the file.\<close>

definition loop_result :: "(int \<times> elf_info_t) option \<Rightarrow> int \<times> elf_info_t \<Rightarrow> bool" where
  "loop_result st = (\<lambda>(r, elf). case st of None \<Rightarrow> r = 0 | Some (segs, e) \<Rightarrow> r = (if segs > 0 then 1 else 0) \<and> elf = e)"

definition scan_file :: "char list \<Rightarrow> nat \<Rightarrow> nat \<Rightarrow> int \<times> elf_info_t \<Rightarrow> (int \<times> elf_info_t) option" where
  "scan_file c pos n st = (if pos + sizeof_Phdr * n \<le> length c then scan_phdrs (phdrs c pos n) st else None)"

lemma loop_result_simps [simp]: "loop_result None (r, elf) \<longleftrightarrow> r = 0"
  "loop_result (Some (segs, e)) (r, elf) \<longleftrightarrow> r = (if segs > 0 then 1 else 0) \<and> elf = e"
  by (simp_all add: loop_result_def)

lemma scan_file_0: "pos \<le> length c \<Longrightarrow> scan_file c pos 0 st = Some st"
  by (simp add: scan_file_def)

lemma scan_file_Suc: "scan_file c pos (Suc n) st = (if pos + sizeof_Phdr \<le> length c
     then Option.bind (program_header (get_Phdr (slice c pos sizeof_Phdr)) st) (scan_file c (pos + sizeof_Phdr) n) else None)"
  by (auto simp: scan_file_def fun_eq_iff bind_eq_None_conv split: option.splits bind_split)

lemma get_Ehdr_take: "get_Ehdr (take sizeof_Ehdr b) = get_Ehdr b"
  by (simp add: get_Ehdr_def get16_def get32_def slice_take)

lemma executable_info_scan: "executable_info c =
    (let h = get_Ehdr c in
     if sizeof_Ehdr \<le> length c \<and> ehdr_accepted h
     then case scan_file c (unat (e_phoff h)) (unat (e_phnum h)) (0, zero_elf\<lparr>entry_point := e_entry h\<rparr>) of None \<Rightarrow> None
       | Some (segs, elf) \<Rightarrow> if segs > 0 then Some elf else None
     else None)"
  using scan_phdrs_eq [where w = False and r = False]
  by (auto simp: executable_info_def scan_file_def good_phdrs_def Let_def)

locale byte_file =
  fixes ops :: "'w fs_ops" and fd :: int and c :: "char list" and at :: "nat \<Rightarrow> 'w vfs \<Rightarrow> bool"
  assumes read_inside: "at p v \<Longrightarrow> k \<le> length buf \<Longrightarrow> p + k \<le> length c \<Longrightarrow>
      returns (\<lambda>((r, b), v'). r = int k \<and> b = slice c p k @ drop k buf \<and> at (p + k) v') (vfs_read ops fd buf (int k) v)"
    and read_outside: "at p v \<Longrightarrow> k \<le> length buf \<Longrightarrow> length c < p + k \<Longrightarrow>
      returns (\<lambda>((r, b), v'). r \<noteq> int k \<and> (\<exists>q. at q v')) (vfs_read ops fd buf (int k) v)"
    and seek_to: "at p v \<Longrightarrow> returns (\<lambda>(r, v'). r = VFS_OK \<and> at q v') (vfs_seek fd (int q) v)"
begin

lemma program_headers_ok:
  assumes "at pos v" "pos + sizeof_Phdr * n < 2 ^ 31" "n = 0 \<Longrightarrow> pos \<le> length c"
  shows "returns (\<lambda>(res, v'). (\<exists>q. at q v') \<and> loop_result (scan_file c pos n (segs, elf)) res)
     (program_headers ops fd n (int pos) segs elf v)"
  using assms
proof (induction n arbitrary: pos segs elf v)
  case 0
  then show ?case by (auto simp: scan_file_0)
next
  case (Suc n)
  show ?case
  proof (cases "pos + sizeof_Phdr \<le> length c")
    case True
    have wrap: "wrap32 (int pos + int sizeof_Phdr) = int (pos + sizeof_Phdr)"
      using Suc.prems(2) by (subst wrap32_small) auto
    have step: "returns (\<lambda>((r, b), v'). r = int sizeof_Phdr \<and> b = slice c pos sizeof_Phdr \<and> at (pos + sizeof_Phdr) v')
        (vfs_read ops fd (replicate sizeof_Phdr NUL) (int sizeof_Phdr) v)"
      using read_inside [OF Suc.prems(1), of sizeof_Phdr "replicate sizeof_Phdr NUL"] True
      by (auto elim!: returns_mono)
    have rest: "returns (\<lambda>(res, v'). (\<exists>q. at q v') \<and> loop_result (scan_file c (pos + sizeof_Phdr) n (segs', e)) res)
        (bindE (vfs_seek fd (int (pos + sizeof_Phdr)) v1) (\<lambda>(_, v). program_headers ops fd n (int (pos + sizeof_Phdr)) segs' e v))"
      if "at (pos + sizeof_Phdr) v1" for v1 segs' e
      unfolding returns_bind using seek_to [OF that, of "pos + sizeof_Phdr"]
    proof (rule returns_mono)
      fix x assume "case x of (r, v') \<Rightarrow> r = VFS_OK \<and> at (pos + sizeof_Phdr) v'"
      then obtain u where u: "x = (VFS_OK, u)" "at (pos + sizeof_Phdr) u" by (cases x) auto
      from Suc.IH [OF u(2), of segs' e] Suc.prems(2) True
      show "returns (\<lambda>(res, v'). (\<exists>q. at q v') \<and> loop_result (scan_file c (pos + sizeof_Phdr) n (segs', e)) res)
        (case x of (_, v) \<Rightarrow> program_headers ops fd n (int (pos + sizeof_Phdr)) segs' e v)"
        by (simp add: u(1))
    qed
    show ?thesis
      unfolding program_headers.simps returns_bind using step
    proof (rule returns_mono, goal_cases)
      case (1 x)
      then obtain v1 where v1: "x = ((int sizeof_Phdr, slice c pos sizeof_Phdr), v1)" "at (pos + sizeof_Phdr) v1" by (cases x) auto
      show ?case
      proof (cases "program_header (get_Phdr (slice c pos sizeof_Phdr)) (segs, elf)")
        case None
        with v1 True show ?thesis by (auto simp: scan_file_Suc)
      next
        case (Some st)
        obtain s' e where "st = (s', e)" by (cases st)
        with Some rest [OF v1(2), of s' e] True show ?thesis
          unfolding v1(1) Let_def wrap scan_file_Suc by simp
      qed
    qed
  next
    case False
    then have "returns (\<lambda>((r, b), v'). r \<noteq> int sizeof_Phdr \<and> (\<exists>q. at q v')) (vfs_read ops fd (replicate sizeof_Phdr NUL) (int sizeof_Phdr) v)"
      using read_outside [OF Suc.prems(1), of sizeof_Phdr "replicate sizeof_Phdr NUL"] by simp
    then show ?thesis
      unfolding program_headers.simps returns_bind by (rule returns_mono) (use False in \<open>auto simp: scan_file_Suc\<close>)
  qed
qed

text \<open>The bound keeps the positions of the program headers from wrapping around to negative numbers.\<close>

lemma parse_ok:
  assumes "at 0 v" "unat (e_phoff (get_Ehdr c)) + sizeof_Phdr * unat (e_phnum (get_Ehdr c)) < 2 ^ 31"
  shows "returns (\<lambda>((r, info), v'). (\<exists>q. at q v') \<and> (case executable_info c of None \<Rightarrow> r = 0 | Some i \<Rightarrow> r = 1 \<and> info = i))
    (elf_parse_header ops elf fd v)"
proof (cases "sizeof_Ehdr \<le> length c")
  case True
  let ?h = "get_Ehdr c"
  let ?e = "zero_elf\<lparr>entry_point := e_entry ?h\<rparr>"
  have pos: "sint (e_phoff ?h) = int (unat (e_phoff ?h))" using assms(2) by (simp add: sint_small)
  have step: "returns (\<lambda>((r, b), v'). r = int sizeof_Ehdr \<and> get_Ehdr b = ?h \<and> at sizeof_Ehdr v')
      (vfs_read ops fd (replicate sizeof_Ehdr NUL) (int sizeof_Ehdr) v)"
    using read_inside [OF assms(1), of sizeof_Ehdr "replicate sizeof_Ehdr NUL"] True
    by (auto elim!: returns_mono simp: slice_def get_Ehdr_take)
  have loop: "returns (\<lambda>((r, info), v'). (\<exists>q. at q v') \<and> (case executable_info c of None \<Rightarrow> r = 0 | Some i \<Rightarrow> r = 1 \<and> info = i))
      (program_headers ops fd (unat (e_phnum ?h)) (int (unat (e_phoff ?h))) 0 ?e u)"
    if "at (unat (e_phoff ?h)) u" "ehdr_accepted ?h" for u
    by (rule returns_mono [OF program_headers_ok [OF that(1) assms(2)]])
      (use that(2) True in \<open>auto simp: executable_info_scan Let_def ehdr_accepted_def unat_eq_zero split: option.splits\<close>)
  show ?thesis
    unfolding elf_parse_header_def returns_bind using step
  proof (rule returns_mono, goal_cases)
    case (1 x)
    then obtain b v1 where x: "x = ((int sizeof_Ehdr, b), v1)" "get_Ehdr b = ?h" "at sizeof_Ehdr v1" by (cases x) auto
    show ?case
    proof (cases "ehdr_accepted ?h")
      case False
      then have "executable_info c = None" by (auto simp: executable_info_def Let_def)
      with False x show ?thesis by auto
    next
      case acc: True
      have "returns (\<lambda>((r, info), v'). (\<exists>q. at q v') \<and> (case executable_info c of None \<Rightarrow> r = 0 | Some i \<Rightarrow> r = 1 \<and> info = i))
          (bindE (vfs_seek fd (int (unat (e_phoff ?h))) v1) (\<lambda>(_, v). program_headers ops fd (unat (e_phnum ?h)) (int (unat (e_phoff ?h))) 0 ?e v))"
        unfolding returns_bind using seek_to [OF x(3), of "unat (e_phoff ?h)"]
        by (rule returns_mono) (use loop acc in auto)
      with acc x show ?thesis by (simp add: pos Let_def)
    qed
  qed
next
  case False
  then have "returns (\<lambda>((r, b), v'). r \<noteq> int sizeof_Ehdr \<and> (\<exists>q. at q v')) (vfs_read ops fd (replicate sizeof_Ehdr NUL) (int sizeof_Ehdr) v)"
    using read_outside [OF assms(1), of sizeof_Ehdr "replicate sizeof_Ehdr NUL"] by simp
  moreover have "executable_info c = None" using False by (auto simp: executable_info_def Let_def)
  ultimately show ?thesis
    unfolding elf_parse_header_def returns_bind by (auto elim!: returns_mono)
qed

end

subsection \<open>Files of the trivial file system\<close>

context block_device
begin

lemma read_beyond:
  assumes "ready dev_ok blk nblocks T t" "file_id (blk (disk t)) name = Some n" "contents blk t name = Some c" "length c < offset"
  shows "returns (\<lambda>(r, buf', t'). r = VFS_ERROR \<and> ready dev_ok blk nblocks T t' \<and> blk (disk t') = blk (disk t))
    (tfs_read g (int n) buf (int bufsize) (int offset) t)"
proof -
  have V: "mounted T t" "lock t = 1" "volume_ok T (blk (disk t))" using readyD [OF assms(1)] by simp_all
  obtain i where i: "entry_used (blk (disk t)) i" "n = entry_inode (blk (disk t)) i" "c = file_at (blk (disk t)) n"
    using file_idD [OF V(3) assms(2)] assms(3) by (metis contents_def option.inject)
  note f = file_facts [OF V(1,3) i(1,2)]
  have n: "n < T" "2 < n" "unat (word_of_nat n :: uint32) = n"
    using f(1) mountedD(9) [OF V(1)] by (auto simp: readable_def unat_of_nat_small)
  have sz: "sint (filesize (blk (disk t) n)) = int (length c)" using f(2,3) i(3) by (simp add: sint_small)
  show ?thesis
    unfolding tfs_read_def tfs_lock_def Let_def
    using V n mountedD(8) [OF V(1)] sz assms(4) by (auto intro!: returns_read_inode simp: ready_def)
qed

lemma read_file_blocks:
  assumes "ready dev_ok blk nblocks T t" "file_id (blk (disk t)) name = Some n" "contents blk t name = Some c"
    "offset \<le> length c" "m = min bufsize (length c - offset)" "m \<le> length buf"
  shows "returns (\<lambda>(r, buf', t'). r = int m \<and> buf' = slice c offset m @ drop m buf \<and>
      ready dev_ok blk nblocks T t' \<and> blk (disk t') = blk (disk t))
    (tfs_read g (int n) buf (int bufsize) (int offset) t)"
proof -
  have V: "mounted T t" "lock t = 1" "volume_ok T (blk (disk t))" using readyD [OF assms(1)] by simp_all
  obtain i where i: "entry_used (blk (disk t)) i" "n = entry_inode (blk (disk t)) i" "c = file_at (blk (disk t)) n"
    using file_idD [OF V(3) assms(2)] assms(3) by (metis contents_def option.inject)
  note f = file_facts [OF V(1,3) i(1,2)]
  have "length (slice c offset m) = m" using assms(4,5) by (simp add: slice_def)
  then have "splice_at buf 0 (slice c offset m) = slice c offset m @ drop m buf" by (simp add: splice_at_def)
  then show ?thesis
    using read_ok [OF V(1,2) f(1), of offset m bufsize buf] f(2,3) assms(4-6) i(3) V(3)
    by (auto simp: read_post_def ready_def elim!: returns_mono)
qed

end

text \<open>
  Descriptor \<open>fd\<close> is the file \<open>name\<close> of the volume \<open>f\<close>, with contents \<open>c\<close> and at position \<open>p\<close>; \<open>B\<close> is what
  the volume holds.
\<close>

definition tfs_file_at ::
  "'d gbd \<Rightarrow> ('d \<Rightarrow> bool) \<Rightarrow> ('d \<Rightarrow> nat \<Rightarrow> block) \<Rightarrow> nat \<Rightarrow> nat \<Rightarrow> (nat \<Rightarrow> block) \<Rightarrow> fs \<Rightarrow> string \<Rightarrow> char list \<Rightarrow> nat \<Rightarrow> nat \<Rightarrow> ('d, 'a) volumes vfs \<Rightarrow> bool"
where
  "tfs_file_at g ok blk N T B f name c fd p v \<longleftrightarrow> block_device g ok blk N \<and> vfs_free v \<and>
     ready ok blk N T (volume_of v f) \<and> blk (disk (volume_of v f)) = B \<and> length c < 2 ^ 31 \<and>
     contents blk (volume_of v f) name = Some c \<and> (\<exists>n. file_id B name = Some n \<and> opened v fd f (int n) (int p))"

lemma vfs_read_none:
  assumes "vfs_free v" "opened v fd f i pos" "n \<ge> 0" "fs_read ops f i buf n pos (drivers v) = Inr (r, buf', w)" "r \<le> 0"
  shows "vfs_read ops (int fd) buf n v = Inr ((r, buf'), v\<lparr>drivers := w\<rparr>)"
proof -
  note V = vfs_freeD [OF assms(1)]
  let ?v = "v\<lparr>vfs_ops := vfs_ops v + 1\<rparr>"
  have "vfs_verify_open (int fd) ?v = Inr (f, openfiles v ! fd)"
    using verify_open_run [of ?v fd f i pos] assms(2) V(7) by (simp add: opened_def)
  then show ?thesis
    using V(1-5) assms(2-5) by (simp add: vfs_read_def vfs_op_run [OF assms(1)] vfs_run opened_def advance_def)
qed

lemma fs_read_tfs:
  assumes "tfs_read g i buf n pos (volume_of v f) = Inr (r, buf', t)"
  shows "fs_read (tfs_ops g) f i buf n pos (drivers v) = Inr (r, buf', (fst (drivers v))(f := t), snd (drivers v))"
  using on_fs_run [where f = "\<lambda>t. with_buffer (tfs_read g i buf n pos t)" and w = "drivers v" and fs = f]
  by (simp add: tfs_ops_def with_buffer_def assms)

lemma tfs_file_read:
  assumes "tfs_file_at g ok blk N T B f name c fd p v" "p \<le> length c" "m = min k (length c - p)" "m \<le> length buf"
  shows "returns (\<lambda>((r, b), v'). r = int m \<and> b = slice c p m @ drop m buf \<and> tfs_file_at g ok blk N T B f name c fd (p + m) v')
    (vfs_read (tfs_ops g) (int fd) buf (int k) v)"
proof -
  obtain n where A: "block_device g ok blk N" "vfs_free v" "ready ok blk N T (volume_of v f)" "blk (disk (volume_of v f)) = B"
    "length c < 2 ^ 31" "contents blk (volume_of v f) name = Some c" "file_id B name = Some n" "opened v fd f (int n) (int p)"
    using assms(1) by (auto simp: tfs_file_at_def)
  obtain t where t: "tfs_read g (int n) buf (int k) (int p) (volume_of v f) = Inr (int m, slice c p m @ drop m buf, t)"
    "ready ok blk N T t" "blk (disk t) = B"
    using block_device.read_file_blocks [OF A(1,3) _ A(6), of n p m k buf] A(4,7) assms(2-4) by (auto simp: returns_def)
  have w: "wrap32 (int p + int m) = int p + int m" using assms(2,3) A(5) by (intro wrap32_small) simp_all
  note run = vfs_read_run [OF A(2,8) _ fs_read_tfs [OF t(1)] _ w]
  from run have eq: "vfs_read (tfs_ops g) (int fd) buf (int k) v = Inr ((int m, slice c p m @ drop m buf),
     v\<lparr>drivers := ((fst (drivers v))(f := t), snd (drivers v)),
     openfiles := (openfiles v)[fd := \<lparr>of_filesystem = Some f, of_fileid = int n, of_seek_position = int p + int m\<rparr>]\<rparr>)" by simp
  have "vfs_free (v\<lparr>drivers := ((fst (drivers v))(f := t), snd (drivers v)),
     openfiles := (openfiles v)[fd := \<lparr>of_filesystem = Some f, of_fileid = int n, of_seek_position = int p + int m\<rparr>]\<rparr>)"
    by (rule keeps_freeD(5) [OF A(2) eq])
  then show ?thesis
    unfolding eq using A t(2,3) vfs_freeD(7) [OF A(2)] by (auto simp: tfs_file_at_def opened_def contents_def)
qed

lemma tfs_file_read_beyond:
  assumes "tfs_file_at g ok blk N T B f name c fd p v" "length c < p"
  shows "returns (\<lambda>((r, b), v'). r = VFS_ERROR \<and> tfs_file_at g ok blk N T B f name c fd p v') (vfs_read (tfs_ops g) (int fd) buf (int k) v)"
proof -
  obtain n where A: "block_device g ok blk N" "vfs_free v" "ready ok blk N T (volume_of v f)" "blk (disk (volume_of v f)) = B"
    "length c < 2 ^ 31" "contents blk (volume_of v f) name = Some c" "file_id B name = Some n" "opened v fd f (int n) (int p)"
    using assms(1) by (auto simp: tfs_file_at_def)
  obtain b t where t: "tfs_read g (int n) buf (int k) (int p) (volume_of v f) = Inr (VFS_ERROR, b, t)"
    "ready ok blk N T t" "blk (disk t) = B"
    using block_device.read_beyond [OF A(1,3) _ A(6), of n p buf k] A(4,7) assms(2) by (auto simp: returns_def)
  have eq: "vfs_read (tfs_ops g) (int fd) buf (int k) v = Inr ((VFS_ERROR, b), v\<lparr>drivers := ((fst (drivers v))(f := t), snd (drivers v))\<rparr>)"
    by (rule vfs_read_none [OF A(2,8) _ fs_read_tfs [OF t(1)]]) (simp_all add: VFS_ERROR_def)
  have "vfs_free (v\<lparr>drivers := ((fst (drivers v))(f := t), snd (drivers v))\<rparr>)" by (rule keeps_freeD(5) [OF A(2) eq])
  then show ?thesis unfolding eq using A t(2,3) by (auto simp: tfs_file_at_def opened_def contents_def)
qed

lemma tfs_file_seek:
  assumes "tfs_file_at g ok blk N T B f name c fd p v"
  shows "returns (\<lambda>(r, v'). r = VFS_OK \<and> tfs_file_at g ok blk N T B f name c fd q v') (vfs_seek (int fd) (int q) v)"
proof -
  obtain n where A: "vfs_free v" "opened v fd f (int n) (int p)" "file_id B name = Some n"
    using assms by (auto simp: tfs_file_at_def)
  have eq: "vfs_seek (int fd) (int q) v = Inr (VFS_OK, v\<lparr>openfiles := (openfiles v)[fd := \<lparr>of_filesystem = Some f, of_fileid = int n, of_seek_position = int q\<rparr>]\<rparr>)"
    by (rule vfs_seek_run [OF A(1,2)]) simp
  have "vfs_free (v\<lparr>openfiles := (openfiles v)[fd := \<lparr>of_filesystem = Some f, of_fileid = int n, of_seek_position = int q\<rparr>]\<rparr>)"
    by (rule keeps_freeD(4) [OF A(1) eq])
  then show ?thesis unfolding eq using assms A vfs_freeD(7) [OF A(1)] by (auto simp: tfs_file_at_def opened_def)
qed

interpretation tfs_file: byte_file "tfs_ops g" "int fd" c "tfs_file_at g ok blk N T B f name c fd"
  for g ok blk N T B f name c fd
proof
  fix p :: nat and v :: "('a, 'b) volumes vfs" and k :: nat and buf :: "char list"
  assume at: "tfs_file_at g ok blk N T B f name c fd p v" and k: "k \<le> length buf"
  show "returns (\<lambda>((r, b), v'). r = int k \<and> b = slice c p k @ drop k buf \<and> tfs_file_at g ok blk N T B f name c fd (p + k) v')
      (vfs_read (tfs_ops g) (int fd) buf (int k) v)" if "p + k \<le> length c"
    using tfs_file_read [OF at, of k k buf] k that by simp
  show "returns (\<lambda>((r, b), v'). r \<noteq> int k \<and> (\<exists>q. tfs_file_at g ok blk N T B f name c fd q v'))
      (vfs_read (tfs_ops g) (int fd) buf (int k) v)" if "length c < p + k"
  proof (cases "p \<le> length c")
    case True
    show ?thesis
      by (rule returns_mono [OF tfs_file_read [OF at True refl, of k buf]]) (use k that True in auto)
  next
    case False
    then show ?thesis
      using tfs_file_read_beyond [OF at, of buf k] by (auto elim!: returns_mono simp: VFS_ERROR_def)
  qed
next
  fix p q :: nat and v :: "('a, 'b) volumes vfs"
  assume "tfs_file_at g ok blk N T B f name c fd p v"
  then show "returns (\<lambda>(r, v'). r = VFS_OK \<and> tfs_file_at g ok blk N T B f name c fd q v') (vfs_seek (int fd) (int q) v)"
    by (rule tfs_file_seek)
qed

subsection \<open>Executables on a volume\<close>

lemma contents_small:
  assumes "block_device g ok blk N" "ready ok blk N T t" "contents blk t name = Some c"
  shows "length c < 2 ^ 31"
proof -
  have V: "mounted_on ok N T t" "volume_ok T (blk (disk t))" using readyD [OF assms(2)] by simp_all
  obtain n where n: "file_id (blk (disk t)) name = Some n" using assms(3) by (auto simp: contents_def files_def file_id_def split: option.splits)
  obtain i where i: "entry_used (blk (disk t)) i" "n = entry_inode (blk (disk t)) i" "c = file_at (blk (disk t)) n"
    using file_idD [OF V(2) n] assms(3) by (metis contents_def option.inject)
  from block_device.file_facts(3) [OF assms(1) V i(1,2)] i(3) show ?thesis by simp
qed

lemma tfs_file_open:
  assumes "block_device g ok blk N" "vfs_free v" "vfs_parse_pathname path = Some (vol, name)" "mounted_at v vol f"
    "ready ok blk N T (volume_of v f)" "file_name name" "contents blk (volume_of v f) name = Some c"
    "\<exists>i < CONFIG_MAX_OPEN_FILES. of_filesystem (openfiles v ! i) = None"
  obtains fd B v' where "vfs_open (tfs_ops g) path v = Inr (int fd, v')" "tfs_file_at g ok blk N T B f name c fd 0 v'"
    "files B = contents blk (volume_of v f)"
proof -
  obtain fd n v' where o: "vfs_open (tfs_ops g) path v = Inr (int fd, v')" "opened v' fd f (int n) 0" "filesystems v' = filesystems v"
    "ready ok blk N T (volume_of v' f)" "contents blk (volume_of v' f) = contents blk (volume_of v f)"
    "file_id (blk (disk (volume_of v' f))) name = Some n" by (rule vfs_tfs_open [OF assms])
  have "vfs_free v'" by (rule keeps_freeD(2) [OF assms(2) o(1)])
  moreover have "length c < 2 ^ 31" by (rule contents_small [OF assms(1,5,7)])
  ultimately have at: "tfs_file_at g ok blk N T (blk (disk (volume_of v' f))) f name c fd 0 v'"
    using assms(1,7) o(2,4-6) by (simp add: tfs_file_at_def)
  show ?thesis by (rule that [OF o(1) at]) (use o(5) in \<open>simp add: contents_def\<close>)
qed

lemma tfs_file_contents: "tfs_file_at g ok blk N T B f name c fd p v \<Longrightarrow> contents blk (volume_of v f) = files B \<and> vfs_free v"
  by (simp add: tfs_file_at_def contents_def)


text \<open>
  A small executable for MIPS: a read-only segment of 12 bytes in the file and 5000 in memory, and a writable
  one of 4 and 8.
\<close>

definition sample_header :: "nat list" where
  "sample_header =
     [0x7f, 0x45, 0x4c, 0x46, 1, 2, 1, 0, 0, 0, 0, 0, 0, 0, 0, 0,
      0, 2, 0, 8, 0, 0, 0, 1, 0, 0, 0x20, 0, 0, 0, 0, 52,
      0, 0, 0, 0, 0, 0, 0, 0, 0, 52, 0, 32, 0, 2, 0, 0, 0, 0, 0, 0,
      0, 0, 0, 1, 0, 0, 0, 116, 0, 0, 0x20, 0, 0, 0, 0, 0,
      0, 0, 0, 12, 0, 0, 0x13, 0x88, 0, 0, 0, 5, 0, 0, 0x10, 0,
      0, 0, 0, 1, 0, 0, 0, 128, 0, 0, 0x40, 0, 0, 0, 0, 0,
      0, 0, 0, 4, 0, 0, 0, 8, 0, 0, 0, 6, 0, 0, 0x10, 0]"

definition sample_elf :: "char list" where
  "sample_elf = map char_of sample_header @ ''program code'' @ ''data''"

definition sample_info :: elf_info_t where
  "sample_info = \<lparr>entry_point = 0x2000, ro_location = 116, ro_size = 12, ro_pages = 2, ro_vaddr = 0x2000,
     rw_location = 128, rw_size = 4, rw_pages = 1, rw_vaddr = 0x4000\<rparr>"

lemma sample_elf_length: "length sample_elf = 132"
  by (simp add: sample_elf_def sample_header_def)

lemma dec32_bytes: "dec32 (map char_of ns) = of_nat (foldl (\<lambda>n k. 256 * n + k mod 256) 0 ns)"
  by (simp add: dec32_def foldl_map)

lemma sample_header_length: "length sample_header = 116"
  by (simp add: sample_header_def)

lemma slice_sample: "off + n \<le> 116 \<Longrightarrow> slice sample_elf off n = map char_of (slice sample_header off n)"
  by (simp add: slice_def sample_elf_def take_map drop_map sample_header_length)

lemma get_sample:
  "off + 4 \<le> 116 \<Longrightarrow> get32 sample_elf off = of_nat (foldl (\<lambda>n k. 256 * n + k mod 256) 0 (slice sample_header off 4))"
  "off + 2 \<le> 116 \<Longrightarrow> get16 sample_elf off = ucast (of_nat (foldl (\<lambda>n k. 256 * n + k mod 256) 0 (slice sample_header off 2)) :: uint32)"
  by (simp_all add: get32_def get16_def slice_sample dec32_bytes)

lemma sample_Ehdr:
  "ehdr_accepted (get_Ehdr sample_elf)" "e_phoff (get_Ehdr sample_elf) = 52" "e_phnum (get_Ehdr sample_elf) = 2"
  "e_entry (get_Ehdr sample_elf) = 0x2000"
  by (simp_all add: get_Ehdr_def get_sample ehdr_accepted_def ident_byte_def slice_sample take_map dec32_bytes)
    (simp_all add: sample_header_def slice_def)

lemma sample_phdrs: "phdrs sample_elf 52 2 =
  [\<lparr>p_type = 1, p_offset = 116, p_vaddr = 0x2000, p_paddr = 0, p_filesz = 12, p_memsz = 5000, p_flags = 5, p_align = 4096\<rparr>,
   \<lparr>p_type = 1, p_offset = 128, p_vaddr = 0x4000, p_paddr = 0, p_filesz = 4, p_memsz = 8, p_flags = 6, p_align = 4096\<rparr>]"
  by (simp add: numeral_2_eq_2 get_Phdr_def get32_def slice_slice slice_sample)
    (simp add: sample_header_def slice_def dec32_def)

lemma sample_elf_info: "executable_info sample_elf = Some sample_info"
  by (simp add: executable_info_def Let_def sample_elf_length sample_Ehdr sample_phdrs good_phdrs_def
      sample_info_def zero_elf_def PAGE_SIZE_def)

text \<open>The volume with this executable as its only file, mounted as \<^verbatim>\<open>disk1\<close>.\<close>

lemma sample_executable:
  obtains v :: "(block list, unit) volumes vfs" where "vfs_free v" "mounted_at v ''disk1'' 5" "ready (mem_ok 10) mem_blk 10 10 (volume_of v 5)"
    "contents mem_blk (volume_of v 5) ''prog'' = Some sample_elf" "openfiles v = openfiles (empty_vfs (drivers v))"
proof -
  have n: "file_name ''prog''" by (simp add: file_name_def c_string_def NUL_def)
  obtain t k where t: "ready (mem_ok 10) mem_blk 10 10 t" "contents mem_blk t = [''prog'' \<mapsto> replicate 132 NUL]"
    "file_id (mem_blk (disk t)) ''prog'' = Some k" using sample_file [OF n, of 132] by auto
  obtain t' where t': "ready (mem_ok 10) mem_blk 10 10 t'" "contents mem_blk t' = [''prog'' \<mapsto> sample_elf]"
    using block_device.write_file [OF mem.block_device_axioms t(1,3), of "replicate 132 NUL" 0 132 132 sample_elf] t(2) sample_elf_length
    by (auto simp: returns_def)
  let ?w = "(\<lambda>_. t', sample_kernel) :: (block list, unit) volumes"
  obtain v where "vfs_mount 5 ''disk1'' (empty_vfs ?w) = Inr (VFS_OK, v)" "vfs_free v" "mounted_at v ''disk1'' 5" "drivers v = ?w"
    "openfiles v = openfiles (empty_vfs ?w)" by (rule empty_vfs_mount)
  with t' show ?thesis by (intro that) (simp_all add: empty_vfs_def)
qed

lemma sample_path: "vfs_parse_pathname ''[disk1]prog'' = Some (''disk1'', ''prog'')"
  by (simp add: parse_pathname_iff)


end
