(* ===== verification/Load.thy ===== *)
theory Load
  imports Elf_Spec Syscall_Spec
begin

text \<open>
  Starting a user process, \<^verbatim>\<open>process_start\<close> of \<^verbatim>\<open>proc/process.c\<close>: it creates a page table,
  parses the executable, maps the stack and the segments to fresh pages, clears and fills them through
  their user addresses and enters the program.

  A store of the kernel to a user address goes through the TLB.  The translation is done by the
  processor: it is the parameter \<open>mmu\<close>, a function of the entries of the TLB, the current address space number and the
  address, and the locale \<open>mips_tlb\<close> states what the architecture promises of it.  \<open>phys_mem\<close> is
  the physical memory that user pages live in.
\<close>

type_synonym mmu = "tlb_entry list \<Rightarrow> 8 word \<Rightarrow> uint32 \<Rightarrow> (20 word \<times> bool) option"

record ('w, 'a) loader =
  ld_vfs :: "'w vfs"
  ld_procs :: "'a procs"
  phys_mem :: "uint32 \<Rightarrow> char"

abbreviation ld_kernel :: "('w, 'a) loader \<Rightarrow> 'a sems_scheme" where
  "ld_kernel s \<equiv> kernel (ld_procs s)"

definition CONFIG_USERLAND_STACK_SIZE :: nat where "CONFIG_USERLAND_STACK_SIZE = 1"
definition USERLAND_STACK_TOP :: uint32 where "USERLAND_STACK_TOP = 0x7fffeffc"

definition ld_run :: "('a sems_scheme \<Rightarrow> ('r \<times> 'a sems_scheme) kres) \<Rightarrow> ('w, 'a) loader \<Rightarrow> ('r \<times> ('w, 'a) loader) kres" where
  "ld_run f s = bindE (in_kernel f (ld_procs s)) (\<lambda>(r, p). Inr (r, s\<lparr>ld_procs := p\<rparr>))"

definition ld_do :: "('a sems_scheme \<Rightarrow> 'a sems_scheme kres) \<Rightarrow> ('w, 'a) loader \<Rightarrow> ('w, 'a) loader kres" where
  "ld_do f s = bindE (run_kernel f (ld_procs s)) (\<lambda>p. Inr (s\<lparr>ld_procs := p\<rparr>))"

definition ld_fs :: "('w vfs \<Rightarrow> ('r \<times> 'w vfs) kres) \<Rightarrow> ('w, 'a) loader \<Rightarrow> ('r \<times> ('w, 'a) loader) kres" where
  "ld_fs f s = bindE (f (ld_vfs s)) (\<lambda>(r, v). Inr (r, s\<lparr>ld_vfs := v\<rparr>))"

subsection \<open>Stores to user addresses\<close>

text \<open>The physical address of an address in a page frame.\<close>

definition phys_addr :: "20 word \<Rightarrow> uint32 \<Rightarrow> uint32" where
  "phys_addr pfn a = push_bit 12 (ucast pfn) OR (a AND 0xfff)"

text \<open>
  An access that the TLB does not allow raises an exception of kernel mode; if its handler returned, the access would be
  tried again.  Addresses from 0x80000000 on are not translated: a store there overwrites the kernel.
\<close>

definition access_fault :: "int \<Rightarrow> ('w, 'a) loader \<Rightarrow> ('w, 'a) loader kres" where
  "access_fault ex s = bindE (ld_do (kernel_exception_handle ex) s) (\<lambda>_. Inl Deadlock)"

definition store_byte :: "mmu \<Rightarrow> uint32 \<Rightarrow> char \<Rightarrow> ('w, 'a) loader \<Rightarrow> ('w, 'a) loader kres" where
  "store_byte mmu a b s =
     (if a \<ge> 0x80000000 then Inl Fault
      else case mmu (tlb (ld_kernel s)) (cp0_asid (ld_kernel s)) a of
        None \<Rightarrow> access_fault EXCEPTION_TLBS s
      | Some (pfn, dirty) \<Rightarrow>
          if dirty then Inr (s\<lparr>phys_mem := (phys_mem s)(phys_addr pfn a := b)\<rparr>)
          else access_fault EXCEPTION_TLBM s)"

fun store_bytes :: "mmu \<Rightarrow> uint32 \<Rightarrow> char list \<Rightarrow> ('w, 'a) loader \<Rightarrow> ('w, 'a) loader kres" where
  "store_bytes mmu a [] s = Inr s"
| "store_bytes mmu a (b # bs) s = bindE (store_byte mmu a b s) (store_bytes mmu (a + 1) bs)"

text \<open>\<^verbatim>\<open>memoryset\<close> with the value 0, and \<^verbatim>\<open>vfs_read\<close> into a buffer at a user address.\<close>

definition user_memoryset0 :: "mmu \<Rightarrow> uint32 \<Rightarrow> int \<Rightarrow> ('w, 'a) loader \<Rightarrow> ('w, 'a) loader kres" where
  "user_memoryset0 mmu target sz s = store_bytes mmu target (replicate (nat sz) NUL) s"

definition user_vfs_read :: "mmu \<Rightarrow> 'w fs_ops \<Rightarrow> int \<Rightarrow> uint32 \<Rightarrow> int \<Rightarrow> ('w, 'a) loader \<Rightarrow> (int \<times> ('w, 'a) loader) kres" where
  "user_vfs_read mmu ops fd buffer n s =
     bindE (ld_fs (vfs_read ops fd (replicate (nat n) NUL) n) s) (\<lambda>((r, buf), s).
     bindE (store_bytes mmu buffer (take (nat r) buf) s) (\<lambda>s. Inr (r, s)))"

subsection \<open>Mapping pages\<close>

text \<open>The body of the three loops that map pages, and the bracket around \<^verbatim>\<open>tlb_fill\<close>.\<close>

definition map_user_page :: "uint32 \<Rightarrow> uint32 \<Rightarrow> 'a vmem_scheme \<Rightarrow> 'a vmem_scheme kres" where
  "map_user_page table vaddr k =
     bindE (pagepool_get_phys_page k) (\<lambda>(phys_page, k).
     KERNEL_ASSERT (phys_page \<noteq> 0)
    (bindE (vm_map (pagetable_at k table) phys_page vaddr 1) (\<lambda>pt.
     Inr (k\<lparr>pagetable_at := (pagetable_at k)(table := pt)\<rparr>))))"

definition map_segment :: "uint32 \<Rightarrow> uint32 \<Rightarrow> int \<Rightarrow> 'a vmem_scheme \<Rightarrow> 'a vmem_scheme kres" where
  "map_segment table vaddr pages = for_rangeE 0 (nat pages) (\<lambda>i. map_user_page table (vaddr + of_nat i * PAGE_SIZE))"

definition map_stack :: "uint32 \<Rightarrow> 'a vmem_scheme \<Rightarrow> 'a vmem_scheme kres" where
  "map_stack table = for_rangeE 0 CONFIG_USERLAND_STACK_SIZE
     (\<lambda>i. map_user_page table ((USERLAND_STACK_TOP AND PAGE_SIZE_MASK) - of_nat i * PAGE_SIZE))"

definition reload_tlb :: "uint32 \<Rightarrow> 'a vmem_scheme \<Rightarrow> 'a vmem_scheme kres" where
  "reload_tlb table k =
     (let (intr_status, k) = interrupt_disable k
      in bindE (tlb_fill table k) (\<lambda>k. Inr (interrupt_set_state intr_status k)))"

definition protect_segment :: "uint32 \<Rightarrow> uint32 \<Rightarrow> int \<Rightarrow> 'a vmem_scheme \<Rightarrow> 'a vmem_scheme kres" where
  "protect_segment table vaddr pages = for_rangeE 0 (nat pages) (\<lambda>i k.
     bindE (vm_set_dirty (pagetable_at k table) (vaddr + of_nat i * PAGE_SIZE) 0) (\<lambda>pt.
     Inr (k\<lparr>pagetable_at := (pagetable_at k)(table := pt)\<rparr>)))"

subsection \<open>The start of a process\<close>

text \<open>
  The function in three parts: up to the last mapping, the loading of the segments, and from the
  read-only bits to the first instruction of the program.  The row of the current thread is changed by this thread only, so
  \<^verbatim>\<open>my_entry->pagetable\<close> is \<open>table\<close> throughout.  \<open>ctx\<close> is the address of \<^verbatim>\<open>user_context\<close>.
\<close>

definition start_table :: "int \<Rightarrow> ('w, 'a) loader \<Rightarrow> ((string \<times> uint32) \<times> ('w, 'a) loader) kres" where
  "start_table pid s =
     bindE (ld_run thread_get_current_thread s) (\<lambda>(tid, s).
     bindE (ld_do (tt_upd tid (\<lambda>e. e\<lparr>th_process_id := pid\<rparr>)) s) (\<lambda>s.
     bindE (pt_get pid (ld_procs s)) (\<lambda>row.
     bindE (tt_get tid (ld_kernel s)) (\<lambda>my_entry.
     KERNEL_ASSERT (th_pagetable my_entry = 0)
    (bindE (ld_run (vm_create_pagetable (word_of_int tid)) s) (\<lambda>(table, s).
     KERNEL_ASSERT (table \<noteq> 0)
    (bindE (ld_do (\<lambda>k. let (intr_status, k) = interrupt_disable k
                       in bindE (tt_upd tid (\<lambda>e. e\<lparr>th_pagetable := table\<rparr>) k) (\<lambda>k.
                          Inr (interrupt_set_state intr_status (tlb_set_asid (word_of_int tid) k)))) s) (\<lambda>s.
     Inr ((cstring (executable row), table), s)))))))))"

definition start_map :: "'w fs_ops \<Rightarrow> int \<Rightarrow> ('w, 'a) loader \<Rightarrow> ((uint32 \<times> int \<times> elf_info_t) \<times> ('w, 'a) loader) kres" where
  "start_map ops pid s =
     bindE (start_table pid s) (\<lambda>((exe, table), s).
     bindE (ld_fs (vfs_open ops exe) s) (\<lambda>(fd, s).
     KERNEL_ASSERT (fd \<ge> 0)
    (bindE (ld_fs (elf_parse_header ops zero_elf fd) s) (\<lambda>((r, elf), s).
     KERNEL_ASSERT (r \<noteq> 0)
    (KERNEL_ASSERT (entry_point elf \<ge> PAGE_SIZE)
    (KERNEL_ASSERT (ro_pages elf + rw_pages elf + of_nat CONFIG_USERLAND_STACK_SIZE \<le> of_nat (tlb_get_maxindex (ld_kernel s)) + 1)
    (bindE (ld_do (map_stack table) s) (\<lambda>s.
     bindE (ld_do (reload_tlb table) s) (\<lambda>s.
     bindE (ld_do (map_segment table (ro_vaddr elf) (sint (ro_pages elf))) s) (\<lambda>s.
     bindE (ld_do (map_segment table (rw_vaddr elf) (sint (rw_pages elf))) s) (\<lambda>s.
     Inr ((table, fd, elf), s))))))))))))"

definition copy_segment :: "mmu \<Rightarrow> 'w fs_ops \<Rightarrow> int \<Rightarrow> uint32 \<Rightarrow> uint32 \<Rightarrow> uint32 \<Rightarrow> ('w, 'a) loader \<Rightarrow> ('w, 'a) loader kres" where
  "copy_segment mmu ops fd location vaddr sz s =
     (if sz > 0 then
        KERNEL_ASSERT (vaddr \<ge> PAGE_SIZE)
       (bindE (ld_fs (vfs_seek fd (sint location)) s) (\<lambda>(r, s).
        KERNEL_ASSERT (r = VFS_OK)
       (bindE (user_vfs_read mmu ops fd vaddr (sint sz) s) (\<lambda>(r, s).
        KERNEL_ASSERT (r = sint sz) (Inr s)))))
      else Inr s)"

definition start_load :: "mmu \<Rightarrow> 'w fs_ops \<Rightarrow> int \<Rightarrow> elf_info_t \<Rightarrow> ('w, 'a) loader \<Rightarrow> ('w, 'a) loader kres" where
  "start_load mmu ops fd elf s =
     (let stack_bottom = (USERLAND_STACK_TOP AND PAGE_SIZE_MASK) - (of_nat CONFIG_USERLAND_STACK_SIZE - 1) * PAGE_SIZE in
      bindE (user_memoryset0 mmu (ro_vaddr elf) (sint (ro_pages elf * PAGE_SIZE)) s) (\<lambda>s.
      bindE (user_memoryset0 mmu (rw_vaddr elf) (sint (rw_pages elf * PAGE_SIZE)) s) (\<lambda>s.
      bindE (user_memoryset0 mmu stack_bottom (int CONFIG_USERLAND_STACK_SIZE * uint PAGE_SIZE) s) (\<lambda>s.
      bindE (copy_segment mmu ops fd (ro_location elf) (ro_vaddr elf) (ro_size elf) s) (\<lambda>s.
      copy_segment mmu ops fd (rw_location elf) (rw_vaddr elf) (rw_size elf) s)))))"

definition start_enter :: "uint32 \<Rightarrow> uint32 \<Rightarrow> elf_info_t \<Rightarrow> ('w, 'a) loader \<Rightarrow> ('w, 'a) loader kres" where
  "start_enter ctx table elf s =
     bindE (ld_do (protect_segment table (ro_vaddr elf) (sint (ro_pages elf))) s) (\<lambda>s.
     bindE (ld_do (reload_tlb table) s) (\<lambda>s.
     ld_do (\<lambda>k. Inr (thread_goto_userland ctx
       (context_upd ctx (\<lambda>_. (set_reg MIPS_REGISTER_SP USERLAND_STACK_TOP zero_context)\<lparr>reg_pc := entry_point elf\<rparr>) k))) s))"

definition process_start :: "mmu \<Rightarrow> 'w fs_ops \<Rightarrow> uint32 \<Rightarrow> int \<Rightarrow> ('w, 'a) loader \<Rightarrow> ('w, 'a) loader kres" where
  "process_start mmu ops ctx pid s =
     bindE (start_map ops pid s) (\<lambda>((table, fd, elf), s).
     bindE (start_load mmu ops fd elf s) (start_enter ctx table elf))"

end
