(* ===== verification/Load_Mem.thy ===== *)
theory Load_Mem
  imports Load
begin

text \<open>
  User memory as the processor translates it: what the architecture promises of the TLB, and stores to
  mapped pages as updates of the memory a program sees.
\<close>

subsection \<open>Pages\<close>

definition page_of :: "uint32 \<Rightarrow> nat" where
  "page_of a = unat a div 4096"

lemma same_page_of: "same_page a b \<longleftrightarrow> page_of a = page_of b"
  unfolding same_page_def page_of_def word_unat_eq_iff by (simp add: drop_bit_eq_div unat_div_distrib)

lemma pt_lookup_page: "page_of a = page_of b \<Longrightarrow> pt_lookup pt a = pt_lookup pt b"
  by (auto simp: same_page_of [symmetric] same_page_iff pt_lookup_def entry_translate_def split: option.splits)

lemma page_of_nat: "n < 2 ^ 32 \<Longrightarrow> page_of (of_nat n) = n div 4096"
  by (simp add: page_of_def unat_of_nat_small)

lemma unat_phys_addr: "unat (phys_addr pfn a) = unat pfn * 4096 + unat a mod 4096"
proof -
  have pfn: "unat pfn < 2 ^ 20" using unsigned_less [of pfn, where 'a = nat] by simp
  have low: "a AND 0xfff = take_bit 12 a" by (simp add: take_bit_eq_mask mask_eq_exp_minus_1)
  have "push_bit 12 (ucast pfn :: uint32) AND take_bit 12 a = 0"
    by (rule bit_word_eqI) (auto simp: bit_simps)
  then have "phys_addr pfn a = push_bit 12 (ucast pfn) + take_bit 12 a"
    unfolding phys_addr_def low using word_plus_and_or [of "push_bit 12 (ucast pfn :: uint32)" "take_bit 12 a"] by simp
  moreover have "unat (push_bit 12 (ucast pfn :: uint32)) = unat pfn * 4096"
    using pfn by (simp add: push_bit_eq_mult unat_word_ariths unsigned_ucast_eq take_bit_nat_eq_self)
  moreover have "unat (take_bit 12 a) = unat a mod 4096"
    by (simp add: unsigned_take_bit_eq take_bit_nat_def)
  moreover have "unat pfn * 4096 + unat a mod 4096 < 2 ^ 32" using pfn by simp
  ultimately show ?thesis by (simp add: unat_word_ariths)
qed

lemma quot_rem_eq: "r < 4096 \<Longrightarrow> r' < 4096 \<Longrightarrow> q * 4096 + r = q' * 4096 + r' \<Longrightarrow> q = q' \<and> r = r'" for q q' r r' :: nat
proof -
  assume r: "r < 4096" "r' < 4096" and eq: "q * 4096 + r = q' * 4096 + r'"
  have "q = (q * 4096 + r) div 4096" using r(1) by simp
  also have "\<dots> = q'" unfolding eq using r(2) by simp
  finally show ?thesis using eq by simp
qed

lemma phys_addr_eq: "phys_addr p a = phys_addr q b \<longleftrightarrow> p = q \<and> unat a mod 4096 = unat b mod 4096"
proof
  assume "phys_addr p a = phys_addr q b"
  then have "unat p * 4096 + unat a mod 4096 = unat q * 4096 + unat b mod 4096" by (simp flip: unat_phys_addr)
  from quot_rem_eq [OF _ _ this] show "p = q \<and> unat a mod 4096 = unat b mod 4096"
    unfolding word_unat_eq_iff [of p q] by simp
next
  assume "p = q \<and> unat a mod 4096 = unat b mod 4096"
  then show "phys_addr p a = phys_addr q b" unfolding word_unat_eq_iff [of "phys_addr p a"] unat_phys_addr by simp
qed

lemma same_addr: "page_of a = page_of b \<Longrightarrow> unat a mod 4096 = unat b mod 4096 \<Longrightarrow> a = b"
  unfolding page_of_def word_unat_eq_iff by (metis div_mult_mod_eq)

subsection \<open>The translation\<close>

text \<open>
  The entry of the TLB that matches an address: the page pair, and the address space or a global entry.
  If exactly one entry matches, the address is translated by it; if none does, it is not
  translated.  What happens if several match is left open, as in the architecture.
\<close>

definition tlb_matches :: "8 word \<Rightarrow> uint32 \<Rightarrow> tlb_entry \<Rightarrow> bool" where
  "tlb_matches asid a e \<longleftrightarrow> VPN2 e = vpn2_of a \<and> (tlb_ASID e = asid \<or> G0 e = 1 \<and> G1 e = 1)"

locale mips_tlb =
  fixes mmu :: mmu
  assumes tlb_hit: "e \<in> set t \<Longrightarrow> tlb_matches asid a e \<Longrightarrow> (\<And>e'. e' \<in> set t \<Longrightarrow> tlb_matches asid a e' \<Longrightarrow> e' = e) \<Longrightarrow>
      mmu t asid a = entry_translate e a"
    and tlb_miss: "(\<And>e. e \<in> set t \<Longrightarrow> \<not> tlb_matches asid a e) \<Longrightarrow> mmu t asid a = None"
begin

text \<open>A TLB that holds a page table, and no left-over entry for the address, translates as the table does.\<close>

lemma mmu_table:
  assumes "pt_ok pt" "\<And>e. e \<in> set rest \<Longrightarrow> \<not> tlb_matches (ucast (pt_ASID pt)) a e"
  shows "mmu (valid_entries pt @ rest) (ucast (pt_ASID pt)) a = pt_lookup pt a"
proof -
  let ?es = "valid_entries pt" and ?asid = "ucast (pt_ASID pt)"
  have m: "tlb_matches ?asid a e \<longleftrightarrow> VPN2 e = vpn2_of a" if "e \<in> set ?es" for e
    using assms(1) that by (auto simp: pt_ok_def tlb_matches_def)
  have d: "distinct (map VPN2 ?es)" using assms(1) by (simp add: pt_ok_def)
  show ?thesis
  proof (cases "entry_map ?es (vpn2_of a)")
    case None
    then have "mmu (?es @ rest) ?asid a = None"
      using assms(2) m by (intro tlb_miss) (auto simp: entry_map_None image_iff)
    with None show ?thesis by (simp add: pt_lookup_def)
  next
    case (Some e)
    then have e: "e \<in> set ?es" "VPN2 e = vpn2_of a" by (auto simp: entry_map_def dest!: map_of_SomeD)
    have "e' = e" if "e' \<in> set (?es @ rest)" "tlb_matches ?asid a e'" for e'
    proof -
      have "e' \<in> set ?es" using that assms(2) by auto
      with that e m have "VPN2 e' = VPN2 e" by metis
      with \<open>e' \<in> set ?es\<close> e(1) d show ?thesis by (auto simp: distinct_map dest: inj_onD)
    qed
    then have "mmu (?es @ rest) ?asid a = entry_translate e a"
      by (rule tlb_hit [rotated 2]) (use e m in simp_all)
    with Some show ?thesis by (simp add: pt_lookup_def)
  qed
qed

end

text \<open>A processor that takes the first matching entry keeps the promise.\<close>

definition first_match :: mmu where
  "first_match t asid a = (case find (tlb_matches asid a) t of None \<Rightarrow> None | Some e \<Rightarrow> entry_translate e a)"

interpretation yams_tlb: mips_tlb first_match
proof
  fix e t asid a
  assume "e \<in> set t" "tlb_matches asid a e" "\<And>e'. e' \<in> set t \<Longrightarrow> tlb_matches asid a e' \<Longrightarrow> e' = e"
  then have "find (tlb_matches asid a) t = Some e"
  proof (cases "find (tlb_matches asid a) t")
    case None
    with \<open>e \<in> set t\<close> \<open>tlb_matches asid a e\<close> show ?thesis by (simp add: find_None_iff)
  next
    case (Some e')
    then obtain i where "i < length t" "tlb_matches asid a (t ! i)" "e' = t ! i" by (auto simp: find_Some_iff)
    with \<open>\<And>e'. e' \<in> set t \<Longrightarrow> tlb_matches asid a e' \<Longrightarrow> e' = e\<close> [of e'] Some show ?thesis by simp
  qed
  then show "first_match t asid a = entry_translate e a" by (simp add: first_match_def)
next
  fix t asid a
  assume "\<And>e. e \<in> set t \<Longrightarrow> \<not> tlb_matches asid a e"
  then have "find (tlb_matches asid a) t = None" by (auto simp: find_None_iff)
  then show "first_match t asid a = None" by (simp add: first_match_def)
qed

subsection \<open>What a program sees\<close>

definition user_byte :: "mmu \<Rightarrow> ('w, 'a) loader \<Rightarrow> nat \<Rightarrow> char option" where
  "user_byte mmu s n = map_option (\<lambda>(pfn, _). phys_mem s (phys_addr pfn (of_nat n)))
     (mmu (tlb (ld_kernel s)) (cp0_asid (ld_kernel s)) (of_nat n))"

text \<open>The addresses that may be written, and that no two pages share a frame.\<close>

definition user_writable :: "mmu \<Rightarrow> ('w, 'a) loader \<Rightarrow> nat \<Rightarrow> nat \<Rightarrow> bool" where
  "user_writable mmu s a len \<longleftrightarrow> a + len \<le> 2 ^ 31 \<and>
     (\<forall>n. a \<le> n \<longrightarrow> n < a + len \<longrightarrow> (\<exists>pfn. mmu (tlb (ld_kernel s)) (cp0_asid (ld_kernel s)) (of_nat n) = Some (pfn, True)))"

definition frames_distinct :: "mmu \<Rightarrow> ('w, 'a) loader \<Rightarrow> bool" where
  "frames_distinct mmu s \<longleftrightarrow> (\<forall>a b pfn d d'. mmu (tlb (ld_kernel s)) (cp0_asid (ld_kernel s)) a = Some (pfn, d) \<longrightarrow>
     mmu (tlb (ld_kernel s)) (cp0_asid (ld_kernel s)) b = Some (pfn, d') \<longrightarrow> page_of a = page_of b)"

lemma user_view_cong:
  assumes "ld_kernel s' = ld_kernel s"
  shows "user_writable mmu s' = user_writable mmu s" "frames_distinct mmu s' = frames_distinct mmu s"
  using assms by (simp_all add: user_writable_def frames_distinct_def fun_eq_iff)

lemma store_byte_view:
  assumes "user_writable mmu s a 1" "frames_distinct mmu s"
  shows "\<exists>m. store_byte mmu (of_nat a) b s = Inr (s\<lparr>phys_mem := m\<rparr>) \<and>
    (\<forall>n < 2 ^ 31. user_byte mmu (s\<lparr>phys_mem := m\<rparr>) n = (if n = a then Some b else user_byte mmu s n))"
proof -
  let ?tr = "mmu (tlb (ld_kernel s)) (cp0_asid (ld_kernel s))"
  have a: "a < 2 ^ 31" using assms(1) by (simp add: user_writable_def)
  then have ua: "unat (of_nat a :: uint32) = a" by (simp add: unat_of_nat_small)
  then have low: "\<not> (of_nat a :: uint32) \<ge> 0x80000000" using a by (simp add: word_le_nat_alt)
  obtain pfn where pfn: "?tr (of_nat a) = Some (pfn, True)" using assms(1) by (auto simp: user_writable_def)
  let ?m = "(phys_mem s)(phys_addr pfn (of_nat a) := b)"
  have other: "n = a" if "n < 2 ^ 31" "?tr (of_nat n) = Some (pfn', d)" "phys_addr pfn' (of_nat n) = phys_addr pfn (of_nat a)" for n pfn' d
  proof -
    have eq: "pfn' = pfn" "unat (of_nat n :: uint32) mod 4096 = unat (of_nat a :: uint32) mod 4096" using that(3) by (simp_all add: phys_addr_eq)
    then have "page_of (of_nat n) = page_of (of_nat a)" using that(2) pfn assms(2) unfolding frames_distinct_def by blast
    then have "(of_nat n :: uint32) = of_nat a" using eq(2) by (rule same_addr)
    moreover have "unat (of_nat n :: uint32) = n" using that(1) by (simp add: unat_of_nat_small)
    ultimately show ?thesis using ua by metis
  qed
  have "user_byte mmu (s\<lparr>phys_mem := ?m\<rparr>) n = (if n = a then Some b else user_byte mmu s n)" if "n < 2 ^ 31" for n
  proof (cases "n = a")
    case True
    with pfn show ?thesis by (simp add: user_byte_def)
  next
    case False
    show ?thesis
    proof (cases "?tr (of_nat n)")
      case (Some x)
      obtain q d where x: "x = (q, d)" by (cases x)
      have "phys_addr q (of_nat n) \<noteq> phys_addr pfn (of_nat a)" using other [OF that] Some x False by blast
      with Some x False show ?thesis by (simp add: user_byte_def)
    qed (simp add: user_byte_def False)
  qed
  with low pfn show ?thesis by (auto simp: store_byte_def)
qed

lemma user_writable_sub: "user_writable mmu s a len \<Longrightarrow> a \<le> b \<Longrightarrow> b + k \<le> a + len \<Longrightarrow> user_writable mmu s b k"
  by (auto simp: user_writable_def)

lemma store_bytes_view:
  assumes "user_writable mmu s a (length bs)" "frames_distinct mmu s"
  shows "\<exists>m. store_bytes mmu (of_nat a) bs s = Inr (s\<lparr>phys_mem := m\<rparr>) \<and>
    (\<forall>n < 2 ^ 31. user_byte mmu (s\<lparr>phys_mem := m\<rparr>) n =
       (if a \<le> n \<and> n < a + length bs then Some (bs ! (n - a)) else user_byte mmu s n))"
  using assms
proof (induction bs arbitrary: a s)
  case Nil
  then show ?case by (intro exI [of _ "phys_mem s"]) auto
next
  case (Cons b bs)
  have "user_writable mmu s a 1" by (rule user_writable_sub [OF Cons.prems(1)]) simp_all
  from store_byte_view [OF this Cons.prems(2), of b] obtain m where m: "store_byte mmu (of_nat a) b s = Inr (s\<lparr>phys_mem := m\<rparr>)"
    "\<forall>n < 2 ^ 31. user_byte mmu (s\<lparr>phys_mem := m\<rparr>) n = (if n = a then Some b else user_byte mmu s n)" by blast
  have "user_writable mmu (s\<lparr>phys_mem := m\<rparr>) (Suc a) (length bs)"
    using user_writable_sub [OF Cons.prems(1), of "Suc a" "length bs"] user_view_cong(1) [of "s\<lparr>phys_mem := m\<rparr>" s mmu] by simp
  moreover have "frames_distinct mmu (s\<lparr>phys_mem := m\<rparr>)"
    using Cons.prems(2) user_view_cong(2) [of "s\<lparr>phys_mem := m\<rparr>" s mmu] by simp
  ultimately obtain m' where m': "store_bytes mmu (of_nat (Suc a)) bs (s\<lparr>phys_mem := m\<rparr>) = Inr (s\<lparr>phys_mem := m'\<rparr>)"
    "\<forall>n < 2 ^ 31. user_byte mmu (s\<lparr>phys_mem := m'\<rparr>) n =
       (if Suc a \<le> n \<and> n < Suc a + length bs then Some (bs ! (n - Suc a)) else user_byte mmu (s\<lparr>phys_mem := m\<rparr>) n)"
    using Cons.IH by fastforce
  have "store_bytes mmu (of_nat a) (b # bs) s = Inr (s\<lparr>phys_mem := m'\<rparr>)"
    using m(1) m'(1) by (simp add: add.commute)
  moreover have "user_byte mmu (s\<lparr>phys_mem := m'\<rparr>) n =
       (if a \<le> n \<and> n < a + length (b # bs) then Some ((b # bs) ! (n - a)) else user_byte mmu s n)" if "n < 2 ^ 31" for n
    using m(2) m'(2) that by (auto simp: nth_Cons' Suc_diff_Suc not_less_eq_eq le_Suc_eq diff_Suc split: nat.splits)
  ultimately show ?case by blast
qed

end
