(* ===== verification/Load_Map.thy ===== *)
theory Load_Map
  imports Load_Mem
begin

text \<open>
  The page table of a new process: what the mapping loops of \<^verbatim>\<open>process_start\<close> build, as a partial
  function from virtual pages to page frames.
\<close>

lemma vm_map_count:
  assumes "vm_map pt physaddr vaddr dirty = Inr pt'" "pt_ok pt"
  shows "unat (valid_count pt) \<le> unat (valid_count pt') \<and> unat (valid_count pt') \<le> Suc (unat (valid_count pt))"
proof -
  have "unat (valid_count pt) \<le> 340" using assms(2) by (simp add: pt_ok_def PAGETABLE_ENTRIES_def)
  then have "unat (valid_count pt + 1) = Suc (unat (valid_count pt))" by (simp add: unat_word_ariths)
  with assms(1) show ?thesis
    by (auto simp: vm_map_def KERNEL_ASSERT_def KERNEL_PANIC_def Let_def kres_iff split: if_splits)
qed

lemma vm_set_dirty_count:
  assumes "vm_set_dirty pt vaddr dirty = Inr pt'"
  shows "valid_count pt' = valid_count pt \<and> pt_ASID pt' = pt_ASID pt"
  using assms by (auto simp: vm_set_dirty_def KERNEL_ASSERT_def KERNEL_PANIC_def kres_iff split: if_splits)

text \<open>
  \<open>mapped table k0 k F\<close>: between \<open>k0\<close> and \<open>k\<close> only the page pool and this page table have changed, and the
  table maps exactly the pages of \<open>F\<close>, writable, each to a frame of its own that is reserved in the pool.
\<close>

definition mapped :: "uint32 \<Rightarrow> 'a vmem_scheme \<Rightarrow> 'a vmem_scheme \<Rightarrow> (nat \<rightharpoonup> nat) \<Rightarrow> bool" where
  "mapped table k0 k F \<longleftrightarrow>
     (\<exists>b n pt. k = k0\<lparr>pagepool_free_pages := b, pagepool_num_free_pages := n, pagetable_at := (pagetable_at k0)(table := pt)\<rparr>) \<and>
     pool_ok k \<and> pt_ok (pagetable_at k table) \<and> pt_ASID (pagetable_at k table) = pt_ASID (pagetable_at k0 table) \<and>
     finite (dom F) \<and> inj_on F (dom F) \<and> (\<forall>p \<in> ran F. p < nat (pagepool_num_pages k) \<and> page_used k p) \<and>
     unat (valid_count (pagetable_at k table)) \<le> card (dom F) \<and>
     (\<forall>a. pt_lookup (pagetable_at k table) a = map_option (\<lambda>p. (of_nat p, True)) (F (page_of a)))"

lemma page_frame: "p < 2 ^ 20 \<Longrightarrow> ucast (drop_bit 12 (page_addr p)) = (of_nat p :: 20 word)"
proof -
  assume p: "p < 2 ^ 20"
  have u: "unat (drop_bit 12 (page_addr p)) = p"
    unfolding drop_bit_eq_div by (simp add: unat_div_distrib unat_page_addr [OF p])
  have "of_nat (unat (drop_bit 12 (page_addr p))) = (ucast (drop_bit 12 (page_addr p)) :: 20 word)" by simp
  then show ?thesis unfolding u by (rule sym)
qed

lemma map_user_page_ok:
  assumes "mapped table k0 k F" "pagepool_num_free_pages k > 0" "F (page_of vaddr) = None" "card (dom F) < PAGETABLE_ENTRIES"
  shows "\<exists>p k'. map_user_page table vaddr k = Inr k' \<and> mapped table k0 k' (F(page_of vaddr \<mapsto> p)) \<and>
    pagepool_num_free_pages k' = pagepool_num_free_pages k - 1 \<and>
    unat (valid_count (pagetable_at k table)) \<le> unat (valid_count (pagetable_at k' table))"
proof -
  have M: "pool_ok k" "pt_ok (pagetable_at k table)" "finite (dom F)" "inj_on F (dom F)"
    "\<And>p. p \<in> ran F \<Longrightarrow> p < nat (pagepool_num_pages k) \<and> page_used k p"
    "unat (valid_count (pagetable_at k table)) \<le> card (dom F)"
    "\<And>a. pt_lookup (pagetable_at k table) a = map_option (\<lambda>p. (of_nat p, True)) (F (page_of a))"
    using assms(1) by (auto simp: mapped_def)
  obtain p where p: "pagepool_get_phys_page k = Inr (page_addr p, k\<lparr>pagepool_free_pages := bm_upd (pagepool_free_pages k) p True,
      pagepool_num_free_pages := pagepool_num_free_pages k - 1\<rparr>)" "p < nat (pagepool_num_pages k)" "\<not> page_used k p"
    by (rule pagepool_get_some [OF M(1) assms(2)])
  let ?k = "k\<lparr>pagepool_free_pages := bm_upd (pagepool_free_pages k) p True, pagepool_num_free_pages := pagepool_num_free_pages k - 1\<rparr>"
  have small: "p < 2 ^ 20" using M(1) p(2) by (auto simp: pool_ok_def)
  have nz: "page_addr p \<noteq> 0" using page_addr_nonzero [OF _ small] M(1) p(3) by (cases p) (auto simp: pool_ok_def)
  have "pt_room (pagetable_at k table) vaddr" using M(6) assms(4) by (simp add: pt_room_def)
  from vm_map_fresh [OF M(2) _ _ this, of 1 "page_addr p"] M(7) assms(3) obtain pt where
    pt: "vm_map (pagetable_at k table) (page_addr p) vaddr 1 = Inr pt" "pt_ok pt" "pt_ASID pt = pt_ASID (pagetable_at k table)"
    "\<And>a. pt_lookup pt a = (if same_page a vaddr then Some (ucast (drop_bit 12 (page_addr p)), True) else pt_lookup (pagetable_at k table) a)"
    by auto
  let ?k' = "?k\<lparr>pagetable_at := (pagetable_at k)(table := pt)\<rparr>"
  have run: "map_user_page table vaddr k = Inr ?k'" using p(1) nz pt(1) by (simp add: map_user_page_def)
  have pool: "pool_ok ?k'" using pool_ok_get [OF M(1) p(2,3)] by (simp add: pool_ok_def page_used_def [abs_def])
  have fresh: "p \<notin> ran F" using M(5) p(3) by blast
  have cap: "p < 32 * length (pagepool_free_pages k)" using M(1) p(2) by (simp add: pool_ok_def)
  have used: "page_used ?k' q \<longleftrightarrow> q = p \<or> page_used k q" for q
    using cap by (simp add: page_used_def bm_bit_upd)
  have inj: "inj_on (F(page_of vaddr \<mapsto> p)) (dom (F(page_of vaddr \<mapsto> p)))"
    using M(4) fresh assms(3) by (auto simp: inj_on_def ran_def dom_def split: if_splits)
  have ran: "\<forall>q \<in> ran (F(page_of vaddr \<mapsto> p)). q < nat (pagepool_num_pages ?k') \<and> page_used ?k' q"
    using M(5) p(2) used assms(3) by (auto simp: ran_map_upd)
  have cnt: "unat (valid_count pt) \<le> card (dom (F(page_of vaddr \<mapsto> p)))"
    "unat (valid_count (pagetable_at k table)) \<le> unat (valid_count pt)"
    using vm_map_count [OF pt(1) M(2)] M(3,6) assms(3) by (auto simp: domIff card_insert_if)
  have look: "pt_lookup pt a = map_option (\<lambda>p. (of_nat p, True)) ((F(page_of vaddr \<mapsto> p)) (page_of a))" for a
    using pt(4) M(7) page_frame [OF small] by (simp add: same_page_of)
  obtain b n pt0 where k: "k = k0\<lparr>pagepool_free_pages := b, pagepool_num_free_pages := n, pagetable_at := (pagetable_at k0)(table := pt0)\<rparr>"
    and asid: "pt_ASID (pagetable_at k table) = pt_ASID (pagetable_at k0 table)"
    using assms(1) unfolding mapped_def by blast
  have "mapped table k0 ?k' (F(page_of vaddr \<mapsto> p))"
    unfolding mapped_def
  proof (intro conjI)
    show "\<exists>b n pt. ?k' = k0\<lparr>pagepool_free_pages := b, pagepool_num_free_pages := n, pagetable_at := (pagetable_at k0)(table := pt)\<rparr>"
      by (rule exI [of _ "bm_upd (pagepool_free_pages k) p True"], rule exI [of _ "pagepool_num_free_pages k - 1"], rule exI [of _ pt]) (simp add: k)
  qed (use pool pt(2,3) asid M(3) inj ran cnt look in simp_all)
  with run cnt(2) show ?thesis by (intro exI [of _ p] exI [of _ ?k']) simp
qed

lemma map_pages_ok:
  assumes "mapped table k0 k F" "int (n - i) \<le> pagepool_num_free_pages k" "card (dom F) + (n - i) \<le> PAGETABLE_ENTRIES" "i \<le> n"
    "\<And>j. i \<le> j \<Longrightarrow> j < n \<Longrightarrow> page_of (vaddr + of_nat j * PAGE_SIZE) = pg + j" "\<And>j. i \<le> j \<Longrightarrow> j < n \<Longrightarrow> F (pg + j) = None"
  shows "\<exists>k' F'. for_rangeE i n (\<lambda>j. map_user_page table (vaddr + of_nat j * PAGE_SIZE)) k = Inr k' \<and> mapped table k0 k' F' \<and>
    dom F' = dom F \<union> {pg + i..<pg + n} \<and> F \<subseteq>\<^sub>m F' \<and> pagepool_num_free_pages k' = pagepool_num_free_pages k - int (n - i) \<and>
    unat (valid_count (pagetable_at k table)) \<le> unat (valid_count (pagetable_at k' table))"
  using assms
proof (induction "n - i" arbitrary: i k F)
  case 0
  then show ?case by (intro exI [of _ k] exI [of _ F]) simp
next
  case (Suc m)
  then have i: "i < n" by simp
  have pg: "page_of (vaddr + of_nat i * PAGE_SIZE) = pg + i" using Suc.prems(5) i by simp
  have step: "\<exists>p k'. map_user_page table (vaddr + of_nat i * PAGE_SIZE) k = Inr k' \<and> mapped table k0 k' (F(pg + i \<mapsto> p)) \<and>
      pagepool_num_free_pages k' = pagepool_num_free_pages k - 1 \<and>
      unat (valid_count (pagetable_at k table)) \<le> unat (valid_count (pagetable_at k' table))"
    using map_user_page_ok [OF Suc.prems(1), of "vaddr + of_nat i * PAGE_SIZE"] Suc.prems(2,3,6) Suc.hyps(2) i unfolding pg by simp
  then obtain p k1 where k1: "map_user_page table (vaddr + of_nat i * PAGE_SIZE) k = Inr k1" "mapped table k0 k1 (F(pg + i \<mapsto> p))"
    "pagepool_num_free_pages k1 = pagepool_num_free_pages k - 1"
    "unat (valid_count (pagetable_at k table)) \<le> unat (valid_count (pagetable_at k1 table))" by blast
  have fin: "finite (dom F)" using Suc.prems(1) by (simp add: mapped_def)
  have new: "F (pg + i) = None" using Suc.prems(6) i by simp
  have d: "dom (F(pg + i \<mapsto> p)) = insert (pg + i) (dom F)" "card (insert (pg + i) (dom F)) = Suc (card (dom F))"
    using fin new by (auto simp: domIff card_insert_if)
  have "\<exists>k' F'. for_rangeE (Suc i) n (\<lambda>j. map_user_page table (vaddr + of_nat j * PAGE_SIZE)) k1 = Inr k' \<and> mapped table k0 k' F' \<and>
    dom F' = dom (F(pg + i \<mapsto> p)) \<union> {pg + Suc i..<pg + n} \<and> F(pg + i \<mapsto> p) \<subseteq>\<^sub>m F' \<and>
    pagepool_num_free_pages k' = pagepool_num_free_pages k1 - int (n - Suc i) \<and>
    unat (valid_count (pagetable_at k1 table)) \<le> unat (valid_count (pagetable_at k' table))"
    by (rule Suc.hyps(1) [OF _ k1(2)]) (use Suc.hyps(2) Suc.prems(2,3,5,6) k1(3) d i in \<open>auto simp del: dom_fun_upd\<close>)
  then obtain k' F' where k': "for_rangeE (Suc i) n (\<lambda>j. map_user_page table (vaddr + of_nat j * PAGE_SIZE)) k1 = Inr k'" "mapped table k0 k' F'"
    "dom F' = insert (pg + i) (dom F) \<union> {pg + Suc i..<pg + n}" "F(pg + i \<mapsto> p) \<subseteq>\<^sub>m F'"
    "pagepool_num_free_pages k' = pagepool_num_free_pages k1 - int (n - Suc i)"
    "unat (valid_count (pagetable_at k1 table)) \<le> unat (valid_count (pagetable_at k' table))" unfolding d by blast
  have "F \<subseteq>\<^sub>m F'" using k'(4) new by (auto simp: map_le_def dom_def split: if_splits)
  moreover have "dom F' = dom F \<union> {pg + i..<pg + n}" unfolding k'(3) using i by auto
  moreover have "for_rangeE i n (\<lambda>j. map_user_page table (vaddr + of_nat j * PAGE_SIZE)) k = Inr k'"
    using i k1(1) k'(1) by (simp add: for_rangeE.simps [of i])
  ultimately show ?case using k'(2,5,6) k1(3,4) i by (intro exI [of _ k'] exI [of _ F']) simp
qed

end
