(* ===== verification/Load_Spec.thy ===== *)
theory Load_Spec
  imports Load_Map
begin

text \<open>
  \<^verbatim>\<open>process_start\<close>: the memory image it builds, the page table behind it, and what the order of
  its steps does to the TLB.
\<close>

subsection \<open>Loading the segments\<close>

definition stack_base :: nat where "stack_base = 0x7fffe000"

lemma stack_page: "USERLAND_STACK_TOP AND PAGE_SIZE_MASK = of_nat stack_base"
  by (simp add: USERLAND_STACK_TOP_def PAGE_SIZE_MASK_def stack_base_def)

text \<open>An executable whose segments fit: page aligned, above the first page, below the stack, disjoint, and inside the file.\<close>

definition good_segment :: "char list \<Rightarrow> uint32 \<Rightarrow> uint32 \<Rightarrow> uint32 \<Rightarrow> uint32 \<Rightarrow> bool" where
  "good_segment c location sz pages vaddr \<longleftrightarrow> 4096 dvd unat vaddr \<and> 4096 \<le> unat vaddr \<and>
     unat vaddr + 4096 * unat pages \<le> stack_base \<and> unat sz \<le> 4096 * unat pages \<and> unat location + unat sz \<le> length c"

definition good_image :: "char list \<Rightarrow> elf_info_t \<Rightarrow> bool" where
  "good_image c elf \<longleftrightarrow> length c < 2 ^ 31 \<and> PAGE_SIZE \<le> entry_point elf \<and>
     good_segment c (ro_location elf) (ro_size elf) (ro_pages elf) (ro_vaddr elf) \<and>
     good_segment c (rw_location elf) (rw_size elf) (rw_pages elf) (rw_vaddr elf) \<and>
     (unat (ro_vaddr elf) + 4096 * unat (ro_pages elf) \<le> unat (rw_vaddr elf) \<or>
      unat (rw_vaddr elf) + 4096 * unat (rw_pages elf) \<le> unat (ro_vaddr elf))"

text \<open>The bytes of a segment in memory: those of the file, and zeros up to the end of the last page.\<close>

definition shows_segment :: "char list \<Rightarrow> uint32 \<Rightarrow> uint32 \<Rightarrow> uint32 \<Rightarrow> uint32 \<Rightarrow> (nat \<Rightarrow> char option) \<Rightarrow> bool" where
  "shows_segment c location sz pages vaddr V \<longleftrightarrow> (\<forall>i < 4096 * unat pages.
     V (unat vaddr + i) = Some (if i < unat sz then c ! (unat location + i) else NUL))"

definition shows_image :: "char list \<Rightarrow> elf_info_t \<Rightarrow> (nat \<Rightarrow> char option) \<Rightarrow> bool" where
  "shows_image c elf V \<longleftrightarrow>
     shows_segment c (ro_location elf) (ro_size elf) (ro_pages elf) (ro_vaddr elf) V \<and>
     shows_segment c (rw_location elf) (rw_size elf) (rw_pages elf) (rw_vaddr elf) V \<and>
     (\<forall>i < 4096. V (stack_base + i) = Some NUL)"

lemma memoryset0_view:
  assumes "user_writable mmu s (unat a) n" "frames_distinct mmu s" "nat sz = n"
  shows "\<exists>m. user_memoryset0 mmu a sz s = Inr (s\<lparr>phys_mem := m\<rparr>) \<and>
    (\<forall>x < 2 ^ 31. user_byte mmu (s\<lparr>phys_mem := m\<rparr>) x = (if unat a \<le> x \<and> x < unat a + n then Some NUL else user_byte mmu s x))"
  using store_bytes_view [of mmu s "unat a" "replicate n NUL"] assms
  by (simp add: user_memoryset0_def) (metis (no_types, lifting) add_diff_inverse_nat leD nat_add_left_cancel_less nth_replicate)

lemma ld_fs_run: "f (ld_vfs s) = Inr (r, v) \<Longrightarrow> ld_fs f s = Inr (r, s\<lparr>ld_vfs := v\<rparr>)"
  by (simp add: ld_fs_def)

lemma segment_bytes:
  assumes "good_segment c location sz pages vaddr"
  shows "nat (sint (pages * PAGE_SIZE)) = 4096 * unat pages"
proof -
  have n: "4096 * unat pages < 2 ^ 31" using assms by (simp add: good_segment_def stack_base_def)
  then have "unat (pages * PAGE_SIZE) = 4096 * unat pages" by (simp add: PAGE_SIZE_def unat_word_ariths)
  then have "sint (pages * PAGE_SIZE) = int (4096 * unat pages)" using n sint_small [of "pages * PAGE_SIZE"] by metis
  then show ?thesis by (simp only: nat_int)
qed

text \<open>The three calls of \<^verbatim>\<open>memoryset\<close>.\<close>

lemma clear_view:
  assumes "good_image c elf" "frames_distinct mmu s"
    and ro: "user_writable mmu s (unat (ro_vaddr elf)) (4096 * unat (ro_pages elf))"
    and rw: "user_writable mmu s (unat (rw_vaddr elf)) (4096 * unat (rw_pages elf))"
    and stack: "user_writable mmu s stack_base 4096"
  shows "\<exists>m1 m2 m3. user_memoryset0 mmu (ro_vaddr elf) (sint (ro_pages elf * PAGE_SIZE)) s = Inr (s\<lparr>phys_mem := m1\<rparr>) \<and>
    user_memoryset0 mmu (rw_vaddr elf) (sint (rw_pages elf * PAGE_SIZE)) (s\<lparr>phys_mem := m1\<rparr>) = Inr (s\<lparr>phys_mem := m2\<rparr>) \<and>
    user_memoryset0 mmu (of_nat stack_base) 4096 (s\<lparr>phys_mem := m2\<rparr>) = Inr (s\<lparr>phys_mem := m3\<rparr>) \<and>
    (\<forall>x < 2 ^ 31. user_byte mmu (s\<lparr>phys_mem := m3\<rparr>) x = (if stack_base \<le> x \<and> x < stack_base + 4096 then Some NUL
      else if unat (rw_vaddr elf) \<le> x \<and> x < unat (rw_vaddr elf) + 4096 * unat (rw_pages elf) then Some NUL
      else if unat (ro_vaddr elf) \<le> x \<and> x < unat (ro_vaddr elf) + 4096 * unat (ro_pages elf) then Some NUL else user_byte mmu s x))"
proof -
  let ?r = "unat (ro_vaddr elf)" and ?w = "unat (rw_vaddr elf)"
  let ?rn = "4096 * unat (ro_pages elf)" and ?wn = "4096 * unat (rw_pages elf)"
  have gr: "good_segment c (ro_location elf) (ro_size elf) (ro_pages elf) (ro_vaddr elf)"
    and gw: "good_segment c (rw_location elf) (rw_size elf) (rw_pages elf) (rw_vaddr elf)"
    using assms(1) by (simp_all add: good_image_def)
  have sb: "unat (of_nat stack_base :: uint32) = stack_base" by (simp add: stack_base_def)
  have c1: "user_writable mmu u = user_writable mmu s" "frames_distinct mmu u" if "ld_kernel u = ld_kernel s" for u
    using user_view_cong [OF that, of mmu] assms(2) by simp_all
  obtain m1 where m1: "user_memoryset0 mmu (ro_vaddr elf) (sint (ro_pages elf * PAGE_SIZE)) s = Inr (s\<lparr>phys_mem := m1\<rparr>)"
    "\<forall>x < 2 ^ 31. user_byte mmu (s\<lparr>phys_mem := m1\<rparr>) x = (if ?r \<le> x \<and> x < ?r + ?rn then Some NUL else user_byte mmu s x)"
    using memoryset0_view [OF ro assms(2) segment_bytes [OF gr]] by blast
  let ?s1 = "s\<lparr>phys_mem := m1\<rparr>"
  obtain m2 where m2: "user_memoryset0 mmu (rw_vaddr elf) (sint (rw_pages elf * PAGE_SIZE)) ?s1 = Inr (s\<lparr>phys_mem := m2\<rparr>)"
    "\<forall>x < 2 ^ 31. user_byte mmu (s\<lparr>phys_mem := m2\<rparr>) x = (if ?w \<le> x \<and> x < ?w + ?wn then Some NUL else user_byte mmu ?s1 x)"
    using memoryset0_view [of mmu ?s1 "rw_vaddr elf" ?wn, OF _ _ segment_bytes [OF gw]] rw c1 [of ?s1] by auto
  let ?s2 = "s\<lparr>phys_mem := m2\<rparr>"
  obtain m3 where m3: "user_memoryset0 mmu (of_nat stack_base) 4096 ?s2 = Inr (s\<lparr>phys_mem := m3\<rparr>)"
    "\<forall>x < 2 ^ 31. user_byte mmu (s\<lparr>phys_mem := m3\<rparr>) x = (if stack_base \<le> x \<and> x < stack_base + 4096 then Some NUL else user_byte mmu ?s2 x)"
    using memoryset0_view [of mmu ?s2 "of_nat stack_base" 4096 4096] stack c1 [of ?s2] unfolding sb by auto
  show ?thesis using m1 m2 m3 by (intro exI [of _ m1] exI [of _ m2] exI [of _ m3]) simp
qed

context byte_file
begin

lemma copy_segment_view:
  assumes "at p (ld_vfs s)" "length c < 2 ^ 31" "unat location + unat sz \<le> length c" "4096 \<le> unat vaddr"
    "user_writable mmu s (unat vaddr) (unat sz)" "frames_distinct mmu s"
  shows "\<exists>q v m. copy_segment mmu ops fd location vaddr sz s = Inr (s\<lparr>ld_vfs := v, phys_mem := m\<rparr>) \<and> at q v \<and>
    (\<forall>x < 2 ^ 31. user_byte mmu (s\<lparr>ld_vfs := v, phys_mem := m\<rparr>) x =
      (if unat vaddr \<le> x \<and> x < unat vaddr + unat sz then Some (c ! (unat location + (x - unat vaddr))) else user_byte mmu s x))"
proof (cases "sz = 0")
  case True
  then show ?thesis using assms(1)
    by (intro exI [of _ p] exI [of _ "ld_vfs s"] exI [of _ "phys_mem s"]) (auto simp: copy_segment_def)
next
  case False
  let ?n = "unat sz" and ?a = "unat vaddr" and ?loc = "unat location"
  have sint: "sint sz = int ?n" "sint location = int ?loc" using assms(2,3) by (simp_all add: sint_small)
  obtain v where v: "vfs_seek fd (int ?loc) (ld_vfs s) = Inr (VFS_OK, v)" "at ?loc v"
    using seek_to [OF assms(1), of ?loc] by (auto simp: returns_def)
  obtain v' where v': "vfs_read ops fd (replicate ?n NUL) (int ?n) v = Inr ((int ?n, slice c ?loc ?n), v')" "at (?loc + ?n) v'"
    using read_inside [OF v(2), of ?n "replicate ?n NUL"] assms(3) by (auto simp: returns_def)
  let ?s = "s\<lparr>ld_vfs := v'\<rparr>"
  have len: "length (slice c ?loc ?n) = ?n" using assms(3) by simp
  have "user_writable mmu ?s ?a (length (slice c ?loc ?n))" "frames_distinct mmu ?s"
    using assms(5,6) user_view_cong [of ?s s mmu] len by simp_all
  from store_bytes_view [OF this] obtain m where m: "store_bytes mmu vaddr (slice c ?loc ?n) ?s = Inr (?s\<lparr>phys_mem := m\<rparr>)"
    "\<forall>x < 2 ^ 31. user_byte mmu (?s\<lparr>phys_mem := m\<rparr>) x = (if ?a \<le> x \<and> x < ?a + ?n then Some (slice c ?loc ?n ! (x - ?a)) else user_byte mmu ?s x)"
    unfolding len by auto
  have view: "user_byte mmu ?s = user_byte mmu s" by (simp add: user_byte_def fun_eq_iff)
  have "copy_segment mmu ops fd location vaddr sz s = Inr (?s\<lparr>phys_mem := m\<rparr>)"
    using False v(1) v'(1) m(1) len assms(4) unfolding copy_segment_def sint user_vfs_read_def
    by (simp add: ld_fs_run word_gt_0 word_le_nat_alt PAGE_SIZE_def)
  with v'(2) m(2) show ?thesis
    unfolding view using assms(3) by (intro exI [of _ "?loc + ?n"] exI [of _ v'] exI [of _ m]) (auto simp: slice_def)
qed

lemma load_view:
  assumes "at p (ld_vfs s)" "good_image c elf" "frames_distinct mmu s"
    and ro: "user_writable mmu s (unat (ro_vaddr elf)) (4096 * unat (ro_pages elf))"
    and rw: "user_writable mmu s (unat (rw_vaddr elf)) (4096 * unat (rw_pages elf))"
    and stack: "user_writable mmu s stack_base 4096"
  shows "\<exists>q v m. start_load mmu ops fd elf s = Inr (s\<lparr>ld_vfs := v, phys_mem := m\<rparr>) \<and> at q v \<and>
    shows_image c elf (user_byte mmu (s\<lparr>ld_vfs := v, phys_mem := m\<rparr>))"
proof -
  let ?r = "unat (ro_vaddr elf)" and ?w = "unat (rw_vaddr elf)"
  let ?rn = "4096 * unat (ro_pages elf)" and ?wn = "4096 * unat (rw_pages elf)"
  have len: "length c < 2 ^ 31" and gr: "good_segment c (ro_location elf) (ro_size elf) (ro_pages elf) (ro_vaddr elf)"
    and gw: "good_segment c (rw_location elf) (rw_size elf) (rw_pages elf) (rw_vaddr elf)"
    and sep: "?r + ?rn \<le> ?w \<or> ?w + ?wn \<le> ?r"
    using assms(2) by (simp_all add: good_image_def)
  have c1: "user_writable mmu u = user_writable mmu s" "frames_distinct mmu u" if "ld_kernel u = ld_kernel s" for u
    using user_view_cong [OF that, of mmu] assms(3) by simp_all
  obtain m1 m2 m3 where m1: "user_memoryset0 mmu (ro_vaddr elf) (sint (ro_pages elf * PAGE_SIZE)) s = Inr (s\<lparr>phys_mem := m1\<rparr>)"
    and m2: "user_memoryset0 mmu (rw_vaddr elf) (sint (rw_pages elf * PAGE_SIZE)) (s\<lparr>phys_mem := m1\<rparr>) = Inr (s\<lparr>phys_mem := m2\<rparr>)"
    and m3: "user_memoryset0 mmu (of_nat stack_base) 4096 (s\<lparr>phys_mem := m2\<rparr>) = Inr (s\<lparr>phys_mem := m3\<rparr>)"
      "\<forall>x < 2 ^ 31. user_byte mmu (s\<lparr>phys_mem := m3\<rparr>) x = (if stack_base \<le> x \<and> x < stack_base + 4096 then Some NUL
        else if ?w \<le> x \<and> x < ?w + ?wn then Some NUL else if ?r \<le> x \<and> x < ?r + ?rn then Some NUL else user_byte mmu s x)"
    using clear_view [OF assms(2-6)] by blast
  let ?s3 = "s\<lparr>phys_mem := m3\<rparr>"
  have "user_writable mmu ?s3 ?r (unat (ro_size elf))" "user_writable mmu ?s3 ?w (unat (rw_size elf))"
    using user_writable_sub [OF ro, of ?r "unat (ro_size elf)"] user_writable_sub [OF rw, of ?w "unat (rw_size elf)"]
      c1 [of ?s3] gr gw by (simp_all add: good_segment_def)
  note wr = this
  obtain q4 v4 m4 where m4: "copy_segment mmu ops fd (ro_location elf) (ro_vaddr elf) (ro_size elf) ?s3 = Inr (s\<lparr>ld_vfs := v4, phys_mem := m4\<rparr>)"
    "at q4 v4" "\<forall>x < 2 ^ 31. user_byte mmu (s\<lparr>ld_vfs := v4, phys_mem := m4\<rparr>) x =
      (if ?r \<le> x \<and> x < ?r + unat (ro_size elf) then Some (c ! (unat (ro_location elf) + (x - ?r))) else user_byte mmu ?s3 x)"
    using copy_segment_view [of p ?s3 "ro_location elf" "ro_size elf" "ro_vaddr elf" mmu] assms(1) len gr wr(1) c1 [of ?s3]
    by (auto simp: good_segment_def)
  let ?s4 = "s\<lparr>ld_vfs := v4, phys_mem := m4\<rparr>"
  obtain q v m where m5: "copy_segment mmu ops fd (rw_location elf) (rw_vaddr elf) (rw_size elf) ?s4 = Inr (s\<lparr>ld_vfs := v, phys_mem := m\<rparr>)"
    "at q v" "\<forall>x < 2 ^ 31. user_byte mmu (s\<lparr>ld_vfs := v, phys_mem := m\<rparr>) x =
      (if ?w \<le> x \<and> x < ?w + unat (rw_size elf) then Some (c ! (unat (rw_location elf) + (x - ?w))) else user_byte mmu ?s4 x)"
    using copy_segment_view [of q4 ?s4 "rw_location elf" "rw_size elf" "rw_vaddr elf" mmu] m4(2) len gw wr(2) c1 [of ?s3] c1 [of ?s4]
    by (auto simp: good_segment_def)
  let ?V = "user_byte mmu (s\<lparr>ld_vfs := v, phys_mem := m\<rparr>)"
  have run: "start_load mmu ops fd elf s = Inr (s\<lparr>ld_vfs := v, phys_mem := m\<rparr>)"
    using m1 m2 m3(1) m4(1) m5(1) unfolding start_load_def Let_def stack_page
    by (simp add: CONFIG_USERLAND_STACK_SIZE_def PAGE_SIZE_def)
  note seg = gr [unfolded good_segment_def] gw [unfolded good_segment_def]
  have top: "stack_base + 4096 \<le> 2 ^ 31" by (simp add: stack_base_def)
  have V: "?V x = (if ?w \<le> x \<and> x < ?w + unat (rw_size elf) then Some (c ! (unat (rw_location elf) + (x - ?w)))
      else if ?r \<le> x \<and> x < ?r + unat (ro_size elf) then Some (c ! (unat (ro_location elf) + (x - ?r)))
      else if stack_base \<le> x \<and> x < stack_base + 4096 then Some NUL else if ?w \<le> x \<and> x < ?w + ?wn then Some NUL
      else if ?r \<le> x \<and> x < ?r + ?rn then Some NUL
      else user_byte mmu s x)" if "x < stack_base + 4096" for x
  proof -
    have x: "x < 2 ^ 31" using that top by (rule less_le_trans)
    show ?thesis unfolding m5(3) [rule_format, OF x] m4(3) [rule_format, OF x] m3(2) [rule_format, OF x] by (rule refl)
  qed
  have "shows_segment c (ro_location elf) (ro_size elf) (ro_pages elf) (ro_vaddr elf) ?V"
    unfolding shows_segment_def using seg sep V by auto
  moreover have "shows_segment c (rw_location elf) (rw_size elf) (rw_pages elf) (rw_vaddr elf) ?V"
    unfolding shows_segment_def using seg sep V by auto
  moreover have "\<forall>i < 4096. ?V (stack_base + i) = Some NUL" using seg V by auto
  ultimately show ?thesis using run m5(2) unfolding shows_image_def by blast
qed

end

subsection \<open>Mapping the process\<close>

text \<open>
  What \<^verbatim>\<open>process_start\<close> relies on: the executable is a file of a mounted volume, the process and its thread
  are set up as \<^verbatim>\<open>process_spawn\<close> leaves them, there are enough free pages and TLB entries, and the TLB holds no
  entry of the new address space or for all address spaces.
\<close>

definition startable_file ::
  "'d gbd \<Rightarrow> ('d \<Rightarrow> bool) \<Rightarrow> ('d \<Rightarrow> nat \<Rightarrow> block) \<Rightarrow> nat \<Rightarrow> nat \<Rightarrow> fs \<Rightarrow> string \<Rightarrow> char list \<Rightarrow> string \<Rightarrow> ('d, 'b) volumes vfs \<Rightarrow> bool"
where
  "startable_file g ok blk N T f name c path v \<longleftrightarrow> block_device g ok blk N \<and> vfs_free v \<and>
     (\<exists>vol. vfs_parse_pathname path = Some (vol, name) \<and> mounted_at v vol f) \<and> ready ok blk N T (volume_of v f) \<and>
     file_name name \<and> contents blk (volume_of v f) name = Some c \<and> (\<exists>i < CONFIG_MAX_OPEN_FILES. of_filesystem (openfiles v ! i) = None) \<and>
     unat (e_phoff (get_Ehdr c)) + sizeof_Phdr * unat (e_phnum (get_Ehdr c)) < 2 ^ 31"

definition startable_thread :: "int \<Rightarrow> nat \<Rightarrow> 'a sems_scheme \<Rightarrow> bool" where
  "startable_thread tid pages k \<longleftrightarrow>
     rd (scheduler_current_thread k) (this_cpu k) = Inr tid \<and> (\<exists>e. rd (thread_table k) tid = Inr e \<and> th_pagetable e = 0) \<and>
     pool_ok k \<and> int pages < pagepool_num_free_pages k \<and> (\<forall>t. length (pt_entries (pagetable_at k t)) = PAGETABLE_ENTRIES) \<and>
     pages \<le> length (tlb k) \<and> length (tlb k) \<le> PAGETABLE_ENTRIES \<and>
     (\<forall>e \<in> set (tlb k). tlb_ASID e \<noteq> word_of_int tid \<and> \<not> (G0 e = 1 \<and> G1 e = 1))"

definition image_pages :: "elf_info_t \<Rightarrow> nat" where
  "image_pages elf = unat (ro_pages elf) + unat (rw_pages elf) + 1"

definition startable ::
  "'d gbd \<Rightarrow> ('d \<Rightarrow> bool) \<Rightarrow> ('d \<Rightarrow> nat \<Rightarrow> block) \<Rightarrow> nat \<Rightarrow> nat \<Rightarrow> fs \<Rightarrow> string \<Rightarrow> char list \<Rightarrow> elf_info_t \<Rightarrow> int \<Rightarrow> int \<Rightarrow> (('d, 'b) volumes, 'a) loader \<Rightarrow> bool"
where
  "startable g ok blk N T f name c elf tid pid s \<longleftrightarrow> executable_info c = Some elf \<and> good_image c elf \<and>
     startable_thread tid (image_pages elf) (ld_kernel s) \<and>
     (\<exists>row. rd (process_table (ld_procs s)) pid = Inr row \<and> startable_file g ok blk N T f name c (cstring (executable row)) (ld_vfs s))"

lemma self_update: "k = k\<lparr>pagepool_free_pages := pagepool_free_pages k, pagepool_num_free_pages := pagepool_num_free_pages k,
    pagetable_at := (pagetable_at k)(table := pagetable_at k table)\<rparr>" for k :: "'a vmem_scheme"
  by (cases k) simp

lemma mapped_refl: "mapped table k0 k F \<Longrightarrow> mapped table k k F"
  unfolding mapped_def using self_update [of k table] by blast

lemma mapped_tlb: "mapped table k k F \<Longrightarrow> mapped table (k\<lparr>tlb := t, cp0_asid := a\<rparr>) (k\<lparr>tlb := t, cp0_asid := a\<rparr>) F"
  unfolding mapped_def using self_update [of "k\<lparr>tlb := t, cp0_asid := a\<rparr>" table]
  by (intro conjI, blast) (auto simp: pool_ok_def page_used_def [abs_def])

lemma reload_tlb_run:
  assumes "table \<noteq> 0" "pt = pagetable_at k table" "pt_ok pt" "unat (valid_count pt) \<le> length (tlb k)" "tlb k \<noteq> []"
  shows "reload_tlb table k = Inr (k\<lparr>tlb := valid_entries pt @ drop (unat (valid_count pt)) (tlb k), cp0_asid := ucast (pt_ASID pt)\<rparr>)"
proof -
  let ?k = "k\<lparr>cp0_status := 0xffff00fe AND cp0_status k\<rparr>"
  have "tlb_fill table ?k = Inr (?k\<lparr>tlb := valid_entries pt @ drop (unat (valid_count pt)) (tlb k), cp0_asid := ucast (pt_ASID pt)\<rparr>)"
    using tlb_fill_loads [of table pt ?k] assms by simp
  then show ?thesis by (simp add: reload_tlb_def interrupt_disable_def interrupt_set_state_def)
qed

lemma segment_page:
  assumes "good_segment c location sz pages vaddr" "j < unat pages"
  shows "page_of (vaddr + of_nat j * PAGE_SIZE) = unat vaddr div 4096 + j"
proof -
  have n: "unat vaddr + 4096 * j < 2 ^ 32" using assms by (simp add: good_segment_def stack_base_def)
  have "vaddr + of_nat j * PAGE_SIZE = of_nat (unat vaddr + 4096 * j)" by (simp add: PAGE_SIZE_def)
  then have "page_of (vaddr + of_nat j * PAGE_SIZE) = (unat vaddr + 4096 * j) div 4096" using page_of_nat [OF n] by (simp only:)
  then show ?thesis by simp
qed

lemma map_segment_ok:
  assumes "mapped table k k F" "good_segment c location sz pages vaddr" "int (unat pages) \<le> pagepool_num_free_pages k"
    "card (dom F) + unat pages \<le> PAGETABLE_ENTRIES" "\<And>j. j < unat pages \<Longrightarrow> F (unat vaddr div 4096 + j) = None"
  shows "\<exists>k' F'. map_segment table vaddr (sint pages) k = Inr k' \<and> mapped table k k' F' \<and>
    dom F' = dom F \<union> {unat vaddr div 4096..<unat vaddr div 4096 + unat pages} \<and> F \<subseteq>\<^sub>m F' \<and>
    pagepool_num_free_pages k' = pagepool_num_free_pages k - int (unat pages) \<and>
    unat (valid_count (pagetable_at k table)) \<le> unat (valid_count (pagetable_at k' table))"
proof -
  have "sint pages = int (unat pages)" using assms(2) by (intro sint_small) (simp add: good_segment_def stack_base_def)
  then have n: "nat (sint pages) = unat pages" by (simp only: nat_int)
  show ?thesis
    unfolding map_segment_def n
    using map_pages_ok [OF assms(1), of "unat pages" 0 vaddr "unat vaddr div 4096"] assms(3-5) segment_page [OF assms(2)] by simp
qed

lemma ld_do_run: "f (ld_kernel s) = Inr k \<Longrightarrow> ld_do f s = Inr (s\<lparr>ld_procs := (ld_procs s)\<lparr>kernel := k\<rparr>\<rparr>)"
  by (simp add: ld_do_def run_kernel_def)

lemma ld_run_run: "f (ld_kernel s) = Inr (r, k) \<Longrightarrow> ld_run f s = Inr (r, s\<lparr>ld_procs := (ld_procs s)\<lparr>kernel := k\<rparr>\<rparr>)"
  by (simp add: ld_run_def in_kernel_def)

lemma asid_cast: "(ucast (word_of_int i :: uint32) :: 8 word) = word_of_int i"
  by transfer simp

text \<open>The first part: the thread gets the process number and an empty page table in a page of its own.\<close>

lemma start_table_ok:
  assumes "startable_thread tid pages (ld_kernel s)" "rd (process_table (ld_procs s)) pid = Inr row"
  shows "\<exists>table k. start_table pid s = Inr ((cstring (executable row), table), s\<lparr>ld_procs := (ld_procs s)\<lparr>kernel := k\<rparr>\<rparr>) \<and>
    table \<noteq> 0 \<and> mapped table k k Map.empty \<and> pt_ASID (pagetable_at k table) = word_of_int tid \<and> cp0_asid k = word_of_int tid \<and>
    tlb k = tlb (ld_kernel s) \<and> pagepool_num_free_pages k = pagepool_num_free_pages (ld_kernel s) - 1 \<and>
    (\<exists>e. rd (thread_table k) tid = Inr e \<and> th_pagetable e = table \<and> th_process_id e = pid)"
proof -
  let ?k = "ld_kernel s"
  obtain e where A: "rd (scheduler_current_thread ?k) (this_cpu ?k) = Inr tid" "rd (thread_table ?k) tid = Inr e" "th_pagetable e = 0"
    "pool_ok ?k" "pagepool_num_free_pages ?k > 0" "\<forall>t. length (pt_entries (pagetable_at ?k t)) = PAGETABLE_ENTRIES"
    using assms(1) by (auto simp: startable_thread_def)
  have tid: "0 \<le> tid" "nat tid < length (thread_table ?k)" "e = thread_table ?k ! nat tid" using A(2) by (auto simp: rd_def split: if_splits)
  let ?k1 = "?k\<lparr>thread_table := (thread_table ?k)[nat tid := e\<lparr>th_process_id := pid\<rparr>]\<rparr>"
  have pool1: "pool_ok ?k1" "pagepool_num_free_pages ?k1 > 0" using A(4,5) by (simp_all add: pool_ok_def page_used_def [abs_def])
  obtain p where p: "p < nat (pagepool_num_pages ?k1)" "\<not> page_used ?k1 p"
    "vm_create_pagetable (word_of_int tid) ?k1 = Inr (ADDR_PHYS_TO_KERNEL (page_addr p), ?k1\<lparr>pagepool_free_pages := bm_upd (pagepool_free_pages ?k1) p True,
        pagepool_num_free_pages := pagepool_num_free_pages ?k1 - 1, pagetable_at := (pagetable_at ?k1)(ADDR_PHYS_TO_KERNEL (page_addr p) :=
          (pagetable_at ?k1 (ADDR_PHYS_TO_KERNEL (page_addr p)))\<lparr>pt_ASID := word_of_int tid, valid_count := 0\<rparr>)\<rparr>)"
    by (rule vm_create_cases [OF pool1(1), of "word_of_int tid"]) (use pool1(2) in auto)
  let ?t = "ADDR_PHYS_TO_KERNEL (page_addr p)"
  let ?k2 = "?k1\<lparr>pagepool_free_pages := bm_upd (pagepool_free_pages ?k1) p True,
        pagepool_num_free_pages := pagepool_num_free_pages ?k1 - 1, pagetable_at := (pagetable_at ?k1)(?t :=
          (pagetable_at ?k1 ?t)\<lparr>pt_ASID := word_of_int tid, valid_count := 0\<rparr>)\<rparr>"
  let ?k3 = "?k2\<lparr>thread_table := (thread_table ?k)[nat tid := e\<lparr>th_process_id := pid, th_pagetable := ?t\<rparr>], cp0_asid := word_of_int tid\<rparr>"
  have nz: "?t \<noteq> 0" unfolding ADDR_PHYS_TO_KERNEL_def by (simp add: or_eq_0_iff)
  have run: "start_table pid s = Inr ((cstring (executable row), ?t), s\<lparr>ld_procs := (ld_procs s)\<lparr>kernel := ?k3\<rparr>\<rparr>)"
    using A(3) assms(2) tid p(3) nz current_thread_run [OF A(1)] unfolding start_table_def
    by (simp add: ld_run_def in_kernel_def ld_do_def run_kernel_def tt_upd_def tt_get_def pt_get_def interrupt_disable_def
        interrupt_set_state_def tlb_set_asid_def asid_cast)
  have empty: "pt_ok (pagetable_at ?k2 ?t) \<and> (\<forall>a. pt_lookup (pagetable_at ?k2 ?t) a = None) \<and> pt_ASID (pagetable_at ?k2 ?t) = word_of_int tid"
    by (rule vm_create_pagetable_empty [OF pool1(1) p(3) nz]) (use A(6) in simp)
  have "pool_ok ?k2" using pool_ok_get [OF pool1(1) p(1,2)] by (simp add: pool_ok_def page_used_def [abs_def])
  then have "mapped ?t ?k3 ?k3 Map.empty"
    unfolding mapped_def using empty self_update [of ?k3 ?t] by (intro conjI, blast) (simp_all add: pool_ok_def page_used_def [abs_def])
  with run nz empty tid show ?thesis
    by (intro exI [of _ ?t] exI [of _ ?k3]) simp
qed

text \<open>
  The second part: the stack and the segments are mapped, but the TLB holds the page table as it was
  after the stack.
\<close>

definition image_page_set :: "elf_info_t \<Rightarrow> nat set" where
  "image_page_set elf = {stack_base div 4096} \<union>
     {unat (ro_vaddr elf) div 4096..<unat (ro_vaddr elf) div 4096 + unat (ro_pages elf)} \<union>
     {unat (rw_vaddr elf) div 4096..<unat (rw_vaddr elf) div 4096 + unat (rw_pages elf)}"

definition process_mapped :: "elf_info_t \<Rightarrow> int \<Rightarrow> 'a sems_scheme \<Rightarrow> uint32 \<Rightarrow> 'a sems_scheme \<Rightarrow> bool" where
  "process_mapped elf tid k0 table k \<longleftrightarrow> table \<noteq> 0 \<and> tlb k \<noteq> [] \<and> cp0_asid k = word_of_int tid \<and>
     (\<exists>F. mapped table k k F \<and> pt_ASID (pagetable_at k table) = word_of_int tid \<and> dom F = image_page_set elf \<and>
       unat (valid_count (pagetable_at k table)) \<le> length (tlb k) \<and>
       (\<exists>pt1. tlb k = valid_entries pt1 @ drop (unat (valid_count pt1)) (tlb k0) \<and> pt_ok pt1 \<and> pt_ASID pt1 = word_of_int tid \<and>
         (\<forall>a. pt_lookup pt1 a \<noteq> None \<longrightarrow> page_of a = stack_base div 4096) \<and>
         unat (valid_count pt1) \<le> unat (valid_count (pagetable_at k table))))"

lemma good_pages:
  assumes "good_segment c location sz pages vaddr"
  shows "unat vaddr div 4096 + unat pages \<le> stack_base div 4096" "unat pages < 2 ^ 19" "unat vaddr div 4096 * 4096 = unat vaddr"
proof -
  show eq: "unat vaddr div 4096 * 4096 = unat vaddr" using assms by (simp add: good_segment_def)
  have "(unat vaddr div 4096 + unat pages) * 4096 \<le> stack_base"
    using assms by (simp add: good_segment_def add_mult_distrib)
  then show "unat vaddr div 4096 + unat pages \<le> stack_base div 4096" using div_le_mono [of _ stack_base 4096] by fastforce
  then show "unat pages < 2 ^ 19" by (simp add: stack_base_def)
qed

lemma map_stack_run: "map_stack table k = map_user_page table (of_nat stack_base) k"
  by (cases "map_user_page table (of_nat stack_base) k")
    (simp_all add: map_stack_def CONFIG_USERLAND_STACK_SIZE_def stack_page for_rangeE.simps)

lemma process_mapped_ok:
  assumes "mapped table k k Map.empty" "table \<noteq> 0" "pt_ASID (pagetable_at k table) = word_of_int tid" "cp0_asid k = word_of_int tid"
    "good_image c elf" "int (image_pages elf) \<le> pagepool_num_free_pages k"
    "image_pages elf \<le> length (tlb k)" "length (tlb k) \<le> PAGETABLE_ENTRIES"
  shows "\<exists>k1 k2 k3 k4. map_stack table k = Inr k1 \<and> reload_tlb table k1 = Inr k2 \<and>
    map_segment table (ro_vaddr elf) (sint (ro_pages elf)) k2 = Inr k3 \<and>
    map_segment table (rw_vaddr elf) (sint (rw_pages elf)) k3 = Inr k4 \<and> process_mapped elf tid k table k4"
proof -
  have gr: "good_segment c (ro_location elf) (ro_size elf) (ro_pages elf) (ro_vaddr elf)"
    and gw: "good_segment c (rw_location elf) (rw_size elf) (rw_pages elf) (rw_vaddr elf)"
    using assms(5) by (simp_all add: good_image_def)
  note pr = good_pages [OF gr] and pw = good_pages [OF gw]
  let ?S = "stack_base div 4096"
  have S: "page_of (of_nat stack_base) = ?S" by (rule page_of_nat) (simp add: stack_base_def)
  have free: "pagepool_num_free_pages k > 0" using assms(6) unfolding image_pages_def by linarith
  obtain p k1 where k1: "map_user_page table (of_nat stack_base) k = Inr k1" "mapped table k k1 [?S \<mapsto> p]"
    "pagepool_num_free_pages k1 = pagepool_num_free_pages k - 1"
    using map_user_page_ok [OF assms(1), of "of_nat stack_base"] free unfolding S by (auto simp: PAGETABLE_ENTRIES_def)
  let ?pt1 = "pagetable_at k1 table"
  have same: "tlb k1 = tlb k" "cp0_asid k1 = cp0_asid k" using k1(2) by (auto simp: mapped_def)
  have pt1: "pt_ok ?pt1" "pt_ASID ?pt1 = word_of_int tid" "unat (valid_count ?pt1) \<le> 1"
    "\<And>a. pt_lookup ?pt1 a = map_option (\<lambda>p. (of_nat p, True)) ([?S \<mapsto> p] (page_of a))"
    using k1(2) assms(3) by (simp_all add: mapped_def)
  let ?t = "valid_entries ?pt1 @ drop (unat (valid_count ?pt1)) (tlb k)"
  let ?k2 = "k1\<lparr>tlb := ?t, cp0_asid := ucast (pt_ASID ?pt1)\<rparr>"
  have ne: "tlb k \<noteq> []" using assms(7) by (auto simp: image_pages_def)
  have fits: "unat (valid_count ?pt1) \<le> length (tlb k)" using pt1(3) ne by (cases "tlb k") auto
  have k2: "reload_tlb table k1 = Inr ?k2"
    using reload_tlb_run [OF assms(2) refl pt1(1)] same ne fits by simp
  have len: "length ?t = length (tlb k)" using fits pt1(1) by (simp add: valid_entries_def pt_ok_def)
  have m2: "mapped table ?k2 ?k2 [?S \<mapsto> p]" by (rule mapped_tlb [OF mapped_refl [OF k1(2)]])
  have free2: "int (unat (ro_pages elf)) \<le> pagepool_num_free_pages k1" using k1(3) assms(6) unfolding image_pages_def by linarith
  have room2: "card (dom [?S \<mapsto> p]) + unat (ro_pages elf) \<le> PAGETABLE_ENTRIES" using assms(7,8) by (simp add: image_pages_def)
  have new2: "[?S \<mapsto> p] (unat (ro_vaddr elf) div 4096 + j) = None" if "j < unat (ro_pages elf)" for j using that pr(1) by simp
  obtain k3 F3 where k3: "map_segment table (ro_vaddr elf) (sint (ro_pages elf)) ?k2 = Inr k3" "mapped table ?k2 k3 F3"
    "dom F3 = {?S} \<union> {unat (ro_vaddr elf) div 4096..<unat (ro_vaddr elf) div 4096 + unat (ro_pages elf)}"
    "pagepool_num_free_pages k3 = pagepool_num_free_pages k1 - int (unat (ro_pages elf))"
    "unat (valid_count ?pt1) \<le> unat (valid_count (pagetable_at k3 table))"
    using map_segment_ok [OF m2 gr] free2 room2 new2 by auto
  have c3: "card (dom F3) \<le> 1 + unat (ro_pages elf)" unfolding k3(3) by (rule order_trans [OF card_Un_le]) simp
  have new: "F3 (unat (rw_vaddr elf) div 4096 + j) = None" if "j < unat (rw_pages elf)" for j
  proof -
    have "unat (ro_vaddr elf) div 4096 * 4096 + 4096 * unat (ro_pages elf) \<le> unat (rw_vaddr elf) div 4096 * 4096 \<or>
      unat (rw_vaddr elf) div 4096 * 4096 + 4096 * unat (rw_pages elf) \<le> unat (ro_vaddr elf) div 4096 * 4096"
      using assms(5) unfolding pr(3) pw(3) by (simp add: good_image_def)
    then have "unat (rw_vaddr elf) div 4096 + j \<notin> dom F3" using that pw(1) unfolding k3(3) by auto
    then show ?thesis by (simp add: domIff)
  qed
  have free3: "int (unat (rw_pages elf)) \<le> pagepool_num_free_pages k3" using k3(4) k1(3) assms(6) unfolding image_pages_def by linarith
  have room3: "card (dom F3) + unat (rw_pages elf) \<le> PAGETABLE_ENTRIES" using c3 assms(7,8) by (simp add: image_pages_def)
  obtain k4 F4 where k4: "map_segment table (rw_vaddr elf) (sint (rw_pages elf)) k3 = Inr k4" "mapped table k3 k4 F4"
    "dom F4 = dom F3 \<union> {unat (rw_vaddr elf) div 4096..<unat (rw_vaddr elf) div 4096 + unat (rw_pages elf)}"
    "unat (valid_count (pagetable_at k3 table)) \<le> unat (valid_count (pagetable_at k4 table))"
    using map_segment_ok [OF mapped_refl [OF k3(2)] gw free3 room3 new] by blast
  have tlb4: "tlb k4 = ?t" "cp0_asid k4 = word_of_int tid" "pt_ASID (pagetable_at k4 table) = word_of_int tid"
    using k3(2) k4(2) pt1(2) by (auto simp: mapped_def asid_cast)
  have dom4: "dom F4 = image_page_set elf" unfolding k4(3) k3(3) image_page_set_def by auto
  have "card (dom F4) \<le> card (dom F3) + unat (rw_pages elf)" unfolding k4(3) by (rule order_trans [OF card_Un_le]) simp
  then have "unat (valid_count (pagetable_at k4 table)) \<le> length (tlb k4)"
    using k4(2) c3 assms(7) len unfolding tlb4 by (simp add: mapped_def image_pages_def)
  moreover have "tlb k4 \<noteq> []" using len ne unfolding tlb4 by (metis length_0_conv)
  moreover have "page_of a = ?S" if "pt_lookup ?pt1 a \<noteq> None" for a using that pt1(4) by (auto split: if_splits)
  ultimately have "process_mapped elf tid k table k4"
    unfolding process_mapped_def
    using assms(2) tlb4 mapped_refl [OF k4(2)] dom4 pt1(1,2) order_trans [OF k3(5) k4(4)]
    by (intro conjI exI [of _ F4] exI [of _ ?pt1]) blast+
  with k1(1) k2 k3(1) k4(1) show ?thesis unfolding map_stack_run by blast
qed

lemma start_map_ok:
  assumes "startable g ok blk N T f name c elf tid pid s"
  shows "\<exists>table fd s' B q. start_map (tfs_ops g) pid s = Inr ((table, int fd, elf), s') \<and>
    tfs_file_at g ok blk N T B f name c fd q (ld_vfs s') \<and> process_mapped elf tid (ld_kernel s) table (ld_kernel s')"
proof -
  obtain row vol where A: "executable_info c = Some elf" "good_image c elf" "startable_thread tid (image_pages elf) (ld_kernel s)"
    "rd (process_table (ld_procs s)) pid = Inr row" and fl: "block_device g ok blk N" "vfs_free (ld_vfs s)"
    "vfs_parse_pathname (cstring (executable row)) = Some (vol, name)" "mounted_at (ld_vfs s) vol f"
    "ready ok blk N T (volume_of (ld_vfs s) f)" "file_name name" "contents blk (volume_of (ld_vfs s) f) name = Some c"
    "\<exists>i < CONFIG_MAX_OPEN_FILES. of_filesystem (openfiles (ld_vfs s) ! i) = None"
    and ph: "unat (e_phoff (get_Ehdr c)) + sizeof_Phdr * unat (e_phnum (get_Ehdr c)) < 2 ^ 31"
    using assms by (auto simp: startable_def startable_file_def)
  obtain table k where t: "start_table pid s = Inr ((cstring (executable row), table), s\<lparr>ld_procs := (ld_procs s)\<lparr>kernel := k\<rparr>\<rparr>)"
    "table \<noteq> 0" "mapped table k k Map.empty" "pt_ASID (pagetable_at k table) = word_of_int tid" "cp0_asid k = word_of_int tid"
    "tlb k = tlb (ld_kernel s)" "pagepool_num_free_pages k = pagepool_num_free_pages (ld_kernel s) - 1"
    using start_table_ok [OF A(3,4)] by blast
  obtain fd B v1 where o: "vfs_open (tfs_ops g) (cstring (executable row)) (ld_vfs s) = Inr (int fd, v1)" "tfs_file_at g ok blk N T B f name c fd 0 v1"
    using tfs_file_open [OF fl] by blast
  obtain v2 q where e: "elf_parse_header (tfs_ops g) zero_elf (int fd) v1 = Inr ((1, elf), v2)" "tfs_file_at g ok blk N T B f name c fd q v2"
    using tfs_file.parse_ok [OF o(2) ph, of zero_elf] A(1) by (auto simp: returns_def)
  have th: "int (image_pages elf) < pagepool_num_free_pages (ld_kernel s)" "image_pages elf \<le> length (tlb k)" "length (tlb k) \<le> PAGETABLE_ENTRIES"
    using A(3) t(6) by (simp_all add: startable_thread_def)
  obtain k1 k2 k3 k4 where m: "map_stack table k = Inr k1" "reload_tlb table k1 = Inr k2"
    "map_segment table (ro_vaddr elf) (sint (ro_pages elf)) k2 = Inr k3" "map_segment table (rw_vaddr elf) (sint (rw_pages elf)) k3 = Inr k4"
    "process_mapped elf tid k table k4"
    using process_mapped_ok [OF t(3,2,4,5) A(2) _ th(2,3)] th(1) t(7) by (auto simp: image_pages_def)
  have "process_mapped elf tid (ld_kernel s) table k4" using m(5) unfolding process_mapped_def t(6) .
  moreover have "start_map (tfs_ops g) pid s = Inr ((table, int fd, elf), s\<lparr>ld_vfs := v2, ld_procs := (ld_procs s)\<lparr>kernel := k4\<rparr>\<rparr>)"
  proof -
    have u: "unat (ro_pages elf + rw_pages elf + 1) = image_pages elf" "unat (of_nat (length (tlb k) - 1) + 1 :: uint32) = length (tlb k)"
    proof -
      have "unat (ro_pages elf) < 2 ^ 19" "unat (rw_pages elf) < 2 ^ 19"
        using A(2) good_pages(2) unfolding good_image_def by blast+
      then show "unat (ro_pages elf + rw_pages elf + 1) = image_pages elf" by (simp add: image_pages_def unat_word_ariths)
      have "of_nat (length (tlb k) - 1) + 1 = (of_nat (length (tlb k)) :: uint32)"
        using th(2) by (simp add: image_pages_def of_nat_diff)
      then show "unat (of_nat (length (tlb k) - 1) + 1 :: uint32) = length (tlb k)"
        using th(3) by (simp only: unat_of_nat_small) (simp add: unat_of_nat_small PAGETABLE_ENTRIES_def)
    qed
    then have room: "ro_pages elf + rw_pages elf + of_nat CONFIG_USERLAND_STACK_SIZE \<le> of_nat (tlb_get_maxindex k) + 1"
      using th(2) unfolding word_le_nat_alt by (simp add: CONFIG_USERLAND_STACK_SIZE_def tlb_get_maxindex_def)
    have "PAGE_SIZE \<le> entry_point elf" using A(2) by (simp add: good_image_def)
    with t(1) o(1) e(1) m(1-4) room show ?thesis
      by (simp add: start_map_def ld_fs_run ld_do_run)
  qed
  ultimately show ?thesis using e(2)
    by (intro exI [of _ table] exI [of _ fd] exI [of _ "s\<lparr>ld_vfs := v2, ld_procs := (ld_procs s)\<lparr>kernel := k4\<rparr>\<rparr>"] exI [of _ B] exI [of _ q]) simp
qed

subsection \<open>The missing reload\<close>

definition fresh_asid :: "int \<Rightarrow> tlb_entry list \<Rightarrow> bool" where
  "fresh_asid tid es \<longleftrightarrow> (\<forall>e \<in> set es. tlb_ASID e \<noteq> word_of_int tid \<and> \<not> (G0 e = 1 \<and> G1 e = 1))"

lemma fresh_no_match: "fresh_asid tid es \<Longrightarrow> e \<in> set (drop n es) \<Longrightarrow> \<not> tlb_matches (word_of_int tid) a e"
  using in_set_dropD [of e n es] by (auto simp: fresh_asid_def tlb_matches_def)

lemma startable_fresh: "startable g ok blk N T f name c elf tid pid s \<Longrightarrow> fresh_asid tid (tlb (ld_kernel s))"
  by (simp add: startable_def startable_thread_def fresh_asid_def)

lemma access_fault_store: "access_fault EXCEPTION_TLBS s = Inl (Panic ''TLB Store: not handled yet'')"
  by (simp add: access_fault_def ld_do_def run_kernel_def kernel_exception_handle_def exception_codes KERNEL_PANIC_def split: prod.splits)

lemma memoryset0_unmapped:
  assumes "unat a < 2 ^ 31" "sz > 0" "mmu (tlb (ld_kernel s)) (cp0_asid (ld_kernel s)) a = None"
  shows "user_memoryset0 mmu a sz s = Inl (Panic ''TLB Store: not handled yet'')"
proof -
  obtain n where n: "nat sz = Suc n" using assms(2) by (cases "nat sz") auto
  have low: "\<not> a \<ge> 0x80000000" using assms(1) by (simp add: word_le_nat_alt)
  show ?thesis using assms(3) low unfolding user_memoryset0_def n by (simp add: store_byte_def access_fault_store)
qed

context mips_tlb
begin

lemma unmapped_segment:
  assumes "process_mapped elf tid k0 table (ld_kernel s)" "fresh_asid tid (tlb k0)" "good_segment c location sz pages vaddr" "0 < unat pages"
  shows "user_memoryset0 mmu vaddr (sint (pages * PAGE_SIZE)) s = Inl (Panic ''TLB Store: not handled yet'')"
proof -
  obtain pt1 where pt1: "tlb (ld_kernel s) = valid_entries pt1 @ drop (unat (valid_count pt1)) (tlb k0)" "pt_ok pt1"
    "pt_ASID pt1 = word_of_int tid" "\<And>a. pt_lookup pt1 a \<noteq> None \<Longrightarrow> page_of a = stack_base div 4096" "cp0_asid (ld_kernel s) = word_of_int tid"
    using assms(1) unfolding process_mapped_def by blast
  have asid: "ucast (pt_ASID pt1) = (word_of_int tid :: 8 word)" unfolding pt1(3) by (rule asid_cast)
  have "page_of vaddr < stack_base div 4096" using good_pages(1) [OF assms(3)] assms(4) by (simp add: page_of_def)
  then have "pt_lookup pt1 vaddr = None" using pt1(4) by (metis less_irrefl)
  moreover have "mmu (tlb (ld_kernel s)) (word_of_int tid) vaddr = pt_lookup pt1 vaddr"
    using mmu_table [OF pt1(2), of "drop (unat (valid_count pt1)) (tlb k0)" vaddr] fresh_no_match [OF assms(2)] unfolding asid pt1(1) by blast
  moreover have "unat vaddr < 2 ^ 31" using assms(3) by (simp add: good_segment_def stack_base_def)
  moreover have "sint (pages * PAGE_SIZE) > 0" using segment_bytes [OF assms(3)] assms(4) by linarith
  ultimately show ?thesis using pt1(5) by (intro memoryset0_unmapped) simp_all
qed

end

subsection \<open>A process that could start\<close>

text \<open>The sample executable, a kernel with ten free pages and an empty TLB, and process 0 to be started by thread 1.\<close>

definition load_kernel :: sems where
  "load_kernel = sample_kernel\<lparr>pagepool_num_pages := 12, pagepool_num_free_pages := 10\<rparr>"

definition load_procs :: "unit procs" where
  "load_procs = \<lparr>process_table = replicate 8 (blank_row\<lparr>executable := ''[disk1]prog'' @ replicate 117 NUL\<rparr>),
     process_table_slock = 0, kernel = load_kernel\<rparr>"

lemma load_kernel_pool: "pool_ok load_kernel"
proof -
  have used: "page_used load_kernel p \<longleftrightarrow> p < 2" if "p < 12" for p
  proof -
    have "p \<in> set [0..<12]" using that by simp
    then show ?thesis by (auto simp: upt_rec page_used_def bm_bit_def load_kernel_def sample_kernel_def)
  qed
  then have "unset_below (page_used load_kernel) 12 = {2..<12}" unfolding unset_below_def by force
  with used show ?thesis by (simp add: pool_ok_def load_kernel_def sample_kernel_def)
qed

lemma load_kernel_startable: "startable_thread 1 4 load_kernel"
proof -
  have "rd (thread_table load_kernel) 1 = Inr (sample_row 1)" by (simp add: rd_def load_kernel_def sample_kernel_def CONFIG_MAX_THREADS_def)
  then show ?thesis
    using load_kernel_pool
    by (simp add: startable_thread_def load_kernel_def sample_kernel_def sample_row_def rd_def sample_table_def blank_entry_def PAGETABLE_ENTRIES_def)
qed

lemma sample_image: "good_image sample_elf sample_info" "image_pages sample_info = 4"
  by (simp_all add: good_image_def good_segment_def sample_info_def stack_base_def sample_elf_length PAGE_SIZE_def image_pages_def dvd_def)

lemma sample_startable:
  obtains v :: "(block list, unit) volumes vfs" where
    "startable mem_gbd (mem_ok 10) mem_blk 10 10 5 ''prog'' sample_elf sample_info 1 0 \<lparr>ld_vfs = v, ld_procs = load_procs, phys_mem = \<lambda>_. NUL\<rparr>"
proof -
  obtain v :: "(block list, unit) volumes vfs" where v: "vfs_free v" "mounted_at v ''disk1'' 5" "ready (mem_ok 10) mem_blk 10 10 (volume_of v 5)"
    "contents mem_blk (volume_of v 5) ''prog'' = Some sample_elf" "openfiles v = openfiles (empty_vfs (drivers v))" by (rule sample_executable)
  have n: "file_name ''prog''" by (simp add: file_name_def c_string_def NUL_def)
  have o: "\<exists>i < CONFIG_MAX_OPEN_FILES. of_filesystem (openfiles v ! i) = None"
    unfolding v(5) by (intro exI [of _ 0]) (simp add: empty_vfs_def CONFIG_MAX_OPEN_FILES_def)
  have exe: "cstring (''[disk1]prog'' @ replicate 117 NUL) = ''[disk1]prog''"
    using cstring_terminated [of "''[disk1]prog''" "replicate 116 NUL"] by (simp add: c_string_def NUL_def numeral_eq_Suc)
  have "startable_file mem_gbd (mem_ok 10) mem_blk 10 10 5 ''prog'' sample_elf ''[disk1]prog'' v"
    using mem.block_device_axioms v(1-4) n o sample_path by (simp add: startable_file_def sample_Ehdr)
  then have "startable mem_gbd (mem_ok 10) mem_blk 10 10 5 ''prog'' sample_elf sample_info 1 0 \<lparr>ld_vfs = v, ld_procs = load_procs, phys_mem = \<lambda>_. NUL\<rparr>"
    using sample_elf_info sample_image load_kernel_startable exe by (simp add: startable_def load_procs_def rd_def)
  then show ?thesis by (rule that)
qed

text \<open>
  C35: \<^verbatim>\<open>process_start\<close>, run without an interrupt, cannot start a program.  With a valid executable, enough memory and
  enough TLB entries, it loads the TLB after it has mapped the stack and before it maps the segments; the first
  byte it then clears in a segment is not in the TLB, and the handler of the exception stops the kernel.
\<close>

theorem process_start_panics:
  assumes "startable g ok blk N T f name c elf tid pid s" "mips_tlb mmu" "0 < ro_pages elf \<or> 0 < rw_pages elf"
  shows "process_start mmu (tfs_ops g) ctx pid s = Inl (Panic ''TLB Store: not handled yet'')"
proof -
  obtain table fd s1 where m: "start_map (tfs_ops g) pid s = Inr ((table, int fd, elf), s1)"
    "process_mapped elf tid (ld_kernel s) table (ld_kernel s1)" using start_map_ok [OF assms(1)] by blast
  have gr: "good_segment c (ro_location elf) (ro_size elf) (ro_pages elf) (ro_vaddr elf)"
    and gw: "good_segment c (rw_location elf) (rw_size elf) (rw_pages elf) (rw_vaddr elf)"
    using assms(1) by (simp_all add: startable_def good_image_def)
  note miss = mips_tlb.unmapped_segment [OF assms(2) m(2) startable_fresh [OF assms(1)]]
  have "start_load mmu (tfs_ops g) (int fd) elf s1 = Inl (Panic ''TLB Store: not handled yet'')"
  proof (cases "ro_pages elf = 0")
    case True
    then have "0 < unat (rw_pages elf)" using assms(3) by (simp add: word_less_nat_alt)
    with miss [OF gw] True show ?thesis by (simp add: start_load_def Let_def user_memoryset0_def)
  next
    case False
    then have "0 < unat (ro_pages elf)" by (simp add: unat_gt_0)
    with miss [OF gr] show ?thesis by (simp add: start_load_def Let_def)
  qed
  with m(1) show ?thesis by (simp add: process_start_def)
qed

theorem process_start_panics_witness:
  "\<exists>v :: (block list, unit) volumes vfs. process_start first_match (tfs_ops mem_gbd) 0x80010000 0
     \<lparr>ld_vfs = v, ld_procs = load_procs, phys_mem = \<lambda>_. NUL\<rparr> = Inl (Panic ''TLB Store: not handled yet'')"
proof -
  obtain v :: "(block list, unit) volumes vfs" where
    "startable mem_gbd (mem_ok 10) mem_blk 10 10 5 ''prog'' sample_elf sample_info 1 0 \<lparr>ld_vfs = v, ld_procs = load_procs, phys_mem = \<lambda>_. NUL\<rparr>"
    by (rule sample_startable)
  from process_start_panics [OF this yams_tlb.mips_tlb_axioms, of "0x80010000"] show ?thesis by (auto simp: sample_info_def)
qed

subsection \<open>The process image\<close>

text \<open>The loop that makes the pages of the read-only segment read-only.\<close>

lemma protect_pages_ok:
  assumes "pt_ok (pagetable_at k table)" "i \<le> n" "\<And>j. i \<le> j \<Longrightarrow> j < n \<Longrightarrow> page_of (vaddr + of_nat j * PAGE_SIZE) = pg + j"
    "\<And>a. page_of a \<in> {pg + i..<pg + n} \<Longrightarrow> pt_lookup (pagetable_at k table) a \<noteq> None"
  shows "\<exists>pt. for_rangeE i n (\<lambda>j k. bindE (vm_set_dirty (pagetable_at k table) (vaddr + of_nat j * PAGE_SIZE) 0) (\<lambda>pt.
       Inr (k\<lparr>pagetable_at := (pagetable_at k)(table := pt)\<rparr>))) k = Inr (k\<lparr>pagetable_at := (pagetable_at k)(table := pt)\<rparr>) \<and>
     pt_ok pt \<and> pt_ASID pt = pt_ASID (pagetable_at k table) \<and> valid_count pt = valid_count (pagetable_at k table) \<and>
     (\<forall>a. pt_lookup pt a = (if page_of a \<in> {pg + i..<pg + n} then map_option (\<lambda>(p, _). (p, False)) (pt_lookup (pagetable_at k table) a)
        else pt_lookup (pagetable_at k table) a))"
  using assms
proof (induction "n - i" arbitrary: i k)
  case 0
  then show ?case by (intro exI [of _ "pagetable_at k table"]) simp
next
  case (Suc m)
  then have i: "i < n" by simp
  let ?pt = "pagetable_at k table" and ?a = "vaddr + of_nat i * PAGE_SIZE"
  have pg: "page_of ?a = pg + i" using Suc.prems(3) i by simp
  then obtain p d where "pt_lookup ?pt ?a = Some (p, d)" using Suc.prems(4) [of ?a] i by auto
  from vm_set_dirty_mapped [OF Suc.prems(1) _ this, of 0] obtain pt1 where
    pt1: "vm_set_dirty ?pt ?a 0 = Inr pt1" "pt_ok pt1" "\<And>a. pt_lookup pt1 a = (if same_page a ?a then Some (p, False) else pt_lookup ?pt a)" by auto
  note same = vm_set_dirty_count [OF pt1(1)]
  have look1: "pt_lookup pt1 a = (if page_of a = pg + i then map_option (\<lambda>(p, _). (p, False)) (pt_lookup ?pt a) else pt_lookup ?pt a)" for a
    using pt1(3) pt_lookup_page [of a ?a ?pt] \<open>pt_lookup ?pt ?a = Some (p, d)\<close> by (simp add: same_page_of pg)
  let ?k = "k\<lparr>pagetable_at := (pagetable_at k)(table := pt1)\<rparr>"
  have "\<exists>pt. for_rangeE (Suc i) n (\<lambda>j k. bindE (vm_set_dirty (pagetable_at k table) (vaddr + of_nat j * PAGE_SIZE) 0) (\<lambda>pt.
       Inr (k\<lparr>pagetable_at := (pagetable_at k)(table := pt)\<rparr>))) ?k = Inr (?k\<lparr>pagetable_at := (pagetable_at ?k)(table := pt)\<rparr>) \<and>
     pt_ok pt \<and> pt_ASID pt = pt_ASID (pagetable_at ?k table) \<and> valid_count pt = valid_count (pagetable_at ?k table) \<and>
     (\<forall>a. pt_lookup pt a = (if page_of a \<in> {pg + Suc i..<pg + n} then map_option (\<lambda>(p, _). (p, False)) (pt_lookup (pagetable_at ?k table) a)
        else pt_lookup (pagetable_at ?k table) a))"
  proof (rule Suc.hyps(1))
    fix a assume "page_of a \<in> {pg + Suc i..<pg + n}"
    then show "pt_lookup (pagetable_at ?k table) a \<noteq> None" using look1 Suc.prems(4) [of a] by auto
  qed (use Suc.hyps(2) Suc.prems(3) i pt1(2) in auto)
  then obtain pt where pt: "for_rangeE (Suc i) n (\<lambda>j k. bindE (vm_set_dirty (pagetable_at k table) (vaddr + of_nat j * PAGE_SIZE) 0) (\<lambda>pt.
       Inr (k\<lparr>pagetable_at := (pagetable_at k)(table := pt)\<rparr>))) ?k = Inr (k\<lparr>pagetable_at := (pagetable_at k)(table := pt)\<rparr>)"
     "pt_ok pt" "pt_ASID pt = pt_ASID ?pt" "valid_count pt = valid_count ?pt"
     "\<And>a. pt_lookup pt a = (if page_of a \<in> {pg + Suc i..<pg + n} then map_option (\<lambda>(p, _). (p, False)) (pt_lookup pt1 a) else pt_lookup pt1 a)"
    using same by auto
  have "pt_lookup pt a = (if page_of a \<in> {pg + i..<pg + n} then map_option (\<lambda>(p, _). (p, False)) (pt_lookup ?pt a) else pt_lookup ?pt a)" for a
    using i unfolding pt(5) look1 by auto
  with pt(1-4) pt1(1) i show ?case by (intro exI [of _ pt]) (simp add: for_rangeE.simps [of i])
qed

lemma protect_segment_ok:
  assumes "mapped table k k F" "good_segment c location sz pages vaddr" "{unat vaddr div 4096..<unat vaddr div 4096 + unat pages} \<subseteq> dom F"
  shows "\<exists>pt. protect_segment table vaddr (sint pages) k = Inr (k\<lparr>pagetable_at := (pagetable_at k)(table := pt)\<rparr>) \<and>
     pt_ok pt \<and> pt_ASID pt = pt_ASID (pagetable_at k table) \<and> valid_count pt = valid_count (pagetable_at k table) \<and>
     (\<forall>a. pt_lookup pt a = map_option (\<lambda>p. (of_nat p, page_of a \<notin> {unat vaddr div 4096..<unat vaddr div 4096 + unat pages})) (F (page_of a)))"
proof -
  have "sint pages = int (unat pages)" using assms(2) by (intro sint_small) (simp add: good_segment_def stack_base_def)
  then have n: "nat (sint pages) = unat pages" by (simp only: nat_int)
  have M: "pt_ok (pagetable_at k table)" "\<And>a. pt_lookup (pagetable_at k table) a = map_option (\<lambda>p. (of_nat p, True)) (F (page_of a))"
    using assms(1) by (simp_all add: mapped_def)
  let ?R = "{unat vaddr div 4096..<unat vaddr div 4096 + unat pages}"
  have "pt_lookup (pagetable_at k table) a \<noteq> None" if "page_of a \<in> ?R" for a using that assms(3) M(2) by auto
  with protect_pages_ok [OF M(1), of 0 "unat pages" vaddr "unat vaddr div 4096"] segment_page [OF assms(2)]
  obtain pt where pt: "protect_segment table vaddr (sint pages) k = Inr (k\<lparr>pagetable_at := (pagetable_at k)(table := pt)\<rparr>)"
     "pt_ok pt" "pt_ASID pt = pt_ASID (pagetable_at k table)" "valid_count pt = valid_count (pagetable_at k table)"
     "\<And>a. pt_lookup pt a = (if page_of a \<in> ?R then map_option (\<lambda>(p, _). (p, False)) (pt_lookup (pagetable_at k table) a)
        else pt_lookup (pagetable_at k table) a)"
    unfolding protect_segment_def n by auto
  moreover have "pt_lookup pt a = map_option (\<lambda>p. (of_nat p, page_of a \<notin> ?R)) (F (page_of a))" for a
    unfolding pt(5) M(2) by (cases "F (page_of a)") simp_all
  ultimately show ?thesis by blast
qed

text \<open>
  The TLB after a reload: it translates as the page table.
\<close>

context mips_tlb
begin

lemma reloaded:
  assumes "table \<noteq> 0" "tlb k \<noteq> []" "pt_ok (pagetable_at k table)" "pt_ASID (pagetable_at k table) = word_of_int tid"
    "unat (valid_count (pagetable_at k table)) \<le> length (tlb k)" "fresh_asid tid (drop (unat (valid_count (pagetable_at k table))) (tlb k))"
  shows "\<exists>t. reload_tlb table k = Inr (k\<lparr>tlb := t, cp0_asid := word_of_int tid\<rparr>) \<and> t \<noteq> [] \<and> length t = length (tlb k) \<and>
    fresh_asid tid (drop (unat (valid_count (pagetable_at k table))) t) \<and>
    (\<forall>a. mmu t (word_of_int tid) a = pt_lookup (pagetable_at k table) a)"
proof -
  let ?pt = "pagetable_at k table"
  let ?n = "unat (valid_count ?pt)"
  let ?t = "valid_entries ?pt @ drop ?n (tlb k)"
  have asid: "ucast (pt_ASID ?pt) = (word_of_int tid :: 8 word)" unfolding assms(4) by (rule asid_cast)
  have v: "length (valid_entries ?pt) = ?n" using assms(3) by (simp add: valid_entries_def pt_ok_def)
  have len: "length ?t = length (tlb k)" using v assms(5) by simp
  moreover have "drop ?n ?t = drop ?n (tlb k)" using v by simp
  moreover have "reload_tlb table k = Inr (k\<lparr>tlb := ?t, cp0_asid := word_of_int tid\<rparr>)"
    using reload_tlb_run [OF assms(1) refl assms(3,5,2)] unfolding asid .
  moreover have "mmu ?t (word_of_int tid) a = pt_lookup ?pt a" for a
    using mmu_table [OF assms(3), of "drop ?n (tlb k)" a] fresh_no_match [OF assms(6), of _ 0] unfolding asid by simp
  ultimately show ?thesis using assms(2,6) by (intro exI [of _ ?t]) (metis length_0_conv)
qed

end

lemma frames_distinct_map:
  assumes "inj_on F (dom F)" "\<And>p. p \<in> ran F \<Longrightarrow> p < 2 ^ 20"
    "\<And>a. mmu (tlb (ld_kernel s)) (cp0_asid (ld_kernel s)) a = map_option (\<lambda>p. (of_nat p, w a)) (F (page_of a))"
  shows "frames_distinct mmu s"
  unfolding frames_distinct_def
proof (intro allI impI)
  fix a b pfn d d'
  assume "mmu (tlb (ld_kernel s)) (cp0_asid (ld_kernel s)) a = Some (pfn, d)" "mmu (tlb (ld_kernel s)) (cp0_asid (ld_kernel s)) b = Some (pfn, d')"
  then obtain p q where p: "F (page_of a) = Some p" "pfn = of_nat p" and q: "F (page_of b) = Some q" "pfn = of_nat q"
    unfolding assms(3) by auto
  have "unat (of_nat p :: 20 word) = p" "unat (of_nat q :: 20 word) = q"
    using assms(2) p(1) q(1) by (simp_all add: ranI unat_of_nat take_bit_nat_eq_self)
  with p q have "F (page_of a) = F (page_of b)" by metis
  then show "page_of a = page_of b" by (rule inj_onD [OF assms(1)]) (use p(1) q(1) in auto)
qed

lemma writable_pages:
  assumes "\<And>a. mmu (tlb (ld_kernel s)) (cp0_asid (ld_kernel s)) a = map_option (\<lambda>p. (of_nat p, True)) (F (page_of a))"
    "a + len \<le> 2 ^ 31" "{a div 4096..(a + len - 1) div 4096} \<subseteq> dom F"
  shows "user_writable mmu s a len"
  unfolding user_writable_def
proof (intro conjI allI impI)
  fix n assume n: "a \<le> n" "n < a + len"
  then have "n \<le> a + len - 1" by simp
  then have "n div 4096 \<in> {a div 4096..(a + len - 1) div 4096}" using n(1) by (simp add: div_le_mono)
  then obtain p where "F (n div 4096) = Some p" using assms(3) by blast
  moreover have "page_of (of_nat n) = n div 4096" by (rule page_of_nat) (use n(2) assms(2) in simp)
  ultimately show "\<exists>pfn. mmu (tlb (ld_kernel s)) (cp0_asid (ld_kernel s)) (of_nat n) = Some (pfn, True)" by (simp add: assms(1))
qed (rule assms(2))

lemma segment_writable:
  assumes "\<And>a. mmu (tlb (ld_kernel s)) (cp0_asid (ld_kernel s)) a = map_option (\<lambda>p. (of_nat p, True)) (F (page_of a))"
    "good_segment c location sz pages vaddr" "{unat vaddr div 4096..<unat vaddr div 4096 + unat pages} \<subseteq> dom F"
  shows "user_writable mmu s (unat vaddr) (4096 * unat pages)"
proof (cases "unat pages = 0")
  case True
  then show ?thesis using assms(2) by (simp add: user_writable_def good_segment_def stack_base_def)
next
  case False
  obtain q where q: "unat vaddr = 4096 * q" using assms(2) unfolding good_segment_def by blast
  have "(unat vaddr + 4096 * unat pages - 1) div 4096 < q + unat pages"
    using False by (simp add: q less_mult_imp_div_less)
  then have "{unat vaddr div 4096..(unat vaddr + 4096 * unat pages - 1) div 4096} \<subseteq> dom F"
    by (intro order_trans [OF _ assms(3)]) (auto simp: q)
  then show ?thesis
    by (intro writable_pages [of mmu s F, OF assms(1)]) (use assms(2) in \<open>simp_all add: good_segment_def stack_base_def\<close>)
qed

text \<open>Whether a program may write an address, and whether it is mapped at all.\<close>

definition user_access :: "mmu \<Rightarrow> ('w, 'a) loader \<Rightarrow> nat \<Rightarrow> bool option" where
  "user_access mmu s n = map_option snd (mmu (tlb (ld_kernel s)) (cp0_asid (ld_kernel s)) (of_nat n))"

definition ro_page_set :: "elf_info_t \<Rightarrow> nat set" where
  "ro_page_set elf = {unat (ro_vaddr elf) div 4096..<unat (ro_vaddr elf) div 4096 + unat (ro_pages elf)}"

definition user_entry :: "elf_info_t \<Rightarrow> context_t" where
  "user_entry elf = (set_reg MIPS_REGISTER_SP USERLAND_STACK_TOP zero_context)\<lparr>reg_pc := entry_point elf,
     ctx_status := (USERLAND_ENABLE_BIT OR INTERRUPT_MASK_ALL) OR INTERRUPT_MASK_MASTER\<rparr>"

lemma mapped_table_upd:
  assumes "mapped table k k F"
  shows "finite (dom F)" "inj_on F (dom F)" "\<And>p. p \<in> ran F \<Longrightarrow> p < 2 ^ 20" "pt_ok (pagetable_at k table)"
    "\<And>a. pt_lookup (pagetable_at k table) a = map_option (\<lambda>p. (of_nat p, True)) (F (page_of a))"
  using assms by (auto simp: mapped_def pool_ok_def)

text \<open>The third part: the pages of the read-only segment are protected and the program is entered.\<close>

lemma start_enter_ok:
  assumes "mips_tlb mmu" "mapped table k k F" "good_segment c (ro_location elf) (ro_size elf) (ro_pages elf) (ro_vaddr elf)"
    "ro_page_set elf \<subseteq> dom F" "table \<noteq> 0" "pt_ASID (pagetable_at k table) = word_of_int tid"
    "unat (valid_count (pagetable_at k table)) \<le> length (tlb k)" "fresh_asid tid (drop (unat (valid_count (pagetable_at k table))) (tlb k))"
    "tlb k \<noteq> []" "ld_kernel s = k"
  shows "\<exists>s'. start_enter ctx table elf s = Inr s' \<and> phys_mem s' = phys_mem s \<and> context_at (ld_kernel s') ctx = user_entry elf \<and>
    (\<forall>a. mmu (tlb (ld_kernel s')) (cp0_asid (ld_kernel s')) a = map_option (\<lambda>p. (of_nat p, page_of a \<notin> ro_page_set elf)) (F (page_of a)))"
proof -
  obtain pt where pt: "protect_segment table (ro_vaddr elf) (sint (ro_pages elf)) k = Inr (k\<lparr>pagetable_at := (pagetable_at k)(table := pt)\<rparr>)"
    "pt_ok pt" "pt_ASID pt = pt_ASID (pagetable_at k table)" "valid_count pt = valid_count (pagetable_at k table)"
    "\<And>a. pt_lookup pt a = map_option (\<lambda>p. (of_nat p, page_of a \<notin> ro_page_set elf)) (F (page_of a))"
    using protect_segment_ok [OF assms(2,3)] assms(4) unfolding ro_page_set_def by blast
  let ?k = "k\<lparr>pagetable_at := (pagetable_at k)(table := pt)\<rparr>"
  obtain t where t: "reload_tlb table ?k = Inr (?k\<lparr>tlb := t, cp0_asid := word_of_int tid\<rparr>)" "\<And>a. mmu t (word_of_int tid) a = pt_lookup pt a"
    using mips_tlb.reloaded [OF assms(1,5), of ?k tid] pt(2-4) assms(6-9) by auto
  let ?k' = "thread_goto_userland ctx (context_upd ctx (\<lambda>_. (set_reg MIPS_REGISTER_SP USERLAND_STACK_TOP zero_context)\<lparr>reg_pc := entry_point elf\<rparr>)
    (?k\<lparr>tlb := t, cp0_asid := word_of_int tid\<rparr>))"
  have "start_enter ctx table elf s = Inr (s\<lparr>ld_procs := (ld_procs s)\<lparr>kernel := ?k'\<rparr>\<rparr>)"
    using pt(1) t(1) assms(10) by (simp add: start_enter_def ld_do_run)
  moreover have "context_at ?k' ctx = user_entry elf"
    by (simp add: thread_goto_userland_def context_upd_def user_entry_def set_reg_def zero_context_def)
  moreover have "tlb ?k' = t" "cp0_asid ?k' = word_of_int tid" by (simp_all add: thread_goto_userland_def context_upd_def)
  ultimately show ?thesis using t(2) pt(5) by (intro exI [of _ "s\<lparr>ld_procs := (ld_procs s)\<lparr>kernel := ?k'\<rparr>\<rparr>"]) simp
qed

text \<open>A reload after \<open>process_mapped\<close> makes every page of the process accessible.\<close>

lemma reload_mapped:
  assumes "mips_tlb mmu" "process_mapped elf tid k0 table k1" "fresh_asid tid (tlb k0)"
  shows "\<exists>t F. reload_tlb table k1 = Inr (k1\<lparr>tlb := t, cp0_asid := word_of_int tid\<rparr>) \<and> t \<noteq> [] \<and>
    mapped table (k1\<lparr>tlb := t, cp0_asid := word_of_int tid\<rparr>) (k1\<lparr>tlb := t, cp0_asid := word_of_int tid\<rparr>) F \<and>
    table \<noteq> 0 \<and> pt_ASID (pagetable_at k1 table) = word_of_int tid \<and> dom F = image_page_set elf \<and>
    unat (valid_count (pagetable_at k1 table)) \<le> length t \<and> fresh_asid tid (drop (unat (valid_count (pagetable_at k1 table))) t) \<and>
    (\<forall>a. mmu t (word_of_int tid) a = map_option (\<lambda>p. (of_nat p, True)) (F (page_of a)))"
proof -
  let ?pt = "pagetable_at k1 table"
  obtain F pt1 where P: "table \<noteq> 0" "tlb k1 \<noteq> []" "mapped table k1 k1 F" "pt_ASID ?pt = word_of_int tid" "dom F = image_page_set elf"
    "unat (valid_count ?pt) \<le> length (tlb k1)" "tlb k1 = valid_entries pt1 @ drop (unat (valid_count pt1)) (tlb k0)" "pt_ok pt1"
    "unat (valid_count pt1) \<le> unat (valid_count ?pt)"
    using assms(2) unfolding process_mapped_def by blast
  note F = mapped_table_upd [OF P(3)]
  have "length (valid_entries pt1) = unat (valid_count pt1)" using P(8) by (simp add: valid_entries_def pt_ok_def)
  then have "drop (unat (valid_count ?pt)) (tlb k1) = drop (unat (valid_count ?pt)) (tlb k0)" using P(7,9) by simp
  then have "fresh_asid tid (drop (unat (valid_count ?pt)) (tlb k1))" using assms(3) in_set_dropD unfolding fresh_asid_def by metis
  from mips_tlb.reloaded [OF assms(1) P(1,2) F(4) P(4,6) this] obtain t where
    t: "reload_tlb table k1 = Inr (k1\<lparr>tlb := t, cp0_asid := word_of_int tid\<rparr>)" "t \<noteq> []" "length t = length (tlb k1)"
    "fresh_asid tid (drop (unat (valid_count ?pt)) t)" "\<And>a. mmu t (word_of_int tid) a = map_option (\<lambda>p. (of_nat p, True)) (F (page_of a))"
    unfolding F(5) by blast
  from t P(1,4-6) mapped_tlb [OF P(3), of "word_of_int tid" t] show ?thesis
    by (intro exI [of _ t] exI [of _ F]) simp
qed



end
