(* ===== verification/Device.thy ===== *)
theory Device
  imports Disk
begin

text \<open>
  The table of devices, \<^verbatim>\<open>drivers/device.c\<close>, and the table of drivers, \<^verbatim>\<open>drivers/drivers.c\<close>.

  A device is known by the address of its \<^verbatim>\<open>device_t\<close>, found through \<open>device_at\<close>; 0 is \<^verbatim>\<open>NULL\<close>.
  The parameter \<open>initfunc\<close> is the effect of calling the initialisation function of a driver, given by the type
  code of its row, on a descriptor and its address: it works on the devices and the system below and returns the new device.
  What is printed is left out.
\<close>

definition YAMS_TYPECODE_TTY :: uint32 where "YAMS_TYPECODE_TTY = 0x201"
definition YAMS_TYPECODE_RTC :: uint32 where "YAMS_TYPECODE_RTC = 0x102"
definition YAMS_TYPECODE_DISK :: uint32 where "YAMS_TYPECODE_DISK = 0x301"
definition YAMS_TYPECODE_NIC :: uint32 where "YAMS_TYPECODE_NIC = 0x401"
definition YAMS_TYPECODE_MEMINFO :: uint32 where "YAMS_TYPECODE_MEMINFO = 0x101"
definition YAMS_TYPECODE_SHUTDOWN :: uint32 where "YAMS_TYPECODE_SHUTDOWN = 0x103"
definition YAMS_TYPECODE_CPUSTATUS :: uint32 where "YAMS_TYPECODE_CPUSTATUS = 0xc00"
definition YAMS_TYPECODE_CPUMASK :: uint32 where "YAMS_TYPECODE_CPUMASK = 0xffffff00"
definition IO_DESCRIPTOR_AREA :: uint32 where "IO_DESCRIPTOR_AREA = 0xb0000000"

lemmas typecode_defs = YAMS_TYPECODE_TTY_def YAMS_TYPECODE_RTC_def YAMS_TYPECODE_DISK_def YAMS_TYPECODE_NIC_def
  YAMS_TYPECODE_MEMINFO_def YAMS_TYPECODE_SHUTDOWN_def YAMS_TYPECODE_CPUSTATUS_def YAMS_TYPECODE_CPUMASK_def

record 'k devices =
  device_table :: "uint32 list"
  number_of_devices :: int
  device_at :: "uint32 \<Rightarrow> device_t"
  dev_system :: 'k

type_synonym 'k initfunc = "uint32 \<Rightarrow> uint32 \<Rightarrow> io_descriptor \<Rightarrow> (uint32 \<Rightarrow> device_t) \<times> 'k \<Rightarrow> (uint32 \<times> (uint32 \<Rightarrow> device_t) \<times> 'k) kres"

subsection \<open>Operations\<close>

definition drivers_available :: "(uint32 \<times> string) list" where
  "drivers_available =
    [(YAMS_TYPECODE_TTY, ''Console''),
     (YAMS_TYPECODE_RTC, ''System RTC''),
     (YAMS_TYPECODE_MEMINFO, ''System memory information''),
     (YAMS_TYPECODE_SHUTDOWN, ''System shutdown''),
     (YAMS_TYPECODE_CPUSTATUS, ''CPU status''),
     (YAMS_TYPECODE_DISK, ''Disk''),
     (0, [])]"

text \<open>The search of \<^verbatim>\<open>find_driver\<close> ends at the row with type code 0.\<close>

fun driver_from :: "(uint32 \<times> string) list \<Rightarrow> uint32 \<Rightarrow> (uint32 \<times> string) option kres" where
  "driver_from [] typecode = Inl Fault"
| "driver_from (driver # rest) typecode =
     (if fst driver \<noteq> 0 then if fst driver = typecode then Inr (Some driver) else driver_from rest typecode
      else Inr None)"

definition find_driver :: "uint32 \<Rightarrow> (uint32 \<times> string) option kres" where
  "find_driver typecode =
     (let typecode = (if typecode AND YAMS_TYPECODE_CPUMASK = YAMS_TYPECODE_CPUSTATUS then YAMS_TYPECODE_CPUSTATUS else typecode)
      in driver_from drivers_available typecode)"

text \<open>The loop of \<^verbatim>\<open>device_init\<close> from descriptor \<open>i\<close> on.\<close>

function device_init_from :: "'k initfunc \<Rightarrow> io_descriptor list \<Rightarrow> nat \<Rightarrow> 'k devices \<Rightarrow> 'k devices kres" where
  "device_init_from initfunc area i d =
     (if i < YAMS_MAX_DEVICES then
        bindE (rd area (int i)) (\<lambda>descriptor.
        if iod_type descriptor \<noteq> 0 then
          bindE (find_driver (iod_type descriptor)) (\<lambda>driver.
          case driver of
            None \<Rightarrow> device_init_from initfunc area (Suc i) d
          | Some row \<Rightarrow>
              bindE (initfunc (fst row) (IO_DESCRIPTOR_AREA + of_nat (32 * i)) descriptor (device_at d, dev_system d)) (\<lambda>(dev, at, k).
              bindE (wr (device_table d) (number_of_devices d) dev) (\<lambda>t.
              let d = d\<lparr>device_table := t, device_at := at, dev_system := k\<rparr> in
              if dev \<noteq> 0 then
                let d = d\<lparr>number_of_devices := number_of_devices d + 1\<rparr> in
                if number_of_devices d \<ge> int CONFIG_MAX_DEVICES then Inr d
                else device_init_from initfunc area (Suc i) d
              else device_init_from initfunc area (Suc i) d)))
        else device_init_from initfunc area (Suc i) d)
      else Inr d)"
  by pat_completeness auto
termination
  by (relation "measure (\<lambda>(initfunc, area, i, d). YAMS_MAX_DEVICES - i)") auto

declare device_init_from.simps [simp del]

definition device_init :: "'k initfunc \<Rightarrow> io_descriptor list \<Rightarrow> 'k devices \<Rightarrow> 'k devices kres" where
  "device_init initfunc area d = device_init_from initfunc area 0 d"

text \<open>The loop of \<^verbatim>\<open>device_get\<close>; the result is the address of the device, or 0.\<close>

function device_get_from :: "uint32 \<Rightarrow> uint32 \<Rightarrow> nat \<Rightarrow> 'k devices \<Rightarrow> uint32 kres" where
  "device_get_from typecode n i d =
     (if int i < number_of_devices d then
        bindE (rd (device_table d) (int i)) (\<lambda>dev.
        if dev_type (device_at d dev) = typecode then
          if n = 0 then Inr dev else device_get_from typecode (n - 1) (Suc i) d
        else device_get_from typecode n (Suc i) d)
      else Inr 0)"
  by pat_completeness auto
termination
  by (relation "measure (\<lambda>(typecode, n, i, d). nat (number_of_devices d) - i)") auto

declare device_get_from.simps [simp del]

definition device_get :: "uint32 \<Rightarrow> uint32 \<Rightarrow> 'k devices \<Rightarrow> uint32 kres" where
  "device_get typecode n d = device_get_from typecode n 0 d"

subsection \<open>The devices that are found\<close>

text \<open>
  The type code of the driver for a descriptor, and the devices of the descriptors with a driver, in the order of the
  descriptors: what the two operations are compared with.
\<close>

definition driver_code :: "uint32 \<Rightarrow> uint32 option" where
  "driver_code t =
     (if drop_bit 8 t = 0xc then Some 0xc00
      else if t \<in> {0x201, 0x102, 0x101, 0x103, 0x301} then Some t else None)"

fun attach :: "'k initfunc \<Rightarrow> nat \<Rightarrow> io_descriptor list \<Rightarrow> (uint32 \<Rightarrow> device_t) \<times> 'k \<Rightarrow> (uint32 list \<times> (uint32 \<Rightarrow> device_t) \<times> 'k) kres" where
  "attach initfunc i [] w = Inr ([], w)"
| "attach initfunc i (desc # descs) w =
     (case driver_code (iod_type desc) of
        None \<Rightarrow> attach initfunc (Suc i) descs w
      | Some c \<Rightarrow> bindE (initfunc c (IO_DESCRIPTOR_AREA + of_nat (32 * i)) desc w) (\<lambda>(dev, w).
          bindE (attach initfunc (Suc i) descs w) (\<lambda>(devs, w). Inr (if dev = 0 then devs else dev # devs, w))))"

definition nth_device :: "(uint32 \<Rightarrow> device_t) \<Rightarrow> uint32 list \<Rightarrow> uint32 \<Rightarrow> nat \<Rightarrow> uint32" where
  "nth_device at devs t n = (let l = filter (\<lambda>p. dev_type (at p) = t) devs in if n < length l then l ! n else 0)"

lemma cpu_mask: "t AND YAMS_TYPECODE_CPUMASK = YAMS_TYPECODE_CPUSTATUS \<longleftrightarrow> drop_bit 8 t = 0xc" for t :: uint32
proof -
  have mask: "YAMS_TYPECODE_CPUMASK = push_bit 8 (mask 24)"
    by (simp add: typecode_defs mask_eq_exp_minus_1 push_bit_eq_mult)
  have m: "t AND YAMS_TYPECODE_CPUMASK = push_bit 8 (drop_bit 8 t)"
    unfolding mask by (rule bit_eqI) (auto simp: bit_simps)
  have "drop_bit 8 (push_bit 8 (drop_bit 8 t)) = drop_bit 8 t"
    by (rule bit_eqI) (auto simp: bit_simps dest: bit_imp_le_length)
  then show ?thesis unfolding m by (auto simp: typecode_defs dest: arg_cong [where f = "drop_bit 8"])
qed

lemma find_driver_eq: "find_driver t = Inr (map_option (\<lambda>c. (c, the (map_of drivers_available c))) (driver_code t))"
  if "t \<noteq> 0"
  using that unfolding find_driver_def Let_def cpu_mask by (auto simp: driver_code_def drivers_available_def typecode_defs)


lemma driver_code_0 [simp]: "driver_code 0 = None"
  by (simp add: driver_code_def)

text \<open>Both loops, from any point on.\<close>

lemma device_init_from_attach:
  assumes "length area = YAMS_MAX_DEVICES" "i \<le> YAMS_MAX_DEVICES" "length (device_table d) = CONFIG_MAX_DEVICES"
    "number_of_devices d = int k" "k \<le> i" "attach initfunc i (drop i area) (device_at d, dev_system d) = Inr (devs, w)"
  shows "\<exists>t. device_init_from initfunc area i d = Inr \<lparr>device_table = t, number_of_devices = int (k + length devs), device_at = fst w, dev_system = snd w\<rparr> \<and>
    length t = CONFIG_MAX_DEVICES \<and> take (k + length devs) t = take k (device_table d) @ devs"
  using assms
proof (induction "YAMS_MAX_DEVICES - i" arbitrary: i d k devs)
  case 0
  then have "drop i area = []" by simp
  moreover have "device_init_from initfunc area i d = Inr d" using 0 by (subst device_init_from.simps) simp
  moreover have "d = \<lparr>device_table = device_table d, number_of_devices = int k, device_at = device_at d, dev_system = dev_system d\<rparr>"
    using 0 by simp
  ultimately show ?case using 0 by (intro exI [of _ "device_table d"]) auto
next
  case (Suc m)
  then have i: "i < YAMS_MAX_DEVICES" "i < length area" "m = YAMS_MAX_DEVICES - Suc i" by auto
  let ?desc = "area ! i"
  have dr: "drop i area = ?desc # drop (Suc i) area" using i by (simp add: Cons_nth_drop_Suc)
  show ?case
  proof (cases "driver_code (iod_type ?desc)")
    case None
    then have "device_init_from initfunc area i d = device_init_from initfunc area (Suc i) d"
      using i by (simp add: device_init_from.simps [of _ _ i] find_driver_eq)
    with Suc.hyps(1) [OF i(3) Suc.prems(1) _ Suc.prems(3,4)] Suc.prems(5,6) None dr i(1) show ?thesis by simp
  next
    case (Some c)
    let ?a = "IO_DESCRIPTOR_AREA + of_nat (32 * i)"
    from Some have nz: "iod_type ?desc \<noteq> 0" by auto
    from Suc.prems(6) Some obtain dev w1 devs1 where
      f: "initfunc c ?a ?desc (device_at d, dev_system d) = Inr (dev, w1)" "attach initfunc (Suc i) (drop (Suc i) area) w1 = Inr (devs1, w)"
      "devs = (if dev = 0 then devs1 else dev # devs1)"
      unfolding dr by (auto simp: bindE_Inr)
    have k: "k < CONFIG_MAX_DEVICES" using Suc.prems(5) i(1) by (simp add: CONFIG_MAX_DEVICES_def YAMS_MAX_DEVICES_def)
    define d1 where "d1 = d\<lparr>device_table := (device_table d)[k := dev], device_at := fst w1, dev_system := snd w1\<rparr>"
    define d2 where "d2 = (if dev = 0 then d1 else d1\<lparr>number_of_devices := int k + 1\<rparr>)"
    define k2 where "k2 = (if dev = 0 then k else Suc k)"
    have step: "device_init_from initfunc area i d = (if k2 = CONFIG_MAX_DEVICES then Inr d2 else device_init_from initfunc area (Suc i) d2)"
      using i nz Some f(1) Suc.prems(3,4) k
      by (auto simp: device_init_from.simps [of _ _ i] find_driver_eq Let_def d1_def d2_def k2_def split: prod.splits)
    have tk: "take k2 ((device_table d)[k := dev]) @ devs1 = take k (device_table d) @ devs"
      using k Suc.prems(3) f(3) by (auto simp: k2_def take_Suc_conv_app_nth)
    have len: "k2 + length devs1 = k + length devs" using f(3) by (auto simp: k2_def)
    show ?thesis
    proof (cases "k2 = CONFIG_MAX_DEVICES")
      case True
      then have "Suc i = YAMS_MAX_DEVICES" using k Suc.prems(5) i(1)
        by (auto simp: k2_def CONFIG_MAX_DEVICES_def YAMS_MAX_DEVICES_def split: if_splits)
      then have "devs1 = []" "w = w1" using f(2) Suc.prems(1) by auto
      moreover have "d2 = \<lparr>device_table = (device_table d)[k := dev], number_of_devices = int k2, device_at = fst w1, dev_system = snd w1\<rparr>"
        using Suc.prems(4) by (simp add: d2_def d1_def k2_def)
      ultimately show ?thesis
        using True step tk len Suc.prems(3) by (intro exI [of _ "(device_table d)[k := dev]"]) auto
    next
      case False
      have "\<exists>t. device_init_from initfunc area (Suc i) d2 = Inr \<lparr>device_table = t, number_of_devices = int (k2 + length devs1), device_at = fst w, dev_system = snd w\<rparr> \<and>
          length t = CONFIG_MAX_DEVICES \<and> take (k2 + length devs1) t = take k2 (device_table d2) @ devs1"
        by (rule Suc.hyps(1) [OF i(3)]) (use Suc.prems i f in \<open>auto simp: d2_def d1_def k2_def\<close>)
      moreover have "device_table d2 = (device_table d)[k := dev]" by (simp add: d2_def d1_def)
      ultimately show ?thesis using step False tk len by simp
    qed
  qed
qed

lemma device_get_from_nth:
  assumes "number_of_devices d = int k" "k \<le> length (device_table d)" "i \<le> k"
  shows "device_get_from t n i d = Inr (nth_device (device_at d) (drop i (take k (device_table d))) t (unat n))"
  using assms(3)
proof (induction "k - i" arbitrary: i n)
  case 0
  then show ?case using assms by (simp add: device_get_from.simps [of _ _ i] nth_device_def)
next
  case (Suc m)
  then have i: "i < k" "m = k - Suc i" by auto
  have dr: "drop i (take k (device_table d)) = device_table d ! i # drop (Suc i) (take k (device_table d))"
    using i assms(2) by (metis Cons_nth_drop_Suc length_take min.absorb2 nth_take)
  have pos: "n \<noteq> 0 \<Longrightarrow> unat n = Suc (unat (n - 1))"
    by (metis Suc_pred' unat_gt_0 unat_minus_one)
  show ?case
    using i assms Suc.hyps(1) [OF i(2), of "n - 1"] Suc.hyps(1) [OF i(2), of n] pos
    by (cases "n = 0") (auto simp: device_get_from.simps [of _ _ i] nth_device_def dr Let_def)
qed

text \<open>
  \<^verbatim>\<open>device_init\<close> on the empty table calls the driver of each descriptor, in the order of the descriptors, and stores the
  devices; it never writes outside of the table, and \<^verbatim>\<open>device_get\<close> then gives the \<open>n\<close>-th of the devices with a type, or \<^verbatim>\<open>NULL\<close>.
\<close>

theorem device_init_get:
  assumes "length area = YAMS_MAX_DEVICES" "length (device_table d) = CONFIG_MAX_DEVICES" "number_of_devices d = 0"
    "attach initfunc 0 area (device_at d, dev_system d) = Inr (devs, w)"
  shows "\<exists>d'. device_init initfunc area d = Inr d' \<and> (device_at d', dev_system d') = w \<and> number_of_devices d' = int (length devs) \<and>
    (\<forall>typecode n. device_get typecode n d' = Inr (nth_device (device_at d') devs typecode (unat n)))"
proof -
  from device_init_from_attach [of area 0 d 0 initfunc devs w] assms obtain t where
    t: "device_init_from initfunc area 0 d = Inr \<lparr>device_table = t, number_of_devices = int (length devs), device_at = fst w, dev_system = snd w\<rparr>"
      "take (length devs) t = devs"
    by auto
  have "length devs \<le> length t" using t(2) by (metis length_take min.cobounded1 min.commute)
  then show ?thesis
    using t by (auto simp: device_init_def device_get_def device_get_from_nth [where k = "length devs"])
qed

text \<open>A console, two disks and a network card, for which there is no driver; the rest of the area is empty.\<close>

definition sample_desc :: "uint32 \<Rightarrow> io_descriptor" where
  "sample_desc t = \<lparr>iod_type = t, io_area_base = 0xb0008000, io_area_len = 16, iod_irq = 1\<rparr>"

definition sample_area :: "io_descriptor list" where
  "sample_area = map sample_desc [0x201, 0x301, 0x401, 0x301] @ replicate 124 (sample_desc 0)"

definition sample_initfunc :: "uint32 initfunc" where
  "sample_initfunc c a desc w = (case w of (at, k) \<Rightarrow>
     Inr (k, at(k := \<lparr>real_device = 0, generic_device = k + 20, dev_descriptor = a, dev_io_address = io_area_base desc, dev_type = iod_type desc\<rparr>), k + 0x40))"

definition sample_devices :: "uint32 devices" where
  "sample_devices = \<lparr>device_table = replicate 128 0, number_of_devices = 0,
     device_at = (\<lambda>_. \<lparr>real_device = 0, generic_device = 0, dev_descriptor = 0, dev_io_address = 0, dev_type = 0\<rparr>), dev_system = 0x80100000\<rparr>"

lemma attach_none: "attach initfunc i (replicate n (sample_desc 0)) w = Inr ([], w)"
  by (induction n arbitrary: i) (simp_all add: sample_desc_def)

theorem device_init_get_witness:
  "\<exists>d'. device_init sample_initfunc sample_area sample_devices = Inr d' \<and> number_of_devices d' = 3 \<and>
    device_get YAMS_TYPECODE_DISK 1 d' = Inr 0x80100080 \<and> device_get YAMS_TYPECODE_NIC 0 d' = Inr 0"
proof -
  have "\<exists>w. attach sample_initfunc 0 sample_area (device_at sample_devices, dev_system sample_devices) =
      Inr ([0x80100000, 0x80100040, 0x80100080], w) \<and>
      (\<forall>t. nth_device (fst w) [0x80100000, 0x80100040, 0x80100080] t 0 = (if t = 0x201 then 0x80100000 else if t = 0x301 then 0x80100040 else 0)) \<and>
      nth_device (fst w) [0x80100000, 0x80100040, 0x80100080] 0x301 1 = 0x80100080"
    by (auto simp: sample_area_def sample_desc_def [of "0x201"] sample_desc_def [of "0x301"] sample_desc_def [of "0x401"] attach_none
        driver_code_def sample_initfunc_def sample_devices_def nth_device_def drop_bit_eq_div Let_def)
  then obtain w where w: "attach sample_initfunc 0 sample_area (device_at sample_devices, dev_system sample_devices) = Inr ([0x80100000, 0x80100040, 0x80100080], w)"
    "nth_device (fst w) [0x80100000, 0x80100040, 0x80100080] 0x401 0 = 0" "nth_device (fst w) [0x80100000, 0x80100040, 0x80100080] 0x301 1 = 0x80100080"
    by auto
  have len: "length sample_area = YAMS_MAX_DEVICES" "length (device_table sample_devices) = CONFIG_MAX_DEVICES" "number_of_devices sample_devices = 0"
    by (simp_all add: sample_area_def sample_devices_def YAMS_MAX_DEVICES_def CONFIG_MAX_DEVICES_def)
  from device_init_get [OF len w(1)] w(2,3) show ?thesis by (auto simp: typecode_defs)
qed

end
