(* ===== verification/Net.thy ===== *)
theory Net
  imports Device Vfs
begin

text \<open>
  The network, \<^verbatim>\<open>net/network.c\<close>, \<^verbatim>\<open>net/socket.c\<close>, \<^verbatim>\<open>net/pop.c\<close> and \<^verbatim>\<open>net/protocols.c\<close>: frames
  in pages of the page pool, the table of sockets, the packet oriented protocol with its queue of received frames, and the
  thread that delivers them.

  \<open>net_mem\<close> is the memory at kernel addresses, with the frames, the send buffer and the callers' buffers; numbers in it are big-endian.
  A network device is known by the address of its \<^verbatim>\<open>gnd_t\<close>, and the functions in it are parameters, with the
  state \<open>'g\<close>.  As in the virtual file system the locks of the module are given by their values, and so is the
  signal to the service thread; the semaphores of the sockets are rows of the kernel's table.  A thread that has to wait for a packet or
  for work stops there, and goes on as a step of its own.  The readings of the clock are arguments.
\<close>

abbreviation (input) CONFIG_MAX_OPEN_SOCKETS :: nat where "CONFIG_MAX_OPEN_SOCKETS \<equiv> 64"
abbreviation (input) CONFIG_POP_QUEUE_SIZE :: nat where "CONFIG_POP_QUEUE_SIZE \<equiv> 32"
abbreviation (input) CONFIG_POP_QUEUE_MIN_AGE :: uint32 where "CONFIG_POP_QUEUE_MIN_AGE \<equiv> 250"
abbreviation (input) CONFIG_MAX_GNDS :: nat where "CONFIG_MAX_GNDS \<equiv> 4"
abbreviation (input) NET_OK :: int where "NET_OK \<equiv> 0"
abbreviation (input) NET_ERROR :: int where "NET_ERROR \<equiv> -1"
abbreviation (input) NET_DOESNT_EXIST :: int where "NET_DOESNT_EXIST \<equiv> -2"
abbreviation (input) NETWORK_MAX_MTU :: int where "NETWORK_MAX_MTU \<equiv> 4096"
definition NETWORK_BROADCAST_ADDRESS :: uint32 where "NETWORK_BROADCAST_ADDRESS = 0xffffffff"
definition NETWORK_LOOPBACK_ADDRESS :: uint32 where "NETWORK_LOOPBACK_ADDRESS = 0x00000000"
abbreviation (input) PROTOCOL_POP :: uint8 where "PROTOCOL_POP \<equiv> 1"
abbreviation (input) PROTOCOL_SOP :: uint8 where "PROTOCOL_SOP \<equiv> 2"
abbreviation (input) sizeof_frame_header :: nat where "sizeof_frame_header \<equiv> 12"
abbreviation (input) sizeof_pop_header :: nat where "sizeof_pop_header \<equiv> 8"

record network_interface_info_t =
  if_address :: uint32
  if_mtu :: int
  if_gnd :: uint32

record 'g gnd_ops =
  gnd_send :: "uint32 \<Rightarrow> uint32 \<Rightarrow> uint32 \<Rightarrow> memory \<Rightarrow> 'g \<Rightarrow> int \<times> 'g"
  gnd_recv :: "uint32 \<Rightarrow> uint32 \<Rightarrow> memory \<Rightarrow> 'g \<Rightarrow> int \<times> memory \<times> 'g"
  gnd_frame_size :: "uint32 \<Rightarrow> uint32"
  gnd_hwaddr :: "uint32 \<Rightarrow> uint32"

record socket_descriptor_t =
  sk_port :: uint16
  sk_protocol :: uint8
  receive_complete :: "int option"
  sk_rbuf :: uint32
  sk_bufsize :: uint32
  sk_sender :: uint32
  sk_copied :: uint32
  sk_sport :: uint32

record pop_queue_t =
  pq_frame :: uint32
  pq_socket :: int
  pq_timestamp :: uint32
  pq_from :: uint32
  pq_busy :: int

record ('g, 'a) net =
  net_kernel :: "'a sems_scheme"
  net_dev :: 'g
  net_mem :: memory
  network_interfaces :: "network_interface_info_t list"
  open_sockets :: "socket_descriptor_t list"
  open_sockets_sem :: int
  socket_init_done :: bool
  pop_queue :: "pop_queue_t list"
  pop_queue_sem :: int
  pop_send_buffer :: uint32
  pop_send_buffer_sem :: int
  pop_service_thread_id :: int
  pop_service_thread_sem :: int
  pop_init_done :: bool

subsection \<open>Memory\<close>

definition mem_bytes :: "memory \<Rightarrow> uint32 \<Rightarrow> nat \<Rightarrow> char list" where
  "mem_bytes m a n = map (\<lambda>i. m (a + of_nat i)) [0..<n]"

fun put_mem :: "uint32 \<Rightarrow> char list \<Rightarrow> memory \<Rightarrow> memory" where
  "put_mem a [] m = m"
| "put_mem a (c # cs) m = put_mem (a + 1) cs (m(a := c))"

definition enc16 :: "uint16 \<Rightarrow> char list" where
  "enc16 w = [char_of (unat w div 256), char_of (unat w)]"

definition load16 :: "memory \<Rightarrow> uint32 \<Rightarrow> uint16" where
  "load16 m a = ucast (dec32 (mem_bytes m a 2))"

definition load32 :: "memory \<Rightarrow> uint32 \<Rightarrow> uint32" where
  "load32 m a = dec32 (mem_bytes m a 4)"

definition mem_upd :: "(memory \<Rightarrow> memory) \<Rightarrow> ('g, 'a) net \<Rightarrow> ('g, 'a) net" where
  "mem_upd f s = s\<lparr>net_mem := f (net_mem s)\<rparr>"

text \<open>A store through a pointer that may be null.\<close>

definition store_to :: "uint32 \<Rightarrow> char list \<Rightarrow> ('g, 'a) net \<Rightarrow> ('g, 'a) net kres" where
  "store_to p cs s = (if p = 0 then Inl Fault else Inr (mem_upd (put_mem p cs) s))"

subsection \<open>The kernel below, and the locks\<close>

definition on_net_kernel :: "('a sems_scheme \<Rightarrow> ('r \<times> 'a sems_scheme) kres) \<Rightarrow> ('g, 'a) net \<Rightarrow> ('r \<times> ('g, 'a) net) kres" where
  "on_net_kernel f s = bindE (f (net_kernel s)) (\<lambda>(r, k). Inr (r, s\<lparr>net_kernel := k\<rparr>))"

definition do_net_kernel :: "('a sems_scheme \<Rightarrow> 'a sems_scheme kres) \<Rightarrow> ('g, 'a) net \<Rightarrow> ('g, 'a) net kres" where
  "do_net_kernel f s = bindE (f (net_kernel s)) (\<lambda>k. Inr (s\<lparr>net_kernel := k\<rparr>))"

definition P_sockets :: "('g, 'a) net \<Rightarrow> ('g, 'a) net kres" where
  "P_sockets s = bindE (sem_P (open_sockets_sem s)) (\<lambda>x. Inr (s\<lparr>open_sockets_sem := x\<rparr>))"

definition V_sockets :: "('g, 'a) net \<Rightarrow> ('g, 'a) net" where
  "V_sockets s = s\<lparr>open_sockets_sem := open_sockets_sem s + 1\<rparr>"

definition P_queue :: "('g, 'a) net \<Rightarrow> ('g, 'a) net kres" where
  "P_queue s = bindE (sem_P (pop_queue_sem s)) (\<lambda>x. Inr (s\<lparr>pop_queue_sem := x\<rparr>))"

definition V_queue :: "('g, 'a) net \<Rightarrow> ('g, 'a) net" where
  "V_queue s = s\<lparr>pop_queue_sem := pop_queue_sem s + 1\<rparr>"

definition P_send_buffer :: "('g, 'a) net \<Rightarrow> ('g, 'a) net kres" where
  "P_send_buffer s = bindE (sem_P (pop_send_buffer_sem s)) (\<lambda>x. Inr (s\<lparr>pop_send_buffer_sem := x\<rparr>))"

definition V_send_buffer :: "('g, 'a) net \<Rightarrow> ('g, 'a) net" where
  "V_send_buffer s = s\<lparr>pop_send_buffer_sem := pop_send_buffer_sem s + 1\<rparr>"

definition V_service :: "('g, 'a) net \<Rightarrow> ('g, 'a) net" where
  "V_service s = s\<lparr>pop_service_thread_sem := pop_service_thread_sem s + 1\<rparr>"

subsection \<open>Frames and interfaces\<close>

text \<open>
  A frame is a page of the pool; its address is the kernel address of the page.  The fields of its header, and the payload behind
  them, at their offsets; the header of a packet of the protocol, at the start of the payload.
\<close>

abbreviation (input) frame_destination :: "uint32 \<Rightarrow> uint32" where "frame_destination a \<equiv> a"
abbreviation (input) frame_source :: "uint32 \<Rightarrow> uint32" where "frame_source a \<equiv> a + 4"
abbreviation (input) frame_protocol_id :: "uint32 \<Rightarrow> uint32" where "frame_protocol_id a \<equiv> a + 8"
abbreviation (input) frame_payload :: "uint32 \<Rightarrow> uint32" where "frame_payload a \<equiv> a + 12"
abbreviation (input) hdr_source_port :: "uint32 \<Rightarrow> uint32" where "hdr_source_port f \<equiv> f"
abbreviation (input) hdr_dest_port :: "uint32 \<Rightarrow> uint32" where "hdr_dest_port f \<equiv> f + 2"
abbreviation (input) hdr_size :: "uint32 \<Rightarrow> uint32" where "hdr_size f \<equiv> f + 4"
abbreviation (input) pop_data :: "uint32 \<Rightarrow> uint32" where "pop_data f \<equiv> f + 8"

definition frame_page :: "uint32 \<Rightarrow> uint32" where
  "frame_page payload_frame = ADDR_KERNEL_TO_PHYS payload_frame AND PAGE_SIZE_MASK"

definition network_free_frame :: "uint32 \<Rightarrow> ('g, 'a) net \<Rightarrow> ('g, 'a) net kres" where
  "network_free_frame payload_frame s = do_net_kernel (pagepool_free_phys_page (frame_page payload_frame)) s"

definition network_get_source_address :: "int \<Rightarrow> ('g, 'a) net \<Rightarrow> uint32 kres" where
  "network_get_source_address interface s =
     (if interface < 0 \<or> interface \<ge> int CONFIG_MAX_GNDS then Inr 0
      else bindE (rd (network_interfaces s) interface) (\<lambda>n. Inr (if_address n)))"

definition network_get_broadcast_address :: uint32 where
  "network_get_broadcast_address = NETWORK_BROADCAST_ADDRESS"

definition network_get_loopback_address :: uint32 where
  "network_get_loopback_address = NETWORK_LOOPBACK_ADDRESS"

text \<open>The two loops of \<^verbatim>\<open>network_get_mtu\<close> stop at an entry without a device only; behind the last entry they leave the table.\<close>

fun minimum_mtu :: "network_interface_info_t list \<Rightarrow> int \<Rightarrow> int kres" where
  "minimum_mtu [] m = Inl Fault"
| "minimum_mtu (n # ns) m = (if if_gnd n \<noteq> 0 then minimum_mtu ns (if if_mtu n < m then if_mtu n else m) else Inr m)"

fun find_mtu :: "network_interface_info_t list \<Rightarrow> uint32 \<Rightarrow> int option kres" where
  "find_mtu [] a = Inl Fault"
| "find_mtu (n # ns) a = (if if_gnd n \<noteq> 0 then if if_address n = a then Inr (Some (if_mtu n)) else find_mtu ns a else Inr None)"

definition network_get_mtu :: "uint32 \<Rightarrow> ('g, 'a) net \<Rightarrow> int kres" where
  "network_get_mtu local_address s =
     (if local_address = NETWORK_BROADCAST_ADDRESS then
        bindE (minimum_mtu (network_interfaces s) (NETWORK_MAX_MTU + 1)) (\<lambda>m. Inr (wrap32 (m - int sizeof_frame_header)))
      else if local_address = NETWORK_LOOPBACK_ADDRESS then Inr (4096 - int sizeof_frame_header)
      else bindE (find_mtu (network_interfaces s) local_address) (\<lambda>m.
        Inr (case m of None \<Rightarrow> 0 | Some x \<Rightarrow> wrap32 (x - int sizeof_frame_header))))"

definition network_get_interface :: "uint32 \<Rightarrow> ('g, 'a) net \<Rightarrow> int kres" where
  "network_get_interface local_address s =
     bindE (find_from (\<lambda>n. if_address n = local_address) (network_interfaces s) 0 CONFIG_MAX_GNDS) (\<lambda>i.
     Inr (if i < CONFIG_MAX_GNDS then int i else -1))"

text \<open>An interface without a device has the null pointer, through which the function is called.\<close>

definition network_send_interface :: "'g gnd_ops \<Rightarrow> int \<Rightarrow> uint32 \<Rightarrow> uint32 \<Rightarrow> ('g, 'a) net \<Rightarrow> (int \<times> ('g, 'a) net) kres" where
  "network_send_interface dev interface dest frm s =
     bindE (rd (network_interfaces s) interface) (\<lambda>n.
     if if_gnd n = 0 then Inl Fault
     else let (r, d) = gnd_send dev (if_gnd n) (ADDR_KERNEL_TO_PHYS frm) dest (net_mem s) (net_dev s)
          in Inr (r, s\<lparr>net_dev := d\<rparr>))"

subsection \<open>The queue of received frames\<close>

text \<open>
  The loop of \<^verbatim>\<open>pop_push_frame\<close>: the first free slot and the oldest slot that is not busy.  \<open>now\<close> and \<open>stamp\<close> are the
  readings of the clock (\<^verbatim>\<open>rtc_get_msec\<close>) by its two calls.
\<close>

definition pop_find_slot :: "pop_queue_t list \<Rightarrow> (int \<times> int) kres" where
  "pop_find_slot q = for_rangeE 0 CONFIG_POP_QUEUE_SIZE (\<lambda>i (free, oldest).
     bindE (rd q (int i)) (\<lambda>e.
     let free = (if free = -1 \<and> pq_frame e = 0 then int i else free) in
     bindE (if pq_busy e = 0 \<and> oldest \<noteq> -1 then bindE (rd q oldest) (\<lambda>o'. Inr (pq_timestamp e < pq_timestamp o')) else Inr True) (\<lambda>older.
     Inr (free, if pq_busy e = 0 \<and> (oldest = -1 \<or> older) then int i else oldest)))) (-1, -1)"

definition pop_push_frame :: "uint32 \<Rightarrow> uint32 \<Rightarrow> uint32 \<Rightarrow> uint32 \<Rightarrow> uint32 \<Rightarrow> uint32 \<Rightarrow> ('g, 'a) net \<Rightarrow> (int \<times> ('g, 'a) net) kres" where
  "pop_push_frame now stamp fromaddr toaddr protocol_id frm s =
     KERNEL_ASSERT (protocol_id = ucast PROTOCOL_POP)
    (bindE (P_queue s) (\<lambda>s.
     bindE (pop_find_slot (pop_queue s)) (\<lambda>(free, oldest).
     bindE (if free = -1 then
              if oldest = -1 then Inr True
              else bindE (rd (pop_queue s) oldest) (\<lambda>e. Inr (now - pq_timestamp e < CONFIG_POP_QUEUE_MIN_AGE))
            else Inr False) (\<lambda>full.
     if full then Inr (0, V_queue s)
     else
       let free = (if free = -1 then oldest else free) in
       bindE (rd (pop_queue s) free) (\<lambda>e.
       bindE (if pq_frame e \<noteq> 0 then network_free_frame (pq_frame e) s else Inr s) (\<lambda>s.
       bindE (wr (pop_queue s) free \<lparr>pq_frame = frm, pq_socket = -1, pq_timestamp = stamp, pq_from = fromaddr, pq_busy = 0\<rparr>) (\<lambda>q.
       Inr (1, V_service (V_queue (s\<lparr>pop_queue := q\<rparr>))))))))))"

subsection \<open>Protocols\<close>

text \<open>The table of protocols, the search in it, which ends at a null handler, and the layer below.\<close>

type_synonym ('g, 'a) frame_handler_t =
  "uint32 \<Rightarrow> uint32 \<Rightarrow> uint32 \<Rightarrow> uint32 \<Rightarrow> uint32 \<Rightarrow> uint32 \<Rightarrow> ('g, 'a) net \<Rightarrow> (int \<times> ('g, 'a) net) kres"

definition network_protocols :: "(uint32 \<times> ('g, 'a) frame_handler_t option) list" where
  "network_protocols = [(ucast PROTOCOL_POP, Some pop_push_frame), (0, None)]"

fun handler_from :: "(uint32 \<times> ('g, 'a) frame_handler_t option) list \<Rightarrow> uint32 \<Rightarrow> ('g, 'a) frame_handler_t option kres" where
  "handler_from [] protocol_id = Inl Fault"
| "handler_from (p # ps) protocol_id =
     (if snd p \<noteq> None then if fst p = protocol_id then Inr (snd p) else handler_from ps protocol_id else Inr None)"

definition protocols_get_frame_handler :: "uint32 \<Rightarrow> ('g, 'a) frame_handler_t option kres" where
  "protocols_get_frame_handler protocol_id = handler_from network_protocols protocol_id"

definition network_receive_frame :: "uint32 \<Rightarrow> uint32 \<Rightarrow> uint32 \<Rightarrow> ('g, 'a) net \<Rightarrow> (int \<times> ('g, 'a) net) kres" where
  "network_receive_frame now stamp frm s =
     bindE (protocols_get_frame_handler (load32 (net_mem s) (frame_protocol_id frm))) (\<lambda>h.
     case h of
       None \<Rightarrow> Inr (0, s)
     | Some frame_handler \<Rightarrow>
         frame_handler now stamp (load32 (net_mem s) (frame_source frm)) (load32 (net_mem s) (frame_destination frm))
           (load32 (net_mem s) (frame_protocol_id frm)) (frame_payload frm) s)"

text \<open>
  One turn of \<^verbatim>\<open>network_receive_thread\<close>: \<open>frame_phys_addr\<close> and \<open>ret\<close> are the thread's variables, and \<open>gnd\<close> is the interface's device.
\<close>

definition network_receive_turn ::
  "'g gnd_ops \<Rightarrow> uint32 \<Rightarrow> uint32 \<Rightarrow> uint32 \<Rightarrow> uint32 \<Rightarrow> int \<Rightarrow> ('g, 'a) net \<Rightarrow> ((uint32 \<times> int) \<times> ('g, 'a) net) kres"
where
  "network_receive_turn dev now stamp gnd frame_phys_addr ret s =
     bindE (if ret \<noteq> 0 then bindE (on_net_kernel pagepool_get_phys_page s) (\<lambda>(a, s). KERNEL_ASSERT (a \<noteq> 0) (Inr (a, s)))
            else Inr (frame_phys_addr, s)) (\<lambda>(frame_phys_addr, s).
     let frm = ADDR_PHYS_TO_KERNEL frame_phys_addr;
         (r, m, d) = gnd_recv dev gnd frame_phys_addr (net_mem s) (net_dev s);
         s = s\<lparr>net_mem := m, net_dev := d\<rparr>
     in if r = 0 then bindE (network_receive_frame now stamp frm s) (\<lambda>(ret, s). Inr ((frame_phys_addr, ret), s))
        else Inr ((frame_phys_addr, 0), s))"

subsection \<open>Sending\<close>

text \<open>The loop over all interfaces, up to the first without a device.\<close>

definition send_all :: "'g gnd_ops \<Rightarrow> uint32 \<Rightarrow> uint32 \<Rightarrow> ('g, 'a) net \<Rightarrow> (int \<times> ('g, 'a) net) kres" where
  "send_all dev dest frm s =
     bindE (find_from (\<lambda>e. if_gnd e = 0) (network_interfaces s) 0 CONFIG_MAX_GNDS) (\<lambda>stop.
     for_rangeE 0 stop (\<lambda>i (send_ret, s).
       bindE (network_send_interface dev (int i) dest frm s) (\<lambda>(r, s). Inr (if r \<noteq> 0 then NET_ERROR else send_ret, s))) (NET_OK, s))"

definition network_send ::
  "'g gnd_ops \<Rightarrow> uint32 \<Rightarrow> uint32 \<Rightarrow> uint32 \<Rightarrow> uint32 \<Rightarrow> uint32 \<Rightarrow> int \<Rightarrow> uint32 \<Rightarrow> ('g, 'a) net \<Rightarrow> (int \<times> ('g, 'a) net) kres"
where
  "network_send dev now stamp src dest protocol_id len buffer s =
     KERNEL_ASSERT (len > 0 \<and> len \<le> 4096 - int sizeof_frame_header)
    (bindE (on_net_kernel pagepool_get_phys_page s) (\<lambda>(phys_frame, s).
     if phys_frame = 0 then Inr (NET_ERROR, s)
     else
       let frm = ADDR_PHYS_TO_KERNEL phys_frame;
           s = mem_upd (put_mem (frame_source frm) (enc32 src)) s;
           s = mem_upd (put_mem (frame_destination frm) (enc32 dest)) s;
           s = mem_upd (put_mem (frame_protocol_id frm) (enc32 protocol_id)) s;
           s = mem_upd (memcopy len (frame_payload frm) buffer) s in
       if dest = NETWORK_LOOPBACK_ADDRESS then
         let s = (if load32 (net_mem s) (frame_source frm) = NETWORK_BROADCAST_ADDRESS
                  then mem_upd (put_mem (frame_source frm) (enc32 NETWORK_LOOPBACK_ADDRESS)) s else s) in
         bindE (network_receive_frame now stamp frm s) (\<lambda>(r, s).
         if r = 0 then bindE (do_net_kernel (pagepool_free_phys_page phys_frame) s) (\<lambda>s. Inr (NET_ERROR, s))
         else Inr (NET_OK, s))
       else
         bindE (if src \<noteq> NETWORK_BROADCAST_ADDRESS then
                  bindE (network_get_interface src s) (\<lambda>interface.
                  if interface < 0 then Inr (NET_DOESNT_EXIST, s)
                  else bindE (network_send_interface dev interface dest frm s) (\<lambda>(r, s). Inr (if r \<noteq> 0 then NET_ERROR else NET_OK, s)))
                else send_all dev dest frm s) (\<lambda>(send_ret, s).
         bindE (do_net_kernel (pagepool_free_phys_page phys_frame) s) (\<lambda>s. Inr (send_ret, s)))))"

subsection \<open>Sockets\<close>

definition socket_upd :: "int \<Rightarrow> (socket_descriptor_t \<Rightarrow> socket_descriptor_t) \<Rightarrow> ('g, 'a) net \<Rightarrow> ('g, 'a) net kres" where
  "socket_upd i f s =
     bindE (rd (open_sockets s) i) (\<lambda>e. bindE (wr (open_sockets s) i (f e)) (\<lambda>t. Inr (s\<lparr>open_sockets := t\<rparr>)))"

definition socket_init :: "('g, 'a) net \<Rightarrow> ('g, 'a) net kres" where
  "socket_init s =
     KERNEL_ASSERT (\<not> socket_init_done s)
    (let s = s\<lparr>socket_init_done := True\<rparr> in
     bindE (on_net_kernel (semaphore_create 1) s) (\<lambda>(sem, s).
     if sem = None then KERNEL_PANIC ''socket_init: semaphore allocation failed''
     else
       for_rangeE 0 CONFIG_MAX_OPEN_SOCKETS (\<lambda>i. socket_upd (int i) (\<lambda>e.
           \<lparr>sk_port = 0, sk_protocol = 0, receive_complete = None, sk_rbuf = 0, sk_bufsize = 0, sk_sender = 0, sk_copied = 0, sk_sport = 0\<rparr>))
         (s\<lparr>open_sockets_sem := 1\<rparr>)))"

definition port_taken :: "socket_descriptor_t list \<Rightarrow> uint16 \<Rightarrow> bool kres" where
  "port_taken t port =
     bindE (find_from (\<lambda>e. sk_protocol e \<noteq> 0 \<and> sk_port e = port) t 0 CONFIG_MAX_OPEN_SOCKETS) (\<lambda>i. Inr (i < CONFIG_MAX_OPEN_SOCKETS))"

text \<open>
  The search of \<^verbatim>\<open>socket_open\<close> for a free port: the loop ends when the port after the last one tried is not in use.
  \<open>None\<close> is a loop without end.
\<close>

partial_function (option) next_free_port :: "socket_descriptor_t list \<Rightarrow> uint16 \<Rightarrow> uint16 kres option" where
  "next_free_port t port =
     (case port_taken t (port + 1) of
        Inl e \<Rightarrow> Some (Inl e)
      | Inr notfree \<Rightarrow> if notfree then next_free_port t (port + 1) else Some (Inr (port + 1)))"

declare next_free_port.simps [code]

definition socket_open :: "uint8 \<Rightarrow> uint16 \<Rightarrow> ('g, 'a) net \<Rightarrow> (int \<times> ('g, 'a) net) kres option" where
  "socket_open protocol port s =
     (if protocol \<noteq> PROTOCOL_POP \<and> protocol \<noteq> PROTOCOL_SOP then Some (Inr (-1, s))
      else case bindE (P_sockets s) (\<lambda>s. bindE (find_from (\<lambda>e. sk_protocol e = 0) (open_sockets s) 0 CONFIG_MAX_OPEN_SOCKETS) (\<lambda>i. Inr (i, s))) of
        Inl e \<Rightarrow> Some (Inl e)
      | Inr (i, s) \<Rightarrow>
          if i = CONFIG_MAX_OPEN_SOCKETS then Some (Inr (-1, V_sockets s))
          else map_option (\<lambda>chosen.
            bindE chosen (\<lambda>port.
            case port of
              None \<Rightarrow> Inr (-1, V_sockets s)
            | Some port \<Rightarrow>
                bindE (on_net_kernel (semaphore_create 0) s) (\<lambda>(sem, s).
                bindE (socket_upd (int i) (\<lambda>e. e\<lparr>receive_complete := sem\<rparr>) s) (\<lambda>s.
                if sem = None then Inr (-1, V_sockets s)
                else bindE (socket_upd (int i) (\<lambda>e. e\<lparr>sk_port := port, sk_protocol := protocol, sk_rbuf := 0, sk_bufsize := 0,
                       sk_sender := 0, sk_copied := 0\<rparr>) s) (\<lambda>s.
                     Inr (int i, V_sockets s))))))
           (if port = 0 then
              map_option (\<lambda>r. bindE r (\<lambda>port. KERNEL_ASSERT (port \<noteq> 0) (Inr (Some port)))) (next_free_port (open_sockets s) 0)
            else Some (bindE (port_taken (open_sockets s) port) (\<lambda>taken. Inr (if taken then None else Some port)))))"

definition socket_close :: "int \<Rightarrow> ('g, 'a) net \<Rightarrow> ('g, 'a) net kres" where
  "socket_close socket s =
     KERNEL_ASSERT (socket \<ge> 0 \<and> socket < int CONFIG_MAX_OPEN_SOCKETS)
    (bindE (P_sockets s) (\<lambda>s.
     bindE (rd (open_sockets s) socket) (\<lambda>e.
     bindE (case receive_complete e of
         None \<Rightarrow> Inr s
       | Some sem \<Rightarrow>
           bindE (socket_upd socket (\<lambda>e. e\<lparr>sk_port := 0, sk_protocol := 0, sk_rbuf := 0, sk_bufsize := 0, sk_sender := 0, sk_copied := 0\<rparr>) s) (\<lambda>s.
           bindE (do_net_kernel (semaphore_destroy sem) s) (\<lambda>s.
           socket_upd socket (\<lambda>e. e\<lparr>receive_complete := None\<rparr>) s))) (\<lambda>s.
     Inr (V_sockets s)))))"

definition socket_sendto ::
  "'g gnd_ops \<Rightarrow> uint32 \<Rightarrow> uint32 \<Rightarrow> int \<Rightarrow> uint32 \<Rightarrow> uint16 \<Rightarrow> uint32 \<Rightarrow> int \<Rightarrow> ('g, 'a) net \<Rightarrow> (int \<times> ('g, 'a) net) kres"
where
  "socket_sendto dev now stamp socket addr dport buf sz s =
     KERNEL_ASSERT (socket \<ge> 0 \<and> socket < int CONFIG_MAX_OPEN_SOCKETS)
    (if dport = 0 then Inr (-1, s)
     else
      KERNEL_ASSERT (sz \<ge> 1 \<and> buf \<noteq> 0)
     (bindE (network_get_mtu NETWORK_BROADCAST_ADDRESS s) (\<lambda>mtu.
      let size = min (min (word_of_int sz) (word_of_int mtu - of_nat sizeof_pop_header)) (PAGE_SIZE - of_nat sizeof_pop_header) :: uint32;
          sz = sint size in
      bindE (P_sockets s) (\<lambda>s.
      bindE (rd (open_sockets s) socket) (\<lambda>e.
      if sk_protocol e \<noteq> PROTOCOL_POP then Inr (-1, V_sockets s)
      else
        let sport = sk_port e; s = V_sockets s in
        bindE (P_send_buffer s) (\<lambda>s.
        let hdr = pop_send_buffer s;
            s = mem_upd (put_mem (hdr_source_port hdr) (enc16 sport)) s;
            s = mem_upd (put_mem (hdr_dest_port hdr) (enc16 dport)) s;
            s = mem_upd (put_mem (hdr_size hdr) (enc32 size)) s;
            s = mem_upd (memcopy sz (pop_data hdr) buf) s in
        bindE (network_send dev now stamp NETWORK_BROADCAST_ADDRESS addr (ucast PROTOCOL_POP) (sint (size + of_nat sizeof_pop_header)) hdr s) (\<lambda>(r, s).
        Inr (if r \<noteq> NET_OK then -1 else sz, V_send_buffer s))))))))"

text \<open>
  \<^verbatim>\<open>socket_recvfrom\<close> in its two parts: up to the wait for the packet (\<open>None\<close>: the caller goes on to wait), and the wait, after which
  the result is read through the caller's pointer.
\<close>

definition socket_recvfrom_post ::
  "int \<Rightarrow> uint32 \<Rightarrow> uint32 \<Rightarrow> uint32 \<Rightarrow> int \<Rightarrow> uint32 \<Rightarrow> ('g, 'a) net \<Rightarrow> (int option \<times> ('g, 'a) net) kres"
where
  "socket_recvfrom_post socket addr sport buf buflength len_ptr s =
     KERNEL_ASSERT (socket \<ge> 0 \<and> socket < int CONFIG_MAX_OPEN_SOCKETS)
    (KERNEL_ASSERT (buflength \<ge> 1 \<and> buf \<noteq> 0 \<and> addr \<noteq> 0 \<and> sport \<noteq> 0 \<and> len_ptr \<noteq> 0)
    (bindE (P_sockets s) (\<lambda>s.
     bindE (rd (open_sockets s) socket) (\<lambda>e.
     if sk_protocol e \<noteq> PROTOCOL_POP \<or> sk_rbuf e \<noteq> 0 then Inr (Some (-1), V_sockets s)
     else
       bindE (socket_upd socket (\<lambda>e. e\<lparr>sk_rbuf := buf, sk_bufsize := word_of_int buflength, sk_sender := addr, sk_copied := len_ptr, sk_sport := sport\<rparr>) s) (\<lambda>s.
       Inr (None, V_service (V_sockets s)))))))"

definition socket_recvfrom_wait :: "uint32 \<Rightarrow> int \<Rightarrow> ('g, 'a) net \<Rightarrow> ('g, 'a) net run kres" where
  "socket_recvfrom_wait sem_base socket s =
     bindE (rd (open_sockets s) socket) (\<lambda>e.
     case receive_complete e of
       None \<Rightarrow> Inl Fault
     | Some sem \<Rightarrow>
         bindE (semaphore_P sem_base sem (net_kernel s)) (\<lambda>r.
         Inr (case r of Returned k \<Rightarrow> Returned (s\<lparr>net_kernel := k\<rparr>) | Switched st k \<Rightarrow> Switched st (s\<lparr>net_kernel := k\<rparr>))))"

definition socket_recvfrom_result :: "uint32 \<Rightarrow> ('g, 'a) net \<Rightarrow> int" where
  "socket_recvfrom_result len_ptr s = sint (load32 (net_mem s) len_ptr)"

subsection \<open>The service thread\<close>

datatype pop_action = POP_ACTION_NONE | POP_ACTION_DISCARD | POP_ACTION_TRANSFER

definition queue_upd :: "int \<Rightarrow> (pop_queue_t \<Rightarrow> pop_queue_t) \<Rightarrow> ('g, 'a) net \<Rightarrow> ('g, 'a) net kres" where
  "queue_upd i f s =
     bindE (rd (pop_queue s) i) (\<lambda>e. bindE (wr (pop_queue s) i (f e)) (\<lambda>t. Inr (s\<lparr>pop_queue := t\<rparr>)))"

text \<open>The search for the recipient of the frame in slot \<open>i\<close>, and the loop over the queue.\<close>

definition find_recipient :: "nat \<Rightarrow> uint32 \<Rightarrow> ('g, 'a) net \<Rightarrow> ('g, 'a) net kres" where
  "find_recipient i f s =
     bindE (rd (pop_queue s) (int i)) (\<lambda>e.
     if pq_socket e = -1 then
       bindE (find_from (\<lambda>k. sk_protocol k = PROTOCOL_POP \<and> sk_port k = load16 (net_mem s) (hdr_dest_port f)) (open_sockets s) 0 CONFIG_MAX_OPEN_SOCKETS) (\<lambda>j.
       if j < CONFIG_MAX_OPEN_SOCKETS then queue_upd (int i) (\<lambda>e. e\<lparr>pq_socket := int j\<rparr>) s else Inr s)
     else Inr s)"

function service_scan_from :: "nat \<Rightarrow> int \<Rightarrow> uint32 \<Rightarrow> ('g, 'a) net \<Rightarrow> ((pop_action \<times> int \<times> uint32) \<times> ('g, 'a) net) kres" where
  "service_scan_from i slot f s =
     (if i < CONFIG_POP_QUEUE_SIZE then
        bindE (rd (pop_queue s) (int i)) (\<lambda>e.
        if pq_frame e = 0 then service_scan_from (Suc i) slot f s
        else
          let f = pq_frame e; slot = int i in
          bindE (find_recipient i f s) (\<lambda>s.
          bindE (rd (pop_queue s) (int i)) (\<lambda>e.
          if pq_socket e = -1 then Inr ((POP_ACTION_DISCARD, slot, f), s)
          else
            bindE (rd (open_sockets s) (pq_socket e)) (\<lambda>k.
            if sk_protocol k \<noteq> PROTOCOL_POP then Inr ((POP_ACTION_DISCARD, slot, f), s)
            else if sk_rbuf k \<noteq> 0 then bindE (queue_upd (int i) (\<lambda>e. e\<lparr>pq_busy := 1\<rparr>) s) (\<lambda>s. Inr ((POP_ACTION_TRANSFER, slot, f), s))
            else service_scan_from (Suc i) slot f s))))
      else Inr ((POP_ACTION_NONE, slot, f), s))"
  by pat_completeness auto
termination
  by (relation "measure (\<lambda>(i, slot, f, s). CONFIG_POP_QUEUE_SIZE - i)") auto

declare service_scan_from.simps [simp del]

definition service_scan :: "int \<Rightarrow> uint32 \<Rightarrow> ('g, 'a) net \<Rightarrow> ((pop_action \<times> int \<times> uint32) \<times> ('g, 'a) net) kres" where
  "service_scan slot f s =
     bindE (P_sockets s) (\<lambda>s.
     bindE (P_queue s) (\<lambda>s.
     bindE (service_scan_from 0 slot f s) (\<lambda>(a, s).
     Inr (a, V_sockets (V_queue s)))))"

text \<open>What is done with the frame, with no lock held.\<close>

definition service_transfer :: "uint32 \<Rightarrow> int \<Rightarrow> uint32 \<Rightarrow> ('g, 'a) net \<Rightarrow> ('g, 'a) net kres" where
  "service_transfer sem_base slot f s =
     bindE (rd (pop_queue s) slot) (\<lambda>e.
     bindE (rd (open_sockets s) (pq_socket e)) (\<lambda>k.
     let bytes = min (load32 (net_mem s) (hdr_size f)) (sk_bufsize k);
         s = mem_upd (memcopy (sint bytes) (sk_rbuf k) (pop_data f)) s in
     bindE (store_to (sk_sender k) (enc32 (pq_from e)) s) (\<lambda>s.
     bindE (store_to (sk_copied k) (enc32 bytes) s) (\<lambda>s.
     bindE (store_to (sk_sport k) (enc16 (load16 (net_mem s) (hdr_source_port f))) s) (\<lambda>s.
     bindE (socket_upd (pq_socket e) (\<lambda>k. k\<lparr>sk_rbuf := 0, sk_bufsize := 0, sk_sender := 0, sk_copied := 0, sk_sport := 0\<rparr>) s) (\<lambda>s.
     bindE (network_free_frame f s) (\<lambda>s.
     bindE (case receive_complete k of None \<Rightarrow> Inl Fault | Some sem \<Rightarrow> do_net_kernel (semaphore_V sem_base sem) s) (\<lambda>s.
     queue_upd slot (\<lambda>e. e\<lparr>pq_frame := 0\<rparr>) s))))))))"

definition service_act :: "uint32 \<Rightarrow> pop_action \<Rightarrow> int \<Rightarrow> uint32 \<Rightarrow> ('g, 'a) net \<Rightarrow> ('g, 'a) net kres" where
  "service_act sem_base action slot f s =
     (case action of
        POP_ACTION_NONE \<Rightarrow> Inr s
      | POP_ACTION_DISCARD \<Rightarrow> bindE (network_free_frame f s) (\<lambda>s. queue_upd slot (\<lambda>e. e\<lparr>pq_frame := 0\<rparr>) s)
      | POP_ACTION_TRANSFER \<Rightarrow> service_transfer sem_base slot f s)"

text \<open>
  One turn of \<^verbatim>\<open>pop_service_thread\<close> when no other thread runs between its parts.  The flag of the result tells that the
  thread now waits for its signal.
\<close>

definition pop_service_turn :: "uint32 \<Rightarrow> int \<Rightarrow> uint32 \<Rightarrow> ('g, 'a) net \<Rightarrow> ((bool \<times> int \<times> uint32) \<times> ('g, 'a) net) kres" where
  "pop_service_turn sem_base slot f s =
     bindE (service_scan slot f s) (\<lambda>((action, slot, f), s).
     bindE (service_act sem_base action slot f s) (\<lambda>s.
     if action = POP_ACTION_NONE
     then Inr ((pop_service_thread_sem s \<le> 0, slot, f), s\<lparr>pop_service_thread_sem := pop_service_thread_sem s - 1\<rparr>)
     else Inr ((False, slot, f), s)))"

subsection \<open>Initialisation\<close>

text \<open>\<open>img\<close> gives the addresses of the kernel's areas, and \<open>func\<close> is the address of the thread's function.\<close>

definition pop_init :: "symbols \<Rightarrow> uint32 \<Rightarrow> ('g, 'a) net \<Rightarrow> ('g, 'a) net kres" where
  "pop_init img func s =
     KERNEL_ASSERT (\<not> pop_init_done s)
    (let s = s\<lparr>pop_init_done := True\<rparr> in
     bindE (on_net_kernel pagepool_get_phys_page s) (\<lambda>(addr, s).
     if addr = 0 then KERNEL_PANIC ''pop_init: page allocation failed''
     else
       let s = s\<lparr>pop_send_buffer := ADDR_PHYS_TO_KERNEL addr\<rparr> in
       bindE (on_net_kernel (semaphore_create 1) s) (\<lambda>(sem1, s).
       bindE (on_net_kernel (semaphore_create 1) s) (\<lambda>(sem2, s).
       bindE (on_net_kernel (semaphore_create 0) s) (\<lambda>(sem3, s).
       if sem1 = None \<or> sem2 = None \<or> sem3 = None then KERNEL_PANIC ''pop_init: semaphore allocation failed''
       else
         let s = s\<lparr>pop_send_buffer_sem := 1, pop_queue_sem := 1, pop_service_thread_sem := 0\<rparr> in
         bindE (for_rangeE 0 CONFIG_POP_QUEUE_SIZE (\<lambda>i. queue_upd (int i) (\<lambda>e.
             \<lparr>pq_frame = 0, pq_socket = -1, pq_timestamp = 0, pq_from = 0, pq_busy = 0\<rparr>)) s) (\<lambda>s.
         bindE (on_net_kernel (thread_create img func 0) s) (\<lambda>(tid, s).
         let s = s\<lparr>pop_service_thread_id := tid\<rparr> in
         do_net_kernel (thread_run (pop_service_thread_id s)) s)))))))"

text \<open>The initialisation functions of the rows of \<open>network_protocols\<close>.\<close>

definition protocols_init :: "symbols \<Rightarrow> uint32 \<Rightarrow> ('g, 'a) net \<Rightarrow> ('g, 'a) net kres" where
  "protocols_init img func s =
     for_rangeE 0 (length (takeWhile (\<lambda>p. snd p \<noteq> None) (network_protocols :: (uint32 \<times> ('g, 'a) frame_handler_t option) list))) (\<lambda>i. pop_init img func) s"

definition interface_upd :: "int \<Rightarrow> (network_interface_info_t \<Rightarrow> network_interface_info_t) \<Rightarrow> ('g, 'a) net \<Rightarrow> ('g, 'a) net kres" where
  "interface_upd i f s =
     bindE (rd (network_interfaces s) i) (\<lambda>e. bindE (wr (network_interfaces s) i (f e)) (\<lambda>t. Inr (s\<lparr>network_interfaces := t\<rparr>)))"

definition init_interface :: "'g gnd_ops \<Rightarrow> 'k devices \<Rightarrow> nat \<Rightarrow> ('g, 'a) net \<Rightarrow> ('g, 'a) net kres" where
  "init_interface ops devs i s =
     bindE (device_get YAMS_TYPECODE_NIC (of_nat i) devs) (\<lambda>dev.
     if dev = 0 then interface_upd (int i) (\<lambda>e. e\<lparr>if_gnd := 0, if_address := 0\<rparr>) s
     else
       let gnd = generic_device (device_at devs dev) in
       bindE (interface_upd (int i) (\<lambda>e. e\<lparr>if_gnd := gnd, if_mtu := sint (gnd_frame_size ops gnd)\<rparr>) s) (\<lambda>s.
       KERNEL_ASSERT (sint (gnd_frame_size ops gnd) \<le> 4096)
      (interface_upd (int i) (\<lambda>e. e\<lparr>if_address := gnd_hwaddr ops gnd\<rparr>) s)))"

definition start_receiver :: "symbols \<Rightarrow> uint32 \<Rightarrow> nat \<Rightarrow> ('g, 'a) net \<Rightarrow> ('g, 'a) net kres" where
  "start_receiver img receive_func i s =
     bindE (on_net_kernel (thread_create img receive_func (of_nat i)) s) (\<lambda>(tid, s).
     KERNEL_ASSERT (tid > 0) (do_net_kernel (thread_run tid) s))"

definition network_init ::
  "symbols \<Rightarrow> uint32 \<Rightarrow> uint32 \<Rightarrow> 'g gnd_ops \<Rightarrow> 'k devices \<Rightarrow> ('g, 'a) net \<Rightarrow> ('g, 'a) net kres"
where
  "network_init img service_func receive_func ops devs s =
     bindE (for_rangeE 0 CONFIG_MAX_GNDS (init_interface ops devs) s) (\<lambda>s.
     bindE (socket_init s) (\<lambda>s.
     bindE (protocols_init img service_func s) (\<lambda>s.
     bindE (find_from (\<lambda>e. if_gnd e = 0) (network_interfaces s) 0 CONFIG_MAX_GNDS) (\<lambda>stop.
     for_rangeE 0 stop (start_receiver img receive_func) s))))"

end
