(* ===== verification/Net_Socket.thy ===== *)
theory Net_Socket
  imports Net
begin

text \<open>
  The table of sockets: what it looks like between operations, that opening a socket ends and binds it to a port of its own,
  and that no sequence of operations on sockets gives two of them the same port.
\<close>

definition is_open :: "socket_descriptor_t \<Rightarrow> bool" where
  "is_open e \<longleftrightarrow> sk_protocol e \<noteq> 0"

text \<open>
  An open socket has a protocol, a port and a semaphore in use; a closed one has no semaphore and no receiver.
\<close>

definition socket_ok :: "'a sems_scheme \<Rightarrow> socket_descriptor_t \<Rightarrow> bool" where
  "socket_ok k e \<longleftrightarrow>
     (if is_open e then sk_protocol e \<in> {PROTOCOL_POP, PROTOCOL_SOP} \<and> sk_port e \<noteq> 0 \<and> (\<exists>h. receive_complete e = Some h \<and> live k h)
      else receive_complete e = None \<and> sk_rbuf e = 0)"

definition own_ports :: "socket_descriptor_t list \<Rightarrow> bool" where
  "own_ports t \<longleftrightarrow> (\<forall>i < length t. \<forall>j < length t. i \<noteq> j \<longrightarrow> is_open (t ! i) \<longrightarrow> is_open (t ! j) \<longrightarrow>
     sk_port (t ! i) \<noteq> sk_port (t ! j) \<and> receive_complete (t ! i) \<noteq> receive_complete (t ! j))"

definition sockets_ok :: "uint32 \<Rightarrow> ('g, 'a) net \<Rightarrow> bool" where
  "sockets_ok base s \<longleftrightarrow> length (open_sockets s) = CONFIG_MAX_OPEN_SOCKETS \<and> open_sockets_sem s = 1 \<and>
     (\<exists>rs qs. sems_ok base (net_kernel s) rs qs) \<and> (\<forall>e \<in> set (open_sockets s). socket_ok (net_kernel s) e) \<and> own_ports (open_sockets s)"

definition ports_in_use :: "('g, 'a) net \<Rightarrow> uint16 set" where
  "ports_in_use s = sk_port ` {e \<in> set (open_sockets s). is_open e}"

subsection \<open>The search for a port\<close>

lemma port_taken_eq:
  "length t = CONFIG_MAX_OPEN_SOCKETS \<Longrightarrow> port_taken t port = Inr (port \<in> sk_port ` {e \<in> set t. is_open e})"
proof -
  assume len: "length t = CONFIG_MAX_OPEN_SOCKETS"
  let ?P = "\<lambda>i. sk_protocol (t ! i) \<noteq> 0 \<and> sk_port (t ! i) = port"
  have "first_from ?P 0 64 < 64 \<longleftrightarrow> (\<exists>i < 64. ?P i)"
    using first_from_eq_n_iff [of 0 64 ?P] first_from_le [of 0 64 ?P] by (simp add: nat_less_le)
  also have "\<dots> \<longleftrightarrow> port \<in> sk_port ` {e \<in> set t. is_open e}"
    using len by (auto simp: in_set_conv_nth is_open_def)
  finally show ?thesis using len by (simp add: port_taken_def find_from_eq)
qed

text \<open>At most 64 of the ports from 1 to 65 are in use.\<close>

lemma free_port_exists:
  assumes "length t = CONFIG_MAX_OPEN_SOCKETS"
  shows "\<exists>n. 0 < n \<and> n \<le> 65 \<and> (of_nat n :: uint16) \<notin> sk_port ` {e \<in> set t. is_open e}"
proof (rule ccontr)
  assume "\<not> ?thesis"
  then have sub: "of_nat ` {1..65} \<subseteq> sk_port ` set t" by fastforce
  have "inj_on (of_nat :: nat \<Rightarrow> uint16) {1..65}"
  proof (rule inj_onI)
    fix x y :: nat assume "x \<in> {1..65}" "y \<in> {1..65}" "(of_nat x :: uint16) = of_nat y"
    then have "unat (of_nat x :: uint16) = unat (of_nat y :: uint16)" "x < 2 ^ 16" "y < 2 ^ 16" by auto
    then show "x = y" by (simp add: unat_of_nat)
  qed
  then have "card ((of_nat :: nat \<Rightarrow> uint16) ` {1..65}) = 65" by (simp add: card_image)
  moreover have "card (sk_port ` set t) \<le> 64"
    using card_image_le [of "set t" sk_port] card_length [of t] assms by simp
  ultimately show False using card_mono [OF _ sub] by simp
qed

lemma next_free_port_ends:
  assumes len: "length t = CONFIG_MAX_OPEN_SOCKETS" and n: "n < 2 ^ 16" "(of_nat n :: uint16) \<notin> sk_port ` {e \<in> set t. is_open e}"
    and used: "\<And>m. k < m \<Longrightarrow> m < n \<Longrightarrow> (of_nat m :: uint16) \<in> sk_port ` {e \<in> set t. is_open e}" and k: "k < n"
  shows "next_free_port t (of_nat k) = Some (Inr (of_nat n))"
  using used k
proof (induction "n - k" arbitrary: k)
  case (Suc d)
  note step = next_free_port.simps [of t "of_nat k"] port_taken_eq [OF len]
  have suc: "(of_nat k :: uint16) + 1 = of_nat (Suc k)" by simp
  show ?case
  proof (cases "Suc k = n")
    case True
    then show ?thesis unfolding step suc using n(2) by simp
  next
    case False
    then have "next_free_port t (of_nat (Suc k)) = Some (Inr (of_nat n))"
      using Suc by (intro Suc.hyps(1)) auto
    moreover have "(of_nat (Suc k) :: uint16) \<in> sk_port ` {e \<in> set t. is_open e}"
      by (rule Suc.prems(1)) (use Suc.prems(2) False in auto)
    ultimately show ?thesis unfolding step suc by simp
  qed
qed simp

lemma lowest_free_port:
  assumes len: "length t = CONFIG_MAX_OPEN_SOCKETS"
  shows "\<exists>q. next_free_port t 0 = Some (Inr q) \<and> q \<noteq> 0 \<and> q \<notin> sk_port ` {e \<in> set t. is_open e} \<and>
    (\<forall>p. 0 < p \<and> p < q \<longrightarrow> p \<in> sk_port ` {e \<in> set t. is_open e})"
proof -
  let ?U = "sk_port ` {e \<in> set t. is_open e}"
  define n where "n = (LEAST n. 0 < n \<and> n \<le> 65 \<and> (of_nat n :: uint16) \<notin> ?U)"
  have n: "0 < n" "n \<le> 65" "(of_nat n :: uint16) \<notin> ?U"
    using LeastI_ex [OF free_port_exists [OF len]] unfolding n_def by auto
  have used: "(of_nat m :: uint16) \<in> ?U" if "0 < m" "m < n" for m
    using not_less_Least [of m "\<lambda>n. 0 < n \<and> n \<le> 65 \<and> (of_nat n :: uint16) \<notin> ?U"] that n(2) unfolding n_def [symmetric] by auto
  have un: "unat (of_nat n :: uint16) = n" using n(2) by (simp add: unat_of_nat)
  have "next_free_port t 0 = Some (Inr (of_nat n))"
    using next_free_port_ends [OF len _ n(3), of 0] used n(1,2) by simp
  moreover have "p \<in> ?U" if "0 < p" "p < of_nat n" for p
    using used [of "unat p"] that un by (simp add: word_less_nat_alt unat_gt_0)
  moreover have "(of_nat n :: uint16) \<noteq> 0" using n(1) un by auto
  ultimately show ?thesis using n(3) by blast
qed

subsection \<open>Opening and closing\<close>

lemma socket_upd_ok:
  "0 \<le> i \<Longrightarrow> nat i < length (open_sockets s) \<Longrightarrow> socket_upd i f s = Inr (s\<lparr>open_sockets := (open_sockets s)[nat i := f (open_sockets s ! nat i)]\<rparr>)"
  by (simp add: socket_upd_def)

lemma sockets_lock:
  "open_sockets_sem s = 1 \<Longrightarrow> P_sockets s = Inr (s\<lparr>open_sockets_sem := 0\<rparr>)"
  "V_sockets s = s\<lparr>open_sockets_sem := open_sockets_sem s + 1\<rparr>"
  by (simp_all add: P_sockets_def V_sockets_def sem_P_def)

lemma current_not_none:
  assumes "sems_ok b k rs qs"
  shows "current_of k (this_cpu k) \<noteq> -1"
  using sched_okD(7) [OF sleepq_okD(1) [OF sems_okD(1) [OF assms]]] by (simp add: is_tid_def)

lemma socket_ok_live:
  "socket_ok k e \<Longrightarrow> (\<And>h. receive_complete e = Some h \<Longrightarrow> live k h \<Longrightarrow> live k' h) \<Longrightarrow> socket_ok k' e"
  by (auto simp: socket_ok_def)

text \<open>A free entry of the table becomes a socket with a new port and a new semaphore.\<close>

lemma own_ports_new:
  assumes "own_ports t" "i < length t" "\<not> is_open (t ! i)" "sk_port e \<notin> sk_port ` {e \<in> set t. is_open e}"
    "\<And>j. j < length t \<Longrightarrow> is_open (t ! j) \<Longrightarrow> receive_complete (t ! j) \<noteq> receive_complete e"
  shows "own_ports (t[i := e])"
proof -
  have "sk_port (t ! j) \<noteq> sk_port e" if "j < length t" "is_open (t ! j)" for j
    using assms(4) that by (metis (mono_tags, lifting) imageI mem_Collect_eq nth_mem)
  then have new: "sk_port (t ! j) \<noteq> sk_port e \<and> receive_complete (t ! j) \<noteq> receive_complete e" if "j < length t" "is_open (t ! j)" for j
    using assms(5) that by blast
  show ?thesis unfolding own_ports_def length_list_update
  proof (intro allI impI)
    fix a b assume ab: "a < length t" "b < length t" "a \<noteq> b" "is_open (t[i := e] ! a)" "is_open (t[i := e] ! b)"
    consider "a = i" | "b = i" | "a \<noteq> i" "b \<noteq> i" by blast
    then show "sk_port (t[i := e] ! a) \<noteq> sk_port (t[i := e] ! b) \<and> receive_complete (t[i := e] ! a) \<noteq> receive_complete (t[i := e] ! b)"
    proof cases
      case 1 then show ?thesis using ab new [of b] by simp metis
    next
      case 2 then show ?thesis using ab new [of a] by simp
    next
      case 3 then show ?thesis using ab assms(1) by (simp add: own_ports_def)
    qed
  qed
qed

lemma own_ports_same:
  assumes "own_ports t" "i < length t" "is_open e \<Longrightarrow> is_open (t ! i) \<and> sk_port e = sk_port (t ! i) \<and> receive_complete e = receive_complete (t ! i)"
  shows "own_ports (t[i := e])"
  using assms unfolding own_ports_def by (auto simp: nth_list_update)

text \<open>Why opening a socket fails: the protocol, the table, the port, or no semaphore is left.\<close>

definition open_refused :: "uint8 \<Rightarrow> uint16 \<Rightarrow> ('g, 'a) net \<Rightarrow> bool" where
  "open_refused protocol port s \<longleftrightarrow> protocol \<notin> {PROTOCOL_POP, PROTOCOL_SOP} \<or> (\<forall>e \<in> set (open_sockets s). is_open e) \<or>
     (port \<noteq> 0 \<and> port \<in> ports_in_use s) \<or> free_sems (net_kernel s) = {}"

text \<open>The choice of the port: the given one when it is free, else the lowest that is.\<close>

lemma port_choice:
  assumes "length t = CONFIG_MAX_OPEN_SOCKETS"
  shows "\<exists>q. (if port = 0 then map_option (\<lambda>r. bindE r (\<lambda>port. KERNEL_ASSERT (port \<noteq> 0) (Inr (Some port)))) (next_free_port t 0)
      else Some (bindE (port_taken t port) (\<lambda>taken. Inr (if taken then None else Some port)))) = Some (Inr q) \<and>
    (q = None \<longleftrightarrow> port \<noteq> 0 \<and> port \<in> sk_port ` {e \<in> set t. is_open e}) \<and>
    (\<forall>p. q = Some p \<longrightarrow> p \<noteq> 0 \<and> p \<notin> sk_port ` {e \<in> set t. is_open e} \<and>
      (if port = 0 then \<forall>p'. 0 < p' \<and> p' < p \<longrightarrow> p' \<in> sk_port ` {e \<in> set t. is_open e} else p = port))"
proof (cases "port = 0")
  case True
  from lowest_free_port [OF assms] obtain q where q: "next_free_port t 0 = Some (Inr q)" "q \<noteq> 0" "q \<notin> sk_port ` {e \<in> set t. is_open e}"
    "\<forall>p. 0 < p \<and> p < q \<longrightarrow> p \<in> sk_port ` {e \<in> set t. is_open e}" by blast
  then show ?thesis using True by (intro exI [of _ "Some q"]) simp
next
  case False
  then show ?thesis by (simp add: port_taken_eq [OF assms])
qed

lemma semaphore_create_any:
  assumes "sems_ok b k rs qs" "good_base b"
  shows "\<exists>h k'. semaphore_create 0 k = Inr (h, k') \<and> sems_ok b k' rs qs \<and> (h = None \<longleftrightarrow> free_sems k = {}) \<and> (\<forall>i. live k i \<longrightarrow> live k' i) \<and>
    (\<forall>i. h = Some i \<longrightarrow> live k' i \<and> \<not> live k i \<and> sem_value (sem_row k' i) = 0)"
proof -
  note cur = current_not_none [OF assms(1)]
  have v: "(0 :: int) \<le> 0" by simp
  from assms(1,2) v cur show ?thesis
  proof (cases rule: semaphore_create_cases)
    case (full k')
    then show ?thesis by (auto simp: free_sems_def live_def)
  next
    case (row k' i)
    have "live k' j" if "live k j" for j using row(3,4,6) that by (cases "j = i") (auto simp: live_def)
    then show ?thesis using row cur by (auto simp: free_sems_def live_def)
  qed
qed

lemma first_free_socket:
  assumes "length t = CONFIG_MAX_OPEN_SOCKETS"
  shows "\<exists>i. find_from (\<lambda>e. sk_protocol e = 0) t 0 CONFIG_MAX_OPEN_SOCKETS = Inr i \<and> i \<le> CONFIG_MAX_OPEN_SOCKETS \<and>
    (i = CONFIG_MAX_OPEN_SOCKETS \<longleftrightarrow> (\<forall>e \<in> set t. is_open e)) \<and> (i < CONFIG_MAX_OPEN_SOCKETS \<longrightarrow> \<not> is_open (t ! i))"
proof -
  let ?i = "first_from (\<lambda>i. sk_protocol (t ! i) = 0) 0 64"
  have "?i = 64 \<longleftrightarrow> (\<forall>e \<in> set t. is_open e)"
    using first_from_eq_n_iff [of 0 64 "\<lambda>i. sk_protocol (t ! i) = 0"] assms by (auto simp: all_set_conv_all_nth is_open_def)
  moreover have "?i < 64 \<Longrightarrow> \<not> is_open (t ! ?i)" using first_from_holds by (fastforce simp: is_open_def)
  moreover have "?i \<le> 64" by (rule first_from_le) simp
  ultimately show ?thesis using assms by (intro exI [of _ ?i]) (simp add: find_from_eq)
qed

text \<open>The new entry, in the table of a kernel with the new semaphore.\<close>

lemma sockets_ok_new:
  assumes ok: "sockets_ok base s" and i: "i < CONFIG_MAX_OPEN_SOCKETS" "\<not> is_open (open_sockets s ! i)"
    and k: "sems_ok base k rs qs" "\<And>j. live (net_kernel s) j \<Longrightarrow> live k j" "live k h" "\<not> live (net_kernel s) h"
    and e: "sk_protocol e \<in> {PROTOCOL_POP, PROTOCOL_SOP}" "sk_port e \<noteq> 0" "sk_port e \<notin> ports_in_use s" "receive_complete e = Some h"
  shows "sockets_ok base (s\<lparr>net_kernel := k, open_sockets := (open_sockets s)[i := e]\<rparr>)"
proof -
  note S = ok [unfolded sockets_ok_def]
  have op: "is_open e" using e(1) by (auto simp: is_open_def)
  have e_ok: "socket_ok k e" using e k(3) op by (auto simp: socket_ok_def)
  have old: "socket_ok k x" if "x \<in> set (open_sockets s)" for x
    using S that by (blast intro: socket_ok_live k(2))
  have "receive_complete (open_sockets s ! j) \<noteq> receive_complete e" if "j < length (open_sockets s)" "is_open (open_sockets s ! j)" for j
  proof -
    have "socket_ok (net_kernel s) (open_sockets s ! j)" using S that(1) by simp
    then show ?thesis using that(2) e(4) k(4) by (auto simp: socket_ok_def)
  qed
  then have "own_ports ((open_sockets s)[i := e])"
    using S i e(3) by (intro own_ports_new) (auto simp: ports_in_use_def)
  then show ?thesis
    using S k(1) e_ok old by (auto simp: sockets_ok_def dest!: subsetD [OF set_update_subset_insert])
qed

lemma sockets_ok_kernel:
  assumes "sockets_ok base s" "sems_ok base k rs qs" "\<And>j. live (net_kernel s) j \<Longrightarrow> live k j"
  shows "sockets_ok base (s\<lparr>net_kernel := k\<rparr>)"
  using assms unfolding sockets_ok_def by (auto intro: socket_ok_live)

text \<open>What is left of \<^verbatim>\<open>socket_open\<close> when the entry and the port are chosen.\<close>

lemma socket_open_eq:
  assumes lock: "open_sockets_sem s = 1" and proto: "protocol \<in> {PROTOCOL_POP, PROTOCOL_SOP}"
    and i: "find_from (\<lambda>e. sk_protocol e = 0) (open_sockets s) 0 CONFIG_MAX_OPEN_SOCKETS = Inr i"
    and q: "(if port = 0 then map_option (\<lambda>r. bindE r (\<lambda>port. KERNEL_ASSERT (port \<noteq> 0) (Inr (Some port)))) (next_free_port (open_sockets s) 0)
      else Some (bindE (port_taken (open_sockets s) port) (\<lambda>taken. Inr (if taken then None else Some port)))) = Some (Inr q)"
  shows "socket_open protocol port s = (if i = CONFIG_MAX_OPEN_SOCKETS then Some (Inr (-1, s))
      else case q of None \<Rightarrow> Some (Inr (-1, s)) | Some p \<Rightarrow> Some (
        bindE (on_net_kernel (semaphore_create 0) (s\<lparr>open_sockets_sem := 0\<rparr>)) (\<lambda>(sem, s).
        bindE (socket_upd (int i) (\<lambda>e. e\<lparr>receive_complete := sem\<rparr>) s) (\<lambda>s.
        if sem = None then Inr (-1, V_sockets s)
        else bindE (socket_upd (int i) (\<lambda>e. e\<lparr>sk_port := p, sk_protocol := protocol, sk_rbuf := 0, sk_bufsize := 0, sk_sender := 0, sk_copied := 0\<rparr>) s)
          (\<lambda>s. Inr (int i, V_sockets s))))))"
proof -
  have unlock: "V_sockets (s\<lparr>open_sockets_sem := 0\<rparr>) = s" using lock by (simp add: sockets_lock)
  show ?thesis using proto i q lock unlock by (cases q) (auto simp: socket_open_def sockets_lock(1))
qed

lemma socket_open_ok:
  assumes ok: "sockets_ok base s" and b: "good_base base"
  shows "\<exists>r s'. socket_open protocol port s = Some (Inr (r, s')) \<and> sockets_ok base s' \<and>
    (if open_refused protocol port s then r = -1 \<and> open_sockets s' = open_sockets s
     else \<exists>i e. r = int i \<and> i < CONFIG_MAX_OPEN_SOCKETS \<and> \<not> is_open (open_sockets s ! i) \<and> open_sockets s' = (open_sockets s)[i := e] \<and>
       sk_protocol e = protocol \<and> sk_rbuf e = 0 \<and> sk_port e \<noteq> 0 \<and> sk_port e \<notin> ports_in_use s \<and>
       (if port = 0 then \<forall>p. 0 < p \<and> p < sk_port e \<longrightarrow> p \<in> ports_in_use s else sk_port e = port) \<and>
       (\<exists>h. receive_complete e = Some h \<and> sem_value (sem_row (net_kernel s') h) = 0))"
proof (cases "protocol \<in> {PROTOCOL_POP, PROTOCOL_SOP}")
  case False
  then show ?thesis using ok by (auto simp: socket_open_def open_refused_def)
next
  case proto: True
  note S = ok [unfolded sockets_ok_def]
  then have len: "length (open_sockets s) = CONFIG_MAX_OPEN_SOCKETS" and lock: "open_sockets_sem s = 1" by simp_all
  obtain rs qs where sems: "sems_ok base (net_kernel s) rs qs" using S by blast
  let ?s = "s\<lparr>open_sockets_sem := 0\<rparr>"
  obtain i where i: "find_from (\<lambda>e. sk_protocol e = 0) (open_sockets s) 0 CONFIG_MAX_OPEN_SOCKETS = Inr i" "i \<le> CONFIG_MAX_OPEN_SOCKETS"
    "i = CONFIG_MAX_OPEN_SOCKETS \<longleftrightarrow> (\<forall>e \<in> set (open_sockets s). is_open e)" "i < CONFIG_MAX_OPEN_SOCKETS \<Longrightarrow> \<not> is_open (open_sockets s ! i)"
    using first_free_socket [OF len] by blast
  obtain q where q: "(if port = 0 then map_option (\<lambda>r. bindE r (\<lambda>port. KERNEL_ASSERT (port \<noteq> 0) (Inr (Some port)))) (next_free_port (open_sockets s) 0)
      else Some (bindE (port_taken (open_sockets s) port) (\<lambda>taken. Inr (if taken then None else Some port)))) = Some (Inr q)"
    "q = None \<longleftrightarrow> port \<noteq> 0 \<and> port \<in> ports_in_use s"
    "\<And>p. q = Some p \<Longrightarrow> p \<noteq> 0 \<and> p \<notin> ports_in_use s \<and> (if port = 0 then \<forall>p'. 0 < p' \<and> p' < p \<longrightarrow> p' \<in> ports_in_use s else p = port)"
    using port_choice [OF len, of port, folded ports_in_use_def] by blast
  obtain h k where h: "semaphore_create 0 (net_kernel s) = Inr (h, k)" "sems_ok base k rs qs" "h = None \<longleftrightarrow> free_sems (net_kernel s) = {}"
    "\<And>i. live (net_kernel s) i \<Longrightarrow> live k i" "\<And>i. h = Some i \<Longrightarrow> live k i \<and> \<not> live (net_kernel s) i \<and> sem_value (sem_row k i) = 0"
    using semaphore_create_any [OF sems b] by blast
  note start = socket_open_eq [OF lock proto i(1) q(1)]
  have sem: "on_net_kernel (semaphore_create 0) ?s = Inr (h, ?s\<lparr>net_kernel := k\<rparr>)"
    using h(1) by (simp add: on_net_kernel_def)
  show ?thesis
  proof (cases "i = CONFIG_MAX_OPEN_SOCKETS \<or> q = None")
    case True
    then show ?thesis using start i(3) q(2) ok by (auto simp: open_refused_def)
  next
    case False
    then obtain p where p: "q = Some p" "i < CONFIG_MAX_OPEN_SOCKETS" using i(2) by auto
    have free: "\<not> is_open (open_sockets s ! i)" by (rule i(4) [OF p(2)])
    show ?thesis
    proof (cases h)
      case None
      have "socket_ok (net_kernel s) (open_sockets s ! i)" using S p(2) by simp
      then have "(open_sockets s ! i)\<lparr>receive_complete := None\<rparr> = open_sockets s ! i" using free by (simp add: socket_ok_def)
      then have "socket_open protocol port s = Some (Inr (-1, s\<lparr>net_kernel := k\<rparr>))"
        using start sem p None len lock by (simp add: socket_upd_ok sockets_lock)
      moreover have "sockets_ok base (s\<lparr>net_kernel := k\<rparr>)" by (rule sockets_ok_kernel [OF ok h(2,4)])
      moreover have "open_refused protocol port s" using h(3) None by (simp add: open_refused_def)
      ultimately show ?thesis by simp
    next
      case (Some x)
      define e where "e = (open_sockets s ! i)\<lparr>receive_complete := Some x, sk_port := p, sk_protocol := protocol, sk_rbuf := 0, sk_bufsize := 0, sk_sender := 0, sk_copied := 0\<rparr>"
      have run: "socket_open protocol port s = Some (Inr (int i, s\<lparr>net_kernel := k, open_sockets := (open_sockets s)[i := e]\<rparr>))"
        using start sem p Some len lock by (simp add: socket_upd_ok sockets_lock e_def)
      have "sockets_ok base (s\<lparr>net_kernel := k, open_sockets := (open_sockets s)[i := e]\<rparr>)"
        by (rule sockets_ok_new [OF ok p(2) free h(2,4)]) (use h(5) [OF Some] q(3) [OF p(1)] proto in \<open>auto simp: e_def\<close>)
      moreover have "\<not> open_refused protocol port s"
        using proto i(3) p q(2) h(3) Some by (auto simp: open_refused_def)
      ultimately show ?thesis using run p(2) free q(3) [OF p(1)] h(5) [OF Some] by (auto simp: e_def)
    qed
  qed
qed

text \<open>Closing a socket that nobody waits for.\<close>

definition idle_socket :: "('g, 'a) net \<Rightarrow> int \<Rightarrow> bool" where
  "idle_socket s i \<longleftrightarrow> (case receive_complete (open_sockets s ! nat i) of None \<Rightarrow> True | Some h \<Rightarrow> 0 \<le> sem_value (sem_row (net_kernel s) h))"

lemma sockets_ok_close:
  assumes ok: "sockets_ok base s" and i: "i < CONFIG_MAX_OPEN_SOCKETS" "receive_complete (open_sockets s ! i) = Some h"
    and k: "sems_ok base k rs qs" "\<And>j. is_sem j \<Longrightarrow> j \<noteq> h \<Longrightarrow> sem_row k j = sem_row (net_kernel s) j"
    and e: "\<not> is_open e" "receive_complete e = None" "sk_rbuf e = 0"
  shows "sockets_ok base (s\<lparr>net_kernel := k, open_sockets := (open_sockets s)[i := e]\<rparr>)"
proof -
  note S = ok [unfolded sockets_ok_def]
  have op: "is_open (open_sockets s ! i)" using S i by (force simp: socket_ok_def split: if_splits dest: nth_mem)
  have e_ok: "socket_ok k e" using e by (simp add: socket_ok_def)
  have "socket_ok k (open_sockets s ! j)" if j: "j < CONFIG_MAX_OPEN_SOCKETS" "j \<noteq> i" for j
  proof -
    have "socket_ok (net_kernel s) (open_sockets s ! j)" using S j(1) by simp
    then show ?thesis
    proof (rule socket_ok_live)
      fix h' assume h': "receive_complete (open_sockets s ! j) = Some h'" "live (net_kernel s) h'"
      have "is_open (open_sockets s ! j)" using S j(1) h'(1) by (force simp: socket_ok_def split: if_splits dest: nth_mem)
      with S op j i h'(1) have "h' \<noteq> h" unfolding own_ports_def by (metis option.inject)
      with h'(2) k(2) show "live k h'" by (simp add: live_def)
    qed
  qed
  then have "\<forall>j < length (open_sockets s). socket_ok k ((open_sockets s)[i := e] ! j)"
    using S e_ok i(1) by (metis nth_list_update_eq nth_list_update_neq)
  moreover have "own_ports ((open_sockets s)[i := e])" using S i(1) e(1) by (intro own_ports_same) auto
  ultimately show ?thesis using S k(1) by (auto simp: sockets_ok_def all_set_conv_all_nth)
qed

lemma socket_close_ok:
  assumes ok: "sockets_ok base s" and i: "0 \<le> i" "i < int CONFIG_MAX_OPEN_SOCKETS" "idle_socket s i"
  shows "\<exists>s'. socket_close i s = Inr s' \<and> sockets_ok base s' \<and> \<not> is_open (open_sockets s' ! nat i) \<and>
    (\<forall>j < CONFIG_MAX_OPEN_SOCKETS. j \<noteq> nat i \<longrightarrow> open_sockets s' ! j = open_sockets s ! j)"
proof -
  note S = ok [unfolded sockets_ok_def]
  then have len: "length (open_sockets s) = CONFIG_MAX_OPEN_SOCKETS" "open_sockets_sem s = 1" by simp_all
  have ix: "nat i < CONFIG_MAX_OPEN_SOCKETS" using i by simp
  let ?e = "open_sockets s ! nat i"
  have e: "socket_ok (net_kernel s) ?e" using S ix by simp
  show ?thesis
  proof (cases "receive_complete ?e")
    case None
    then have "socket_close i s = Inr s" "\<not> is_open ?e"
      using i ix len e by (auto simp: socket_close_def sockets_lock socket_ok_def)
    with ok show ?thesis by simp
  next
    case (Some h)
    then have h: "live (net_kernel s) h" "0 \<le> sem_value (sem_row (net_kernel s) h)"
      using e i(3) by (auto simp: socket_ok_def idle_socket_def split: if_splits)
    obtain rs qs where "sems_ok base (net_kernel s) rs qs" using S by blast
    from semaphore_destroy_ok [OF this h] obtain k where k: "semaphore_destroy h (net_kernel s) = Inr k" "sems_ok base k rs qs"
      "\<And>j. is_sem j \<Longrightarrow> j \<noteq> h \<Longrightarrow> sem_row k j = sem_row (net_kernel s) j" by metis
    define e' where "e' = ?e\<lparr>sk_port := 0, sk_protocol := 0, sk_rbuf := 0, sk_bufsize := 0, sk_sender := 0, sk_copied := 0, receive_complete := None\<rparr>"
    have e': "\<not> is_open e'" "receive_complete e' = None" "sk_rbuf e' = 0" by (simp_all add: e'_def is_open_def)
    have "socket_close i s = Inr (s\<lparr>net_kernel := k, open_sockets := (open_sockets s)[nat i := e']\<rparr>)"
      using i ix len Some k(1) by (simp add: socket_close_def sockets_lock socket_upd_ok do_net_kernel_def e'_def)
    moreover note sockets_ok_close [OF ok ix Some k(2,3) e']
    ultimately show ?thesis using ix len e'(1) by simp
  qed
qed

text \<open>Asking for a packet, and the initial table.\<close>

lemma socket_recvfrom_post_ok:
  assumes ok: "sockets_ok base s" and i: "0 \<le> i" "i < int CONFIG_MAX_OPEN_SOCKETS"
    and args: "1 \<le> len" "buf \<noteq> 0" "addr \<noteq> 0" "sport \<noteq> 0" "len_ptr \<noteq> 0"
  shows "\<exists>r s'. socket_recvfrom_post i addr sport buf len len_ptr s = Inr (r, s') \<and> sockets_ok base s'"
proof -
  note S = ok [unfolded sockets_ok_def]
  then have len: "length (open_sockets s) = CONFIG_MAX_OPEN_SOCKETS" "open_sockets_sem s = 1" by simp_all
  let ?e = "open_sockets s ! nat i"
  define e where "e = ?e\<lparr>sk_rbuf := buf, sk_bufsize := word_of_int len, sk_sender := addr, sk_copied := len_ptr, sk_sport := sport\<rparr>"
  show ?thesis
  proof (cases "sk_protocol ?e \<noteq> PROTOCOL_POP \<or> sk_rbuf ?e \<noteq> 0")
    case True
    then have "socket_recvfrom_post i addr sport buf len len_ptr s = Inr (Some (-1), s)"
      using i args len by (simp add: socket_recvfrom_post_def sockets_lock)
    with ok show ?thesis by blast
  next
    case False
    then have run: "socket_recvfrom_post i addr sport buf len len_ptr s = Inr (None, V_service (s\<lparr>open_sockets := (open_sockets s)[nat i := e], open_sockets_sem := 1\<rparr>))"
      using i args len by (simp add: socket_recvfrom_post_def sockets_lock socket_upd_ok e_def)
    have "socket_ok (net_kernel s) ?e" using S i by simp
    then have "socket_ok (net_kernel s) e" using False by (simp add: socket_ok_def e_def is_open_def)
    moreover have "own_ports ((open_sockets s)[nat i := e])"
      using S i by (intro own_ports_same) (auto simp: e_def is_open_def)
    ultimately have "sockets_ok base (V_service (s\<lparr>open_sockets := (open_sockets s)[nat i := e], open_sockets_sem := 1\<rparr>))"
      using S by (auto simp: sockets_ok_def V_service_def dest!: subsetD [OF set_update_subset_insert])
    with run show ?thesis by blast
  qed
qed

definition closed_socket :: socket_descriptor_t where
  "closed_socket = \<lparr>sk_port = 0, sk_protocol = 0, receive_complete = None, sk_rbuf = 0, sk_bufsize = 0, sk_sender = 0, sk_copied = 0, sk_sport = 0\<rparr>"

lemma socket_init_ok:
  assumes sems: "sems_ok base (net_kernel s) rs qs" "good_base base" "free_sems (net_kernel s) \<noteq> {}"
    and s: "\<not> socket_init_done s" "length (open_sockets s) = CONFIG_MAX_OPEN_SOCKETS"
  shows "\<exists>s'. socket_init s = Inr s' \<and> sockets_ok base s' \<and> open_sockets s' = replicate CONFIG_MAX_OPEN_SOCKETS closed_socket"
proof -
  have v: "(0 :: int) \<le> 1" by simp
  from sems(1,2) v current_not_none [OF sems(1)] obtain h k where k: "semaphore_create 1 (net_kernel s) = Inr (Some h, k)" "sems_ok base k rs qs"
    by (cases rule: semaphore_create_cases) (use sems(3) in \<open>auto simp: free_sems_def\<close>)
  define s1 where "s1 = s\<lparr>socket_init_done := True, net_kernel := k, open_sockets_sem := 1\<rparr>"
  have "\<exists>s'. for_rangeE 0 64 (\<lambda>i. socket_upd (int i) (\<lambda>e. closed_socket)) s1 = Inr s' \<and>
      (\<exists>t. s' = s1\<lparr>open_sockets := t\<rparr> \<and> length t = 64 \<and> (\<forall>j < 64. t ! j = closed_socket))"
  proof (rule for_rangeE_inv [where I = "\<lambda>i s'. \<exists>t. s' = s1\<lparr>open_sockets := t\<rparr> \<and> length t = 64 \<and> (\<forall>j < i. t ! j = closed_socket)"])
    show "\<exists>t. s1 = s1\<lparr>open_sockets := t\<rparr> \<and> length t = 64 \<and> (\<forall>j < 0. t ! j = closed_socket)"
      using s(2) by (intro exI [of _ "open_sockets s1"]) (simp add: s1_def)
  next
    fix i s' assume "i < 64" "\<exists>t. s' = s1\<lparr>open_sockets := t\<rparr> \<and> length t = 64 \<and> (\<forall>j < i. t ! j = closed_socket)"
    then obtain t where "s' = s1\<lparr>open_sockets := t\<rparr>" "length t = 64" "\<forall>j < i. t ! j = closed_socket" by blast
    with \<open>i < 64\<close> show "\<exists>s2. socket_upd (int i) (\<lambda>e. closed_socket) s' = Inr s2 \<and>
        (\<exists>t. s2 = s1\<lparr>open_sockets := t\<rparr> \<and> length t = 64 \<and> (\<forall>j < Suc i. t ! j = closed_socket))"
      by (intro exI [of _ "s1\<lparr>open_sockets := t[i := closed_socket]\<rparr>"] conjI exI [of _ "t[i := closed_socket]"])
        (auto simp: socket_upd_ok nth_list_update)
  qed simp
  then obtain t where t: "for_rangeE 0 64 (\<lambda>i. socket_upd (int i) (\<lambda>e. closed_socket)) s1 = Inr (s1\<lparr>open_sockets := t\<rparr>)"
    "t = replicate 64 closed_socket" by (metis length_replicate nth_equalityI nth_replicate)
  define s' where "s' = s1\<lparr>open_sockets := t\<rparr>"
  have s': "for_rangeE 0 64 (\<lambda>i. socket_upd (int i) (\<lambda>e. closed_socket)) s1 = Inr s'" "s' = s1\<lparr>open_sockets := t\<rparr>"
    "open_sockets s' = replicate 64 closed_socket" using t by (simp_all add: s'_def)
  have f: "net_kernel s' = k" "open_sockets_sem s' = 1"
    by (simp_all add: s'_def s1_def)
  have "socket_init s = Inr s'"
    using s(1) k(1) s'(1) by (simp add: socket_init_def on_net_kernel_def s1_def closed_socket_def)
  moreover have "sockets_ok base s'"
    using f k(2) s'(3) by (auto simp: sockets_ok_def own_ports_def socket_ok_def is_open_def closed_socket_def)
  ultimately show ?thesis using s'(3) by blast
qed

subsection \<open>All sequences of operations\<close>

text \<open>
  The operations on sockets in any order.  A socket is closed when nobody waits for it; \<open>other\<close> is what the rest of the kernel
  does, which keeps the semaphores in use.
\<close>

inductive socket_step :: "uint32 \<Rightarrow> ('g, 'a) net \<Rightarrow> ('g, 'a) net \<Rightarrow> bool" for base :: uint32 where
  opens: "socket_open protocol port s = Some (Inr (r, s')) \<Longrightarrow> socket_step base s s'"
| closes: "0 \<le> i \<Longrightarrow> i < int CONFIG_MAX_OPEN_SOCKETS \<Longrightarrow> idle_socket s i \<Longrightarrow> socket_close i s = Inr s' \<Longrightarrow> socket_step base s s'"
| posts: "0 \<le> i \<Longrightarrow> i < int CONFIG_MAX_OPEN_SOCKETS \<Longrightarrow> 1 \<le> len \<Longrightarrow> buf \<noteq> 0 \<Longrightarrow> addr \<noteq> 0 \<Longrightarrow> sport \<noteq> 0 \<Longrightarrow> len_ptr \<noteq> 0 \<Longrightarrow>
    socket_recvfrom_post i addr sport buf len len_ptr s = Inr (r, s') \<Longrightarrow> socket_step base s s'"
| other: "sems_ok base k rs qs \<Longrightarrow> (\<And>h. live (net_kernel s) h \<Longrightarrow> live k h) \<Longrightarrow> socket_step base s (s\<lparr>net_kernel := k\<rparr>)"

inductive_cases socket_stepE: "socket_step base s s'"

lemma socket_step_ok:
  assumes "socket_step base s s'" "good_base base" "sockets_ok base s"
  shows "sockets_ok base s'"
  using assms(1)
proof (cases rule: socket_step.cases)
  case (opens protocol port r)
  then show ?thesis using socket_open_ok [OF assms(3,2), of protocol port] by auto
next
  case (closes i)
  then show ?thesis using socket_close_ok [OF assms(3), of i] by auto
next
  case (posts i len buf addr sport len_ptr r)
  then show ?thesis using socket_recvfrom_post_ok [OF assms(3) posts(1-7)] by auto
next
  case (other k rs qs)
  then show ?thesis using sockets_ok_kernel [OF assms(3) other(2,3)] by simp
qed

text \<open>A system with one socket open, on port 1, and one before the initialisation.\<close>

definition sample_net :: "(unit, unit) net" where
  "sample_net = \<lparr>net_kernel = sample_kernel, net_dev = (), net_mem = (\<lambda>_. NUL),
     network_interfaces = replicate 4 \<lparr>if_address = 0, if_mtu = 0, if_gnd = 0\<rparr>,
     open_sockets = (closed_socket\<lparr>sk_port := 1, sk_protocol := 1, receive_complete := Some 1\<rparr>) # replicate 63 closed_socket,
     open_sockets_sem = 1, socket_init_done = True,
     pop_queue = replicate 32 \<lparr>pq_frame = 0, pq_socket = -1, pq_timestamp = 0, pq_from = 0, pq_busy = 0\<rparr>,
     pop_queue_sem = 1, pop_send_buffer = 0x80009000, pop_send_buffer_sem = 1, pop_service_thread_id = 2, pop_service_thread_sem = 0,
     pop_init_done = True\<rparr>"

lemma sample_sockets_ok: "sockets_ok sample_base sample_net"
proof -
  have "own_ports (open_sockets sample_net)"
    by (auto simp: own_ports_def sample_net_def closed_socket_def is_open_def nth_Cons split: nat.splits)
  moreover have "\<forall>e \<in> set (open_sockets sample_net). socket_ok (net_kernel sample_net) e"
    using sample_live by (auto simp: sample_net_def closed_socket_def is_open_def socket_ok_def)
  moreover have "sems_ok sample_base (net_kernel sample_net) [2] sample_queues" using sample_kernel_ok by (simp add: sample_net_def)
  ultimately show ?thesis by (auto simp: sockets_ok_def sample_net_def)
qed

lemma sample_free_sem: "free_sems sample_kernel \<noteq> {}"
proof -
  have "5 \<in> free_sems sample_kernel" by (simp add: free_sems_def sample_kernel_sem sample_sem_def is_sem_def CONFIG_MAX_SEMAPHORES_def)
  then show ?thesis by blast
qed

text \<open>
  C37: \<^verbatim>\<open>socket_open\<close> always ends: with at most 64 sockets the search for a port finds a free one.  It fails, leaving the
  table as it was, exactly when the protocol is unknown, the table is full, the given port is in use or no semaphore is left; otherwise a free entry
  becomes a socket of the protocol whose port no other socket has, the given port or the lowest free one, with a new semaphore.
\<close>

theorem socket_open_spec:
  assumes ok: "sockets_ok base s" and b: "good_base base"
  shows "\<exists>r s'. socket_open protocol port s = Some (Inr (r, s')) \<and> sockets_ok base s' \<and>
    (if open_refused protocol port s then r = -1 \<and> open_sockets s' = open_sockets s
     else \<exists>i e. r = int i \<and> i < CONFIG_MAX_OPEN_SOCKETS \<and> \<not> is_open (open_sockets s ! i) \<and> open_sockets s' = (open_sockets s)[i := e] \<and>
       sk_protocol e = protocol \<and> sk_rbuf e = 0 \<and> sk_port e \<noteq> 0 \<and> sk_port e \<notin> ports_in_use s \<and>
       (if port = 0 then \<forall>p. 0 < p \<and> p < sk_port e \<longrightarrow> p \<in> ports_in_use s else sk_port e = port) \<and>
       (\<exists>h. receive_complete e = Some h \<and> sem_value (sem_row (net_kernel s') h) = 0))"
  by (rule socket_open_ok [OF assms])

theorem socket_open_spec_witness:
  "\<exists>i s' e. socket_open PROTOCOL_POP 0 sample_net = Some (Inr (int i, s')) \<and> open_sockets s' = (open_sockets sample_net)[i := e] \<and> sk_port e = 2"
proof -
  have "{e \<in> set (open_sockets sample_net). is_open e} = {closed_socket\<lparr>sk_port := 1, sk_protocol := 1, receive_complete := Some 1\<rparr>}"
    by (auto simp: sample_net_def closed_socket_def is_open_def)
  then have use: "ports_in_use sample_net = {1}" by (simp add: ports_in_use_def)
  have "\<not> open_refused PROTOCOL_POP 0 sample_net"
    using sample_free_sem by (auto simp: open_refused_def sample_net_def closed_socket_def is_open_def)
  then obtain i e s' where o': "socket_open PROTOCOL_POP 0 sample_net = Some (Inr (int i, s'))" "open_sockets s' = (open_sockets sample_net)[i := e]"
    "sk_port e \<noteq> 0" "sk_port e \<notin> {1}" "\<forall>p. 0 < p \<and> p < sk_port e \<longrightarrow> p \<in> {1}"
    using socket_open_spec [OF sample_sockets_ok sample_good_base(1), of PROTOCOL_POP 0] use by auto
  have "sk_port e = 2"
  proof (rule ccontr)
    assume "sk_port e \<noteq> 2"
    then have "unat (sk_port e) \<noteq> 0" "unat (sk_port e) \<noteq> 1" "unat (sk_port e) \<noteq> 2"
      using o'(3,4) word_unat_eq_iff [of "sk_port e" 1] word_unat_eq_iff [of "sk_port e" 2] by (auto simp: unat_eq_0)
    then have "2 < sk_port e" unfolding word_less_nat_alt by simp
    then show False using o'(5) [rule_format, of 2] by simp
  qed
  then show ?thesis using o'(1,2) by auto
qed



end
