(* ===== verification/Net_Mem.thy ===== *)
theory Net_Mem
  imports Net
begin

text \<open>
  The memory of the network code by addresses that are natural numbers: every store, field by field or by \<^verbatim>\<open>memcopy\<close>, is a
  \<open>putn\<close>, and a load sees the last store that covers it.
\<close>

definition getn :: "memory \<Rightarrow> nat \<Rightarrow> nat \<Rightarrow> char list" where
  "getn m a n = map (\<lambda>i. m (of_nat (a + i))) [0..<n]"

definition putn :: "nat \<Rightarrow> char list \<Rightarrow> memory \<Rightarrow> memory" where
  "putn a cs m = (\<lambda>x. if a \<le> unat x \<and> unat x < a + length cs then cs ! (unat x - a) else m x)"

lemma length_getn [simp]: "length (getn m a n) = n"
  by (simp add: getn_def)

lemma nth_getn: "i < n \<Longrightarrow> getn m a n ! i = m (of_nat (a + i))"
  by (simp add: getn_def)

lemma unat_of_nat_add: "a + i < 2 ^ 32 \<Longrightarrow> unat (of_nat a + of_nat i :: uint32) = a + i"
  using unat_of_nat_small [of "a + i"] by simp

lemma getn_apart: "a + n \<le> 2 ^ 32 \<Longrightarrow> a + n \<le> b \<or> b + length cs \<le> a \<Longrightarrow> getn (putn b cs m) a n = getn m a n"
  by (rule nth_equalityI) (auto simp: nth_getn putn_def unat_of_nat_add)

lemma getn_inside:
  "a + n \<le> 2 ^ 32 \<Longrightarrow> b \<le> a \<Longrightarrow> a + n \<le> b + length cs \<Longrightarrow> getn (putn b cs m) a n = take n (drop (a - b) cs)"
  by (rule nth_equalityI) (auto simp: nth_getn putn_def unat_of_nat_add)

lemma getn_same: "b + length cs \<le> 2 ^ 32 \<Longrightarrow> n = length cs \<Longrightarrow> getn (putn b cs m) b n = cs"
  by (simp add: getn_inside)

lemma take_drop_getn: "i + n \<le> k \<Longrightarrow> take n (drop i (getn m a k)) = getn m (a + i) n"
  by (rule nth_equalityI) (auto simp: nth_getn add.assoc)

lemma take_getn: "n \<le> k \<Longrightarrow> take n (getn m a k) = getn m a n"
  by (rule nth_equalityI) (auto simp: nth_getn)

lemma putn_Nil [simp]: "putn a [] m = m"
  by (auto simp: putn_def fun_eq_iff)

lemma put_mem_eq: "a + length cs \<le> 2 ^ 32 \<Longrightarrow> put_mem (of_nat a) cs m = putn a cs m"
proof (induction cs arbitrary: a m)
  case (Cons c cs)
  have a: "unat (of_nat a :: uint32) = a" using Cons.prems by (simp add: unat_of_nat_small)
  have "put_mem (of_nat (Suc a)) cs (m(of_nat a := c)) = putn (Suc a) cs (m(of_nat a := c))"
    using Cons.prems by (intro Cons.IH) simp
  moreover have "putn (Suc a) cs (m(of_nat a := c)) = putn a (c # cs) m"
  proof
    fix x show "putn (Suc a) cs (m(of_nat a := c)) x = putn a (c # cs) m x"
    proof (cases "unat x = a")
      case True
      then have "x = of_nat a" by (metis unat_eq_of_nat)
      then show ?thesis using a by (simp add: putn_def)
    next
      case False
      then have "x \<noteq> of_nat a" using a by auto
      with False show ?thesis by (auto simp: putn_def nth_Cons' Suc_diff_Suc)
    qed
  qed
  ultimately show ?case by (simp add: add.commute)
qed simp

lemma mem_bytes_eq: "mem_bytes m (of_nat a) n = getn m a n"
  by (simp add: mem_bytes_def getn_def)

lemma load32_eq: "load32 m (of_nat a) = dec32 (getn m a 4)"
  by (simp add: load32_def mem_bytes_eq)

lemma load16_eq: "load16 m (of_nat a) = ucast (dec32 (getn m a 2))"
  by (simp add: load16_def mem_bytes_eq)

lemma length_enc16 [simp]: "length (enc16 w) = 2"
  by (simp add: enc16_def)

lemma dec_enc16 [simp]: "ucast (dec32 (enc16 w)) = w"
proof -
  have "unat w < 2 ^ LENGTH(16)" by (rule unsigned_less)
  then have "unat w < 65536" by simp
  then have "unat w div 256 mod 256 * 256 + unat w mod 256 = unat w" by (simp add: div_mult_mod_eq)
  then have "256 * (unat w div 256 mod 256) + unat w mod 256 = unat w" by (simp add: mult.commute)
  then have "dec32 (enc16 w) = of_nat (unat w)"
    unfolding dec32_def enc16_def foldl.simps of_char_of by (simp only: mult_0_right add_0)
  then have "dec32 (enc16 w) = ucast w" by simp
  moreover have "ucast (ucast w :: uint32) = w" by (rule bit_eqI) (simp add: bit_simps)
  ultimately show ?thesis by simp
qed

lemma memcopy_putn:
  assumes "t + n \<le> 2 ^ 32" "s + n \<le> 2 ^ 32" "t + n \<le> s \<or> s + n \<le> t" "0 < n" "k = int n"
  shows "memcopy k (of_nat t) (of_nat s) m = putn t (getn m s n) m"
proof -
  have u: "unat (of_nat t :: uint32) = t" "unat (of_nat s :: uint32) = s" using assms by (simp_all add: unat_of_nat_small)
  then have "memcopy (int n) (of_nat t) (of_nat s) m = copied (of_nat t) (of_nat s) n m"
    using memcopy_eq [of "int n" "of_nat t" "of_nat s" m] assms by (auto simp: regions_apart_def)
  also have "\<dots> = putn t (getn m s n) m"
  proof
    fix x show "copied (of_nat t) (of_nat s) n m x = putn t (getn m s n) m x"
    proof (cases "t \<le> unat x \<and> unat x < t + n")
      case True
      then have "x - of_nat t = of_nat (unat x - t)" "unat x - t < n" by (simp_all add: of_nat_diff less_diff_conv2)
      then show ?thesis using True u by (simp add: copied_def putn_def nth_getn add_diff_eq)
    qed (auto simp: copied_def putn_def u)
  qed
  finally show ?thesis using assms(5) by simp
qed

text \<open>The same with the offset of a field added to the address of a structure.\<close>

lemma put_mem_off: "a + numeral w + length cs \<le> 2 ^ 32 \<Longrightarrow> put_mem (of_nat a + numeral w) cs m = putn (a + numeral w) cs m"
  using put_mem_eq [of "a + numeral w" cs m] by simp

lemma load_off:
  "load32 m (of_nat a + numeral w) = dec32 (getn m (a + numeral w) 4)"
  "load16 m (of_nat a + numeral w) = ucast (dec32 (getn m (a + numeral w) 2))"
  using load32_eq [of m "a + numeral w"] load16_eq [of m "a + numeral w"] by simp_all

lemma memcopy_off:
  assumes "t + numeral w + n \<le> 2 ^ 32" "s + n \<le> 2 ^ 32" "t + numeral w + n \<le> s \<or> s + n \<le> t + numeral w" "0 < n"
  shows "memcopy (int n) (of_nat t + numeral w) (of_nat s) m = putn (t + numeral w) (getn m s n) m"
  using memcopy_putn [of "t + numeral w" n s "int n" m] assms by simp

lemmas mem_stores = put_mem_eq put_mem_off memcopy_off
lemmas mem_loads = load32_eq load16_eq load_off

subsection \<open>A packet in the send buffer and in its frame\<close>

definition in_send_buffer :: "nat \<Rightarrow> uint16 \<Rightarrow> uint16 \<Rightarrow> nat \<Rightarrow> nat \<Rightarrow> memory \<Rightarrow> memory" where
  "in_send_buffer B sport dport b n m =
     putn (B + 8) (getn m b n) (putn (B + 4) (enc32 (of_nat n)) (putn (B + 2) (enc16 dport) (putn B (enc16 sport) m)))"

definition in_frame :: "nat \<Rightarrow> uint32 \<Rightarrow> uint32 \<Rightarrow> uint32 \<Rightarrow> nat \<Rightarrow> nat \<Rightarrow> memory \<Rightarrow> memory" where
  "in_frame F src dest proto B n m =
     putn (F + 12) (getn m B n) (putn (F + 8) (enc32 proto) (putn F (enc32 dest) (putn (F + 4) (enc32 src) m)))"

lemma send_buffer_fields:
  assumes "B + 4096 \<le> 2 ^ 32" "n \<le> 4076" "m' = in_send_buffer B sport dport b n m"
  shows "getn m' B 2 = enc16 sport" "getn m' (B + 2) 2 = enc16 dport" "getn m' (B + 4) 4 = enc32 (of_nat n)" "getn m' (B + 8) n = getn m b n"
  using assms by (simp_all add: in_send_buffer_def getn_apart getn_same)

lemma frame_fields:
  assumes "F + 4096 \<le> 2 ^ 32" "n \<le> 4084" "m' = in_frame F src dest proto B n m" "B + n \<le> F \<or> F + 12 \<le> B" "B + n \<le> 2 ^ 32"
  shows "getn m' (F + 4) 4 = enc32 src" "getn m' F 4 = enc32 dest" "getn m' (F + 8) 4 = enc32 proto" "getn m' (F + 12) n = getn m B n"
  using assms by (auto simp: in_frame_def getn_apart getn_same)

lemma send_buffer_code:
  assumes "B + 4096 \<le> 2 ^ 32" "0 < n" "n \<le> 4076" "b + n \<le> 2 ^ 32" "b + n \<le> B \<or> B + 4096 \<le> b"
  shows "memcopy (int n) (of_nat B + 8) (of_nat b) (put_mem (of_nat B + 4) (enc32 (of_nat n))
      (put_mem (of_nat B + 2) (enc16 dport) (put_mem (of_nat B) (enc16 sport) m))) = in_send_buffer B sport dport b n m"
  using assms by (auto simp: mem_stores in_send_buffer_def getn_apart)

lemma frame_code:
  assumes "F + 4096 \<le> 2 ^ 32" "0 < n" "n \<le> 4084" "B + n \<le> 2 ^ 32" "B + n \<le> F \<or> F + 4096 \<le> B"
  shows "memcopy (int n) (of_nat F + 12) (of_nat B) (put_mem (of_nat F + 8) (enc32 proto)
      (put_mem (of_nat F) (enc32 dest) (put_mem (of_nat F + 4) (enc32 src) m))) = in_frame F src dest proto B n m"
  using assms by (auto simp: mem_stores in_frame_def getn_apart)

text \<open>The frame of a packet after the loopback's source address is set: the fields of the packet, and its data.\<close>

lemma packet_fields:
  assumes "B + 4096 \<le> 2 ^ 32" "F + 4096 \<le> 2 ^ 32" "B + 4096 \<le> F \<or> F + 4096 \<le> B" "0 < n" "n \<le> 4076"
    and "m' = putn (F + 4) (enc32 src') (in_frame F src dest proto B (n + 8) (in_send_buffer B sport dport b n m))"
  shows "getn m' (F + 4) 4 = enc32 src'" "getn m' F 4 = enc32 dest" "getn m' (F + 8) 4 = enc32 proto" "getn m' (F + 12) 2 = enc16 sport"
    "getn m' (F + 14) 2 = enc16 dport" "getn m' (F + 16) 4 = enc32 (of_nat n)" "getn m' (F + 20) n = getn m b n"
proof -
  let ?mB = "in_send_buffer B sport dport b n m"
  note B = send_buffer_fields [OF assms(1,5) refl, of sport dport b m]
  have fr: "getn m' (F + 12 + i) k = getn ?mB (B + i) k" if "i + k \<le> n + 8" for i k
    using assms that by (simp add: in_frame_def getn_apart getn_inside take_drop_getn)
  show "getn m' (F + 4) 4 = enc32 src'" "getn m' F 4 = enc32 dest" "getn m' (F + 8) 4 = enc32 proto"
    using assms by (simp_all add: in_frame_def getn_apart getn_same)
  show "getn m' (F + 12) 2 = enc16 sport" "getn m' (F + 14) 2 = enc16 dport" "getn m' (F + 16) 4 = enc32 (of_nat n)" "getn m' (F + 20) n = getn m b n"
    using fr [of 0 2] fr [of 2 2] fr [of 4 4] fr [of 8 n] B assms(4,5) by (simp_all add: add.commute)
qed

end
