(* ===== verification/Net_Spec.thy ===== *)
theory Net_Spec
  imports Net_Socket Net_Mem
begin

text \<open>
  The way of a packet: from \<^verbatim>\<open>socket_sendto\<close> over the loopback address through the queue and the service thread to the buffer of the
  receiver; and two situations in which it goes wrong.
\<close>

subsection \<open>Frames\<close>

text \<open>The kernel address of a page of the pool.\<close>

definition kpage :: "nat \<Rightarrow> nat" where
  "kpage p = 0x80000000 + p * 4096"

lemma kernel_page:
  assumes "p < 2 ^ 19"
  shows "ADDR_PHYS_TO_KERNEL (page_addr p) = of_nat (kpage p)"
proof -
  have u: "unat (page_addr p) < 2 ^ 31" using assms by (simp add: unat_page_addr)
  have "bit (page_addr p) n \<Longrightarrow> n < 31" for n
  proof (rule ccontr)
    assume b: "bit (page_addr p) n" "\<not> n < 31"
    then have "2 ^ 31 \<le> (2 :: nat) ^ n" by (intro power_increasing) auto
    moreover have "odd (unat (page_addr p) div 2 ^ n)" using b(1) by (simp add: bit_unsigned_iff bit_iff_odd [symmetric] bit_imp_le_length)
    ultimately show False using u by simp
  qed
  then have "page_addr p AND push_bit 31 v = 0" for v by (fastforce intro!: bit_eqI simp: bit_simps)
  from this [of 1]
  have "page_addr p + push_bit 31 1 = page_addr p OR push_bit 31 1" by (rule disjunctive_add_eq_or)
  then show ?thesis by (simp add: ADDR_PHYS_TO_KERNEL_def page_addr_def kpage_def push_bit_eq_mult add.commute)
qed

lemma page_mask: "w AND PAGE_SIZE_MASK = push_bit 12 (drop_bit 12 w)"
proof -
  have m: "PAGE_SIZE_MASK = push_bit 12 (mask 20)"
    by (simp add: PAGE_SIZE_MASK_def mask_eq_exp_minus_1 push_bit_eq_mult)
  show ?thesis unfolding m by (auto intro!: bit_eqI simp: bit_simps dest: bit_imp_le_length)
qed

lemma unat_page_mask: "unat (w AND PAGE_SIZE_MASK) = unat w div 4096 * 4096" for w :: uint32
proof -
  have "unat w < 2 ^ LENGTH(32)" by (rule unsigned_less)
  then have "unat w div 4096 * 4096 < 2 ^ 32" by simp
  then show ?thesis
    unfolding page_mask unsigned_push_bit_eq unsigned_drop_bit_eq
    by (simp add: push_bit_nat_def drop_bit_nat_def take_bit_nat_eq_self)
qed

lemma frame_page_payload:
  assumes "p < 2 ^ 19"
  shows "frame_page (of_nat (kpage p + 12)) = page_addr p"
proof -
  have "(0x7fffffff :: uint32) = mask 31" by (simp add: mask_eq_exp_minus_1)
  then have "ADDR_KERNEL_TO_PHYS (of_nat (kpage p + 12)) = take_bit 31 (of_nat (kpage p + 12))"
    unfolding ADDR_KERNEL_TO_PHYS_def by (simp only: take_bit_eq_mask)
  moreover have "unat (take_bit 31 (of_nat (kpage p + 12)) :: uint32) = p * 4096 + 12"
  proof -
    have "unat (take_bit 31 (of_nat (kpage p + 12)) :: uint32) = take_bit 31 (kpage p + 12)"
      using assms unat_of_nat_small [of "kpage p + 12"] by (simp add: unsigned_take_bit_eq kpage_def del: of_nat_add)
    also have "\<dots> = p * 4096 + 12"
    proof -
      have e: "kpage p + 12 = (p * 4096 + 12) + 2 ^ 31" by (simp add: kpage_def)
      show ?thesis unfolding take_bit_eq_mod e mod_add_self2 by (rule mod_less) (use assms in simp)
    qed
    finally show ?thesis .
  qed
  ultimately have "unat (frame_page (of_nat (kpage p + 12))) = p * 4096"
    unfolding frame_page_def unat_page_mask by (simp only:) simp
  then show ?thesis using assms by (simp add: unat_page_addr word_unat_eq_iff)
qed

subsection \<open>The queue\<close>

text \<open>What the loop of \<^verbatim>\<open>pop_push_frame\<close> finds in the first \<open>n\<close> slots.\<close>

definition slots_found :: "pop_queue_t list \<Rightarrow> nat \<Rightarrow> int \<Rightarrow> int \<Rightarrow> bool" where
  "slots_found q n free oldest \<longleftrightarrow>
     (if \<forall>j < n. pq_frame (q ! j) \<noteq> 0 then free = -1
      else \<exists>k < n. free = int k \<and> pq_frame (q ! k) = 0 \<and> (\<forall>j < k. pq_frame (q ! j) \<noteq> 0)) \<and>
     (if \<forall>j < n. pq_busy (q ! j) \<noteq> 0 then oldest = -1
      else \<exists>k < n. oldest = int k \<and> pq_busy (q ! k) = 0 \<and> (\<forall>j < n. pq_busy (q ! j) = 0 \<longrightarrow> pq_timestamp (q ! k) \<le> pq_timestamp (q ! j)))"

lemma slots_found_step:
  assumes "slots_found q n free oldest"
  shows "slots_found q (Suc n) (if free = -1 \<and> pq_frame (q ! n) = 0 then int n else free)
    (if pq_busy (q ! n) = 0 \<and> (oldest = -1 \<or> pq_timestamp (q ! n) < pq_timestamp (q ! nat oldest)) then int n else oldest)"
proof -
  have free: "if \<forall>j < Suc n. pq_frame (q ! j) \<noteq> 0 then free' = -1
      else \<exists>k < Suc n. free' = int k \<and> pq_frame (q ! k) = 0 \<and> (\<forall>j < k. pq_frame (q ! j) \<noteq> 0)"
    if "free' = (if free = -1 \<and> pq_frame (q ! n) = 0 then int n else free)" for free'
    using assms that by (cases "\<forall>j < n. pq_frame (q ! j) \<noteq> 0") (auto simp: slots_found_def less_Suc_eq split: if_splits)
  have oldest: "if \<forall>j < Suc n. pq_busy (q ! j) \<noteq> 0 then oldest' = -1
      else \<exists>k < Suc n. oldest' = int k \<and> pq_busy (q ! k) = 0 \<and> (\<forall>j < Suc n. pq_busy (q ! j) = 0 \<longrightarrow> pq_timestamp (q ! k) \<le> pq_timestamp (q ! j))"
    if o': "oldest' = (if pq_busy (q ! n) = 0 \<and> (oldest = -1 \<or> pq_timestamp (q ! n) < pq_timestamp (q ! nat oldest)) then int n else oldest)" for oldest'
  proof (cases "\<forall>j < n. pq_busy (q ! j) \<noteq> 0")
    case True
    then show ?thesis using assms o' by (auto simp: slots_found_def less_Suc_eq)
  next
    case False
    moreover have "if \<forall>j < n. pq_busy (q ! j) \<noteq> 0 then oldest = -1
      else \<exists>k < n. oldest = int k \<and> pq_busy (q ! k) = 0 \<and> (\<forall>j < n. pq_busy (q ! j) = 0 \<longrightarrow> pq_timestamp (q ! k) \<le> pq_timestamp (q ! j))"
      using assms unfolding slots_found_def by blast
    ultimately obtain k where k: "k < n" "oldest = int k" "pq_busy (q ! k) = 0" "\<forall>j < n. pq_busy (q ! j) = 0 \<longrightarrow> pq_timestamp (q ! k) \<le> pq_timestamp (q ! j)"
      by (simp only: if_False) blast
    show ?thesis
    proof (cases "pq_busy (q ! n) = 0 \<and> pq_timestamp (q ! n) < pq_timestamp (q ! k)")
      case True
      then show ?thesis using k o' by (auto simp: less_Suc_eq intro!: exI [of _ n])
    next
      case False
      then have "oldest' = int k" using o' k(2) by auto
      then show ?thesis using k False by (auto simp: less_Suc_eq intro!: exI [of _ k])
    qed
  qed
  show ?thesis unfolding slots_found_def using free [OF refl] oldest [OF refl] by blast
qed

lemma pop_find_slot_ok:
  assumes "length q = CONFIG_POP_QUEUE_SIZE"
  shows "\<exists>free oldest. pop_find_slot q = Inr (free, oldest) \<and> slots_found q CONFIG_POP_QUEUE_SIZE free oldest"
proof -
  have "\<exists>r. pop_find_slot q = Inr r \<and> (case r of (free, oldest) \<Rightarrow> slots_found q 32 free oldest)"
    unfolding pop_find_slot_def
  proof (rule for_rangeE_inv [where I = "\<lambda>n r. case r of (free, oldest) \<Rightarrow> slots_found q n free oldest"])
    fix n and r :: "int \<times> int" assume n: "n < 32" and r: "case r of (free, oldest) \<Rightarrow> slots_found q n free oldest"
    obtain free oldest where eq: "r = (free, oldest)" by (cases r)
    with r have inv: "slots_found q n free oldest" by simp
    then have "oldest \<noteq> -1 \<Longrightarrow> 0 \<le> oldest \<and> nat oldest < n" by (auto simp: slots_found_def split: if_splits)
    then have old: "oldest \<noteq> -1 \<Longrightarrow> rd q oldest = Inr (q ! nat oldest)" using n assms by auto
    show "\<exists>r'. (case r of (free, oldest) \<Rightarrow> bindE (rd q (int n)) (\<lambda>e.
        let free = (if free = -1 \<and> pq_frame e = 0 then int n else free) in
        bindE (if pq_busy e = 0 \<and> oldest \<noteq> -1 then bindE (rd q oldest) (\<lambda>o'. Inr (pq_timestamp e < pq_timestamp o')) else Inr True) (\<lambda>older.
        Inr (free, if pq_busy e = 0 \<and> (oldest = -1 \<or> older) then int n else oldest)))) = Inr r' \<and>
        (case r' of (free, oldest) \<Rightarrow> slots_found q (Suc n) free oldest)"
      using slots_found_step [OF inv] n assms old by (cases "oldest = -1"; cases "pq_busy (q ! n) = 0") (simp_all add: eq)
  qed (simp_all add: slots_found_def)
  then show ?thesis by auto
qed

text \<open>The frames in the queue are different pages of the pool.\<close>

definition frame_no :: "uint32 \<Rightarrow> nat" where
  "frame_no f = (unat f - 0x80000000) div 4096"

definition queue_ok :: "('g, 'a) net \<Rightarrow> bool" where
  "queue_ok s \<longleftrightarrow> length (pop_queue s) = CONFIG_POP_QUEUE_SIZE \<and> pop_queue_sem s = 1 \<and>
     pool_ok (net_kernel s) \<and> pagepool_num_pages (net_kernel s) \<le> 2 ^ 19 \<and>
     (\<forall>i < CONFIG_POP_QUEUE_SIZE. pq_frame (pop_queue s ! i) \<noteq> 0 \<longrightarrow>
        frame_no (pq_frame (pop_queue s ! i)) \<in> pool_dynamic (net_kernel s) \<and>
        pq_frame (pop_queue s ! i) = of_nat (kpage (frame_no (pq_frame (pop_queue s ! i))) + 12)) \<and>
     (\<forall>i < CONFIG_POP_QUEUE_SIZE. \<forall>j < CONFIG_POP_QUEUE_SIZE. i \<noteq> j \<and> pq_frame (pop_queue s ! i) \<noteq> 0 \<longrightarrow>
        pq_frame (pop_queue s ! i) \<noteq> pq_frame (pop_queue s ! j))"

definition new_entry :: "uint32 \<Rightarrow> uint32 \<Rightarrow> uint32 \<Rightarrow> pop_queue_t" where
  "new_entry frm stamp src = \<lparr>pq_frame = frm, pq_socket = -1, pq_timestamp = stamp, pq_from = src, pq_busy = 0\<rparr>"

lemma queue_lock:
  "pop_queue_sem s = 1 \<Longrightarrow> P_queue s = Inr (s\<lparr>pop_queue_sem := 0\<rparr>)"
  "V_queue s = s\<lparr>pop_queue_sem := pop_queue_sem s + 1\<rparr>"
  by (simp_all add: P_queue_def V_queue_def sem_P_def)

lemma frame_no_kpage: "p < 2 ^ 19 \<Longrightarrow> frame_no (of_nat (kpage p + 12)) = p"
  using unat_of_nat_small [of "kpage p + 12"] by (simp add: frame_no_def kpage_def del: of_nat_add)

text \<open>Giving a frame back to the pool.\<close>

lemma network_free_frame_ok:
  assumes "pool_ok (net_kernel s)" "p \<in> pool_dynamic (net_kernel s)" "pagepool_num_pages (net_kernel s) \<le> 2 ^ 19"
  shows "\<exists>k. network_free_frame (of_nat (kpage p + 12)) s = Inr (s\<lparr>net_kernel := k\<rparr>) \<and> pool_ok k \<and> pool_dynamic k = pool_dynamic (net_kernel s) - {p} \<and>
    k = (net_kernel s)\<lparr>pagepool_free_pages := pagepool_free_pages k, pagepool_num_free_pages := pagepool_num_free_pages k\<rparr>"
proof -
  have p: "nat (pagepool_static_end (net_kernel s)) \<le> p" "p < nat (pagepool_num_pages (net_kernel s))" "page_used (net_kernel s) p"
    using assms(2) by (auto simp: pool_dynamic_def)
  then have "p < 2 ^ 19" using assms(3) by (simp add: nat_less_iff)
  note fp = frame_page_payload [OF this]
  let ?k = "(net_kernel s)\<lparr>pagepool_free_pages := bm_upd (pagepool_free_pages (net_kernel s)) p False,
                pagepool_num_free_pages := pagepool_num_free_pages (net_kernel s) + 1\<rparr>"
  have run: "pagepool_free_phys_page (page_addr p) (net_kernel s) = Inr ?k"
    using pagepool_free_eq [OF assms(1) p(1,2)] p(3) by simp
  with pp.free_page [OF assms(1,2)] have "pool_dynamic ?k = pool_dynamic (net_kernel s) - {p}" "pool_ok ?k" by auto
  then show ?thesis using run fp by (intro exI [of _ ?k]) (simp add: network_free_frame_def do_net_kernel_def del: of_nat_add)
qed

text \<open>
  \<^verbatim>\<open>pop_push_frame\<close> puts a frame into the first empty slot of the queue.  When there is none it replaces the frame with the lowest time stamp
  among those not being delivered, whose page it gives back, if that one is at least 250 milliseconds old, and otherwise it
  refuses the frame and changes nothing.
\<close>

lemma pop_push_frame_cases:
  assumes ok: "queue_ok s"
  shows "let q = pop_queue s; e = new_entry frm stamp src; r = pop_push_frame now stamp src dest (ucast PROTOCOL_POP) frm s in
    if \<exists>k < CONFIG_POP_QUEUE_SIZE. pq_frame (q ! k) = 0 then
      \<exists>k < CONFIG_POP_QUEUE_SIZE. pq_frame (q ! k) = 0 \<and> (\<forall>j < k. pq_frame (q ! j) \<noteq> 0) \<and>
        r = Inr (1, s\<lparr>pop_queue := q[k := e], pop_service_thread_sem := pop_service_thread_sem s + 1\<rparr>)
    else if \<forall>k < CONFIG_POP_QUEUE_SIZE. pq_busy (q ! k) \<noteq> 0 then r = Inr (0, s)
    else \<exists>k < CONFIG_POP_QUEUE_SIZE. pq_busy (q ! k) = 0 \<and> (\<forall>j < CONFIG_POP_QUEUE_SIZE. pq_busy (q ! j) = 0 \<longrightarrow> pq_timestamp (q ! k) \<le> pq_timestamp (q ! j)) \<and>
      (if now - pq_timestamp (q ! k) < CONFIG_POP_QUEUE_MIN_AGE then r = Inr (0, s)
       else \<exists>s'. r = Inr (1, s') \<and> pop_queue s' = q[k := e] \<and> pop_service_thread_sem s' = pop_service_thread_sem s + 1 \<and>
         pool_ok (net_kernel s') \<and> pool_dynamic (net_kernel s') = pool_dynamic (net_kernel s) - {frame_no (pq_frame (q ! k))} \<and>
         pagepool_static_end (net_kernel s') = pagepool_static_end (net_kernel s) \<and> pagepool_num_pages (net_kernel s') = pagepool_num_pages (net_kernel s))"
proof -
  have len: "length (pop_queue s) = CONFIG_POP_QUEUE_SIZE" and lock: "pop_queue_sem s = 1" using ok by (simp_all add: queue_ok_def)
  obtain free oldest where f: "pop_find_slot (pop_queue s) = Inr (free, oldest)" "slots_found (pop_queue s) CONFIG_POP_QUEUE_SIZE free oldest"
    using pop_find_slot_ok [OF len] by blast
  note run = pop_push_frame_def queue_lock
  have same: "s\<lparr>pop_queue := q, pop_queue_sem := 1, pop_service_thread_sem := v\<rparr> = s\<lparr>pop_queue := q, pop_service_thread_sem := v\<rparr>" for q v
    using lock by (cases s) simp
  show ?thesis
  proof (cases "\<exists>k < CONFIG_POP_QUEUE_SIZE. pq_frame (pop_queue s ! k) = 0")
    case True
    then obtain k where k: "k < 32" "free = int k" "pq_frame (pop_queue s ! k) = 0" "\<forall>j < k. pq_frame (pop_queue s ! j) \<noteq> 0"
      using f(2) unfolding slots_found_def by (auto split: if_splits)
    then show ?thesis using True f(1) len lock
      by (auto simp: run Let_def V_service_def new_entry_def same intro!: exI [of _ k])
  next
    case no_free: False
    then have free: "free = -1" using f(2) unfolding slots_found_def by (auto split: if_splits)
    show ?thesis
    proof (cases "\<forall>k < CONFIG_POP_QUEUE_SIZE. pq_busy (pop_queue s ! k) \<noteq> 0")
      case True
      then have "oldest = -1" using f(2) unfolding slots_found_def by simp
      then show ?thesis using True no_free free f(1) len lock by (simp add: run)
    next
      case False
      then obtain k where k: "k < 32" "oldest = int k" "pq_busy (pop_queue s ! k) = 0"
        "\<forall>j < 32. pq_busy (pop_queue s ! j) = 0 \<longrightarrow> pq_timestamp (pop_queue s ! k) \<le> pq_timestamp (pop_queue s ! j)"
        using f(2) unfolding slots_found_def by (simp only: if_False) blast
      let ?f = "pq_frame (pop_queue s ! k)"
      have fk: "frame_no ?f \<in> pool_dynamic (net_kernel s)" "?f = of_nat (kpage (frame_no ?f) + 12)" "?f \<noteq> 0"
        using ok k(1) no_free by (simp_all add: queue_ok_def)
      obtain kn where kn: "network_free_frame ?f (s\<lparr>pop_queue_sem := 0\<rparr>) = Inr (s\<lparr>pop_queue_sem := 0, net_kernel := kn\<rparr>)" "pool_ok kn"
        "pool_dynamic kn = pool_dynamic (net_kernel s) - {frame_no ?f}"
        "kn = (net_kernel s)\<lparr>pagepool_free_pages := pagepool_free_pages kn, pagepool_num_free_pages := pagepool_num_free_pages kn\<rparr>"
        using network_free_frame_ok [of "s\<lparr>pop_queue_sem := 0\<rparr>" "frame_no ?f"] ok fk(1) fk(2) [symmetric] by (auto simp: queue_ok_def)
      have "(if now - pq_timestamp (pop_queue s ! k) < 250 then pop_push_frame now stamp src dest (ucast PROTOCOL_POP) frm s = Inr (0, s)
        else \<exists>s'. pop_push_frame now stamp src dest (ucast PROTOCOL_POP) frm s = Inr (1, s') \<and> pop_queue s' = (pop_queue s)[k := new_entry frm stamp src] \<and>
          pop_service_thread_sem s' = pop_service_thread_sem s + 1 \<and> net_kernel s' = kn)"
        using k free f(1) len lock kn(1) fk(3) by (simp add: run Let_def V_service_def new_entry_def)
      moreover have "pagepool_static_end kn = pagepool_static_end (net_kernel s)" "pagepool_num_pages kn = pagepool_num_pages (net_kernel s)"
        by (subst kn(4), simp)+
      ultimately show ?thesis using no_free False k kn(2,3) unfolding Let_def by (auto intro!: exI [of _ k])
    qed
  qed
qed

subsection \<open>Sending to the loopback address\<close>

text \<open>Between packets: an empty queue, the locks free, the send buffer a page of its own, and a page left for a frame.\<close>

definition net_idle :: "('g, 'a) net \<Rightarrow> bool" where
  "net_idle s \<longleftrightarrow> queue_ok s \<and> pop_send_buffer_sem s = 1 \<and> 0 < pagepool_num_free_pages (net_kernel s) \<and>
     (\<forall>i < CONFIG_POP_QUEUE_SIZE. pq_frame (pop_queue s ! i) = 0) \<and>
     (\<exists>p \<in> pool_dynamic (net_kernel s). pop_send_buffer s = of_nat (kpage p))"

text \<open>A region of memory that is in none of the free pages and not in the send buffer.\<close>

definition outside :: "('g, 'a) net \<Rightarrow> nat \<Rightarrow> nat \<Rightarrow> bool" where
  "outside s a n \<longleftrightarrow> 0 < a \<and> a + n \<le> 2 ^ 32 \<and>
     (\<forall>p. p < nat (pagepool_num_pages (net_kernel s)) \<longrightarrow> \<not> page_used (net_kernel s) p \<or> pop_send_buffer s = of_nat (kpage p) \<longrightarrow>
        a + n \<le> kpage p \<or> kpage p + 4096 \<le> a)"

lemma push_empty:
  assumes "queue_ok s" "\<forall>i < CONFIG_POP_QUEUE_SIZE. pq_frame (pop_queue s ! i) = 0"
  shows "pop_push_frame now stamp src dest 1 frm s =
    Inr (1, s\<lparr>pop_queue := (pop_queue s)[0 := new_entry frm stamp src], pop_service_thread_sem := pop_service_thread_sem s + 1\<rparr>)"
proof -
  have ex: "\<exists>k < CONFIG_POP_QUEUE_SIZE. pq_frame (pop_queue s ! k) = 0" using assms(2) by (intro exI [of _ 0]) simp
  then obtain k where k: "\<forall>j < k. pq_frame (pop_queue s ! j) \<noteq> 0" "k < 32" "pop_push_frame now stamp src dest 1 frm s =
      Inr (1, s\<lparr>pop_queue := (pop_queue s)[k := new_entry frm stamp src], pop_service_thread_sem := pop_service_thread_sem s + 1\<rparr>)"
    using pop_push_frame_cases [OF assms(1), of frm stamp src now dest] unfolding Let_def if_P [OF ex] by auto
  have "k = 0" using k(1,2) assms(2) by (metis gr_zeroI zero_less_numeral)
  with k(3) show ?thesis by simp
qed

lemma kpage_apart: "p \<noteq> q \<Longrightarrow> kpage p + 4096 \<le> kpage q \<or> kpage q + 4096 \<le> kpage p"
  unfolding kpage_def by linarith

lemma get_page:
  assumes "pool_ok k" "0 < pagepool_num_free_pages k"
  shows "\<exists>p k'. pagepool_get_phys_page k = Inr (page_addr p, k') \<and> 0 < p \<and> p < nat (pagepool_num_pages k) \<and> \<not> page_used k p \<and>
    pool_ok k' \<and> pool_dynamic k' = insert p (pool_dynamic k) \<and> p \<notin> pool_dynamic k \<and>
    k' = k\<lparr>pagepool_free_pages := pagepool_free_pages k', pagepool_num_free_pages := pagepool_num_free_pages k'\<rparr>"
proof -
  obtain p where p: "pagepool_get_phys_page k = Inr (page_addr p, k\<lparr>pagepool_free_pages := bm_upd (pagepool_free_pages k) p True,
      pagepool_num_free_pages := pagepool_num_free_pages k - 1\<rparr>)" (is "_ = Inr (_, ?k)")
    "p < nat (pagepool_num_pages k)" "\<not> page_used k p" by (rule pagepool_get_some [OF assms])
  have st: "nat (pagepool_static_end k) \<le> p" "0 < p"
    using assms(1) p(2,3) unfolding pool_ok_def by (metis leI, metis (no_types, lifting) gr_zeroI zero_less_nat_eq)
  have "p < 32 * length (pagepool_free_pages k)" using assms(1) p(2) by (simp add: pool_ok_def)
  then have "pool_dynamic ?k = insert p (pool_dynamic k)" "p \<notin> pool_dynamic k"
    using p st by (auto simp: pool_dynamic_def page_used_def bm_bit_upd)
  with p st pool_ok_get [OF assms(1) p(2,3)] show ?thesis by (intro exI [of _ p] exI [of _ ?k]) simp
qed

lemma receive_frame_pop:
  "load32 (net_mem s) (frm + 8) = 1 \<Longrightarrow>
   network_receive_frame now stamp frm s = pop_push_frame now stamp (load32 (net_mem s) (frm + 4)) (load32 (net_mem s) frm) 1 (frm + 12) s"
  by (simp add: network_receive_frame_def protocols_get_frame_handler_def network_protocols_def)

lemma kpage_bound: "p < 2 ^ 19 \<Longrightarrow> kpage p + 4096 \<le> 2 ^ 32"
  by (simp add: kpage_def)

lemma network_send_loopback:
  assumes ok: "queue_ok s" "\<forall>i < CONFIG_POP_QUEUE_SIZE. pq_frame (pop_queue s ! i) = 0" "0 < pagepool_num_free_pages (net_kernel s)"
    and n: "0 < n" "n \<le> 4084" "B + n \<le> 2 ^ 32"
    and B: "\<And>p. p < nat (pagepool_num_pages (net_kernel s)) \<Longrightarrow> \<not> page_used (net_kernel s) p \<Longrightarrow> B + n \<le> kpage p \<or> kpage p + 4096 \<le> B"
  shows "\<exists>p k'. network_send dev now stamp NETWORK_BROADCAST_ADDRESS NETWORK_LOOPBACK_ADDRESS 1 (int n) (of_nat B) s =
      Inr (0, s\<lparr>net_kernel := k', net_mem := putn (kpage p + 4) (enc32 0) (in_frame (kpage p) 0xffffffff 0 1 B n (net_mem s)),
        pop_queue := (pop_queue s)[0 := new_entry (of_nat (kpage p + 12)) stamp 0], pop_service_thread_sem := pop_service_thread_sem s + 1\<rparr>) \<and>
    p < 2 ^ 19 \<and> p < nat (pagepool_num_pages (net_kernel s)) \<and> \<not> page_used (net_kernel s) p \<and> pool_ok k' \<and>
    pool_dynamic k' = insert p (pool_dynamic (net_kernel s)) \<and> p \<notin> pool_dynamic (net_kernel s) \<and>
    k' = (net_kernel s)\<lparr>pagepool_free_pages := pagepool_free_pages k', pagepool_num_free_pages := pagepool_num_free_pages k'\<rparr>"
proof -
  have pool: "pool_ok (net_kernel s)" "pagepool_num_pages (net_kernel s) \<le> 2 ^ 19" using ok(1) by (simp_all add: queue_ok_def)
  from get_page [OF pool(1) ok(3)] obtain p k' where get: "pagepool_get_phys_page (net_kernel s) = Inr (page_addr p, k')" "0 < p"
    and p: "p < nat (pagepool_num_pages (net_kernel s))" "\<not> page_used (net_kernel s) p" and k': "pool_ok k'"
      "pool_dynamic k' = insert p (pool_dynamic (net_kernel s))" "p \<notin> pool_dynamic (net_kernel s)"
      "k' = (net_kernel s)\<lparr>pagepool_free_pages := pagepool_free_pages k', pagepool_num_free_pages := pagepool_num_free_pages k'\<rparr>" by blast
  have p19: "p < 2 ^ 19" using p(1) pool(2) by (simp add: nat_less_iff)
  have pa: "page_addr p \<noteq> 0" using get(2) p19 by (intro page_addr_nonzero) auto
  let ?F = "kpage p"
  let ?m = "in_frame ?F 0xffffffff 0 1 B n (net_mem s)"
  let ?s = "s\<lparr>net_kernel := k', net_mem := putn (?F + 4) (enc32 0) ?m\<rparr>"
  note Fb = kpage_bound [OF p19]
  have code: "memcopy (int n) (of_nat ?F + 12) (of_nat B) (put_mem (of_nat ?F + 8) (enc32 1)
      (put_mem (of_nat ?F) (enc32 0) (put_mem (of_nat ?F + 4) (enc32 0xffffffff) (net_mem s)))) = ?m"
    by (rule frame_code [OF Fb n B [OF p]])
  have apart: "B + n \<le> ?F \<or> ?F + 12 \<le> B" using B [OF p] by auto
  note f = frame_fields [OF Fb n(2) refl apart n(3), of "0xffffffff" 0 1 "net_mem s"]
  have src: "load32 ?m (of_nat ?F + 4) = 0xffffffff" using f(1) by (simp add: load_off)
  have fix_src: "put_mem (of_nat ?F + 4) (enc32 0) ?m = putn (?F + 4) (enc32 0) ?m" using Fb by (simp add: put_mem_off)
  have g: "getn (net_mem ?s) (?F + 4) 4 = enc32 0" "getn (net_mem ?s) ?F 4 = enc32 0" "getn (net_mem ?s) (?F + 8) 4 = enc32 1"
    using f(2,3) Fb by (simp_all add: getn_same getn_apart)
  have kfields: "pagepool_num_pages k' = pagepool_num_pages (net_kernel s)" by (subst k'(4)) simp
  have q: "queue_ok ?s" "\<forall>i < CONFIG_POP_QUEUE_SIZE. pq_frame (pop_queue ?s ! i) = 0"
    using ok(1,2) k'(1) kfields by (auto simp: queue_ok_def)
  have recv: "network_receive_frame now stamp (of_nat ?F) ?s =
      Inr (1, ?s\<lparr>pop_queue := (pop_queue s)[0 := new_entry (of_nat (?F + 12)) stamp 0], pop_service_thread_sem := pop_service_thread_sem s + 1\<rparr>)"
    using receive_frame_pop [of ?s "of_nat ?F" now stamp] push_empty [OF q, of now stamp 0 0 "of_nat ?F + 12"] g by (simp add: load_off load32_eq)
  have "network_send dev now stamp NETWORK_BROADCAST_ADDRESS NETWORK_LOOPBACK_ADDRESS 1 (int n) (of_nat B) s =
      Inr (0, ?s\<lparr>pop_queue := (pop_queue s)[0 := new_entry (of_nat (?F + 12)) stamp 0], pop_service_thread_sem := pop_service_thread_sem s + 1\<rparr>)"
    using n get(1) pa code src recv fix_src
    by (simp add: network_send_def on_net_kernel_def kernel_page [OF p19] mem_upd_def NETWORK_BROADCAST_ADDRESS_def NETWORK_LOOPBACK_ADDRESS_def Let_def)
  then show ?thesis using p p19 k' by blast
qed

lemma send_size:
  assumes "n \<le> 4076" "int n + 8 \<le> mtu" "mtu \<le> 4096"
  shows "min (min (word_of_int (int n)) (word_of_int mtu - 8)) (PAGE_SIZE - 8) = (of_nat n :: uint32)"
proof -
  have "(word_of_int mtu - 8 :: uint32) = word_of_int (mtu - 8)" by simp
  then have "unat (word_of_int mtu - 8 :: uint32) = nat (mtu - 8)" using assms unat_of_int_small [of "mtu - 8"] by simp
  then have "(of_nat n :: uint32) \<le> word_of_int mtu - 8" "(of_nat n :: uint32) \<le> 4088"
    using assms by (simp_all add: word_le_nat_alt unat_of_nat_small)
  then show ?thesis by (simp add: min_def PAGE_SIZE_def)
qed

text \<open>The state after a packet is queued: \<open>p\<close> is the page of its frame and \<open>sb\<close> that of the send buffer.\<close>

definition packet_queued :: "nat \<Rightarrow> nat \<Rightarrow> 'a sems_scheme \<Rightarrow> uint32 \<Rightarrow> uint16 \<Rightarrow> uint16 \<Rightarrow> nat \<Rightarrow> nat \<Rightarrow> ('g, 'a) net \<Rightarrow> ('g, 'a) net" where
  "packet_queued p sb k stamp sport dport b n s = s\<lparr>net_kernel := k,
     net_mem := putn (kpage p + 4) (enc32 0) (in_frame (kpage p) 0xffffffff 0 1 (kpage sb) (n + 8) (in_send_buffer (kpage sb) sport dport b n (net_mem s))),
     pop_queue := (pop_queue s)[0 := new_entry (of_nat (kpage p + 12)) stamp 0], pop_service_thread_sem := pop_service_thread_sem s + 1\<rparr>"

lemma sendto_loopback:
  assumes idle: "net_idle s" and sk: "length (open_sockets s) = CONFIG_MAX_OPEN_SOCKETS" "open_sockets_sem s = 1"
    and i: "i < CONFIG_MAX_OPEN_SOCKETS" "sk_protocol (open_sockets s ! i) = PROTOCOL_POP" and dport: "dport \<noteq> 0"
    and mtu: "network_get_mtu NETWORK_BROADCAST_ADDRESS s = Inr mtu" "int n + 8 \<le> mtu" "mtu \<le> 4096"
    and n: "0 < n" "n \<le> 4076" "outside s b n"
  shows "\<exists>p sb k'. socket_sendto dev now stamp (int i) NETWORK_LOOPBACK_ADDRESS dport (of_nat b) (int n) s =
      Inr (int n, packet_queued p sb k' stamp (sk_port (open_sockets s ! i)) dport b n s) \<and>
    p < 2 ^ 19 \<and> sb < 2 ^ 19 \<and> sb \<noteq> p \<and> p < nat (pagepool_num_pages (net_kernel s)) \<and> \<not> page_used (net_kernel s) p \<and> pool_ok k' \<and>
    pool_dynamic k' = insert p (pool_dynamic (net_kernel s)) \<and> p \<notin> pool_dynamic (net_kernel s) \<and>
    k' = (net_kernel s)\<lparr>pagepool_free_pages := pagepool_free_pages k', pagepool_num_free_pages := pagepool_num_free_pages k'\<rparr>"
proof -
  have I: "queue_ok s" "pop_send_buffer_sem s = 1" "0 < pagepool_num_free_pages (net_kernel s)" "\<forall>i < CONFIG_POP_QUEUE_SIZE. pq_frame (pop_queue s ! i) = 0"
    using idle by (simp_all add: net_idle_def)
  obtain sb where sb: "sb \<in> pool_dynamic (net_kernel s)" "pop_send_buffer s = of_nat (kpage sb)" using idle by (auto simp: net_idle_def)
  then have sbp: "sb < nat (pagepool_num_pages (net_kernel s))" "page_used (net_kernel s) sb" by (auto simp: pool_dynamic_def)
  moreover have pages: "pagepool_num_pages (net_kernel s) \<le> 2 ^ 19" using I(1) by (simp add: queue_ok_def)
  ultimately have sb19: "sb < 2 ^ 19" by (simp add: nat_less_iff)
  let ?B = "kpage sb" and ?sport = "sk_port (open_sockets s ! i)"
  have b: "b + n \<le> ?B \<or> ?B + 4096 \<le> b" "b + n \<le> 2 ^ 32" "(of_nat b :: uint32) \<noteq> 0"
    using n sbp sb(2) unat_of_nat_small [of b] by (auto simp: outside_def)
  let ?m = "in_send_buffer ?B ?sport dport b n (net_mem s)"
  let ?s = "s\<lparr>pop_send_buffer_sem := 0, net_mem := ?m\<rparr>"
  have buf: "memcopy (int n) (of_nat ?B + 8) (of_nat b) (put_mem (of_nat ?B + 4) (enc32 (of_nat n))
      (put_mem (of_nat ?B + 2) (enc16 dport) (put_mem (of_nat ?B) (enc16 ?sport) (net_mem s)))) = ?m"
    by (rule send_buffer_code [OF kpage_bound [OF sb19] n(1,2) b(2,1)])
  have q: "queue_ok ?s" using I(1) by (simp add: queue_ok_def)
  have apart: "?B + (n + 8) \<le> kpage p \<or> kpage p + 4096 \<le> ?B" if "\<not> page_used (net_kernel s) p" for p
  proof -
    have "sb \<noteq> p" using sbp(2) that by auto
    from kpage_apart [OF this] n(2) show ?thesis by linarith
  qed
  have "?B + (n + 8) \<le> 2 ^ 32" using kpage_bound [OF sb19] n(2) by simp
  from network_send_loopback [of ?s "n + 8" ?B dev now stamp, OF q _ _ _ _ this] obtain p k' where send:
    "network_send dev now stamp NETWORK_BROADCAST_ADDRESS NETWORK_LOOPBACK_ADDRESS 1 (int (n + 8)) (of_nat ?B) ?s =
      Inr (0, ?s\<lparr>net_kernel := k', net_mem := putn (kpage p + 4) (enc32 0) (in_frame (kpage p) 0xffffffff 0 1 ?B (n + 8) ?m),
        pop_queue := (pop_queue s)[0 := new_entry (of_nat (kpage p + 12)) stamp 0], pop_service_thread_sem := pop_service_thread_sem s + 1\<rparr>)"
    and p: "p < 2 ^ 19" "p < nat (pagepool_num_pages (net_kernel s))" "\<not> page_used (net_kernel s) p" "pool_ok k'"
      "pool_dynamic k' = insert p (pool_dynamic (net_kernel s))" "p \<notin> pool_dynamic (net_kernel s)"
      "k' = (net_kernel s)\<lparr>pagepool_free_pages := pagepool_free_pages k', pagepool_num_free_pages := pagepool_num_free_pages k'\<rparr>"
    using I(3,4) n(2) apart by auto
  have sz: "sint (of_nat n :: uint32) = int n" "sint ((of_nat n :: uint32) + 8) = int (n + 8)"
    using n(2) sint_of_nat_small [of n] sint_of_nat_small [of "n + 8"] by simp_all
  have lock: "V_sockets (s\<lparr>open_sockets_sem := 0\<rparr>) = s" using sk(2) by (simp add: sockets_lock)
  have "socket_sendto dev now stamp (int i) NETWORK_LOOPBACK_ADDRESS dport (of_nat b) (int n) s =
      Inr (int n, packet_queued p sb k' stamp ?sport dport b n s)"
    using i sk dport b(3) n(1) mtu(1) send_size [OF n(2) mtu(2,3)] sb(2) I(2) buf send sz lock
    by (simp add: socket_sendto_def sockets_lock(1) P_send_buffer_def V_send_buffer_def sem_P_def Let_def mem_upd_def packet_queued_def)
  then show ?thesis using p sb19 sbp(2) by blast
qed

subsection \<open>Delivery\<close>

lemma queue_upd_ok:
  "0 \<le> i \<Longrightarrow> nat i < length (pop_queue s) \<Longrightarrow> queue_upd i f s = Inr (s\<lparr>pop_queue := (pop_queue s)[nat i := f (pop_queue s ! nat i)]\<rparr>)"
  by (simp add: queue_upd_def)

text \<open>A port belongs to one socket, so the search for the recipient finds it.\<close>

lemma recipient_found:
  assumes "own_ports t" "length t = CONFIG_MAX_OPEN_SOCKETS" "j < CONFIG_MAX_OPEN_SOCKETS" "sk_protocol (t ! j) = PROTOCOL_POP"
  shows "find_from (\<lambda>k. sk_protocol k = PROTOCOL_POP \<and> sk_port k = sk_port (t ! j)) t 0 CONFIG_MAX_OPEN_SOCKETS = Inr j"
proof (rule find_from_hit)
  show "\<forall>i. 0 \<le> i \<and> i < j \<longrightarrow> \<not> (sk_protocol (t ! i) = PROTOCOL_POP \<and> sk_port (t ! i) = sk_port (t ! j))"
  proof (intro allI impI notI)
    fix i assume i: "0 \<le> i \<and> i < j" "sk_protocol (t ! i) = PROTOCOL_POP \<and> sk_port (t ! i) = sk_port (t ! j)"
    then have "i < length t" "j < length t" "i \<noteq> j" "is_open (t ! i)" "is_open (t ! j)" using assms by (auto simp: is_open_def)
    with assms(1) i(2) show False unfolding own_ports_def by blast
  qed
qed (use assms in auto)

lemma service_scan_first:
  assumes locks: "open_sockets_sem s = 1" "pop_queue_sem s = 1" and len: "length (pop_queue s) = CONFIG_POP_QUEUE_SIZE"
    and e: "pop_queue s ! 0 = e" "pq_frame e \<noteq> 0" "pq_socket e = -1"
    and t: "own_ports (open_sockets s)" "length (open_sockets s) = CONFIG_MAX_OPEN_SOCKETS"
    and j: "j < CONFIG_MAX_OPEN_SOCKETS" "sk_protocol (open_sockets s ! j) = PROTOCOL_POP" "sk_rbuf (open_sockets s ! j) \<noteq> 0"
      "load16 (net_mem s) (pq_frame e + 2) = sk_port (open_sockets s ! j)"
  shows "service_scan slot f s = Inr ((POP_ACTION_TRANSFER, 0, pq_frame e), s\<lparr>pop_queue := (pop_queue s)[0 := e\<lparr>pq_socket := int j, pq_busy := 1\<rparr>]\<rparr>)"
proof -
  note r = recipient_found [OF t j(1,2), folded j(4)]
  let ?s = "s\<lparr>open_sockets_sem := 0, pop_queue_sem := 0\<rparr>"
  have fr: "find_recipient 0 (pq_frame e) ?s = Inr (?s\<lparr>pop_queue := (pop_queue s)[0 := e\<lparr>pq_socket := int j\<rparr>]\<rparr>)"
    using r e len j(1) by (simp add: find_recipient_def queue_upd_ok)
  have scan: "service_scan_from 0 slot f ?s = Inr ((POP_ACTION_TRANSFER, 0, pq_frame e), ?s\<lparr>pop_queue := (pop_queue s)[0 := e\<lparr>pq_socket := int j, pq_busy := 1\<rparr>]\<rparr>)"
    using e len t(2) j by (subst service_scan_from.simps) (simp add: fr queue_upd_ok)
  have "V_sockets (V_queue (?s\<lparr>pop_queue := q\<rparr>)) = s\<lparr>pop_queue := q\<rparr>" for q
    using locks by (cases s) (simp add: sockets_lock queue_lock)
  then show ?thesis using locks scan by (simp add: service_scan_def sockets_lock(1) queue_lock(1))
qed

fun disjoint_regions :: "(nat \<times> nat) list \<Rightarrow> bool" where
  "disjoint_regions [] = True"
| "disjoint_regions ((a, n) # rs) = (a + n \<le> 2 ^ 32 \<and> (\<forall>(b, m) \<in> set rs. a + n \<le> b \<or> b + m \<le> a) \<and> disjoint_regions rs)"

text \<open>The memory after a transfer of \<open>c\<close> bytes: what the receiver finds in its buffer and its variables.\<close>

definition delivered :: "nat \<Rightarrow> nat \<Rightarrow> nat \<Rightarrow> nat \<Rightarrow> nat \<Rightarrow> nat \<Rightarrow> uint32 \<Rightarrow> uint16 \<Rightarrow> memory \<Rightarrow> memory" where
  "delivered F c r a l pv src sport m =
     putn pv (enc16 sport) (putn l (enc32 (of_nat c)) (putn a (enc32 src) (putn r (getn m (F + 20) c) m)))"

lemma delivered_fields:
  assumes "disjoint_regions [(r, c), (a, 4), (l, 4), (pv, 2)]" "m' = delivered F c r a l pv src sport m"
  shows "getn m' r c = getn m (F + 20) c" "getn m' a 4 = enc32 src" "getn m' l 4 = enc32 (of_nat c)" "getn m' pv 2 = enc16 sport"
  using assms by (auto simp: delivered_def getn_apart getn_same)

lemma transfer_memory:
  assumes sep: "disjoint_regions [(r, c), (a, 4), (l, 4), (pv, 2)]" "\<forall>(b, n) \<in> {(r, c), (a, 4), (l, 4), (pv, 2)}. b + n \<le> F \<or> F + 4096 \<le> b"
    and F: "F + 4096 \<le> 2 ^ 32" "0 < c" "c \<le> 4076" "getn m (F + 12) 2 = enc16 sport"
  shows "memcopy (int c) (of_nat r) (of_nat (F + 20)) m = putn r (getn m (F + 20) c) m"
    "load16 (putn l (enc32 (of_nat c)) (putn a (enc32 src) (putn r (getn m (F + 20) c) m))) (of_nat (F + 12)) = sport"
proof -
  show "memcopy (int c) (of_nat r) (of_nat (F + 20)) m = putn r (getn m (F + 20) c) m"
  proof (rule memcopy_putn)
    have "r + c \<le> F \<or> F + 4096 \<le> r" using sep(2) by simp
    then show "r + c \<le> F + 20 \<or> F + 20 + c \<le> r" using F(3) by linarith
    show "r + c \<le> 2 ^ 32" using sep(1) by simp
  qed (use F in simp_all)
  have "getn (putn l (enc32 (of_nat c)) (putn a (enc32 src) (putn r (getn m (F + 20) c) m))) (F + 12) 2 = enc16 sport"
  proof -
    have "F + 12 + 2 \<le> r \<or> r + length (getn m (F + 20) c) \<le> F + 12" "F + 12 + 2 \<le> a \<or> a + length (enc32 src) \<le> F + 12"
      "F + 12 + 2 \<le> l \<or> l + length (enc32 (of_nat c)) \<le> F + 12" "F + 12 + 2 \<le> 2 ^ 32"
      using sep(2) F(1) by auto
    then show ?thesis using F(4) by (simp only: getn_apart)
  qed
  then show "load16 (putn l (enc32 (of_nat c)) (putn a (enc32 src) (putn r (getn m (F + 20) c) m))) (of_nat (F + 12)) = sport"
    unfolding load16_eq by simp
qed

text \<open>The semaphore of the receiver: raised by the service thread, taken by the receiver.\<close>

lemma signal_taken:
  assumes ok: "sems_ok b k rs qs" "good_base b" and h: "live k h" "sem_value (sem_row k h) = 0"
  shows "\<exists>k1 k2. semaphore_V b h k = Inr k1 \<and> semaphore_P b h k1 = Inr (Returned k2) \<and>
    (\<exists>t. k2 = k\<lparr>semaphore_table := t\<rparr>) \<and> (\<exists>t. k1 = k\<lparr>semaphore_table := t\<rparr>)"
proof -
  have ii: "is_sem h" "sem_creator (sem_row k h) \<noteq> -1" using h(1) by (simp_all add: live_def)
  note ix = sem_index [OF ii(1)] and S = sems_okD [OF ok(1)]
  let ?k1 = "k\<lparr>semaphore_table := (semaphore_table k)[nat h := (sem_row k h)\<lparr>sem_value := 1, sem_slock := 0\<rparr>]\<rparr>"
  have V: "semaphore_V b h k = Inr ?k1" "sems_ok b ?k1 rs qs" using semaphore_V_free [OF ok ii] h(2) by simp_all
  have row: "sem_row ?k1 h = (sem_row k h)\<lparr>sem_value := 1, sem_slock := 0\<rparr>" using ix S(3) by simp
  have "semaphore_P b h ?k1 = Inr (Returned (?k1\<lparr>semaphore_table := (semaphore_table ?k1)[nat h := (sem_row ?k1 h)\<lparr>sem_value := 0, sem_slock := 0\<rparr>]\<rparr>))"
    using P_section_pass [OF V(2) ii(1)] row ii(2) by (simp add: semaphore_P_def interrupt_set_state_def)
  with V(1) show ?thesis by (intro exI conjI) auto
qed

lemma sems_ok_pool:
  assumes "sems_ok b k rs qs"
  shows "sems_ok b (k\<lparr>pagepool_free_pages := x, pagepool_num_free_pages := y\<rparr>) rs qs"
proof (rule sems_ok_others [OF assms])
  show "sleepq_ok (k\<lparr>pagepool_free_pages := x, pagepool_num_free_pages := y\<rparr>) rs qs"
    by (rule sleepq_ok_frame [OF sems_okD(1) [OF assms]]) simp_all
qed (use sems_okD [OF assms] in \<open>simp_all add: waiters_def th_def fun_eq_iff\<close>)

lemma pool_sem_table [simp]:
  "pool_ok (k\<lparr>semaphore_table := t\<rparr>) = pool_ok k" "pool_dynamic (k\<lparr>semaphore_table := t\<rparr>) = pool_dynamic k"
  by (simp_all add: pool_ok_def pool_dynamic_def page_used_def [abs_def])

text \<open>The socket of a receiver: its pointers, as numbers.\<close>

definition receiving :: "socket_descriptor_t \<Rightarrow> nat \<Rightarrow> nat \<Rightarrow> nat \<Rightarrow> nat \<Rightarrow> nat \<Rightarrow> bool" where
  "receiving k r len a l pv \<longleftrightarrow> sk_rbuf k = of_nat r \<and> sk_bufsize k = of_nat len \<and> sk_sender k = of_nat a \<and> sk_copied k = of_nat l \<and> sk_sport k = of_nat pv \<and>
     0 < len \<and> len < 2 ^ 31 \<and> 0 < r \<and> 0 < a \<and> 0 < l \<and> 0 < pv"

definition received :: "socket_descriptor_t \<Rightarrow> socket_descriptor_t" where
  "received k = k\<lparr>sk_rbuf := 0, sk_bufsize := 0, sk_sender := 0, sk_copied := 0, sk_sport := 0\<rparr>"

lemma service_transfer_ok:
  assumes e: "pop_queue s ! 0 = e" "length (pop_queue s) = CONFIG_POP_QUEUE_SIZE" "pq_socket e = int j" "pq_from e = src"
    and j: "j < CONFIG_MAX_OPEN_SOCKETS" "length (open_sockets s) = CONFIG_MAX_OPEN_SOCKETS" "receiving (open_sockets s ! j) r len a l pv"
      "receive_complete (open_sockets s ! j) = Some h"
    and pool: "pool_ok (net_kernel s)" "p \<in> pool_dynamic (net_kernel s)" "pagepool_num_pages (net_kernel s) \<le> 2 ^ 19"
    and sem: "sems_ok base (net_kernel s) rs qs" "good_base base" "live (net_kernel s) h" "sem_value (sem_row (net_kernel s) h) = 0"
    and m: "getn (net_mem s) (kpage p + 12) 2 = enc16 sport" "getn (net_mem s) (kpage p + 16) 4 = enc32 (of_nat n)" "0 < n" "n \<le> 4076" "c = min n len"
    and sep: "disjoint_regions [(r, c), (a, 4), (l, 4), (pv, 2)]" "\<forall>(b, n) \<in> {(r, c), (a, 4), (l, 4), (pv, 2)}. b + n \<le> kpage p \<or> kpage p + 4096 \<le> b"
  shows "\<exists>k k'. service_transfer base 0 (of_nat (kpage p + 12)) s = Inr (s\<lparr>net_mem := delivered (kpage p) c r a l pv src sport (net_mem s),
      open_sockets := (open_sockets s)[j := received (open_sockets s ! j)], net_kernel := k, pop_queue := (pop_queue s)[0 := e\<lparr>pq_frame := 0\<rparr>]\<rparr>) \<and>
    semaphore_P base h k = Inr (Returned k') \<and> pool_ok k' \<and> pool_dynamic k' = pool_dynamic (net_kernel s) - {p}"
proof -
  let ?F = "kpage p" and ?k = "open_sockets s ! j"
  have "p < 2 ^ 19" using pool(2,3) by (auto simp: pool_dynamic_def nat_less_iff)
  note Fb = kpage_bound [OF this]
  have c: "0 < c" "c \<le> 4076" "c < 2 ^ 31" using m(3-5) j(3) by (auto simp: receiving_def)
  have off: "(of_nat (?F + 12) + 4 :: uint32) = of_nat (?F + 16)" "(of_nat (?F + 12) + 8 :: uint32) = of_nat (?F + 20)"
    by (simp_all add: add.commute)
  have "load32 (net_mem s) (of_nat (?F + 16)) = of_nat n" unfolding load32_eq using m(2) by simp
  moreover have "min (of_nat n) (of_nat len :: uint32) = of_nat c"
    using m(4,5) j(3) unfolding receiving_def min_def word_le_nat_alt by (simp add: unat_of_nat_small)
  ultimately have bytes: "min (load32 (net_mem s) (of_nat (?F + 12) + 4)) (sk_bufsize ?k) = of_nat c" unfolding off using j(3) by (simp add: receiving_def)
  note tm = transfer_memory(1) [OF sep Fb c(1,2) m(1)] transfer_memory(2) [OF sep Fb c(1,2) m(1), of src]
  have bnd: "r + c \<le> 2 ^ 32" "a + 4 \<le> 2 ^ 32" "l + 4 \<le> 2 ^ 32" "pv + 2 \<le> 2 ^ 32" using sep(1) by auto
  have nz: "(of_nat a :: uint32) \<noteq> 0" "(of_nat l :: uint32) \<noteq> 0" "(of_nat pv :: uint32) \<noteq> 0"
    using j(3) bnd unat_of_nat_small [of a] unat_of_nat_small [of l] unat_of_nat_small [of pv] by (auto simp: receiving_def)
  note puts = put_mem_eq [of a "enc32 src"] put_mem_eq [of l "enc32 (of_nat c)"] put_mem_eq [of pv "enc16 sport"]
  define s1 where "s1 = s\<lparr>net_mem := delivered ?F c r a l pv src sport (net_mem s), open_sockets := (open_sockets s)[j := received ?k]\<rparr>"
  obtain k1 where k1: "network_free_frame (of_nat (?F + 12)) s1 = Inr (s1\<lparr>net_kernel := k1\<rparr>)" "pool_ok k1" "pool_dynamic k1 = pool_dynamic (net_kernel s) - {p}"
    "k1 = (net_kernel s)\<lparr>pagepool_free_pages := pagepool_free_pages k1, pagepool_num_free_pages := pagepool_num_free_pages k1\<rparr>"
    using network_free_frame_ok [of s1 p] pool unfolding s1_def by auto
  have sem1: "sems_ok base k1 rs qs" by (subst k1(4)) (rule sems_ok_pool [OF sem(1)])
  have row1: "sem_row k1 = sem_row (net_kernel s)" by (subst k1(4)) (simp add: sem_row_def fun_eq_iff)
  then have h1: "live k1 h" "sem_value (sem_row k1 h) = 0" using sem(3,4) by (simp_all add: live_def)
  from signal_taken [OF sem1 sem(2) h1] obtain k2 k3 t t' where V: "semaphore_V base h k1 = Inr k2" "semaphore_P base h k2 = Inr (Returned k3)"
    "k3 = k1\<lparr>semaphore_table := t\<rparr>" "k2 = k1\<lparr>semaphore_table := t'\<rparr>" by blast
  have upto: "service_transfer base 0 (of_nat (?F + 12)) s = bindE (network_free_frame (of_nat (?F + 12)) s1) (\<lambda>s.
      bindE (case receive_complete ?k of None \<Rightarrow> Inl Fault | Some sem \<Rightarrow> do_net_kernel (semaphore_V base sem) s) (\<lambda>s.
      queue_upd 0 (\<lambda>e. e\<lparr>pq_frame := 0\<rparr>) s))"
    unfolding service_transfer_def off(2) s1_def received_def delivered_def
    using e j(1,2,3) bytes tm puts bnd nz sint_of_nat_small [OF c(3)]
    by (simp add: Let_def mem_upd_def store_to_def socket_upd_ok receiving_def del: of_nat_add)
  have "service_transfer base 0 (of_nat (?F + 12)) s = Inr (s1\<lparr>net_kernel := k2, pop_queue := (pop_queue s)[0 := e\<lparr>pq_frame := 0\<rparr>]\<rparr>)"
    using upto k1(1) V(1) j(4) e(1,2) by (simp add: do_net_kernel_def queue_upd_ok s1_def del: of_nat_add)
  then show ?thesis using V(2,3) k1(2,3) by (auto simp: s1_def simp del: of_nat_add)
qed

text \<open>The table after \<^verbatim>\<open>socket_recvfrom\<close> has noted the receiver.\<close>

definition posted :: "nat \<Rightarrow> nat \<Rightarrow> nat \<Rightarrow> nat \<Rightarrow> nat \<Rightarrow> nat \<Rightarrow> ('g, 'a) net \<Rightarrow> ('g, 'a) net" where
  "posted j r len a l pv s = s\<lparr>open_sockets := (open_sockets s)[j := (open_sockets s ! j)\<lparr>sk_rbuf := of_nat r, sk_bufsize := of_nat len,
     sk_sender := of_nat a, sk_copied := of_nat l, sk_sport := of_nat pv\<rparr>], pop_service_thread_sem := pop_service_thread_sem s + 1\<rparr>"

lemma outside_nonzero: "outside s a n \<Longrightarrow> 0 < n \<Longrightarrow> (of_nat a :: uint32) \<noteq> 0"
  using unat_of_nat_small [of a] by (auto simp: outside_def)

lemma recvfrom_posted:
  assumes "sockets_ok base s" "j < CONFIG_MAX_OPEN_SOCKETS" "sk_protocol (open_sockets s ! j) = PROTOCOL_POP" "sk_rbuf (open_sockets s ! j) = 0"
    "0 < len" "outside s r len" "outside s a 4" "outside s l 4" "outside s pv 2"
  shows "socket_recvfrom_post (int j) (of_nat a) (of_nat pv) (of_nat r) (int len) (of_nat l) s = Inr (None, posted j r len a l pv s)"
proof -
  have s: "length (open_sockets s) = CONFIG_MAX_OPEN_SOCKETS" "open_sockets_sem s = 1" using assms(1) by (simp_all add: sockets_ok_def)
  have nz: "(of_nat r :: uint32) \<noteq> 0" "(of_nat a :: uint32) \<noteq> 0" "(of_nat l :: uint32) \<noteq> 0" "(of_nat pv :: uint32) \<noteq> 0"
    using assms(5-) by (simp_all add: outside_nonzero)
  have same: "s\<lparr>open_sockets := t, open_sockets_sem := 1, pop_service_thread_sem := v\<rparr> = s\<lparr>open_sockets := t, pop_service_thread_sem := v\<rparr>" for t v
    using s(2) by (cases s) simp
  show ?thesis using assms(2-5) s nz by (simp add: socket_recvfrom_post_def sockets_lock socket_upd_ok V_service_def posted_def same)
qed

lemma posted_fields [simp]:
  "net_kernel (posted j r len a l pv s) = net_kernel s" "net_mem (posted j r len a l pv s) = net_mem s"
  "pop_queue (posted j r len a l pv s) = pop_queue s" "pop_queue_sem (posted j r len a l pv s) = pop_queue_sem s"
  "pop_send_buffer (posted j r len a l pv s) = pop_send_buffer s" "pop_send_buffer_sem (posted j r len a l pv s) = pop_send_buffer_sem s"
  "network_interfaces (posted j r len a l pv s) = network_interfaces s" "open_sockets_sem (posted j r len a l pv s) = open_sockets_sem s"
  "length (open_sockets (posted j r len a l pv s)) = length (open_sockets s)"
  by (simp_all add: posted_def)

lemma posted_sockets:
  assumes "j < length (open_sockets s)"
  shows "sk_port (open_sockets (posted j r len a l pv s) ! i) = sk_port (open_sockets s ! i)"
    "sk_protocol (open_sockets (posted j r len a l pv s) ! i) = sk_protocol (open_sockets s ! i)"
    "receive_complete (open_sockets (posted j r len a l pv s) ! i) = receive_complete (open_sockets s ! i)"
    "own_ports (open_sockets s) \<Longrightarrow> own_ports (open_sockets (posted j r len a l pv s))"
proof -
  show "sk_port (open_sockets (posted j r len a l pv s) ! i) = sk_port (open_sockets s ! i)"
    "sk_protocol (open_sockets (posted j r len a l pv s) ! i) = sk_protocol (open_sockets s ! i)"
    "receive_complete (open_sockets (posted j r len a l pv s) ! i) = receive_complete (open_sockets s ! i)"
    using assms by (cases "i = j"; simp add: posted_def)+
  show "own_ports (open_sockets (posted j r len a l pv s))" if "own_ports (open_sockets s)"
    using that assms by (auto simp: posted_def is_open_def intro!: own_ports_same)
qed

text \<open>
  A turn of the service thread with a packet in the queue's first slot for a socket whose owner waits.
\<close>

lemma service_turn_delivers:
  assumes ok: "queue_ok s" "own_ports (open_sockets s)" "length (open_sockets s) = CONFIG_MAX_OPEN_SOCKETS" "open_sockets_sem s = 1"
    and e: "pop_queue s ! 0 = new_entry (of_nat (kpage p + 12)) stamp src" "p \<in> pool_dynamic (net_kernel s)"
    and j: "j < CONFIG_MAX_OPEN_SOCKETS" "sk_protocol (open_sockets s ! j) = PROTOCOL_POP" "receiving (open_sockets s ! j) r len a l pv"
      "receive_complete (open_sockets s ! j) = Some h"
    and sem: "sems_ok base (net_kernel s) rs qs" "good_base base" "live (net_kernel s) h" "sem_value (sem_row (net_kernel s) h) = 0"
    and m: "getn (net_mem s) (kpage p + 12) 2 = enc16 sport" "getn (net_mem s) (kpage p + 14) 2 = enc16 (sk_port (open_sockets s ! j))"
      "getn (net_mem s) (kpage p + 16) 4 = enc32 (of_nat n)" "0 < n" "n \<le> 4076" "c = min n len"
    and sep: "disjoint_regions [(r, c), (a, 4), (l, 4), (pv, 2)]" "\<forall>(b, n) \<in> {(r, c), (a, 4), (l, 4), (pv, 2)}. b + n \<le> kpage p \<or> kpage p + 4096 \<le> b"
  shows "\<exists>x s' k'. pop_service_turn base slot f s = Inr ((False, x), s') \<and> socket_recvfrom_wait base (int j) s' = Inr (Returned (s'\<lparr>net_kernel := k'\<rparr>)) \<and>
    net_mem s' = delivered (kpage p) c r a l pv src sport (net_mem s) \<and> pool_ok k' \<and> pool_dynamic k' = pool_dynamic (net_kernel s) - {p} \<and>
    (\<forall>q < CONFIG_POP_QUEUE_SIZE. pq_frame (pop_queue s' ! q) = (if q = 0 then 0 else pq_frame (pop_queue s ! q))) \<and>
    open_sockets s' = (open_sockets s)[j := received (open_sockets s ! j)]"
proof -
  have Q: "length (pop_queue s) = CONFIG_POP_QUEUE_SIZE" "pop_queue_sem s = 1" "pool_ok (net_kernel s)" "pagepool_num_pages (net_kernel s) \<le> 2 ^ 19"
    using ok(1) by (simp_all add: queue_ok_def)
  let ?e = "new_entry (of_nat (kpage p + 12)) stamp src"
  have "p < 2 ^ 19" using e(2) Q(4) by (auto simp: pool_dynamic_def nat_less_iff)
  from kpage_bound [OF this] have fnz: "(of_nat (kpage p + 12) :: uint32) \<noteq> 0"
    using unat_of_nat_small [of "kpage p + 12"] by (auto simp del: of_nat_add)
  have "r + c \<le> 2 ^ 32" "0 < c" using sep(1) m(4,6) j(3) by (simp_all add: receiving_def)
  then have "unat (of_nat r :: uint32) = r" by (intro unat_of_nat_small) simp
  then have rnz: "sk_rbuf (open_sockets s ! j) \<noteq> 0" using j(3) by (auto simp: receiving_def)
  have "(of_nat (kpage p + 12) + 2 :: uint32) = of_nat (kpage p + 14)" by (simp add: add.commute)
  then have port: "load16 (net_mem s) (pq_frame ?e + 2) = sk_port (open_sockets s ! j)"
    using m(2) load16_eq [of "net_mem s" "kpage p + 14"] by (simp add: new_entry_def del: of_nat_add)
  let ?s = "s\<lparr>pop_queue := (pop_queue s)[0 := ?e\<lparr>pq_socket := int j, pq_busy := 1\<rparr>]\<rparr>"
  have scan: "service_scan slot f s = Inr ((POP_ACTION_TRANSFER, 0, of_nat (kpage p + 12)), ?s)"
    using service_scan_first [OF ok(4) Q(2,1) e(1) _ _ ok(2,3) j(1,2) rnz port] fnz by (simp add: new_entry_def del: of_nat_add)
  let ?e' = "?e\<lparr>pq_socket := int j, pq_busy := 1\<rparr>"
  have "\<exists>k k'. service_transfer base 0 (of_nat (kpage p + 12)) ?s = Inr (?s\<lparr>net_mem := delivered (kpage p) c r a l pv src sport (net_mem ?s),
      open_sockets := (open_sockets ?s)[j := received (open_sockets ?s ! j)], net_kernel := k, pop_queue := (pop_queue ?s)[0 := ?e'\<lparr>pq_frame := 0\<rparr>]\<rparr>) \<and>
      semaphore_P base h k = Inr (Returned k') \<and> pool_ok k' \<and> pool_dynamic k' = pool_dynamic (net_kernel ?s) - {p}"
  proof (rule service_transfer_ok)
    show "disjoint_regions [(r, c), (a, 4), (l, 4), (pv, 2)]" by (rule sep(1))
    show "\<forall>(b, n) \<in> {(r, c), (a, 4), (l, 4), (pv, 2)}. b + n \<le> kpage p \<or> kpage p + 4096 \<le> b" by (rule sep(2))
  qed (use Q j ok(3) e(2) sem m in \<open>simp_all add: new_entry_def\<close>)
  then obtain k k' where t: "service_transfer base 0 (of_nat (kpage p + 12)) ?s = Inr (?s\<lparr>net_mem := delivered (kpage p) c r a l pv src sport (net_mem s),
      open_sockets := (open_sockets s)[j := received (open_sockets s ! j)], net_kernel := k, pop_queue := (pop_queue s)[0 := ?e'\<lparr>pq_frame := 0\<rparr>]\<rparr>)"
    "semaphore_P base h k = Inr (Returned k')" "pool_ok k'" "pool_dynamic k' = pool_dynamic (net_kernel s) - {p}"
    by (auto simp del: of_nat_add)
  define s' where "s' = ?s\<lparr>net_mem := delivered (kpage p) c r a l pv src sport (net_mem s),
      open_sockets := (open_sockets s)[j := received (open_sockets s ! j)], net_kernel := k,
      pop_queue := (pop_queue s)[0 := ?e'\<lparr>pq_frame := 0\<rparr>]\<rparr>"
  have "pop_service_turn base slot f s = Inr ((False, 0, of_nat (kpage p + 12)), s')"
    using scan t(1) by (simp add: pop_service_turn_def service_act_def s'_def del: of_nat_add)
  moreover have "socket_recvfrom_wait base (int j) s' = Inr (Returned (s'\<lparr>net_kernel := k'\<rparr>))"
    using j(1,4) ok(3) t(2) by (simp add: socket_recvfrom_wait_def s'_def received_def)
  moreover have "pq_frame (pop_queue s' ! q) = (if q = 0 then 0 else pq_frame (pop_queue s ! q))" if "q < CONFIG_POP_QUEUE_SIZE" for q
    using that Q(1) by (cases q) (simp_all add: s'_def)
  ultimately show ?thesis using t(3,4) by (intro exI conjI) (auto simp: s'_def)
qed

end
