(* ===== verification/Net_Loop.thy ===== *)
theory Net_Loop
  imports Net_Spec
begin

text \<open>
  What the packet oriented protocol promises, stated on its operations: where a received frame goes, that a packet sent to the loopback
  address arrives, how long a packet may be, and the two ways in which a packet stops the kernel.
\<close>

subsection \<open>The way of a packet\<close>

lemma loopback_delivers:
  assumes ok: "sockets_ok base s" "good_base base" "net_idle s"
    and i: "i < CONFIG_MAX_OPEN_SOCKETS" "sk_protocol (open_sockets s ! i) = PROTOCOL_POP"
    and j: "j < CONFIG_MAX_OPEN_SOCKETS" "sk_protocol (open_sockets s ! j) = PROTOCOL_POP" "sk_rbuf (open_sockets s ! j) = 0"
      "receive_complete (open_sockets s ! j) = Some h" "sem_value (sem_row (net_kernel s) h) = 0"
    and mtu: "network_get_mtu NETWORK_BROADCAST_ADDRESS s = Inr mtu" "int n + 8 \<le> mtu" "mtu \<le> 4096"
    and n: "0 < n" "n \<le> 4076" "outside s b n"
    and bufs: "0 < len" "len < 2 ^ 31" "outside s r len" "outside s a 4" "outside s l 4" "outside s pv 2" "disjoint_regions [(r, len), (a, 4), (l, 4), (pv, 2)]"
  shows "\<exists>s1 s2 s3 s4 x. socket_recvfrom_post (int j) (of_nat a) (of_nat pv) (of_nat r) (int len) (of_nat l) s = Inr (None, s1) \<and>
    socket_sendto dev now stamp (int i) NETWORK_LOOPBACK_ADDRESS (sk_port (open_sockets s ! j)) (of_nat b) (int n) s1 = Inr (int n, s2) \<and>
    pop_service_turn base slot f s2 = Inr ((False, x), s3) \<and>
    socket_recvfrom_wait base (int j) s3 = Inr (Returned s4) \<and> socket_recvfrom_result (of_nat l) s4 = int (min n len) \<and>
    mem_bytes (net_mem s4) (of_nat r) (min n len) = mem_bytes (net_mem s) (of_nat b) (min n len) \<and>
    load32 (net_mem s4) (of_nat a) = NETWORK_LOOPBACK_ADDRESS \<and> load16 (net_mem s4) (of_nat pv) = sk_port (open_sockets s ! i) \<and>
    sk_rbuf (open_sockets s4 ! j) = 0 \<and> (\<forall>q < CONFIG_POP_QUEUE_SIZE. pq_frame (pop_queue s4 ! q) = 0) \<and>
    pool_dynamic (net_kernel s4) = pool_dynamic (net_kernel s)"
proof -
  have S: "length (open_sockets s) = CONFIG_MAX_OPEN_SOCKETS" "open_sockets_sem s = 1" "own_ports (open_sockets s)"
    and sk: "socket_ok (net_kernel s) (open_sockets s ! j)" using ok(1) j(1) by (simp_all add: sockets_ok_def)
  obtain rs qs where sems: "sems_ok base (net_kernel s) rs qs" using ok(1) by (auto simp: sockets_ok_def)
  have live: "live (net_kernel s) h" and dport: "sk_port (open_sockets s ! j) \<noteq> 0"
    using sk j(2,4) by (auto simp: socket_ok_def is_open_def)
  define s1 where "s1 = posted j r len a l pv s"
  note P = posted_sockets [of j s r len a l pv, unfolded S(1), OF j(1), folded s1_def]
  have post: "socket_recvfrom_post (int j) (of_nat a) (of_nat pv) (of_nat r) (int len) (of_nat l) s = Inr (None, s1)"
    unfolding s1_def by (rule recvfrom_posted [OF ok(1) j(1-3) bufs(1,3-6)])
  have s1: "net_idle s1" "outside s1 b n" "network_get_mtu NETWORK_BROADCAST_ADDRESS s1 = Inr mtu"
    using ok(3) n(3) mtu(1) by (simp_all add: s1_def net_idle_def queue_ok_def outside_def network_get_mtu_def)
  have f1: "length (open_sockets s1) = CONFIG_MAX_OPEN_SOCKETS" "open_sockets_sem s1 = 1" using S by (simp_all add: s1_def)
  obtain p sb k' where send: "socket_sendto dev now stamp (int i) NETWORK_LOOPBACK_ADDRESS (sk_port (open_sockets s ! j)) (of_nat b) (int n) s1 =
      Inr (int n, packet_queued p sb k' stamp (sk_port (open_sockets s ! i)) (sk_port (open_sockets s ! j)) b n s1)"
    and p: "p < 2 ^ 19" "sb < 2 ^ 19" "sb \<noteq> p" "p < nat (pagepool_num_pages (net_kernel s))" "\<not> page_used (net_kernel s) p" "pool_ok k'"
      "pool_dynamic k' = insert p (pool_dynamic (net_kernel s))" "p \<notin> pool_dynamic (net_kernel s)"
      "k' = (net_kernel s)\<lparr>pagepool_free_pages := pagepool_free_pages k', pagepool_num_free_pages := pagepool_num_free_pages k'\<rparr>"
    using sendto_loopback [OF s1(1) f1 i(1) _ dport s1(3) mtu(2,3) n(1,2) s1(2), of dev now stamp] i(2) P(1,2) by (auto simp: s1_def)
  define s2 where "s2 = packet_queued p sb k' stamp (sk_port (open_sockets s ! i)) (sk_port (open_sockets s ! j)) b n s1"
  have F2: "open_sockets s2 = open_sockets s1" "open_sockets_sem s2 = 1" "net_kernel s2 = k'" "pop_queue_sem s2 = pop_queue_sem s"
    "pop_queue s2 = (pop_queue s)[0 := new_entry (of_nat (kpage p + 12)) stamp 0]"
    using S by (simp_all add: s2_def s1_def packet_queued_def)
  note fields = packet_fields [OF kpage_bound [OF p(2)] kpage_bound [OF p(1)] kpage_apart [OF p(3)] n(1,2), of "net_mem s2"]
  have m2: "getn (net_mem s2) (kpage p + 12) 2 = enc16 (sk_port (open_sockets s ! i))" "getn (net_mem s2) (kpage p + 14) 2 = enc16 (sk_port (open_sockets s ! j))"
    "getn (net_mem s2) (kpage p + 16) 4 = enc32 (of_nat n)" "getn (net_mem s2) (kpage p + 20) n = getn (net_mem s) b n"
    by (rule fields; simp add: s2_def s1_def packet_queued_def)+
  have I: "queue_ok s" "\<forall>q < CONFIG_POP_QUEUE_SIZE. pq_frame (pop_queue s ! q) = 0" using ok(3) by (simp_all add: net_idle_def)
  have "pagepool_num_pages k' = pagepool_num_pages (net_kernel s)" "sem_row k' = sem_row (net_kernel s)"
    by (subst p(9), simp add: sem_row_def fun_eq_iff)+
  note kf = this
  have q2: "queue_ok s2"
    using I p(1,6,7) kf(1) frame_no_kpage [OF p(1)] unfolding queue_ok_def F2
    by (auto simp: nth_list_update new_entry_def simp del: of_nat_add)
  have sems2: "sems_ok base (net_kernel s2) rs qs" unfolding F2 by (subst p(9)) (rule sems_ok_pool [OF sems])
  have out: "b + n \<le> kpage p \<or> kpage p + 4096 \<le> b" if "outside s b n" for b n using that p(4,5) by (auto simp: outside_def)
  let ?c = "min n len"
  have sep: "disjoint_regions [(r, ?c), (a, 4), (l, 4), (pv, 2)]" using bufs(7) by auto
  have sep': "\<forall>(b, n) \<in> {(r, ?c), (a, 4), (l, 4), (pv, 2)}. b + n \<le> kpage p \<or> kpage p + 4096 \<le> b"
    using out [OF bufs(3)] out [OF bufs(4)] out [OF bufs(5)] out [OF bufs(6)] by auto
  have rec: "receiving (open_sockets s2 ! j) r len a l pv"
    using j(1) S(1) bufs by (simp add: F2 s1_def posted_def receiving_def outside_def)
  obtain x s3 k4 where turn: "pop_service_turn base slot f s2 = Inr ((False, x), s3)" "socket_recvfrom_wait base (int j) s3 = Inr (Returned (s3\<lparr>net_kernel := k4\<rparr>))"
    "net_mem s3 = delivered (kpage p) ?c r a l pv 0 (sk_port (open_sockets s ! i)) (net_mem s2)" "pool_dynamic k4 = pool_dynamic k' - {p}"
    "\<forall>q < CONFIG_POP_QUEUE_SIZE. pq_frame (pop_queue s3 ! q) = (if q = 0 then 0 else pq_frame (pop_queue s2 ! q))"
    "open_sockets s3 = (open_sockets s2)[j := received (open_sockets s2 ! j)]"
    using service_turn_delivers [OF q2 _ _ F2(2) _ _ j(1) _ rec _ sems2 ok(2) _ _ m2(1) _ m2(3) n(1,2) refl sep sep', of stamp 0 h slot f]
      P(1-4) S(3) f1 j(2,4,5) live kf(2) p(7) m2(2) S(1) I(1) by (auto simp: F2 live_def queue_ok_def)
  note D = delivered_fields [OF sep turn(3)]
  have "getn (net_mem s3) r ?c = getn (net_mem s) b ?c"
    using D(1) m2(4) take_getn [of ?c n "net_mem s2" "kpage p + 20"] take_getn [of ?c n "net_mem s" b] by simp
  moreover have "sint (of_nat ?c :: uint32) = int ?c" using bufs(2) by (intro sint_of_nat_small) simp
  moreover have "sk_rbuf (open_sockets s3 ! j) = 0" using turn(6) f1(1) j(1) by (simp add: F2 received_def)
  moreover have "\<forall>q < CONFIG_POP_QUEUE_SIZE. pq_frame (pop_queue s3 ! q) = 0" using turn(5) I(2) by (simp add: F2)
  ultimately show ?thesis
    using post send turn(1,2,4) D(2-4) p(7,8)
    by (intro exI [of _ s1] exI [of _ s2] exI [of _ s3] exI [of _ "s3\<lparr>net_kernel := k4\<rparr>"] exI [of _ x])
      (simp add: s2_def socket_recvfrom_result_def mem_bytes_eq load32_eq load16_eq NETWORK_LOOPBACK_ADDRESS_def)
qed

lemma push_oldest:
  assumes ok: "queue_ok s" and full: "\<forall>k < CONFIG_POP_QUEUE_SIZE. pq_frame (pop_queue s ! k) \<noteq> 0 \<and> pq_busy (pop_queue s ! k) = 0"
    and first: "\<forall>k. 0 < k \<and> k < CONFIG_POP_QUEUE_SIZE \<longrightarrow> pq_timestamp (pop_queue s ! 0) < pq_timestamp (pop_queue s ! k)"
      "CONFIG_POP_QUEUE_MIN_AGE \<le> now - pq_timestamp (pop_queue s ! 0)"
  shows "\<exists>s2. pop_push_frame now stamp src dest (ucast PROTOCOL_POP) frm s = Inr (1, s2) \<and> pool_ok (net_kernel s2) \<and>
    pool_dynamic (net_kernel s2) = pool_dynamic (net_kernel s) - {frame_no (pq_frame (pop_queue s ! 0))} \<and>
    pagepool_static_end (net_kernel s2) = pagepool_static_end (net_kernel s) \<and> pagepool_num_pages (net_kernel s2) = pagepool_num_pages (net_kernel s)"
proof -
  have no_free: "\<not> (\<exists>k < CONFIG_POP_QUEUE_SIZE. pq_frame (pop_queue s ! k) = 0)" and not_busy: "\<not> (\<forall>k < CONFIG_POP_QUEUE_SIZE. pq_busy (pop_queue s ! k) \<noteq> 0)"
    using full by (auto intro: exI [of _ 0])
  obtain k where k: "k < 32" "\<forall>j < 32. pq_busy (pop_queue s ! j) = 0 \<longrightarrow> pq_timestamp (pop_queue s ! k) \<le> pq_timestamp (pop_queue s ! j)"
    and r: "if now - pq_timestamp (pop_queue s ! k) < CONFIG_POP_QUEUE_MIN_AGE then pop_push_frame now stamp src dest (ucast PROTOCOL_POP) frm s = Inr (0, s)
       else \<exists>s'. pop_push_frame now stamp src dest (ucast PROTOCOL_POP) frm s = Inr (1, s') \<and>
         pool_ok (net_kernel s') \<and> pool_dynamic (net_kernel s') = pool_dynamic (net_kernel s) - {frame_no (pq_frame (pop_queue s ! k))} \<and>
         pagepool_static_end (net_kernel s') = pagepool_static_end (net_kernel s) \<and> pagepool_num_pages (net_kernel s') = pagepool_num_pages (net_kernel s)"
    using pop_push_frame_cases [OF ok, of frm stamp src now dest] unfolding Let_def if_not_P [OF no_free] if_not_P [OF not_busy] by (auto split: if_splits)
  have "k = 0"
  proof (rule ccontr)
    assume "k \<noteq> 0"
    then have "pq_timestamp (pop_queue s ! 0) < pq_timestamp (pop_queue s ! k)" using first(1) k(1) by simp
    moreover have "pq_timestamp (pop_queue s ! k) \<le> pq_timestamp (pop_queue s ! 0)" using k(2) full by simp
    ultimately show False by simp
  qed
  moreover have "\<not> now - pq_timestamp (pop_queue s ! 0) < CONFIG_POP_QUEUE_MIN_AGE" using first(2) by simp
  ultimately show ?thesis using r by (simp only: if_False)
qed

subsection \<open>Packets that stop the kernel\<close>

text \<open>
  Without an interface \<^verbatim>\<open>network_get_mtu\<close> is one too large, so a packet cut to it does not pass the assertion of
  \<^verbatim>\<open>network_send\<close>.
\<close>

lemma network_mtu_alone:
  assumes "if_gnd (network_interfaces s ! 0) = 0" "network_interfaces s \<noteq> []"
  shows "network_get_mtu NETWORK_BROADCAST_ADDRESS s = Inr 4085"
proof -
  obtain n ns where ns: "network_interfaces s = n # ns" "if_gnd n = 0" using assms by (cases "network_interfaces s") auto
  then show ?thesis by (simp add: network_get_mtu_def wrap32_small)
qed

lemma socket_sendto_too_long:
  assumes s: "length (open_sockets s) = CONFIG_MAX_OPEN_SOCKETS" "open_sockets_sem s = 1" "pop_send_buffer_sem s = 1"
    and i: "i < CONFIG_MAX_OPEN_SOCKETS" "sk_protocol (open_sockets s ! i) = PROTOCOL_POP" "dport \<noteq> 0" "buf \<noteq> 0"
    and alone: "if_gnd (network_interfaces s ! 0) = 0" "network_interfaces s \<noteq> []"
    and n: "4077 \<le> n" "n < 2 ^ 31"
  shows "socket_sendto dev now stamp (int i) addr dport buf n s = Inl (Panic ''Assertion failed'')"
proof -
  have "unat (word_of_int n :: uint32) = nat n" using n unat_of_int_small [of n] by simp
  then have "(4077 :: uint32) \<le> word_of_int n" using n by (simp add: word_le_nat_alt)
  then have sz: "min (min (word_of_int n) (word_of_int 4085 - 8)) (PAGE_SIZE - 8) = (4077 :: uint32)" by (simp add: PAGE_SIZE_def min_def)
  have lock: "V_sockets (s\<lparr>open_sockets_sem := 0\<rparr>) = s" using s(2) by (simp add: sockets_lock)
  show ?thesis
    using i s n network_mtu_alone [OF alone] sz lock
    by (simp add: socket_sendto_def sockets_lock(1) P_send_buffer_def sem_P_def Let_def network_send_def KERNEL_ASSERT_def)
qed

text \<open>A frame for which nobody listens is dropped, but its slot stays unmarked until it is.\<close>

lemma service_scan_discards:
  assumes locks: "open_sockets_sem s = 1" "pop_queue_sem s = 1" and len: "length (pop_queue s) = CONFIG_POP_QUEUE_SIZE" "length (open_sockets s) = CONFIG_MAX_OPEN_SOCKETS"
    and e: "pq_frame (pop_queue s ! 0) \<noteq> 0" "pq_socket (pop_queue s ! 0) = -1"
    and none: "\<And>k. k \<in> set (open_sockets s) \<Longrightarrow> sk_protocol k = PROTOCOL_POP \<Longrightarrow> sk_port k \<noteq> load16 (net_mem s) (pq_frame (pop_queue s ! 0) + 2)"
  shows "service_scan slot f s = Inr ((POP_ACTION_DISCARD, 0, pq_frame (pop_queue s ! 0)), s)"
proof -
  let ?s = "s\<lparr>open_sockets_sem := 0, pop_queue_sem := 0\<rparr>"
  let ?P = "\<lambda>k. sk_protocol k = PROTOCOL_POP \<and> sk_port k = load16 (net_mem s) (pq_frame (pop_queue s ! 0) + 2)"
  have "first_from (\<lambda>i. ?P (open_sockets s ! i)) 0 64 = 64" using none len(2) by (subst first_from_eq_n_iff) auto
  then have fr: "find_recipient 0 (pq_frame (pop_queue s ! 0)) ?s = Inr ?s"
    using e len by (simp add: find_recipient_def find_from_eq)
  have "service_scan_from 0 slot f ?s = Inr ((POP_ACTION_DISCARD, 0, pq_frame (pop_queue s ! 0)), ?s)"
    using e len by (subst service_scan_from.simps) (simp add: fr)
  moreover have "V_sockets (V_queue ?s) = s" using locks by (cases s) (simp add: sockets_lock queue_lock)
  ultimately show ?thesis using locks by (simp add: service_scan_def sockets_lock(1) queue_lock(1))
qed

lemma freed_frame_panics:
  assumes "pool_ok (net_kernel s)" "pagepool_num_pages (net_kernel s) \<le> 2 ^ 19" "p \<notin> pool_dynamic (net_kernel s)"
    "nat (pagepool_static_end (net_kernel s)) \<le> p" "p < nat (pagepool_num_pages (net_kernel s))"
  shows "network_free_frame (of_nat (kpage p + 12)) s = Inl (Panic ''Assertion failed'')"
proof -
  have p: "\<not> page_used (net_kernel s) p" "p < 2 ^ 19" using assms by (auto simp: pool_dynamic_def nat_less_iff)
  show ?thesis
    using pagepool_free_eq [OF assms(1,4,5)] p(1) frame_page_payload [OF p(2)] by (simp add: network_free_frame_def do_net_kernel_def del: of_nat_add)
qed

text \<open>
  C40: The service thread decides to drop a frame under the lock of the queue, but drops it after it has released the lock and without marking the
  slot.  When the queue is full and a frame arrives in between, \<^verbatim>\<open>pop_push_frame\<close> may choose that slot and give back the same page; the service
  thread then frees it a second time, and the assertion of the page pool stops the kernel.
\<close>

theorem pop_discard_race:
  assumes ok: "queue_ok s" "length (open_sockets s) = CONFIG_MAX_OPEN_SOCKETS" "open_sockets_sem s = 1"
    and full: "\<forall>k < CONFIG_POP_QUEUE_SIZE. pq_frame (pop_queue s ! k) \<noteq> 0 \<and> pq_busy (pop_queue s ! k) = 0"
    and first: "pq_socket (pop_queue s ! 0) = -1" "\<forall>k. 0 < k \<and> k < CONFIG_POP_QUEUE_SIZE \<longrightarrow> pq_timestamp (pop_queue s ! 0) < pq_timestamp (pop_queue s ! k)"
      "CONFIG_POP_QUEUE_MIN_AGE \<le> now - pq_timestamp (pop_queue s ! 0)"
    and none: "\<forall>k \<in> set (open_sockets s). sk_protocol k = PROTOCOL_POP \<longrightarrow> sk_port k \<noteq> load16 (net_mem s) (pq_frame (pop_queue s ! 0) + 2)"
  shows "\<exists>s2. service_scan slot f s = Inr ((POP_ACTION_DISCARD, 0, pq_frame (pop_queue s ! 0)), s) \<and>
    pop_push_frame now stamp src dest (ucast PROTOCOL_POP) frm s = Inr (1, s2) \<and>
    service_act base POP_ACTION_DISCARD 0 (pq_frame (pop_queue s ! 0)) s2 = Inl (Panic ''Assertion failed'')"
proof -
  let ?f = "pq_frame (pop_queue s ! 0)"
  have Q: "length (pop_queue s) = CONFIG_POP_QUEUE_SIZE" "pop_queue_sem s = 1" "pool_ok (net_kernel s)" "pagepool_num_pages (net_kernel s) \<le> 2 ^ 19"
    using ok(1) by (simp_all add: queue_ok_def)
  have f0: "frame_no ?f \<in> pool_dynamic (net_kernel s)" "?f = of_nat (kpage (frame_no ?f) + 12)" "?f \<noteq> 0"
    using ok(1) full by (simp_all add: queue_ok_def)
  have scan: "service_scan slot f s = Inr ((POP_ACTION_DISCARD, 0, ?f), s)"
    by (rule service_scan_discards) (use ok Q f0(3) first(1) none in auto)
  obtain s2 where push: "pop_push_frame now stamp src dest (ucast PROTOCOL_POP) frm s = Inr (1, s2)"
    and s2: "pool_ok (net_kernel s2)" "pool_dynamic (net_kernel s2) = pool_dynamic (net_kernel s) - {frame_no ?f}"
      "pagepool_static_end (net_kernel s2) = pagepool_static_end (net_kernel s)" "pagepool_num_pages (net_kernel s2) = pagepool_num_pages (net_kernel s)"
    using push_oldest [OF ok(1) full first(2,3)] by blast
  have "network_free_frame (of_nat (kpage (frame_no ?f) + 12)) s2 = Inl (Panic ''Assertion failed'')"
    by (rule freed_frame_panics) (use s2 Q(4) f0(1) in \<open>auto simp: pool_dynamic_def\<close>)
  with f0(2) have "network_free_frame ?f s2 = Inl (Panic ''Assertion failed'')" by metis
  then show ?thesis using scan push by (simp add: service_act_def)
qed

text \<open>A full queue, the oldest frame in front, all for port 0, which no socket has.\<close>

definition race_kernel :: sems where
  "race_kernel = sample_kernel\<lparr>pagepool_free_pages := [0xffffffff, 7], pagepool_num_pages := 40, pagepool_num_free_pages := 5\<rparr>"

definition race_net :: "(unit, unit) net" where
  "race_net = sample_net\<lparr>net_kernel := race_kernel, pop_queue := map (\<lambda>i. new_entry (of_nat (kpage (i + 3) + 12)) (of_nat (i + 1)) 0) [0..<32]\<rparr>"

lemma race_fields [simp]:
  "pagepool_num_pages race_kernel = 40" "pagepool_static_end race_kernel = 2" "pagepool_num_free_pages race_kernel = 5"
  "pagepool_slock race_kernel = 0" "length (pagepool_free_pages race_kernel) = 2"
  by (simp_all add: race_kernel_def sample_kernel_def)

lemma race_pages: "p < 40 \<Longrightarrow> page_used race_kernel p \<longleftrightarrow> p < 35"
proof -
  assume "p < 40"
  then have "p \<in> set [0..<40]" by simp
  then show ?thesis by (auto simp: upt_rec page_used_def bm_bit_def race_kernel_def sample_kernel_def)
qed

lemma race_pool: "pool_ok race_kernel" "pool_dynamic race_kernel = {2..<35}"
proof -
  have "unset_below (page_used race_kernel) 40 = {35..<40}" unfolding unset_below_def using race_pages by force
  then show "pool_ok race_kernel" using race_pages by (simp add: pool_ok_def)
  show "pool_dynamic race_kernel = {2..<35}" using race_pages unfolding pool_dynamic_def by force
qed

lemma race_queue:
  assumes "i < 32"
  shows "pop_queue race_net ! i = new_entry (of_nat (kpage (i + 3) + 12)) (of_nat (i + 1)) 0" "frame_no (of_nat (kpage (i + 3) + 12)) = i + 3"
    "(of_nat (kpage (i + 3) + 12) :: uint32) \<noteq> 0"
proof -
  show "pop_queue race_net ! i = new_entry (of_nat (kpage (i + 3) + 12)) (of_nat (i + 1)) 0" using assms by (simp add: race_net_def)
  show "frame_no (of_nat (kpage (i + 3) + 12)) = i + 3" using assms by (intro frame_no_kpage) simp
  have "unat (of_nat (kpage (i + 3) + 12) :: uint32) = kpage (i + 3) + 12" using assms by (intro unat_of_nat_small) (simp add: kpage_def)
  then show "(of_nat (kpage (i + 3) + 12) :: uint32) \<noteq> 0" by (auto simp del: of_nat_add)
qed

lemma race_queue_ok: "queue_ok race_net"
proof -
  have distinct: "(of_nat (kpage (i + 3) + 12) :: uint32) \<noteq> of_nat (kpage (j + 3) + 12)" if "i < 32" "j < 32" "i \<noteq> j" for i j
    using race_queue(2) [OF that(1)] race_queue(2) [OF that(2)] that(3) by auto
  have k: "net_kernel race_net = race_kernel" "length (pop_queue race_net) = 32" "pop_queue_sem race_net = 1" by (simp_all add: race_net_def sample_net_def)
  show ?thesis
    unfolding queue_ok_def k
    using race_pool race_queue distinct by (simp add: new_entry_def del: of_nat_add)
qed

theorem pop_discard_race_witness:
  "\<exists>f s2. service_scan 0 0 race_net = Inr ((POP_ACTION_DISCARD, 0, f), race_net) \<and>
    pop_push_frame 1000 1000 0 0 (ucast PROTOCOL_POP) 0x80023000 race_net = Inr (1, s2) \<and>
    service_act sample_base POP_ACTION_DISCARD 0 f s2 = Inl (Panic ''Assertion failed'')"
proof -
  have sk: "length (open_sockets race_net) = CONFIG_MAX_OPEN_SOCKETS" "open_sockets_sem race_net = 1" by (simp_all add: race_net_def sample_net_def)
  have full: "\<forall>k < CONFIG_POP_QUEUE_SIZE. pq_frame (pop_queue race_net ! k) \<noteq> 0 \<and> pq_busy (pop_queue race_net ! k) = 0"
    using race_queue by (simp add: new_entry_def del: of_nat_add)
  have order: "\<forall>k. 0 < k \<and> k < CONFIG_POP_QUEUE_SIZE \<longrightarrow> pq_timestamp (pop_queue race_net ! 0) < pq_timestamp (pop_queue race_net ! k)"
  proof (intro allI impI)
    fix k :: nat assume k: "0 < k \<and> k < CONFIG_POP_QUEUE_SIZE"
    then have "unat (of_nat (k + 1) :: uint32) = k + 1" by (intro unat_of_nat_small) simp
    moreover have "unat (of_nat (0 + 1) :: uint32) = 1" by simp
    ultimately show "pq_timestamp (pop_queue race_net ! 0) < pq_timestamp (pop_queue race_net ! k)"
      using race_queue(1) [of 0] race_queue(1) [of k] k by (simp add: new_entry_def word_less_nat_alt del: of_nat_add of_nat_Suc)
  qed
  have e0: "pq_socket (pop_queue race_net ! 0) = -1" "CONFIG_POP_QUEUE_MIN_AGE \<le> 1000 - pq_timestamp (pop_queue race_net ! 0)"
    using race_queue(1) [of 0] by (simp_all add: new_entry_def)
  have "load16 (net_mem race_net) a = 0" for a
    by (simp add: load16_def mem_bytes_def race_net_def sample_net_def dec32_def NUL_def numeral_2_eq_2)
  then have none: "\<forall>k \<in> set (open_sockets race_net). sk_protocol k = PROTOCOL_POP \<longrightarrow> sk_port k \<noteq> load16 (net_mem race_net) (pq_frame (pop_queue race_net ! 0) + 2)"
    by (auto simp: race_net_def sample_net_def closed_socket_def)
  from pop_discard_race [OF race_queue_ok sk full e0(1) order e0(2) none, of 0 0 1000 0 0 "0x80023000" sample_base] show ?thesis by blast
qed

subsection \<open>A packet that arrives\<close>

text \<open>A system with one socket, on port 1, whose owner sends itself five bytes and has room for three.\<close>

definition loop_kernel :: sems where
  "loop_kernel = sample_kernel\<lparr>pagepool_free_pages := [7], pagepool_num_pages := 12, pagepool_num_free_pages := 9,
     semaphore_table := (semaphore_table sample_kernel)[1 := (sample_sem 1)\<lparr>sem_value := 0\<rparr>]\<rparr>"

definition sample_gnd :: "unit gnd_ops" where
  "sample_gnd = \<lparr>gnd_send = (\<lambda>_ _ _ _ g. (0, g)), gnd_recv = (\<lambda>_ _ m g. (1, m, g)), gnd_frame_size = (\<lambda>_. 1500), gnd_hwaddr = (\<lambda>_. 1)\<rparr>"

definition loop_net :: "(unit, unit) net" where
  "loop_net = sample_net\<lparr>net_kernel := loop_kernel, net_mem := putn 0x80100000 ''hello'' (\<lambda>_. NUL), pop_send_buffer := 0x80002000\<rparr>"

lemma loop_fields [simp]:
  "sleepq_slock loop_kernel = 0" "length (semaphore_table loop_kernel) = CONFIG_MAX_SEMAPHORES" "semaphore_table_slock loop_kernel = 0"
  "semaphore_next loop_kernel = 2" "pagepool_num_pages loop_kernel = 12" "pagepool_static_end loop_kernel = 2" "pagepool_num_free_pages loop_kernel = 9"
  "pagepool_slock loop_kernel = 0" "length (pagepool_free_pages loop_kernel) = 1"
  by (simp_all add: loop_kernel_def sample_kernel_def)

lemma loop_pages: "p < 12 \<Longrightarrow> page_used loop_kernel p \<longleftrightarrow> p < 3"
proof -
  assume "p < 12"
  then have "p \<in> set [0..<12]" by simp
  then show ?thesis by (auto simp: upt_rec page_used_def bm_bit_def loop_kernel_def sample_kernel_def)
qed

lemma loop_pool: "pool_ok loop_kernel" "pool_dynamic loop_kernel = {2}"
proof -
  have "unset_below (page_used loop_kernel) 12 = {3..<12}" unfolding unset_below_def using loop_pages by force
  then show "pool_ok loop_kernel" using loop_pages by (simp add: pool_ok_def)
  show "pool_dynamic loop_kernel = {2}"
    using loop_pages unfolding pool_dynamic_def by auto
qed

lemma loop_sem: "is_sem i \<Longrightarrow> sem_row loop_kernel i = (if i = 1 then (sample_sem 1)\<lparr>sem_value := 0\<rparr> else sem_row sample_kernel i)"
  by (auto simp: sem_row_def loop_kernel_def sample_kernel_def is_sem_def CONFIG_MAX_SEMAPHORES_def nth_list_update)

lemma loop_sems_ok: "sems_ok sample_base loop_kernel [2] sample_queues"
proof -
  have sl: "sleepq_ok loop_kernel [2] sample_queues"
    by (rule sleepq_ok_frame [OF sems_okD(1) [OF sample_kernel_ok]]) (simp_all add: loop_kernel_def)
  have w: "waiters loop_kernel sample_queues = waiters sample_kernel sample_queues" by (simp add: waiters_def th_def fun_eq_iff loop_kernel_def)
  have "sem_addr sample_base 1 \<noteq> sample_base" by (simp add: sem_addr_def sample_base_def)
  then have "waiters sample_kernel sample_queues (sem_addr sample_base 1) = []" by (simp add: sample_kernel_waiters)
  moreover have "is_sem 1" by (simp add: is_sem_def CONFIG_MAX_SEMAPHORES_def)
  ultimately show ?thesis
    using sample_kernel_ok sl w loop_sem unfolding sems_ok_def
    by (auto simp: sample_sem_def split: if_splits)
qed


lemma loop_sockets_ok: "sockets_ok sample_base loop_net"
proof -
  have "live loop_kernel 1" by (simp add: live_def loop_sem is_sem_def CONFIG_MAX_SEMAPHORES_def sample_sem_def)
  then have "\<forall>e \<in> set (open_sockets loop_net). socket_ok (net_kernel loop_net) e"
    by (auto simp: loop_net_def sample_net_def closed_socket_def is_open_def socket_ok_def)
  with sample_sockets_ok loop_sems_ok show ?thesis by (auto simp: sockets_ok_def loop_net_def)
qed

lemma loop_idle: "net_idle loop_net"
  using loop_pool by (simp add: net_idle_def queue_ok_def loop_net_def sample_net_def kpage_def)

lemma loop_outside: "0x80010000 \<le> a \<Longrightarrow> a + n \<le> 2 ^ 32 \<Longrightarrow> outside loop_net a n"
  by (auto simp: outside_def loop_net_def kpage_def)


end
