(* ===== verification/Spec2Isabelle.thy ===== *)
theory Spec2Isabelle
  imports Disk_Spec User_Sem Syscall_Spec Tty_Spec Load_Spec Net_Loop
begin

text \<open>
  A verification of BUENOS, a teaching operating system in C for the YAMS simulator of a MIPS
  computer.  The kernel manages memory (\<^verbatim>\<open>vm/\<close>, \<^verbatim>\<open>kernel/kmalloc.c\<close>), schedules threads on several
  processors (\<^verbatim>\<open>kernel/\<close>), drives a disk and a terminal (\<^verbatim>\<open>drivers/\<close>), stores files
  (\<^verbatim>\<open>fs/\<close>), passes packets between sockets (\<^verbatim>\<open>net/\<close>) and runs user programs that reach it by system calls (\<^verbatim>\<open>proc/\<close>).

  \<^bold>\<open>How the program is modelled.\<close>  A C function is a HOL function from the state it reads and writes to
  its result and the new state.  The states of the kernel are records that extend one another in the
  order of the layers: processor, page pool, virtual memory, threads and scheduler, sleep queue,
  semaphores, interrupt table; a function of a layer works on every extension of its record.  The
  processes, the file systems, the drivers and the system calls have records of their own that hold the state of the
  kernel, or of the layer below, as a field.  Registers, addresses and status words are 32-bit words
  that wrap around; \<^verbatim>\<open>int\<close> values are integers, wrapped (\<open>wrap32\<close>) where the code can overflow.  Arrays are lists, and an
  access outside an array is the fault \<open>Fault\<close>; a failed assertion or a panic is the fault
  \<open>Panic\<close>; a spinlock that is taken already, or a loop that does not end, is \<open>Deadlock\<close> (theory
  \<open>Prelude\<close>, type \<open>kres\<close>).  The theorems say that the faults do not occur, or exactly when they do.

  A function that gives up the processor in the middle (\<^verbatim>\<open>semaphore_P\<close>, \<^verbatim>\<open>process_join\<close>, \<^verbatim>\<open>tty_write\<close>,
  \<^verbatim>\<open>tty_read\<close>, \<^verbatim>\<open>disk_submit_request\<close>, \<^verbatim>\<open>socket_recvfrom\<close>) is split there: the definition of the first part tells
  that the thread waits, and a definition for the rest goes on from any later state.  What other
  threads and interrupts do in between are further steps, so the theorems about these functions hold for
  every interleaving of the parts.

  \<^bold>\<open>Theories.\<close>
  \<^item> \<open>Prelude\<close>: faults, checked arrays, loops, the predicates \<open>returns\<close> and \<open>after\<close> for total and partial correctness.
  \<^item> \<open>Bitmap\<close> (\<^verbatim>\<open>lib/bitmap.c\<close>): bit fields as sets; \<^verbatim>\<open>bitmap_findnset\<close> finds the first free bit.
  \<^item> \<open>Machine\<close> (\<^verbatim>\<open>kernel/_interrupt.S\<close>, \<^verbatim>\<open>kernel/_spinlock.S\<close>): the status register, enabling and disabling interrupts, spinlocks.
  \<^item> \<open>Kmalloc\<close> (\<^verbatim>\<open>kernel/kmalloc.c\<close>): reserved regions never overlap, up to the wrap-around of huge sizes.
  \<^item> \<open>Pagepool\<close> (\<^verbatim>\<open>vm/pagepool.c\<close>): free pages as a set; a page handed out is not handed out again.
  \<^item> \<open>Vm\<close> (\<^verbatim>\<open>vm/vm.c\<close>, \<^verbatim>\<open>vm/tlb.c\<close>, \<^verbatim>\<open>vm/_tlb.S\<close>): page tables refine a partial function from pages to frames, and the TLB holds the current page table.
  \<^item> \<open>Thread\<close>, \<open>Scheduler\<close> (\<^verbatim>\<open>kernel/thread.c\<close>, \<^verbatim>\<open>kernel/scheduler.c\<close>): thread table and ready list; the invariant \<open>sched_ok\<close>, round robin.
  \<^item> \<open>Sleepq\<close>, \<open>Wake_All\<close> (\<^verbatim>\<open>kernel/sleepq.c\<close>): the hash table of waiting threads, first in first out for each resource.
  \<^item> \<open>Semaphore\<close> (\<^verbatim>\<open>kernel/semaphore.c\<close>): the value of a semaphore counts its waiters; safety and progress of all steps of the kernel, and the initial state.
  \<^item> \<open>Libc\<close> (\<^verbatim>\<open>lib/libc.c\<close>): strings and memory.
  \<^item> \<open>Gbd\<close> (\<^verbatim>\<open>drivers/gbd.h\<close>): the locale \<open>block_device\<close>, which the file system is verified against.
  \<^item> \<open>Tfs\<close>, \<open>Volume\<close>, \<open>File_Data\<close>, \<open>File_Dir\<close>, \<open>File_Create\<close>, \<open>Tfs_Spec\<close> (\<^verbatim>\<open>fs/tfs.c\<close>): the
    trivial file system refines a partial function from names to contents.
  \<^item> \<open>Vfs\<close>, \<open>Vfs_Spec\<close>, \<open>Vfs_Tfs\<close> (\<^verbatim>\<open>fs/vfs.c\<close>, \<^verbatim>\<open>fs/filesystems.c\<close>): mount table, open files, path names,
    the shutdown protocol; the virtual on top of the trivial file system.
  \<^item> \<open>Process\<close>, \<open>Process_Table\<close>, \<open>Process_Spec\<close> (\<^verbatim>\<open>proc/process.c\<close>): process table, zombie lists, spawn, join and exit.
  \<^item> \<open>Interrupt\<close> (\<^verbatim>\<open>kernel/interrupt.c\<close>): registration and dispatch of handlers, and when the scheduler runs.
  \<^item> \<open>Disk\<close>, \<open>Disk_Spec\<close> (\<^verbatim>\<open>drivers/disk.c\<close>, \<^verbatim>\<open>drivers/disksched.c\<close>): the driver refines a queue of transfers, and is an
    instance of \<open>block_device\<close>: the file system theorems hold on top of it.
  \<^item> \<open>Tty\<close>, \<open>Tty_Spec\<close> (\<^verbatim>\<open>drivers/tty.c\<close>): the two ring buffers of the terminal as queues.
  \<^item> \<open>User_Sem\<close> (\<^verbatim>\<open>proc/semaphore.c\<close>): named semaphores for user programs.
  \<^item> \<open>Syscall\<close>, \<open>Syscall_Spec\<close> (\<^verbatim>\<open>proc/syscall.c\<close>, \<^verbatim>\<open>proc/exception.c\<close>, \<^verbatim>\<open>kernel/exception.c\<close>, \<^verbatim>\<open>kernel/halt.c\<close>): from the
    system call instruction of a program to the files on the volume and back.
  \<^item> \<open>Elf\<close>, \<open>Elf_Spec\<close> (\<^verbatim>\<open>proc/elf.c\<close>): the parser of executables, equal to a specification on the bytes of the file; the locale
    \<open>byte_file\<close> of an open file, interpreted on the files of the trivial file system.
  \<^item> \<open>Load\<close>, \<open>Load_Mem\<close>, \<open>Load_Map\<close>, \<open>Load_Spec\<close> (\<^verbatim>\<open>process_start\<close> of \<^verbatim>\<open>proc/process.c\<close>): user memory through the TLB, the page
    table of a new process, the image of the program, and the missing reload of the TLB.
  \<^item> \<open>Device\<close> (\<^verbatim>\<open>drivers/device.c\<close>, \<^verbatim>\<open>drivers/drivers.c\<close>): the table of devices holds what the drivers return, in the order of the descriptors.
  \<^item> \<open>Net\<close>, \<open>Net_Socket\<close>, \<open>Net_Mem\<close>, \<open>Net_Spec\<close>, \<open>Net_Loop\<close> (\<^verbatim>\<open>net/\<close>): frames, sockets and the packet oriented protocol on the
    memory of the kernel; ports are never shared, packets to the loopback address arrive, and the service thread can free a frame twice.
  \<^bold>\<open>Interfaces.\<close>  \<open>block_device\<close> is interpreted on an array of blocks and on the disk driver.
  \<open>byte_file\<close> is the view the program loader has of an open file.
  \<open>yams_disk\<close>, \<open>yams_tty\<close> and \<open>mips_tlb\<close> state what the drivers rely on of the hardware, and each is interpreted on
  a device that behaves as the simulator documents.

  \<^bold>\<open>Parameters.\<close>  The hardware, the addresses the linker assigns and the functions behind
  pointers (interrupt handlers, file system drivers, the console) are arguments of the definitions.

  \<^bold>\<open>Bounds.\<close>  Walks along a list of threads end after \<^verbatim>\<open>CONFIG_MAX_THREADS\<close> steps, because a list without a
  cycle has no more; the zombie lists likewise end after \<^verbatim>\<open>PROCESS_MAX_PROCESSES\<close>, and the
  recursion of \<^verbatim>\<open>finish_given_process\<close> along the parents.  The walk along the disk queue, the length of a string of a user
  program and the loop that empties the terminal have the bound \<open>2 ^ 32\<close>, the number of addresses.  Reaching a bound is the
  fault \<open>Deadlock\<close>, and the theorems show that it is not reached.

  \<^bold>\<open>Not modelled.\<close>  The assembler that saves and restores registers and enters the handlers
  (\<^verbatim>\<open>kernel/cswitch.S\<close>, \<^verbatim>\<open>init/_boot.S\<close>) has no state the C code sees besides the saved context, from
  which the model starts.  A spinlock is acquired in one step: contention between processors is
  not modelled, and each operation on a shared structure runs with its lock held.  Faults of the kernel on addresses of a
  user program are outside the model of the system calls.  Output of the kernel for people (\<^verbatim>\<open>lib/xprintf.c\<close>, \<^verbatim>\<open>drivers/polltty.c\<close>) has no effect
  on its state.  The boot arguments, the clock and power devices, the test programs and the tool for disk images are not modelled.
\<close>

end
